(* ===== verification/Prelude.thy ===== *)
theory Prelude
  imports Main "HOL-Library.Word" "HOL-Library.Monad_Syntax"
begin

text \<open>
  What the other theories share: the character classes of the C library in the
  "C" locale (protost never calls setlocale), conversions between numbers and
  their decimal text (std::to_string, std::stoll), and the lemma collections
  that carry the proofs.  A C++ std::string is a list of bytes; an Isabelle
  \<open>string\<close> is a list of 8-bit characters, so the two coincide.
\<close>

named_theorems ctype "definitions of the character classes"
named_theorems frame "which fields an operation leaves alone"
named_theorems progress "how far an operation moves"

section \<open>Characters\<close>

abbreviation (input) NL :: char where "NL \<equiv> CHR 0x0A"
abbreviation (input) DQ :: char where "DQ \<equiv> CHR 0x22"
abbreviation (input) SQ :: char where "SQ \<equiv> CHR 0x27"
abbreviation (input) NUL :: char where "NUL \<equiv> CHR 0x00"

definition char_code :: "char \<Rightarrow> int" where
  "char_code c = of_char c"

definition isspace :: "char \<Rightarrow> bool" where
  [ctype]: "isspace c \<longleftrightarrow> char_code c = 32 \<or> (9 \<le> char_code c \<and> char_code c \<le> 13)"

definition isdigit :: "char \<Rightarrow> bool" where
  [ctype]: "isdigit c \<longleftrightarrow> 48 \<le> char_code c \<and> char_code c \<le> 57"

definition isupper :: "char \<Rightarrow> bool" where
  [ctype]: "isupper c \<longleftrightarrow> 65 \<le> char_code c \<and> char_code c \<le> 90"

definition islower :: "char \<Rightarrow> bool" where
  [ctype]: "islower c \<longleftrightarrow> 97 \<le> char_code c \<and> char_code c \<le> 122"

definition isalpha :: "char \<Rightarrow> bool" where
  [ctype]: "isalpha c \<longleftrightarrow> isupper c \<or> islower c"

definition isalnum :: "char \<Rightarrow> bool" where
  [ctype]: "isalnum c \<longleftrightarrow> isalpha c \<or> isdigit c"

definition toupper :: "char \<Rightarrow> char" where
  "toupper c = (if islower c then char_of (char_code c - 32) else c)"

definition tolower :: "char \<Rightarrow> char" where
  "tolower c = (if isupper c then char_of (char_code c + 32) else c)"

definition is_ident_char :: "char \<Rightarrow> bool" where
  "is_ident_char c \<longleftrightarrow> isalnum c \<or> c = CHR ''_''"

lemma isdigit_not_space [simp]: "isdigit c \<Longrightarrow> \<not> isspace c"
  by (auto simp: ctype)

lemma isalpha_not_digit: "isalpha c \<Longrightarrow> \<not> isdigit c"
  by (auto simp: ctype)

lemma isalpha_not_space: "isalpha c \<Longrightarrow> \<not> isspace c"
  by (auto simp: ctype)

lemma not_isspace_chars [simp]:
  "\<not> isspace DQ" "\<not> isspace SQ" "isspace NL" "\<not> isdigit NL" "\<not> isalpha NL"
  by (simp_all add: ctype char_code_def)

section \<open>Numbers and their text\<close>

definition digit_char :: "int \<Rightarrow> char" where
  "digit_char d = char_of (48 + d)"

text \<open>The value of a digit as the lexer's \<open>isDigitIn\<close> computes it; 99 for a non-digit.\<close>

definition digit_val :: "char \<Rightarrow> int" where
  "digit_val c =
     (if isdigit c then char_code c - 48
      else if isalpha c then char_code (toupper c) - 65 + 10
      else 99)"

definition digits_value :: "int \<Rightarrow> string \<Rightarrow> int" where
  "digits_value base ds = foldl (\<lambda>v c. v * base + digit_val c) 0 ds"

text \<open>std::to_string: the decimal digits of a number, a sign for a negative one.\<close>

function show_pos :: "int \<Rightarrow> string" where
  "show_pos i = (if i < 10 then [digit_char i] else show_pos (i div 10) @ [digit_char (i mod 10)])"
  by pat_completeness auto
termination
  by (relation "measure nat") auto

declare show_pos.simps [simp del]

definition show_int :: "int \<Rightarrow> string" where
  "show_int i = (if i < 0 then CHR ''-'' # show_pos (- i) else show_pos i)"

abbreviation show_nat :: "nat \<Rightarrow> string" where
  "show_nat n \<equiv> show_int (int n)"

lemma char_code_digit_char [simp]: "0 \<le> d \<Longrightarrow> d < 10 \<Longrightarrow> char_code (digit_char d) = 48 + d"
  by (simp add: char_code_def digit_char_def of_char_of)

lemma isdigit_digit_char [simp]: "0 \<le> d \<Longrightarrow> d < 10 \<Longrightarrow> isdigit (digit_char d)"
  by (simp add: isdigit_def)

lemma digit_val_digit_char [simp]: "0 \<le> d \<Longrightarrow> d < 10 \<Longrightarrow> digit_val (digit_char d) = d"
  by (simp add: digit_val_def)

lemma digits_value_append:
  "digits_value b (xs @ [c]) = digits_value b xs * b + digit_val c"
  by (simp add: digits_value_def)

lemma show_pos_digits: "0 \<le> i \<Longrightarrow> list_all isdigit (show_pos i)"
  by (induction i rule: show_pos.induct) (subst show_pos.simps, auto)

lemma show_pos_not_Nil [simp]: "show_pos i \<noteq> []"
  by (subst show_pos.simps) simp

lemma digits_value_show_pos [simp]: "0 \<le> i \<Longrightarrow> digits_value 10 (show_pos i) = i"
proof (induction i rule: show_pos.induct)
  case (1 i)
  show ?case
  proof (cases "i < 10")
    case True
    with "1.prems" show ?thesis by (subst show_pos.simps) (simp add: digits_value_def)
  next
    case False
    with 1 have "digits_value 10 (show_pos (i div 10)) = i div 10" by simp
    with False show ?thesis
      by (subst show_pos.simps) (simp add: digits_value_append)
  qed
qed

lemma show_pos_inj: "0 \<le> i \<Longrightarrow> 0 \<le> j \<Longrightarrow> show_pos i = show_pos j \<Longrightarrow> i = j"
  by (metis digits_value_show_pos)

lemma char_code_nonneg [simp]: "0 \<le> char_code c"
  unfolding char_code_def by (metis of_nat_0_le_iff of_nat_of_char)

lemma digit_val_nonneg [simp]: "0 \<le> digit_val c"
proof (cases "isalpha c \<and> \<not> isdigit c")
  case True
  then have "65 \<le> char_code (toupper c)"
  proof (cases "islower c")
    case True
    then have "97 \<le> char_code c" "char_code c \<le> 122" by (simp_all add: islower_def)
    then have "char_code (char_of (char_code c - 32)) = char_code c - 32"
      by (simp add: char_code_def of_char_of)
    with True \<open>97 \<le> char_code c\<close> show ?thesis by (simp add: toupper_def)
  qed (use True in \<open>auto simp: isalpha_def isupper_def toupper_def\<close>)
  with True show ?thesis by (simp add: digit_val_def)
qed (auto simp: digit_val_def isdigit_def)

lemma digits_value_nonneg [simp]: "0 \<le> b \<Longrightarrow> 0 \<le> digits_value b ds"
proof (induction ds rule: rev_induct)
  case Nil
  show ?case by (simp add: digits_value_def)
qed (simp add: digits_value_append)

section \<open>Lists\<close>

definition substr :: "string \<Rightarrow> nat \<Rightarrow> nat \<Rightarrow> string" where
  "substr s start len = take len (drop start s)"

lemma takeWhile_all_then:
  "list_all P xs \<Longrightarrow> \<not> P y \<Longrightarrow> takeWhile P (xs @ y # ys) = xs"
  by (induction xs) auto

lemma takeWhile_all_end: "list_all P xs \<Longrightarrow> takeWhile P xs = xs"
  by (induction xs) auto

lemma dropWhile_all_then:
  "list_all P xs \<Longrightarrow> \<not> P y \<Longrightarrow> dropWhile P (xs @ y # ys) = y # ys"
  by (induction xs) auto

lemma dropWhile_all_end: "list_all P xs \<Longrightarrow> dropWhile P xs = []"
  by (induction xs) auto

lemma if_None_eq_Some: "((if b then x else None) = Some r) \<longleftrightarrow> b \<and> x = Some r"
  by simp

end
