(* ===== verification/Token.thy ===== *)
theory Token
  imports Prelude
begin

text \<open>
  The tokens of src/frontend/Token.h and the binary64 numbers a float literal
  denotes.  A double is kept as sign, significand and binary exponent;
  \<open>stod\<close> is the C library's correctly rounded conversion (ties to
  even), answering \<open>None\<close> where std::stod throws std::out_of_range
  (overflow, or a subnormal result that is not exact).
\<close>

section \<open>Token kinds\<close>

datatype token_kind =
    T_Integer | T_Float | T_String | T_Char | T_Symbol
  | T_True | T_False | T_Nil
  | T_Identifier | T_Keyword | T_BinaryOp
  | T_LParen | T_RParen | T_LBracket | T_RBracket | T_LBrace | T_RBrace
  | T_HashLParen | T_Pipe | T_Period | T_Semicolon | T_Caret | T_Assign
  | T_Colon | T_GtGt
  | T_EndOfFile | T_Error

fun tokenKindName :: "token_kind \<Rightarrow> string" where
  "tokenKindName T_Integer = ''Integer''"
| "tokenKindName T_Float = ''Float''"
| "tokenKindName T_String = ''String''"
| "tokenKindName T_Char = ''Char''"
| "tokenKindName T_Symbol = ''Symbol''"
| "tokenKindName T_True = ''True''"
| "tokenKindName T_False = ''False''"
| "tokenKindName T_Nil = ''Nil''"
| "tokenKindName T_Identifier = ''Identifier''"
| "tokenKindName T_Keyword = ''Keyword''"
| "tokenKindName T_BinaryOp = ''BinaryOp''"
| "tokenKindName T_LParen = ''LParen''"
| "tokenKindName T_RParen = ''RParen''"
| "tokenKindName T_LBracket = ''LBracket''"
| "tokenKindName T_RBracket = ''RBracket''"
| "tokenKindName T_LBrace = ''LBrace''"
| "tokenKindName T_RBrace = ''RBrace''"
| "tokenKindName T_HashLParen = ''HashLParen''"
| "tokenKindName T_Pipe = ''Pipe''"
| "tokenKindName T_Period = ''Period''"
| "tokenKindName T_Semicolon = ''Semicolon''"
| "tokenKindName T_Caret = ''Caret''"
| "tokenKindName T_Assign = ''Assign''"
| "tokenKindName T_Colon = ''Colon''"
| "tokenKindName T_GtGt = ''GtGt''"
| "tokenKindName T_EndOfFile = ''EOF''"
| "tokenKindName T_Error = ''Error''"

section \<open>Doubles\<close>

text \<open>\<open>Dbl neg m e\<close> is the number \<open>(-1)^neg * m * 2^e\<close>.\<close>

datatype dbl = Dbl (dbl_neg: bool) (dbl_mant: int) (dbl_exp: int)

definition dbl_zero :: dbl where
  "dbl_zero = Dbl False 0 0"

text \<open>The number of bits of a non-negative number (0 for 0).\<close>

function bit_length :: "int \<Rightarrow> int" where
  "bit_length n = (if n \<le> 0 then 0 else 1 + bit_length (n div 2))"
  by pat_completeness auto
termination
  by (relation "measure nat") auto

declare bit_length.simps [simp del]

definition round_half_even :: "int \<Rightarrow> int \<Rightarrow> int" where
  "round_half_even num den =
     (let q = num div den; r = num mod den
      in if 2 * r < den \<or> (2 * r = den \<and> even q) then q else q + 1)"

text \<open>
  The double nearest to \<open>num / den\<close>: the exponent is the least one (but
  not below -1074) whose quotient has at most 53 bits.
\<close>

definition scaled_quot :: "int \<Rightarrow> int \<Rightarrow> int \<Rightarrow> int \<times> int" where
  "scaled_quot num den e =
     (if 0 \<le> e then (num, den * 2 ^ nat e) else (num * 2 ^ nat (- e), den))"

definition pick_exp :: "int \<Rightarrow> int \<Rightarrow> int" where
  "pick_exp num den =
     (let e0 = bit_length num - bit_length den - 53;
          (n0, d0) = scaled_quot num den e0;
          e1 = (if n0 div d0 < 2 ^ 53 then e0 else e0 + 1)
      in max e1 (- 1074))"

definition round_to_double :: "bool \<Rightarrow> int \<Rightarrow> int \<Rightarrow> dbl option" where
  "round_to_double neg num den =
     (if num = 0 then Some (Dbl neg 0 0)
      else
        (let e = pick_exp num den;
             (n, d) = scaled_quot num den e;
             m = round_half_even n d
         in if e \<ge> 972 \<or> (e = 971 \<and> m \<ge> 2 ^ 53) then None
            else if m < 2 ^ 52 \<and> n mod d \<noteq> 0 then None
            else Some (Dbl neg m e)))"

text \<open>
  The decimal number of \<open>[-]digits[.frac][e[-]exp]\<close>, the shape
  \<open>lexNumber\<close> hands to std::stod.
\<close>

definition stod_parts :: "bool \<Rightarrow> string \<Rightarrow> string \<Rightarrow> string \<Rightarrow> dbl option" where
  "stod_parts neg digits frac ex =
     (let d = digits_value 10 (digits @ frac);
          x = (case ex of [] \<Rightarrow> 0
               | c # cs \<Rightarrow> if c = CHR ''-'' then - digits_value 10 cs else digits_value 10 ex);
          e = x - int (length frac)
      in if 0 \<le> e then round_to_double neg (d * 10 ^ nat e) 1
         else round_to_double neg d (10 ^ nat (- e)))"

section \<open>Tokens\<close>

record token =
  t_kind :: token_kind
  t_text :: string
  t_int :: int
  t_float :: dbl
  t_line :: int
  t_col :: int
  t_blank :: bool
  t_large :: bool
  t_radix :: int

text \<open>A default-constructed \<open>Token\<close> with its kind, text and position set.\<close>

definition mk_token :: "token_kind \<Rightarrow> string \<Rightarrow> int \<Rightarrow> int \<Rightarrow> token" where
  "mk_token k txt l c =
     \<lparr>t_kind = k, t_text = txt, t_int = 0, t_float = dbl_zero, t_line = l, t_col = c,
      t_blank = False, t_large = False, t_radix = 10\<rparr>"

lemma mk_token_sel [simp]:
  "t_kind (mk_token k x l c) = k" "t_text (mk_token k x l c) = x"
  "t_line (mk_token k x l c) = l" "t_col (mk_token k x l c) = c"
  "t_int (mk_token k x l c) = 0" "t_large (mk_token k x l c) = False"
  "t_radix (mk_token k x l c) = 10" "t_blank (mk_token k x l c) = False"
  by (simp_all add: mk_token_def)

end
