(* ===== verification/Lexer.thy ===== *)
theory Lexer
  imports Token
begin

text \<open>
  src/frontend/Lexer.cpp: the lexer's state is a record with the fields of
  class Lexer; every member function takes the state and returns it updated.
  A loop over the source is recursion with the number of unread bytes as its
  measure.  \<open>lex_number\<close> is split at the three places where the code
  leaves it (radix literal, exponent, the choice of Integer or Float).
\<close>

section \<open>State\<close>

record lexer =
  lx_source :: string
  lx_pos :: nat
  lx_line :: int
  lx_col :: int
  lx_lookahead :: "token list"
  lx_blank :: bool
  lx_unterminated :: bool
  lx_uline :: int
  lx_ucol :: int
  lx_prev :: token_kind

definition isOperatorChar :: "char \<Rightarrow> bool" where
  "isOperatorChar c \<longleftrightarrow> c \<in> set ''+*/&,@=~<>%?!-'' \<or> c = CHR 0x5C"

text \<open>The constructor: a first line starting with \<open>#!\<close> is skipped up to its newline.\<close>

definition lexer_init :: "string \<Rightarrow> lexer" where
  "lexer_init src =
     \<lparr>lx_source = src,
      lx_pos = (if take 2 src = ''#!'' then length (takeWhile (\<lambda>c. c \<noteq> NL) src) else 0),
      lx_line = 1, lx_col = 1, lx_lookahead = [], lx_blank = False,
      lx_unterminated = False, lx_uline = 0, lx_ucol = 0, lx_prev = T_EndOfFile\<rparr>"

section \<open>Reading the source\<close>

abbreviation unread :: "lexer \<Rightarrow> bool" where
  "unread lx \<equiv> lx_pos lx < length (lx_source lx)"

abbreviation here :: "lexer \<Rightarrow> char" where
  "here lx \<equiv> lx_source lx ! lx_pos lx"

definition advance :: "lexer \<Rightarrow> lexer" where
  "advance lx =
     (if \<not> unread lx then lx
      else if here lx = NL
           then lx\<lparr>lx_line := lx_line lx + 1, lx_col := 1, lx_pos := lx_pos lx + 1\<rparr>
           else lx\<lparr>lx_col := lx_col lx + 1, lx_pos := lx_pos lx + 1\<rparr>)"

text \<open>\<open>current()\<close> and \<open>lookahead(k)\<close>: the NUL byte past the end.\<close>

definition current :: "lexer \<Rightarrow> char" where
  "current lx = (if unread lx then here lx else NUL)"

definition look :: "nat \<Rightarrow> lexer \<Rightarrow> char" where
  "look k lx = (if lx_pos lx + k < length (lx_source lx) then lx_source lx ! (lx_pos lx + k) else NUL)"

lemma advance_source [simp]: "lx_source (advance lx) = lx_source lx"
  by (simp add: advance_def)

lemma advance_pos [simp]: "lx_pos (advance lx) = (if unread lx then Suc (lx_pos lx) else lx_pos lx)"
  by (simp add: advance_def)

lemma advance_frame [simp, frame]:
  "lx_lookahead (advance lx) = lx_lookahead lx"
  "lx_blank (advance lx) = lx_blank lx"
  "lx_unterminated (advance lx) = lx_unterminated lx"
  "lx_uline (advance lx) = lx_uline lx"
  "lx_ucol (advance lx) = lx_ucol lx"
  "lx_prev (advance lx) = lx_prev lx"
  by (simp_all add: advance_def)

text \<open>The loop \<open>while (pos_ < size && P(source_[pos_])) advance();\<close>.\<close>

function advance_while :: "(char \<Rightarrow> bool) \<Rightarrow> lexer \<Rightarrow> lexer" where
  "advance_while P lx =
     (if unread lx \<and> P (here lx) then advance_while P (advance lx) else lx)"
  by pat_completeness auto
termination
  by (relation "measure (\<lambda>(P, lx). length (lx_source lx) - lx_pos lx)") auto

declare advance_while.simps [simp del]

text \<open>The bytes read between two states (the code accumulates them one by one).\<close>

definition lexeme :: "lexer \<Rightarrow> lexer \<Rightarrow> string" where
  "lexeme lx lx' = substr (lx_source lx) (lx_pos lx) (lx_pos lx' - lx_pos lx)"

definition makeError :: "string \<Rightarrow> int \<Rightarrow> int \<Rightarrow> token" where
  "makeError msg l c = mk_token T_Error msg l c"

section \<open>White space, comments and blank lines\<close>

lemma advance_while_stop: "\<not> (unread lx \<and> P (here lx)) \<Longrightarrow> advance_while P lx = lx"
  by (subst advance_while.simps) auto

lemma advance_while_step:
  "unread lx \<Longrightarrow> P (here lx) \<Longrightarrow> advance_while P lx = advance_while P (advance lx)"
  by (subst advance_while.simps) auto

lemma advance_while_pos_ge: "lx_pos lx \<le> lx_pos (advance_while P lx)"
proof (induction P lx rule: advance_while.induct)
  case (1 P lx)
  then show ?case
    by (cases "unread lx \<and> P (here lx)") (auto simp: advance_while_step advance_while_stop)
qed

lemma advance_while_source [simp]: "lx_source (advance_while P lx) = lx_source lx"
  by (induction P lx rule: advance_while.induct) (subst advance_while.simps, simp)

function skipWhitespace :: "lexer \<Rightarrow> lexer" where
  "skipWhitespace lx =
     (if \<not> unread lx then lx
      else if isspace (here lx) then skipWhitespace (advance lx)
      else if here lx = DQ then
        (let lx1 = advance_while (\<lambda>c. c \<noteq> DQ) (advance lx)
         in if unread lx1 then skipWhitespace (advance lx1)
            else lx1\<lparr>lx_unterminated := True, lx_uline := lx_line lx, lx_ucol := lx_col lx\<rparr>)
      else lx)"
  by pat_completeness auto
termination
proof (relation "measure (\<lambda>lx. length (lx_source lx) - lx_pos lx)", goal_cases)
  case 1
  show ?case by simp
next
  case (2 lx)
  then show ?case by auto
next
  case (3 lx x)
  have "lx_pos (advance lx) \<le> lx_pos x"
    unfolding 3(4) by (rule advance_while_pos_ge)
  with 3 show ?case by auto
qed

declare skipWhitespace.simps [simp del]

text \<open>
  \<open>containsBlankLine(from, to)\<close> scans the skipped bytes with three flags:
  a newline was seen, the line has content, a comment is open.
\<close>

fun blank_scan :: "bool \<Rightarrow> bool \<Rightarrow> bool \<Rightarrow> string \<Rightarrow> bool" where
  "blank_scan nl content com [] = False"
| "blank_scan nl content com (c # cs) =
     (if c = DQ then blank_scan nl True (\<not> com) cs
      else if c = NL then
        (if nl \<and> \<not> content then True else blank_scan True com com cs)
      else blank_scan nl (content \<or> com \<or> \<not> isspace c) com cs)"

definition containsBlankLine :: "string \<Rightarrow> nat \<Rightarrow> nat \<Rightarrow> bool" where
  "containsBlankLine src from to = blank_scan False True False (substr src from (to - from))"

section \<open>The token forms\<close>

definition lexIdentifier :: "lexer \<Rightarrow> token \<times> lexer" where
  "lexIdentifier lx =
     (let lx1 = advance_while is_ident_char lx
      in if unread lx1 \<and> here lx1 = CHR '':'' \<and>
            (lx_pos lx1 + 1 \<ge> length (lx_source lx1) \<or> lx_source lx1 ! (lx_pos lx1 + 1) \<noteq> CHR ''='')
         then (let lx2 = advance lx1
               in (mk_token T_Keyword (lexeme lx lx2) (lx_line lx) (lx_col lx), lx2))
         else (let txt = lexeme lx lx1;
                   k = (if txt = ''true'' then T_True
                        else if txt = ''false'' then T_False
                        else if txt = ''nil'' then T_Nil
                        else T_Identifier)
               in (mk_token k txt (lx_line lx) (lx_col lx), lx1)))"

definition isDigitIn :: "char \<Rightarrow> int \<Rightarrow> bool" where
  "isDigitIn c base \<longleftrightarrow> digit_val c < base"

text \<open>std::stoi and std::stoll on a run of digits; \<open>None\<close> is std::out_of_range.\<close>

definition stoi :: "string \<Rightarrow> int option" where
  "stoi ds = (let v = digits_value 10 ds in if v < 2 ^ 31 then Some v else None)"

definition stoll :: "bool \<Rightarrow> int \<Rightarrow> string \<Rightarrow> int option" where
  "stoll negative base ds =
     (let v = digits_value base ds; sv = (if negative then - v else v)
      in if - (2 ^ 63) \<le> sv \<and> sv < 2 ^ 63 then Some sv else None)"

definition sign_text :: "bool \<Rightarrow> string" where
  "sign_text negative = (if negative then ''-'' else [])"

text \<open>
  A radix literal \<open>16rFF\<close>; \<open>None\<close> when the code falls through to the
  decimal forms. \<open>lx\<close> is at the byte after the leading digits.
\<close>

definition lexRadix :: "bool \<Rightarrow> string \<Rightarrow> int \<Rightarrow> int \<Rightarrow> lexer \<Rightarrow> (token \<times> lexer) option" where
  "lexRadix negative digits startLine startCol lx =
     (if lx_pos lx + 1 < length (lx_source lx) \<and> here lx = CHR ''r'' then
        (let base = (case stoi digits of Some b \<Rightarrow> b | None \<Rightarrow> 0)
         in if 2 \<le> base \<and> base \<le> 36 \<and> isDigitIn (look 1 lx) base then
              (let lx1 = advance lx;
                   lx2 = advance_while (\<lambda>c. isDigitIn c base) lx1;
                   rd = map toupper (lexeme lx1 lx2);
                   t = mk_token T_Integer (sign_text negative @ digits @ ''r'' @ rd) startLine startCol
               in Some (case stoll False base rd of
                          Some v \<Rightarrow> (t\<lparr>t_int := (if negative then - v else v)\<rparr>, lx2)
                        | None \<Rightarrow> (t\<lparr>t_large := True, t_radix := base,
                                    t_text := sign_text negative @ rd\<rparr>, lx2)))
            else None)
      else None)"

text \<open>The fraction \<open>.digits\<close>: whether there is one, its digits.\<close>

definition lexFraction :: "lexer \<Rightarrow> bool \<times> string \<times> lexer" where
  "lexFraction lx =
     (if unread lx \<and> here lx = CHR ''.'' \<and> lx_pos lx + 1 < length (lx_source lx) \<and> isdigit (look 1 lx)
      then (let lx1 = advance lx; lx2 = advance_while isdigit lx1 in (True, lexeme lx1 lx2, lx2))
      else (False, [], lx))"

definition lexExponent :: "lexer \<Rightarrow> string \<times> lexer" where
  "lexExponent lx =
     (if lx_pos lx + 1 < length (lx_source lx) \<and> here lx = CHR ''e'' then
        (let neg = (look 1 lx = CHR ''-'');
             firstDigit = lx_pos lx + (if neg then 2 else 1)
         in if firstDigit < length (lx_source lx) \<and> isdigit (lx_source lx ! firstDigit) then
              (let lx1 = (if neg then advance (advance lx) else advance lx);
                   lx2 = advance_while isdigit lx1
               in (sign_text neg @ lexeme lx1 lx2, lx2))
            else ([], lx))
      else ([], lx))"

text \<open>
  The token of a decimal literal once its parts are read.  A non-negative
  exponent on an integer mantissa appends zeros; \<open>stoi\<close> overflowing on the
  exponent makes it 400, which passes the test for "too large".
\<close>

definition decimal_token ::
  "bool \<Rightarrow> string \<Rightarrow> bool \<Rightarrow> string \<Rightarrow> string \<Rightarrow> int \<Rightarrow> int \<Rightarrow> token" where
  "decimal_token negative digits isFloat frac ex l c =
     (let integral = (\<not> isFloat \<and> ex \<noteq> [] \<and> hd ex \<noteq> CHR ''-'');
          e = (case stoi ex of Some v \<Rightarrow> v | None \<Rightarrow> 400)
      in if integral \<and> e > 400 then makeError ''integer literal exponent too large'' l c
         else
           (let digits' = (if integral then digits @ replicate (nat e) (CHR ''0'') else digits);
                ex' = (if integral then [] else ex);
                sign = sign_text negative
            in if isFloat \<or> ex' \<noteq> [] then
                 (let txt = sign @ digits' @ (if frac = [] then [] else ''.'' @ frac) @
                            (if ex' = [] then [] else ''e'' @ ex')
                  in case stod_parts negative digits' frac ex' of
                       Some d \<Rightarrow> (mk_token T_Float txt l c)\<lparr>t_float := d\<rparr>
                     | None \<Rightarrow> makeError ''float literal out of range'' l c)
               else
                 (case stoll negative 10 digits' of
                    Some v \<Rightarrow> (mk_token T_Integer (sign @ digits') l c)\<lparr>t_int := v\<rparr>
                  | None \<Rightarrow> (mk_token T_Integer (sign @ digits') l c)\<lparr>t_large := True, t_radix := 10\<rparr>)))"

definition lexNumber :: "bool \<Rightarrow> lexer \<Rightarrow> token \<times> lexer" where
  "lexNumber negative lx =
     (let startLine = lx_line lx;
          startCol = (if negative then lx_col lx - 1 else lx_col lx);
          lx1 = advance_while isdigit lx;
          digits = lexeme lx lx1
      in case lexRadix negative digits startLine startCol lx1 of
           Some r \<Rightarrow> r
         | None \<Rightarrow>
             (let (isFloat, frac, lx2) = lexFraction lx1;
                  (ex, lx3) = lexExponent lx2
              in (decimal_token negative digits isFloat frac ex startLine startCol, lx3)))"

function lexString_loop :: "int \<Rightarrow> int \<Rightarrow> string \<Rightarrow> lexer \<Rightarrow> token \<times> lexer" where
  "lexString_loop l c out lx =
     (if \<not> unread lx then (makeError ''unterminated string literal'' l c, lx)
      else if here lx = SQ then
        (if lx_pos lx + 1 < length (lx_source lx) \<and> lx_source lx ! (lx_pos lx + 1) = SQ
         then lexString_loop l c (out @ [SQ]) (advance (advance lx))
         else (mk_token T_String out l c, advance lx))
      else lexString_loop l c (out @ [here lx]) (advance lx))"
  by pat_completeness auto
termination
  by (relation "measure (\<lambda>(l, c, out, lx). length (lx_source lx) - lx_pos lx)") auto

declare lexString_loop.simps [simp del]

definition lexString :: "lexer \<Rightarrow> token \<times> lexer" where
  "lexString lx = lexString_loop (lx_line lx) (lx_col lx) [] (advance lx)"

definition lexChar :: "lexer \<Rightarrow> token \<times> lexer" where
  "lexChar lx =
     (let lx1 = advance lx
      in if \<not> unread lx1 then (makeError ''unterminated char literal'' (lx_line lx) (lx_col lx), lx1)
         else (mk_token T_Char [here lx1] (lx_line lx) (lx_col lx), advance lx1))"

text \<open>The chain of \<open>:name\<close> segments of a keyword-selector symbol.\<close>

function symbol_chain :: "lexer \<Rightarrow> lexer" where
  "symbol_chain lx =
     (if unread lx \<and> here lx = CHR '':'' \<and>
         (lx_pos lx + 1 \<ge> length (lx_source lx) \<or> lx_source lx ! (lx_pos lx + 1) \<noteq> CHR ''='')
      then symbol_chain (advance_while is_ident_char (advance lx))
      else lx)"
  by pat_completeness auto
termination
proof (relation "measure (\<lambda>lx. length (lx_source lx) - lx_pos lx)", goal_cases)
  case 1
  show ?case by simp
next
  case (2 lx)
  have "lx_pos (advance lx) \<le> lx_pos (advance_while is_ident_char (advance lx))"
    by (rule advance_while_pos_ge)
  with 2 show ?case by auto
qed

declare symbol_chain.simps [simp del]

definition symbolBinChar :: "char \<Rightarrow> bool" where
  "symbolBinChar c \<longleftrightarrow> c \<in> set ''+-*/=~<>&|@,''"

definition lexSymbol :: "lexer \<Rightarrow> token \<times> lexer" where
  "lexSymbol lx =
     (let l = lx_line lx; co = lx_col lx; lx1 = advance lx
      in if \<not> unread lx1 then (makeError ''incomplete symbol'' l co, lx1)
         else if isalpha (here lx1) \<or> here lx1 = CHR ''_'' then
           (let lx2 = symbol_chain (advance_while is_ident_char lx1)
            in (mk_token T_Symbol (lexeme lx1 lx2) l co, lx2))
         else if symbolBinChar (here lx1) then
           (let lx2 = advance lx1;
                lx3 = (if unread lx2 \<and> symbolBinChar (here lx2) then advance lx2 else lx2)
            in (mk_token T_Symbol (lexeme lx1 lx3) l co, lx3))
         else (makeError ''malformed symbol literal'' l co, lx1))"

section \<open>The tokeniser\<close>

definition endsOperand :: "token_kind \<Rightarrow> bool" where
  "endsOperand k \<longleftrightarrow> k \<in> {T_Integer, T_Float, T_String, T_Char, T_Symbol, T_True, T_False, T_Nil,
                         T_Identifier, T_RParen, T_RBracket, T_RBrace}"

definition prevEndsOperand :: "lexer \<Rightarrow> bool" where
  "prevEndsOperand lx = endsOperand (lx_prev lx)"

fun single_kind :: "char \<Rightarrow> token_kind option" where
  "single_kind c =
     (if c = CHR ''('' then Some T_LParen
      else if c = CHR '')'' then Some T_RParen
      else if c = CHR ''['' then Some T_LBracket
      else if c = CHR '']'' then Some T_RBracket
      else if c = CHR ''{'' then Some T_LBrace
      else if c = CHR ''}'' then Some T_RBrace
      else if c = CHR ''.'' then Some T_Period
      else if c = CHR '';'' then Some T_Semicolon
      else if c = CHR ''^'' then Some T_Caret
      else if c = CHR ''|'' then Some T_Pipe
      else None)"

text \<open>The \<open>case '-'\<close> branch: an arrow, a negative literal, or the minus operator.\<close>

definition lexMinus :: "bool \<Rightarrow> lexer \<Rightarrow> token \<times> lexer" where
  "lexMinus spaceBefore lx =
     (if look 1 lx = CHR ''>''
      then (mk_token T_BinaryOp ''->'' (lx_line lx) (lx_col lx), advance (advance lx))
      else if isdigit (look 1 lx) \<and> (\<not> prevEndsOperand lx \<or> spaceBefore)
      then lexNumber True (advance lx)
      else (mk_token T_BinaryOp ''-'' (lx_line lx) (lx_col lx), advance lx))"

text \<open>A run of operator characters, and what is left: an unknown character.\<close>

definition lexOperator :: "lexer \<Rightarrow> token \<times> lexer" where
  "lexOperator lx =
     (let l = lx_line lx; co = lx_col lx; c = here lx
      in if isOperatorChar c \<and> c \<noteq> CHR ''-'' then
           (let lx1 = advance_while (\<lambda>d. isOperatorChar d \<and> d \<noteq> CHR ''-'') lx;
                op = lexeme lx lx1
            in if op = ''>>'' then (mk_token T_GtGt op l co, lx1)
               else if op = [CHR 0x5C] \<or> op = ''~'' then
                 (makeError (''unexpected '' @ [SQ] @ op @ [SQ]) l co, lx1)
               else (mk_token T_BinaryOp op l co, lx1))
         else (makeError (''unexpected character '' @ [SQ, c, SQ]) l co, advance lx))"

text \<open>\<open>nextImpl_\<close> after white space: dispatch on the first character.\<close>

definition lexDispatch :: "bool \<Rightarrow> lexer \<Rightarrow> token \<times> lexer" where
  "lexDispatch spaceBefore lx =
     (let c = here lx; l = lx_line lx; co = lx_col lx
      in if isalpha c \<or> c = CHR ''_'' then lexIdentifier lx
         else if isdigit c then lexNumber False lx
         else if c = CHR ''#'' then
           (if look 1 lx = CHR ''(''
            then (mk_token T_HashLParen ''#('' l co, advance (advance lx))
            else lexSymbol lx)
         else if c = SQ then lexString lx
         else if c = CHR ''$'' then lexChar lx
         else (case single_kind c of
                 Some k \<Rightarrow> (mk_token k [c] l co, advance lx)
               | None \<Rightarrow>
                   if c = CHR ''-'' then lexMinus spaceBefore lx
                   else if c = CHR '':'' then
                     (if look 1 lx = CHR ''=''
                      then (mk_token T_Assign '':='' l co, advance (advance lx))
                      else (mk_token T_Colon [c] l co, advance lx))
                   else lexOperator lx))"

definition nextImpl :: "lexer \<Rightarrow> token \<times> lexer" where
  "nextImpl lx =
     (let lx1 = skipWhitespace lx;
          spaceBefore = (lx_pos lx1 \<noteq> lx_pos lx);
          lx2 = lx1\<lparr>lx_blank := containsBlankLine (lx_source lx) (lx_pos lx) (lx_pos lx1)\<rparr>
      in if lx_unterminated lx2 then
           (makeError ''unterminated comment (opened here)'' (lx_uline lx2) (lx_ucol lx2),
            lx2\<lparr>lx_unterminated := False\<rparr>)
         else if \<not> unread lx2 then (mk_token T_EndOfFile [] (lx_line lx2) (lx_col lx2), lx2)
         else lexDispatch spaceBefore lx2)"

definition lexOne :: "lexer \<Rightarrow> token \<times> lexer" where
  "lexOne lx =
     (let (t, lx1) = nextImpl lx
      in (t\<lparr>t_blank := lx_blank lx1\<rparr>, lx1\<lparr>lx_prev := t_kind t\<rparr>))"

definition lexer_next :: "lexer \<Rightarrow> token \<times> lexer" where
  "lexer_next lx =
     (case lx_lookahead lx of
        t # ts \<Rightarrow> (t, lx\<lparr>lx_lookahead := ts\<rparr>)
      | [] \<Rightarrow> lexOne lx)"

text \<open>Append one freshly lexed token to the lookahead buffer.\<close>

definition lex_ahead :: "lexer \<Rightarrow> lexer" where
  "lex_ahead lx = (let (t, lx1) = lexOne lx in lx1\<lparr>lx_lookahead := lx_lookahead lx1 @ [t]\<rparr>)"

definition lexer_peek :: "lexer \<Rightarrow> token \<times> lexer" where
  "lexer_peek lx =
     (let lx1 = (if lx_lookahead lx = [] then lex_ahead lx else lx)
      in (hd (lx_lookahead lx1), lx1))"

definition lexer_peekSecond :: "lexer \<Rightarrow> token \<times> lexer" where
  "lexer_peekSecond lx =
     (let lx1 = (if length (lx_lookahead lx) < 2 then lex_ahead lx else lx);
          lx2 = (if length (lx_lookahead lx1) < 2 then lex_ahead lx1 else lx1)
      in (lx_lookahead lx2 ! 1, lx2))"

text \<open>\<open>tokenize()\<close>, with the number of tokens to read as fuel; \<open>None\<close> when it runs out.\<close>

fun tokenize_fuel :: "nat \<Rightarrow> lexer \<Rightarrow> token list option" where
  "tokenize_fuel 0 lx = None"
| "tokenize_fuel (Suc n) lx =
     (let (t, lx1) = lexer_next lx
      in if t_kind t = T_EndOfFile then Some [t]
         else map_option ((#) t) (tokenize_fuel n lx1))"

text \<open>Every token but the last takes a byte of source, so this much fuel is enough.\<close>

definition tokenize :: "string \<Rightarrow> token list option" where
  "tokenize src = tokenize_fuel (length src + 1) (lexer_init src)"

section \<open>Moving through the source\<close>

text \<open>
  Every token form reaches its result state by \<open>advance()\<close> alone, so what
  one step keeps is proved once.
\<close>

definition rest :: "lexer \<Rightarrow> string" where
  "rest lx = drop (lx_pos lx) (lx_source lx)"

definition reaches :: "lexer \<Rightarrow> lexer \<Rightarrow> bool" where
  "reaches lx lx' \<longleftrightarrow> (\<exists>n. lx' = (advance ^^ n) lx)"

lemma reaches_refl [simp, intro]: "reaches lx lx"
  unfolding reaches_def by (rule exI [of _ 0]) simp

lemma reaches_advance [intro]: "reaches lx lx' \<Longrightarrow> reaches lx (advance lx')"
  unfolding reaches_def by (metis funpow.simps(2) o_apply)

lemma reaches_trans [trans]: "reaches lx lx1 \<Longrightarrow> reaches lx1 lx2 \<Longrightarrow> reaches lx lx2"
  unfolding reaches_def by (metis add.commute comp_apply funpow_add)

lemma reaches_induct [consumes 1, case_names refl step]:
  assumes "reaches lx lx'" and "P lx" and "\<And>l. reaches lx l \<Longrightarrow> P l \<Longrightarrow> P (advance l)"
  shows "P lx'"
proof -
  obtain n where n: "lx' = (advance ^^ n) lx" using assms(1) by (auto simp: reaches_def)
  have "P ((advance ^^ n) lx)"
  proof (induction n)
    case 0
    show ?case using assms(2) by simp
  next
    case (Suc n)
    have "reaches lx ((advance ^^ n) lx)" by (auto simp: reaches_def)
    with Suc assms(3) show ?case by simp
  qed
  with n show ?thesis by simp
qed

lemma reaches_frame:
  assumes "reaches lx lx'"
  shows "lx_source lx' = lx_source lx" "lx_lookahead lx' = lx_lookahead lx"
    "lx_blank lx' = lx_blank lx" "lx_unterminated lx' = lx_unterminated lx"
    "lx_uline lx' = lx_uline lx" "lx_ucol lx' = lx_ucol lx" "lx_prev lx' = lx_prev lx"
  using assms by (induction rule: reaches_induct) auto

lemma reaches_pos_le: "reaches lx lx' \<Longrightarrow> lx_pos lx \<le> lx_pos lx'"
  by (induction rule: reaches_induct) auto

lemma reaches_pos_bound:
  "reaches lx lx' \<Longrightarrow> lx_pos lx \<le> length (lx_source lx) \<Longrightarrow> lx_pos lx' \<le> length (lx_source lx)"
  by (induction rule: reaches_induct) (auto simp: reaches_frame)

lemma reaches_advance_while: "reaches lx (advance_while P lx)"
proof (induction P lx rule: advance_while.induct)
  case (1 P lx)
  show ?case
  proof (cases "unread lx \<and> P (here lx)")
    case True
    with 1 have "reaches (advance lx) (advance_while P (advance lx))" by simp
    moreover have "reaches lx (advance lx)" by blast
    ultimately have "reaches lx (advance_while P (advance lx))" by (metis reaches_trans)
    with True show ?thesis by (simp add: advance_while_step)
  next
    case False
    then show ?thesis by (simp add: advance_while_stop)
  qed
qed

lemma reaches_while [intro]: "reaches lx lx' \<Longrightarrow> reaches lx (advance_while P lx')"
  by (metis reaches_advance_while reaches_trans)

lemma rest_advance [simp]: "rest (advance lx) = tl (rest lx)"
  by (simp add: rest_def advance_pos drop_Suc tl_drop)

lemma unread_rest: "unread lx \<longleftrightarrow> rest lx \<noteq> []"
  by (auto simp: rest_def)

lemma here_rest: "rest lx = c # cs \<Longrightarrow> unread lx \<and> here lx = c"
  unfolding rest_def by (metis drop_eq_Nil2 hd_drop_conv_nth linorder_not_le list.distinct(1) list.sel(1))

text \<open>What \<open>advance_while\<close> reads is the longest prefix of the rest that satisfies its test.\<close>

lemma advance_while_rest:
  "rest (advance_while P lx) = dropWhile P (rest lx) \<and>
   lx_pos (advance_while P lx) = lx_pos lx + length (takeWhile P (rest lx))"
proof (induction P lx rule: advance_while.induct)
  case (1 P lx)
  show ?case
  proof (cases "unread lx \<and> P (here lx)")
    case True
    then obtain c cs where r: "rest lx = c # cs" by (auto simp: unread_rest neq_Nil_conv)
    with True have "P c" using here_rest [OF r] by simp
    with True 1 r show ?thesis by (simp add: advance_while_step)
  next
    case False
    show ?thesis
    proof (cases "rest lx")
      case Nil
      with False show ?thesis by (simp add: advance_while_stop)
    next
      case (Cons c cs)
      with False here_rest [OF Cons] show ?thesis by (simp add: advance_while_stop)
    qed
  qed
qed

lemma lexeme_advance_while: "lexeme lx (advance_while P lx) = takeWhile P (rest lx)"
proof -
  have "lexeme lx (advance_while P lx) = take (length (takeWhile P (rest lx))) (rest lx)"
    by (simp add: lexeme_def substr_def rest_def advance_while_rest)
  then show ?thesis by (metis takeWhile_eq_take)
qed

lemma advance_while_moves:
  "unread lx \<Longrightarrow> P (here lx) \<Longrightarrow> lx_pos lx < lx_pos (advance_while P lx)"
  by (metis advance_pos advance_while_pos_ge advance_while_step less_eq_Suc_le)

end
