(* ===== verification/LexerProgress.thy ===== *)
theory LexerProgress
  imports Lexer
begin

text \<open>
  Every token form moves forward: the lexer reads at least one byte for every
  token but the end of file, so tokenising ends and the parser, which stops at
  the end of file, can be bounded by the bytes and tokens left.
\<close>

section \<open>Moving\<close>

definition advances :: "lexer \<Rightarrow> lexer \<Rightarrow> bool" where
  "advances lx lx' \<longleftrightarrow> reaches lx lx' \<and> lx_pos lx < lx_pos lx'"

lemma advances_advance [intro]: "unread lx \<Longrightarrow> advances lx (advance lx)"
  by (auto simp: advances_def)

lemma advances_then: "advances lx l \<Longrightarrow> reaches l l' \<Longrightarrow> advances lx l'"
  unfolding advances_def by (metis le_trans less_le_not_le not_less reaches_pos_le reaches_trans)

lemma advances_again [intro]: "advances lx l \<Longrightarrow> advances lx (advance l)"
  by (meson advances_then reaches_advance reaches_refl)

lemma reaches_then_advances: "reaches lx l \<Longrightarrow> advances l l' \<Longrightarrow> advances lx l'"
  unfolding advances_def by (metis le_less_trans reaches_pos_le reaches_trans)

lemma advances_while [intro]:
  "unread lx \<Longrightarrow> P (here lx) \<Longrightarrow> advances lx (advance_while P lx)"
  unfolding advances_def by (metis advance_while_moves reaches_advance_while)

lemma reaches_refl_while: "reaches lx (advance_while P lx)"
  by (rule reaches_advance_while)

definition good_form :: "lexer \<Rightarrow> token \<times> lexer \<Rightarrow> bool" where
  "good_form lx r \<longleftrightarrow> advances lx (snd r) \<and> t_kind (fst r) \<noteq> T_EndOfFile"

lemma good_formI: "advances lx lx' \<Longrightarrow> t_kind t \<noteq> T_EndOfFile \<Longrightarrow> good_form lx (t, lx')"
  by (simp add: good_form_def)

lemma lexIdentifier_good:
  assumes "unread lx" "is_ident_char (here lx)"
  shows "good_form lx (lexIdentifier lx)"
proof -
  have a: "advances lx (advance_while is_ident_char lx)" using assms by (rule advances_while)
  then have "advances lx (advance (advance_while is_ident_char lx))"
    by (rule advances_then) blast
  with a show ?thesis by (simp add: lexIdentifier_def Let_def good_form_def)
qed

lemma lexRadix_good:
  assumes "lexRadix n d l c lx = Some r"
  shows "good_form lx r"
proof -
  have u: "unread lx" using assms by (auto simp: lexRadix_def split: if_splits)
  define b where "b = (case stoi d of Some b \<Rightarrow> b | None \<Rightarrow> 0)"
  define lx2 where "lx2 = advance_while (\<lambda>c. isDigitIn c b) (advance lx)"
  define v where "v = stoll False b (map toupper (lexeme (advance lx) lx2))"
  have "snd r = lx2 \<and> t_kind (fst r) = T_Integer"
    using assms unfolding lexRadix_def Let_def
    unfolding b_def [symmetric] lx2_def [symmetric] v_def [symmetric]
    by (cases v; simp only: option.case if_None_eq_Some option.inject; safe; simp)
  moreover have "advances lx lx2"
    unfolding lx2_def using u by (meson advances_advance advances_then reaches_advance_while)
  ultimately show ?thesis by (simp add: good_form_def)
qed

lemma lexFraction_reaches: "lexFraction lx = (b, f, lx') \<Longrightarrow> reaches lx lx'"
  by (auto simp: lexFraction_def Let_def split: if_splits)

lemma lexExponent_reaches: "lexExponent lx = (e, lx') \<Longrightarrow> reaches lx lx'"
  by (auto simp: lexExponent_def Let_def split: if_splits)

lemma kind_if: "t_kind x \<noteq> k \<Longrightarrow> t_kind y \<noteq> k \<Longrightarrow> t_kind (if b then x else y) \<noteq> k"
  by simp

lemma kind_option:
  "t_kind x \<noteq> k \<Longrightarrow> (\<And>a. t_kind (f a) \<noteq> k) \<Longrightarrow> t_kind (case v of None \<Rightarrow> x | Some a \<Rightarrow> f a) \<noteq> k"
  by (cases v) simp_all

lemma decimal_token_kind: "t_kind (decimal_token n d i f e l c) \<noteq> T_EndOfFile"
  unfolding decimal_token_def Let_def makeError_def
  by (intro kind_if kind_option) simp_all

lemma lexNumber_good:
  assumes "unread lx" "isdigit (here lx)"
  shows "good_form lx (lexNumber n lx)"
proof -
  let ?lx1 = "advance_while isdigit lx"
  have a: "advances lx ?lx1" using assms by (rule advances_while)
  show ?thesis
  proof (cases "lexRadix n (lexeme lx ?lx1) (lx_line lx) (if n then lx_col lx - 1 else lx_col lx) ?lx1")
    case None
    obtain b f lx2 where f: "lexFraction ?lx1 = (b, f, lx2)" by (metis prod_cases3)
    obtain e lx3 where e: "lexExponent lx2 = (e, lx3)" by (metis prod.exhaust)
    have "reaches ?lx1 lx3"
      using lexFraction_reaches [OF f] lexExponent_reaches [OF e] by (rule reaches_trans)
    with a have "advances lx lx3" by (rule advances_then)
    with None f e show ?thesis
      by (simp add: lexNumber_def Let_def good_form_def decimal_token_kind)
  next
    case (Some r)
    then have "good_form ?lx1 r" by (rule lexRadix_good)
    with a have "good_form lx r"
      unfolding good_form_def by (meson advances_def advances_then)
    with Some show ?thesis by (simp add: lexNumber_def Let_def)
  qed
qed

lemma lexString_loop_reaches:
  "reaches lx (snd (lexString_loop l c out lx)) \<and>
   t_kind (fst (lexString_loop l c out lx)) \<noteq> T_EndOfFile"
proof (induction l c out lx rule: lexString_loop.induct)
  case (1 l c out lx)
  have r2: "reaches lx (advance (advance lx))" by blast
  have r1: "reaches lx (advance lx)" by blast
  consider (stop) "\<not> unread lx"
    | (esc) "unread lx" "here lx = SQ" "lx_pos lx + 1 < length (lx_source lx)"
        "lx_source lx ! (lx_pos lx + 1) = SQ"
    | (fin) "unread lx" "here lx = SQ"
        "\<not> (lx_pos lx + 1 < length (lx_source lx) \<and> lx_source lx ! (lx_pos lx + 1) = SQ)"
    | (char) "unread lx" "here lx \<noteq> SQ"
    by blast
  then show ?case
  proof cases
    case stop
    then show ?thesis by (subst (1 2) lexString_loop.simps) (simp add: makeError_def)
  next
    case esc
    with 1(1) have "reaches (advance (advance lx))
         (snd (lexString_loop l c (out @ [SQ]) (advance (advance lx)))) \<and>
       t_kind (fst (lexString_loop l c (out @ [SQ]) (advance (advance lx)))) \<noteq> T_EndOfFile"
      by simp
    with esc r2 show ?thesis
      by (subst (1 2) lexString_loop.simps) (auto intro: reaches_trans)
  next
    case fin
    then show ?thesis by (subst (1 2) lexString_loop.simps) auto
  next
    case char
    with 1(2) have "reaches (advance lx)
         (snd (lexString_loop l c (out @ [here lx]) (advance lx))) \<and>
       t_kind (fst (lexString_loop l c (out @ [here lx]) (advance lx))) \<noteq> T_EndOfFile"
      by simp
    with char r1 show ?thesis
      by (subst (1 2) lexString_loop.simps) (auto intro: reaches_trans)
  qed
qed

lemma lexString_good: "unread lx \<Longrightarrow> good_form lx (lexString lx)"
  unfolding lexString_def good_form_def
  using lexString_loop_reaches advances_advance advances_then by blast

lemma lexChar_good: "unread lx \<Longrightarrow> good_form lx (lexChar lx)"
  unfolding lexChar_def Let_def good_form_def makeError_def
  by (auto intro: advances_again advances_advance)

lemma symbol_chain_reaches: "reaches lx (symbol_chain lx)"
proof (induction lx rule: symbol_chain.induct)
  case (1 lx)
  have r: "reaches lx (advance_while is_ident_char (advance lx))" by blast
  with 1 show ?case
    by (subst symbol_chain.simps) (auto intro: reaches_trans)
qed

lemma lexSymbol_good:
  assumes u: "unread lx"
  shows "good_form lx (lexSymbol lx)"
proof -
  have a: "advances lx (advance lx)" using u by blast
  have w: "reaches (advance lx) (symbol_chain (advance_while is_ident_char (advance lx)))"
    by (meson reaches_advance_while reaches_trans symbol_chain_reaches)
  have "advances lx (symbol_chain (advance_while is_ident_char (advance lx)))"
    using a w by (rule advances_then)
  moreover have "advances lx (advance (advance lx))" "advances lx (advance (advance (advance lx)))"
    using a by (auto intro: advances_then)
  ultimately show ?thesis
    using a by (simp add: lexSymbol_def Let_def good_form_def makeError_def)
qed

lemma lexMinus_good:
  assumes u: "unread lx" and c: "here lx = CHR ''-''"
  shows "good_form lx (lexMinus sp lx)"
proof -
  have a: "advances lx (advance lx)" using u by blast
  then have a2: "advances lx (advance (advance lx))" by (auto intro: advances_then)
  have num: "good_form lx (lexNumber True (advance lx))" if "isdigit (look 1 lx)"
  proof -
    have "unread (advance lx)" "here (advance lx) = look 1 lx"
      using that u by (auto simp: look_def isdigit_def char_code_def split: if_splits)
    with that have "good_form (advance lx) (lexNumber True (advance lx))"
      by (simp add: lexNumber_good)
    with a show ?thesis unfolding good_form_def by (meson advances_def advances_then)
  qed
  from a a2 num show ?thesis by (simp add: lexMinus_def good_form_def)
qed

lemma lexOperator_good:
  assumes u: "unread lx"
  shows "good_form lx (lexOperator lx)"
proof -
  let ?P = "\<lambda>d. isOperatorChar d \<and> d \<noteq> CHR ''-''"
  have "advances lx (advance lx)" using u by blast
  moreover have "advances lx (advance_while ?P lx)" if "?P (here lx)"
    using u that by (rule advances_while)
  ultimately show ?thesis
    by (simp add: lexOperator_def Let_def good_form_def makeError_def)
qed

lemma lexDispatch_good:
  assumes u: "unread lx"
  shows "good_form lx (lexDispatch sp lx)"
proof -
  have a: "advances lx (advance lx)" using u by blast
  then have a2: "advances lx (advance (advance lx))" by (auto intro: advances_then)
  have k: "single_kind (here lx) = Some k \<Longrightarrow> k \<noteq> T_EndOfFile" for k
    by (auto split: if_splits)
  show ?thesis
    using u a a2 k lexIdentifier_good [OF u] lexNumber_good [OF u, of False] lexSymbol_good [OF u]
      lexString_good [OF u] lexChar_good [OF u] lexMinus_good [OF u, of sp] lexOperator_good [OF u]
    by (auto simp: lexDispatch_def Let_def is_ident_char_def isalnum_def good_form_def
          simp del: single_kind.simps split: option.split)
qed

section \<open>White space\<close>

text \<open>
  \<open>skipWhitespace\<close> either moves, or moves to the end of the source and
  records where the comment that was never closed began.
\<close>

definition ws_result :: "lexer \<Rightarrow> lexer \<Rightarrow> bool" where
  "ws_result lx lx' \<longleftrightarrow>
     reaches lx lx' \<or>
     (\<exists>m l c. advances lx m \<and> \<not> unread m \<and>
        lx' = m\<lparr>lx_unterminated := True, lx_uline := l, lx_ucol := c\<rparr>)"

lemma ws_result_step:
  assumes "reaches lx l" "ws_result l lx'"
  shows "ws_result lx lx'"
proof -
  from assms(2) consider "reaches l lx'"
    | m a c where "advances l m" "\<not> unread m"
        "lx' = m\<lparr>lx_unterminated := True, lx_uline := a, lx_ucol := c\<rparr>"
    by (auto simp: ws_result_def)
  then show ?thesis
  proof cases
    case 1
    with assms(1) show ?thesis by (auto simp: ws_result_def intro: reaches_trans)
  next
    case 2
    have "advances lx m" using assms(1) 2(1) by (rule reaches_then_advances)
    with 2 show ?thesis by (auto simp: ws_result_def)
  qed
qed

lemma skipWhitespace_result: "ws_result lx (skipWhitespace lx)"
proof (induction lx rule: skipWhitespace.induct)
  case (1 lx)
  let ?m = "advance_while (\<lambda>c. c \<noteq> DQ) (advance lx)"
  have r1: "reaches lx (advance lx)" and rm: "reaches lx ?m" and ra: "reaches lx (advance ?m)"
    by blast+
  consider (stop) "\<not> unread lx" | (space) "unread lx" "isspace (here lx)"
    | (closed) "unread lx" "here lx = DQ" "unread ?m"
    | (unclosed) "unread lx" "here lx = DQ" "\<not> unread ?m"
    | (other) "unread lx" "\<not> isspace (here lx)" "here lx \<noteq> DQ"
    by blast
  then show ?case
  proof cases
    case stop
    then show ?thesis by (subst skipWhitespace.simps) (simp add: ws_result_def)
  next
    case space
    with 1(1) r1 have "ws_result lx (skipWhitespace (advance lx))"
      by (auto intro: ws_result_step)
    with space show ?thesis by (subst skipWhitespace.simps) simp
  next
    case closed
    with 1(2) ra have "ws_result lx (skipWhitespace (advance ?m))"
      by (auto intro: ws_result_step)
    with closed show ?thesis by (subst skipWhitespace.simps) (simp add: Let_def)
  next
    case unclosed
    have "advances lx ?m"
      using unclosed by (meson advances_advance advances_then reaches_advance_while)
    with unclosed(3) have
      "ws_result lx (?m\<lparr>lx_unterminated := True, lx_uline := lx_line lx, lx_ucol := lx_col lx\<rparr>)"
      unfolding ws_result_def by blast
    with unclosed show ?thesis
      by (subst skipWhitespace.simps) (simp add: Let_def)
  next
    case other
    then show ?thesis by (subst skipWhitespace.simps) (simp add: ws_result_def)
  qed
qed

section \<open>One token\<close>

text \<open>What holds of the lexer between two tokens.\<close>

definition lexer_ok :: "lexer \<Rightarrow> bool" where
  "lexer_ok lx \<longleftrightarrow> lx_pos lx \<le> length (lx_source lx) \<and> \<not> lx_unterminated lx"

lemma lexer_ok_init [simp]: "lexer_ok (lexer_init src)"
  by (auto simp: lexer_ok_def lexer_init_def length_takeWhile_le)

lemma lexOne_progress:
  assumes ok: "lexer_ok lx" and r: "lexOne lx = (t, lx')"
  shows "lexer_ok lx'" "lx_source lx' = lx_source lx" "lx_lookahead lx' = lx_lookahead lx"
    "lx_pos lx \<le> lx_pos lx'"
    "t_kind t \<noteq> T_EndOfFile \<Longrightarrow> lx_pos lx < lx_pos lx'"
    "t_kind t = T_EndOfFile \<Longrightarrow> lx_pos lx' = length (lx_source lx)"
proof -
  let ?w = "skipWhitespace lx"
  let ?b = "containsBlankLine (lx_source lx) (lx_pos lx) (lx_pos ?w)"
  let ?l = "?w\<lparr>lx_blank := ?b\<rparr>"
  have le: "lx_pos lx \<le> length (lx_source lx)" and nu: "\<not> lx_unterminated lx"
    using ok by (simp_all add: lexer_ok_def)
  have goal: "lexer_ok lx' \<and> lx_source lx' = lx_source lx \<and> lx_lookahead lx' = lx_lookahead lx \<and>
     lx_pos lx \<le> lx_pos lx' \<and> (t_kind t \<noteq> T_EndOfFile \<longrightarrow> lx_pos lx < lx_pos lx') \<and>
     (t_kind t = T_EndOfFile \<longrightarrow> lx_pos lx' = length (lx_source lx))"
  proof (cases "lx_unterminated ?w")
    case True
    then have "\<not> reaches lx ?w" using nu reaches_frame by blast
    with skipWhitespace_result [of lx] obtain m l c where
      m: "advances lx m" "\<not> unread m"
      "?w = m\<lparr>lx_unterminated := True, lx_uline := l, lx_ucol := c\<rparr>"
      by (auto simp: ws_result_def)
    have rm: "reaches lx m" using m(1) by (simp add: advances_def)
    show ?thesis
      using r m True reaches_frame [OF rm] reaches_pos_bound [OF rm le] le
      by (auto simp: lexOne_def nextImpl_def Let_def makeError_def lexer_ok_def advances_def)
  next
    case False
    have rw: "reaches lx ?w"
      using skipWhitespace_result [of lx] False by (auto simp: ws_result_def)
    note fw = reaches_frame [OF rw] and pw = reaches_pos_le [OF rw] and bw = reaches_pos_bound [OF rw le]
    show ?thesis
    proof (cases "unread ?l")
      case True
      have g: "good_form ?l (lexDispatch (lx_pos ?w \<noteq> lx_pos lx) ?l)"
        using True by (rule lexDispatch_good)
      then have rg: "reaches ?l (snd (lexDispatch (lx_pos ?w \<noteq> lx_pos lx) ?l))"
        by (simp add: good_form_def advances_def)
      show ?thesis
        using r g False True fw pw bw reaches_frame [OF rg] reaches_pos_bound [OF rg] nu
        by (auto simp: lexOne_def nextImpl_def Let_def lexer_ok_def good_form_def advances_def
              split: prod.splits)
    next
      case eof: False
      then show ?thesis
        using r False fw pw bw nu
        by (auto simp: lexOne_def nextImpl_def Let_def lexer_ok_def)
    qed
  qed
  then show "lexer_ok lx'" "lx_source lx' = lx_source lx" "lx_lookahead lx' = lx_lookahead lx"
    "lx_pos lx \<le> lx_pos lx'"
    "t_kind t \<noteq> T_EndOfFile \<Longrightarrow> lx_pos lx < lx_pos lx'"
    "t_kind t = T_EndOfFile \<Longrightarrow> lx_pos lx' = length (lx_source lx)"
    by blast+
qed

text \<open>
  Without the invariant (a state in the middle of nowhere): the lexer still
  does not go back, and its rank falls with every token but the end of file.
\<close>

section \<open>What is left to read\<close>

definition lexer_left :: "lexer \<Rightarrow> nat" where
  "lexer_left lx =
     (length (lx_source lx) - lx_pos lx) +
     length (filter (\<lambda>t. t_kind t \<noteq> T_EndOfFile) (lx_lookahead lx)) +
     (if lx_unterminated lx then 1 else 0)"

lemma ws_result_frame:
  assumes "ws_result lx lx'"
  shows "lx_source lx' = lx_source lx" "lx_lookahead lx' = lx_lookahead lx" "lx_pos lx \<le> lx_pos lx'"
proof -
  from assms consider "reaches lx lx'"
    | m a c where "advances lx m" "lx' = m\<lparr>lx_unterminated := True, lx_uline := a, lx_ucol := c\<rparr>"
    by (auto simp: ws_result_def)
  then have "lx_source lx' = lx_source lx \<and> lx_lookahead lx' = lx_lookahead lx \<and> lx_pos lx \<le> lx_pos lx'"
  proof cases
    case 1
    then show ?thesis by (simp add: reaches_frame reaches_pos_le)
  next
    case 2
    then show ?thesis using reaches_frame [of lx m] by (simp add: advances_def)
  qed
  then show "lx_source lx' = lx_source lx" "lx_lookahead lx' = lx_lookahead lx" "lx_pos lx \<le> lx_pos lx'"
    by blast+
qed

lemma lexOne_left:
  assumes r: "lexOne lx = (t, lx')"
  shows "lx_lookahead lx' = lx_lookahead lx" "lexer_left lx' \<le> lexer_left lx"
    "t_kind t \<noteq> T_EndOfFile \<Longrightarrow> lexer_left lx' < lexer_left lx"
proof -
  have "lx_lookahead lx' = lx_lookahead lx \<and> lexer_left lx' \<le> lexer_left lx \<and>
     (t_kind t \<noteq> T_EndOfFile \<longrightarrow> lexer_left lx' < lexer_left lx)"
  proof (cases "lexer_ok lx")
    case True
    note p = lexOne_progress [OF True r]
    from p(1) have "lx_pos lx' \<le> length (lx_source lx')" "\<not> lx_unterminated lx'"
      by (simp_all add: lexer_ok_def)
    with p show ?thesis by (auto simp: lexer_left_def)
  next
    case False
    let ?w = "skipWhitespace lx"
    note f = ws_result_frame [OF skipWhitespace_result [of lx]]
    show ?thesis
    proof (cases "lx_unterminated lx")
      case True
      have "lx_unterminated ?w"
        using skipWhitespace_result [of lx] True reaches_frame [of lx ?w] by (auto simp: ws_result_def)
      with r True f show ?thesis
        by (auto simp: lexOne_def nextImpl_def Let_def makeError_def lexer_left_def)
    next
      case nu: False
      with False have nr: "\<not> unread lx" by (simp add: lexer_ok_def)
      then have "?w = lx" by (subst skipWhitespace.simps) simp
      with r nr nu show ?thesis
        by (auto simp: lexOne_def nextImpl_def Let_def lexer_left_def)
    qed
  qed
  then show "lx_lookahead lx' = lx_lookahead lx" "lexer_left lx' \<le> lexer_left lx"
    "t_kind t \<noteq> T_EndOfFile \<Longrightarrow> lexer_left lx' < lexer_left lx" by blast+
qed

lemma lexer_next_left:
  assumes r: "lexer_next lx = (t, lx')"
  shows "lexer_left lx' \<le> lexer_left lx"
    "t_kind t \<noteq> T_EndOfFile \<Longrightarrow> lexer_left lx' < lexer_left lx"
  using lexOne_left [of lx t lx'] r
  by (auto simp: lexer_next_def lexer_left_def split: list.splits)

lemma lex_ahead_left: "lexer_left (lex_ahead lx) \<le> lexer_left lx"
  and lex_ahead_lookahead: "lx_lookahead (lex_ahead lx) = lx_lookahead lx @ [fst (lexOne lx)]"
proof -
  obtain t l where o: "lexOne lx = (t, l)" by fastforce
  note p = lexOne_left [OF o]
  show "lexer_left (lex_ahead lx) \<le> lexer_left lx"
    using p o by (cases "t_kind t = T_EndOfFile") (auto simp: lex_ahead_def lexer_left_def)
  show "lx_lookahead (lex_ahead lx) = lx_lookahead lx @ [fst (lexOne lx)]"
    using p o by (simp add: lex_ahead_def)
qed

lemma lexer_peek_left: "lexer_peek lx = (t, lx') \<Longrightarrow> lexer_left lx' \<le> lexer_left lx"
  by (auto simp: lexer_peek_def Let_def lex_ahead_left split: if_splits)

lemma lexer_peekSecond_left:
  assumes r: "lexer_peekSecond lx = (t, lx')"
  shows "lexer_left lx' \<le> lexer_left lx"
proof -
  define l1 where "l1 = (if length (lx_lookahead lx) < 2 then lex_ahead lx else lx)"
  define l2 where "l2 = (if length (lx_lookahead l1) < 2 then lex_ahead l1 else l1)"
  have "lexer_left l1 \<le> lexer_left lx" by (simp add: l1_def lex_ahead_left)
  moreover have "lexer_left l2 \<le> lexer_left l1" by (simp add: l2_def lex_ahead_left)
  moreover have "lx' = l2"
    using r by (simp add: lexer_peekSecond_def Let_def l1_def [symmetric] l2_def [symmetric])
  ultimately show ?thesis by (simp only: le_trans)
qed

section \<open>Tokenising ends\<close>

lemma tokenize_fuel_enough:
  "lexer_left lx < n \<Longrightarrow>
   \<exists>ts e. tokenize_fuel n lx = Some (ts @ [e]) \<and> t_kind e = T_EndOfFile \<and>
     (\<forall>t\<in>set ts. t_kind t \<noteq> T_EndOfFile) \<and> length ts \<le> lexer_left lx"
proof (induction n arbitrary: lx)
  case 0
  then show ?case by simp
next
  case (Suc n)
  obtain t l where n: "lexer_next lx = (t, l)" by fastforce
  note p = lexer_next_left [OF n]
  show ?case
  proof (cases "t_kind t = T_EndOfFile")
    case True
    with n show ?thesis by (intro exI [of _ "[]"] exI [of _ t]) simp
  next
    case False
    with p(2) Suc.prems have "lexer_left l < n" by simp
    from Suc.IH [OF this] obtain ts e where
      "tokenize_fuel n l = Some (ts @ [e])" "t_kind e = T_EndOfFile"
      "\<forall>t\<in>set ts. t_kind t \<noteq> T_EndOfFile" "length ts \<le> lexer_left l" by blast
    with False n p(2) show ?thesis
      by (intro exI [of _ "t # ts"] exI [of _ e]) auto
  qed
qed

lemma lexer_left_init: "lexer_left (lexer_init src) \<le> length src"
  by (simp add: lexer_left_def lexer_init_def)

text \<open>
  C1. Tokenising always ends: for every source text, \<open>tokenize\<close> answers a
  list of tokens whose last one, and only that one, is the end of file, and it
  never answers more tokens than the text has bytes plus one.
\<close>

theorem tokenize_total:
  "\<exists>ts e. tokenize src = Some (ts @ [e]) \<and> t_kind e = T_EndOfFile \<and>
     list_all (\<lambda>t. t_kind t \<noteq> T_EndOfFile) ts \<and> length ts \<le> length src"
proof -
  have "lexer_left (lexer_init src) < length src + 1" using lexer_left_init [of src] by simp
  from tokenize_fuel_enough [OF this] show ?thesis
    unfolding tokenize_def list_all_iff using lexer_left_init [of src] by (meson le_trans)
qed

end
