(* ===== verification/LexerPositions.thy ===== *)
theory LexerPositions
  imports LexerProgress
begin

text \<open>
  The line and column a token carries are those of the byte where it starts:
  \<open>line_at\<close> and \<open>col_at\<close> count them from the source text, the lexer counts
  them as it advances, and the two agree for every token.
\<close>

section \<open>Where a byte is\<close>

definition line_at :: "string \<Rightarrow> nat \<Rightarrow> int" where
  "line_at src p = 1 + int (length (filter (\<lambda>c. c = NL) (take p src)))"

definition col_at :: "string \<Rightarrow> nat \<Rightarrow> int" where
  "col_at src p = 1 + int (length (takeWhile (\<lambda>c. c \<noteq> NL) (rev (take p src))))"

lemma line_at_0 [simp]: "line_at src 0 = 1"
  by (simp add: line_at_def)

lemma col_at_0 [simp]: "col_at src 0 = 1"
  by (simp add: col_at_def)

lemma line_at_Suc:
  "p < length src \<Longrightarrow> line_at src (Suc p) = line_at src p + (if src ! p = NL then 1 else 0)"
  by (simp add: line_at_def take_Suc_conv_app_nth)

lemma col_at_Suc:
  "p < length src \<Longrightarrow> col_at src (Suc p) = (if src ! p = NL then 1 else col_at src p + 1)"
  by (simp add: col_at_def take_Suc_conv_app_nth)

definition at :: "string \<Rightarrow> nat \<Rightarrow> int \<Rightarrow> int \<Rightarrow> bool" where
  "at src p l c \<longleftrightarrow> l = line_at src p \<and> c = col_at src p"

section \<open>The lexer counts them\<close>

definition exact :: "lexer \<Rightarrow> bool" where
  "exact lx \<longleftrightarrow> at (lx_source lx) (lx_pos lx) (lx_line lx) (lx_col lx)"

text \<open>
  Just after an interpreter line the column is still 1, although the newline
  the lexer stands on is further right; that newline puts it right again.
\<close>

definition placed :: "lexer \<Rightarrow> bool" where
  "placed lx \<longleftrightarrow> lx_pos lx \<le> length (lx_source lx) \<and>
     (exact lx \<or> (unread lx \<and> here lx = NL \<and> lx_line lx = line_at (lx_source lx) (lx_pos lx)))"

lemma advance_exact: "unread lx \<Longrightarrow> placed lx \<Longrightarrow> exact (advance lx)"
  by (auto simp: placed_def exact_def at_def advance_def line_at_Suc col_at_Suc)

lemma placed_exact: "placed lx \<Longrightarrow> \<not> (unread lx \<and> here lx = NL) \<Longrightarrow> exact lx"
  by (auto simp: placed_def)

lemma advance_placed: "placed lx \<Longrightarrow> placed (advance lx)"
  by (cases "unread lx") (auto simp: advance_exact placed_def, simp add: advance_def)

lemma reaches_placed: "reaches lx lx' \<Longrightarrow> placed lx \<Longrightarrow> placed lx'"
  by (induction rule: reaches_induct) (auto intro: advance_placed)

lemma placed_update [simp]:
  "placed (lx\<lparr>lx_blank := b\<rparr>) = placed lx" "placed (lx\<lparr>lx_prev := k\<rparr>) = placed lx"
  "placed (lx\<lparr>lx_unterminated := u\<rparr>) = placed lx" "placed (lx\<lparr>lx_lookahead := q\<rparr>) = placed lx"
  "placed (lx\<lparr>lx_uline := i\<rparr>) = placed lx" "placed (lx\<lparr>lx_ucol := i\<rparr>) = placed lx"
  by (simp_all add: placed_def exact_def at_def)

lemma takeWhile_less: "x \<in> set xs \<Longrightarrow> \<not> P x \<Longrightarrow> length (takeWhile P xs) < length xs"
  by (induction xs) auto

lemma filter_takeWhile_NL: "filter (\<lambda>c. c = NL) (takeWhile (\<lambda>c. c \<noteq> NL) xs) = []"
  by (induction xs) auto

lemma placed_init: "take 2 src = ''#!'' \<longrightarrow> NL \<in> set src \<Longrightarrow> placed (lexer_init src)"
proof (cases "take 2 src = ''#!''")
  case True
  assume "take 2 src = ''#!'' \<longrightarrow> NL \<in> set src"
  with True have n: "NL \<in> set src" by simp
  let ?p = "length (takeWhile (\<lambda>c. c \<noteq> NL) src)"
  have "?p < length src" using n by (rule takeWhile_less) simp
  moreover from this have "src ! ?p = NL" using nth_length_takeWhile by blast
  moreover have "line_at src ?p = 1"
    by (simp add: line_at_def takeWhile_eq_take [symmetric] filter_takeWhile_NL)
  ultimately show ?thesis using True by (simp add: placed_def lexer_init_def)
next
  case False
  then show ?thesis by (simp add: placed_def exact_def at_def lexer_init_def)
qed

section \<open>Where white space stops\<close>

definition opener :: "lexer \<Rightarrow> lexer \<Rightarrow> bool" where
  "opener lx lx' \<longleftrightarrow> (\<exists>q. lx_pos lx \<le> q \<and> q < length (lx_source lx) \<and>
     at (lx_source lx) q (lx_uline lx') (lx_ucol lx'))"

lemma opener_step:
  "reaches lx l \<Longrightarrow> opener l lx' \<Longrightarrow> opener lx lx'"
  unfolding opener_def by (metis le_trans reaches_frame(1) reaches_pos_le)

lemma skipWhitespace_stops:
  assumes "\<not> lx_unterminated lx" "placed lx"
  shows "if lx_unterminated (skipWhitespace lx) then opener lx (skipWhitespace lx)
         else unread (skipWhitespace lx) \<longrightarrow>
           \<not> isspace (here (skipWhitespace lx)) \<and> here (skipWhitespace lx) \<noteq> DQ"
  using assms
proof (induction lx rule: skipWhitespace.induct)
  case (1 lx)
  let ?m = "advance_while (\<lambda>c. c \<noteq> DQ) (advance lx)"
  have r1: "reaches lx (advance lx)" and rm: "reaches lx ?m" and ra: "reaches lx (advance ?m)"
    by blast+
  note u = reaches_frame(4) [OF r1] reaches_frame(4) [OF rm] reaches_frame(4) [OF ra]
  note p = reaches_placed [OF r1 1(4)] reaches_placed [OF rm 1(4)] reaches_placed [OF ra 1(4)]
  consider (stop) "\<not> unread lx" | (space) "unread lx" "isspace (here lx)"
    | (closed) "unread lx" "here lx = DQ" "unread ?m"
    | (unclosed) "unread lx" "here lx = DQ" "\<not> unread ?m"
    | (other) "unread lx" "\<not> isspace (here lx)" "here lx \<noteq> DQ"
    by blast
  then show ?case
  proof cases
    case stop
    then have "skipWhitespace lx = lx" by (subst skipWhitespace.simps) simp
    with stop 1(3) show ?thesis by simp
  next
    case space
    then have e: "skipWhitespace lx = skipWhitespace (advance lx)"
      by (subst skipWhitespace.simps) simp
    have "\<not> lx_unterminated (advance lx)" using 1(3) u by simp
    with 1(1) [of] space p(1) opener_step [OF r1] show ?thesis
      unfolding e by (simp split: if_splits)
  next
    case closed
    then have e: "skipWhitespace lx = skipWhitespace (advance ?m)"
      by (subst skipWhitespace.simps) (simp add: Let_def)
    have "\<not> lx_unterminated (advance ?m)" using 1(3) u by simp
    with 1(2) [OF _ _ _ refl] closed p(3) opener_step [OF ra] show ?thesis
      unfolding e by (simp split: if_splits)
  next
    case unclosed
    then have e: "skipWhitespace lx =
        ?m\<lparr>lx_unterminated := True, lx_uline := lx_line lx, lx_ucol := lx_col lx\<rparr>"
      by (subst skipWhitespace.simps) (simp add: Let_def)
    have "exact lx" using placed_exact [OF 1(4)] unclosed by simp
    with unclosed(1) have "opener lx (skipWhitespace lx)"
      unfolding opener_def e exact_def by auto
    then show ?thesis unfolding e by simp
  next
    case other
    then have "skipWhitespace lx = lx" by (subst skipWhitespace.simps) simp
    with other 1(3) show ?thesis by simp
  qed
qed

section \<open>Where a token starts\<close>

abbreviation token_at :: "lexer \<Rightarrow> token \<Rightarrow> bool" where
  "token_at lx t \<equiv> t_line t = lx_line lx \<and> t_col t = lx_col lx"

lemma makeError_at [simp]: "t_line (makeError m l c) = l" "t_col (makeError m l c) = c"
  by (simp_all add: makeError_def)

lemma lexRadix_at:
  "lexRadix n d l c lx = Some r \<Longrightarrow> t_line (fst r) = l \<and> t_col (fst r) = c"
  unfolding lexRadix_def Let_def
  by (simp only: if_None_eq_Some option.inject) (safe; simp split: option.split)

definition pos_is :: "int \<Rightarrow> int \<Rightarrow> token \<Rightarrow> bool" where
  "pos_is l c t \<longleftrightarrow> t_line t = l \<and> t_col t = c"

lemma pos_if: "pos_is l c x \<Longrightarrow> pos_is l c y \<Longrightarrow> pos_is l c (if b then x else y)"
  by simp

lemma pos_option:
  "pos_is l c x \<Longrightarrow> (\<And>a. pos_is l c (f a)) \<Longrightarrow> pos_is l c (case v of None \<Rightarrow> x | Some a \<Rightarrow> f a)"
  by (cases v) simp_all

lemma decimal_token_at:
  "t_line (decimal_token n d i f e l c) = l \<and> t_col (decimal_token n d i f e l c) = c"
  unfolding decimal_token_def Let_def pos_is_def [symmetric]
  by (intro pos_if pos_option) (simp_all add: pos_is_def)

lemma lexNumber_at:
  "t_line (fst (lexNumber n lx)) = lx_line lx \<and>
   t_col (fst (lexNumber n lx)) = (if n then lx_col lx - 1 else lx_col lx)"
  unfolding lexNumber_def Let_def
  by (auto simp: decimal_token_at lexRadix_at split: option.split prod.split)

lemma lexString_loop_at:
  "t_line (fst (lexString_loop l c out lx)) = l \<and> t_col (fst (lexString_loop l c out lx)) = c"
proof (induction l c out lx rule: lexString_loop.induct)
  case (1 l c out lx)
  then show ?case by (subst (1 2) lexString_loop.simps) simp
qed

lemma lexMinus_at: "unread lx \<Longrightarrow> here lx = CHR ''-'' \<Longrightarrow> token_at lx (fst (lexMinus sp lx))"
  by (auto simp: lexMinus_def lexNumber_at advance_def)

lemma forms_at:
  "token_at lx (fst (lexIdentifier lx))" "token_at lx (fst (lexString lx))"
  "token_at lx (fst (lexChar lx))" "token_at lx (fst (lexSymbol lx))"
  "token_at lx (fst (lexOperator lx))"
  by (simp_all add: lexIdentifier_def lexString_def lexString_loop_at lexChar_def lexSymbol_def
        lexOperator_def Let_def)

lemma lexDispatch_at:
  assumes u: "unread lx"
  shows "token_at lx (fst (lexDispatch sp lx))"
proof (cases "single_kind (here lx)")
  case None
  then show ?thesis
    using forms_at [of lx] lexNumber_at [of False lx] lexMinus_at [OF u, of sp]
    by (simp add: lexDispatch_def Let_def del: single_kind.simps)
next
  case (Some k)
  then show ?thesis
    using forms_at [of lx] lexNumber_at [of False lx]
    by (simp add: lexDispatch_def Let_def del: single_kind.simps)
qed

lemma lexOne_at:
  assumes ok: "lexer_ok lx" and pl: "placed lx" and r: "lexOne lx = (t, lx')"
  shows "placed lx' \<and> (\<exists>p. lx_pos lx \<le> p \<and> p \<le> lx_pos lx' \<and>
     (t_kind t \<noteq> T_EndOfFile \<longrightarrow> p < lx_pos lx') \<and> at (lx_source lx) p (t_line t) (t_col t))"
proof -
  let ?w = "skipWhitespace lx"
  let ?b = "containsBlankLine (lx_source lx) (lx_pos lx) (lx_pos ?w)"
  let ?l = "?w\<lparr>lx_blank := ?b\<rparr>"
  have le: "lx_pos lx \<le> length (lx_source lx)" and nu: "\<not> lx_unterminated lx"
    using ok by (simp_all add: lexer_ok_def)
  note st = skipWhitespace_stops [OF nu pl]
  show ?thesis
  proof (cases "lx_unterminated ?w")
    case True
    then have "\<not> reaches lx ?w" using nu reaches_frame by blast
    with skipWhitespace_result [of lx] obtain m l c where
      m: "advances lx m" "\<not> unread m"
      "?w = m\<lparr>lx_unterminated := True, lx_uline := l, lx_ucol := c\<rparr>"
      by (auto simp: ws_result_def)
    have rm: "reaches lx m" using m(1) by (simp add: advances_def)
    have pm: "placed m" using rm pl by (rule reaches_placed)
    from st True obtain q where q: "lx_pos lx \<le> q" "q < length (lx_source lx)"
      "at (lx_source lx) q (lx_uline ?w) (lx_ucol ?w)" by (auto simp: opener_def)
    have e: "lx' = ?l\<lparr>lx_unterminated := False, lx_prev := T_Error\<rparr>"
      "t_kind t = T_Error" "t_line t = lx_uline ?w" "t_col t = lx_ucol ?w"
      using r True by (auto simp: lexOne_def nextImpl_def Let_def makeError_def)
    have "lx_pos lx' = length (lx_source lx)"
      using m reaches_frame(1) [OF rm] reaches_pos_bound [OF rm le] by (simp add: e(1))
    moreover have "placed lx'" using pm by (simp add: e(1) m(3))
    ultimately show ?thesis using q e by auto
  next
    case False
    have rw: "reaches lx ?w"
      using skipWhitespace_result [of lx] False by (auto simp: ws_result_def)
    note fw = reaches_frame [OF rw] and pw = reaches_pos_le [OF rw] and bw = reaches_pos_bound [OF rw le]
    have plw: "placed ?w" using rw pl by (rule reaches_placed)
    from st False have ns: "unread ?w \<Longrightarrow> \<not> isspace (here ?w)" by simp
    have "\<not> (unread ?w \<and> here ?w = NL)" using ns by auto
    with plw have ex: "exact ?w" by (rule placed_exact)
    show ?thesis
    proof (cases "unread ?l")
      case True
      let ?d = "lexDispatch (lx_pos ?w \<noteq> lx_pos lx) ?l"
      have g: "good_form ?l ?d" using True by (rule lexDispatch_good)
      then have rg: "reaches ?l (snd ?d)" and mv: "lx_pos ?w < lx_pos (snd ?d)"
        by (simp_all add: good_form_def advances_def)
      have pd: "placed (snd ?d)" using rg plw reaches_placed [of ?l] by simp
      have e: "lx' = (snd ?d)\<lparr>lx_prev := t_kind t\<rparr>" "token_at ?l t"
        using r True False fw lexDispatch_at [OF True, of "lx_pos ?w \<noteq> lx_pos lx"]
        by (auto simp: lexOne_def nextImpl_def Let_def split: prod.splits)
      show ?thesis
        using e pd mv pw fw ex by (intro conjI exI [of _ "lx_pos ?w"]) (auto simp: exact_def)
    next
      case eof: False
      then have e: "lx' = ?l\<lparr>lx_prev := T_EndOfFile\<rparr>" "t_kind t = T_EndOfFile" "token_at ?w t"
        using r False by (auto simp: lexOne_def nextImpl_def Let_def)
      then show ?thesis
        using plw pw fw ex by (intro conjI exI [of _ "lx_pos ?w"]) (auto simp: exact_def)
    qed
  qed
qed

section \<open>All tokens\<close>

text \<open>The tokens of a text, each at the byte where it starts.\<close>

definition tokens_at :: "string \<Rightarrow> token list \<Rightarrow> nat list \<Rightarrow> bool" where
  "tokens_at src ts ps \<longleftrightarrow> list_all2 (\<lambda>t p. at src p (t_line t) (t_col t)) ts ps"

lemma tokenize_fuel_at:
  "tokenize_fuel n lx = Some ts \<Longrightarrow> lexer_ok lx \<Longrightarrow> placed lx \<Longrightarrow> lx_lookahead lx = [] \<Longrightarrow>
   \<exists>ps. tokens_at (lx_source lx) ts ps \<and> sorted_wrt (<) ps \<and>
     list_all (\<lambda>p. lx_pos lx \<le> p \<and> p \<le> length (lx_source lx)) ps"
proof (induction n arbitrary: lx ts)
  case 0
  then show ?case by simp
next
  case (Suc n)
  obtain t l where o: "lexOne lx = (t, l)" by fastforce
  then have nx: "lexer_next lx = (t, l)" using Suc.prems(4) by (simp add: lexer_next_def)
  note pr = lexOne_progress [OF Suc.prems(2) o]
  from lexOne_at [OF Suc.prems(2,3) o] obtain p where
    p: "placed l" "lx_pos lx \<le> p" "p \<le> lx_pos l" "t_kind t \<noteq> T_EndOfFile \<longrightarrow> p < lx_pos l"
      "at (lx_source lx) p (t_line t) (t_col t)" by blast
  have le: "lx_pos l \<le> length (lx_source lx)" using pr(1,2) by (simp add: lexer_ok_def)
  show ?case
  proof (cases "t_kind t = T_EndOfFile")
    case True
    then have "ts = [t]" using Suc.prems(1) nx by simp
    with p le show ?thesis by (intro exI [of _ "[p]"]) (auto simp: tokens_at_def)
  next
    case False
    then obtain us where us: "tokenize_fuel n l = Some us" "ts = t # us"
      using Suc.prems(1) nx by auto
    have "lx_lookahead l = []" using pr(3) Suc.prems(4) by simp
    from Suc.IH [OF us(1) pr(1) p(1) this] obtain ps where ps:
      "tokens_at (lx_source lx) us ps" "sorted_wrt (<) ps"
      "list_all (\<lambda>p. lx_pos l \<le> p \<and> p \<le> length (lx_source lx)) ps" using pr(2) by auto
    have "p < lx_pos l" using p(4) False by simp
    with p le ps us show ?thesis
      by (intro exI [of _ "p # ps"]) (auto simp: tokens_at_def list_all_iff)
  qed
qed

text \<open>
  Every token carries the line and column of the byte where it starts, the
  starts strictly increase, and an interpreter line at the top of the file does
  not shift them.  (The one text left out is an interpreter line without a
  newline, where the end of file is reported at column 1.)
\<close>

theorem token_positions:
  assumes "take 2 src = ''#!'' \<longrightarrow> NL \<in> set src" and "tokenize src = Some ts"
  shows "\<exists>ps. list_all2 (\<lambda>t p. t_line t = line_at src p \<and> t_col t = col_at src p) ts ps \<and>
     sorted_wrt (<) ps \<and> list_all (\<lambda>p. p \<le> length src) ps"
proof -
  have "lx_source (lexer_init src) = src" "lx_lookahead (lexer_init src) = []"
    by (simp_all add: lexer_init_def)
  with tokenize_fuel_at [of "length src + 1" "lexer_init src" ts] assms placed_init [OF assms(1)]
  show ?thesis unfolding tokenize_def tokens_at_def at_def list_all_iff by auto
qed

lemma token_positions_witness:
  "\<exists>ps. list_all2 (\<lambda>t p. t_line t = line_at (''#!x'' @ [NL] @ ''a'') p \<and>
                         t_col t = col_at (''#!x'' @ [NL] @ ''a'') p)
     (the (tokenize (''#!x'' @ [NL] @ ''a''))) ps \<and>
     sorted_wrt (<) ps \<and> list_all (\<lambda>p. p \<le> length (''#!x'' @ [NL] @ ''a'')) ps"
proof -
  have "tokenize (''#!x'' @ [NL] @ ''a'') \<noteq> None" by code_simp
  then show ?thesis by (intro token_positions) auto
qed

end
