(* ===== verification/LexerForms.thy ===== *)
theory LexerForms
  imports LexerProgress
begin

text \<open>
  What each token form reads: the text of a literal or a name determines the
  token, written back it lexes to itself.  The lemmas speak of \<open>rest\<close>, the
  bytes still unread, so they hold at every place of a source.
\<close>

section \<open>Looking at the unread bytes\<close>

lemma look_rest: "look k lx = (if k < length (rest lx) then rest lx ! k else NUL)"
  by (auto simp: look_def rest_def)

lemma next_in_source: "Suc (lx_pos lx) < length (lx_source lx) \<longleftrightarrow> 1 < length (rest lx)"
  by (auto simp: rest_def)

lemma source_rest:
  "k < length (rest lx) \<Longrightarrow> lx_source lx ! (lx_pos lx + k) = rest lx ! k"
  by (simp add: rest_def)

lemma rest_Cons:
  assumes "rest lx = c # cs"
  shows "unread lx" "here lx = c" "rest (advance lx) = cs"
  using here_rest [OF assms] assms by simp_all

lemma skipWhitespace_spaces:
  "rest lx = ws @ cs \<Longrightarrow> list_all isspace ws \<Longrightarrow> cs = [] \<or> (\<not> isspace (hd cs) \<and> hd cs \<noteq> DQ) \<Longrightarrow>
   reaches lx (skipWhitespace lx) \<and> rest (skipWhitespace lx) = cs \<and>
   lx_pos (skipWhitespace lx) = lx_pos lx + length ws"
proof (induction ws arbitrary: lx)
  case Nil
  then have "skipWhitespace lx = lx"
  proof (cases cs)
    case Nil
    with Nil.prems have "\<not> unread lx" using unread_rest by simp
    then show ?thesis by (subst skipWhitespace.simps) simp
  next
    case (Cons c cs')
    with Nil.prems have "unread lx" "here lx = c" "\<not> isspace c" "c \<noteq> DQ"
      using rest_Cons [of lx c cs'] by simp_all
    then show ?thesis by (subst skipWhitespace.simps) simp
  qed
  with Nil show ?case by simp
next
  case (Cons w ws)
  then have r: "rest lx = w # (ws @ cs)" "isspace w" by simp_all
  note rc = rest_Cons [OF r(1)]
  have e: "skipWhitespace lx = skipWhitespace (advance lx)"
    using rc r(2) by (subst skipWhitespace.simps) simp
  have "reaches (advance lx) (skipWhitespace (advance lx)) \<and> rest (skipWhitespace (advance lx)) = cs \<and>
      lx_pos (skipWhitespace (advance lx)) = lx_pos (advance lx) + length ws"
    by (rule Cons.IH) (use rc(3) Cons.prems in auto)
  moreover have "reaches lx (advance lx)" by blast
  ultimately show ?case unfolding e using rc(1) by (auto intro: reaches_trans)
qed

text \<open>One token after some spaces: the dispatch on its first byte.\<close>

lemma lexOne_spaces:
  assumes ok: "\<not> lx_unterminated lx" and r: "rest lx = ws @ c # cs" and w: "list_all isspace ws"
    and c: "\<not> isspace c" "c \<noteq> DQ"
  obtains l where "rest l = c # cs" "lx_prev l = lx_prev lx" "lx_pos l = lx_pos lx + length ws"
    "lexOne lx = (let (t, l') = lexDispatch (ws \<noteq> []) l
                  in (t\<lparr>t_blank := lx_blank l'\<rparr>, l'\<lparr>lx_prev := t_kind t\<rparr>))"
proof -
  let ?w = "skipWhitespace lx"
  let ?l = "?w\<lparr>lx_blank := containsBlankLine (lx_source lx) (lx_pos lx) (lx_pos ?w)\<rparr>"
  have s: "reaches lx ?w" "rest ?w = c # cs" "lx_pos ?w = lx_pos lx + length ws"
    using skipWhitespace_spaces [of lx ws "c # cs"] r w c by simp_all
  have "rest ?l = c # cs" using s(2) by (simp add: rest_def)
  moreover have "lexOne lx = (let (t, l') = lexDispatch (ws \<noteq> []) ?l
      in (t\<lparr>t_blank := lx_blank l'\<rparr>, l'\<lparr>lx_prev := t_kind t\<rparr>))"
    using rest_Cons [OF s(2)] reaches_frame [OF s(1)] ok s(3)
    by (simp add: lexOne_def nextImpl_def Let_def)
  ultimately show ?thesis using s(3) reaches_frame(7) [OF s(1)] by (intro that [of ?l]) simp_all
qed

lemma tail_update [simp]: "rest (l\<lparr>lx_prev := k\<rparr>) = rest l"
  by (simp add: rest_def)

section \<open>Strings\<close>

definition escape :: "string \<Rightarrow> string" where
  "escape s = concat (map (\<lambda>c. if c = SQ then [SQ, SQ] else [c]) s)"

definition quote :: "string \<Rightarrow> string" where
  "quote s = SQ # escape s @ [SQ]"

lemma escape_simps [simp]:
  "escape [] = []" "escape (c # cs) = (if c = SQ then [SQ, SQ] else [c]) @ escape cs"
  by (simp_all add: escape_def)

lemma lexString_loop_escape:
  "rest lx = escape s @ SQ # r \<Longrightarrow> r = [] \<or> hd r \<noteq> SQ \<Longrightarrow>
   \<exists>lx'. lexString_loop l c out lx = (mk_token T_String (out @ s) l c, lx') \<and> rest lx' = r"
proof (induction s arbitrary: lx out)
  case Nil
  then have q: "rest lx = SQ # r" by simp
  note rc = rest_Cons [OF q]
  have "\<not> (lx_pos lx + 1 < length (lx_source lx) \<and> lx_source lx ! (lx_pos lx + 1) = SQ)"
    using Nil(2) q source_rest [of 1 lx] by (cases r) (auto simp: next_in_source)
  then have "lexString_loop l c out lx = (mk_token T_String out l c, advance lx)"
    using rc by (subst lexString_loop.simps) auto
  with rc show ?case by simp
next
  case (Cons a s)
  show ?case
  proof (cases "a = SQ")
    case True
    with Cons.prems have q: "rest lx = SQ # SQ # (escape s @ SQ # r)" by simp
    note rc = rest_Cons [OF q] and rc2 = rest_Cons [OF rest_Cons(3) [OF q]]
    have "lx_pos lx + 1 < length (lx_source lx) \<and> lx_source lx ! (lx_pos lx + 1) = SQ"
      using q source_rest [of 1 lx] by (simp add: next_in_source)
    then have "lexString_loop l c out lx = lexString_loop l c (out @ [SQ]) (advance (advance lx))"
      using rc by (subst lexString_loop.simps) simp
    with Cons.IH [OF rc2(3) Cons.prems(2), of "out @ [SQ]"] True show ?thesis by simp
  next
    case False
    with Cons.prems have q: "rest lx = a # (escape s @ SQ # r)" by simp
    note rc = rest_Cons [OF q]
    have "lexString_loop l c out lx = lexString_loop l c (out @ [a]) (advance lx)"
      using rc False by (subst lexString_loop.simps) simp
    with Cons.IH [OF rc(3) Cons.prems(2), of "out @ [a]"] show ?thesis by simp
  qed
qed

text \<open>
  Strings round-trip: for every byte string, quoting it (and doubling each
  quote in it) gives a text that lexes to one String token holding exactly that
  byte string, newlines, NULs and quotes included.
\<close>

theorem string_roundtrip:
  assumes "\<not> lx_unterminated lx" and "rest lx = quote s @ r" and "r = [] \<or> hd r \<noteq> SQ"
  shows "t_kind (fst (lexOne lx)) = T_String \<and> t_text (fst (lexOne lx)) = s \<and>
     rest (snd (lexOne lx)) = r"
proof -
  have r: "rest lx = [] @ SQ # (escape s @ SQ # r)" using assms(2) by (simp add: quote_def)
  obtain l where l: "rest l = SQ # (escape s @ SQ # r)"
    "lexOne lx = (let (t, l') = lexDispatch ([] \<noteq> ([]::string)) l
                  in (t\<lparr>t_blank := lx_blank l'\<rparr>, l'\<lparr>lx_prev := t_kind t\<rparr>))"
    by (rule lexOne_spaces [OF assms(1) r]) simp_all
  note rc = rest_Cons [OF l(1)]
  have d: "lexDispatch sp l = lexString l" for sp
    using rc by (simp add: lexDispatch_def Let_def ctype char_code_def)
  obtain l' where "lexString l = (mk_token T_String s (lx_line l) (lx_col l), l')" "rest l' = r"
    using lexString_loop_escape [OF rc(3) assms(3), of "lx_line l" "lx_col l" "[]"]
    by (auto simp: lexString_def)
  with l(2) d show ?thesis by simp
qed

lemma string_roundtrip_witness:
  "t_text (fst (lexOne (lexer_init (quote [CHR ''a'', SQ, NL])))) = [CHR ''a'', SQ, NL]"
  using string_roundtrip [of "lexer_init (quote [CHR ''a'', SQ, NL])" "[CHR ''a'', SQ, NL]" "[]"]
  by (simp add: lexer_init_def rest_def quote_def)

section \<open>Names\<close>

definition word_kind :: "string \<Rightarrow> token_kind" where
  "word_kind w =
     (if w = ''true'' then T_True else if w = ''false'' then T_False
      else if w = ''nil'' then T_Nil else T_Identifier)"

definition is_name :: "string \<Rightarrow> bool" where
  "is_name w \<longleftrightarrow> w \<noteq> [] \<and> (isalpha (hd w) \<or> hd w = CHR ''_'') \<and> list_all is_ident_char w"

lemma is_name_head:
  "is_name (c # cs) \<Longrightarrow> \<not> isspace c \<and> c \<noteq> DQ \<and> (isalpha c \<or> c = CHR ''_'')"
  by (auto simp: is_name_def ctype char_code_def)

lemma lexDispatch_name:
  "rest l = w @ r \<Longrightarrow> is_name w \<Longrightarrow> lexDispatch sp l = lexIdentifier l"
  using rest_Cons [of l "hd w" "tl w @ r"] is_name_head [of "hd w" "tl w"]
  by (cases w) (auto simp: lexDispatch_def Let_def is_name_def)

text \<open>
  A name is read whole: letters, digits and underscores not starting with a
  digit, followed by anything else, lex to one token with that text, a keyword
  part when the next byte is a colon not followed by \<open>=\<close>, and an identifier
  (or one of the three reserved literals) otherwise.
\<close>

theorem name_roundtrip:
  assumes "\<not> lx_unterminated lx" and "rest lx = w @ r" and "is_name w"
    and "r = [] \<or> \<not> is_ident_char (hd r)"
  shows "if r \<noteq> [] \<and> hd r = CHR '':'' \<and> take 1 (tl r) \<noteq> ''=''
         then t_kind (fst (lexOne lx)) = T_Keyword \<and> t_text (fst (lexOne lx)) = w @ '':'' \<and>
              rest (snd (lexOne lx)) = tl r
         else t_kind (fst (lexOne lx)) = word_kind w \<and> t_text (fst (lexOne lx)) = w \<and>
              rest (snd (lexOne lx)) = r"
proof -
  obtain c cs where w: "w = c # cs" using assms(3) by (cases w) (auto simp: is_name_def)
  have r: "rest lx = [] @ c # (cs @ r)" using assms(2) w by simp
  obtain l where l: "rest l = c # (cs @ r)"
    "lexOne lx = (let (t, l') = lexDispatch ([] \<noteq> ([]::string)) l
                  in (t\<lparr>t_blank := lx_blank l'\<rparr>, l'\<lparr>lx_prev := t_kind t\<rparr>))"
    by (rule lexOne_spaces [OF assms(1) r]) (use assms(3) w is_name_head in auto)
  then have rl: "rest l = w @ r" using w by simp
  let ?m = "advance_while is_ident_char l"
  have all: "list_all is_ident_char w" using assms(3) by (simp add: is_name_def)
  have rm: "rest ?m = r"
    using assms(4) all by (cases r) (simp_all add: advance_while_rest rl dropWhile_all_then dropWhile_all_end)
  have lm: "lexeme l ?m = w"
    using assms(4) all by (cases r) (simp_all add: lexeme_advance_while rl takeWhile_all_then takeWhile_all_end)
  have cond: "(unread ?m \<and> here ?m = CHR '':'' \<and>
       (lx_pos ?m + 1 \<ge> length (lx_source ?m) \<or> lx_source ?m ! (lx_pos ?m + 1) \<noteq> CHR ''='')) =
     (r \<noteq> [] \<and> hd r = CHR '':'' \<and> take 1 (tl r) \<noteq> ''='')"
  proof (cases r)
    case Nil
    then have "\<not> unread ?m" using rm unread_rest [of ?m] by simp
    with Nil show ?thesis by blast
  next
    case (Cons d ds)
    note rc = rest_Cons [OF rm [unfolded Cons]]
    show ?thesis
      using rc rm Cons source_rest [of 1 ?m] next_in_source [of ?m]
      by (cases ds) auto
  qed
  have kw: "lexeme l (advance ?m) = w @ [hd r]" "rest (advance ?m) = tl r" if "r \<noteq> []"
  proof -
    have "lx_pos (advance ?m) = lx_pos l + Suc (length w)"
      using that rm unread_rest [of ?m] advance_while_rest [of is_ident_char l] lm
      by (simp add: lexeme_advance_while)
    then show "lexeme l (advance ?m) = w @ [hd r]"
      using that rl by (cases r) (simp_all add: lexeme_def substr_def rest_def)
    show "rest (advance ?m) = tl r" using rm by simp
  qed
  show ?thesis
  proof (cases "r \<noteq> [] \<and> hd r = CHR '':'' \<and> take 1 (tl r) \<noteq> ''=''")
    case True
    then have "lexIdentifier l = (mk_token T_Keyword (w @ '':'') (lx_line l) (lx_col l), advance ?m)"
      using cond kw(1) unfolding lexIdentifier_def Let_def by simp
    with True kw(2) l(2) lexDispatch_name [OF rl assms(3)] show ?thesis by simp
  next
    case False
    then have "lexIdentifier l = (mk_token (word_kind w) w (lx_line l) (lx_col l), ?m)"
      unfolding lexIdentifier_def Let_def cond lm word_kind_def by (simp only: if_False)
    with False rm l(2) lexDispatch_name [OF rl assms(3)] show ?thesis by auto
  qed
qed

lemma name_roundtrip_witness:
  "t_kind (fst (lexOne (lexer_init ''at: 1''))) = T_Keyword \<and>
   t_kind (fst (lexOne (lexer_init ''x := 1''))) = T_Identifier"
  using name_roundtrip [of "lexer_init ''at: 1''" "''at''" "'': 1''"]
    name_roundtrip [of "lexer_init ''x := 1''" "''x''" "'' := 1''"]
  by (simp add: lexer_init_def rest_def is_name_def is_ident_char_def ctype char_code_def word_kind_def)

section \<open>Integers\<close>

definition number_end :: "string \<Rightarrow> bool" where
  "number_end r \<longleftrightarrow> r = [] \<or> (\<not> isdigit (hd r) \<and> hd r \<notin> set ''r.e'')"

lemma number_end_first:
  "number_end r \<Longrightarrow> rest m = r \<Longrightarrow> unread m \<Longrightarrow> here m \<notin> set ''r.e''"
  using rest_Cons [of m] by (cases r) (auto simp: number_end_def unread_rest)

lemma lexNumber_digits:
  assumes r: "rest lx = ds @ r" and ds: "list_all isdigit ds" and e: "number_end r"
  shows "lexNumber n lx =
     (decimal_token n ds False [] [] (lx_line lx) (if n then lx_col lx - 1 else lx_col lx),
      advance_while isdigit lx) \<and> rest (advance_while isdigit lx) = r"
proof -
  let ?m = "advance_while isdigit lx"
  have lm: "lexeme lx ?m = ds"
    using ds e by (cases r) (simp_all add: lexeme_advance_while r takeWhile_all_then
        takeWhile_all_end number_end_def)
  have rm: "rest ?m = r"
    using ds e by (cases r) (simp_all add: advance_while_rest r dropWhile_all_then
        dropWhile_all_end number_end_def)
  have h: "unread ?m \<Longrightarrow> here ?m \<notin> set ''r.e''" using e rm by (rule number_end_first)
  have "lexRadix a b c d ?m = None" for a b c d using h by (auto simp: lexRadix_def)
  moreover have "lexFraction ?m = (False, [], ?m)" using h by (auto simp: lexFraction_def)
  moreover have "lexExponent ?m = ([], ?m)" using h by (auto simp: lexExponent_def)
  ultimately show ?thesis using rm lm by (simp add: lexNumber_def Let_def)
qed

definition int_token :: "int \<Rightarrow> string \<Rightarrow> token \<Rightarrow> bool" where
  "int_token i txt t \<longleftrightarrow> t_kind t = T_Integer \<and> t_text t = txt \<and>
     (if - (2 ^ 63) \<le> i \<and> i < 2 ^ 63 then t_int t = i \<and> \<not> t_large t
      else t_large t \<and> t_radix t = 10)"

lemma decimal_token_int:
  "0 \<le> i \<Longrightarrow> int_token (if n then - i else i) (sign_text n @ show_pos i)
     (decimal_token n (show_pos i) False [] [] l c)"
  by (auto simp: decimal_token_def Let_def int_token_def stoll_def)

lemma int_token_blank [simp]: "int_token i x (t\<lparr>t_blank := b\<rparr>) = int_token i x t"
  by (simp add: int_token_def)

lemma digit_dispatch:
  assumes "rest l = c # cs" "isdigit c"
  shows "lexDispatch sp l = lexNumber False l"
  using rest_Cons [OF assms(1)] assms(2)
  by (auto simp: lexDispatch_def Let_def isalpha_not_digit, auto simp: ctype char_code_def)

lemma minus_dispatch:
  assumes "rest l = CHR ''-'' # cs"
  shows "lexDispatch sp l = lexMinus sp l"
  using rest_Cons [OF assms] by (auto simp: lexDispatch_def Let_def ctype char_code_def)

lemma show_pos_head: "0 \<le> i \<Longrightarrow> \<exists>d ds. show_pos i = d # ds \<and> isdigit d"
  using show_pos_digits [of i] show_pos_not_Nil [of i] by (cases "show_pos i") auto

text \<open>
  Integers round-trip, and the sign is read as the language says: the
  decimal text of any integer, after any white space, lexes to one Integer
  token with its value, or to the large-integer form outside 64 bits; only a
  minus glued to a token that ends an operand is the binary operator, and then
  the digits are left for the next token.
\<close>

theorem integer_roundtrip:
  assumes "\<not> lx_unterminated lx" and "rest lx = ws @ show_int i @ r"
    and "list_all isspace ws" and "number_end r"
  shows "if i < 0 \<and> ws = [] \<and> endsOperand (lx_prev lx)
         then t_kind (fst (lexOne lx)) = T_BinaryOp \<and> t_text (fst (lexOne lx)) = ''-'' \<and>
              rest (snd (lexOne lx)) = show_int (- i) @ r
         else int_token i (show_int i) (fst (lexOne lx)) \<and> rest (snd (lexOne lx)) = r"
proof (cases "i < 0")
  case False
  then have i: "0 \<le> i" by simp
  then obtain d ds where d: "show_pos i = d # ds" "isdigit d" using show_pos_head by blast
  have r: "rest lx = ws @ d # (ds @ r)" using assms(2) False d by (simp add: show_int_def)
  have q: "\<not> isspace d" "d \<noteq> DQ" using d(2) by (auto simp: ctype char_code_def)
  obtain l where l: "rest l = d # (ds @ r)"
    "lexOne lx = (let (t, l') = lexDispatch (ws \<noteq> []) l
                  in (t\<lparr>t_blank := lx_blank l'\<rparr>, l'\<lparr>lx_prev := t_kind t\<rparr>))"
    by (rule lexOne_spaces [OF assms(1) r assms(3) q])
  have "rest l = show_pos i @ r" using l(1) d by simp
  note n = lexNumber_digits [OF this show_pos_digits [OF i] assms(4)]
  have "int_token i (show_pos i) (decimal_token False (show_pos i) False [] [] (lx_line l) (lx_col l))"
    using decimal_token_int [OF i, of False] by (simp add: sign_text_def)
  with n False l(2) digit_dispatch [OF l(1) d(2)] show ?thesis by (simp add: show_int_def)
next
  case True
  then have i: "0 \<le> - i" by simp
  then obtain d ds where d: "show_pos (- i) = d # ds" "isdigit d" using show_pos_head by blast
  have r: "rest lx = ws @ CHR ''-'' # (show_pos (- i) @ r)"
    using assms(2) True by (simp add: show_int_def)
  have q: "\<not> isspace (CHR ''-'')" "CHR ''-'' \<noteq> DQ" by (simp_all add: ctype char_code_def)
  obtain l where l: "rest l = CHR ''-'' # (show_pos (- i) @ r)" "lx_prev l = lx_prev lx"
    "lexOne lx = (let (t, l') = lexDispatch (ws \<noteq> []) l
                  in (t\<lparr>t_blank := lx_blank l'\<rparr>, l'\<lparr>lx_prev := t_kind t\<rparr>))"
    by (rule lexOne_spaces [OF assms(1) r assms(3) q])
  note rc = rest_Cons [OF l(1)]
  have lk: "look 1 l = d" using l(1) d by (simp add: look_rest)
  have ngt: "d \<noteq> CHR ''>''" using d(2) by (auto simp: ctype char_code_def)
  note n = lexNumber_digits [OF rc(3) show_pos_digits [OF i] assms(4), of True]
  have it: "int_token i (show_int i) (decimal_token True (show_pos (- i)) False [] [] a b)" for a b
    using decimal_token_int [OF i, of True] True by (simp add: sign_text_def show_int_def)
  show ?thesis
  proof (cases "ws = [] \<and> endsOperand (lx_prev lx)")
    case glued: True
    with True l lk d(2) ngt rc show ?thesis
      by (simp add: minus_dispatch [OF l(1)] lexMinus_def prevEndsOperand_def show_int_def)
  next
    case False
    then have "lexDispatch (ws \<noteq> []) l = lexNumber True (advance l)"
      using l(2) lk d(2) ngt by (auto simp: minus_dispatch [OF l(1)] lexMinus_def prevEndsOperand_def)
    with n it l(3) False show ?thesis by auto
  qed
qed

lemma integer_roundtrip_witness:
  "int_token (- 12) ''-12'' (fst (lexOne (lexer_init '' -12)'')))"
proof -
  have s: "show_int (- 12) = ''-12''" by code_simp
  have "rest (lexer_init '' -12)'') = '' '' @ show_int (- 12) @ '')''"
    by (simp add: s lexer_init_def rest_def)
  from integer_roundtrip [OF _ this] show ?thesis
    by (simp add: s number_end_def ctype char_code_def lexer_init_def)
qed

section \<open>Exponents\<close>

text \<open>
  The limit on an integer literal's exponent is lost when the exponent
  itself does not fit in an \<open>int\<close>: every such exponent is read as 400, so
  \<open>1e401\<close> is rejected while \<open>1e99999999999\<close> is accepted as ten to the 400.
\<close>

theorem exponent_overflow_accepted:
  assumes "2 ^ 31 \<le> digits_value 10 ex" and "ex \<noteq> []" and "hd ex \<noteq> CHR ''-''"
  shows "decimal_token n ds False [] ex l c = decimal_token n ds False [] ''400'' l c \<and>
     t_kind (decimal_token n ds False [] ex l c) = T_Integer \<and>
     t_text (decimal_token n ds False [] ex l c) = sign_text n @ ds @ replicate 400 (CHR ''0'') \<and>
     t_kind (decimal_token n ds False [] ''401'' l c) = T_Error"
proof -
  have v: "digits_value 10 ''400'' = 400" "digits_value 10 ''401'' = 401" by code_simp+
  have "stoi ex = None" using assms(1) by (simp add: stoi_def)
  moreover have "stoi ''400'' = Some 400" "stoi ''401'' = Some 401" by (simp_all add: stoi_def v)
  ultimately show ?thesis
    using assms
    by (cases "stoll n 10 (ds @ replicate 400 (CHR ''0''))")
      (simp_all add: decimal_token_def makeError_def Let_def)
qed

lemma exponent_overflow_accepted_witness:
  "t_kind (decimal_token False ''1'' False [] ''99999999999'' 1 1) = T_Integer"
proof -
  have "2 ^ 31 \<le> digits_value 10 ''99999999999''" by code_simp
  moreover have "''99999999999'' \<noteq> []" "hd ''99999999999'' \<noteq> CHR ''-''" by simp_all
  ultimately show ?thesis by (rule exponent_overflow_accepted [THEN conjunct2, THEN conjunct1])
qed

section \<open>Blank lines\<close>

text \<open>
  The text between two tokens holds a blank line: two newlines with only white
  space between them, the first outside a comment.
\<close>

definition has_blank_line :: "string \<Rightarrow> bool" where
  "has_blank_line s \<longleftrightarrow> (\<exists>a w b. s = a @ NL # w @ NL # b \<and> list_all isspace w \<and>
     even (length (filter (\<lambda>c. c = DQ) a)))"

definition blank_tail :: "string \<Rightarrow> bool" where
  "blank_tail s \<longleftrightarrow> (\<exists>w b. s = w @ NL # b \<and> list_all isspace w)"

definition blank_from :: "bool \<Rightarrow> string \<Rightarrow> bool" where
  "blank_from com s \<longleftrightarrow> (\<exists>a w b. s = a @ NL # w @ NL # b \<and> list_all isspace w \<and>
     even (length (filter (\<lambda>c. c = DQ) a)) = (\<not> com))"

lemma blank_tail_simps:
  "\<not> blank_tail []"
  "blank_tail (c # cs) \<longleftrightarrow> c = NL \<or> (isspace c \<and> blank_tail cs)"
proof -
  show "\<not> blank_tail []" by (simp add: blank_tail_def)
  show "blank_tail (c # cs) \<longleftrightarrow> c = NL \<or> (isspace c \<and> blank_tail cs)"
  proof
    assume "blank_tail (c # cs)"
    then obtain w b where w: "c # cs = w @ NL # b" "list_all isspace w" by (auto simp: blank_tail_def)
    then show "c = NL \<or> (isspace c \<and> blank_tail cs)"
      by (cases w) (auto simp: blank_tail_def)
  next
    assume "c = NL \<or> (isspace c \<and> blank_tail cs)"
    then show "blank_tail (c # cs)"
    proof
      assume "c = NL"
      then have "c # cs = [] @ NL # cs \<and> list_all isspace []" by simp
      then show ?thesis unfolding blank_tail_def by blast
    next
      assume "isspace c \<and> blank_tail cs"
      then obtain w b where "isspace c" "cs = w @ NL # b" "list_all isspace w"
        by (auto simp: blank_tail_def)
      then have "c # cs = (c # w) @ NL # b \<and> list_all isspace (c # w)" by simp
      then show ?thesis unfolding blank_tail_def by blast
    qed
  qed
qed

lemma blank_from_simps:
  "\<not> blank_from com []"
  "blank_from com (c # cs) \<longleftrightarrow> (c = NL \<and> \<not> com \<and> blank_tail cs) \<or> blank_from (com \<noteq> (c = DQ)) cs"
proof -
  show "\<not> blank_from com []" by (simp add: blank_from_def)
  show "blank_from com (c # cs) \<longleftrightarrow>
      (c = NL \<and> \<not> com \<and> blank_tail cs) \<or> blank_from (com \<noteq> (c = DQ)) cs"
  proof
    assume "blank_from com (c # cs)"
    then obtain a w b where a: "c # cs = a @ NL # w @ NL # b" "list_all isspace w"
      "even (length (filter (\<lambda>c. c = DQ) a)) = (\<not> com)" by (auto simp: blank_from_def)
    show "(c = NL \<and> \<not> com \<and> blank_tail cs) \<or> blank_from (com \<noteq> (c = DQ)) cs"
    proof (cases a)
      case Nil
      with a show ?thesis by (auto simp: blank_tail_def)
    next
      case (Cons d a')
      with a have "cs = a' @ NL # w @ NL # b"
        "even (length (filter (\<lambda>c. c = DQ) a')) = (\<not> (com \<noteq> (c = DQ)))"
        by (auto split: if_splits)
      with a(2) show ?thesis unfolding blank_from_def by blast
    qed
  next
    assume "(c = NL \<and> \<not> com \<and> blank_tail cs) \<or> blank_from (com \<noteq> (c = DQ)) cs"
    then show "blank_from com (c # cs)"
    proof
      assume "c = NL \<and> \<not> com \<and> blank_tail cs"
      then obtain w b where "c = NL" "\<not> com" "cs = w @ NL # b" "list_all isspace w"
        by (auto simp: blank_tail_def)
      then have "c # cs = [] @ NL # w @ NL # b \<and> list_all isspace w \<and>
          even (length (filter (\<lambda>c. c = DQ) [])) = (\<not> com)" by simp
      then show ?thesis unfolding blank_from_def by blast
    next
      assume "blank_from (com \<noteq> (c = DQ)) cs"
      then obtain a w b where "cs = a @ NL # w @ NL # b" "list_all isspace w"
        "even (length (filter (\<lambda>c. c = DQ) a)) = (\<not> (com \<noteq> (c = DQ)))"
        by (auto simp: blank_from_def)
      then have "c # cs = (c # a) @ NL # w @ NL # b \<and> list_all isspace w \<and>
          even (length (filter (\<lambda>c. c = DQ) (c # a))) = (\<not> com)" by auto
      then show ?thesis unfolding blank_from_def by blast
    qed
  qed
qed

lemma blank_scan_from:
  "com \<longrightarrow> content \<Longrightarrow>
   blank_scan nl content com s \<longleftrightarrow> (nl \<and> \<not> content \<and> blank_tail s) \<or> blank_from com s"
  by (induction s arbitrary: nl content com)
    (auto simp: blank_tail_simps blank_from_simps)

text \<open>
  The blank mark is right: a token is marked as following a blank line
  exactly when the white space and comments skipped before it contain two
  newlines with only white space between them, the first of the two outside
  every comment.
\<close>

theorem blank_mark:
  "t_blank (fst (lexOne lx)) \<longleftrightarrow> has_blank_line (lexeme lx (skipWhitespace lx))"
proof -
  let ?w = "skipWhitespace lx"
  let ?b = "containsBlankLine (lx_source lx) (lx_pos lx) (lx_pos ?w)"
  let ?l = "?w\<lparr>lx_blank := ?b\<rparr>"
  have "t_blank (fst (lexOne lx)) = ?b"
  proof (cases "lx_unterminated ?w \<or> \<not> unread ?l")
    case True
    then show ?thesis by (auto simp: lexOne_def nextImpl_def Let_def)
  next
    case False
    then have g: "good_form ?l (lexDispatch (lx_pos ?w \<noteq> lx_pos lx) ?l)"
      by (intro lexDispatch_good) simp
    then have "reaches ?l (snd (lexDispatch (lx_pos ?w \<noteq> lx_pos lx) ?l))"
      by (simp add: good_form_def advances_def)
    with False show ?thesis
      using reaches_frame(3) [of ?l] by (auto simp: lexOne_def nextImpl_def Let_def split: prod.splits)
  qed
  also have "?b = has_blank_line (lexeme lx ?w)"
    by (simp add: containsBlankLine_def blank_scan_from lexeme_def has_blank_line_def blank_from_def)
  finally show ?thesis .
qed

end
