(* ===== verification/TokenStream.thy ===== *)
theory TokenStream
  imports LexerProgress
begin

text \<open>
  What the parser relies on when it calls \<open>next()\<close>, \<open>peek()\<close> and
  \<open>peekSecond()\<close>: one fixed sequence of tokens, which peeking does not
  change and \<open>next\<close> consumes one by one.  The interface is the locale
  \<open>token_source\<close>; the lexer with its lookahead buffer is an instance, because
  lexing a token does not depend on the tokens waiting in the buffer.
\<close>

section \<open>The interface\<close>

locale token_source =
  fixes nxt :: "'s \<Rightarrow> token \<times> 's"
    and peek1 :: "'s \<Rightarrow> token \<times> 's"
    and peek2 :: "'s \<Rightarrow> token \<times> 's"
    and ahead :: "'s \<Rightarrow> nat \<Rightarrow> token"
    and left :: "'s \<Rightarrow> nat"
  assumes nxt_token: "fst (nxt s) = ahead s 0"
    and nxt_ahead: "ahead (snd (nxt s)) k = ahead s (Suc k)"
    and peek1_token: "fst (peek1 s) = ahead s 0"
    and peek1_ahead: "ahead (snd (peek1 s)) k = ahead s k"
    and peek2_token: "fst (peek2 s) = ahead s 1"
    and peek2_ahead: "ahead (snd (peek2 s)) k = ahead s k"
    and nxt_left: "left (snd (nxt s)) \<le> left s"
    and nxt_less: "t_kind (fst (nxt s)) \<noteq> T_EndOfFile \<Longrightarrow> left (snd (nxt s)) < left s"
    and peek1_left: "left (snd (peek1 s)) \<le> left s"
    and peek2_left: "left (snd (peek2 s)) \<le> left s"
begin

lemma peek_then_next: "fst (nxt (snd (peek1 s))) = fst (peek1 s)"
  by (simp add: nxt_token peek1_token peek1_ahead)

lemma peek_again: "fst (peek1 (snd (peek1 s))) = fst (peek1 s)"
  by (simp add: peek1_token peek1_ahead)

lemma peek2_then_next: "fst (nxt (snd (nxt (snd (peek2 s))))) = fst (peek2 s)"
  by (simp add: nxt_token nxt_ahead peek2_token peek2_ahead)

lemma peek2_keeps_next: "fst (nxt (snd (peek2 s))) = fst (nxt s)"
  by (simp add: nxt_token peek2_ahead)

text \<open>The tokens a client consumes with n calls of \<open>next\<close>.\<close>

fun take_tokens :: "nat \<Rightarrow> 's \<Rightarrow> token list" where
  "take_tokens 0 s = []"
| "take_tokens (Suc n) s = fst (nxt s) # take_tokens n (snd (nxt s))"

lemma take_tokens_ahead: "take_tokens n s = map (ahead s) [0..<n]"
proof (induction n arbitrary: s)
  case (Suc n)
  have "map (ahead s) [0..<Suc n] = ahead s 0 # map (\<lambda>k. ahead s (Suc k)) [0..<n]"
    by (simp add: upt_conv_Cons map_Suc_upt [symmetric] del: upt_Suc)
  with Suc show ?case by (simp add: nxt_token nxt_ahead comp_def)
qed simp

lemma peeking_is_silent:
  "take_tokens n (snd (peek1 s)) = take_tokens n s"
  "take_tokens n (snd (peek2 s)) = take_tokens n s"
  by (simp_all add: take_tokens_ahead peek1_ahead peek2_ahead)

end

section \<open>Lexing does not look at the buffer\<close>

abbreviation (input) with_buffer :: "token list \<Rightarrow> lexer \<Rightarrow> lexer" where
  "with_buffer q lx \<equiv> lx\<lparr>lx_lookahead := q\<rparr>"

abbreviation (input) buffered :: "token list \<Rightarrow> 'a \<times> lexer \<Rightarrow> 'a \<times> lexer" where
  "buffered q r \<equiv> apsnd (lx_lookahead_update (\<lambda>_. q)) r"

named_theorems buffer "operations commute with replacing the lookahead buffer"

lemma advance_buffer [buffer]: "advance (with_buffer q lx) = with_buffer q (advance lx)"
  by (simp add: advance_def)

lemma lexeme_buffer [buffer]:
  "lexeme (with_buffer q lx) lx' = lexeme lx lx'" "lexeme lx (with_buffer q lx') = lexeme lx lx'"
  by (simp_all add: lexeme_def)

lemma look_buffer [buffer]: "look k (with_buffer q lx) = look k lx"
  by (simp add: look_def)

lemma advance_while_buffer [buffer]:
  "advance_while P (with_buffer q lx) = with_buffer q (advance_while P lx)"
proof (induction P lx rule: advance_while.induct)
  case (1 P lx)
  then show ?case
    by (cases "unread lx \<and> P (here lx)")
      (simp_all add: advance_while_step advance_while_stop buffer)
qed

lemma skipWhitespace_buffer [buffer]:
  "skipWhitespace (with_buffer q lx) = with_buffer q (skipWhitespace lx)"
proof (induction lx rule: skipWhitespace.induct)
  case (1 lx)
  then show ?case
    by (subst (1 2) skipWhitespace.simps) (simp add: buffer Let_def)
qed

lemma lexIdentifier_buffer [buffer]:
  "lexIdentifier (with_buffer q lx) = buffered q (lexIdentifier lx)"
  by (auto simp: lexIdentifier_def Let_def buffer)

lemma lexRadix_buffer [buffer]:
  "lexRadix n d l c (with_buffer q lx) = map_option (buffered q) (lexRadix n d l c lx)"
  unfolding lexRadix_def Let_def by (simp add: buffer split: option.split)

lemma lexFraction_buffer [buffer]:
  "lexFraction (with_buffer q lx) = apsnd (apsnd (lx_lookahead_update (\<lambda>_. q))) (lexFraction lx)"
  by (simp add: lexFraction_def Let_def buffer)

lemma lexExponent_buffer [buffer]:
  "lexExponent (with_buffer q lx) = buffered q (lexExponent lx)"
  by (simp add: lexExponent_def Let_def buffer)

lemma lexNumber_buffer [buffer]:
  "lexNumber n (with_buffer q lx) = buffered q (lexNumber n lx)"
  by (simp add: lexNumber_def Let_def buffer split: option.split prod.split)

lemma lexString_loop_buffer [buffer]:
  "lexString_loop l c out (with_buffer q lx) = buffered q (lexString_loop l c out lx)"
proof (induction l c out lx rule: lexString_loop.induct)
  case (1 l c out lx)
  then show ?case
    by (subst (1 2) lexString_loop.simps) (simp add: buffer)
qed

lemma symbol_chain_buffer [buffer]:
  "symbol_chain (with_buffer q lx) = with_buffer q (symbol_chain lx)"
proof (induction lx rule: symbol_chain.induct)
  case (1 lx)
  then show ?case
    by (subst (1 2) symbol_chain.simps) (auto simp: buffer)
qed

lemma other_forms_buffer [buffer]:
  "lexString (with_buffer q lx) = buffered q (lexString lx)"
  "lexChar (with_buffer q lx) = buffered q (lexChar lx)"
  "lexSymbol (with_buffer q lx) = buffered q (lexSymbol lx)"
  "lexOperator (with_buffer q lx) = buffered q (lexOperator lx)"
  "prevEndsOperand (with_buffer q lx) = prevEndsOperand lx"
  by (simp_all add: lexString_def lexChar_def lexSymbol_def lexOperator_def prevEndsOperand_def
        Let_def buffer)

lemma lexMinus_buffer [buffer]:
  "lexMinus sp (with_buffer q lx) = buffered q (lexMinus sp lx)"
  by (auto simp: lexMinus_def buffer)

lemma lexDispatch_buffer [buffer]:
  "lexDispatch sp (with_buffer q lx) = buffered q (lexDispatch sp lx)"
  by (cases "single_kind (here lx)") (simp_all add: lexDispatch_def Let_def buffer del: single_kind.simps)

lemma lexOne_buffer [buffer]: "lexOne (with_buffer q lx) = buffered q (lexOne lx)"
proof -
  let ?w = "skipWhitespace lx"
  let ?b = "containsBlankLine (lx_source lx) (lx_pos lx) (lx_pos ?w)"
  have c: "(with_buffer q ?w)\<lparr>lx_blank := ?b\<rparr> = with_buffer q (?w\<lparr>lx_blank := ?b\<rparr>)" by simp
  have "nextImpl (with_buffer q lx) = buffered q (nextImpl lx)"
    unfolding nextImpl_def Let_def skipWhitespace_buffer
    by (simp add: c lexDispatch_buffer)
  then show ?thesis
    by (simp add: lexOne_def split: prod.split)
qed

section \<open>The lexer is a token source\<close>

text \<open>The tokens to come: those in the buffer, then those not lexed yet.\<close>

fun lexed :: "lexer \<Rightarrow> nat \<Rightarrow> token" where
  "lexed lx 0 = fst (lexOne lx)"
| "lexed lx (Suc k) = lexed (snd (lexOne lx)) k"

definition lexer_ahead :: "lexer \<Rightarrow> nat \<Rightarrow> token" where
  "lexer_ahead lx k =
     (if k < length (lx_lookahead lx) then lx_lookahead lx ! k
      else lexed lx (k - length (lx_lookahead lx)))"

lemma lexed_buffer [simp]: "lexed (with_buffer q lx) k = lexed lx k"
  by (induction k arbitrary: lx) (simp_all add: buffer)

lemma lexOne_lookahead [simp]: "lx_lookahead (snd (lexOne lx)) = lx_lookahead lx"
  by (metis lexOne_left(1) prod.collapse)

lemma lex_ahead_snd:
  "lex_ahead lx = with_buffer (lx_lookahead lx @ [fst (lexOne lx)]) (snd (lexOne lx))"
  by (simp add: lex_ahead_def split: prod.split) (metis lexOne_lookahead snd_conv)

lemma lex_ahead_ahead: "lexer_ahead (lex_ahead lx) k = lexer_ahead lx k"
proof -
  let ?n = "length (lx_lookahead lx)"
  have "lexed (snd (lexOne lx)) (k - Suc ?n) = lexed lx (k - ?n)" if "?n < k"
    using that by (metis Suc_diff_Suc lexed.simps(2))
  then show ?thesis
    by (cases "k < ?n"; cases "k = ?n")
      (simp_all add: lexer_ahead_def lex_ahead_snd nth_append)
qed

lemma lexer_next_ahead:
  "fst (lexer_next lx) = lexer_ahead lx 0"
  "lexer_ahead (snd (lexer_next lx)) k = lexer_ahead lx (Suc k)"
  by (simp_all add: lexer_next_def lexer_ahead_def split: list.split)

lemma lexer_peek_ahead:
  "fst (lexer_peek lx) = lexer_ahead lx 0"
  "lexer_ahead (snd (lexer_peek lx)) k = lexer_ahead lx k"
proof -
  show "lexer_ahead (snd (lexer_peek lx)) k = lexer_ahead lx k"
    by (simp add: lexer_peek_def Let_def lex_ahead_ahead)
  show "fst (lexer_peek lx) = lexer_ahead lx 0"
    by (cases "lx_lookahead lx")
      (simp_all add: lexer_peek_def Let_def lex_ahead_snd lexer_ahead_def)
qed

lemma lexer_peekSecond_ahead:
  "fst (lexer_peekSecond lx) = lexer_ahead lx 1"
  "lexer_ahead (snd (lexer_peekSecond lx)) k = lexer_ahead lx k"
proof -
  define l1 where "l1 = (if length (lx_lookahead lx) < 2 then lex_ahead lx else lx)"
  define l2 where "l2 = (if length (lx_lookahead l1) < 2 then lex_ahead l1 else l1)"
  have p: "lexer_peekSecond lx = (lx_lookahead l2 ! 1, l2)"
    by (simp add: lexer_peekSecond_def Let_def l1_def [symmetric] l2_def [symmetric])
  have a: "lexer_ahead l2 k = lexer_ahead lx k" for k
    by (simp add: l2_def l1_def lex_ahead_ahead)
  have "2 \<le> length (lx_lookahead l2)"
    by (auto simp: l2_def l1_def lex_ahead_lookahead)
  then have "lx_lookahead l2 ! 1 = lexer_ahead l2 1" by (simp add: lexer_ahead_def)
  with p a show "fst (lexer_peekSecond lx) = lexer_ahead lx 1"
    "lexer_ahead (snd (lexer_peekSecond lx)) k = lexer_ahead lx k" by simp_all
qed

interpretation lexer_source: token_source lexer_next lexer_peek lexer_peekSecond lexer_ahead lexer_left
  by unfold_locales
    (simp_all add: lexer_next_ahead lexer_peek_ahead lexer_peekSecond_ahead
      lexer_next_left [OF prod.collapse [symmetric]] lexer_peek_left [OF prod.collapse [symmetric]]
      lexer_peekSecond_left [OF prod.collapse [symmetric]])

text \<open>
  Looking ahead is silent: after \<open>peek\<close> and \<open>peekSecond\<close> the next
  tokens are exactly those \<open>next\<close> would have answered without them, the first
  being the one \<open>peek\<close> showed and the second the one \<open>peekSecond\<close> showed.
\<close>

theorem lookahead_is_silent:
  "fst (lexer_next (snd (lexer_peek lx))) = fst (lexer_peek lx) \<and>
   fst (lexer_next (snd (lexer_next (snd (lexer_peekSecond lx))))) = fst (lexer_peekSecond lx) \<and>
   lexer_ahead (snd (lexer_peek (snd (lexer_peekSecond lx)))) n = lexer_ahead lx n"
  using lexer_source.peek_then_next lexer_source.peek2_then_next
  by (simp add: lexer_source.peek1_ahead lexer_source.peek2_ahead)

end
