(* ===== verification/Ast.thy ===== *)
theory Ast
  imports Token
begin

text \<open>
  src/frontend/AST.h: one node type for every construct, with a kind and the
  payload fields that kind uses.  A \<open>NodePtr\<close> child may be null, so the
  children are a list of optional nodes.
\<close>

datatype node_kind =
    N_IntegerLit | N_FloatLit | N_StringLit | N_SymbolLit | N_CharLit
  | N_TrueLit | N_FalseLit | N_NilLit
  | N_ArrayLit | N_DynArrayLit
  | N_Identifier | N_Self | N_Super | N_ThisContext
  | N_Assignment
  | N_UnarySend | N_BinarySend | N_KeywordSend
  | N_CallSend | N_Cascade | N_Block | N_Return
  | N_MethodDecl | N_CallMethodDecl | N_ClassDecl | N_Module

datatype node = Node
  (n_kind: node_kind)
  (n_line: int)
  (n_col: int)
  (n_text: string)
  (n_int: int)
  (n_int2: int)
  (n_float: dbl)
  (n_children: "node option list")
  (n_strings: "string list")
  (n_flag: bool)

definition makeNode :: "node_kind \<Rightarrow> int \<Rightarrow> int \<Rightarrow> node" where
  "makeNode k l c = Node k l c [] 0 0 dbl_zero [] [] False"

section \<open>Writing one field\<close>

fun set_text :: "string \<Rightarrow> node \<Rightarrow> node" where
  "set_text x (Node k l c t i j f cs ss b) = Node k l c x i j f cs ss b"
fun set_int :: "int \<Rightarrow> node \<Rightarrow> node" where
  "set_int x (Node k l c t i j f cs ss b) = Node k l c t x j f cs ss b"
fun set_int2 :: "int \<Rightarrow> node \<Rightarrow> node" where
  "set_int2 x (Node k l c t i j f cs ss b) = Node k l c t i x f cs ss b"
fun set_float :: "dbl \<Rightarrow> node \<Rightarrow> node" where
  "set_float x (Node k l c t i j f cs ss b) = Node k l c t i j x cs ss b"
fun set_children :: "node option list \<Rightarrow> node \<Rightarrow> node" where
  "set_children x (Node k l c t i j f cs ss b) = Node k l c t i j f x ss b"
fun set_strings :: "string list \<Rightarrow> node \<Rightarrow> node" where
  "set_strings x (Node k l c t i j f cs ss b) = Node k l c t i j f cs x b"
fun set_flag :: "bool \<Rightarrow> node \<Rightarrow> node" where
  "set_flag x (Node k l c t i j f cs ss b) = Node k l c t i j f cs ss x"

definition add_child :: "node option \<Rightarrow> node \<Rightarrow> node" where
  "add_child x n = set_children (n_children n @ [x]) n"

definition add_string :: "string \<Rightarrow> node \<Rightarrow> node" where
  "add_string x n = set_strings (n_strings n @ [x]) n"

text \<open>\<open>if (x) n->children.push_back(std::move(x))\<close>.\<close>

definition add_if :: "node option \<Rightarrow> node \<Rightarrow> node" where
  "add_if x n = (if x = None then n else add_child x n)"

lemma makeNode_sel [simp]:
  "n_kind (makeNode k l c) = k" "n_line (makeNode k l c) = l" "n_col (makeNode k l c) = c"
  "n_text (makeNode k l c) = []" "n_int (makeNode k l c) = 0" "n_int2 (makeNode k l c) = 0"
  "n_children (makeNode k l c) = []" "n_strings (makeNode k l c) = []"
  "n_flag (makeNode k l c) = False"
  by (simp_all add: makeNode_def)

lemma set_kind [simp]:
  "n_kind (set_text x n) = n_kind n" "n_kind (set_int i n) = n_kind n"
  "n_kind (set_int2 i n) = n_kind n" "n_kind (set_float f n) = n_kind n"
  "n_kind (set_children cs n) = n_kind n" "n_kind (set_strings ss n) = n_kind n"
  "n_kind (set_flag b n) = n_kind n" "n_kind (add_child y n) = n_kind n"
  "n_kind (add_string x n) = n_kind n" "n_kind (add_if y n) = n_kind n"
  by (cases n; simp add: add_child_def add_string_def add_if_def)+

lemma set_children_sel [simp]:
  "n_children (set_text x n) = n_children n" "n_children (set_int i n) = n_children n"
  "n_children (set_int2 i n) = n_children n" "n_children (set_float f n) = n_children n"
  "n_children (set_children cs n) = cs" "n_children (set_strings ss n) = n_children n"
  "n_children (set_flag b n) = n_children n" "n_children (add_child y n) = n_children n @ [y]"
  "n_children (add_string x n) = n_children n"
  "n_children (add_if y n) = (if y = None then n_children n else n_children n @ [y])"
  by (cases n; simp add: add_child_def add_string_def add_if_def)+

lemma set_strings_sel [simp]:
  "n_strings (set_text x n) = n_strings n" "n_strings (set_int i n) = n_strings n"
  "n_strings (set_int2 i n) = n_strings n" "n_strings (set_float f n) = n_strings n"
  "n_strings (set_children cs n) = n_strings n" "n_strings (set_strings ss n) = ss"
  "n_strings (set_flag b n) = n_strings n" "n_strings (add_child y n) = n_strings n"
  "n_strings (add_string x n) = n_strings n @ [x]" "n_strings (add_if y n) = n_strings n"
  by (cases n; simp add: add_child_def add_string_def add_if_def)+

lemma set_text_sel [simp]:
  "n_text (set_text x n) = x" "n_text (set_int i n) = n_text n"
  "n_text (set_int2 i n) = n_text n" "n_text (set_float f n) = n_text n"
  "n_text (set_children cs n) = n_text n" "n_text (set_strings ss n) = n_text n"
  "n_text (set_flag b n) = n_text n" "n_text (add_child y n) = n_text n"
  "n_text (add_string x n) = n_text n" "n_text (add_if y n) = n_text n"
  by (cases n; simp add: add_child_def add_string_def add_if_def)+

lemma set_int_sel [simp]:
  "n_int (set_text x n) = n_int n" "n_int (set_int i n) = i"
  "n_int (set_int2 i n) = n_int n" "n_int (set_float f n) = n_int n"
  "n_int (set_children cs n) = n_int n" "n_int (set_strings ss n) = n_int n"
  "n_int (set_flag b n) = n_int n" "n_int (add_child y n) = n_int n"
  "n_int (add_string x n) = n_int n" "n_int (add_if y n) = n_int n"
  by (cases n; simp add: add_child_def add_string_def add_if_def)+

lemma set_int2_sel [simp]:
  "n_int2 (set_text x n) = n_int2 n" "n_int2 (set_int i n) = n_int2 n"
  "n_int2 (set_int2 i n) = i" "n_int2 (set_float f n) = n_int2 n"
  "n_int2 (set_children cs n) = n_int2 n" "n_int2 (set_strings ss n) = n_int2 n"
  "n_int2 (set_flag b n) = n_int2 n" "n_int2 (add_child y n) = n_int2 n"
  "n_int2 (add_string x n) = n_int2 n" "n_int2 (add_if y n) = n_int2 n"
  by (cases n; simp add: add_child_def add_string_def add_if_def)+

end
