(* ===== verification/Parser.thy ===== *)
theory Parser
  imports TokenStream Ast "HOL-Library.List_Lexorder" "HOL-Library.Char_ord"
begin

text \<open>
  src/frontend/Parser.cpp, a recursive-descent parser over one token of
  lookahead held in \<open>current_\<close>.  The state is a record with the fields of
  class Parser; a member function takes it and returns it updated.  The
  functions that call each other recursively are written with the calls to
  \<open>parseExpression\<close> and \<open>parseCallArgExpr\<close> as arguments, and the knot
  is tied at the end by \<open>parse_expr\<close> and \<open>parse_carg\<close>, on fuel; a loop of
  theirs takes the same fuel, and \<open>None\<close> is the fuel running out.  The loops
  that only read tokens are total functions: \<open>pleft\<close>, what is left to read,
  decreases.
\<close>

section \<open>State\<close>

record parse_error =
  pe_message :: string
  pe_line :: int
  pe_column :: int

record pstate =
  p_lexer :: lexer
  p_current :: token
  p_prev :: token
  p_errors :: "parse_error list"
  p_stop :: bool
  p_header :: int

abbreviation kind_of :: "pstate \<Rightarrow> token_kind" where
  "kind_of s \<equiv> t_kind (p_current s)"

abbreviation quoted :: "string \<Rightarrow> string" where
  "quoted x \<equiv> SQ # x @ [SQ]"

definition pleft :: "pstate \<Rightarrow> nat" where
  "pleft s = lexer_left (p_lexer s) + (if kind_of s = T_EndOfFile then 0 else 1)"

definition isSendKind :: "node_kind \<Rightarrow> bool" where
  "isSendKind k \<longleftrightarrow> k \<in> {N_UnarySend, N_BinarySend, N_KeywordSend, N_CallSend}"

definition parser_error :: "token \<Rightarrow> string \<Rightarrow> pstate \<Rightarrow> pstate" where
  "parser_error at_tok msg s =
     s\<lparr>p_errors := p_errors s @ [\<lparr>pe_message = msg, pe_line = t_line at_tok, pe_column = t_col at_tok\<rparr>]\<rparr>"

abbreviation error_here :: "string \<Rightarrow> pstate \<Rightarrow> pstate" where
  "error_here msg s \<equiv> parser_error (p_current s) msg s"

lemma parser_error_frame [simp]:
  "p_lexer (parser_error t m s) = p_lexer s" "p_current (parser_error t m s) = p_current s"
  "p_prev (parser_error t m s) = p_prev s" "p_stop (parser_error t m s) = p_stop s"
  "p_header (parser_error t m s) = p_header s" "pleft (parser_error t m s) = pleft s"
  by (simp_all add: parser_error_def pleft_def)

section \<open>Reading tokens\<close>

text \<open>\<open>current_ = lexer_.next()\<close>, and the loop of \<open>advance()\<close> over Error tokens.\<close>

definition next_current :: "pstate \<Rightarrow> pstate" where
  "next_current s = (let (t, l) = lexer_next (p_lexer s) in s\<lparr>p_current := t, p_lexer := l\<rparr>)"

lemma next_current_left: "pleft (next_current s) \<le> pleft s"
  and next_current_less: "kind_of s \<noteq> T_EndOfFile \<Longrightarrow> pleft (next_current s) < pleft s"
proof -
  obtain t l where n: "lexer_next (p_lexer s) = (t, l)" by fastforce
  note p = lexer_next_left [OF n]
  show "pleft (next_current s) \<le> pleft s"
    and "kind_of s \<noteq> T_EndOfFile \<Longrightarrow> pleft (next_current s) < pleft s"
    using p n by (cases "t_kind t = T_EndOfFile"; simp add: next_current_def pleft_def)+
qed

function skip_errors :: "pstate \<Rightarrow> pstate" where
  "skip_errors s =
     (if kind_of s = T_Error
      then skip_errors (next_current (error_here (t_text (p_current s)) s))
      else s)"
  by pat_completeness auto
termination
proof (relation "measure pleft", goal_cases)
  case (2 s)
  then show ?case
    using next_current_less [of "error_here (t_text (p_current s)) s"] by simp
qed simp

declare skip_errors.simps [simp del]

definition parser_advance :: "pstate \<Rightarrow> pstate" where
  "parser_advance s = skip_errors (next_current (s\<lparr>p_prev := p_current s\<rparr>))"

lemma skip_errors_left: "pleft (skip_errors s) \<le> pleft s"
proof (induction s rule: skip_errors.induct)
  case (1 s)
  show ?case
  proof (cases "kind_of s = T_Error")
    case True
    let ?e = "error_here (t_text (p_current s)) s"
    have "pleft (skip_errors s) \<le> pleft (next_current ?e)"
      using 1 True by (subst skip_errors.simps) simp
    also have "\<dots> \<le> pleft s" using next_current_left [of ?e] by simp
    finally show ?thesis .
  next
    case False
    then show ?thesis by (subst skip_errors.simps) simp
  qed
qed

lemma pleft_prev [simp]: "pleft (s\<lparr>p_prev := t\<rparr>) = pleft s"
  "pleft (s\<lparr>p_errors := es\<rparr>) = pleft s" "pleft (s\<lparr>p_stop := b\<rparr>) = pleft s"
  "pleft (s\<lparr>p_header := h\<rparr>) = pleft s"
  by (simp_all add: pleft_def)

lemma advance_left [progress]: "pleft (parser_advance s) \<le> pleft s"
  using skip_errors_left [of "next_current (s\<lparr>p_prev := p_current s\<rparr>)"]
    next_current_left [of "s\<lparr>p_prev := p_current s\<rparr>"]
  by (simp add: parser_advance_def)

lemma advance_less [progress]: "kind_of s \<noteq> T_EndOfFile \<Longrightarrow> pleft (parser_advance s) < pleft s"
  using skip_errors_left [of "next_current (s\<lparr>p_prev := p_current s\<rparr>)"]
    next_current_less [of "s\<lparr>p_prev := p_current s\<rparr>"]
  by (simp add: parser_advance_def)

text \<open>
  The constructor.  Before the first \<open>advance()\<close> the member \<open>current_\<close> has no
  determined kind; nothing reads it, and an end-of-file token stands for it.
\<close>

definition parser_init :: "string \<Rightarrow> pstate" where
  "parser_init src =
     parser_advance \<lparr>p_lexer = lexer_init src, p_current = mk_token T_EndOfFile [] 1 1,
       p_prev = mk_token T_EndOfFile [] 1 1, p_errors = [], p_stop = True, p_header = 0\<rparr>"

definition parser_match :: "token_kind \<Rightarrow> pstate \<Rightarrow> bool \<times> pstate" where
  "parser_match k s = (if kind_of s \<noteq> k then (False, s) else (True, parser_advance s))"

definition parser_consume :: "token_kind \<Rightarrow> string \<Rightarrow> pstate \<Rightarrow> token \<times> pstate" where
  "parser_consume k msg s =
     (if kind_of s = k then (p_current s, parser_advance s)
      else (p_current s, error_here msg s))"

abbreviation expect :: "token_kind \<Rightarrow> string \<Rightarrow> pstate \<Rightarrow> pstate" where
  "expect k msg s \<equiv> snd (parser_consume k msg s)"

definition parser_peek :: "pstate \<Rightarrow> token \<times> pstate" where
  "parser_peek s = (let (t, l) = lexer_peek (p_lexer s) in (t, s\<lparr>p_lexer := l\<rparr>))"

definition parser_peekSecond :: "pstate \<Rightarrow> token \<times> pstate" where
  "parser_peekSecond s = (let (t, l) = lexer_peekSecond (p_lexer s) in (t, s\<lparr>p_lexer := l\<rparr>))"

function synchronize :: "pstate \<Rightarrow> pstate" where
  "synchronize s =
     (if kind_of s \<noteq> T_EndOfFile \<and> kind_of s \<noteq> T_Period then synchronize (parser_advance s)
      else if kind_of s = T_Period then parser_advance s
      else s)"
  by pat_completeness auto
termination
  by (relation "measure pleft") (auto simp: progress)

declare synchronize.simps [simp del]

definition atBlankLineBoundary :: "pstate \<Rightarrow> bool" where
  "atBlankLineBoundary s \<longleftrightarrow> p_stop s \<and>
     (t_blank (p_current s) \<or>
      (p_header s > 0 \<and> t_col (p_current s) = 1 \<and> t_line (p_current s) > p_header s))"

definition callParenFollows :: "token \<Rightarrow> pstate \<Rightarrow> bool \<times> pstate" where
  "callParenFollows name s =
     (let (nx, s1) = parser_peek s
      in (t_kind nx = T_LParen \<and> t_line nx = t_line name \<and>
          t_col nx = t_col name + int (length (t_text name)), s1))"

text \<open>The loop \<open>while (current_.kind == Identifier) { out.push_back(current_.text); advance(); }\<close>.\<close>

function read_names :: "string list \<Rightarrow> pstate \<Rightarrow> string list \<times> pstate" where
  "read_names out s =
     (if kind_of s = T_Identifier
      then read_names (out @ [t_text (p_current s)]) (parser_advance s)
      else (out, s))"
  by pat_completeness auto
termination
  by (relation "measure (\<lambda>(out, s). pleft s)") (auto simp: progress)

declare read_names.simps [simp del]

section \<open>Literals\<close>

text \<open>The leaf nodes \<open>parsePrimary\<close> and \<open>parseLiteralArrayElement\<close> both build.\<close>

definition text_node :: "node_kind \<Rightarrow> token \<Rightarrow> node" where
  "text_node k t = set_text (t_text t) (makeNode k (t_line t) (t_col t))"

definition int_node :: "token \<Rightarrow> node" where
  "int_node t =
     (let n = set_int (t_int t) (text_node N_IntegerLit t)
      in if t_large t then set_int (t_radix t) (set_flag True n) else n)"

definition leaf_node :: "token \<Rightarrow> node option" where
  "leaf_node t =
     (case t_kind t of
        T_Integer \<Rightarrow> Some (int_node t)
      | T_Float \<Rightarrow> Some (set_float (t_float t) (text_node N_FloatLit t))
      | T_String \<Rightarrow> Some (text_node N_StringLit t)
      | T_Char \<Rightarrow> Some (text_node N_CharLit t)
      | T_Symbol \<Rightarrow> Some (text_node N_SymbolLit t)
      | T_True \<Rightarrow> Some (makeNode N_TrueLit (t_line t) (t_col t))
      | T_False \<Rightarrow> Some (makeNode N_FalseLit (t_line t) (t_col t))
      | T_Nil \<Rightarrow> Some (makeNode N_NilLit (t_line t) (t_col t))
      | _ \<Rightarrow> None)"

text \<open>Adjacent keyword parts of a literal array form one symbol.\<close>

function keyword_run :: "int \<Rightarrow> int \<Rightarrow> string \<Rightarrow> pstate \<Rightarrow> string \<times> pstate" where
  "keyword_run line endColumn txt s =
     (let c = p_current s
      in if t_kind c = T_Keyword \<and> t_line c = line \<and> t_col c = endColumn
         then keyword_run line (endColumn + int (length (t_text c))) (txt @ t_text c) (parser_advance s)
         else (txt, s))"
  by pat_completeness auto
termination
  by (relation "measure (\<lambda>(l, e, t, s). pleft s)") (auto simp: progress)

declare keyword_run.simps [simp del]

definition parseLiteralArrayElement ::
  "(int \<Rightarrow> int \<Rightarrow> pstate \<Rightarrow> (node \<times> pstate) option) \<Rightarrow> pstate \<Rightarrow> (node option \<times> pstate) option" where
  "parseLiteralArrayElement nested s =
     (let t = p_current s
      in case leaf_node t of
           Some n \<Rightarrow> Some (Some n, parser_advance s)
         | None \<Rightarrow>
             if t_kind t = T_Identifier then Some (Some (text_node N_SymbolLit t), parser_advance s)
             else if t_kind t = T_Keyword then
               (let (txt, s1) = keyword_run (t_line t) (t_col t + int (length (t_text t))) (t_text t)
                                  (parser_advance s)
                in Some (Some (set_text txt (makeNode N_SymbolLit (t_line t) (t_col t))), s1))
             else if t_kind t = T_HashLParen \<or> t_kind t = T_LParen then
               do { (a, s1) \<leftarrow> nested (t_line t) (t_col t) (parser_advance s); Some (Some a, s1) }
             else Some (None, parser_advance (error_here ''unexpected token in literal array literal'' s)))"

text \<open>The elements loop, then \<open>parseLiteralArray\<close>: the array whose bracket is already read.\<close>

fun lit_elems :: "nat \<Rightarrow> node \<Rightarrow> pstate \<Rightarrow> (node \<times> pstate) option" where
  "lit_elems 0 arr s = None"
| "lit_elems (Suc n) arr s =
     (if kind_of s \<noteq> T_RParen \<and> kind_of s \<noteq> T_EndOfFile then
        do { (e, s1) \<leftarrow> parseLiteralArrayElement
               (\<lambda>l c s'. do { (a, s2) \<leftarrow> lit_elems n (makeNode N_ArrayLit l c) s';
                             Some (a, expect T_RParen (''expected '' @ quoted '')'' @ '' to close literal array'') s2) }) s;
             (case e of
                Some x \<Rightarrow> lit_elems n (add_child (Some x) arr) s1
              | None \<Rightarrow> Some (arr, s1)) }
      else Some (arr, s))"

definition parseLiteralArray :: "nat \<Rightarrow> int \<Rightarrow> int \<Rightarrow> pstate \<Rightarrow> (node \<times> pstate) option" where
  "parseLiteralArray n l c s =
     do { (a, s1) \<leftarrow> lit_elems n (makeNode N_ArrayLit l c) s;
          Some (a, expect T_RParen (''expected '' @ quoted '')'' @ '' to close literal array'') s1) }"

section \<open>Statements, blocks and call-form arguments\<close>

type_synonym parse_fun = "pstate \<Rightarrow> (node option \<times> pstate) option"

definition parseStatement :: "parse_fun \<Rightarrow> parse_fun" where
  "parseStatement expr s =
     (let (m, s1) = parser_match T_Caret s
      in if m then
           do { (inner, s2) \<leftarrow> expr s1;
                Some (Some (add_if inner (makeNode N_Return (t_line (p_prev s1)) (t_col (p_prev s1)))), s2) }
         else expr s1)"

text \<open>The period-separated items of a block or a brace array, up to the closing bracket.\<close>

fun parse_items :: "parse_fun \<Rightarrow> token_kind \<Rightarrow> nat \<Rightarrow> node \<Rightarrow> pstate \<Rightarrow> (node \<times> pstate) option" where
  "parse_items item closing 0 n s = None"
| "parse_items item closing (Suc f) n s =
     (if kind_of s \<noteq> closing \<and> kind_of s \<noteq> T_EndOfFile then
        do { (e, s1) \<leftarrow> item s;
             let n1 = add_if e n;
             let (m, s2) = parser_match T_Period s1;
             if m then parse_items item closing f n1 s2 else Some (n1, s2) }
      else Some (n, s))"

text \<open>Block arguments: their names, in order.\<close>

function block_args :: "string list \<Rightarrow> pstate \<Rightarrow> string list \<times> pstate" where
  "block_args out s =
     (if kind_of s = T_Colon then
        (let s1 = parser_advance s
         in if kind_of s1 \<noteq> T_Identifier
            then (out, error_here (''expected block argument name after '' @ quoted '':'') s1)
            else block_args (out @ [t_text (p_current s1)]) (parser_advance s1))
      else (out, s))"
  by pat_completeness auto
termination
proof (relation "measure (\<lambda>(out, s). pleft s)", goal_cases)
  case (2 out s s1)
  then show ?case
    using advance_less [of s] advance_left [of "parser_advance s"] by auto
qed simp

declare block_args.simps [simp del]

text \<open>A \<open>| a b |\<close> declaration, when one is here.\<close>

definition read_locals :: "string \<Rightarrow> string list \<Rightarrow> pstate \<Rightarrow> string list \<times> pstate" where
  "read_locals what out s =
     (if kind_of s = T_Pipe then
        (let (out1, s1) = read_names out (parser_advance s)
         in (out1, expect T_Pipe (''expected '' @ quoted ''|'' @ '' to close '' @ what) s1))
      else (out, s))"

definition parseBlock :: "parse_fun \<Rightarrow> nat \<Rightarrow> parse_fun" where
  "parseBlock expr f s =
     (let opn = p_current s;
          saved = p_stop s;
          s1 = (parser_advance s)\<lparr>p_stop := False\<rparr>;
          (args, s2) = block_args [] s1;
          nArgs = length args;
          s3 = (if nArgs > 0 then expect T_Pipe (''expected '' @ quoted ''|'' @ '' after block arguments'') s2
                else s2);
          (names, s4) = read_locals ''block locals'' args s3;
          blk = set_int (int nArgs) (set_strings names (makeNode N_Block (t_line opn) (t_col opn)))
      in do { (blk1, s5) \<leftarrow> parse_items (parseStatement expr) T_RBracket f blk s4;
              let s6 = expect T_RBracket (''expected '' @ quoted '']'' @ '' to close block'') s5;
              Some (Some blk1, s6\<lparr>p_stop := saved\<rparr>) })"

text \<open>A call-form argument list; \<open>named\<close> holds key and value, null when the value failed.\<close>

abbreviation at_binop :: "string \<Rightarrow> token \<Rightarrow> bool" where
  "at_binop txt t \<equiv> t_kind t = T_BinaryOp \<and> t_text t = txt"

definition named_follows :: "pstate \<Rightarrow> bool \<times> pstate" where
  "named_follows s =
     (if kind_of s = T_Identifier
      then (let (p, s1) = parser_peek s in (at_binop ''='' p, s1))
      else (False, s))"

text \<open>One argument of the list, before the comma test: the list so far, with it added.\<close>

definition call_arg :: "parse_fun \<Rightarrow> bool \<Rightarrow> node option list \<Rightarrow> (string \<times> node option) list \<Rightarrow>
    pstate \<Rightarrow> (bool \<times> node option list \<times> (string \<times> node option) list \<times> pstate) option" where
  "call_arg carg seenNamed pos named s =
     (let (isNamed, s1) = named_follows s; key = p_current s1
      in if isNamed then
           do { (val, s3) \<leftarrow> carg (parser_advance (parser_advance s1));
                Some (True, pos, named @ [(t_text key, val)],
                      if t_text key \<in> set (map fst named)
                      then parser_error key (''duplicate named argument '' @ quoted (t_text key) @ '' in call'') s3
                      else s3) }
         else
           do { (val, s3) \<leftarrow> carg (if seenNamed
                          then error_here ''positional argument after named argument in call'' s1
                          else s1);
                Some (seenNamed, (case val of None \<Rightarrow> pos | Some v \<Rightarrow> pos @ [Some v]), named, s3) })"

fun call_args :: "parse_fun \<Rightarrow> nat \<Rightarrow> bool \<Rightarrow> node option list \<Rightarrow> (string \<times> node option) list \<Rightarrow>
    pstate \<Rightarrow> (node option list \<times> (string \<times> node option) list \<times> pstate) option" where
  "call_args carg 0 seenNamed pos named s = None"
| "call_args carg (Suc f) seenNamed pos named s =
     do { (seen1, pos1, named1, s2) \<leftarrow> call_arg carg seenNamed pos named s;
          if at_binop '','' (p_current s2)
          then call_args carg f seen1 pos1 named1 (parser_advance s2)
          else Some (pos1, named1, s2) }"

text \<open>std::stable_sort by key, bytes compared as unsigned.\<close>

definition sort_named :: "(string \<times> node option) list \<Rightarrow> (string \<times> node option) list" where
  "sort_named named = sort_key fst named"

definition parseCallSend :: "parse_fun \<Rightarrow> nat \<Rightarrow> token \<Rightarrow> node \<Rightarrow> bool \<Rightarrow> pstate \<Rightarrow> (node \<times> pstate) option" where
  "parseCallSend carg f selectorTok receiver implicitReceiver s =
     (let saved = p_stop s;
          s1 = s\<lparr>p_stop := False\<rparr>;
          n = set_flag implicitReceiver (set_text (t_text selectorTok)
                (makeNode N_CallSend (t_line selectorTok) (t_col selectorTok)))
      in do { (pos, named, s2) \<leftarrow>
                (if kind_of s1 \<noteq> T_RParen then call_args carg f False [] [] s1 else Some ([], [], s1));
              let s3 = expect T_RParen (''expected '' @ quoted '')'' @ '' to close call-form arguments'') s2;
              let s4 = (if kind_of s3 = T_Semicolon
                        then error_here (quoted '';'' @ '' cascades after a call-form send are not supported in v1'') s3
                        else s3);
              let sorted = sort_named named;
              Some (set_int2 (int (length sorted)) (set_int (int (length pos))
                      (set_strings (map fst sorted)
                        (set_children (Some receiver # pos @ map snd sorted) n))),
                    s4\<lparr>p_stop := saved\<rparr>) })"

section \<open>Expressions\<close>

definition reserved_name :: "string \<Rightarrow> bool" where
  "reserved_name x \<longleftrightarrow> x = ''self'' \<or> x = ''super'' \<or> x = ''thisContext''"

definition parsePrimary :: "parse_fun \<Rightarrow> parse_fun \<Rightarrow> nat \<Rightarrow> parse_fun" where
  "parsePrimary expr carg f s =
     (let t = p_current s
      in case leaf_node t of
           Some n \<Rightarrow> Some (Some n, parser_advance s)
         | None \<Rightarrow>
             if t_kind t = T_Identifier then
               (let (call, s1) = (if reserved_name (t_text t) then (False, s) else callParenFollows t s)
                in if call then
                     do { (n, s2) \<leftarrow> parseCallSend carg f t
                            (set_text ''self'' (makeNode N_Self (t_line t) (t_col t))) True
                            (parser_advance (parser_advance s1));
                          Some (Some n, s2) }
                   else
                     (let k = (if t_text t = ''self'' then N_Self
                               else if t_text t = ''super'' then N_Super
                               else if t_text t = ''thisContext'' then N_ThisContext
                               else N_Identifier)
                      in Some (Some (text_node k t), parser_advance s1)))
             else if t_kind t = T_LParen then
               (let saved = p_stop s
                in do { (inner, s1) \<leftarrow> expr ((parser_advance s)\<lparr>p_stop := False\<rparr>);
                        let s2 = expect T_RParen (''expected '' @ quoted '')'') s1;
                        Some (inner, s2\<lparr>p_stop := saved\<rparr>) })
             else if t_kind t = T_LBracket then parseBlock expr f s
             else if t_kind t = T_LBrace then
               (let saved = p_stop s
                in do { (arr, s1) \<leftarrow> parse_items expr T_RBrace f
                            (makeNode N_DynArrayLit (t_line t) (t_col t))
                            ((parser_advance s)\<lparr>p_stop := False\<rparr>);
                        let s2 = expect T_RBrace (''expected '' @ quoted ''}'' @ '' to close dynamic array'') s1;
                        Some (Some arr, s2\<lparr>p_stop := saved\<rparr>) })
             else if t_kind t = T_HashLParen then
               do { (a, s1) \<leftarrow> parseLiteralArray f (t_line t) (t_col t) (parser_advance s);
                    Some (Some a, s1) }
             else Some (None, parser_advance
                    (error_here (''expected primary expression, got '' @ tokenKindName (t_kind t)) s)))"

text \<open>After a name and the next token \<open>p\<close>: \<open>class >>\<close>, a class-side method.\<close>

definition classSideFollows :: "token \<Rightarrow> pstate \<Rightarrow> bool \<times> pstate" where
  "classSideFollows p s =
     (if t_kind p = T_Identifier \<and> t_text p = ''class''
      then (let (q, s1) = parser_peekSecond s in (t_kind q = T_GtGt, s1))
      else (False, s))"

text \<open>\<open>Name >>\<close> or \<open>Name class >>\<close>: the start of a method declaration.\<close>

definition atDeclarationStart :: "pstate \<Rightarrow> bool \<times> pstate" where
  "atDeclarationStart s =
     (if kind_of s \<noteq> T_Identifier then (False, s)
      else
        (let (p, s1) = parser_peek s
         in if t_kind p = T_GtGt then (True, s1) else classSideFollows p s1))"

fun unary_loop :: "parse_fun \<Rightarrow> nat \<Rightarrow> node option \<Rightarrow> pstate \<Rightarrow> (node option \<times> pstate) option" where
  "unary_loop carg 0 recv s = None"
| "unary_loop carg (Suc f) recv s =
     (case recv of
        None \<Rightarrow> Some (None, s)
      | Some r \<Rightarrow>
          if kind_of s = T_Identifier \<and> \<not> atBlankLineBoundary s then
            (let (decl, s1) = atDeclarationStart s
             in if decl then Some (Some r, s1)
                else
                  (let sel = p_current s1;
                       (call, s2) = callParenFollows sel s1
                   in if call then
                        do { (n, s3) \<leftarrow> parseCallSend carg f sel r False (parser_advance (parser_advance s2));
                             unary_loop carg f (Some n) s3 }
                      else
                        unary_loop carg f (Some (add_child (Some r) (text_node N_UnarySend sel)))
                          (parser_advance s2)))
          else Some (Some r, s))"

definition parseUnarySend :: "parse_fun \<Rightarrow> parse_fun \<Rightarrow> nat \<Rightarrow> parse_fun" where
  "parseUnarySend expr carg f s =
     do { (recv, s1) \<leftarrow> parsePrimary expr carg f s; unary_loop carg f recv s1 }"

definition isBinaryOpToken :: "token_kind \<Rightarrow> bool" where
  "isBinaryOpToken k \<longleftrightarrow> k = T_BinaryOp \<or> k = T_Pipe"

text \<open>The selector of a binary operator token and the send it makes (no receiver yet).\<close>

definition binary_node :: "token \<Rightarrow> node" where
  "binary_node op =
     set_text (if t_kind op = T_Pipe then ''|'' else t_text op)
       (makeNode N_BinarySend (t_line op) (t_col op))"

text \<open>The loop of \<open>parseBinarySend\<close> and \<open>parseCallArgExpr\<close>; \<open>stops\<close> is the latter's test.\<close>

fun binary_loop :: "parse_fun \<Rightarrow> (token \<Rightarrow> bool) \<Rightarrow> nat \<Rightarrow> node option \<Rightarrow> pstate \<Rightarrow>
    (node option \<times> pstate) option" where
  "binary_loop unary stops 0 left s = None"
| "binary_loop unary stops (Suc f) left s =
     (case left of
        None \<Rightarrow> Some (None, s)
      | Some l \<Rightarrow>
          if isBinaryOpToken (kind_of s) \<and> \<not> atBlankLineBoundary s \<and> \<not> stops (p_current s) then
            (let op = p_current s
             in do { (right, s1) \<leftarrow> unary (parser_advance s);
                     binary_loop unary stops f
                       (Some (add_if right (add_child (Some l) (binary_node op)))) s1 })
          else Some (Some l, s))"

definition parseBinarySend :: "parse_fun \<Rightarrow> parse_fun \<Rightarrow> nat \<Rightarrow> parse_fun" where
  "parseBinarySend expr carg f s =
     do { (left, s1) \<leftarrow> parseUnarySend expr carg f s;
          binary_loop (parseUnarySend expr carg f) (\<lambda>t. False) f left s1 }"

definition parseCallArgExpr :: "parse_fun \<Rightarrow> parse_fun \<Rightarrow> nat \<Rightarrow> parse_fun" where
  "parseCallArgExpr expr carg f s =
     do { (left, s1) \<leftarrow> parseUnarySend expr carg f s;
          binary_loop (parseUnarySend expr carg f)
            (\<lambda>t. t_kind t = T_BinaryOp \<and> (t_text t = '','' \<or> t_text t = ''='')) f left s1 }"

text \<open>
  The keyword parts of a send and their arguments; \<open>bounded\<close> says whether a
  blank line stops the loop (it does not inside a cascade).
\<close>

fun keyword_parts :: "parse_fun \<Rightarrow> bool \<Rightarrow> nat \<Rightarrow> string \<Rightarrow> node \<Rightarrow> pstate \<Rightarrow> (node \<times> pstate) option" where
  "keyword_parts binary bounded 0 sel n s = None"
| "keyword_parts binary bounded (Suc f) sel n s =
     (if kind_of s = T_Keyword \<and> \<not> (bounded \<and> atBlankLineBoundary s) then
        do { (arg, s1) \<leftarrow> binary (parser_advance s);
             keyword_parts binary bounded f (sel @ t_text (p_current s)) (add_if arg n) s1 }
      else Some (set_text sel n, s))"

definition parseKeywordSend :: "parse_fun \<Rightarrow> parse_fun \<Rightarrow> nat \<Rightarrow> parse_fun" where
  "parseKeywordSend expr carg f s =
     do { (recv, s1) \<leftarrow> parseBinarySend expr carg f s;
          if recv \<noteq> None \<and> kind_of s1 = T_Keyword \<and> \<not> atBlankLineBoundary s1 then
            do { (n, s2) \<leftarrow> keyword_parts (parseBinarySend expr carg f) True f []
                    (add_child recv (makeNode N_KeywordSend (t_line (p_current s1)) (t_col (p_current s1)))) s1;
                 Some (Some n, s2) }
          else Some (recv, s1) }"

text \<open>A unary message of a cascade, with the identifiers chained after it.\<close>

function unary_chain :: "node \<Rightarrow> pstate \<Rightarrow> node \<times> pstate" where
  "unary_chain n s =
     (if kind_of s = T_Identifier \<and> \<not> atBlankLineBoundary s
      then unary_chain (add_child (Some n) (text_node N_UnarySend (p_current s))) (parser_advance s)
      else (n, s))"
  by pat_completeness auto
termination
  by (relation "measure (\<lambda>(n, s). pleft s)") (auto simp: progress)

declare unary_chain.simps [simp del]

text \<open>One message after a semicolon; no node when there is none (the error is recorded).\<close>

definition cascade_message :: "parse_fun \<Rightarrow> parse_fun \<Rightarrow> nat \<Rightarrow> parse_fun" where
  "cascade_message expr carg f s =
     (let t = p_current s
      in if t_kind t = T_Identifier then
           (let (n, s1) = unary_chain (text_node N_UnarySend t) (parser_advance s)
            in Some (Some n, s1))
         else if t_kind t = T_BinaryOp \<or> t_kind t = T_Pipe then
           do { (right, s1) \<leftarrow> parseUnarySend expr carg f (parser_advance s);
                Some (Some (add_if right (binary_node t)), s1) }
         else if t_kind t = T_Keyword then
           do { (n, s1) \<leftarrow> keyword_parts (parseBinarySend expr carg f) False f []
                    (makeNode N_KeywordSend (t_line t) (t_col t)) s;
                Some (Some n, s1) }
         else Some (None, error_here (''expected message after '' @ quoted '';'' @ '' in cascade'') s))"

fun cascade_loop :: "parse_fun \<Rightarrow> parse_fun \<Rightarrow> nat \<Rightarrow> nat \<Rightarrow> node \<Rightarrow> pstate \<Rightarrow> (node \<times> pstate) option" where
  "cascade_loop expr carg f 0 casc s = None"
| "cascade_loop expr carg f (Suc g) casc s =
     (if \<not> atBlankLineBoundary s \<and> kind_of s = T_Semicolon then
        do { (msg, s1) \<leftarrow> cascade_message expr carg f (parser_advance s);
             (case msg of
                Some m \<Rightarrow> cascade_loop expr carg f g (add_child (Some m) casc) s1
              | None \<Rightarrow> Some (casc, s1)) }
      else Some (casc, s))"

definition pseudo_variable :: "string \<Rightarrow> bool" where
  "pseudo_variable x \<longleftrightarrow>
     x \<in> {''self'', ''super'', ''thisContext'', ''true'', ''false'', ''nil''}"

definition assignFollows :: "pstate \<Rightarrow> bool \<times> pstate" where
  "assignFollows s =
     (if kind_of s = T_Identifier
      then (let (p, s1) = parser_peek s in (t_kind p = T_Assign, s1))
      else (False, s))"

text \<open>
  \<open>parseExpression\<close>: an assignment, a send, or a cascade.  The first message
  of a cascade loses its receiver, which becomes the cascade's first child.
\<close>

definition parseExpression :: "parse_fun \<Rightarrow> parse_fun \<Rightarrow> nat \<Rightarrow> parse_fun" where
  "parseExpression expr carg f s =
     (let (assign, s1) = assignFollows s
      in if assign then
           (let nm = p_current s1;
                s2 = parser_advance (parser_advance s1);
                s3 = (if pseudo_variable (t_text nm)
                      then parser_error nm (''cannot assign to the pseudo-variable '' @ quoted (t_text nm)) s2
                      else s2)
            in do { (rhs, s4) \<leftarrow> expr s3;
                    Some (Some (add_if rhs (text_node N_Assignment nm)), s4) })
         else
           do { (first, s2) \<leftarrow> parseKeywordSend expr carg f s1;
                (case first of
                   None \<Rightarrow> Some (None, s2)
                 | Some r \<Rightarrow>
                     if kind_of s2 \<noteq> T_Semicolon \<or> atBlankLineBoundary s2 \<or> \<not> isSendKind (n_kind r)
                     then Some (Some r, s2)
                     else
                       do { (casc, s3) \<leftarrow> cascade_loop expr carg f f
                              (set_children [hd (n_children r), Some (set_children (tl (n_children r)) r)]
                                 (makeNode N_Cascade (n_line r) (n_col r))) s2;
                            Some (Some casc, s3) }) })"

fun parse_expr :: "nat \<Rightarrow> parse_fun" and parse_carg :: "nat \<Rightarrow> parse_fun" where
  "parse_expr 0 s = None"
| "parse_expr (Suc n) s = parseExpression (\<lambda>s'. parse_expr n s') (\<lambda>s'. parse_carg n s') (Suc n) s"
| "parse_carg 0 s = None"
| "parse_carg (Suc n) s = parseCallArgExpr (\<lambda>s'. parse_expr n s') (\<lambda>s'. parse_carg n s') (Suc n) s"

section \<open>Class declarations\<close>

text \<open>The names of a \<open>'a b c'\<close> string: its maximal runs of non-space bytes.\<close>

fun split_names :: "string \<Rightarrow> string \<Rightarrow> string list" where
  "split_names cur [] = (if cur \<noteq> [] then [cur] else [])"
| "split_names cur (c # cs) =
     (if isspace c then (if cur \<noteq> [] then cur # split_names [] cs else split_names [] cs)
      else split_names (cur @ [c]) cs)"

definition parseStringList :: "string list \<Rightarrow> pstate \<Rightarrow> string list \<times> pstate" where
  "parseStringList out s =
     (if kind_of s = T_String
      then (out @ split_names [] (t_text (p_current s)), parser_advance s)
      else (out, error_here ''expected string literal'' s))"

definition ignored_clause :: "string \<Rightarrow> bool" where
  "ignored_clause x \<longleftrightarrow> x \<in> {''package:'', ''category:'', ''poolDictionaries:'', ''tag:''}"

text \<open>The clauses of a class declaration: instance and class variables, the mixins as a child.\<close>

fun class_clauses :: "parse_fun \<Rightarrow> nat \<Rightarrow> string list \<Rightarrow> string list \<Rightarrow> node \<Rightarrow> pstate \<Rightarrow>
    (string list \<times> string list \<times> node \<times> pstate) option" where
  "class_clauses binary 0 ivs cvs cd s = None"
| "class_clauses binary (Suc f) ivs cvs cd s =
     (let txt = t_text (p_current s)
      in if kind_of s \<noteq> T_Keyword then Some (ivs, cvs, cd, s)
         else if txt = ''instanceVariableNames:'' then
           (let (ivs1, s1) = parseStringList ivs (parser_advance s)
            in class_clauses binary f ivs1 cvs cd s1)
         else if txt = ''uses:'' then
           do { (mixins, s1) \<leftarrow> binary (parser_advance s);
                class_clauses binary f ivs cvs (add_if mixins cd)
                  (if mixins = None then error_here ''expected an expression after uses:'' s1 else s1) }
         else if txt = ''classVariableNames:'' then
           (let (cvs1, s1) = parseStringList cvs (parser_advance s)
            in class_clauses binary f ivs cvs1 cd s1)
         else if ignored_clause txt then
           (let s1 = parser_advance s;
                s2 = (if kind_of s1 = T_String \<or> kind_of s1 = T_Symbol then parser_advance s1
                      else error_here (''expected a string after '' @ t_text (p_prev s1)) s1)
            in class_clauses binary f ivs cvs cd s2)
         else Some (ivs, cvs, cd, error_here (''unknown keyword in class declaration: '' @ txt) s))"

definition parseClassDecl :: "parse_fun \<Rightarrow> nat \<Rightarrow> token \<Rightarrow> pstate \<Rightarrow> (node \<times> pstate) option" where
  "parseClassDecl binary f classIdent s =
     (let cd = set_strings [t_text classIdent]
                 (makeNode N_ClassDecl (t_line classIdent) (t_col classIdent))
      in if kind_of s \<noteq> T_Symbol
         then Some (cd, synchronize (error_here ''expected #ClassName after subclass:'' s))
         else
           do { (ivs, cvs, cd1, s1) \<leftarrow> class_clauses binary f [] []
                  (set_text (t_text (p_current s)) cd) (parser_advance s);
                Some (set_int (int (length ivs)) (set_strings (n_strings cd1 @ ivs @ cvs) cd1),
                      snd (parser_match T_Period s1)) })"

section \<open>Method declarations\<close>

definition checkBlankLineContinuation :: "node \<Rightarrow> pstate \<Rightarrow> pstate" where
  "checkBlankLineContinuation md s =
     (if kind_of s = T_EndOfFile \<or> t_col (p_current s) \<le> 1 then s
      else
        (let wh = n_text md @ (case n_strings md of [] \<Rightarrow> [] | x # _ \<Rightarrow> ''>>'' @ x)
         in error_here (''a blank line ends a method body; this indented statement '' @
              ''would run at top level, outside '' @ wh @
              '' (remove the blank line or unindent the statement)'') s))"

text \<open>A method or class declaration starts here.\<close>

definition nextFormStarts :: "pstate \<Rightarrow> bool \<times> pstate" where
  "nextFormStarts s =
     (if kind_of s \<noteq> T_Identifier then (False, s)
      else
        (let (p, s1) = parser_peek s
         in if t_kind p = T_GtGt then (True, s1)
            else
              (let (cls, s2) = classSideFollows p s1
               in (cls \<or> (t_kind p = T_Keyword \<and> t_text p = ''subclass:''), s2))))"

text \<open>The statements of a method body, the loop of both kinds of declaration.\<close>

fun method_body :: "parse_fun \<Rightarrow> token \<Rightarrow> nat \<Rightarrow> node \<Rightarrow> pstate \<Rightarrow> (node \<times> pstate) option" where
  "method_body expr classIdent 0 md s = None"
| "method_body expr classIdent (Suc f) md s =
     (if kind_of s = T_EndOfFile then Some (md, s)
      else if t_blank (p_current s) then Some (md, checkBlankLineContinuation md s)
      else if t_col (p_current s) = 1 \<and> t_line (p_current s) > t_line classIdent \<and> n_children md \<noteq> [] then
        Some (md, if kind_of s = T_Caret
                  then error_here (''unindented ^ after the method '' @ t_text classIdent @
                         '': indent method bodies (an unindented line starts a new top-level statement)'') s
                  else s)
      else
        (let (stop, s1) = nextFormStarts (s\<lparr>p_header := t_line classIdent\<rparr>)
         in if stop then Some (md, s1)
            else
              do { (stmt, s2) \<leftarrow> parseStatement expr s1;
                   let isReturn = (case stmt of None \<Rightarrow> False | Some n \<Rightarrow> n_kind n = N_Return);
                   let md1 = add_if stmt md;
                   let (m, s3) = parser_match T_Period s2;
                   if \<not> m then Some (md1, s3)
                   else if isReturn \<and> t_line (p_current s3) = t_line (p_prev s3) then Some (md1, s3)
                   else method_body expr classIdent f md1 s3 }))"

text \<open>The keyword parts of a method's selector with their argument names.\<close>

function keyword_selector :: "string \<Rightarrow> string list \<Rightarrow> pstate \<Rightarrow> string \<times> string list \<times> pstate" where
  "keyword_selector sel args s =
     (if kind_of s = T_Keyword then
        (let sel1 = sel @ t_text (p_current s); s1 = parser_advance s
         in if kind_of s1 \<noteq> T_Identifier
            then (sel1, args, error_here ''expected argument name after keyword'' s1)
            else keyword_selector sel1 (args @ [t_text (p_current s1)]) (parser_advance s1))
      else (sel, args, s))"
  by pat_completeness auto
termination
proof (relation "measure (\<lambda>(sel, args, s). pleft s)", goal_cases)
  case (2 sel args s sel1 s1)
  then show ?case
    using advance_less [of s] advance_left [of "parser_advance s"] by auto
qed simp

declare keyword_selector.simps [simp del]

definition method_selector :: "pstate \<Rightarrow> string \<times> string list \<times> pstate" where
  "method_selector s =
     (if kind_of s = T_Identifier then (t_text (p_current s), [], parser_advance s)
      else if kind_of s = T_BinaryOp \<or> kind_of s = T_Pipe then
        (let sel = (if kind_of s = T_Pipe then ''|'' else t_text (p_current s));
             s1 = parser_advance s
         in if kind_of s1 \<noteq> T_Identifier
            then (sel, [], error_here ''expected argument name after binary selector'' s1)
            else (sel, [t_text (p_current s1)], parser_advance s1))
      else if kind_of s = T_Keyword then keyword_selector [] [] s
      else ([], [], error_here ''expected method selector'' s))"

text \<open>One parameter of a call-form declaration: positional, or named with its default.\<close>

definition call_param :: "parse_fun \<Rightarrow> bool \<Rightarrow> string list \<Rightarrow> (string \<times> node option) list \<Rightarrow>
    pstate \<Rightarrow> (bool \<times> string list \<times> (string \<times> node option) list \<times> pstate) option" where
  "call_param carg seenNamed pos named s =
     (let pname = p_current s; s1 = parser_advance s
      in if at_binop ''='' (p_current s1) then
           do { (def, s3) \<leftarrow> carg (parser_advance s1);
                Some (True, pos, named @ [(t_text pname, def)],
                      if t_text pname \<in> set (map fst named)
                      then parser_error pname (''duplicate named parameter '' @ quoted (t_text pname)) s3
                      else s3) }
         else
           (let s3 = (if seenNamed
                      then parser_error pname
                             (''positional parameter after named parameter in '' @
                              ''call-form method declaration'') s1
                      else s1);
                s4 = (if t_text pname \<in> set pos
                      then parser_error pname (''duplicate parameter name '' @ quoted (t_text pname)) s3
                      else s3)
            in Some (seenNamed, pos @ [t_text pname], named, s4)))"

fun call_params :: "parse_fun \<Rightarrow> nat \<Rightarrow> bool \<Rightarrow> string list \<Rightarrow> (string \<times> node option) list \<Rightarrow>
    pstate \<Rightarrow> (string list \<times> (string \<times> node option) list \<times> pstate) option" where
  "call_params carg 0 seenNamed pos named s = None"
| "call_params carg (Suc f) seenNamed pos named s =
     (if kind_of s \<noteq> T_Identifier
      then Some (pos, named, error_here ''expected parameter name in call-form method declaration'' s)
      else
        do { (seen1, pos1, named1, s2) \<leftarrow> call_param carg seenNamed pos named s;
             if at_binop '','' (p_current s2)
             then call_params carg f seen1 pos1 named1 (parser_advance s2)
             else Some (pos1, named1, s2) })"

definition parseCallMethodDecl :: "parse_fun \<Rightarrow> parse_fun \<Rightarrow> nat \<Rightarrow> token \<Rightarrow> bool \<Rightarrow> token \<Rightarrow>
    pstate \<Rightarrow> (node \<times> pstate) option" where
  "parseCallMethodDecl expr carg f classIdent classSide methodNameTok s =
     (let md = set_flag classSide (set_text (t_text classIdent)
                 (makeNode N_CallMethodDecl (t_line classIdent) (t_col classIdent)))
      in do { (pos, named, s1) \<leftarrow>
                (if kind_of s \<noteq> T_RParen then call_params carg f False [] [] s else Some ([], [], s));
              let s2 = expect T_RParen (''expected '' @ quoted '')'' @ '' to close call-form parameter list'') s1;
              let sorted = sort_named named;
              let (names, s3) = read_locals ''method locals''
                    (t_text methodNameTok # pos @ map fst sorted) s2;
              let md1 = set_strings names (set_children (map snd sorted)
                    (set_int2 (int (length sorted)) (set_int (int (length pos)) md)));
              (md2, s4) \<leftarrow> method_body expr classIdent f md1 s3;
              Some (md2, s4\<lparr>p_header := 0\<rparr>) })"

definition parseMethodDecl :: "parse_fun \<Rightarrow> parse_fun \<Rightarrow> nat \<Rightarrow> token \<Rightarrow> bool \<Rightarrow>
    pstate \<Rightarrow> (node \<times> pstate) option" where
  "parseMethodDecl expr carg f classIdent classSide s =
     (let (call, s1) = (if kind_of s = T_Identifier then callParenFollows (p_current s) s else (False, s))
      in if call then
           parseCallMethodDecl expr carg f classIdent classSide (p_current s1)
             (parser_advance (parser_advance s1))
         else
           (let md = set_flag classSide (set_text (t_text classIdent)
                       (makeNode N_MethodDecl (t_line classIdent) (t_col classIdent)));
                (sel, args, s2) = method_selector s1;
                (names, s3) = read_locals ''method locals'' (sel # args) s2
            in do { (md1, s4) \<leftarrow> method_body expr classIdent f
                      (set_strings names (set_int (int (length args)) md)) s3;
                    Some (md1, s4\<lparr>p_header := 0\<rparr>) }))"

section \<open>The module\<close>

function top_temporaries :: "node option list \<Rightarrow> pstate \<Rightarrow> node option list \<times> pstate" where
  "top_temporaries out s =
     (let t = p_current s
      in if t_kind t = T_Identifier
         then top_temporaries
                (out @ [Some (add_child (Some (makeNode N_NilLit (t_line t) (t_col t)))
                                (text_node N_Assignment t))])
                (parser_advance s)
         else (out, s))"
  by pat_completeness auto
termination
  by (relation "measure (\<lambda>(out, s). pleft s)") (auto simp: progress)

declare top_temporaries.simps [simp del]

definition parseTopTemporaries :: "node \<Rightarrow> pstate \<Rightarrow> node \<times> pstate" where
  "parseTopTemporaries md s =
     (let (tops, s1) = top_temporaries (n_children md) (parser_advance s)
      in (set_children tops md, expect T_Pipe (''expected '' @ quoted ''|'' @ '' to close temporaries'') s1))"

definition parseTopStatement :: "parse_fun \<Rightarrow> parse_fun" where
  "parseTopStatement expr s =
     do { (stmt, s1) \<leftarrow> parseStatement expr s;
          let (m, s2) = parser_match T_Period s1;
          Some (stmt, if \<not> m \<and> kind_of s2 \<noteq> T_EndOfFile
                      then error_here (''expected '' @ quoted ''.'' @ '' after top-level expression'') s2
                      else s2) }"

definition parseTopForm :: "parse_fun \<Rightarrow> parse_fun \<Rightarrow> nat \<Rightarrow> parse_fun" where
  "parseTopForm expr carg f s =
     (if kind_of s \<noteq> T_Identifier then parseTopStatement expr s
      else
        (let classId = p_current s;
             (after, s1) = parser_peek s
         in if t_kind after = T_GtGt then
              do { (n, s2) \<leftarrow> parseMethodDecl expr carg f classId False (parser_advance (parser_advance s1));
                   Some (Some n, s2) }
            else
              (let (cls, s2) = classSideFollows after s1
               in if cls then
                    (let s3 = parser_advance (parser_advance s2)
                     in if kind_of s3 = T_GtGt then
                          do { (n, s4) \<leftarrow> parseMethodDecl expr carg f classId True (parser_advance s3);
                               Some (Some n, s4) }
                        else Some (None, synchronize
                               (error_here (''expected '' @ quoted ''>>'' @ '' after '' @ quoted ''class'') s3)))
                  else if t_kind after = T_Keyword \<and> t_text after = ''subclass:'' then
                    do { (n, s3) \<leftarrow> parseClassDecl (parseBinarySend expr carg f) f classId
                           (parser_advance (parser_advance s2));
                         Some (Some n, s3) }
                  else parseTopStatement expr s2)))"

fun module_loop :: "parse_fun \<Rightarrow> parse_fun \<Rightarrow> nat \<Rightarrow> nat \<Rightarrow> node \<Rightarrow> pstate \<Rightarrow> (node \<times> pstate) option" where
  "module_loop expr carg f 0 md s = None"
| "module_loop expr carg f (Suc g) md s =
     (if kind_of s = T_EndOfFile then Some (md, s)
      else if kind_of s = T_Pipe then
        (let (md1, s1) = parseTopTemporaries md s in module_loop expr carg f g md1 s1)
      else
        do { (top, s1) \<leftarrow> parseTopForm expr carg f s;
             (case top of
                Some n \<Rightarrow> module_loop expr carg f g (add_child (Some n) md) s1
              | None \<Rightarrow> module_loop expr carg f g md (synchronize s1)) })"

definition parseModule :: "nat \<Rightarrow> pstate \<Rightarrow> (node \<times> pstate) option" where
  "parseModule f s = module_loop (parse_expr f) (parse_carg f) f f (makeNode N_Module 1 1) s"

text \<open>Parsing a source text; the fuel is more than a token for every byte.\<close>

definition parse_source :: "string \<Rightarrow> (node \<times> parse_error list) option" where
  "parse_source src =
     do { (md, s) \<leftarrow> parseModule (length src + 2) (parser_init src); Some (md, p_errors s) }"

end
