(* ===== verification/AstShape.thy ===== *)
theory AstShape
  imports Ast
begin

text \<open>
  The layout of each kind of node, as the comments of src/frontend/AST.h give
  it: how many children and strings it has and that no child is null.  The
  compiler relies on it; the parser establishes it for sources without errors.
\<close>

definition colons :: "string \<Rightarrow> nat" where
  "colons x = length (filter (\<lambda>c. c = CHR '':'') x)"

lemma colons_simps [simp]:
  "colons [] = 0" "colons (x @ y) = colons x + colons y"
  by (simp_all add: colons_def)

text \<open>Children and strings of a node, given how many children it has.\<close>

definition arity_ok :: "node_kind \<Rightarrow> string \<Rightarrow> int \<Rightarrow> int \<Rightarrow> nat \<Rightarrow> string list \<Rightarrow> bool" where
  "arity_ok k txt i j n ss \<longleftrightarrow>
     (case k of
        N_Assignment \<Rightarrow> n = 1
      | N_UnarySend \<Rightarrow> n = 1
      | N_BinarySend \<Rightarrow> n = 2
      | N_KeywordSend \<Rightarrow> n = Suc (colons txt)
      | N_CallSend \<Rightarrow> 0 \<le> i \<and> 0 \<le> j \<and> int n = 1 + i + j \<and> int (length ss) = j
      | N_Return \<Rightarrow> n = 1
      | N_Cascade \<Rightarrow> n \<ge> 2
      | N_ArrayLit \<Rightarrow> True
      | N_DynArrayLit \<Rightarrow> True
      | N_Block \<Rightarrow> 0 \<le> i \<and> i \<le> int (length ss)
      | N_MethodDecl \<Rightarrow> 0 \<le> i \<and> 1 + i \<le> int (length ss)
      | N_CallMethodDecl \<Rightarrow> 0 \<le> i \<and> 0 \<le> j \<and> 1 + i + j \<le> int (length ss) \<and> j \<le> int n
      | N_ClassDecl \<Rightarrow> 0 \<le> i \<and> 1 + i \<le> int (length ss)
      | N_Module \<Rightarrow> True
      | _ \<Rightarrow> n = 0)"

text \<open>A message of a cascade: a send without its receiver.\<close>

definition message_ok :: "node_kind \<Rightarrow> string \<Rightarrow> int \<Rightarrow> int \<Rightarrow> nat \<Rightarrow> string list \<Rightarrow> bool" where
  "message_ok k txt i j n ss \<longleftrightarrow>
     (case k of
        N_UnarySend \<Rightarrow> n \<le> 1
      | N_BinarySend \<Rightarrow> n = 1
      | N_KeywordSend \<Rightarrow> n = colons txt
      | N_CallSend \<Rightarrow> 0 \<le> i \<and> 0 \<le> j \<and> int n = i + j \<and> int (length ss) = j
      | _ \<Rightarrow> False)"

lemma child_size [termination_simp]:
  "Some m \<in> set cs \<Longrightarrow> size m < Suc (size_list (size_option size) cs)"
proof -
  assume "Some m \<in> set cs"
  then have "size_option size (Some m) \<le> size_list (size_option size) cs"
    by (rule size_list_estimation') simp
  then show ?thesis by simp
qed

text \<open>\<open>msg\<close> says whether the node stands as a message of a cascade.\<close>

fun wf_as :: "bool \<Rightarrow> node \<Rightarrow> bool" where
  "wf_as msg (Node k l c txt i j f cs ss b) =
     ((if msg then message_ok k txt i j (length cs) ss else arity_ok k txt i j (length cs) ss) \<and>
      (if msg \<and> k = N_UnarySend then
         list_all (\<lambda>x. case x of None \<Rightarrow> False | Some m \<Rightarrow> wf_as True m \<and> n_kind m = N_UnarySend) cs
       else if \<not> msg \<and> k = N_Cascade then
         (case cs of
            r # ms \<Rightarrow> (case r of None \<Rightarrow> False | Some m \<Rightarrow> wf_as False m) \<and>
                      list_all (\<lambda>x. case x of None \<Rightarrow> False | Some m \<Rightarrow> wf_as True m) ms
          | [] \<Rightarrow> False)
       else list_all (\<lambda>x. case x of None \<Rightarrow> False | Some m \<Rightarrow> wf_as False m) cs))"

abbreviation wf_node :: "node \<Rightarrow> bool" where
  "wf_node \<equiv> wf_as False"

abbreviation wf_message :: "node \<Rightarrow> bool" where
  "wf_message \<equiv> wf_as True"

abbreviation wf_child :: "node option \<Rightarrow> bool" where
  "wf_child x \<equiv> (case x of None \<Rightarrow> False | Some m \<Rightarrow> wf_node m)"

lemma wf_node_iff:
  "wf_node n \<longleftrightarrow>
     arity_ok (n_kind n) (n_text n) (n_int n) (n_int2 n) (length (n_children n)) (n_strings n) \<and>
     (if n_kind n = N_Cascade then
        n_children n \<noteq> [] \<and> wf_child (hd (n_children n)) \<and>
        list_all (\<lambda>x. case x of None \<Rightarrow> False | Some m \<Rightarrow> wf_message m) (tl (n_children n))
      else list_all wf_child (n_children n))"
  by (cases n) (simp split: list.split)

lemma wf_message_iff:
  "wf_message n \<longleftrightarrow>
     message_ok (n_kind n) (n_text n) (n_int n) (n_int2 n) (length (n_children n)) (n_strings n) \<and>
     (if n_kind n = N_UnarySend then
        list_all (\<lambda>x. case x of None \<Rightarrow> False | Some m \<Rightarrow> wf_message m \<and> n_kind m = N_UnarySend) (n_children n)
      else list_all wf_child (n_children n))"
  by (cases n) simp

text \<open>A send stripped of its receiver is a message.\<close>

lemma strip_receiver:
  assumes "wf_node n" "n_kind n \<in> {N_UnarySend, N_BinarySend, N_KeywordSend, N_CallSend}"
  shows "n_children n \<noteq> [] \<and> wf_child (hd (n_children n)) \<and>
    wf_message (set_children (tl (n_children n)) n)"
proof -
  from assms(2) have nc: "n_kind n \<noteq> N_Cascade" by auto
  from assms(1) [unfolded wf_node_iff [of n]] nc have
    ar: "arity_ok (n_kind n) (n_text n) (n_int n) (n_int2 n) (length (n_children n)) (n_strings n)"
    and ch: "list_all wf_child (n_children n)" by auto
  from ar assms(2) obtain r rs where c: "n_children n = r # rs"
    by (cases "n_children n") (auto simp: arity_ok_def)
  have u: "n_kind n = N_UnarySend \<Longrightarrow> rs = []" using ar c by (simp add: arity_ok_def)
  have "message_ok (n_kind n) (n_text n) (n_int n) (n_int2 n) (length rs) (n_strings n)"
    using ar c assms(2) by (auto simp: arity_ok_def message_ok_def)
  with u ch c have "wf_message (set_children rs n)"
    unfolding wf_message_iff [of "set_children rs n"] by simp
  with ch c show ?thesis by simp
qed

end
