(* ===== verification/ParserProgress.thy ===== *)
theory ParserProgress
  imports Parser AstShape "HOL-Library.Sublist"
begin

text \<open>
  What every parsing step keeps: nothing read comes back, errors are only
  appended, the blank-line flag and the method header are restored, and every
  keyword token still to come has exactly one colon.  The token-level steps are
  settled here; the grammar follows in \<open>ParserTotal\<close>.
\<close>

section \<open>Keyword tokens have one colon\<close>

definition tok_ok :: "token \<Rightarrow> bool" where
  "tok_ok t \<longleftrightarrow> (t_kind t = T_Keyword \<longrightarrow> colons (t_text t) = 1)"

lemma tok_ok_other [simp]: "t_kind t \<noteq> T_Keyword \<Longrightarrow> tok_ok t"
  by (simp add: tok_ok_def)

lemma tok_ok_blank [simp]: "tok_ok (t\<lparr>t_blank := b\<rparr>) = tok_ok t"
  by (simp add: tok_ok_def)

lemma lexeme_advance:
  "unread m \<Longrightarrow> lx_source m = lx_source lx \<Longrightarrow> lx_pos lx \<le> lx_pos m \<Longrightarrow>
   lexeme lx (advance m) = lexeme lx m @ [here m]"
  by (simp add: lexeme_def substr_def Suc_diff_le take_Suc_conv_app_nth)

lemma lexIdentifier_tok_ok: "tok_ok (fst (lexIdentifier lx))"
proof -
  let ?m = "advance_while is_ident_char lx"
  have r: "reaches lx ?m" by (rule reaches_advance_while)
  have "filter (\<lambda>c. c = CHR '':'') (takeWhile is_ident_char (rest lx)) = []"
    using set_takeWhileD by (fastforce simp: filter_empty_conv is_ident_char_def ctype char_code_def)
  then have "colons (lexeme lx ?m) = 0" by (simp add: lexeme_advance_while colons_def)
  moreover have "lexeme lx (advance ?m) = lexeme lx ?m @ [here ?m]" if "unread ?m"
    using that reaches_frame(1) [OF r] reaches_pos_le [OF r] by (rule lexeme_advance)
  ultimately show ?thesis
    by (simp add: lexIdentifier_def Let_def tok_ok_def) (simp add: colons_def)
qed

lemma lexRadix_kind: "lexRadix n d l c lx = Some r \<Longrightarrow> t_kind (fst r) = T_Integer"
  unfolding lexRadix_def Let_def
  by (simp only: if_None_eq_Some option.inject) (safe; simp split: option.split)

lemma decimal_token_not_keyword: "t_kind (decimal_token n d i f e l c) \<noteq> T_Keyword"
  unfolding decimal_token_def Let_def makeError_def
  by (intro kind_if kind_option) simp_all

lemma lexNumber_not_keyword: "t_kind (fst (lexNumber n lx)) \<noteq> T_Keyword"
  unfolding lexNumber_def Let_def
  by (auto simp: decimal_token_not_keyword dest: lexRadix_kind split: option.split prod.split)

lemma lexString_loop_not_keyword: "t_kind (fst (lexString_loop l c out lx)) \<noteq> T_Keyword"
proof (induction l c out lx rule: lexString_loop.induct)
  case (1 l c out lx)
  then show ?case by (subst lexString_loop.simps) (simp add: makeError_def)
qed

lemma other_forms_not_keyword:
  "t_kind (fst (lexString lx)) \<noteq> T_Keyword" "t_kind (fst (lexChar lx)) \<noteq> T_Keyword"
  "t_kind (fst (lexSymbol lx)) \<noteq> T_Keyword" "t_kind (fst (lexMinus sp lx)) \<noteq> T_Keyword"
  "t_kind (fst (lexOperator lx)) \<noteq> T_Keyword"
  by (simp_all add: lexString_def lexString_loop_not_keyword lexChar_def lexSymbol_def lexMinus_def
        lexOperator_def lexNumber_not_keyword makeError_def Let_def)

lemma lexDispatch_tok_ok: "tok_ok (fst (lexDispatch sp lx))"
proof (cases "single_kind (here lx)")
  case None
  then show ?thesis
    using other_forms_not_keyword [where lx = lx] lexNumber_not_keyword [of False lx] lexIdentifier_tok_ok [of lx]
    by (simp add: lexDispatch_def Let_def del: single_kind.simps)
next
  case (Some k)
  then have "k \<noteq> T_Keyword" by (auto split: if_splits)
  with Some show ?thesis
    using other_forms_not_keyword [where lx = lx] lexNumber_not_keyword [of False lx] lexIdentifier_tok_ok [of lx]
    by (simp add: lexDispatch_def Let_def del: single_kind.simps)
qed

lemma lexOne_tok_ok: "tok_ok (fst (lexOne lx))"
proof -
  have "tok_ok (fst (nextImpl lx))"
    unfolding nextImpl_def Let_def by (simp add: makeError_def lexDispatch_tok_ok)
  then show ?thesis by (cases "nextImpl lx") (simp add: lexOne_def)
qed

section \<open>One step of the parser\<close>

text \<open>The tokens already lexed are well formed (those to come always are).\<close>

definition pinv :: "pstate \<Rightarrow> bool" where
  "pinv s \<longleftrightarrow> tok_ok (p_current s) \<and> list_all tok_ok (lx_lookahead (p_lexer s))"

definition nerr :: "pstate \<Rightarrow> nat" where
  "nerr s = length (p_errors s)"

definition moves :: "pstate \<Rightarrow> pstate \<Rightarrow> bool" where
  "moves s s' \<longleftrightarrow> pleft s' \<le> pleft s \<and> prefix (p_errors s) (p_errors s') \<and> (pinv s \<longrightarrow> pinv s')"

definition step :: "pstate \<Rightarrow> pstate \<Rightarrow> bool" where
  "step s s' \<longleftrightarrow> moves s s' \<and> p_stop s' = p_stop s \<and> p_header s' = p_header s"

lemma moves_refl [simp]: "moves s s"
  by (simp add: moves_def)

lemma step_refl [simp]: "step s s"
  by (simp add: step_def)

lemma moves_trans: "moves a b \<Longrightarrow> moves b c \<Longrightarrow> moves a c"
  unfolding moves_def by (meson le_trans prefix_order.trans)

lemma step_trans: "step a b \<Longrightarrow> step b c \<Longrightarrow> step a c"
  unfolding step_def using moves_trans by metis

lemma step_moves: "step s s' \<Longrightarrow> moves s s'"
  by (simp add: step_def)

lemma movesD:
  assumes "moves s s'"
  shows "pleft s' \<le> pleft s" "nerr s \<le> nerr s'" "pinv s \<Longrightarrow> pinv s'"
  using assms by (auto simp: moves_def nerr_def prefix_length_le)

lemma stepD:
  assumes "step s s'"
  shows "pleft s' \<le> pleft s" "nerr s \<le> nerr s'" "pinv s \<Longrightarrow> pinv s'"
    "p_stop s' = p_stop s" "p_header s' = p_header s"
  using assms movesD [of s s'] by (simp_all add: step_def)

lemma nerr_simps [simp]:
  "nerr (parser_error t m s) = Suc (nerr s)" "nerr (s\<lparr>p_prev := t\<rparr>) = nerr s"
  "nerr (s\<lparr>p_stop := b\<rparr>) = nerr s" "nerr (s\<lparr>p_header := h\<rparr>) = nerr s"
  by (simp_all add: nerr_def parser_error_def)

lemma pinv_simps [simp]:
  "pinv (parser_error t m s) = pinv s" "pinv (s\<lparr>p_prev := t\<rparr>) = pinv s"
  "pinv (s\<lparr>p_stop := b\<rparr>) = pinv s" "pinv (s\<lparr>p_header := h\<rparr>) = pinv s"
  by (simp_all add: pinv_def)

lemma step_error: "step s (parser_error t m s)"
  by (simp add: step_def moves_def) (simp add: parser_error_def)

lemma moves_field [simp]:
  "moves s (s'\<lparr>p_stop := b\<rparr>) = moves s s'" "moves (s\<lparr>p_stop := b\<rparr>) s' = moves s s'"
  "moves s (s'\<lparr>p_header := h\<rparr>) = moves s s'" "moves (s\<lparr>p_header := h\<rparr>) s' = moves s s'"
  "moves (s\<lparr>p_prev := t\<rparr>) s' = moves s s'"
  by (simp_all add: moves_def)

text \<open>The scope object that clears the blank-line flag and restores it.\<close>

lemma step_nested: "step (s\<lparr>p_stop := b\<rparr>) s' \<Longrightarrow> step s (s'\<lparr>p_stop := p_stop s\<rparr>)"
  by (simp add: step_def)

lemma lexer_next_tok_ok:
  assumes "lexer_next lx = (t, l)" "list_all tok_ok (lx_lookahead lx)"
  shows "tok_ok t \<and> list_all tok_ok (lx_lookahead l)"
  using assms lexOne_tok_ok [of lx] lexOne_left(1) [of lx]
  by (auto simp: lexer_next_def split: list.splits)

lemma next_current_step: "step s (next_current s)"
proof -
  obtain t l where n: "lexer_next (p_lexer s) = (t, l)" by fastforce
  have "pinv s \<longrightarrow> pinv (next_current s)"
    using lexer_next_tok_ok [OF n] by (simp add: pinv_def next_current_def n)
  then show ?thesis
    using next_current_left [of s] by (simp add: step_def moves_def next_current_def n)
qed

lemma skip_errors_step: "step s (skip_errors s)"
proof (induction s rule: skip_errors.induct)
  case (1 s)
  show ?case
  proof (cases "kind_of s = T_Error")
    case True
    let ?e = "error_here (t_text (p_current s)) s"
    have "step s ?e" "step ?e (next_current ?e)" by (rule step_error, rule next_current_step)
    moreover have "step (next_current ?e) (skip_errors (next_current ?e))" using 1 True by blast
    moreover have "skip_errors s = skip_errors (next_current ?e)"
      using True by (subst skip_errors.simps) simp
    ultimately show ?thesis by (metis step_trans)
  next
    case False
    then show ?thesis by (subst skip_errors.simps) simp
  qed
qed

lemma step_prev: "step s (s\<lparr>p_prev := t\<rparr>)"
  by (simp add: step_def moves_def)

lemma advance_step [intro]: "step s (parser_advance s)"
  unfolding parser_advance_def by (metis step_trans step_prev next_current_step skip_errors_step)

lemma advance2_step [intro]: "step s (parser_advance (parser_advance s))"
  by (metis step_trans advance_step)

lemma consume_step: "step s (expect k m s)"
  by (simp add: parser_consume_def advance_step step_error)

lemma consume_clean: "nerr (expect k m s) = nerr s \<Longrightarrow> kind_of s = k"
  by (simp add: parser_consume_def split: if_splits)

lemma match_step: "parser_match k s = (m, s') \<Longrightarrow> step s s'"
  by (auto simp: parser_match_def split: if_splits)

lemma match_true:
  "parser_match k s = (True, s') \<Longrightarrow> k \<noteq> T_EndOfFile \<Longrightarrow> kind_of s = k \<and> pleft s' < pleft s"
  by (auto simp: parser_match_def advance_less split: if_splits)

lemma match_false: "parser_match k s = (False, s') \<Longrightarrow> s' = s \<and> kind_of s \<noteq> k"
  by (auto simp: parser_match_def split: if_splits)

section \<open>Looking ahead\<close>

text \<open>Peeking changes nothing but the lexer's buffer.\<close>

definition peeked :: "pstate \<Rightarrow> pstate \<Rightarrow> bool" where
  "peeked s s' \<longleftrightarrow> step s s' \<and> p_current s' = p_current s \<and> p_prev s' = p_prev s \<and>
     p_errors s' = p_errors s"

lemma peekedD:
  assumes "peeked s s'"
  shows "step s s'" "p_current s' = p_current s" "p_prev s' = p_prev s" "nerr s' = nerr s"
    "pleft s' \<le> pleft s"
  using assms by (auto simp: peeked_def nerr_def dest: stepD)

lemma peeked_refl [simp]: "peeked s s"
  by (simp add: peeked_def)

lemma peeked_trans: "peeked a b \<Longrightarrow> peeked b c \<Longrightarrow> peeked a c"
  unfolding peeked_def using step_trans by metis

lemma lex_ahead_tok_ok:
  "list_all tok_ok (lx_lookahead lx) \<Longrightarrow> list_all tok_ok (lx_lookahead (lex_ahead lx))"
  by (simp add: lex_ahead_lookahead lexOne_tok_ok)

lemma lexer_peek_tok_ok:
  "list_all tok_ok (lx_lookahead lx) \<Longrightarrow> list_all tok_ok (lx_lookahead (snd (lexer_peek lx)))"
  by (simp add: lexer_peek_def Let_def lex_ahead_tok_ok)

lemma lexer_peekSecond_tok_ok:
  assumes "list_all tok_ok (lx_lookahead lx)"
  shows "list_all tok_ok (lx_lookahead (snd (lexer_peekSecond lx)))"
proof -
  define l1 where "l1 = (if length (lx_lookahead lx) < 2 then lex_ahead lx else lx)"
  have "list_all tok_ok (lx_lookahead l1)" using assms by (simp add: l1_def lex_ahead_tok_ok)
  then show ?thesis
    by (simp add: lexer_peekSecond_def Let_def l1_def [symmetric] lex_ahead_tok_ok)
qed

lemma peek_peeked: "parser_peek s = (t, s') \<Longrightarrow> peeked s s'"
  using lexer_peek_tok_ok [of "p_lexer s"]
  by (auto simp: parser_peek_def peeked_def step_def moves_def pinv_def pleft_def
        dest: lexer_peek_left split: prod.splits)

lemma peekSecond_peeked: "parser_peekSecond s = (t, s') \<Longrightarrow> peeked s s'"
  using lexer_peekSecond_tok_ok [of "p_lexer s"]
  by (auto simp: parser_peekSecond_def peeked_def step_def moves_def pinv_def pleft_def
        dest: lexer_peekSecond_left split: prod.splits)

lemma callParenFollows_peeked: "callParenFollows t s = (b, s') \<Longrightarrow> peeked s s'"
  by (auto simp: callParenFollows_def dest: peek_peeked split: prod.splits)

lemma assignFollows_peeked:
  "assignFollows s = (b, s') \<Longrightarrow> peeked s s' \<and> (b \<longrightarrow> kind_of s = T_Identifier)"
  by (auto simp: assignFollows_def dest: peek_peeked split: prod.splits if_splits)

lemma named_follows_peeked:
  "named_follows s = (b, s') \<Longrightarrow> peeked s s' \<and> (b \<longrightarrow> kind_of s = T_Identifier)"
  by (auto simp: named_follows_def dest: peek_peeked split: prod.splits if_splits)

lemma classSideFollows_peeked: "classSideFollows t s = (b, s') \<Longrightarrow> peeked s s'"
  by (auto simp: classSideFollows_def dest: peekSecond_peeked split: prod.splits if_splits)

lemma atDeclarationStart_peeked: "atDeclarationStart s = (b, s') \<Longrightarrow> peeked s s'"
  by (auto simp: atDeclarationStart_def dest: peek_peeked classSideFollows_peeked
        intro: peeked_trans split: prod.splits if_splits)

lemma nextFormStarts_peeked: "nextFormStarts s = (b, s') \<Longrightarrow> peeked s s'"
  by (auto simp: nextFormStarts_def dest: peek_peeked classSideFollows_peeked
        intro: peeked_trans split: prod.splits if_splits)

section \<open>Loops over tokens\<close>

lemma read_names_step:
  "read_names out s = (out', s') \<Longrightarrow> step s s' \<and> prefix out out'"
proof (induction out s rule: read_names.induct)
  case (1 out s)
  show ?case
  proof (cases "kind_of s = T_Identifier")
    case True
    then have "read_names (out @ [t_text (p_current s)]) (parser_advance s) = (out', s')"
      using 1(2) by (subst (asm) read_names.simps) simp
    with 1(1) True have "step (parser_advance s) s'" "prefix (out @ [t_text (p_current s)]) out'" by blast+
    then show ?thesis by (meson append_prefixD advance_step step_trans)
  next
    case False
    with 1(2) show ?thesis by (subst (asm) read_names.simps) simp
  qed
qed

lemma read_locals_step:
  "read_locals w out s = (out', s') \<Longrightarrow> step s s' \<and> prefix out out'"
proof (cases "kind_of s = T_Pipe")
  case True
  assume r: "read_locals w out s = (out', s')"
  obtain o1 s1 where n: "read_names out (parser_advance s) = (o1, s1)" by fastforce
  with r True have "out' = o1" "step s1 s'" by (auto simp: read_locals_def intro: consume_step)
  with read_names_step [OF n] show ?thesis by (meson advance_step step_trans)
qed (simp add: read_locals_def)

lemma block_args_step: "block_args out s = (out', s') \<Longrightarrow> step s s'"
proof (induction out s rule: block_args.induct)
  case (1 out s)
  let ?s1 = "parser_advance s"
  consider (stop) "kind_of s \<noteq> T_Colon" | (bad) "kind_of s = T_Colon" "kind_of ?s1 \<noteq> T_Identifier"
    | (arg) "kind_of s = T_Colon" "kind_of ?s1 = T_Identifier" by blast
  then show ?case
  proof cases
    case stop
    with 1(2) show ?thesis by (subst (asm) block_args.simps) simp
  next
    case bad
    with 1(2) show ?thesis
      by (subst (asm) block_args.simps) (auto simp: Let_def intro: step_trans [OF advance_step step_error])
  next
    case arg
    then have "block_args (out @ [t_text (p_current ?s1)]) (parser_advance ?s1) = (out', s')"
      using 1(2) by (subst (asm) block_args.simps) (simp add: Let_def)
    with 1(1) arg have "step (parser_advance ?s1) s'" by blast
    then show ?thesis by (meson advance_step step_trans)
  qed
qed

lemma keyword_run_step: "keyword_run l e x s = (x', s') \<Longrightarrow> step s s'"
proof (induction l e x s rule: keyword_run.induct)
  case (1 l e x s)
  let ?c = "p_current s"
  show ?case
  proof (cases "t_kind ?c = T_Keyword \<and> t_line ?c = l \<and> t_col ?c = e")
    case True
    then have "keyword_run l (e + int (length (t_text ?c))) (x @ t_text ?c) (parser_advance s) = (x', s')"
      using 1(2) by (subst (asm) keyword_run.simps) (simp add: Let_def)
    with 1(1) True have "step (parser_advance s) s'" by blast
    then show ?thesis by (meson advance_step step_trans)
  next
    case False
    with 1(2) show ?thesis by (subst (asm) keyword_run.simps) (auto simp: Let_def)
  qed
qed

lemma synchronize_step: "step s (synchronize s)"
proof (induction s rule: synchronize.induct)
  case (1 s)
  show ?case
  proof (cases "kind_of s \<noteq> T_EndOfFile \<and> kind_of s \<noteq> T_Period")
    case True
    then have "synchronize s = synchronize (parser_advance s)" by (subst synchronize.simps) simp
    with 1 True show ?thesis by (metis advance_step step_trans)
  next
    case False
    then show ?thesis by (subst synchronize.simps) (auto intro: advance_step)
  qed
qed

lemma keyword_selector_step:
  "keyword_selector sel args s = (sel', args', s') \<Longrightarrow> step s s'"
proof (induction sel args s rule: keyword_selector.induct)
  case (1 sel args s)
  let ?s1 = "parser_advance s"
  consider (stop) "kind_of s \<noteq> T_Keyword" | (bad) "kind_of s = T_Keyword" "kind_of ?s1 \<noteq> T_Identifier"
    | (arg) "kind_of s = T_Keyword" "kind_of ?s1 = T_Identifier" by blast
  then show ?case
  proof cases
    case stop
    with 1(2) show ?thesis by (subst (asm) keyword_selector.simps) simp
  next
    case bad
    with 1(2) show ?thesis
      by (subst (asm) keyword_selector.simps) (auto simp: Let_def intro: step_trans [OF advance_step step_error])
  next
    case arg
    then have "keyword_selector (sel @ t_text (p_current s)) (args @ [t_text (p_current ?s1)])
        (parser_advance ?s1) = (sel', args', s')"
      using 1(2) by (subst (asm) keyword_selector.simps) (simp add: Let_def)
    with 1(1) arg have "step (parser_advance ?s1) s'" by blast
    then show ?thesis by (meson advance_step step_trans)
  qed
qed

lemma method_selector_step: "method_selector s = (sel, args, s') \<Longrightarrow> step s s'"
  unfolding method_selector_def Let_def
  by (auto intro: advance2_step step_error step_trans [OF advance_step step_error]
        dest: keyword_selector_step split: if_splits)

end
