(* ===== verification/ParserTotal.thy ===== *)
theory ParserTotal
  imports ParserProgress
begin

text \<open>
  The recursive part of the parser always answers, reads at least one token for
  an expression, records an error whenever it answers no node, and without new
  errors builds only nodes of the right shape.  What a call of
  \<open>parseExpression\<close> or \<open>parseCallArgExpr\<close> promises is the locale
  \<open>sub_parsers\<close>; every other function is settled inside it from that promise,
  and the knot discharges it by induction on the fuel.
\<close>

section \<open>What a parsing function answers\<close>

definition node_post :: "pstate \<Rightarrow> node option \<Rightarrow> pstate \<Rightarrow> bool" where
  "node_post s x s' \<longleftrightarrow> step s s' \<and>
     (nerr s' = nerr s \<longrightarrow> wf_child x) \<and>
     (case x of None \<Rightarrow> True | Some n \<Rightarrow> isSendKind (n_kind n) \<longrightarrow> n_children n \<noteq> [])"

definition eats :: "pstate \<Rightarrow> pstate \<Rightarrow> bool" where
  "eats s s' \<longleftrightarrow> (kind_of s \<noteq> T_EndOfFile \<longrightarrow> pleft s' < pleft s)"

lemma eats_advance [simp, intro]: "eats s (parser_advance s)"
  by (simp add: eats_def advance_less)

lemma eats_step: "eats s s1 \<Longrightarrow> step s1 s2 \<Longrightarrow> eats s s2"
  unfolding eats_def by (auto dest: stepD)

lemma eats_field [simp]: "eats s (s'\<lparr>p_stop := b\<rparr>) = eats s s'" "eats (s\<lparr>p_stop := b\<rparr>) s' = eats s s'"
  by (simp_all add: eats_def)

text \<open>A node with children added one by one, each well formed unless an error was recorded.\<close>

definition kids_rel :: "pstate \<Rightarrow> node \<Rightarrow> node \<Rightarrow> pstate \<Rightarrow> bool" where
  "kids_rel s n n' s' \<longleftrightarrow>
     n_kind n' = n_kind n \<and> n_int n' = n_int n \<and> n_int2 n' = n_int2 n \<and> n_strings n' = n_strings n \<and>
     (\<exists>cs. n_children n' = n_children n @ cs \<and> (nerr s' = nerr s \<longrightarrow> list_all wf_child cs))"

definition kids_post :: "pstate \<Rightarrow> node \<Rightarrow> node \<Rightarrow> pstate \<Rightarrow> bool" where
  "kids_post s n n' s' \<longleftrightarrow> step s s' \<and> kids_rel s n n' s'"

lemma kids_rel_refl [simp]: "kids_rel s n n s'"
  by (simp add: kids_rel_def)

lemma kids_rel_trans:
  assumes a: "kids_rel s n n1 s1" and b: "kids_rel s1 n1 n2 s2" and le: "nerr s \<le> nerr s1" "nerr s1 \<le> nerr s2"
  shows "kids_rel s n n2 s2"
proof -
  obtain cs ds where "n_children n1 = n_children n @ cs" "nerr s1 = nerr s \<longrightarrow> list_all wf_child cs"
    "n_children n2 = n_children n1 @ ds" "nerr s2 = nerr s1 \<longrightarrow> list_all wf_child ds"
    using a b by (auto simp: kids_rel_def)
  with a b le show ?thesis by (auto simp: kids_rel_def)
qed

lemma kids_rel_add: "(nerr s' = nerr s \<Longrightarrow> wf_child x) \<Longrightarrow> kids_rel s n (add_if x n) s'"
  by (cases x) (auto simp: kids_rel_def)

lemma kids_relD:
  assumes "kids_rel s n n' s'"
  shows "n_kind n' = n_kind n" "n_int n' = n_int n" "n_int2 n' = n_int2 n"
    "n_strings n' = n_strings n" "prefix (n_children n) (n_children n')"
    "nerr s' = nerr s \<Longrightarrow> list_all wf_child (n_children n) \<Longrightarrow> list_all wf_child (n_children n')"
  using assms by (auto simp: kids_rel_def)

lemma kids_postD:
  assumes "kids_post s n n' s'"
  shows "step s s'" "n_kind n' = n_kind n" "n_int n' = n_int n" "n_int2 n' = n_int2 n"
    "n_strings n' = n_strings n" "prefix (n_children n) (n_children n')"
    "nerr s' = nerr s \<Longrightarrow> list_all wf_child (n_children n) \<Longrightarrow> list_all wf_child (n_children n')"
  using assms kids_relD [of s n n' s'] by (simp_all add: kids_post_def)

lemma kids_post_refl [simp]: "kids_post s n n s"
  by (simp add: kids_post_def)

lemma kids_post_step: "step s s' \<Longrightarrow> kids_post s n n s'"
  by (simp add: kids_post_def)

lemma kids_post_trans:
  assumes "kids_post s n n1 s1" "kids_post s1 n1 n2 s2"
  shows "kids_post s n n2 s2"
  using assms kids_rel_trans [of s n n1 s1 n2 s2] stepD(2) [of s s1] stepD(2) [of s1 s2]
  by (auto simp: kids_post_def intro: step_trans)

lemma kids_post_add:
  assumes "step s s'" "nerr s' = nerr s \<Longrightarrow> wf_child x"
  shows "kids_post s n (add_if x n) s'"
  using assms kids_rel_add [of s' s x n] by (simp add: kids_post_def)

lemma kids_post_children:
  "step s s' \<Longrightarrow> (nerr s' = nerr s \<Longrightarrow> wf_child (Some m)) \<Longrightarrow> kids_post s n (add_child (Some m) n) s'"
  using kids_post_add [of s s' "Some m" n] by (simp add: add_if_def)

section \<open>Literals\<close>

lemma text_node_sel [simp]:
  "n_kind (text_node k t) = k" "n_text (text_node k t) = t_text t" "n_children (text_node k t) = []"
  "n_int (text_node k t) = 0" "n_int2 (text_node k t) = 0" "n_strings (text_node k t) = []"
  by (simp_all add: text_node_def)

lemma wf_leaf_kind:
  "n_kind n \<in> {N_IntegerLit, N_FloatLit, N_StringLit, N_SymbolLit, N_CharLit, N_TrueLit, N_FalseLit,
     N_NilLit, N_Identifier, N_Self, N_Super, N_ThisContext} \<Longrightarrow> n_children n = [] \<Longrightarrow> wf_node n"
  by (subst wf_node_iff) (auto simp: arity_ok_def)

lemma int_node_sel [simp]: "n_kind (int_node t) = N_IntegerLit" "n_children (int_node t) = []"
  by (simp_all add: int_node_def Let_def)

lemma leaf_node_wf:
  "leaf_node t = Some n \<Longrightarrow> wf_node n \<and> \<not> isSendKind (n_kind n) \<and> t_kind t \<noteq> T_EndOfFile"
  by (auto simp: leaf_node_def isSendKind_def intro!: wf_leaf_kind split: token_kind.splits)

lemma parseLiteralArrayElement_post:
  assumes nested: "\<And>l c s'. pleft s' < pleft s \<Longrightarrow>
      \<exists>a s2. nested l c s' = Some (a, s2) \<and> step s' s2 \<and> n_kind a = N_ArrayLit \<and>
        (nerr s2 = nerr s' \<longrightarrow> wf_node a)"
    and k: "kind_of s \<noteq> T_EndOfFile"
  shows "\<exists>e s1. parseLiteralArrayElement nested s = Some (e, s1) \<and> step s s1 \<and> pleft s1 < pleft s \<and>
    (nerr s1 = nerr s \<longrightarrow> wf_child e)"
proof (cases "leaf_node (p_current s)")
  case (Some n)
  with leaf_node_wf [OF Some] k show ?thesis
    by (auto simp: parseLiteralArrayElement_def advance_less)
next
  case None
  have lt: "pleft (parser_advance s) < pleft s" using k by (rule advance_less)
  consider (ident) "kind_of s = T_Identifier" | (key) "kind_of s = T_Keyword"
    | (nest) "kind_of s = T_HashLParen \<or> kind_of s = T_LParen"
    | (bad) "kind_of s \<notin> {T_Identifier, T_Keyword, T_HashLParen, T_LParen}" by blast
  then show ?thesis
  proof cases
    case ident
    with None lt show ?thesis
      by (auto simp: parseLiteralArrayElement_def intro!: wf_leaf_kind)
  next
    case key
    obtain x s1 where r: "keyword_run (t_line (p_current s))
        (t_col (p_current s) + int (length (t_text (p_current s)))) (t_text (p_current s))
        (parser_advance s) = (x, s1)" by fastforce
    have "step s s1" "pleft s1 < pleft s"
      using keyword_run_step [OF r] lt by (auto intro: step_trans dest: stepD)
    with None key r show ?thesis
      by (auto simp: parseLiteralArrayElement_def Let_def intro!: wf_leaf_kind)
  next
    case nest
    from nested [OF lt] obtain a s2 where
      a: "nested (t_line (p_current s)) (t_col (p_current s)) (parser_advance s) = Some (a, s2)"
      "step (parser_advance s) s2" "nerr s2 = nerr (parser_advance s) \<longrightarrow> wf_node a" by blast
    have "step s s2" "pleft s2 < pleft s" "nerr s \<le> nerr (parser_advance s)"
      "nerr (parser_advance s) \<le> nerr s2"
      using a(2) lt stepD(2) [OF advance_step, of s] by (auto intro: step_trans dest: stepD)
    with None nest a show ?thesis
      by (auto simp: parseLiteralArrayElement_def)
  next
    case bad
    let ?e = "error_here ''unexpected token in literal array literal'' s"
    have "step s (parser_advance ?e)" by (rule step_trans [OF step_error advance_step])
    moreover have "nerr (parser_advance ?e) > nerr s"
      using stepD(2) [OF advance_step, of ?e] by simp
    moreover have "pleft (parser_advance ?e) < pleft s" using advance_less [of ?e] k by simp
    ultimately show ?thesis using None bad by (simp add: parseLiteralArrayElement_def Let_def)
  qed
qed

lemma close_step: "step s (expect k m s)" "nerr (expect k m s) = nerr s \<Longrightarrow> kind_of s = k"
  by (rule consume_step, rule consume_clean)

lemma lit_elems_post:
  "pleft s < n \<Longrightarrow> \<exists>a s1. lit_elems n arr s = Some (a, s1) \<and> kids_post s arr a s1"
proof (induction n arbitrary: arr s)
  case (Suc n)
  show ?case
  proof (cases "kind_of s \<noteq> T_RParen \<and> kind_of s \<noteq> T_EndOfFile")
    case True
    define nested where "nested = (\<lambda>l c s'. do { (a, s2) \<leftarrow> lit_elems n (makeNode N_ArrayLit l c) s';
       Some (a, expect T_RParen (''expected '' @ quoted '')'' @ '' to close literal array'') s2) })"
    have nst: "\<exists>a s2. nested l c s' = Some (a, s2) \<and> step s' s2 \<and> n_kind a = N_ArrayLit \<and>
        (nerr s2 = nerr s' \<longrightarrow> wf_node a)" if "pleft s' < pleft s" for l c s'
    proof -
      have "pleft s' < n" using that Suc.prems by simp
      from Suc.IH [OF this] obtain a s1 where a: "lit_elems n (makeNode N_ArrayLit l c) s' = Some (a, s1)"
        "kids_post s' (makeNode N_ArrayLit l c) a s1" by blast
      let ?s2 = "expect T_RParen (''expected '' @ quoted '')'' @ '' to close literal array'') s1"
      have "nested l c s' = Some (a, ?s2)" using a(1) by (simp add: nested_def)
      moreover have "step s' ?s2" "nerr s' \<le> nerr s1" "nerr s1 \<le> nerr ?s2"
        using kids_postD(1) [OF a(2)] close_step(1) by (auto intro: step_trans dest: stepD)
      moreover have "wf_node a" if "nerr s1 = nerr s'"
        using kids_postD [OF a(2)] that by (subst wf_node_iff) (simp add: arity_ok_def)
      ultimately show ?thesis using kids_postD(2) [OF a(2)] by auto
    qed
    from parseLiteralArrayElement_post [of s nested, OF nst] True obtain e s1 where
      e: "parseLiteralArrayElement nested s = Some (e, s1)" "step s s1" "pleft s1 < pleft s"
        "nerr s1 = nerr s \<longrightarrow> wf_child e" by blast
    have unf: "lit_elems (Suc n) arr s = (case e of Some x \<Rightarrow> lit_elems n (add_child (Some x) arr) s1
        | None \<Rightarrow> Some (arr, s1))"
      using True e(1) unfolding lit_elems.simps nested_def [symmetric] by simp
    show ?thesis
    proof (cases e)
      case None
      with unf e show ?thesis by (auto intro: kids_post_step)
    next
      case (Some x)
      have "kids_post s arr (add_child (Some x) arr) s1"
        using e(2,4) Some by (intro kids_post_children) auto
      moreover have "pleft s1 < n" using e(3) Suc.prems by simp
      ultimately show ?thesis
        using Suc.IH [of s1 "add_child (Some x) arr"] unf Some by (auto intro: kids_post_trans)
    qed
  qed auto
qed simp

lemma parseLiteralArray_post:
  assumes "pleft s < n"
  shows "\<exists>a s1. parseLiteralArray n l c s = Some (a, s1) \<and> step s s1 \<and> n_kind a = N_ArrayLit \<and>
     (nerr s1 = nerr s \<longrightarrow> wf_node a)"
proof -
  obtain a s1 where a: "lit_elems n (makeNode N_ArrayLit l c) s = Some (a, s1)"
    "kids_post s (makeNode N_ArrayLit l c) a s1" using lit_elems_post [OF assms] by blast
  let ?s2 = "expect T_RParen (''expected '' @ quoted '')'' @ '' to close literal array'') s1"
  have "parseLiteralArray n l c s = Some (a, ?s2)" using a(1) by (simp add: parseLiteralArray_def)
  moreover have "step s ?s2" "nerr s \<le> nerr s1" "nerr s1 \<le> nerr ?s2"
    using kids_postD(1) [OF a(2)] close_step(1) by (auto intro: step_trans dest: stepD)
  moreover have "wf_node a" if "nerr s1 = nerr s"
    using kids_postD [OF a(2)] that by (subst wf_node_iff) (simp add: arity_ok_def)
  ultimately show ?thesis using kids_postD(2) [OF a(2)] by auto
qed

section \<open>The promise of the recursive calls\<close>

definition parses :: "nat \<Rightarrow> parse_fun \<Rightarrow> bool" where
  "parses n p \<longleftrightarrow> (\<forall>s. pinv s \<longrightarrow> pleft s < n \<longrightarrow>
     (\<exists>x s'. p s = Some (x, s') \<and> node_post s x s' \<and> eats s s'))"

lemma parsesD:
  assumes "parses n p" "pinv s" "pleft s < n"
  obtains x s' where "p s = Some (x, s')" "node_post s x s'" "eats s s'"
  using assms by (auto simp: parses_def)

lemma parsesI:
  "(\<And>s. pinv s \<Longrightarrow> pleft s < n \<Longrightarrow> \<exists>x s'. p s = Some (x, s') \<and> node_post s x s' \<and> eats s s') \<Longrightarrow> parses n p"
  by (simp add: parses_def)

lemma node_postD:
  assumes "node_post s x s'"
  shows "step s s'" "nerr s' = nerr s \<Longrightarrow> wf_child x" "pleft s' \<le> pleft s" "nerr s \<le> nerr s'"
    "pinv s \<Longrightarrow> pinv s'"
  using assms stepD [of s s'] by (simp_all add: node_post_def)

lemma node_post_nested:
  "node_post (s\<lparr>p_stop := b\<rparr>) x s' \<Longrightarrow> node_post s x (s'\<lparr>p_stop := p_stop s\<rparr>)"
  by (auto simp: node_post_def intro: step_nested)

text \<open>Steps before and after a parse that clean up no errors.\<close>

lemma node_post_after:
  "step s s1 \<Longrightarrow> node_post s1 x s2 \<Longrightarrow> node_post s x s2"
  using stepD(2) [of s s1] node_postD(4) [of s1 x s2]
  by (auto simp: node_post_def intro: step_trans)

lemma node_post_then:
  "node_post s x s1 \<Longrightarrow> step s1 s2 \<Longrightarrow> node_post s x s2"
  using stepD(2) [of s1 s2] node_postD(4) [of s x s1]
  by (auto simp: node_post_def intro: step_trans)

lemma node_post_replace:
  assumes "node_post s x s1" "nerr s1 = nerr s \<Longrightarrow> wf_child x \<Longrightarrow> wf_node m"
    "isSendKind (n_kind m) \<Longrightarrow> n_children m \<noteq> []"
  shows "node_post s (Some m) s1"
  using assms by (auto simp: node_post_def)

section \<open>Statements and blocks\<close>

lemma return_wf: "wf_child x \<Longrightarrow> wf_node (add_if x (makeNode N_Return l c))"
  by (subst wf_node_iff) (auto simp: arity_ok_def split: option.splits)

lemma statement_parses:
  assumes e: "parses n expr"
  shows "parses n (parseStatement expr)"
proof (rule parsesI)
  fix s assume i: "pinv s" and l: "pleft s < n"
  show "\<exists>x s'. parseStatement expr s = Some (x, s') \<and> node_post s x s' \<and> eats s s'"
  proof (cases "kind_of s = T_Caret")
    case False
    then have "parseStatement expr s = expr s" by (simp add: parseStatement_def parser_match_def)
    with parsesD [OF e i l] show ?thesis by metis
  next
    case True
    let ?s1 = "parser_advance s"
    have st: "step s ?s1" by (rule advance_step)
    have lt: "pleft ?s1 < pleft s" using True by (simp add: advance_less)
    have "pinv ?s1" "pleft ?s1 < n" using i l lt st by (auto dest: stepD)
    from parsesD [OF e this] obtain x s2 where
      x: "expr ?s1 = Some (x, s2)" "node_post ?s1 x s2" by metis
    let ?r = "add_if x (makeNode N_Return (t_line (p_prev ?s1)) (t_col (p_prev ?s1)))"
    have "node_post s (Some ?r) s2"
      using node_post_after [OF st x(2)] return_wf
      by (rule node_post_replace) (simp_all add: isSendKind_def)
    moreover have "eats s s2" using lt node_postD(3) [OF x(2)] by (simp add: eats_def)
    moreover have "parseStatement expr s = Some (Some ?r, s2)"
      using True x(1) by (simp add: parseStatement_def parser_match_def)
    ultimately show ?thesis by blast
  qed
qed

lemma items_post:
  assumes e: "parses n item"
  shows "pinv s \<Longrightarrow> pleft s < n \<Longrightarrow> pleft s < f \<Longrightarrow>
    \<exists>a s1. parse_items item k f arr s = Some (a, s1) \<and> kids_post s arr a s1"
proof (induction f arbitrary: arr s)
  case (Suc f)
  show ?case
  proof (cases "kind_of s \<noteq> k \<and> kind_of s \<noteq> T_EndOfFile")
    case True
    from parsesD [OF e Suc.prems(1,2)] obtain x s1 where
      x: "item s = Some (x, s1)" "node_post s x s1" "eats s s1" by metis
    note d = node_postD [OF x(2)]
    have lt: "pleft s1 < pleft s" using x(3) True by (simp add: eats_def)
    have k1: "kids_post s arr (add_if x arr) s1" using d(1,2) by (rule kids_post_add)
    obtain m s2 where m: "parser_match T_Period s1 = (m, s2)" by fastforce
    have st: "step s1 s2" using m by (rule match_step)
    have k2: "kids_post s arr (add_if x arr) s2"
      using k1 st by (meson kids_post_step kids_post_trans)
    have unf: "parse_items item k (Suc f) arr s =
        (if m then parse_items item k f (add_if x arr) s2 else Some (add_if x arr, s2))"
      using True x(1) m by simp
    show ?thesis
    proof (cases m)
      case True
      have "pinv s2" "pleft s2 < n" "pleft s2 < f"
        using d(5) st lt Suc.prems by (auto dest: stepD)
      from Suc.IH [OF this, of "add_if x arr"] k2 True unf show ?thesis
        by (auto intro: kids_post_trans)
    next
      case False
      with k2 unf show ?thesis by simp
    qed
  qed auto
qed simp

lemma block_args_length:
  "block_args out s = (out', s') \<Longrightarrow> prefix out out'"
proof (induction out s rule: block_args.induct)
  case (1 out s)
  show ?case
  proof (cases "kind_of s = T_Colon \<and> kind_of (parser_advance s) = T_Identifier")
    case True
    then have "block_args (out @ [t_text (p_current (parser_advance s))])
        (parser_advance (parser_advance s)) = (out', s')"
      using 1(2) by (subst (asm) block_args.simps) (simp add: Let_def)
    with 1(1) True show ?thesis by (meson append_prefixD)
  next
    case False
    with 1(2) show ?thesis by (subst (asm) block_args.simps) (auto simp: Let_def split: if_splits)
  qed
qed

lemma parseBlock_post:
  assumes e: "parses n expr" and i: "pinv s" and l: "pleft s < Suc n" and k: "kind_of s = T_LBracket"
  shows "\<exists>x s'. parseBlock expr (Suc n) s = Some (x, s') \<and> node_post s x s' \<and> eats s s'"
proof -
  let ?s1 = "(parser_advance s)\<lparr>p_stop := False\<rparr>"
  obtain args s2 where a: "block_args [] ?s1 = (args, s2)" by fastforce
  define s3 where "s3 = (if length args > 0 then
      expect T_Pipe (''expected '' @ quoted ''|'' @ '' after block arguments'') s2 else s2)"
  obtain names s4 where nm: "read_locals ''block locals'' args s3 = (names, s4)" by fastforce
  define blk where "blk = set_int (int (length args))
      (set_strings names (makeNode N_Block (t_line (p_current s)) (t_col (p_current s))))"
  have lt: "pleft ?s1 < n" using l k advance_less [of s] by simp
  have st: "step ?s1 s4" "prefix args names"
    using block_args_step [OF a] read_locals_step [OF nm]
    by (auto simp: s3_def intro: step_trans [OF _ consume_step] step_trans split: if_splits)
  have i1: "pinv ?s1" using i stepD(3) [OF advance_step, of s] by simp
  have "pinv s4" "pleft s4 < n" "pleft s4 < Suc n" using i1 lt stepD [OF st(1)] by auto
  from items_post [OF statement_parses [OF e] this] obtain b s5 where
    b: "parse_items (parseStatement expr) T_RBracket (Suc n) blk s4 = Some (b, s5)"
      "kids_post s4 blk b s5" by blast
  note kd = kids_postD [OF b(2)]
  let ?s6 = "expect T_RBracket (''expected '' @ quoted '']'' @ '' to close block'') s5"
  have st56: "step s5 ?s6" by (rule consume_step)
  have st6: "step ?s1 ?s6" using st(1) kd(1) st56 by (meson step_trans)
  have wf: "wf_node b" if "nerr ?s6 = nerr ?s1"
  proof -
    have "nerr s5 = nerr s4"
      using that stepD(2) [OF st(1)] stepD(2) [OF kd(1)] stepD(2) [OF st56] by linarith
    with kd(7) have "list_all wf_child (n_children b)" by (simp add: blk_def)
    moreover have "length args \<le> length names" using st(2) by (rule prefix_length_le)
    ultimately show ?thesis using kd(2-5) by (subst wf_node_iff) (simp add: arity_ok_def blk_def)
  qed
  have kb: "\<not> isSendKind (n_kind b)" using kd(2) by (simp add: blk_def isSendKind_def)
  have "node_post ?s1 (Some b) ?s6" using st6 wf kb by (simp add: node_post_def)
  then have "node_post (parser_advance s) (Some b) (?s6\<lparr>p_stop := p_stop (parser_advance s)\<rparr>)"
    by (rule node_post_nested)
  then have "node_post s (Some b) (?s6\<lparr>p_stop := p_stop (parser_advance s)\<rparr>)"
    by (rule node_post_after [OF advance_step])
  moreover have "p_stop (parser_advance s) = p_stop s" using stepD(4) [OF advance_step] .
  moreover have "eats s ?s6"
    using eats_step [OF _ st6, of s] by simp
  moreover have "parseBlock expr (Suc n) s = Some (Some b, ?s6\<lparr>p_stop := p_stop s\<rparr>)"
    unfolding parseBlock_def Let_def using a nm b(1) by (simp add: s3_def blk_def)
  ultimately show ?thesis by auto
qed

section \<open>Call-form sends\<close>

abbreviation wf_named :: "(string \<times> node option) list \<Rightarrow> bool" where
  "wf_named named \<equiv> list_all (\<lambda>kv. wf_child (snd kv)) named"

text \<open>Arguments read so far are well formed unless an error was recorded.\<close>

definition args_post :: "pstate \<Rightarrow> node option list \<Rightarrow> (string \<times> node option) list \<Rightarrow>
    node option list \<Rightarrow> (string \<times> node option) list \<Rightarrow> pstate \<Rightarrow> bool" where
  "args_post s pos named pos' named' s' \<longleftrightarrow> step s s' \<and>
     (nerr s' = nerr s \<longrightarrow> list_all wf_child pos \<longrightarrow> wf_named named \<longrightarrow>
        list_all wf_child pos' \<and> wf_named named')"

lemma args_post_trans:
  assumes "args_post s a b c d s1" "args_post s1 c d e f s2"
  shows "args_post s a b e f s2"
  using assms stepD(2) [of s s1] stepD(2) [of s1 s2] step_trans [of s s1 s2]
  by (auto simp: args_post_def)

lemma args_post_step: "step s s' \<Longrightarrow> args_post s a b a b s'"
  by (simp add: args_post_def)

lemma call_arg_post:
  assumes c: "parses n carg" and i: "pinv s" and l: "pleft s < n"
  shows "\<exists>seen pos1 named1 s1. call_arg carg sn pos named s = Some (seen, pos1, named1, s1) \<and>
    args_post s pos named pos1 named1 s1"
proof -
  obtain b s1 where nf: "named_follows s = (b, s1)" by fastforce
  note pk = named_follows_peeked [OF nf, THEN conjunct1]
  note pd = peekedD [OF pk]
  show ?thesis
  proof (cases b)
    case True
    let ?s2 = "parser_advance (parser_advance s1)"
    have st: "step s ?s2" using pd(1) advance2_step by (rule step_trans)
    have "pinv ?s2" "pleft ?s2 < n" using i l stepD [OF st] by auto
    from parsesD [OF c this] obtain x s3 where
      x: "carg ?s2 = Some (x, s3)" "node_post ?s2 x s3" by metis
    define s4 where "s4 = (if t_text (p_current s1) \<in> set (map fst named)
        then parser_error (p_current s1) (''duplicate named argument '' @ quoted (t_text (p_current s1)) @ '' in call'') s3
        else s3)"
    have s34: "step s3 s4" by (simp add: s4_def step_error)
    have le: "nerr s \<le> nerr ?s2" "nerr ?s2 \<le> nerr s3" "nerr s3 \<le> nerr s4"
      using stepD(2) [OF st] node_postD(4) [OF x(2)] stepD(2) [OF s34] by simp_all
    have "step s s4" using st node_postD(1) [OF x(2)] s34 by (meson step_trans)
    then have "args_post s pos named pos (named @ [(t_text (p_current s1), x)]) s4"
      using node_postD(2) [OF x(2)] le by (auto simp: args_post_def)
    moreover have "call_arg carg sn pos named s = Some (True, pos, named @ [(t_text (p_current s1), x)], s4)"
      unfolding call_arg_def Let_def using nf True x(1) by (simp add: s4_def)
    ultimately show ?thesis by blast
  next
    case False
    define s2 where "s2 = (if sn then error_here ''positional argument after named argument in call'' s1 else s1)"
    have st: "step s s2" using pd(1) by (auto simp: s2_def intro: step_trans [OF _ step_error])
    have "pinv s2" "pleft s2 < n" using i l stepD [OF st] by auto
    from parsesD [OF c this] obtain x s3 where
      x: "carg s2 = Some (x, s3)" "node_post s2 x s3" by metis
    have le: "nerr s \<le> nerr s2" "nerr s2 \<le> nerr s3"
      using stepD(2) [OF st] node_postD(4) [OF x(2)] by simp_all
    have "step s s3" using st node_postD(1) [OF x(2)] by (rule step_trans)
    then have "args_post s pos named (case x of None \<Rightarrow> pos | Some v \<Rightarrow> pos @ [Some v]) named s3"
      using node_postD(2) [OF x(2)] le by (auto simp: args_post_def split: option.split)
    moreover have "call_arg carg sn pos named s =
        Some (sn, (case x of None \<Rightarrow> pos | Some v \<Rightarrow> pos @ [Some v]), named, s3)"
      unfolding call_arg_def Let_def using nf False x(1) by (simp add: s2_def)
    ultimately show ?thesis by blast
  qed
qed

lemma call_args_post:
  assumes c: "parses n carg"
  shows "pinv s \<Longrightarrow> pleft s < n \<Longrightarrow> pleft s < f \<Longrightarrow>
    \<exists>pos1 named1 s1. call_args carg f sn pos named s = Some (pos1, named1, s1) \<and>
      args_post s pos named pos1 named1 s1"
proof (induction f arbitrary: sn pos named s)
  case (Suc f)
  from call_arg_post [OF c Suc.prems(1,2)] obtain seen pos1 named1 s1 where
    a: "call_arg carg sn pos named s = Some (seen, pos1, named1, s1)"
      "args_post s pos named pos1 named1 s1" by blast
  have st: "step s s1" using a(2) by (simp add: args_post_def)
  show ?case
  proof (cases "at_binop '','' (p_current s1)")
    case True
    let ?s2 = "parser_advance s1"
    have lt: "pleft ?s2 < pleft s1" using True by (simp add: advance_less)
    have st2: "step s1 ?s2" by (rule advance_step)
    have "pinv ?s2" "pleft ?s2 < n" "pleft ?s2 < f"
      using Suc.prems lt stepD [OF st] stepD(3) [OF st2] by auto
    from Suc.IH [OF this, of seen pos1 named1] obtain p2 n2 s2 where
      b: "call_args carg f seen pos1 named1 ?s2 = Some (p2, n2, s2)"
        "args_post ?s2 pos1 named1 p2 n2 s2" by blast
    have "args_post s1 pos1 named1 p2 n2 s2"
      using args_post_step [OF st2] b(2) by (rule args_post_trans)
    with a(2) have "args_post s pos named p2 n2 s2" by (rule args_post_trans)
    with True a(1) b(1) show ?thesis by simp
  next
    case False
    with a show ?thesis by auto
  qed
qed simp

lemma wf_named_sort:
  "wf_named named \<Longrightarrow> list_all wf_child (map snd (sort_named named))"
  by (simp add: list_all_iff sort_named_def)

lemma callsend_post:
  assumes c: "parses n carg" and i: "pinv s" and l: "pleft s < n" "pleft s < f"
  shows "\<exists>m s'. parseCallSend carg f sel r imp s = Some (m, s') \<and> step s s' \<and>
    n_children m \<noteq> [] \<and> (nerr s' = nerr s \<longrightarrow> wf_node r \<longrightarrow> wf_node m)"
proof -
  let ?s1 = "s\<lparr>p_stop := False\<rparr>"
  have i1: "pinv ?s1" "pleft ?s1 < n" "pleft ?s1 < f" using i l by simp_all
  obtain pos named s2 where a:
    "(if kind_of ?s1 \<noteq> T_RParen then call_args carg f False [] [] ?s1 else Some ([], [], ?s1)) =
       Some (pos, named, s2)" "args_post ?s1 [] [] pos named s2"
    using call_args_post [OF c i1, of False "[]" "[]"] args_post_step [OF step_refl, of ?s1 "[]" "[]"]
    by (cases "kind_of ?s1 \<noteq> T_RParen") force+
  define s3 where "s3 = expect T_RParen (''expected '' @ quoted '')'' @ '' to close call-form arguments'') s2"
  define s4 where "s4 = (if kind_of s3 = T_Semicolon
      then error_here (quoted '';'' @ '' cascades after a call-form send are not supported in v1'') s3 else s3)"
  define sorted where "sorted = sort_named named"
  define m where "m = set_int2 (int (length sorted)) (set_int (int (length pos))
      (set_strings (map fst sorted) (set_children (Some r # pos @ map snd sorted)
        (set_flag imp (set_text (t_text sel) (makeNode N_CallSend (t_line sel) (t_col sel)))))))"
  have r: "parseCallSend carg f sel r imp s = Some (m, s4\<lparr>p_stop := p_stop s\<rparr>)"
    unfolding parseCallSend_def Let_def a(1)
    by (simp add: m_def s4_def s3_def sorted_def)
  have st2: "step ?s1 s2" using a(2) by (simp add: args_post_def)
  have st3: "step s2 s3" unfolding s3_def by (rule consume_step)
  have st4: "step s3 s4" by (simp add: s4_def step_error)
  have st: "step s (s4\<lparr>p_stop := p_stop s\<rparr>)"
    using step_trans [OF step_trans [OF st2 st3] st4] by (rule step_nested)
  have "wf_node m" if "nerr s4 = nerr s" "wf_node r"
  proof -
    have "nerr s2 = nerr ?s1"
      using that(1) stepD(2) [OF st2] stepD(2) [OF st3] stepD(2) [OF st4] by simp
    then have "list_all wf_child pos" "wf_named named" using a(2) by (simp_all add: args_post_def)
    then show ?thesis using that(2) wf_named_sort [of named]
      by (subst wf_node_iff) (simp add: m_def arity_ok_def sorted_def sort_named_def)
  qed
  moreover have "n_children m \<noteq> []" by (simp add: m_def)
  ultimately show ?thesis using r st by simp
qed

section \<open>Primaries\<close>

lemma node_post_error:
  "nerr s < nerr s' \<Longrightarrow> step s s' \<Longrightarrow> node_post s None s'"
  by (simp add: node_post_def)

lemma node_post_leaf:
  "step s s' \<Longrightarrow> wf_node m \<Longrightarrow> \<not> isSendKind (n_kind m) \<Longrightarrow> node_post s (Some m) s'"
  by (simp add: node_post_def)

locale sub_parsers =
  fixes expr carg :: parse_fun and n :: nat
  assumes expr_ok: "parses n expr" and carg_ok: "parses n carg"
begin

lemma call_post:
  assumes i: "pinv s" and l: "pleft s < n" and w: "wf_node r"
  shows "\<exists>m s'. parseCallSend carg (Suc n) sel r imp s = Some (m, s') \<and> node_post s (Some m) s'"
  using callsend_post [OF carg_ok i l, of "Suc n" sel r imp] l w by (auto simp: node_post_def)

lemma primary_paren:
  assumes i: "pinv s" and l: "pleft s < Suc n" and k: "kind_of s = T_LParen"
  shows "\<exists>x s'. parsePrimary expr carg (Suc n) s = Some (x, s') \<and> node_post s x s' \<and> eats s s'"
proof -
  let ?s1 = "(parser_advance s)\<lparr>p_stop := False\<rparr>"
  have "pinv ?s1" "pleft ?s1 < n" using i l k advance_less [of s] stepD(3) [OF advance_step, of s] by auto
  from parsesD [OF expr_ok this] obtain x s2 where x: "expr ?s1 = Some (x, s2)" "node_post ?s1 x s2" by metis
  let ?s3 = "expect T_RParen (''expected '' @ quoted '')'') s2"
  have st: "step s2 ?s3" by (rule consume_step)
  have "node_post (parser_advance s) x (?s3\<lparr>p_stop := p_stop (parser_advance s)\<rparr>)"
    using node_post_then [OF x(2) st] by (rule node_post_nested)
  then have "node_post s x (?s3\<lparr>p_stop := p_stop s\<rparr>)"
    using node_post_after [OF advance_step] stepD(4) [OF advance_step] by metis
  moreover have "eats s ?s3"
    using eats_step [OF _ step_trans [OF node_postD(1) [OF x(2)] st], of s] by simp
  moreover have "parsePrimary expr carg (Suc n) s = Some (x, ?s3\<lparr>p_stop := p_stop s\<rparr>)"
    unfolding parsePrimary_def Let_def using k x(1) by (simp add: leaf_node_def)
  ultimately show ?thesis by auto
qed

lemma primary_brace:
  assumes i: "pinv s" and l: "pleft s < Suc n" and k: "kind_of s = T_LBrace"
  shows "\<exists>x s'. parsePrimary expr carg (Suc n) s = Some (x, s') \<and> node_post s x s' \<and> eats s s'"
proof -
  let ?s1 = "(parser_advance s)\<lparr>p_stop := False\<rparr>"
  let ?a = "makeNode N_DynArrayLit (t_line (p_current s)) (t_col (p_current s))"
  have i1: "pinv ?s1" and l1: "pleft ?s1 < n" "pleft ?s1 < Suc n"
    using i l k advance_less [of s] stepD(3) [OF advance_step, of s] by auto
  from items_post [OF expr_ok i1 l1] obtain a s2 where
    a: "parse_items expr T_RBrace (Suc n) ?a ?s1 = Some (a, s2)" "kids_post ?s1 ?a a s2" by blast
  note kd = kids_postD [OF a(2)]
  let ?s3 = "expect T_RBrace (''expected '' @ quoted ''}'' @ '' to close dynamic array'') s2"
  have st: "step s2 ?s3" by (rule consume_step)
  have "wf_node a" if "nerr s2 = nerr ?s1"
    using kd that by (subst wf_node_iff) (simp add: arity_ok_def)
  then have "node_post ?s1 (Some a) s2" using kd(1,2) by (simp add: node_post_def isSendKind_def)
  then have "node_post (parser_advance s) (Some a) (?s3\<lparr>p_stop := p_stop (parser_advance s)\<rparr>)"
    using node_post_then [OF _ st] node_post_nested by blast
  then have "node_post s (Some a) (?s3\<lparr>p_stop := p_stop s\<rparr>)"
    using node_post_after [OF advance_step] stepD(4) [OF advance_step] by metis
  moreover have "eats s ?s3"
    using eats_step [OF _ step_trans [OF kd(1) st], of s] by simp
  moreover have "parsePrimary expr carg (Suc n) s = Some (Some a, ?s3\<lparr>p_stop := p_stop s\<rparr>)"
    unfolding parsePrimary_def Let_def using k a(1) by (simp add: leaf_node_def)
  ultimately show ?thesis by auto
qed

lemma primary_name:
  assumes i: "pinv s" and l: "pleft s < Suc n" and k: "kind_of s = T_Identifier"
  shows "\<exists>x s'. parsePrimary expr carg (Suc n) s = Some (x, s') \<and> node_post s x s' \<and> eats s s'"
proof -
  let ?t = "p_current s"
  obtain call s1 where c: "(if reserved_name (t_text ?t) then (False, s) else callParenFollows ?t s) = (call, s1)"
    by fastforce
  have "peeked s s1" using c callParenFollows_peeked by (auto split: if_splits)
  note pd = peekedD [OF this]
  have k1: "kind_of s1 = T_Identifier" using pd(2) k by simp
  have lt: "pleft (parser_advance s1) < pleft s" using advance_less [of s1] k1 pd(5) by simp
  have st1: "step s (parser_advance s1)" using pd(1) advance_step by (rule step_trans)
  show ?thesis
  proof (cases call)
    case True
    let ?s2 = "parser_advance (parser_advance s1)"
    let ?r = "set_text ''self'' (makeNode N_Self (t_line ?t) (t_col ?t))"
    have st2: "step s ?s2" using st1 advance_step by (rule step_trans)
    have "pinv ?s2" "pleft ?s2 < n"
      using stepD(3) [OF st2] i lt l stepD(1) [OF advance_step, of "parser_advance s1"] by simp_all
    moreover have "wf_node ?r" by (rule wf_leaf_kind) simp_all
    ultimately obtain m s3 where m: "parseCallSend carg (Suc n) ?t ?r True ?s2 = Some (m, s3)"
      "node_post ?s2 (Some m) s3" using call_post by metis
    have "node_post s (Some m) s3" using st2 m(2) by (rule node_post_after)
    moreover have "eats s s3"
      using node_postD(3) [OF m(2)] lt advance_left [of "parser_advance s1"] by (simp add: eats_def)
    moreover have "parsePrimary expr carg (Suc n) s = Some (Some m, s3)"
      unfolding parsePrimary_def Let_def c using k True m(1) by (simp add: leaf_node_def)
    ultimately show ?thesis by blast
  next
    case False
    define kk where "kk = (if t_text ?t = ''self'' then N_Self else if t_text ?t = ''super'' then N_Super
       else if t_text ?t = ''thisContext'' then N_ThisContext else N_Identifier)"
    have "parsePrimary expr carg (Suc n) s = Some (Some (text_node kk ?t), parser_advance s1)"
      unfolding parsePrimary_def Let_def c using k False by (simp add: leaf_node_def kk_def)
    moreover have "node_post s (Some (text_node kk ?t)) (parser_advance s1)"
      using st1 by (rule node_post_leaf) (auto simp: kk_def isSendKind_def intro: wf_leaf_kind)
    moreover have "eats s (parser_advance s1)" using lt by (simp add: eats_def)
    ultimately show ?thesis by blast
  qed
qed

lemma primary_array:
  assumes i: "pinv s" and l: "pleft s < Suc n" and k: "kind_of s = T_HashLParen"
  shows "\<exists>x s'. parsePrimary expr carg (Suc n) s = Some (x, s') \<and> node_post s x s' \<and> eats s s'"
proof -
  have l1: "pleft (parser_advance s) < Suc n" using l advance_left [of s] by simp
  from parseLiteralArray_post [OF l1] obtain a s1 where
    a: "parseLiteralArray (Suc n) (t_line (p_current s)) (t_col (p_current s)) (parser_advance s) = Some (a, s1)"
      "step (parser_advance s) s1" "n_kind a = N_ArrayLit" "nerr s1 = nerr (parser_advance s) \<longrightarrow> wf_node a"
    by blast
  have "node_post (parser_advance s) (Some a) s1" using a by (simp add: node_post_def isSendKind_def)
  then have "node_post s (Some a) s1" by (rule node_post_after [OF advance_step])
  moreover have "eats s s1" using eats_step [OF eats_advance a(2)] .
  moreover have "parsePrimary expr carg (Suc n) s = Some (Some a, s1)"
    unfolding parsePrimary_def Let_def using k a(1) by (simp add: leaf_node_def)
  ultimately show ?thesis by blast
qed

lemma primary_post:
  assumes i: "pinv s" and l: "pleft s < Suc n"
  shows "\<exists>x s'. parsePrimary expr carg (Suc n) s = Some (x, s') \<and> node_post s x s' \<and> eats s s'"
proof (cases "leaf_node (p_current s)")
  case (Some m)
  with leaf_node_wf [OF Some] show ?thesis
    by (auto simp: parsePrimary_def intro: node_post_leaf)
next
  case None
  consider "kind_of s = T_Identifier" | "kind_of s = T_LParen" | (block) "kind_of s = T_LBracket"
    | "kind_of s = T_LBrace" | "kind_of s = T_HashLParen"
    | (bad) "kind_of s \<notin> {T_Identifier, T_LParen, T_LBracket, T_LBrace, T_HashLParen}" by blast
  then show ?thesis
  proof cases
    case block
    with None have "parsePrimary expr carg (Suc n) s = parseBlock expr (Suc n) s"
      by (simp add: parsePrimary_def Let_def)
    with parseBlock_post [OF expr_ok i l block] show ?thesis by simp
  next
    case bad
    let ?e = "error_here (''expected primary expression, got '' @ tokenKindName (kind_of s)) s"
    have "step s (parser_advance ?e)" by (rule step_trans [OF step_error advance_step])
    moreover have "nerr s < nerr (parser_advance ?e)" using stepD(2) [OF advance_step, of ?e] by simp
    moreover have "eats s (parser_advance ?e)" using advance_less [of ?e] by (simp add: eats_def)
    moreover have "parsePrimary expr carg (Suc n) s = Some (None, parser_advance ?e)"
      using None bad by (simp add: parsePrimary_def Let_def)
    ultimately show ?thesis by (auto intro: node_post_error)
  qed (use primary_name primary_paren primary_brace primary_array i l in blast)+
qed

end

section \<open>Unary and binary sends\<close>

text \<open>A loop that wraps the node it is given.\<close>

definition kid_ok :: "node option \<Rightarrow> bool" where
  "kid_ok x \<longleftrightarrow> (case x of None \<Rightarrow> True | Some m \<Rightarrow> isSendKind (n_kind m) \<longrightarrow> n_children m \<noteq> [])"

definition wraps :: "pstate \<Rightarrow> node option \<Rightarrow> node option \<Rightarrow> pstate \<Rightarrow> bool" where
  "wraps s x x' s' \<longleftrightarrow> step s s' \<and> (nerr s' = nerr s \<longrightarrow> wf_child x \<longrightarrow> wf_child x') \<and>
     (kid_ok x \<longrightarrow> kid_ok x')"

lemma wraps_refl [simp]: "wraps s x x s"
  by (simp add: wraps_def)

lemma wraps_step: "step s s' \<Longrightarrow> wraps s x x s'"
  by (simp add: wraps_def)

lemma wraps_trans:
  assumes "wraps s x y s1" "wraps s1 y z s2"
  shows "wraps s x z s2"
  using assms stepD(2) [of s s1] stepD(2) [of s1 s2] step_trans [of s s1 s2]
  by (auto simp: wraps_def)

lemma wraps_post:
  assumes "node_post s x s1" "wraps s1 x y s2"
  shows "node_post s y s2"
  using assms stepD(2) [of s s1] stepD(2) [of s1 s2] step_trans [of s s1 s2]
  by (auto simp: wraps_def node_post_def kid_ok_def)

lemma unary_wraps:
  "step s s' \<Longrightarrow> wraps s (Some r) (Some (add_child (Some r) (text_node N_UnarySend t))) s'"
  by (auto simp: wraps_def kid_ok_def wf_node_iff [of "add_child (Some r) (text_node N_UnarySend t)"]
        arity_ok_def)

lemma binary_node_sel [simp]:
  "n_kind (binary_node t) = N_BinarySend" "n_children (binary_node t) = []"
  "n_strings (binary_node t) = []" "n_int (binary_node t) = 0" "n_int2 (binary_node t) = 0"
  by (simp_all add: binary_node_def)

lemma binary_wf:
  assumes "wf_node l" "wf_child x"
  shows "wf_node (add_if x (add_child (Some l) (binary_node t)))"
  using assms by (subst wf_node_iff) (auto simp: arity_ok_def split: option.splits)

context sub_parsers
begin

lemma unary_loop_post:
  "pinv s \<Longrightarrow> pleft s < Suc n \<Longrightarrow> pleft s < f \<Longrightarrow> f \<le> Suc n \<Longrightarrow>
   \<exists>y s1. unary_loop carg f x s = Some (y, s1) \<and> wraps s x y s1"
proof (induction f arbitrary: x s)
  case (Suc f)
  show ?case
  proof (cases x)
    case None
    then show ?thesis by simp
  next
    case (Some r)
    show ?thesis
    proof (cases "kind_of s = T_Identifier \<and> \<not> atBlankLineBoundary s")
      case False
      with Some show ?thesis by auto
    next
      case True
      obtain decl s1 where d: "atDeclarationStart s = (decl, s1)" by fastforce
      note pd = peekedD [OF atDeclarationStart_peeked [OF d]]
      obtain call s2 where c: "callParenFollows (p_current s1) s1 = (call, s2)" by fastforce
      note pc = peekedD [OF callParenFollows_peeked [OF c]]
      have st: "step s s2" using pd(1) pc(1) by (rule step_trans)
      have k2: "kind_of s2 = T_Identifier" using True pd(2) pc(2) by simp
      let ?a = "parser_advance s2"
      have la: "pleft ?a < pleft s" using advance_less [of s2] k2 pd(5) pc(5) by simp
      have sa: "step s ?a" using st advance_step by (rule step_trans)
      consider "decl" | (call) "\<not> decl" "call" | (plain) "\<not> decl" "\<not> call" by blast
      then show ?thesis
      proof cases
        case 1
        with True Some d pd(1) show ?thesis by (auto intro: wraps_step)
      next
        case call
        let ?b = "parser_advance ?a"
        have sb: "step s ?b" using sa advance_step by (rule step_trans)
        have lb: "pleft ?b < pleft s" using la advance_left [of ?a] by simp
        have b: "pinv ?b" "pleft ?b < n" "pleft ?b < Suc n" using Suc.prems lb stepD(3) [OF sb] by auto
        from callsend_post [OF carg_ok b(1,2), of f "p_current s1" r False] lb Suc.prems obtain m s3 where
          m: "parseCallSend carg f (p_current s1) r False ?b = Some (m, s3)" "step ?b s3"
            "n_children m \<noteq> []" "nerr s3 = nerr ?b \<longrightarrow> wf_node r \<longrightarrow> wf_node m" by auto
        have "wraps ?b (Some r) (Some m) s3" using m by (auto simp: wraps_def kid_ok_def)
        then have w: "wraps s (Some r) (Some m) s3" by (rule wraps_trans [OF wraps_step [OF sb]])
        have "pinv s3" "pleft s3 < Suc n" "pleft s3 < f"
          using b lb stepD [OF m(2)] Suc.prems by auto
        from Suc.IH [OF this, of "Some m"] Suc.prems(4) obtain y s4 where
          "unary_loop carg f (Some m) s3 = Some (y, s4)" "wraps s3 (Some m) y s4" by auto
        with w True Some d c call m(1) show ?thesis by (auto intro: wraps_trans)
      next
        case plain
        let ?u = "add_child (Some r) (text_node N_UnarySend (p_current s1))"
        have "pinv ?a" "pleft ?a < Suc n" "pleft ?a < f"
          using Suc.prems la stepD(3) [OF sa] by auto
        from Suc.IH [OF this, of "Some ?u"] Suc.prems(4) obtain y s4 where
          "unary_loop carg f (Some ?u) ?a = Some (y, s4)" "wraps ?a (Some ?u) y s4" by auto
        with unary_wraps [OF sa, of r "p_current s1"] True Some d c plain
        show ?thesis by (auto intro: wraps_trans)
      qed
    qed
  qed
qed simp

lemma unary_parses: "parses (Suc n) (parseUnarySend expr carg (Suc n))"
proof (rule parsesI)
  fix s assume i: "pinv s" and l: "pleft s < Suc n"
  from primary_post [OF i l] obtain x s1 where
    x: "parsePrimary expr carg (Suc n) s = Some (x, s1)" "node_post s x s1" "eats s s1" by blast
  have "pinv s1" "pleft s1 < Suc n" using i l node_postD [OF x(2)] by auto
  from unary_loop_post [OF this, of "Suc n" x] \<open>pleft s1 < Suc n\<close> obtain y s2 where
    y: "unary_loop carg (Suc n) x s1 = Some (y, s2)" "wraps s1 x y s2" by auto
  have "node_post s y s2" using x(2) y(2) by (rule wraps_post)
  moreover have "eats s s2" using x(3) y(2) eats_step by (auto simp: wraps_def)
  ultimately show "\<exists>x s'. parseUnarySend expr carg (Suc n) s = Some (x, s') \<and> node_post s x s' \<and> eats s s'"
    using x(1) y(1) by (simp add: parseUnarySend_def del: unary_loop.simps)
qed

lemma binary_loop_post:
  assumes u: "parses m unary"
  shows "pinv s \<Longrightarrow> pleft s < m \<Longrightarrow> pleft s < f \<Longrightarrow>
   \<exists>y s1. binary_loop unary stops f x s = Some (y, s1) \<and> wraps s x y s1"
proof (induction f arbitrary: x s)
  case (Suc f)
  show ?case
  proof (cases x)
    case None
    then show ?thesis by simp
  next
    case (Some l)
    show ?thesis
    proof (cases "isBinaryOpToken (kind_of s) \<and> \<not> atBlankLineBoundary s \<and> \<not> stops (p_current s)")
      case False
      with Some show ?thesis by auto
    next
      case True
      let ?a = "parser_advance s"
      have la: "pleft ?a < pleft s" using True by (intro advance_less) (auto simp: isBinaryOpToken_def)
      have sa: "step s ?a" by (rule advance_step)
      have "pinv ?a" "pleft ?a < m" using Suc.prems la stepD(3) [OF sa] by auto
      from parsesD [OF u this] obtain r s1 where r: "unary ?a = Some (r, s1)" "node_post ?a r s1" by metis
      let ?b = "add_if r (add_child (Some l) (binary_node (p_current s)))"
      note rd = node_postD [OF r(2)]
      have "wf_node ?b" if "nerr s1 = nerr s" "wf_node l"
        using binary_wf [OF that(2)] rd(2,4) that(1) stepD(2) [OF sa] by simp
      then have w: "wraps s (Some l) (Some ?b) s1"
        using step_trans [OF sa rd(1)] by (auto simp: wraps_def kid_ok_def)
      have "pinv s1" "pleft s1 < m" "pleft s1 < f"
        using Suc.prems la stepD(3) [OF sa] rd by auto
      from Suc.IH [OF this, of "Some ?b"] obtain y s2 where
        "binary_loop unary stops f (Some ?b) s1 = Some (y, s2)" "wraps s1 (Some ?b) y s2" by auto
      with w True Some r(1) show ?thesis by (auto intro: wraps_trans)
    qed
  qed
qed simp

lemma binary_with_parses:
  "parses (Suc n) (\<lambda>s. do { (left, s1) \<leftarrow> parseUnarySend expr carg (Suc n) s;
          binary_loop (parseUnarySend expr carg (Suc n)) stops (Suc n) left s1 })"
proof (rule parsesI)
  fix s assume i: "pinv s" and l: "pleft s < Suc n"
  from parsesD [OF unary_parses i l] obtain x s1 where
    x: "parseUnarySend expr carg (Suc n) s = Some (x, s1)" "node_post s x s1" "eats s s1" by metis
  have "pinv s1" "pleft s1 < Suc n" using i l node_postD [OF x(2)] by auto
  from binary_loop_post [OF unary_parses this this(2), of stops x] obtain y s2 where
    y: "binary_loop (parseUnarySend expr carg (Suc n)) stops (Suc n) x s1 = Some (y, s2)"
      "wraps s1 x y s2" by auto
  have "node_post s y s2" using x(2) y(2) by (rule wraps_post)
  moreover have "eats s s2" using x(3) y(2) eats_step by (auto simp: wraps_def)
  ultimately show "\<exists>x s'. (do { (left, s1) \<leftarrow> parseUnarySend expr carg (Suc n) s;
          binary_loop (parseUnarySend expr carg (Suc n)) stops (Suc n) left s1 }) = Some (x, s') \<and>
      node_post s x s' \<and> eats s s'"
    using x(1) y(1) by (simp del: binary_loop.simps)
qed

lemma binary_parses: "parses (Suc n) (parseBinarySend expr carg (Suc n))"
  unfolding parseBinarySend_def [abs_def] by (rule binary_with_parses)

lemma callarg_parses: "parses (Suc n) (parseCallArgExpr expr carg (Suc n))"
  unfolding parseCallArgExpr_def [abs_def] by (rule binary_with_parses)

end

section \<open>Keyword sends\<close>

definition keyword_post :: "pstate \<Rightarrow> string \<Rightarrow> node \<Rightarrow> node \<Rightarrow> pstate \<Rightarrow> bool" where
  "keyword_post s sel m m' s' \<longleftrightarrow> step s s' \<and> n_kind m' = n_kind m \<and>
     (\<exists>cs. n_children m' = n_children m @ cs \<and>
        (nerr s' = nerr s \<longrightarrow> list_all wf_child cs \<and> colons (n_text m') = colons sel + length cs))"

lemma keyword_parts_post:
  assumes b: "parses m binary"
  shows "pinv s \<Longrightarrow> pleft s < m \<Longrightarrow> pleft s < f \<Longrightarrow>
    \<exists>nd' s1. keyword_parts binary bounded f sel nd s = Some (nd', s1) \<and> keyword_post s sel nd nd' s1 \<and>
      (kind_of s = T_Keyword \<and> \<not> (bounded \<and> atBlankLineBoundary s) \<longrightarrow> eats s s1)"
proof (induction f arbitrary: sel nd s)
  case (Suc f)
  show ?case
  proof (cases "kind_of s = T_Keyword \<and> \<not> (bounded \<and> atBlankLineBoundary s)")
    case False
    then show ?thesis by (auto simp: keyword_post_def)
  next
    case True
    let ?a = "parser_advance s"
    have la: "pleft ?a < pleft s" using True by (simp add: advance_less)
    have sa: "step s ?a" by (rule advance_step)
    have "pinv ?a" "pleft ?a < m" using Suc.prems la stepD(3) [OF sa] by auto
    from parsesD [OF b this] obtain r s1 where r: "binary ?a = Some (r, s1)" "node_post ?a r s1" by metis
    note rd = node_postD [OF r(2)]
    let ?sel = "sel @ t_text (p_current s)"
    have col: "colons ?sel = colons sel + 1"
      using True Suc.prems(1) by (simp add: pinv_def tok_ok_def)
    have "pinv s1" "pleft s1 < m" "pleft s1 < f" using Suc.prems la stepD(3) [OF sa] rd by auto
    from Suc.IH [OF this, of ?sel "add_if r nd"] obtain nd' s2 where
      y: "keyword_parts binary bounded f ?sel (add_if r nd) s1 = Some (nd', s2)"
        "keyword_post s1 ?sel (add_if r nd) nd' s2" by blast
    from y(2) obtain cs where cs: "step s1 s2" "n_kind nd' = n_kind nd"
      "n_children nd' = n_children (add_if r nd) @ cs"
      "nerr s2 = nerr s1 \<longrightarrow> list_all wf_child cs \<and> colons (n_text nd') = colons ?sel + length cs"
      by (auto simp: keyword_post_def)
    have st: "step s s2" using sa rd(1) cs(1) by (meson step_trans)
    have le: "nerr s \<le> nerr ?a" "nerr ?a \<le> nerr s1" "nerr s1 \<le> nerr s2"
      using stepD(2) [OF sa] rd(4) stepD(2) [OF cs(1)] by simp_all
    have "keyword_post s sel nd nd' s2"
    proof (cases r)
      case None
      then have "nerr s2 \<noteq> nerr s" using rd(2) le by auto
      with st cs None show ?thesis by (auto simp: keyword_post_def)
    next
      case (Some q)
      have "n_children nd' = n_children nd @ (Some q # cs)" using cs(3) Some by simp
      moreover have "list_all wf_child (Some q # cs) \<and>
          colons (n_text nd') = colons sel + length (Some q # cs)" if "nerr s2 = nerr s"
      proof -
        have "nerr s2 = nerr s1" "nerr s1 = nerr ?a" using that le by simp_all
        with rd(2) cs(4) col Some show ?thesis by simp
      qed
      ultimately show ?thesis using st cs(2) unfolding keyword_post_def by blast
    qed
    moreover have "eats s s2" using stepD(1) [OF cs(1)] rd(3) la by (simp add: eats_def)
    moreover have "keyword_parts binary bounded (Suc f) sel nd s = Some (nd', s2)"
      using True r(1) y(1) by simp
    ultimately show ?thesis by blast
  qed
qed simp

context sub_parsers
begin

lemma keyword_parses: "parses (Suc n) (parseKeywordSend expr carg (Suc n))"
proof (rule parsesI)
  fix s assume i: "pinv s" and l: "pleft s < Suc n"
  from parsesD [OF binary_parses i l] obtain x s1 where
    x: "parseBinarySend expr carg (Suc n) s = Some (x, s1)" "node_post s x s1" "eats s s1" by metis
  show "\<exists>x s'. parseKeywordSend expr carg (Suc n) s = Some (x, s') \<and> node_post s x s' \<and> eats s s'"
  proof (cases "x \<noteq> None \<and> kind_of s1 = T_Keyword \<and> \<not> atBlankLineBoundary s1")
    case False
    with x show ?thesis by (auto simp: parseKeywordSend_def)
  next
    case True
    let ?m = "add_child x (makeNode N_KeywordSend (t_line (p_current s1)) (t_col (p_current s1)))"
    have i1: "pinv s1" "pleft s1 < Suc n" using i l node_postD [OF x(2)] by auto
    from keyword_parts_post [OF binary_parses i1 i1(2), of True "[]" ?m] obtain k s2 where
      k: "keyword_parts (parseBinarySend expr carg (Suc n)) True (Suc n) [] ?m s1 = Some (k, s2)"
        "keyword_post s1 [] ?m k s2" by blast
    from k(2) obtain cs where cs: "step s1 s2" "n_kind k = N_KeywordSend" "n_children k = x # cs"
      "nerr s2 = nerr s1 \<longrightarrow> list_all wf_child cs \<and> colons (n_text k) = length cs"
      by (auto simp: keyword_post_def)
    have "wf_node k" if "nerr s2 = nerr s1" "wf_child x"
      using that cs by (subst wf_node_iff) (simp add: arity_ok_def)
    then have "wraps s1 x (Some k) s2" using cs by (auto simp: wraps_def kid_ok_def)
    then have "node_post s (Some k) s2" by (rule wraps_post [OF x(2)])
    moreover have "eats s s2" using x(3) cs(1) by (rule eats_step)
    moreover have "parseKeywordSend expr carg (Suc n) s = Some (Some k, s2)"
      using x(1) True k(1) by (simp add: parseKeywordSend_def)
    ultimately show ?thesis by blast
  qed
qed

end

section \<open>Cascades and expressions\<close>

lemma unary_chain_post:
  "unary_chain m s = (m', s') \<Longrightarrow> step s s' \<and>
     (wf_message m \<and> n_kind m = N_UnarySend \<longrightarrow> wf_message m' \<and> n_kind m' = N_UnarySend)"
proof (induction m s rule: unary_chain.induct)
  case (1 m s)
  show ?case
  proof (cases "kind_of s = T_Identifier \<and> \<not> atBlankLineBoundary s")
    case True
    let ?m = "add_child (Some m) (text_node N_UnarySend (p_current s))"
    have "unary_chain ?m (parser_advance s) = (m', s')"
      using 1(2) True by (subst (asm) unary_chain.simps) simp
    with 1(1) True have "step (parser_advance s) s'"
      "wf_message ?m \<and> n_kind ?m = N_UnarySend \<longrightarrow> wf_message m' \<and> n_kind m' = N_UnarySend" by blast+
    moreover have "wf_message ?m" if "wf_message m \<and> n_kind m = N_UnarySend"
      using that by (subst wf_message_iff) (simp add: message_ok_def)
    ultimately show ?thesis by (auto intro: step_trans [OF advance_step])
  next
    case False
    with 1(2) show ?thesis by (subst (asm) unary_chain.simps) auto
  qed
qed

definition message_post :: "pstate \<Rightarrow> node option \<Rightarrow> pstate \<Rightarrow> bool" where
  "message_post s x s' \<longleftrightarrow> step s s' \<and>
     (nerr s' = nerr s \<longrightarrow> (case x of None \<Rightarrow> False | Some m \<Rightarrow> wf_message m))"

context sub_parsers
begin

lemma cascade_message_post:
  assumes i: "pinv s" and l: "pleft s < Suc n"
  shows "\<exists>x s'. cascade_message expr carg (Suc n) s = Some (x, s') \<and> message_post s x s'"
proof -
  let ?t = "p_current s"
  have sa: "step s (parser_advance s)" by (rule advance_step)
  consider (ident) "kind_of s = T_Identifier" | (op) "kind_of s = T_BinaryOp \<or> kind_of s = T_Pipe"
    | (key) "kind_of s = T_Keyword"
    | (bad) "kind_of s \<notin> {T_Identifier, T_BinaryOp, T_Pipe, T_Keyword}" by blast
  then show ?thesis
  proof cases
    case ident
    obtain m s1 where m: "unary_chain (text_node N_UnarySend ?t) (parser_advance s) = (m, s1)" by fastforce
    have "wf_message (text_node N_UnarySend ?t)"
      by (subst wf_message_iff) (simp add: message_ok_def)
    with unary_chain_post [OF m] have "message_post s (Some m) s1"
      using step_trans [OF sa] by (simp add: message_post_def)
    with ident m show ?thesis by (simp add: cascade_message_def Let_def)
  next
    case op
    have i1: "pinv (parser_advance s)" "pleft (parser_advance s) < Suc n" using i l stepD [OF sa] by auto
    from parsesD [OF unary_parses i1] obtain r s1 where
      r: "parseUnarySend expr carg (Suc n) (parser_advance s) = Some (r, s1)"
        "node_post (parser_advance s) r s1" by metis
    note rd = node_postD [OF r(2)]
    have "wf_message (add_if r (binary_node ?t))" if "wf_child r"
      using that by (subst wf_message_iff) (auto simp: message_ok_def split: option.splits)
    then have "message_post s (Some (add_if r (binary_node ?t))) s1"
      using rd(2,4) stepD(2) [OF sa] step_trans [OF sa rd(1)] by (simp add: message_post_def)
    with op r(1) show ?thesis by (auto simp: cascade_message_def Let_def)
  next
    case key
    let ?m = "makeNode N_KeywordSend (t_line ?t) (t_col ?t)"
    from keyword_parts_post [OF binary_parses i l l, of False "[]" ?m] obtain k s1 where
      k: "keyword_parts (parseBinarySend expr carg (Suc n)) False (Suc n) [] ?m s = Some (k, s1)"
        "keyword_post s [] ?m k s1" by blast
    then have "message_post s (Some k) s1"
      by (auto simp: keyword_post_def message_post_def wf_message_iff [of k] message_ok_def)
    with key k(1) show ?thesis by (simp add: cascade_message_def Let_def del: keyword_parts.simps)
  next
    case bad
    then show ?thesis
      by (auto simp: cascade_message_def Let_def message_post_def step_error)
  qed
qed

text \<open>A cascade under construction: its receiver and at least one message.\<close>

lemma cascade_loop_post:
  "pinv s \<Longrightarrow> pleft s < Suc n \<Longrightarrow> pleft s < g \<Longrightarrow> n_kind casc = N_Cascade \<Longrightarrow> length (n_children casc) \<ge> 2 \<Longrightarrow>
   \<exists>c s1. cascade_loop expr carg (Suc n) g casc s = Some (c, s1) \<and> step s s1 \<and> n_kind c = N_Cascade \<and>
     (nerr s1 = nerr s \<longrightarrow> wf_node casc \<longrightarrow> wf_node c)"
proof (induction g arbitrary: casc s)
  case (Suc g)
  show ?case
  proof (cases "\<not> atBlankLineBoundary s \<and> kind_of s = T_Semicolon")
    case False
    with Suc.prems(4) show ?thesis by auto
  next
    case True
    let ?a = "parser_advance s"
    have la: "pleft ?a < pleft s" using True by (simp add: advance_less)
    have sa: "step s ?a" by (rule advance_step)
    have ia: "pinv ?a" "pleft ?a < Suc n" using Suc.prems la stepD(3) [OF sa] by auto
    from cascade_message_post [OF ia] obtain x s1 where
      x: "cascade_message expr carg (Suc n) ?a = Some (x, s1)" "message_post ?a x s1" by blast
    have s1: "step ?a s1" using x(2) by (simp add: message_post_def)
    have st: "step s s1" using sa s1 by (rule step_trans)
    show ?thesis
    proof (cases x)
      case None
      then have "nerr s1 \<noteq> nerr s" using x(2) stepD(2) [OF sa] stepD(2) [OF s1] by (auto simp: message_post_def)
      with None True x(1) st Suc.prems(4) show ?thesis by auto
    next
      case (Some m)
      let ?c = "add_child (Some m) casc"
      have wc: "wf_node ?c" if "nerr s1 = nerr s" "wf_node casc"
      proof -
        have "wf_message m"
          using x(2) Some that(1) stepD(2) [OF sa] stepD(2) [OF s1] by (simp add: message_post_def)
        with that(2) Suc.prems(4,5) show ?thesis
          by (simp add: wf_node_iff [of ?c] wf_node_iff [of casc] arity_ok_def)
      qed
      have "pinv s1" "pleft s1 < Suc n" "pleft s1 < g" "n_kind ?c = N_Cascade" "length (n_children ?c) \<ge> 2"
        using Suc.prems la ia stepD [OF s1] by auto
      from Suc.IH [OF this] obtain c s2 where
        c: "cascade_loop expr carg (Suc n) g ?c s1 = Some (c, s2)" "step s1 s2" "n_kind c = N_Cascade"
          "nerr s2 = nerr s1 \<longrightarrow> wf_node ?c \<longrightarrow> wf_node c" by blast
      have "step s s2" using st c(2) by (rule step_trans)
      moreover have "wf_node c" if "nerr s2 = nerr s" "wf_node casc"
        using that wc c(4) stepD(2) [OF st] stepD(2) [OF c(2)] by simp
      ultimately show ?thesis using True x(1) Some c(1,3) by auto
    qed
  qed
qed simp

lemma expression_parses: "parses (Suc n) (parseExpression expr carg (Suc n))"
proof (rule parsesI)
  fix s assume i: "pinv s" and l: "pleft s < Suc n"
  obtain assign s1 where a: "assignFollows s = (assign, s1)" by fastforce
  note ap = assignFollows_peeked [OF a]
  note pd = peekedD [OF ap [THEN conjunct1]]
  show "\<exists>x s'. parseExpression expr carg (Suc n) s = Some (x, s') \<and> node_post s x s' \<and> eats s s'"
  proof (cases assign)
    case True
    then have k: "kind_of s1 = T_Identifier" using ap pd(2) by simp
    let ?nm = "p_current s1" and ?s2 = "parser_advance (parser_advance s1)"
    define s3 where "s3 = (if pseudo_variable (t_text ?nm)
        then parser_error ?nm (''cannot assign to the pseudo-variable '' @ quoted (t_text ?nm)) ?s2 else ?s2)"
    have st: "step s s3"
      using step_trans [OF pd(1) advance2_step] by (auto simp: s3_def intro: step_trans step_error)
    have lt: "pleft s3 < pleft s"
      using advance_less [of s1] advance_left [of "parser_advance s1"] k pd(5) by (simp add: s3_def)
    have "pinv s3" "pleft s3 < n" using i l lt stepD(3) [OF st] by auto
    from parsesD [OF expr_ok this] obtain x s4 where x: "expr s3 = Some (x, s4)" "node_post s3 x s4" by metis
    let ?m = "add_if x (text_node N_Assignment ?nm)"
    have "node_post s (Some ?m) s4"
      using node_post_after [OF st x(2)]
    proof (rule node_post_replace)
      assume "wf_child x"
      then show "wf_node ?m" by (subst wf_node_iff) (auto simp: arity_ok_def split: option.splits)
    qed (simp add: isSendKind_def)
    moreover have "eats s s4" using node_postD(3) [OF x(2)] lt by (simp add: eats_def)
    moreover have "parseExpression expr carg (Suc n) s = Some (Some ?m, s4)"
      unfolding parseExpression_def Let_def a using True x(1) by (simp add: s3_def)
    ultimately show ?thesis by blast
  next
    case False
    have i1: "pinv s1" "pleft s1 < Suc n" using i l stepD(3) [OF pd(1)] pd(5) by auto
    from parsesD [OF keyword_parses i1] obtain x s2 where
      x: "parseKeywordSend expr carg (Suc n) s1 = Some (x, s2)" "node_post s1 x s2" "eats s1 s2" by metis
    have np: "node_post s x s2" using pd(1) x(2) by (rule node_post_after)
    have et: "eats s s2" using x(3) pd(2,5) by (auto simp: eats_def)
    show ?thesis
    proof (cases "x = None \<or> kind_of s2 \<noteq> T_Semicolon \<or> atBlankLineBoundary s2 \<or> \<not> isSendKind (n_kind (the x))")
      case True
      then have "parseExpression expr carg (Suc n) s = Some (x, s2)"
        unfolding parseExpression_def Let_def a using False x(1) by (cases x) auto
      with np et show ?thesis by blast
    next
      case casc: False
      then obtain r where r: "x = Some r" "isSendKind (n_kind r)" by auto
      let ?c = "set_children [hd (n_children r), Some (set_children (tl (n_children r)) r)]
          (makeNode N_Cascade (n_line r) (n_col r))"
      have i2: "pinv s2" "pleft s2 < Suc n" using i1 node_postD [OF x(2)] by auto
      from cascade_loop_post [OF i2 i2(2), of ?c] obtain c s3 where
        c: "cascade_loop expr carg (Suc n) (Suc n) ?c s2 = Some (c, s3)" "step s2 s3" "n_kind c = N_Cascade"
          "nerr s3 = nerr s2 \<longrightarrow> wf_node ?c \<longrightarrow> wf_node c" by auto
      have wc: "wf_node ?c" if "wf_node r"
        using strip_receiver [OF that] r(2)
        by (simp add: wf_node_iff [of ?c] arity_ok_def isSendKind_def)
      have "node_post s (Some c) s3"
        using node_post_then [OF np c(2)]
      proof (rule node_post_replace)
        assume "nerr s3 = nerr s" "wf_child x"
        then show "wf_node c"
          using c(4) wc r(1) stepD(2) [OF c(2)] node_postD(4) [OF np] by simp
      qed (simp add: c(3) isSendKind_def)
      moreover have "eats s s3" using et c(2) by (rule eats_step)
      moreover have "parseExpression expr carg (Suc n) s = Some (Some c, s3)"
        unfolding parseExpression_def Let_def a using False casc x(1) r c(1)
        by (simp del: cascade_loop.simps)
      ultimately show ?thesis by blast
    qed
  qed
qed

end

section \<open>Tying the knot\<close>

lemma sub_parsers_0: "sub_parsers (parse_expr 0) (parse_carg 0) 0"
  by unfold_locales (simp_all add: parses_def)

lemma sub_parsers_Suc:
  assumes "sub_parsers (parse_expr n) (parse_carg n) n"
  shows "sub_parsers (parse_expr (Suc n)) (parse_carg (Suc n)) (Suc n)"
proof -
  have e: "parse_expr (Suc n) = parseExpression (parse_expr n) (parse_carg n) (Suc n)"
    and c: "parse_carg (Suc n) = parseCallArgExpr (parse_expr n) (parse_carg n) (Suc n)"
    by (rule ext, simp)+
  show ?thesis unfolding e c
    using sub_parsers.expression_parses [OF assms] sub_parsers.callarg_parses [OF assms]
    by (rule sub_parsers.intro)
qed

interpretation parser: sub_parsers "parse_expr n" "parse_carg n" n for n
proof (induction n)
  case 0
  show ?case by (rule sub_parsers_0)
next
  case (Suc n)
  then show ?case by (rule sub_parsers_Suc)
qed

end
