(* ===== verification/ParserModule.thy ===== *)
theory ParserModule
  imports ParserTotal
begin

text \<open>
  The top of the grammar: class and method declarations, temporaries and the
  module.  Parsing a source always answers a module, and one without errors is
  well formed: no null child anywhere, every send with the arguments its
  selector asks for.
\<close>

section \<open>Declarations\<close>

lemma parses_mono: "parses n p \<Longrightarrow> m \<le> n \<Longrightarrow> parses m p"
  by (auto simp: parses_def)

lemma full_binary_parses:
  "parses (Suc m) (parseBinarySend (parse_expr (Suc m)) (parse_carg (Suc m)) (Suc m))"
proof -
  have "sub_parsers (parse_expr (Suc m)) (parse_carg (Suc m)) m"
    using parser.expr_ok [of "Suc m"] parser.carg_ok [of "Suc m"]
    by (intro sub_parsers.intro) (auto intro: parses_mono)
  then show ?thesis by (rule sub_parsers.binary_parses)
qed

lemma parseStringList_step: "parseStringList out s = (out', s') \<Longrightarrow> step s s'"
  by (auto simp: parseStringList_def step_error split: if_splits)

lemma class_clauses_post:
  assumes b: "parses n binary"
  shows "pinv s \<Longrightarrow> pleft s < n \<Longrightarrow> pleft s < f \<Longrightarrow>
    \<exists>ivs' cvs' cd' s1. class_clauses binary f ivs cvs cd s = Some (ivs', cvs', cd', s1) \<and> kids_post s cd cd' s1"
proof (induction f arbitrary: ivs cvs cd s)
  case (Suc f)
  let ?x = "t_text (p_current s)" and ?a = "parser_advance s"
  have sa: "step s ?a" by (rule advance_step)
  have go: "\<exists>ivs' cvs' cd' s1. class_clauses binary f i c cd2 s2 = Some (ivs', cvs', cd', s1) \<and> kids_post s cd cd' s1"
    if "kind_of s = T_Keyword" "step ?a s2" "kids_post s cd cd2 s2" for i c cd2 s2
  proof -
    have "pleft ?a < pleft s" using that(1) by (simp add: advance_less)
    then have "pinv s2" "pleft s2 < n" "pleft s2 < f"
      using Suc.prems stepD(3) [OF sa] stepD [OF that(2)] by auto
    from Suc.IH [OF this, of i c cd2] that(3) show ?thesis by (auto intro: kids_post_trans)
  qed
  consider (stop) "kind_of s \<noteq> T_Keyword"
    | (ivs) "kind_of s = T_Keyword" "?x = ''instanceVariableNames:''"
    | (uses) "kind_of s = T_Keyword" "?x = ''uses:''"
    | (cvs) "kind_of s = T_Keyword" "?x = ''classVariableNames:''"
    | (ign) "kind_of s = T_Keyword" "ignored_clause ?x" "?x \<noteq> ''instanceVariableNames:''"
        "?x \<noteq> ''uses:''" "?x \<noteq> ''classVariableNames:''"
    | (bad) "kind_of s = T_Keyword" "\<not> ignored_clause ?x" "?x \<noteq> ''instanceVariableNames:''"
        "?x \<noteq> ''uses:''" "?x \<noteq> ''classVariableNames:''"
    by blast
  then show ?case
  proof cases
    case stop
    then show ?thesis by simp
  next
    case ivs
    obtain o1 s1 where p: "parseStringList ivs ?a = (o1, s1)" by fastforce
    have st: "step ?a s1" using p by (rule parseStringList_step)
    have "kids_post s cd cd s1" using step_trans [OF sa st] by (rule kids_post_step)
    from go [OF ivs(1) st this] p ivs show ?thesis by simp
  next
    case cvs
    obtain o1 s1 where p: "parseStringList cvs ?a = (o1, s1)" by fastforce
    have st: "step ?a s1" using p by (rule parseStringList_step)
    have "kids_post s cd cd s1" using step_trans [OF sa st] by (rule kids_post_step)
    from go [OF cvs(1) st this] p cvs show ?thesis by simp
  next
    case uses
    have "pinv ?a" "pleft ?a < n" using Suc.prems stepD [OF sa] by auto
    from parsesD [OF b this] obtain x s1 where x: "binary ?a = Some (x, s1)" "node_post ?a x s1" by metis
    note xd = node_postD [OF x(2)]
    define s2 where "s2 = (if x = None then error_here ''expected an expression after uses:'' s1 else s1)"
    have s12: "step s1 s2" by (simp add: s2_def step_error)
    have st: "step ?a s2" using xd(1) s12 by (rule step_trans)
    have "wf_child x" if "nerr s2 = nerr s"
      using that xd(2,4) stepD(2) [OF sa] stepD(2) [OF s12] by simp
    then have "kids_post s cd (add_if x cd) s2" by (rule kids_post_add [OF step_trans [OF sa st]])
    from go [OF uses(1) st this] x(1) uses show ?thesis by (simp add: s2_def)
  next
    case ign
    define s2 where "s2 = (if kind_of ?a = T_String \<or> kind_of ?a = T_Symbol then parser_advance ?a
        else error_here (''expected a string after '' @ t_text (p_prev ?a)) ?a)"
    have st: "step ?a s2" by (simp add: s2_def advance_step step_error)
    have "kids_post s cd cd s2" using step_trans [OF sa st] by (rule kids_post_step)
    from go [OF ign(1) st this] ign show ?thesis by (simp add: s2_def Let_def)
  next
    case bad
    then show ?thesis by (simp add: kids_post_step step_error)
  qed
qed simp

lemma classdecl_post:
  assumes b: "parses n binary" and i: "pinv s" and l: "pleft s < n" "pleft s < f"
  shows "\<exists>m s'. parseClassDecl binary f ci s = Some (m, s') \<and> step s s' \<and> (nerr s' = nerr s \<longrightarrow> wf_node m)"
proof -
  let ?cd = "set_strings [t_text ci] (makeNode N_ClassDecl (t_line ci) (t_col ci))"
  let ?cd1 = "set_text (t_text (p_current s)) ?cd"
  show ?thesis
  proof (cases "kind_of s = T_Symbol")
    case False
    let ?e = "error_here ''expected #ClassName after subclass:'' s"
    have "step s (synchronize ?e)" by (rule step_trans [OF step_error synchronize_step])
    moreover have "nerr s < nerr (synchronize ?e)" using stepD(2) [OF synchronize_step, of ?e] by simp
    ultimately show ?thesis using False by (auto simp: parseClassDecl_def)
  next
    case True
    have sa: "step s (parser_advance s)" by (rule advance_step)
    have "pinv (parser_advance s)" "pleft (parser_advance s) < n" "pleft (parser_advance s) < f"
      using i l stepD [OF sa] by auto
    from class_clauses_post [OF b this, of "[]" "[]" ?cd1] obtain ivs cvs cd s1 where
      c: "class_clauses binary f [] [] ?cd1 (parser_advance s) = Some (ivs, cvs, cd, s1)"
        "kids_post (parser_advance s) ?cd1 cd s1" by blast
    note kd = kids_postD [OF c(2)]
    let ?m = "set_int (int (length ivs)) (set_strings (n_strings cd @ ivs @ cvs) cd)"
    obtain q s2 where q: "parser_match T_Period s1 = (q, s2)" by fastforce
    have st: "step s1 s2" using q by (rule match_step)
    have "step s s2" using sa kd(1) st by (meson step_trans)
    moreover have "wf_node ?m" if "nerr s2 = nerr s"
    proof -
      have "nerr s1 = nerr (parser_advance s)"
        using that stepD(2) [OF sa] stepD(2) [OF kd(1)] stepD(2) [OF st] by simp
      with kd(2-7) show ?thesis by (subst wf_node_iff) (simp add: arity_ok_def)
    qed
    ultimately show ?thesis using True c(1) q by (auto simp: parseClassDecl_def)
  qed
qed

section \<open>Method bodies\<close>

definition body_post :: "pstate \<Rightarrow> node \<Rightarrow> node \<Rightarrow> pstate \<Rightarrow> bool" where
  "body_post s n n' s' \<longleftrightarrow> moves s s' \<and> kids_rel s n n' s'"

lemma body_post_trans:
  "body_post s n n1 s1 \<Longrightarrow> body_post s1 n1 n2 s2 \<Longrightarrow> body_post s n n2 s2"
  using kids_rel_trans [of s n n1 s1 n2 s2] movesD(2) [of s s1] movesD(2) [of s1 s2]
  by (auto simp: body_post_def intro: moves_trans)

lemma method_body_post:
  assumes e: "parses n expr"
  shows "pinv s \<Longrightarrow> pleft s < n \<Longrightarrow> pleft s < f \<Longrightarrow>
    \<exists>md' s1. method_body expr ci f md s = Some (md', s1) \<and> body_post s md md' s1"
proof (induction f arbitrary: md s)
  case (Suc f)
  have err: "moves s (error_here m s)" for m by (rule step_moves [OF step_error])
  have chk: "moves s (checkBlankLineContinuation md s)"
    by (simp add: checkBlankLineContinuation_def Let_def err)
  consider (eof) "kind_of s = T_EndOfFile" | (blank) "kind_of s \<noteq> T_EndOfFile" "t_blank (p_current s)"
    | (col) "kind_of s \<noteq> T_EndOfFile" "\<not> t_blank (p_current s)"
        "t_col (p_current s) = 1 \<and> t_line (p_current s) > t_line ci \<and> n_children md \<noteq> []"
    | (stmt) "kind_of s \<noteq> T_EndOfFile" "\<not> t_blank (p_current s)"
        "\<not> (t_col (p_current s) = 1 \<and> t_line (p_current s) > t_line ci \<and> n_children md \<noteq> [])"
    by blast
  then show ?case
  proof cases
    case eof
    then show ?thesis by (simp add: body_post_def)
  next
    case blank
    with chk show ?thesis by (simp add: body_post_def)
  next
    case col
    with err show ?thesis by (auto simp: body_post_def)
  next
    case stmt
    obtain stp s1 where nf: "nextFormStarts (s\<lparr>p_header := t_line ci\<rparr>) = (stp, s1)" by fastforce
    note pd = peekedD [OF nextFormStarts_peeked [OF nf]]
    have m1: "moves s s1" using step_moves [OF pd(1)] by simp
    show ?thesis
    proof (cases stp)
      case True
      with stmt nf m1 show ?thesis by (auto simp: body_post_def)
    next
      case False
      have "pinv s1" "pleft s1 < n" using Suc.prems movesD [OF m1] by auto
      from parsesD [OF statement_parses [OF e] this] obtain x s2 where
        x: "parseStatement expr s1 = Some (x, s2)" "node_post s1 x s2" "eats s1 s2" by metis
      note xd = node_postD [OF x(2)]
      have lt: "pleft s2 < pleft s" using x(3) stmt(1) pd(2,5) by (simp add: eats_def)
      obtain m s3 where m: "parser_match T_Period s2 = (m, s3)" by fastforce
      have st: "step s2 s3" using m by (rule match_step)
      have le: "nerr s \<le> nerr s1" "nerr s1 \<le> nerr s2" "nerr s2 \<le> nerr s3"
        using movesD(2) [OF m1] xd(4) stepD(2) [OF st] by simp_all
      have "moves s s3" using m1 step_moves [OF xd(1)] step_moves [OF st] by (meson moves_trans)
      moreover have "kids_rel s md (add_if x md) s3" using xd(2) le by (intro kids_rel_add) simp
      ultimately have b: "body_post s md (add_if x md) s3" by (simp add: body_post_def)
      define ret where "ret = (case x of None \<Rightarrow> False | Some r \<Rightarrow> n_kind r = N_Return)"
      have unf: "method_body expr ci (Suc f) md s =
          (if \<not> m then Some (add_if x md, s3)
           else if ret \<and> t_line (p_current s3) = t_line (p_prev s3) then Some (add_if x md, s3)
           else method_body expr ci f (add_if x md) s3)"
        using stmt nf False x(1) m by (auto simp: ret_def)
      have "pinv s3" "pleft s3 < n" "pleft s3 < f"
        using Suc.prems movesD [OF \<open>moves s s3\<close>] lt stepD(1) [OF st] by auto
      from Suc.IH [OF this, of "add_if x md"] b show ?thesis
        unfolding unf by (auto intro: body_post_trans)
    qed
  qed
qed simp

lemma call_param_post:
  assumes c: "parses n carg" and i: "pinv s" and l: "pleft s < n"
  shows "\<exists>seen pos1 named1 s1. call_param carg sn pos named s = Some (seen, pos1, named1, s1) \<and> step s s1 \<and>
    (nerr s1 = nerr s \<longrightarrow> wf_named named \<longrightarrow> wf_named named1)"
proof -
  let ?p = "p_current s" and ?a = "parser_advance s"
  have sa: "step s ?a" by (rule advance_step)
  show ?thesis
  proof (cases "at_binop ''='' (p_current ?a)")
    case True
    let ?b = "parser_advance ?a"
    have sb: "step s ?b" by (rule advance2_step)
    have "pinv ?b" "pleft ?b < n" using i l stepD [OF sb] by auto
    from parsesD [OF c this] obtain x s3 where x: "carg ?b = Some (x, s3)" "node_post ?b x s3" by metis
    note xd = node_postD [OF x(2)]
    define s4 where "s4 = (if t_text ?p \<in> set (map fst named)
        then parser_error ?p (''duplicate named parameter '' @ quoted (t_text ?p)) s3 else s3)"
    have s34: "step s3 s4" by (simp add: s4_def step_error)
    have "step s s4" using sb xd(1) s34 by (meson step_trans)
    moreover have "wf_named (named @ [(t_text ?p, x)])" if "nerr s4 = nerr s" "wf_named named"
      using that xd(2,4) stepD(2) [OF sb] stepD(2) [OF s34] by simp
    moreover have "call_param carg sn pos named s = Some (True, pos, named @ [(t_text ?p, x)], s4)"
      using True x(1) by (simp add: call_param_def Let_def s4_def)
    ultimately show ?thesis by blast
  next
    case False
    define s3 where "s3 = (if sn then parser_error ?p (''positional parameter after named parameter in '' @
        ''call-form method declaration'') ?a else ?a)"
    define s4 where "s4 = (if t_text ?p \<in> set pos
        then parser_error ?p (''duplicate parameter name '' @ quoted (t_text ?p)) s3 else s3)"
    have "step ?a s3" "step s3 s4" by (simp_all add: s3_def s4_def step_error)
    with sa have "step s s4" by (meson step_trans)
    moreover have "call_param carg sn pos named s = Some (sn, pos @ [t_text ?p], named, s4)"
      unfolding call_param_def Let_def s4_def s3_def using False by (simp only: if_False)
    ultimately show ?thesis by blast
  qed
qed

lemma call_params_post:
  assumes c: "parses n carg"
  shows "pinv s \<Longrightarrow> pleft s < n \<Longrightarrow> pleft s < f \<Longrightarrow>
    \<exists>pos1 named1 s1. call_params carg f sn pos named s = Some (pos1, named1, s1) \<and> step s s1 \<and>
    (nerr s1 = nerr s \<longrightarrow> wf_named named \<longrightarrow> wf_named named1)"
proof (induction f arbitrary: sn pos named s)
  case (Suc f)
  show ?case
  proof (cases "kind_of s = T_Identifier")
    case False
    then show ?thesis by (auto simp: step_error)
  next
    case True
    from call_param_post [OF c Suc.prems(1,2)] obtain seen p1 n1 s1 where
      a: "call_param carg sn pos named s = Some (seen, p1, n1, s1)" "step s s1"
        "nerr s1 = nerr s \<longrightarrow> wf_named named \<longrightarrow> wf_named n1" by blast
    show ?thesis
    proof (cases "at_binop '','' (p_current s1)")
      case False
      with True a show ?thesis by auto
    next
      case comma: True
      let ?b = "parser_advance s1"
      have sb: "step s1 ?b" by (rule advance_step)
      have "pleft ?b < pleft s1" using comma by (simp add: advance_less)
      then have "pinv ?b" "pleft ?b < n" "pleft ?b < f"
        using Suc.prems stepD [OF a(2)] stepD(3) [OF sb] by auto
      from Suc.IH [OF this, of seen p1 n1] obtain p2 n2 s2 where
        b: "call_params carg f seen p1 n1 ?b = Some (p2, n2, s2)" "step ?b s2"
          "nerr s2 = nerr ?b \<longrightarrow> wf_named n1 \<longrightarrow> wf_named n2" by blast
      have "step s s2" using a(2) sb b(2) by (meson step_trans)
      moreover have "wf_named n2" if "nerr s2 = nerr s" "wf_named named"
        using that a(3) b(3) stepD(2) [OF a(2)] stepD(2) [OF sb] stepD(2) [OF b(2)] by simp
      ultimately show ?thesis using True comma a(1) b(1) by auto
    qed
  qed
qed simp

lemma call_decl_post:
  assumes e: "parses n expr" and c: "parses n carg" and i: "pinv s" and l: "pleft s < n" "pleft s < f"
  shows "\<exists>m s'. parseCallMethodDecl expr carg f ci cls nm s = Some (m, s') \<and> moves s s' \<and>
    (nerr s' = nerr s \<longrightarrow> wf_node m)"
proof -
  obtain pos named s1 where a:
    "(if kind_of s \<noteq> T_RParen then call_params carg f False [] [] s else Some ([], [], s)) = Some (pos, named, s1)"
    "step s s1" "nerr s1 = nerr s \<longrightarrow> wf_named named"
    using call_params_post [OF c i l, of False "[]" "[]"]
    by (cases "kind_of s \<noteq> T_RParen") force+
  define s2 where "s2 = expect T_RParen (''expected '' @ quoted '')'' @ '' to close call-form parameter list'') s1"
  define sorted where "sorted = sort_named named"
  define hd0 where "hd0 = t_text nm # pos @ map fst sorted"
  obtain names s3 where nmz: "read_locals ''method locals'' hd0 s2 = (names, s3)" by fastforce
  define md1 where "md1 = set_strings names (set_children (map snd sorted)
      (set_int2 (int (length sorted)) (set_int (int (length pos))
        (set_flag cls (set_text (t_text ci) (makeNode N_CallMethodDecl (t_line ci) (t_col ci)))))))"
  have s12: "step s1 s2" unfolding s2_def by (rule consume_step)
  note rl = read_locals_step [OF nmz]
  have st: "step s s3" using a(2) s12 rl by (meson step_trans)
  have "pinv s3" "pleft s3 < n" "pleft s3 < f" using i l stepD [OF st] by auto
  from method_body_post [OF e this, of ci md1] obtain m s4 where
    m: "method_body expr ci f md1 s3 = Some (m, s4)" "body_post s3 md1 m s4" by blast
  have mv: "moves s3 s4" and kr: "kids_rel s3 md1 m s4" using m(2) by (simp_all add: body_post_def)
  note kd = kids_relD [OF kr]
  have "parseCallMethodDecl expr carg f ci cls nm s = Some (m, s4\<lparr>p_header := 0\<rparr>)"
    unfolding parseCallMethodDecl_def Let_def a(1)
    using nmz m(1) by (simp add: s2_def sorted_def hd0_def md1_def)
  moreover have "moves s (s4\<lparr>p_header := 0\<rparr>)" using step_moves [OF st] mv by (simp, meson moves_trans)
  moreover have "wf_node m" if "nerr s4 = nerr s"
  proof -
    have "nerr s1 = nerr s" "nerr s4 = nerr s3"
      using that stepD(2) [OF a(2)] stepD(2) [OF s12] stepD(2) [of s2 s3] rl movesD(2) [OF mv] by auto
    then have "list_all wf_child (n_children m)"
      using kd(6) a(3) wf_named_sort [of named] by (simp add: md1_def sorted_def)
    moreover have "length hd0 \<le> length names" using rl prefix_length_le by blast
    moreover have "length sorted \<le> length (n_children m)"
      using prefix_length_le [OF kd(5)] by (simp add: md1_def)
    ultimately show ?thesis using kd(1-4)
      by (subst wf_node_iff) (simp add: md1_def arity_ok_def hd0_def)
  qed
  ultimately show ?thesis by simp
qed

lemma method_decl_post:
  assumes e: "parses n expr" and c: "parses n carg" and i: "pinv s" and l: "pleft s < n" "pleft s < f"
  shows "\<exists>m s'. parseMethodDecl expr carg f ci cls s = Some (m, s') \<and> moves s s' \<and>
    (nerr s' = nerr s \<longrightarrow> wf_node m)"
proof -
  obtain call s1 where cf: "(if kind_of s = T_Identifier then callParenFollows (p_current s) s else (False, s)) = (call, s1)"
    by fastforce
  have "peeked s s1" using cf callParenFollows_peeked by (auto split: if_splits)
  note pd = peekedD [OF this]
  show ?thesis
  proof (cases call)
    case True
    let ?b = "parser_advance (parser_advance s1)"
    have st: "step s ?b" using pd(1) advance2_step by (rule step_trans)
    have "pinv ?b" "pleft ?b < n" "pleft ?b < f" using i l stepD [OF st] by auto
    from call_decl_post [OF e c this, of ci cls "p_current s1"] obtain m s2 where
      "parseCallMethodDecl expr carg f ci cls (p_current s1) ?b = Some (m, s2)" "moves ?b s2"
      "nerr s2 = nerr ?b \<longrightarrow> wf_node m" by blast
    with True cf st show ?thesis
      using moves_trans [OF step_moves [OF st]] stepD(2) [OF st] movesD(2) [of ?b s2]
      by (auto simp: parseMethodDecl_def)
  next
    case False
    obtain sel args s2 where ms: "method_selector s1 = (sel, args, s2)" by (metis prod_cases3)
    obtain names s3 where nmz: "read_locals ''method locals'' (sel # args) s2 = (names, s3)" by fastforce
    define md1 where "md1 = set_strings names (set_int (int (length args)) (set_flag cls
        (set_text (t_text ci) (makeNode N_MethodDecl (t_line ci) (t_col ci)))))"
    note rl = read_locals_step [OF nmz]
    have st: "step s s3" using pd(1) method_selector_step [OF ms] rl by (meson step_trans)
    have "pinv s3" "pleft s3 < n" "pleft s3 < f" using i l stepD [OF st] by auto
    from method_body_post [OF e this, of ci md1] obtain m s4 where
      m: "method_body expr ci f md1 s3 = Some (m, s4)" "body_post s3 md1 m s4" by blast
    have mv: "moves s3 s4" and kr: "kids_rel s3 md1 m s4" using m(2) by (simp_all add: body_post_def)
    note kd = kids_relD [OF kr]
    have "parseMethodDecl expr carg f ci cls s = Some (m, s4\<lparr>p_header := 0\<rparr>)"
      unfolding parseMethodDecl_def Let_def cf using False ms nmz m(1) by (simp add: md1_def)
    moreover have "moves s (s4\<lparr>p_header := 0\<rparr>)" using step_moves [OF st] mv by (simp, meson moves_trans)
    moreover have "wf_node m" if "nerr s4 = nerr s"
    proof -
      have "nerr s4 = nerr s3" using that stepD(2) [OF st] movesD(2) [OF mv] by simp
      then have "list_all wf_child (n_children m)" using kd(6) by (simp add: md1_def)
      moreover have "length (sel # args) \<le> length names" using rl prefix_length_le by blast
      ultimately show ?thesis using kd(1-4) by (subst wf_node_iff) (simp add: md1_def arity_ok_def)
    qed
    ultimately show ?thesis by simp
  qed
qed

section \<open>Top-level forms\<close>

definition form_post :: "pstate \<Rightarrow> node option \<Rightarrow> pstate \<Rightarrow> bool" where
  "form_post s x s' \<longleftrightarrow> moves s s' \<and> (nerr s' = nerr s \<longrightarrow> wf_child x) \<and> eats s s'"

lemma form_postI:
  assumes "moves s s1" "moves s1 s2" "nerr s2 = nerr s1 \<Longrightarrow> wf_child x" "pleft s1 < pleft s"
  shows "form_post s x s2"
  using assms movesD [OF assms(1)] movesD [OF assms(2)]
  by (auto simp: form_post_def eats_def intro: moves_trans)

lemma top_statement_post:
  assumes e: "parses n expr" and i: "pinv s" and l: "pleft s < n"
  shows "\<exists>x s'. parseTopStatement expr s = Some (x, s') \<and> form_post s x s'"
proof -
  from parsesD [OF statement_parses [OF e] i l] obtain x s1 where
    x: "parseStatement expr s = Some (x, s1)" "node_post s x s1" "eats s s1" by metis
  note xd = node_postD [OF x(2)]
  obtain m s2 where m: "parser_match T_Period s1 = (m, s2)" by fastforce
  define s3 where "s3 = (if \<not> m \<and> kind_of s2 \<noteq> T_EndOfFile
      then error_here (''expected '' @ quoted ''.'' @ '' after top-level expression'') s2 else s2)"
  have "step s2 s3" by (simp add: s3_def step_error)
  with match_step [OF m] have st: "step s1 s3" by (rule step_trans)
  have "form_post s x s3"
    using xd(2,4) step_moves [OF step_trans [OF xd(1) st]] eats_step [OF x(3) st] stepD(2) [OF st]
    by (simp add: form_post_def)
  moreover have "parseTopStatement expr s = Some (x, s3)"
    using x(1) m by (simp add: parseTopStatement_def s3_def)
  ultimately show ?thesis by blast
qed

lemma top_form_post:
  assumes e: "parses n expr" and c: "parses n carg" and b: "parses n (parseBinarySend expr carg f)"
    and i: "pinv s" and l: "pleft s < n" "pleft s < f"
  shows "\<exists>x s'. parseTopForm expr carg f s = Some (x, s') \<and> form_post s x s'"
proof (cases "kind_of s = T_Identifier")
  case False
  then have "parseTopForm expr carg f s = parseTopStatement expr s" by (simp add: parseTopForm_def)
  with top_statement_post [OF e i l(1)] show ?thesis by simp
next
  case True
  let ?ci = "p_current s"
  obtain af s1 where a: "parser_peek s = (af, s1)" by fastforce
  note pd1 = peekedD [OF peek_peeked [OF a]]
  obtain cls s2 where cl: "classSideFollows af s1 = (cls, s2)" by fastforce
  have "peeked s1 s2" using cl by (rule classSideFollows_peeked)
  from peekedD [OF peeked_trans [OF peek_peeked [OF a] this]] have
    pd2: "step s s2" "p_current s2 = p_current s" "nerr s2 = nerr s" "pleft s2 \<le> pleft s" by simp_all
  have two: "step s (parser_advance (parser_advance t))" "pleft (parser_advance (parser_advance t)) < pleft s"
    if "step s t" "p_current t = p_current s" "pleft t \<le> pleft s" for t
    using step_trans [OF that(1) advance2_step] advance_less [of t] advance_left [of "parser_advance t"] that True
    by simp_all
  consider (meth) "t_kind af = T_GtGt" | (cls) "t_kind af \<noteq> T_GtGt" "cls"
    | (sub) "t_kind af \<noteq> T_GtGt" "\<not> cls" "t_kind af = T_Keyword \<and> t_text af = ''subclass:''"
    | (stmt) "t_kind af \<noteq> T_GtGt" "\<not> cls" "\<not> (t_kind af = T_Keyword \<and> t_text af = ''subclass:'')"
    by blast
  then show ?thesis
  proof cases
    case meth
    note t = two [OF pd1(1,2,5)]
    have "pinv (parser_advance (parser_advance s1))" "pleft (parser_advance (parser_advance s1)) < n"
      "pleft (parser_advance (parser_advance s1)) < f"
      using i l t(2) stepD(3) [OF t(1)] by auto
    from method_decl_post [OF e c this, of ?ci False] obtain m s3 where
      m: "parseMethodDecl expr carg f ?ci False (parser_advance (parser_advance s1)) = Some (m, s3)"
        "moves (parser_advance (parser_advance s1)) s3"
        "nerr s3 = nerr (parser_advance (parser_advance s1)) \<longrightarrow> wf_node m" by blast
    have "form_post s (Some m) s3" using step_moves [OF t(1)] m(2) _ t(2) by (rule form_postI) (use m(3) in simp)
    with True a meth m(1) show ?thesis by (auto simp: parseTopForm_def)
  next
    case cls
    note t = two [OF pd2(1,2,4)]
    let ?s3 = "parser_advance (parser_advance s2)"
    show ?thesis
    proof (cases "kind_of ?s3 = T_GtGt")
      case gt: True
      let ?s4 = "parser_advance ?s3"
      have st4: "step s ?s4" using t(1) advance_step by (rule step_trans)
      have lt4: "pleft ?s4 < pleft s" using t(2) advance_left [of ?s3] by simp
      have "pinv ?s4" "pleft ?s4 < n" "pleft ?s4 < f" using i l lt4 stepD(3) [OF st4] by auto
      from method_decl_post [OF e c this, of ?ci True] obtain m s5 where
        m: "parseMethodDecl expr carg f ?ci True ?s4 = Some (m, s5)" "moves ?s4 s5"
          "nerr s5 = nerr ?s4 \<longrightarrow> wf_node m" by blast
      have "form_post s (Some m) s5" using step_moves [OF st4] m(2) _ lt4 by (rule form_postI) (use m(3) in simp)
      moreover have "parseTopForm expr carg f s = Some (Some m, s5)"
        unfolding parseTopForm_def a using cl cls True gt m(1) by (simp add: Let_def)
      ultimately show ?thesis by blast
    next
      case False
      define s5 where "s5 = synchronize (error_here (''expected '' @ quoted ''>>'' @ '' after '' @ quoted ''class'') ?s3)"
      have st: "step ?s3 s5" "nerr ?s3 < nerr s5"
        using step_trans [OF step_error synchronize_step] stepD(2) [OF synchronize_step]
        by (auto simp: s5_def) (metis Suc_le_lessD nerr_simps(1))
      have "form_post s None s5"
        using step_moves [OF t(1)] step_moves [OF st(1)] _ t(2) by (rule form_postI) (use st(2) in simp)
      moreover have "parseTopForm expr carg f s = Some (None, s5)"
        unfolding parseTopForm_def a using cl cls True False by (simp add: Let_def s5_def)
      ultimately show ?thesis by blast
    qed
  next
    case sub
    note t = two [OF pd2(1,2,4)]
    let ?s3 = "parser_advance (parser_advance s2)"
    have "pinv ?s3" "pleft ?s3 < n" "pleft ?s3 < f" using i l t(2) stepD(3) [OF t(1)] by auto
    from classdecl_post [OF b this, of ?ci] obtain m s4 where
      m: "parseClassDecl (parseBinarySend expr carg f) f ?ci ?s3 = Some (m, s4)" "step ?s3 s4"
        "nerr s4 = nerr ?s3 \<longrightarrow> wf_node m" by blast
    have "form_post s (Some m) s4"
      using step_moves [OF t(1)] step_moves [OF m(2)] _ t(2) by (rule form_postI) (use m(3) in simp)
    moreover have "parseTopForm expr carg f s = Some (Some m, s4)"
      unfolding parseTopForm_def a using cl sub True m(1) by (simp add: Let_def)
    ultimately show ?thesis by blast
  next
    case stmt
    have "pinv s2" "pleft s2 < n" using i l stepD(3) [OF pd2(1)] pd2(4) by auto
    from top_statement_post [OF e this] obtain x s3 where
      x: "parseTopStatement expr s2 = Some (x, s3)" "form_post s2 x s3" by blast
    have "form_post s x s3"
      using x(2) step_moves [OF pd2(1)] pd2(2-4) True
      by (auto simp: form_post_def eats_def intro: moves_trans)
    moreover have "parseTopForm expr carg f s = Some (x, s3)"
      unfolding parseTopForm_def a using cl stmt True x(1) by (auto simp: Let_def)
    ultimately show ?thesis by blast
  qed
qed

section \<open>The module\<close>

lemma top_temporaries_post:
  "top_temporaries out s = (out', s') \<Longrightarrow> step s s' \<and> (\<exists>cs. out' = out @ cs \<and> list_all wf_child cs)"
proof (induction out s rule: top_temporaries.induct)
  case (1 out s)
  let ?t = "p_current s"
  show ?case
  proof (cases "kind_of s = T_Identifier")
    case True
    let ?nil = "makeNode N_NilLit (t_line ?t) (t_col ?t)"
    let ?n = "add_child (Some ?nil) (text_node N_Assignment ?t)"
    have "top_temporaries (out @ [Some ?n]) (parser_advance s) = (out', s')"
      using 1(2) True by (subst (asm) top_temporaries.simps) (simp add: Let_def)
    with 1(1) [OF refl True] obtain cs where
      "step (parser_advance s) s'" "out' = (out @ [Some ?n]) @ cs" "list_all wf_child cs" by blast
    moreover have "wf_node ?nil" by (rule wf_leaf_kind) simp_all
    then have "wf_node ?n" by (subst wf_node_iff) (simp add: arity_ok_def)
    ultimately show ?thesis by (auto intro: step_trans [OF advance_step])
  next
    case False
    with 1(2) show ?thesis by (subst (asm) top_temporaries.simps) (auto simp: Let_def)
  qed
qed

lemma top_temps_post:
  assumes "parseTopTemporaries md s = (md', s')" "kind_of s = T_Pipe"
  shows "body_post s md md' s' \<and> pleft s' < pleft s"
proof -
  obtain tops s1 where t: "top_temporaries (n_children md) (parser_advance s) = (tops, s1)" by fastforce
  from top_temporaries_post [OF t] obtain cs where
    c: "step (parser_advance s) s1" "tops = n_children md @ cs" "list_all wf_child cs" by blast
  have r: "md' = set_children tops md" "step s1 s'"
    using assms(1) t by (auto simp: parseTopTemporaries_def intro: consume_step)
  have "step s s'" using c(1) r(2) by (meson advance_step step_trans)
  moreover have "pleft s' < pleft s"
    using assms(2) advance_less [of s] stepD(1) [OF c(1)] stepD(1) [OF r(2)] by simp
  moreover have "kids_rel s md md' s'"
    using c(2,3) by (auto simp: kids_rel_def r(1))
  ultimately show ?thesis by (simp add: body_post_def step_moves)
qed

lemma module_loop_post:
  assumes e: "parses n expr" and c: "parses n carg" and b: "parses n (parseBinarySend expr carg f)"
  shows "pinv s \<Longrightarrow> pleft s < n \<Longrightarrow> pleft s < f \<Longrightarrow> pleft s < g \<Longrightarrow>
    \<exists>md' s1. module_loop expr carg f g md s = Some (md', s1) \<and> body_post s md md' s1"
proof (induction g arbitrary: md s)
  case (Suc g)
  have cont: "\<exists>md' s1'. module_loop expr carg f g md1 s1 = Some (md', s1') \<and> body_post s md md' s1'"
    if "body_post s md md1 s1" "pleft s1 < pleft s" for md1 s1
  proof -
    have "pinv s1" using that(1) Suc.prems(1) by (auto simp: body_post_def dest: movesD(3))
    moreover have "pleft s1 < n" "pleft s1 < f" "pleft s1 < g" using that(2) Suc.prems by simp_all
    ultimately show ?thesis using Suc.IH [of s1 md1] that(1) by (auto intro: body_post_trans)
  qed
  consider (eof) "kind_of s = T_EndOfFile" | (tmp) "kind_of s = T_Pipe"
    | (form) "kind_of s \<noteq> T_EndOfFile" "kind_of s \<noteq> T_Pipe" by blast
  then show ?case
  proof cases
    case eof
    then show ?thesis by (simp add: body_post_def)
  next
    case tmp
    obtain md1 s1 where t: "parseTopTemporaries md s = (md1, s1)" by fastforce
    from cont [of md1 s1] top_temps_post [OF t tmp] tmp t show ?thesis by simp
  next
    case form
    from top_form_post [OF e c b Suc.prems(1-3)] obtain x s1 where
      x: "parseTopForm expr carg f s = Some (x, s1)" "form_post s x s1" by blast
    have lt: "pleft s1 < pleft s" using x(2) form(1) by (simp add: form_post_def eats_def)
    have mv: "moves s s1" using x(2) by (simp add: form_post_def)
    show ?thesis
    proof (cases x)
      case None
      have "moves s (synchronize s1)" using mv step_moves [OF synchronize_step] by (rule moves_trans)
      then have "body_post s md md (synchronize s1)" by (simp add: body_post_def)
      moreover have "pleft (synchronize s1) < pleft s"
        using lt stepD(1) [OF synchronize_step, of s1] by simp
      ultimately show ?thesis using cont [of md "synchronize s1"] None form x(1) by simp
    next
      case (Some m)
      have "kids_rel s md (add_if (Some m) md) s1"
        using x(2) Some by (intro kids_rel_add) (simp add: form_post_def)
      then have "body_post s md (add_child (Some m) md) s1"
        using mv by (simp add: body_post_def add_if_def)
      from cont [OF this lt] Some form x(1) show ?thesis by simp
    qed
  qed
qed simp

lemma parser_init_ok:
  "pinv (parser_init src)" "pleft (parser_init src) \<le> length src"
proof -
  let ?s = "\<lparr>p_lexer = lexer_init src, p_current = mk_token T_EndOfFile [] 1 1,
       p_prev = mk_token T_EndOfFile [] 1 1, p_errors = [], p_stop = True, p_header = 0\<rparr>"
  have st: "step ?s (parser_init src)" unfolding parser_init_def by (rule advance_step)
  have "pinv ?s" by (simp add: pinv_def lexer_init_def)
  with stepD(3) [OF st] show "pinv (parser_init src)" by simp
  show "pleft (parser_init src) \<le> length src"
    using stepD(1) [OF st] lexer_left_init [of src] by (simp add: pleft_def)
qed

lemma parse_source_post:
  "\<exists>md errs. parse_source src = Some (md, errs) \<and> n_kind md = N_Module \<and> (errs = [] \<longrightarrow> wf_node md)"
proof -
  let ?n = "Suc (length src)" and ?s = "parser_init src" and ?m = "makeNode N_Module 1 1"
  have l: "pleft ?s < Suc ?n" using parser_init_ok(2) [of src] by simp
  from module_loop_post [OF parser.expr_ok parser.carg_ok full_binary_parses parser_init_ok(1) l l l, of ?m]
  obtain md s1 where r: "module_loop (parse_expr (Suc ?n)) (parse_carg (Suc ?n)) (Suc ?n) (Suc ?n) ?m ?s = Some (md, s1)"
    "body_post ?s ?m md s1" by blast
  have mv: "moves ?s s1" and kr: "kids_rel ?s ?m md s1" using r(2) by (simp_all add: body_post_def)
  note kd = kids_relD [OF kr]
  have "wf_node md" if "p_errors s1 = []"
  proof -
    have "nerr s1 = nerr ?s" using that movesD(2) [OF mv] by (simp add: nerr_def)
    with kd(6) have "list_all wf_child (n_children md)" by simp
    with kd(1) show ?thesis by (subst wf_node_iff) (simp add: arity_ok_def)
  qed
  moreover have "parse_source src = Some (md, p_errors s1)"
    using r(1) by (simp add: parse_source_def parseModule_def del: module_loop.simps)
  ultimately show ?thesis using kd(1) by simp
qed

text \<open>
  C2. Parsing always ends with a module: whatever the source text, the parser
  consumes it and answers a module node and a list of errors (the recursion of
  the grammar and every loop of it end).
\<close>

theorem parse_total:
  "\<exists>md errs. parse_source src = Some (md, errs) \<and> n_kind md = N_Module"
  using parse_source_post [of src] by blast

lemma sample_parses: "parse_source ''a at: b+c'' = Some (fst (the (parse_source ''a at: b+c'')), [])"
proof -
  have "map_option snd (parse_source ''a at: b+c'') = Some []" by code_simp
  then show ?thesis by auto
qed

text \<open>
  C3. A source without errors has a well-formed tree: no child of any node is
  null, every keyword send has one argument for each colon of its selector,
  every binary send two operands, every cascade a receiver and messages, and
  the counts that methods, blocks, call forms and class declarations carry fit
  their name lists.
\<close>

theorem parse_well_formed:
  assumes "parse_source src = Some (md, [])"
  shows "wf_node md"
  using parse_source_post [of src] assms by auto

lemma parse_well_formed_witness: "wf_node (fst (the (parse_source ''a at: b+c'')))"
  by (rule parse_well_formed [OF sample_parses])

text \<open>
  A call-form method with a default value is cut before its first statement
  when that statement is not indented, while one without defaults is not: the
  test that a statement was already read counts the default expressions, which
  are children of the node too.
\<close>

lemma default_cuts_unindented_body:
  "map_option snd (parse_source (''F>>b(x)'' @ [NL] @ ''^x'')) = Some [] \<and>
   map_option (\<lambda>r. length (snd r)) (parse_source (''F>>b(x=1)'' @ [NL] @ ''^x'')) = Some 1"
  by code_simp

end
