(* ===== verification/Bytecode.thy ===== *)
theory Bytecode
  imports Prelude Token
begin

text \<open>
  src/runtime/Opcodes.h and src/runtime/BytecodeModule.{h,cpp}: the opcodes, a
  module's code, constants and metadata, and the operations the compiler calls
  to build one.  Code is a list of bytes, two per word; an operand above 255
  has its high bytes in EXTEND words in front of the opcode word.  An exception
  of the code is \<open>None\<close>, and so is an access to a vector past its end, which
  C++ leaves undefined.
\<close>

section \<open>Opcodes\<close>

datatype op =
    PUSH_CONST | PUSH_LOCAL | STORE_LOCAL | DUP | POP | PUSH_SELF
  | PUSH_NIL | PUSH_TRUE | PUSH_FALSE
  | SEND_UNARY | SEND_BINARY | SEND_KEYWORD | SEND_SUPER
  | JUMP | JUMP_IF_TRUE | JUMP_IF_FALSE | RETURN | RETURN_TOP
  | PUSH_BLOCK | PUSH_CAPTURED | STORE_CAPTURED
  | PUSH_GLOBAL | STORE_GLOBAL | PUSH_INSTVAR | STORE_INSTVAR
  | MAKE_CAPTURED | MAKE_ARRAY | JUMP_BACK
  | BIN_INT_ADD | BIN_INT_SUB | BIN_INT_LE | BIN_INT_LT | BIN_INT_GE | BIN_INT_GT | BIN_INT_EQ
  | ASSERT_BOOL_OR_DNU | SEND_CALL | DEFINE_CAPTURED | STORE_CLASSVAR | PUSH_OWN_INSTVAR
  | IVAR_GROUP | IVAR_GROUP_END | EXTEND

fun op_byte :: "op \<Rightarrow> 8 word" where
  "op_byte PUSH_CONST = 1" | "op_byte PUSH_LOCAL = 2" | "op_byte STORE_LOCAL = 3"
| "op_byte DUP = 4" | "op_byte POP = 5" | "op_byte PUSH_SELF = 6"
| "op_byte PUSH_NIL = 8" | "op_byte PUSH_TRUE = 9" | "op_byte PUSH_FALSE = 10"
| "op_byte SEND_UNARY = 11" | "op_byte SEND_BINARY = 12" | "op_byte SEND_KEYWORD = 13"
| "op_byte SEND_SUPER = 14" | "op_byte JUMP = 15" | "op_byte JUMP_IF_TRUE = 16"
| "op_byte JUMP_IF_FALSE = 17" | "op_byte RETURN = 18" | "op_byte RETURN_TOP = 19"
| "op_byte PUSH_BLOCK = 20" | "op_byte PUSH_CAPTURED = 22" | "op_byte STORE_CAPTURED = 23"
| "op_byte PUSH_GLOBAL = 24" | "op_byte STORE_GLOBAL = 25" | "op_byte PUSH_INSTVAR = 26"
| "op_byte STORE_INSTVAR = 27" | "op_byte MAKE_CAPTURED = 28" | "op_byte MAKE_ARRAY = 29"
| "op_byte JUMP_BACK = 30" | "op_byte BIN_INT_ADD = 31" | "op_byte BIN_INT_SUB = 32"
| "op_byte BIN_INT_LE = 33" | "op_byte BIN_INT_LT = 34" | "op_byte BIN_INT_GE = 35"
| "op_byte BIN_INT_GT = 36" | "op_byte BIN_INT_EQ = 37" | "op_byte ASSERT_BOOL_OR_DNU = 38"
| "op_byte SEND_CALL = 39" | "op_byte DEFINE_CAPTURED = 40" | "op_byte STORE_CLASSVAR = 41"
| "op_byte PUSH_OWN_INSTVAR = 42" | "op_byte IVAR_GROUP = 43" | "op_byte IVAR_GROUP_END = 44"
| "op_byte EXTEND = 254"

definition all_ops :: "op list" where
  "all_ops =
     [PUSH_CONST, PUSH_LOCAL, STORE_LOCAL, DUP, POP, PUSH_SELF, PUSH_NIL, PUSH_TRUE, PUSH_FALSE,
      SEND_UNARY, SEND_BINARY, SEND_KEYWORD, SEND_SUPER, JUMP, JUMP_IF_TRUE, JUMP_IF_FALSE, RETURN,
      RETURN_TOP, PUSH_BLOCK, PUSH_CAPTURED, STORE_CAPTURED, PUSH_GLOBAL, STORE_GLOBAL, PUSH_INSTVAR,
      STORE_INSTVAR, MAKE_CAPTURED, MAKE_ARRAY, JUMP_BACK, BIN_INT_ADD, BIN_INT_SUB, BIN_INT_LE,
      BIN_INT_LT, BIN_INT_GE, BIN_INT_GT, BIN_INT_EQ, ASSERT_BOOL_OR_DNU, SEND_CALL, DEFINE_CAPTURED,
      STORE_CLASSVAR, PUSH_OWN_INSTVAR, IVAR_GROUP, IVAR_GROUP_END, EXTEND]"

text \<open>\<open>static_cast<Op>(byte)\<close>: the enumerator of that value, if there is one.\<close>

definition op_of :: "8 word \<Rightarrow> op option" where
  "op_of b = find (\<lambda>o'. op_byte o' = b) all_ops"

lemma all_ops_complete: "o' \<in> set all_ops"
  by (cases o') (simp_all add: all_ops_def)

lemma op_of_op_byte [simp]: "op_of (op_byte o') = Some o'"
  by (cases o') (simp_all add: op_of_def all_ops_def)

lemma op_byte_inj: "op_byte a = op_byte b \<longleftrightarrow> a = b"
  by (metis op_of_op_byte option.inject)

section \<open>Modules\<close>

datatype const_kind = C_Integer | C_Float | C_String | C_Symbol | C_Char | C_UnsetMarker | C_LargeInteger

record const =
  c_kind :: const_kind
  c_ival :: int
  c_fval :: dbl
  c_sval :: string

record group_entry =
  g_name :: nat
  g_position :: nat
  g_count :: nat

record scoped_local =
  sl_slot :: nat
  sl_name :: string
  sl_from :: nat
  sl_to :: nat

text \<open>The members of a module but its blocks; \<open>symbolIndex_\<close> is a map.\<close>

record core =
  m_bytes :: "8 word list"
  m_lines :: "int list"
  m_starts :: "nat list"
  m_source :: string
  m_localNames :: "string list"
  m_scoped :: "scoped_local list"
  m_debugName :: string
  m_consts :: "const list"
  m_groups :: "group_entry list"
  m_symbols :: "(string \<times> nat) list"
  m_argCount :: int
  m_defClass :: string
  m_classId :: int
  m_callForm :: bool
  m_posArity :: int
  m_namedKeys :: "string list"

datatype bmodule = BModule (m_core: core) (m_blocks: "bmodule list")

definition empty_core :: core where
  "empty_core =
     \<lparr>m_bytes = [], m_lines = [], m_starts = [], m_source = [], m_localNames = [], m_scoped = [],
      m_debugName = [], m_consts = [], m_groups = [], m_symbols = [], m_argCount = 0, m_defClass = [],
      m_classId = 0, m_callForm = False, m_posArity = 0, m_namedKeys = []\<rparr>"

definition empty_module :: bmodule where
  "empty_module = BModule empty_core []"

definition on_core :: "(core \<Rightarrow> core) \<Rightarrow> bmodule \<Rightarrow> bmodule" where
  "on_core f m = BModule (f (m_core m)) (m_blocks m)"

lemma on_core_sel [simp]: "m_core (on_core f m) = f (m_core m)" "m_blocks (on_core f m) = m_blocks m"
  by (simp_all add: on_core_def)

abbreviation (input) kInstrSize :: nat where
  "kInstrSize \<equiv> 2"

definition pos :: "core \<Rightarrow> nat" where
  "pos c = length (m_bytes c)"

section \<open>Emission\<close>

definition emit :: "op \<Rightarrow> 8 word \<Rightarrow> int \<Rightarrow> core \<Rightarrow> core" where
  "emit o' arg line c =
     c\<lparr>m_starts := m_starts c @ [length (m_bytes c)],
       m_bytes := m_bytes c @ [op_byte o', arg],
       m_lines := m_lines c @ [line]\<rparr>"

text \<open>The byte of an operand at a shift: \<open>(arg >> shift) & 0xFF\<close>.\<close>

definition arg_byte :: "nat \<Rightarrow> nat \<Rightarrow> 8 word" where
  "arg_byte arg shift = word_of_nat (arg div 2 ^ shift mod 256)"

definition emitWide :: "op \<Rightarrow> nat \<Rightarrow> int \<Rightarrow> core \<Rightarrow> core option" where
  "emitWide o' arg line c =
     (if arg > 0xFFFFFF then None
      else
        (let c1 = (if arg > 0xFFFF
                   then emit EXTEND (arg_byte arg 8) line (emit EXTEND (arg_byte arg 16) line c)
                   else if arg > 0xFF then emit EXTEND (arg_byte arg 8) line c
                   else c)
         in Some (emit o' (arg_byte arg 0) line c1)))"

definition patchArg :: "nat \<Rightarrow> 8 word \<Rightarrow> core \<Rightarrow> core option" where
  "patchArg bytePos arg c =
     (if bytePos + 1 < length (m_bytes c) then Some (c\<lparr>m_bytes := (m_bytes c)[bytePos + 1 := arg]\<rparr>)
      else None)"

definition extendPrefixesFor :: "nat \<Rightarrow> nat" where
  "extendPrefixesFor arg = (if arg > 0xFFFF then 2 else if arg > 0xFF then 1 else 0)"

text \<open>\<open>v.insert(v.begin() + i, xs)\<close>.\<close>

definition insert_at :: "nat \<Rightarrow> 'a list \<Rightarrow> 'a list \<Rightarrow> 'a list" where
  "insert_at i xs v = take i v @ xs @ drop i v"

definition insertExtendPrefixes :: "nat \<Rightarrow> nat \<Rightarrow> core \<Rightarrow> core option" where
  "insertExtendPrefixes bytePos count c =
     (if count = 0 then Some c
      else if bytePos \<ge> length (m_bytes c) \<or> bytePos mod kInstrSize \<noteq> 0 then None
      else
        (let added = count * kInstrSize;
             word = bytePos div kInstrSize;
             line = (if word < length (m_lines c) then m_lines c ! word else 0);
             shift = (\<lambda>p. if p > bytePos then p + added else p)
         in Some (c\<lparr>m_bytes := insert_at bytePos (concat (replicate count [op_byte EXTEND, 0])) (m_bytes c),
                    m_lines := insert_at word (replicate count line) (m_lines c),
                    m_starts := insert_at word (map (\<lambda>i. bytePos + i * kInstrSize) [0..<count])
                                  (map (\<lambda>p. if p \<ge> bytePos then p + added else p) (m_starts c)),
                    m_scoped := map (\<lambda>s. s\<lparr>sl_from := shift (sl_from s), sl_to := shift (sl_to s)\<rparr>)
                                  (m_scoped c)\<rparr>)))"

text \<open>The prefixes' bytes from the highest, then the opcode word's.\<close>

fun patch_bytes :: "nat \<Rightarrow> nat \<Rightarrow> nat \<Rightarrow> 8 word list \<Rightarrow> 8 word list" where
  "patch_bytes p 0 arg bs = bs[p + 1 := arg_byte arg 0]"
| "patch_bytes p (Suc k) arg bs =
     patch_bytes (p + kInstrSize) k arg (bs[p + 1 := arg_byte arg (8 * Suc k)])"

definition patchWideArg :: "nat \<Rightarrow> nat \<Rightarrow> nat \<Rightarrow> core \<Rightarrow> core option" where
  "patchWideArg bytePos prefixes arg c =
     (if extendPrefixesFor arg > prefixes then None
      else if bytePos + prefixes * kInstrSize + 1 < length (m_bytes c)
      then Some (c\<lparr>m_bytes := patch_bytes bytePos prefixes arg (m_bytes c)\<rparr>)
      else None)"

section \<open>Constants and sub-modules\<close>

definition add_const :: "const \<Rightarrow> core \<Rightarrow> nat \<times> core" where
  "add_const k c = (length (m_consts c), c\<lparr>m_consts := m_consts c @ [k]\<rparr>)"

definition mk_const :: "const_kind \<Rightarrow> int \<Rightarrow> dbl \<Rightarrow> string \<Rightarrow> const" where
  "mk_const k i f s = \<lparr>c_kind = k, c_ival = i, c_fval = f, c_sval = s\<rparr>"

definition addInteger :: "int \<Rightarrow> core \<Rightarrow> nat \<times> core" where
  "addInteger v = add_const (mk_const C_Integer v dbl_zero [])"

definition addLargeInteger :: "string \<Rightarrow> int \<Rightarrow> core \<Rightarrow> nat \<times> core" where
  "addLargeInteger digits radix = add_const (mk_const C_LargeInteger radix dbl_zero digits)"

definition addFloat :: "dbl \<Rightarrow> core \<Rightarrow> nat \<times> core" where
  "addFloat v = add_const (mk_const C_Float 0 v [])"

definition addString :: "string \<Rightarrow> core \<Rightarrow> nat \<times> core" where
  "addString s = add_const (mk_const C_String 0 dbl_zero s)"

definition addChar :: "string \<Rightarrow> core \<Rightarrow> nat \<times> core" where
  "addChar s = add_const (mk_const C_Char 0 dbl_zero s)"

definition addUnsetMarker :: "core \<Rightarrow> nat \<times> core" where
  "addUnsetMarker = add_const (mk_const C_UnsetMarker 0 dbl_zero [])"

definition internSymbol :: "string \<Rightarrow> core \<Rightarrow> nat \<times> core" where
  "internSymbol s c =
     (case map_of (m_symbols c) s of
        Some i \<Rightarrow> (i, c)
      | None \<Rightarrow>
          (let (i, c1) = add_const (mk_const C_Symbol 0 dbl_zero s) c
           in (i, c1\<lparr>m_symbols := (s, i) # m_symbols c1\<rparr>)))"

definition addInstVarGroupEntry :: "nat \<Rightarrow> nat \<Rightarrow> nat \<Rightarrow> core \<Rightarrow> nat \<times> core" where
  "addInstVarGroupEntry nameConst position count c =
     (length (m_groups c),
      c\<lparr>m_groups := m_groups c @ [\<lparr>g_name = nameConst mod 2 ^ 32, g_position = position mod 2 ^ 16,
                                    g_count = count mod 2 ^ 16\<rparr>]\<rparr>)"

definition addBlockModule :: "bmodule \<Rightarrow> bmodule \<Rightarrow> nat \<times> bmodule" where
  "addBlockModule b m =
     (length (m_blocks m),
      BModule (m_core m) (m_blocks m @ [on_core (\<lambda>c. c\<lparr>m_source := m_source (m_core m)\<rparr>) b]))"

fun setSourceName :: "string \<Rightarrow> bmodule \<Rightarrow> bmodule" where
  "setSourceName s (BModule c bs) = BModule (c\<lparr>m_source := s\<rparr>) (map (setSourceName s) bs)"

fun setDefiningClassId :: "int \<Rightarrow> bmodule \<Rightarrow> bmodule" where
  "setDefiningClassId i (BModule c bs) = BModule (c\<lparr>m_classId := i\<rparr>) (map (setDefiningClassId i) bs)"

definition setCallFormSignature :: "int \<Rightarrow> string list \<Rightarrow> core \<Rightarrow> core" where
  "setCallFormSignature posArity keys c =
     c\<lparr>m_callForm := True, m_posArity := posArity, m_namedKeys := keys\<rparr>"

definition addScopedLocal :: "nat \<Rightarrow> string \<Rightarrow> nat \<Rightarrow> nat \<Rightarrow> core \<Rightarrow> core" where
  "addScopedLocal slot name fromPc toPc c =
     c\<lparr>m_scoped := m_scoped c @ [\<lparr>sl_slot = slot, sl_name = name, sl_from = fromPc, sl_to = toPc\<rparr>]\<rparr>"

definition localName :: "core \<Rightarrow> nat \<Rightarrow> string" where
  "localName c slot = (if slot < length (m_localNames c) then m_localNames c ! slot else [])"

section \<open>Source lines\<close>

text \<open>
  The two loops of \<open>lineForPc\<close>: a word that starts at \<open>pc\<close>, else the last
  one that starts at or before it.
\<close>

fun line_at_start :: "nat \<Rightarrow> nat list \<Rightarrow> int list \<Rightarrow> int option" where
  "line_at_start pc (p # ps) (l # ls) = (if p = pc then Some l else line_at_start pc ps ls)"
| "line_at_start pc ps ls = None"

fun line_before :: "nat \<Rightarrow> int \<Rightarrow> nat list \<Rightarrow> int list \<Rightarrow> int" where
  "line_before pc acc (p # ps) (l # ls) = (if p \<le> pc then line_before pc l ps ls else acc)"
| "line_before pc acc ps ls = acc"

definition lineForPc :: "core \<Rightarrow> nat \<Rightarrow> int" where
  "lineForPc c pc =
     (case line_at_start pc (m_starts c) (m_lines c) of
        Some l \<Rightarrow> l
      | None \<Rightarrow> (if pc < length (m_bytes c) then line_before pc 0 (m_starts c) (m_lines c) else 0))"

fun first_start :: "int \<Rightarrow> nat list \<Rightarrow> int list \<Rightarrow> nat option" where
  "first_start line (p # ps) (l # ls) = (if l = line then Some p else first_start line ps ls)"
| "first_start line ps ls = None"

text \<open>\<open>firstPcForLine\<close>; \<open>None\<close> stands for SIZE_MAX.\<close>

definition firstPcForLine :: "core \<Rightarrow> int \<Rightarrow> nat option" where
  "firstPcForLine c line = first_start line (m_starts c) (m_lines c)"

section \<open>Decoding\<close>

text \<open>
  One instruction: the word it starts at, how many words it takes, its opcode
  byte and the operand with the EXTEND bytes folded in.  The engine, the
  disassembler and the two scans below all decode this way; the operand is a
  32-bit unsigned, so the shift wraps.
\<close>

record instr =
  i_word :: nat
  i_words :: nat
  i_op :: "8 word"
  i_arg :: nat

fun decode_one :: "8 word \<Rightarrow> nat \<Rightarrow> nat \<Rightarrow> 8 word list \<Rightarrow> 8 word \<times> nat \<times> nat \<times> 8 word list" where
  "decode_one b arg w (b' # a' # bs) =
     (if b = op_byte EXTEND then decode_one b' ((arg * 256 + unat a') mod 2 ^ 32) (Suc w) bs
      else (b, arg, w, b' # a' # bs))"
| "decode_one b arg w bs = (b, arg, w, bs)"

lemma decode_one_length: "decode_one b arg w bs = (b', arg', w', bs') \<Longrightarrow> length bs' \<le> length bs"
  by (induction b arg w bs rule: decode_one.induct) (auto split: if_splits)

function decode_from :: "nat \<Rightarrow> 8 word list \<Rightarrow> instr list" where
  "decode_from word (b # a # bs) =
     (let (b', arg, w, bs') = decode_one b (unat a) 1 bs
      in \<lparr>i_word = word, i_words = w, i_op = b', i_arg = arg\<rparr> # decode_from (word + w) bs')"
| "decode_from word [] = []"
| "decode_from word [b] = []"
  by pat_completeness auto
termination
proof (relation "measure (\<lambda>(w, bs). length bs)", goal_cases)
  case (2 word b a bs x b' y arg z w bs')
  then have "decode_one b (unat a) 1 bs = (b', arg, w, bs')" by simp
  then show ?case using decode_one_length by fastforce
qed simp

definition decode :: "core \<Rightarrow> instr list" where
  "decode c = decode_from 0 (m_bytes c)"

section \<open>Scans of the code\<close>

text \<open>
  \<open>cachedLocalCount\<close> without its cache: the highest local slot named, plus
  one, but at least \<open>argc\<close>, in 32-bit arithmetic.
\<close>

definition local_slots :: "instr list \<Rightarrow> nat list" where
  "local_slots is =
     map i_arg (filter (\<lambda>i. i_op i = op_byte PUSH_LOCAL \<or> i_op i = op_byte STORE_LOCAL) is)"

fun max_slot :: "nat option \<Rightarrow> nat list \<Rightarrow> nat option" where
  "max_slot m [] = m"
| "max_slot m (a # as) =
     max_slot (case m of None \<Rightarrow> Some a | Some x \<Rightarrow> if a > x then Some a else Some x) as"

definition computeLocalCount :: "nat \<Rightarrow> core \<Rightarrow> nat" where
  "computeLocalCount argc c =
     (let needed = (case max_slot None (local_slots (decode c)) of
                      None \<Rightarrow> 0 | Some s \<Rightarrow> (s + 1) mod 2 ^ 32)
      in max needed argc)"

text \<open>The cache holds one word, the argc it was computed for and the count, or nothing yet.\<close>

definition cachedLocalCount :: "nat \<Rightarrow> core \<Rightarrow> (nat \<times> nat) option \<Rightarrow> nat \<times> (nat \<times> nat) option" where
  "cachedLocalCount argc c cache =
     (case cache of
        Some (a, n) \<Rightarrow>
          if a = argc then (n, cache)
          else (let r = computeLocalCount argc c in (r, Some (argc, r)))
      | None \<Rightarrow> (let r = computeLocalCount argc c in (r, Some (argc, r))))"

text \<open>std::strtoul in base 10: white space, a sign, digits, saturating at ULONG_MAX; 64-bit longs.\<close>

definition strtoul :: "string \<Rightarrow> nat" where
  "strtoul s =
     (let s1 = dropWhile isspace s;
          (neg, s2) = (case s1 of
                         [] \<Rightarrow> (False, [])
                       | c # cs \<Rightarrow> if c = CHR ''-'' then (True, cs)
                                   else if c = CHR ''+'' then (False, cs) else (False, s1));
          v = nat (digits_value 10 (takeWhile isdigit s2))
      in if v \<ge> 2 ^ 64 then 2 ^ 64 - 1
         else if neg then (2 ^ 64 - v) mod 2 ^ 64 else v)"

definition sendArgCount :: "op \<Rightarrow> string \<Rightarrow> nat" where
  "sendArgCount o' sel =
     (if o' = SEND_UNARY then 0
      else if o' = SEND_BINARY then 1
      else if o' = SEND_CALL then
        (case dropWhile (\<lambda>c. c \<noteq> CHR ''#'') sel of
           [] \<Rightarrow> 0
         | _ # r \<Rightarrow> (strtoul (takeWhile (\<lambda>c. c \<noteq> NUL) r) + length (filter (\<lambda>c. c = CHR ''#'') r)) mod 2 ^ 32)
      else
        (let colons = length (filter (\<lambda>c. c = CHR '':'') sel) mod 2 ^ 32
         in if o' = SEND_SUPER \<and> colons = 0 \<and> sel \<noteq> [] \<and> \<not> isalpha (hd sel) \<and> hd sel \<noteq> CHR ''_''
            then 1 else colons))"

end
