(* ===== verification/BytecodeCode.thy ===== *)
theory BytecodeCode
  imports Bytecode "HOL-Library.Sublist"
begin

text \<open>
  The code of a module stays well formed under every operation that writes it,
  and decoding reads back what was emitted: an operand of any width up to 24
  bits, and a jump that was widened in place after the code around it was
  emitted.
\<close>

section \<open>The word tables\<close>

definition wf_code :: "core \<Rightarrow> bool" where
  "wf_code c \<longleftrightarrow> length (m_bytes c) = 2 * length (m_lines c) \<and>
     m_starts c = map (\<lambda>i. 2 * i) [0..<length (m_lines c)]"

lemma emit_sel [simp]:
  "m_bytes (emit o' a l c) = m_bytes c @ [op_byte o', a]" "m_lines (emit o' a l c) = m_lines c @ [l]"
  "m_starts (emit o' a l c) = m_starts c @ [length (m_bytes c)]"
  "m_consts (emit o' a l c) = m_consts c" "m_scoped (emit o' a l c) = m_scoped c"
  "m_symbols (emit o' a l c) = m_symbols c" "m_groups (emit o' a l c) = m_groups c"
  by (simp_all add: emit_def)

lemma emit_wf: "wf_code c \<Longrightarrow> wf_code (emit o' a l c)"
  by (simp add: wf_code_def)

lemma emitWide_wf: "emitWide o' a l c = Some c' \<Longrightarrow> wf_code c \<Longrightarrow> wf_code c'"
  by (auto simp: emitWide_def Let_def emit_wf split: if_splits)

lemma insert_at_length [simp]: "i \<le> length v \<Longrightarrow> length (insert_at i xs v) = length v + length xs"
  by (simp add: insert_at_def)

lemma insert_starts:
  assumes "w \<le> n"
  shows "insert_at w (map (\<lambda>i. 2 * w + i * 2) [0..<k])
           (map (\<lambda>p. if p \<ge> 2 * w then p + k * 2 else p) (map (\<lambda>i. 2 * i) [0..<n])) =
         map (\<lambda>i. 2 * i) [0..<n + k]"
proof (rule nth_equalityI)
  fix i assume "i < length (insert_at w (map (\<lambda>i. 2 * w + i * 2) [0..<k])
           (map (\<lambda>p. if p \<ge> 2 * w then p + k * 2 else p) (map (\<lambda>i. 2 * i) [0..<n])))"
  then show "insert_at w (map (\<lambda>i. 2 * w + i * 2) [0..<k])
           (map (\<lambda>p. if p \<ge> 2 * w then p + k * 2 else p) (map (\<lambda>i. 2 * i) [0..<n])) ! i =
         map (\<lambda>i. 2 * i) [0..<n + k] ! i"
    using assms by (auto simp: insert_at_def nth_append)
qed (use assms in simp)

lemma insertExtendPrefixes_wf:
  assumes "insertExtendPrefixes p k c = Some c'" "wf_code c"
  shows "wf_code c'"
proof (cases "k = 0")
  case True
  with assms show ?thesis by (simp add: insertExtendPrefixes_def)
next
  case False
  with assms(1) have p: "p < length (m_bytes c)" "p mod 2 = 0"
    by (auto simp: insertExtendPrefixes_def split: if_splits)
  define w where "w = p div 2"
  have pw: "p = 2 * w" using p(2) by (simp add: w_def) presburger
  have w: "w \<le> length (m_lines c)" using p(1) pw assms(2) by (simp add: wf_code_def)
  have l: "length (concat (replicate k [op_byte EXTEND, 0])) = 2 * k" by (induction k) auto
  show ?thesis
    using assms False p l w insert_starts [OF w, of k]
    by (auto simp: insertExtendPrefixes_def Let_def wf_code_def pw)
qed

lemma patch_bytes_length [simp]: "length (patch_bytes p k arg bs) = length bs"
  by (induction p k arg bs rule: patch_bytes.induct) simp_all

lemma patch_wf:
  "patchArg p a c = Some c' \<Longrightarrow> wf_code c \<Longrightarrow> wf_code c'"
  "patchWideArg p k arg c = Some c' \<Longrightarrow> wf_code c \<Longrightarrow> wf_code c'"
  by (auto simp: patchArg_def patchWideArg_def wf_code_def split: if_splits)

section \<open>Decoding in pieces\<close>

text \<open>A run of words that does not end in the middle of an instruction.\<close>

fun complete :: "8 word list \<Rightarrow> bool" where
  "complete [] = True"
| "complete [b] = False"
| "complete (b # a # bs) = (if bs = [] then b \<noteq> op_byte EXTEND else complete bs)"

lemma complete_even: "complete bs \<Longrightarrow> even (length bs)"
  by (induction bs rule: complete.induct) (auto split: if_splits)

lemma complete_append: "complete xs \<Longrightarrow> complete ys \<Longrightarrow> complete (xs @ ys)"
  by (induction xs rule: complete.induct) (auto split: if_splits)

lemma decode_one_append:
  assumes "complete (b # x # bs)" "decode_one b arg w bs = (b', arg', w', bs')"
  shows "decode_one b arg w (bs @ ds) = (b', arg', w', bs' @ ds) \<and> complete bs' \<and>
    w' * 2 + length bs' = w * 2 + length bs"
  using assms
proof (induction b arg w bs arbitrary: x rule: decode_one.induct)
  case (1 b arg w b1 a1 bs)
  then show ?case by (cases "b = op_byte EXTEND") auto
next
  case "2_1"
  then show ?case by (cases ds rule: complete.cases) auto
next
  case "2_2"
  then show ?case by simp
qed

lemma decode_from_append:
  "complete bs \<Longrightarrow> decode_from w (bs @ ds) = decode_from w bs @ decode_from (w + length bs div 2) ds"
proof (induction w bs rule: decode_from.induct)
  case (1 w b a bs)
  obtain b' arg n bs' where d: "decode_one b (unat a) 1 bs = (b', arg, n, bs')" by (metis prod_cases4)
  note p = decode_one_append [OF "1.prems" d, of ds]
  have "decode_from (w + n) (bs' @ ds) = decode_from (w + n) bs' @ decode_from (w + n + length bs' div 2) ds"
    using 1(1) [OF refl, of b' "(arg, n, bs')" arg "(n, bs')" n bs'] d p by simp
  moreover have "even (length bs')" "even (length bs)"
    using p complete_even [of bs'] complete_even [OF "1.prems"] by simp_all
  then have "w + n + length bs' div 2 = w + length (b # a # bs) div 2" using p by (auto elim!: evenE)
  ultimately show ?case using d p by simp
qed simp_all

lemma decode_from_shift:
  "decode_from (w + k) bs = map (\<lambda>i. i\<lparr>i_word := i_word i + k\<rparr>) (decode_from w bs)"
proof (induction w bs rule: decode_from.induct)
  case (1 w b a bs)
  obtain b' arg n bs' where d: "decode_one b (unat a) 1 bs = (b', arg, n, bs')" by (metis prod_cases4)
  have "decode_from (w + n + k) bs' = map (\<lambda>i. i\<lparr>i_word := i_word i + k\<rparr>) (decode_from (w + n) bs')"
    using 1 [OF refl, of b' "(arg, n, bs')" arg "(n, bs')" n bs'] d by simp
  then have "decode_from (w + k + n) bs' = map (\<lambda>i. i\<lparr>i_word := i_word i + k\<rparr>) (decode_from (w + n) bs')"
    by (simp add: ac_simps)
  with d show ?case by simp
qed simp_all

text \<open>A prefix of the instructions is the decoding of a prefix of the bytes.\<close>

lemma decode_one_consumes:
  "decode_one b arg w bs = (b', arg', w', bs') \<Longrightarrow> b' \<noteq> op_byte EXTEND \<Longrightarrow>
   \<exists>ps. bs = ps @ bs' \<and> complete (b # x # ps) \<and> decode_one b arg w ps = (b', arg', w', [])"
proof (induction b arg w bs arbitrary: x rule: decode_one.induct)
  case (1 b arg w b1 a1 bs)
  show ?case
  proof (cases "b = op_byte EXTEND")
    case True
    with 1(2,3) 1(1) [OF True, of a1] obtain ps where ps: "bs = ps @ bs'" "complete (b1 # a1 # ps)"
      "decode_one b1 ((arg * 256 + unat a1) mod 2 ^ 32) (Suc w) ps = (b', arg', w', [])" by auto
    then have "b1 # a1 # bs = (b1 # a1 # ps) @ bs'" "complete (b # x # b1 # a1 # ps)" by simp_all
    with True ps(3) show ?thesis by (metis decode_one.simps(1))
  next
    case False
    with 1(2) show ?thesis by auto
  qed
qed auto

lemma decode_one_extend:
  "decode_one b arg w bs = (b', arg', w', bs') \<Longrightarrow> b' = op_byte EXTEND \<Longrightarrow> length bs' < 2"
  by (induction b arg w bs rule: decode_one.induct) (auto split: if_splits)

lemma decode_from_short: "length bs < 2 \<Longrightarrow> decode_from w bs = []"
  by (cases bs rule: complete.cases) auto

lemma decode_split:
  "decode_from w bs = is1 @ is2 \<Longrightarrow> is2 \<noteq> [] \<Longrightarrow>
   \<exists>pre post. bs = pre @ post \<and> complete pre \<and> decode_from w pre = is1 \<and>
     decode_from (w + length pre div 2) post = is2"
proof (induction is1 arbitrary: w bs)
  case Nil
  then have "bs = [] @ bs \<and> complete [] \<and> decode_from w [] = [] \<and>
      decode_from (w + length ([] :: 8 word list) div 2) bs = is2" by simp
  then show ?case by blast
next
  case (Cons i is1)
  then obtain b a cs where bs: "bs = b # a # cs" by (cases bs rule: complete.cases) auto
  obtain b' arg n bs' where d: "decode_one b (unat a) 1 cs = (b', arg, n, bs')" by (metis prod_cases4)
  have i: "i = \<lparr>i_word = w, i_words = n, i_op = b', i_arg = arg\<rparr>" "decode_from (w + n) bs' = is1 @ is2"
    using Cons.prems(1) d bs by auto
  have "b' \<noteq> op_byte EXTEND"
    using decode_one_extend [OF d] decode_from_short [of bs' "w + n"] i(2) Cons.prems(2) by auto
  from decode_one_consumes [OF d this, of a] obtain ps where
    ps: "cs = ps @ bs'" "complete (b # a # ps)" "decode_one b (unat a) 1 ps = (b', arg, n, [])" by blast
  have len: "length (b # a # ps) = 2 * n" using decode_one_append [OF ps(2,3), of "[]"] by simp
  have half: "length (b # a # ps) div 2 = n" unfolding len by simp
  from Cons.IH [OF i(2) Cons.prems(2)] obtain pre post where
    p: "bs' = pre @ post" "complete pre" "decode_from (w + n) pre = is1"
      "decode_from (w + n + length pre div 2) post = is2" by blast
  let ?pre = "(b # a # ps) @ pre"
  have "bs = ?pre @ post" using bs ps(1) p(1) by simp
  moreover have "complete ?pre" using ps(2) p(2) by (rule complete_append)
  moreover have "decode_from w ?pre = i # is1"
    unfolding decode_from_append [OF ps(2)] half using p(3) ps(3) i(1) by simp
  moreover have "w + length ?pre div 2 = w + n + length pre div 2"
    using len complete_even [OF p(2)] by (simp add: div_add)
  ultimately show ?case using p(4) by metis
qed

section \<open>Reading back what was emitted\<close>

lemma unat_arg_byte [simp]: "unat (arg_byte arg k) = arg div 2 ^ k mod 256"
  by (simp add: arg_byte_def unat_of_nat)

text \<open>The EXTEND words and the opcode word of an operand written with k prefixes.\<close>

fun wide_bytes :: "op \<Rightarrow> nat \<Rightarrow> nat \<Rightarrow> 8 word list" where
  "wide_bytes o' 0 arg = [op_byte o', arg_byte arg 0]"
| "wide_bytes o' (Suc k) arg = op_byte EXTEND # arg_byte arg (8 * Suc k) # wide_bytes o' k arg"

lemma wide_bytes_length [simp]: "length (wide_bytes o' k arg) = 2 * Suc k"
  by (induction k) simp_all

lemma wide_bytes_12:
  "wide_bytes o' 1 arg = [op_byte EXTEND, arg_byte arg 8, op_byte o', arg_byte arg 0]"
  "wide_bytes o' (Suc 0) arg = [op_byte EXTEND, arg_byte arg 8, op_byte o', arg_byte arg 0]"
  "wide_bytes o' 2 arg =
     [op_byte EXTEND, arg_byte arg 16, op_byte EXTEND, arg_byte arg 8, op_byte o', arg_byte arg 0]"
  by (simp_all add: numeral_2_eq_2)

lemma wide_bytes_complete: "o' \<noteq> EXTEND \<Longrightarrow> complete (wide_bytes o' k arg)"
proof (induction k)
  case 0
  then show ?case using op_byte_inj [of o' EXTEND] by simp
next
  case (Suc k)
  then show ?case by (cases k) auto
qed

lemma byte_join: "arg div (256 * m) * 256 + arg div m mod 256 = arg div (m :: nat)"
proof -
  have "arg div (256 * m) = arg div m div 256" by (simp add: div_mult2_eq mult.commute)
  then show ?thesis by simp
qed

lemma decode_wide:
  assumes "o' \<noteq> EXTEND" "arg < 256 ^ Suc k" "k \<le> 2"
  shows "decode_from w (wide_bytes o' k arg) =
     [\<lparr>i_word = w, i_words = Suc k, i_op = op_byte o', i_arg = arg\<rparr>]"
proof -
  have ne: "op_byte o' \<noteq> op_byte EXTEND" using assms(1) op_byte_inj by blast
  then have ne': "op_byte o' \<noteq> 254" by simp
  consider "k = 0" | "k = 1" | "k = 2" using assms(3) by linarith
  then show ?thesis
  proof cases
    case 1
    with assms(2) show ?thesis by simp
  next
    case 2
    have "arg div 256 mod 256 * 256 + arg mod 256 = arg"
      using assms(2) byte_join [of arg 1] 2 by simp
    with 2 assms(2) ne' show ?thesis by simp
  next
    case 3
    have a: "arg div 65536 mod 256 = arg div 65536" using assms(2) 3 by simp
    have "(arg div 65536 * 256 + arg div 256 mod 256) * 256 + arg mod 256 = arg"
      using byte_join [of arg 256] byte_join [of arg 1] by simp
    moreover have "arg div 65536 * 256 + arg div 256 mod 256 < 2 ^ 32"
      using byte_join [of arg 256] assms(2) 3 by simp
    ultimately show ?thesis using 3 assms(2) ne' a by (simp add: wide_bytes_12)
  qed
qed

lemma emitWide_bytes:
  assumes "emitWide o' arg l c = Some c'"
  shows "m_bytes c' = m_bytes c @ wide_bytes o' (extendPrefixesFor arg) arg" "arg < 2 ^ 24"
  using assms
  by (auto simp: emitWide_def extendPrefixesFor_def Let_def wide_bytes_12 split: if_splits)

lemma prefixes_fit: "arg < 2 ^ 24 \<Longrightarrow> arg < 256 ^ Suc (extendPrefixesFor arg) \<and> extendPrefixesFor arg \<le> 2"
  by (auto simp: extendPrefixesFor_def)

text \<open>
  Emitting and decoding agree for every operand width: \<open>emitWide\<close> succeeds
  exactly on operands of at most 24 bits, and then decoding the code gives the
  instructions it gave before and one more, with exactly the opcode and the
  operand passed, however many EXTEND words it took.
\<close>

theorem emit_wide_decodes:
  assumes "complete (m_bytes c)" and "o' \<noteq> EXTEND"
  shows "if arg < 2 ^ 24
     then \<exists>c'. emitWide o' arg l c = Some c' \<and> complete (m_bytes c') \<and>
       decode c' = decode c @
         [\<lparr>i_word = length (m_bytes c) div 2, i_words = Suc (extendPrefixesFor arg), i_op = op_byte o', i_arg = arg\<rparr>]
     else emitWide o' arg l c = None"
proof (cases "arg < 2 ^ 24")
  case True
  then have "emitWide o' arg l c \<noteq> None" by (simp add: emitWide_def Let_def)
  then obtain c' where e: "emitWide o' arg l c = Some c'" by blast
  with True emitWide_bytes [OF e] prefixes_fit [of arg] assms decode_wide [OF assms(2), of arg "extendPrefixesFor arg"]
    complete_append [OF assms(1) wide_bytes_complete [OF assms(2)]]
  show ?thesis by (simp add: decode_def decode_from_append)
qed (simp add: emitWide_def)

lemma emit_wide_decodes_witness:
  "decode (the (emitWide PUSH_CONST 70000 1 empty_core)) =
     [\<lparr>i_word = 0, i_words = 3, i_op = op_byte PUSH_CONST, i_arg = 70000\<rparr>]"
proof -
  have "complete (m_bytes empty_core)" "PUSH_CONST \<noteq> EXTEND" by (simp_all add: empty_core_def)
  moreover have "decode empty_core = []" "length (m_bytes empty_core) div 2 = 0"
    "Suc (extendPrefixesFor 70000) = 3" "(70000 :: nat) < 2 ^ 24"
    by (simp_all add: decode_def empty_core_def extendPrefixesFor_def)
  ultimately show ?thesis
    using emit_wide_decodes [of empty_core PUSH_CONST 70000 1] by (auto simp del: op_byte.simps)
qed

section \<open>Widening in place\<close>

lemma patch_bytes_at:
  "length pre = p \<Longrightarrow>
   patch_bytes p k arg (pre @ concat (replicate k [op_byte EXTEND, x]) @ op_byte o' # y # post) =
     pre @ wide_bytes o' k arg @ post"
proof (induction k arbitrary: p pre)
  case 0
  then show ?case by (simp add: list_update_append)
next
  case (Suc k)
  let ?q = "pre @ [op_byte EXTEND, arg_byte arg (8 * Suc k)]"
  have "length ?q = p + 2" using Suc.prems by simp
  from Suc.IH [OF this] Suc.prems show ?case by (simp add: list_update_append)
qed

lemma insert_at_append [simp]: "length pre = p \<Longrightarrow> insert_at p xs (pre @ post) = pre @ xs @ post"
  by (simp add: insert_at_def)

lemma one_word_bytes:
  assumes "decode_from w post = \<lparr>i_word = w', i_words = 1, i_op = op_byte o', i_arg = x\<rparr> # is2"
    and "o' \<noteq> EXTEND"
  obtains y rest where "post = op_byte o' # y # rest" "decode_from (Suc w) rest = is2"
proof -
  obtain b a cs where p: "post = b # a # cs" using assms(1) by (cases post rule: complete.cases) auto
  obtain b' arg n bs' where d: "decode_one b (unat a) 1 cs = (b', arg, n, bs')" by (metis prod_cases4)
  have i: "b' = op_byte o'" "n = 1" "decode_from (w + n) bs' = is2" using assms(1) p d by auto
  have ne: "b' \<noteq> op_byte EXTEND" unfolding i(1) op_byte_inj by (rule assms(2))
  from decode_one_consumes [OF d ne, of a] obtain ps where
    ps: "cs = ps @ bs'" "complete (b # a # ps)" "decode_one b (unat a) 1 ps = (b', arg, n, [])" by blast
  have "length ps = 0" using decode_one_append [OF ps(2,3), of "[]"] i(2) by simp
  with ps have "cs = bs'" "b = b'" by simp_all
  with that p i show ?thesis by simp
qed

text \<open>
  A jump can be widened after the fact: inserting enough EXTEND words for an
  operand in front of an emitted one-word instruction, then patching the operand
  in, succeeds and changes that instruction's operand to exactly the one asked
  for and nothing else; the instructions after it only move by the words
  inserted.
\<close>

theorem widen_in_place:
  assumes "decode c = is1 @ \<lparr>i_word = w, i_words = 1, i_op = op_byte o', i_arg = x\<rparr> # is2"
    and "o' \<noteq> EXTEND" and "arg < 2 ^ 24" and "extendPrefixesFor arg \<le> k" and "k \<le> 2"
  shows "\<exists>c1 c2. insertExtendPrefixes (2 * w) k c = Some c1 \<and> patchWideArg (2 * w) k arg c1 = Some c2 \<and>
     decode c2 = is1 @ \<lparr>i_word = w, i_words = Suc k, i_op = op_byte o', i_arg = arg\<rparr> #
       map (\<lambda>i. i\<lparr>i_word := i_word i + k\<rparr>) is2"
proof -
  from decode_split [of 0 "m_bytes c" is1] assms(1) obtain pre post where
    s: "m_bytes c = pre @ post" "complete pre" "decode_from 0 pre = is1"
      "decode_from (length pre div 2) post = \<lparr>i_word = w, i_words = 1, i_op = op_byte o', i_arg = x\<rparr> # is2"
    unfolding decode_def by (metis add_0 list.distinct(1))
  from one_word_bytes [OF s(4) assms(2)] obtain y rest where
    r: "post = op_byte o' # y # rest" "decode_from (Suc (length pre div 2)) rest = is2" by blast
  have w: "w = length pre div 2" using s(4) r(1) by (cases post rule: complete.cases) (auto split: prod.splits)
  have lp: "length pre = 2 * w" using w complete_even [OF s(2)] by simp
  have "insertExtendPrefixes (2 * w) k c \<noteq> None"
    using s(1) r(1) lp by (simp add: insertExtendPrefixes_def Let_def)
  then obtain c1 where c1: "insertExtendPrefixes (2 * w) k c = Some c1" by blast
  have b1: "m_bytes c1 = pre @ concat (replicate k [op_byte EXTEND, 0]) @ op_byte o' # y # rest"
    using c1 s(1) r(1) lp by (auto simp: insertExtendPrefixes_def Let_def split: if_splits)
  have "patchWideArg (2 * w) k arg c1 \<noteq> None"
    using b1 lp assms(4) by (simp add: patchWideArg_def length_concat sum_list_replicate)
  then obtain c2 where c2: "patchWideArg (2 * w) k arg c1 = Some c2" by blast
  then have b2: "m_bytes c2 = pre @ wide_bytes o' k arg @ rest"
    using patch_bytes_at [OF lp] b1 by (auto simp: patchWideArg_def split: if_splits)
  have "(256 :: nat) ^ Suc (extendPrefixesFor arg) \<le> 256 ^ Suc k" using assms(4) by (intro power_increasing) simp_all
  then have fit: "arg < 256 ^ Suc k" using prefixes_fit [OF assms(3)] by (metis order_less_le_trans)
  have dw: "decode_from w (wide_bytes o' k arg) = [\<lparr>i_word = w, i_words = Suc k, i_op = op_byte o', i_arg = arg\<rparr>]"
    by (intro decode_wide assms(2,5) fit)
  have "decode_from (w + Suc k) rest = map (\<lambda>i. i\<lparr>i_word := i_word i + k\<rparr>) is2"
    using decode_from_shift [of "Suc w" k rest] r(2) w by simp
  then have "decode_from w (wide_bytes o' k arg @ rest) =
      \<lparr>i_word = w, i_words = Suc k, i_op = op_byte o', i_arg = arg\<rparr> # map (\<lambda>i. i\<lparr>i_word := i_word i + k\<rparr>) is2"
    using decode_from_append [OF wide_bytes_complete [OF assms(2)], of w k arg rest] dw by simp
  with decode_from_append [OF s(2), of 0 "wide_bytes o' k arg @ rest"] b2 s(3) w c1 c2
  show ?thesis by (simp add: decode_def)
qed

definition sample_code :: core where
  "sample_code = emit POP 0 3 (emit JUMP 0 2 (emit DUP 0 1 empty_core))"

lemma widen_in_place_witness:
  "map i_arg (decode (the (patchWideArg 2 1 300 (the (insertExtendPrefixes 2 1 sample_code))))) = [0, 300, 0]"
proof -
  have "decode sample_code =
      [\<lparr>i_word = 0, i_words = 1, i_op = op_byte DUP, i_arg = 0\<rparr>] @
      \<lparr>i_word = 1, i_words = 1, i_op = op_byte JUMP, i_arg = 0\<rparr> #
      [\<lparr>i_word = 2, i_words = 1, i_op = op_byte POP, i_arg = 0\<rparr>]"
    by (simp add: sample_code_def decode_def empty_core_def)
  moreover have "JUMP \<noteq> EXTEND" "(300 :: nat) < 2 ^ 24" "extendPrefixesFor 300 \<le> 1" "(1 :: nat) \<le> 2"
    by (simp_all add: extendPrefixesFor_def)
  ultimately have "\<exists>c1 c2. insertExtendPrefixes (2 * 1) 1 sample_code = Some c1 \<and>
      patchWideArg (2 * 1) 1 300 c1 = Some c2 \<and>
      decode c2 = [\<lparr>i_word = 0, i_words = 1, i_op = op_byte DUP, i_arg = 0\<rparr>] @
        \<lparr>i_word = 1, i_words = Suc 1, i_op = op_byte JUMP, i_arg = 300\<rparr> #
        map (\<lambda>i. i\<lparr>i_word := i_word i + 1\<rparr>) [\<lparr>i_word = 2, i_words = 1, i_op = op_byte POP, i_arg = 0\<rparr>]"
    by (rule widen_in_place)
  then show ?thesis by auto
qed

text \<open>
  The line table follows the code: every operation that writes code keeps
  one line and one start per two-byte word, word i starting at byte 2i, which
  is what breakpoints and stack traces index by.
\<close>

theorem word_tables_preserved:
  assumes "wf_code c"
  shows "wf_code (emit o' a l c) \<and> pred_option wf_code (emitWide o' arg l c) \<and>
     pred_option wf_code (insertExtendPrefixes p k c) \<and> pred_option wf_code (patchArg p a c) \<and>
     pred_option wf_code (patchWideArg p k arg c)"
  using assms emitWide_wf [of o' arg l c] insertExtendPrefixes_wf [of p k c] patch_wf(1) [of p a c]
    patch_wf(2) [of p k arg c] emit_wf [of c]
  by (auto simp: option.pred_set)

lemma word_tables_preserved_witness:
  "pred_option wf_code (insertExtendPrefixes 2 2 (emit DUP 0 7 (emit POP 0 6 empty_core)))"
proof -
  have "wf_code empty_core" by (simp add: wf_code_def empty_core_def)
  then have "wf_code (emit DUP 0 7 (emit POP 0 6 empty_core))" using word_tables_preserved by blast
  then show ?thesis using word_tables_preserved by blast
qed

lemma upt_head: "[n..<Suc (n + k)] = n # [Suc n..<Suc (n + k)]"
  by (rule upt_conv_Cons) simp

lemma line_at_start_word:
  "j < length ls \<Longrightarrow> line_at_start (2 * (n + j)) (map (\<lambda>i. 2 * i) [n..<n + length ls]) ls = Some (ls ! j)"
proof (induction ls arbitrary: j n)
  case (Cons l ls)
  then show ?case
    using Cons.IH [of "j - 1" "Suc n"] by (cases j) (simp_all add: upt_head del: upt_Suc)
qed simp

lemma first_start_word:
  "j < length ls \<Longrightarrow> \<exists>k \<le> j. first_start (ls ! j) (map (\<lambda>i. 2 * i) [n..<n + length ls]) ls = Some (2 * (n + k)) \<and>
     ls ! k = ls ! j"
proof (induction ls arbitrary: j n)
  case (Cons l ls)
  show ?case
  proof (cases "l = (l # ls) ! j")
    case True
    then show ?thesis by (intro exI [of _ 0]) (simp add: upt_head del: upt_Suc)
  next
    case False
    then obtain k where k: "j = Suc k" by (cases j) auto
    with Cons.IH [of k "Suc n"] Cons.prems obtain q where
      "q \<le> k" "first_start (ls ! k) (map (\<lambda>i. 2 * i) [Suc n..<Suc n + length ls]) ls = Some (2 * (Suc n + q))"
      "ls ! q = ls ! k" by auto
    with False k show ?thesis
      by (intro exI [of _ "Suc q"]) (auto simp: upt_head simp del: upt_Suc)
  qed
qed simp

text \<open>
  Source lines come back: in well-formed code the line of the word at any
  word start is the one it was emitted with, and a breakpoint on a line
  resolves to the first word of that line, if there is one.
\<close>

theorem line_lookup:
  assumes "wf_code c" and "i < length (m_lines c)"
  shows "lineForPc c (2 * i) = m_lines c ! i \<and>
     (\<exists>k \<le> i. firstPcForLine c (m_lines c ! i) = Some (2 * k) \<and> m_lines c ! k = m_lines c ! i)"
  using line_at_start_word [OF assms(2), of 0] first_start_word [OF assms(2), of 0] assms(1)
  by (simp add: lineForPc_def firstPcForLine_def wf_code_def)

lemma line_lookup_witness: "lineForPc (emit DUP 0 7 (emit POP 0 6 empty_core)) 2 = 7"
  using line_lookup [of "emit DUP 0 7 (emit POP 0 6 empty_core)" 1]
  by (simp add: wf_code_def empty_core_def)

end
