(* ===== verification/BytecodeScan.thy ===== *)
theory BytecodeScan
  imports BytecodeCode
begin

text \<open>
  What the engine reads off a module before running it: constants by index, the
  number of local slots, and the depth of the operand stack
  (\<open>computeMaxOperandDepth\<close>).
\<close>

section \<open>Interned symbols\<close>

text \<open>The index maps each interned name to the constant that holds it.\<close>

definition symbols_ok :: "core \<Rightarrow> bool" where
  "symbols_ok c \<longleftrightarrow> (\<forall>s i. map_of (m_symbols c) s = Some i \<longrightarrow>
     i < length (m_consts c) \<and> m_consts c ! i = mk_const C_Symbol 0 dbl_zero s)"

lemma symbols_okD:
  "symbols_ok c \<Longrightarrow> map_of (m_symbols c) s = Some i \<Longrightarrow>
   i < length (m_consts c) \<and> m_consts c ! i = mk_const C_Symbol 0 dbl_zero s"
  by (auto simp: symbols_ok_def)

lemma add_const_symbols: "symbols_ok c \<Longrightarrow> symbols_ok (snd (add_const k c))"
  by (auto simp: symbols_ok_def add_const_def nth_append less_SucI)

lemma mk_const_sel [simp]:
  "c_kind (mk_const k i f s) = k" "c_sval (mk_const k i f s) = s" "c_ival (mk_const k i f s) = i"
  by (simp_all add: mk_const_def)

lemma internSymbol_ok:
  assumes ok: "symbols_ok c" and r: "internSymbol s c = (i, c1)"
  shows "symbols_ok c1" "map_of (m_symbols c1) s = Some i" "prefix (m_consts c) (m_consts c1)"
proof -
  have "symbols_ok c1 \<and> map_of (m_symbols c1) s = Some i \<and> prefix (m_consts c) (m_consts c1)"
  proof (cases "map_of (m_symbols c) s")
    case (Some j)
    with r ok show ?thesis by (simp add: internSymbol_def)
  next
    case None
    with r have c1: "i = length (m_consts c)"
      "m_consts c1 = m_consts c @ [mk_const C_Symbol 0 dbl_zero s]" "m_symbols c1 = (s, i) # m_symbols c"
      by (auto simp: internSymbol_def add_const_def)
    with ok show ?thesis by (auto simp: symbols_ok_def nth_append less_SucI)
  qed
  then show "symbols_ok c1" "map_of (m_symbols c1) s = Some i" "prefix (m_consts c) (m_consts c1)" by blast+
qed

text \<open>
  Interning is idempotent: the index \<open>internSymbol\<close> answers names a
  Symbol constant with exactly that text, no constant already there moves or
  changes, interning the same text again answers the same index and adds
  nothing, and another text gets another index.
\<close>

theorem intern_symbol:
  assumes "symbols_ok c" and "internSymbol s c = (i, c1)"
  shows "symbols_ok c1 \<and> i < length (m_consts c1) \<and> c_kind (m_consts c1 ! i) = C_Symbol \<and>
     c_sval (m_consts c1 ! i) = s \<and> prefix (m_consts c) (m_consts c1) \<and>
     internSymbol s c1 = (i, c1) \<and> (fst (internSymbol t c1) = i \<longleftrightarrow> t = s)"
proof -
  note o1 = internSymbol_ok [OF assms] and d = symbols_okD [OF internSymbol_ok(1,2) [OF assms]]
  have again: "internSymbol s c1 = (i, c1)" using o1(2) by (simp add: internSymbol_def)
  have "t = s" if eq: "fst (internSymbol t c1) = i"
  proof -
    have "internSymbol t c1 = (i, snd (internSymbol t c1))" using eq by (metis prod.collapse)
    note o2 = internSymbol_ok [OF o1(1) this]
    have "m_consts (snd (internSymbol t c1)) ! i = m_consts c1 ! i" using o2(3) d by (auto simp: prefix_def nth_append)
    with d symbols_okD [OF o2(1,2)] show ?thesis by (metis mk_const_sel(2))
  qed
  with o1 d again show ?thesis by auto
qed

lemma intern_symbol_witness:
  "c_sval (m_consts (snd (internSymbol ''foo'' empty_core)) ! fst (internSymbol ''foo'' empty_core)) = ''foo''"
  using intern_symbol [of empty_core "''foo''" "fst (internSymbol ''foo'' empty_core)"
      "snd (internSymbol ''foo'' empty_core)" "''foo''"]
  by (simp add: symbols_ok_def empty_core_def)

section \<open>Local slots\<close>

lemma max_slot_ge:
  "max_slot m as = Some s \<Longrightarrow> (\<forall>a \<in> set as. a \<le> s) \<and> (\<forall>x. m = Some x \<longrightarrow> x \<le> s)"
proof (induction m as rule: max_slot.induct)
  case (2 m a as)
  from "2.prems" have "max_slot (case m of None \<Rightarrow> Some a | Some x \<Rightarrow> if a > x then Some a else Some x) as = Some s"
    by simp
  from "2.IH" [OF this] show ?case by (cases m) (auto split: if_splits)
qed auto

lemma max_slot_some: "max_slot (Some x) as \<noteq> None"
  by (induction as arbitrary: x) auto

lemma max_slot_None: "max_slot None as = None \<longleftrightarrow> as = []"
  by (cases as) (simp_all add: max_slot_some)

text \<open>
  A frame has room for every local: each slot that a PUSH_LOCAL or
  STORE_LOCAL of the module names is below the count, which is at least the
  number of arguments; and the cached answer is the computed one, whatever
  argument count the cache was filled for.
\<close>

theorem local_count_sufficient:
  assumes "i \<in> set (decode c)" and "i_op i = op_byte PUSH_LOCAL \<or> i_op i = op_byte STORE_LOCAL"
    and "list_all (\<lambda>j. i_arg j < 2 ^ 32 - 1) (decode c)"
    and "cache = None \<or> (\<exists>a. cache = Some (a, computeLocalCount a c))"
  shows "i_arg i < fst (cachedLocalCount argc c cache) \<and> argc \<le> fst (cachedLocalCount argc c cache) \<and>
     snd (cachedLocalCount argc c cache) = Some (argc, computeLocalCount argc c)"
proof -
  have mem: "i_arg i \<in> set (local_slots (decode c))" using assms(1,2) by (auto simp: local_slots_def)
  then obtain s where s: "max_slot None (local_slots (decode c)) = Some s"
    using max_slot_None [of "local_slots (decode c)"] by (cases "max_slot None (local_slots (decode c))") auto
  have in_set: "max_slot m as = Some s \<Longrightarrow> s \<in> set as \<or> m = Some s" for m as
    by (induction m as rule: max_slot.induct) (auto split: option.splits if_splits)
  from in_set [OF s] have "s < 2 ^ 32 - 1" using assms(3) by (auto simp: local_slots_def list_all_iff)
  then have m: "(s + 1) mod 2 ^ 32 = s + 1" by simp
  have "i_arg i \<le> s" using max_slot_ge [OF s] mem by blast
  with s m have "i_arg i < computeLocalCount argc c" "argc \<le> computeLocalCount argc c"
    by (simp_all add: computeLocalCount_def Let_def)
  moreover have "fst (cachedLocalCount argc c cache) = computeLocalCount argc c"
    "snd (cachedLocalCount argc c cache) = Some (argc, computeLocalCount argc c)"
    using assms(4) by (auto simp: cachedLocalCount_def Let_def)
  ultimately show ?thesis by simp
qed

lemma local_count_sufficient_witness:
  "300 < fst (cachedLocalCount 0 (the (emitWide PUSH_LOCAL 300 1 empty_core)) None)"
proof -
  let ?c = "the (emitWide PUSH_LOCAL 300 1 empty_core)"
  have d: "decode ?c = [\<lparr>i_word = 0, i_words = 2, i_op = op_byte PUSH_LOCAL, i_arg = 300\<rparr>]"
    by (simp add: emitWide_def Let_def decode_def empty_core_def)
  show ?thesis
    using local_count_sufficient [of "\<lparr>i_word = 0, i_words = 2, i_op = op_byte PUSH_LOCAL, i_arg = 300\<rparr>" ?c None 0]
    by (simp add: d)
qed

section \<open>Operand depth\<close>

record depth_state =
  ds_depth :: int
  ds_max :: int
  ds_reach :: bool
  ds_targets :: "(nat \<times> int) list"

definition pushes :: "int \<Rightarrow> depth_state \<Rightarrow> depth_state" where
  "pushes n st = (let d = max 0 (ds_depth st + n) in st\<lparr>ds_depth := d, ds_max := max (ds_max st) d\<rparr>)"

definition jump_to :: "nat \<Rightarrow> int \<Rightarrow> depth_state \<Rightarrow> depth_state" where
  "jump_to target d st =
     (let t = (case map_of (ds_targets st) target of None \<Rightarrow> 0 | Some x \<Rightarrow> x)
      in st\<lparr>ds_targets := (target, if d > t then d else t) # ds_targets st\<rparr>)"

text \<open>What an instruction adds to the depth; \<open>None\<close> where the switch calls nothing.\<close>

definition stack_effect :: "core \<Rightarrow> op \<Rightarrow> nat \<Rightarrow> int option" where
  "stack_effect c o' arg =
     (if o' \<in> {PUSH_CONST, PUSH_LOCAL, DUP, PUSH_SELF, PUSH_NIL, PUSH_TRUE, PUSH_FALSE, PUSH_BLOCK,
               PUSH_CAPTURED, PUSH_GLOBAL, PUSH_INSTVAR, PUSH_OWN_INSTVAR} then Some 1
      else if o' \<in> {STORE_LOCAL, POP, STORE_CAPTURED, STORE_GLOBAL, STORE_INSTVAR, STORE_CLASSVAR,
                    DEFINE_CAPTURED} then Some (- 1)
      else if o' \<in> {SEND_UNARY, SEND_BINARY, SEND_KEYWORD, SEND_SUPER, SEND_CALL} then
        (if arg < length (m_consts c) then Some (- int (sendArgCount o' (c_sval (m_consts c ! arg)))) else None)
      else if o' \<in> {BIN_INT_ADD, BIN_INT_SUB, BIN_INT_LE, BIN_INT_LT, BIN_INT_GE, BIN_INT_GT, BIN_INT_EQ}
        then Some (- 1)
      else if o' = MAKE_ARRAY then Some (1 - int arg)
      else if o' = IVAR_GROUP_END then
        (if arg < length (m_groups c) \<and> g_count (m_groups c ! arg) > 0
         then Some (1 - int (g_count (m_groups c ! arg))) else None)
      else if o' = JUMP_IF_TRUE \<or> o' = JUMP_IF_FALSE then Some (- 1)
      else None)"

definition at_target :: "nat \<Rightarrow> depth_state \<Rightarrow> depth_state" where
  "at_target start st =
     (case map_of (ds_targets st) start of
        None \<Rightarrow> st
      | Some t \<Rightarrow> st\<lparr>ds_depth := (if ds_reach st then max (ds_depth st) t else t), ds_reach := True\<rparr>)"

definition apply_effect :: "core \<Rightarrow> op option \<Rightarrow> nat \<Rightarrow> depth_state \<Rightarrow> depth_state" where
  "apply_effect c mo arg st =
     (case mo of
        None \<Rightarrow> st
      | Some o' \<Rightarrow> (case stack_effect c o' arg of None \<Rightarrow> st | Some n \<Rightarrow> pushes n st))"

definition depth_instr :: "core \<Rightarrow> instr \<Rightarrow> depth_state \<Rightarrow> depth_state" where
  "depth_instr c i st =
     (let pc = 2 * (i_word i + i_words i);
          mo = op_of (i_op i);
          st1 = apply_effect c mo (i_arg i) (at_target (2 * i_word i) st)
      in if mo = Some JUMP_IF_TRUE \<or> mo = Some JUMP_IF_FALSE
         then jump_to (pc + i_arg i * 2) (ds_depth st1) st1
         else if mo = Some JUMP then (jump_to (pc + i_arg i * 2) (ds_depth st1) st1)\<lparr>ds_reach := False\<rparr>
         else if mo = Some JUMP_BACK \<or> mo = Some RETURN \<or> mo = Some RETURN_TOP then st1\<lparr>ds_reach := False\<rparr>
         else st1)"

definition depth_init :: depth_state where
  "depth_init = \<lparr>ds_depth = 0, ds_max = 0, ds_reach = True, ds_targets = []\<rparr>"

definition computeMaxOperandDepth :: "core \<Rightarrow> int" where
  "computeMaxOperandDepth c = min (ds_max (fold (depth_instr c) (decode c) depth_init)) (2 ^ 31 - 1)"

definition operandStackCapacity :: "core \<Rightarrow> int" where
  "operandStackCapacity c = (let d = computeMaxOperandDepth c in if d > 48 then d else 48)"

section \<open>The depth is enough\<close>

text \<open>
  Where control goes after an instruction (byte offsets), and the depths the
  operand stack really has when control gets there.
\<close>

definition instr_succs :: "instr \<Rightarrow> nat list" where
  "instr_succs i =
     (let pc = 2 * (i_word i + i_words i); mo = op_of (i_op i)
      in if mo = Some JUMP then [pc + i_arg i * 2]
         else if mo = Some JUMP_IF_TRUE \<or> mo = Some JUMP_IF_FALSE then [pc, pc + i_arg i * 2]
         else if mo = Some JUMP_BACK then [pc - i_arg i * 2]
         else if mo = Some RETURN \<or> mo = Some RETURN_TOP then []
         else [pc])"

definition effect_of :: "core \<Rightarrow> instr \<Rightarrow> int" where
  "effect_of c i =
     (case op_of (i_op i) of
        None \<Rightarrow> 0
      | Some o' \<Rightarrow> (case stack_effect c o' (i_arg i) of None \<Rightarrow> 0 | Some n \<Rightarrow> n))"

inductive depth_at :: "core \<Rightarrow> nat \<Rightarrow> int \<Rightarrow> bool" for c where
  entry: "depth_at c 0 0"
| step: "depth_at c (2 * i_word i) d \<Longrightarrow> i \<in> set (decode c) \<Longrightarrow> q \<in> set (instr_succs i) \<Longrightarrow>
    depth_at c q (d + effect_of c i)"

text \<open>The same without the back edges of loops.\<close>

inductive fwd_depth :: "core \<Rightarrow> nat \<Rightarrow> int \<Rightarrow> bool" for c where
  fentry: "fwd_depth c 0 0"
| fstep: "fwd_depth c (2 * i_word i) d \<Longrightarrow> i \<in> set (decode c) \<Longrightarrow> q \<in> set (instr_succs i) \<Longrightarrow>
    op_of (i_op i) \<noteq> Some JUMP_BACK \<Longrightarrow> fwd_depth c q (d + effect_of c i)"

text \<open>Every loop closes where it started, at the depth it started with.\<close>

definition loops_balanced :: "core \<Rightarrow> bool" where
  "loops_balanced c \<longleftrightarrow> (\<forall>i d. i \<in> set (decode c) \<longrightarrow> op_of (i_op i) = Some JUMP_BACK \<longrightarrow>
     fwd_depth c (2 * i_word i) d \<longrightarrow> fwd_depth c (2 * (i_word i + i_words i) - i_arg i * 2) d)"

lemma depth_at_fwd:
  assumes "loops_balanced c"
  shows "depth_at c p d \<Longrightarrow> fwd_depth c p d"
proof (induction rule: depth_at.induct)
  case entry
  show ?case by (rule fentry)
next
  case (step i d q)
  show ?case
  proof (cases "op_of (i_op i) = Some JUMP_BACK")
    case True
    with step have "q = 2 * (i_word i + i_words i) - i_arg i * 2" "effect_of c i = 0"
      by (auto simp: instr_succs_def effect_of_def stack_effect_def)
    with assms step True show ?thesis by (auto simp: loops_balanced_def)
  next
    case False
    with step show ?thesis by (intro fstep) auto
  qed
qed

text \<open>Where the instructions are.\<close>

lemma decode_one_words: "decode_one b arg w bs = (b', arg', w', bs') \<Longrightarrow> w \<le> w'"
  by (induction b arg w bs rule: decode_one.induct) (auto split: if_splits)

lemma decode_from_words:
  "k < length (decode_from w bs) \<Longrightarrow>
   w \<le> i_word (decode_from w bs ! k) \<and> 1 \<le> i_words (decode_from w bs ! k) \<and>
   (k = 0 \<longrightarrow> i_word (decode_from w bs ! k) = w) \<and>
   (Suc k < length (decode_from w bs) \<longrightarrow>
      i_word (decode_from w bs ! Suc k) = i_word (decode_from w bs ! k) + i_words (decode_from w bs ! k))"
proof (induction w bs arbitrary: k rule: decode_from.induct)
  case (1 w b a bs)
  obtain b' arg n bs' where d: "decode_one b (unat a) 1 bs = (b', arg, n, bs')" by (metis prod_cases4)
  note ih = 1(1) [OF refl, of b' "(arg, n, bs')" arg "(n, bs')" n bs']
  have e: "decode_from w (b # a # bs) =
      \<lparr>i_word = w, i_words = n, i_op = b', i_arg = arg\<rparr> # decode_from (w + n) bs'" using d by simp
  show ?case
  proof (cases k)
    case 0
    have "decode_from (w + n) bs' \<noteq> [] \<longrightarrow> i_word (decode_from (w + n) bs' ! 0) = w + n"
      using ih [of 0] d by auto
    with 0 e decode_one_words [OF d] show ?thesis by simp
  next
    case (Suc j)
    with 1(2) e have "j < length (decode_from (w + n) bs')" by simp
    with ih [of j] d Suc e show ?thesis by auto
  qed
qed simp_all

lemma decode_words:
  assumes "k < length (decode c)"
  shows "1 \<le> i_words (decode c ! k)" "k = 0 \<Longrightarrow> i_word (decode c ! k) = 0"
    "Suc k < length (decode c) \<Longrightarrow>
       i_word (decode c ! Suc k) = i_word (decode c ! k) + i_words (decode c ! k)"
  using decode_from_words [of k 0 "m_bytes c"] assms by (simp_all add: decode_def)

lemma decode_words_less:
  "j < k \<Longrightarrow> k < length (decode c) \<Longrightarrow>
   i_word (decode c ! j) + i_words (decode c ! j) \<le> i_word (decode c ! k)"
proof (induction k)
  case (Suc k)
  have "i_word (decode c ! Suc k) = i_word (decode c ! k) + i_words (decode c ! k)"
    using decode_words(3) [of k c] Suc.prems by simp
  with Suc show ?case by (cases "j = k") (auto simp: less_Suc_eq)
qed simp

lemma decode_words_inj:
  assumes "j < length (decode c)" "k < length (decode c)" "i_word (decode c ! j) = i_word (decode c ! k)"
  shows "j = k"
  using assms decode_words_less [of j k c] decode_words_less [of k j c] decode_words(1) [of j c] decode_words(1) [of k c]
  by (metis add_le_same_cancel1 le_zero_eq linorder_neqE_nat not_one_le_zero)

section \<open>The scan covers the depths\<close>

definition covered :: "depth_state \<Rightarrow> nat \<Rightarrow> int \<Rightarrow> bool" where
  "covered st p d \<longleftrightarrow> (ds_reach st \<and> d \<le> ds_depth st) \<or> (\<exists>t. map_of (ds_targets st) p = Some t \<and> d \<le> t)"

definition st_ok :: "depth_state \<Rightarrow> bool" where
  "st_ok st \<longleftrightarrow> 0 \<le> ds_max st \<and> ds_depth st \<le> ds_max st \<and>
     (\<forall>p t. map_of (ds_targets st) p = Some t \<longrightarrow> t \<le> ds_max st)"

definition target_below :: "depth_state \<Rightarrow> depth_state \<Rightarrow> bool" where
  "target_below st st' \<longleftrightarrow> ds_max st \<le> ds_max st' \<and>
     (\<forall>p t. map_of (ds_targets st) p = Some t \<longrightarrow> (\<exists>t'. map_of (ds_targets st') p = Some t' \<and> t \<le> t'))"

lemma target_below_refl [simp]: "target_below st st"
  by (auto simp: target_below_def)

lemma target_below_trans: "target_below a b \<Longrightarrow> target_below b c \<Longrightarrow> target_below a c"
  unfolding target_below_def by (meson order_trans)

lemma apply_effect_spec:
  assumes "st_ok st"
  shows "st_ok (apply_effect c (op_of (i_op i)) (i_arg i) st)"
    "ds_targets (apply_effect c (op_of (i_op i)) (i_arg i) st) = ds_targets st"
    "ds_reach (apply_effect c (op_of (i_op i)) (i_arg i) st) = ds_reach st"
    "ds_max st \<le> ds_max (apply_effect c (op_of (i_op i)) (i_arg i) st)"
    "ds_depth st + effect_of c i \<le> ds_depth (apply_effect c (op_of (i_op i)) (i_arg i) st)"
proof -
  have p: "st_ok (pushes n st)" for n
  proof -
    have "t \<le> max (ds_max st) (max 0 (ds_depth st + n))" if "map_of (ds_targets st) p = Some t" for p t
      using that assms by (auto simp: st_ok_def intro: le_max_iff_disj [THEN iffD2])
    with assms show ?thesis by (auto simp: st_ok_def pushes_def Let_def)
  qed
  show "st_ok (apply_effect c (op_of (i_op i)) (i_arg i) st)"
    using p assms by (auto simp: apply_effect_def split: option.split)
qed (auto simp: apply_effect_def effect_of_def pushes_def Let_def split: option.split)

lemma at_target_spec:
  assumes "st_ok st"
  shows "st_ok (at_target p st)" "ds_targets (at_target p st) = ds_targets st" "ds_max (at_target p st) = ds_max st"
    "covered st p d \<Longrightarrow> ds_reach (at_target p st) \<and> d \<le> ds_depth (at_target p st)"
  using assms by (auto simp: at_target_def st_ok_def covered_def split: option.splits)

lemma jump_to_spec:
  assumes "st_ok st" "d \<le> ds_max st"
  shows "st_ok (jump_to q d st)" "target_below st (jump_to q d st)"
    "ds_depth (jump_to q d st) = ds_depth st" "ds_reach (jump_to q d st) = ds_reach st"
    "ds_max (jump_to q d st) = ds_max st"
    "\<exists>t. map_of (ds_targets (jump_to q d st)) q = Some t \<and> d \<le> t"
  using assms by (auto simp: jump_to_def Let_def st_ok_def target_below_def split: option.splits)

lemma st_ok_reach [simp]: "st_ok (st\<lparr>ds_reach := b\<rparr>) = st_ok st"
  by (simp add: st_ok_def)

lemma target_below_reach [simp]: "target_below st (st'\<lparr>ds_reach := b\<rparr>) = target_below st st'"
  by (simp add: target_below_def)

lemma depth_instr_spec:
  assumes ok: "st_ok st"
  shows "st_ok (depth_instr c i st)" "target_below st (depth_instr c i st)"
    "covered st (2 * i_word i) d \<Longrightarrow> q \<in> set (instr_succs i) \<Longrightarrow> op_of (i_op i) \<noteq> Some JUMP_BACK \<Longrightarrow>
     d + effect_of c i \<le> ds_max (depth_instr c i st) \<and>
     (if q = 2 * (i_word i + i_words i) then covered (depth_instr c i st) q (d + effect_of c i)
      else \<exists>t. map_of (ds_targets (depth_instr c i st)) q = Some t \<and> d + effect_of c i \<le> t)"
proof -
  let ?a = "at_target (2 * i_word i) st"
  let ?b = "apply_effect c (op_of (i_op i)) (i_arg i) ?a"
  let ?pc = "2 * (i_word i + i_words i)"
  note a = at_target_spec [OF ok, of "2 * i_word i"]
  note b = apply_effect_spec [OF a(1), of c i]
  have bm: "ds_depth ?b \<le> ds_max ?b" using b(1) by (simp add: st_ok_def)
  note j = jump_to_spec [OF b(1) bm, of "?pc + i_arg i * 2"]
  have below: "target_below st ?b" using a(2,3) b(2,4) by (auto simp: target_below_def)
  show "st_ok (depth_instr c i st)" using b(1) j(1) by (auto simp: depth_instr_def Let_def)
  show "target_below st (depth_instr c i st)"
    using below target_below_trans [OF below j(2)] by (auto simp: depth_instr_def Let_def)
  assume cov: "covered st (2 * i_word i) d" and q: "q \<in> set (instr_succs i)" and nb: "op_of (i_op i) \<noteq> Some JUMP_BACK"
  from a(4) [OF cov] have "ds_reach ?b" "d + effect_of c i \<le> ds_depth ?b" using b(3,5) by auto
  with bm j q nb show "d + effect_of c i \<le> ds_max (depth_instr c i st) \<and>
     (if q = ?pc then covered (depth_instr c i st) q (d + effect_of c i)
      else \<exists>t. map_of (ds_targets (depth_instr c i st)) q = Some t \<and> d + effect_of c i \<le> t)"
    by (auto simp: depth_instr_def Let_def instr_succs_def covered_def split: if_splits intro: order_trans)
qed

definition scan_state :: "core \<Rightarrow> nat \<Rightarrow> depth_state" where
  "scan_state c k = fold (depth_instr c) (take k (decode c)) depth_init"

lemma scan_state_0 [simp]: "scan_state c 0 = depth_init"
  by (simp add: scan_state_def)

lemma scan_state_Suc:
  "k < length (decode c) \<Longrightarrow> scan_state c (Suc k) = depth_instr c (decode c ! k) (scan_state c k)"
  by (simp add: scan_state_def take_Suc_conv_app_nth)

lemma scan_state_ok: "k \<le> length (decode c) \<Longrightarrow> st_ok (scan_state c k)"
proof (induction k)
  case 0
  show ?case by (simp add: depth_init_def st_ok_def)
qed (simp add: scan_state_Suc depth_instr_spec)

lemma scan_state_below:
  "j \<le> k \<Longrightarrow> k \<le> length (decode c) \<Longrightarrow> target_below (scan_state c j) (scan_state c k)"
proof (induction k)
  case (Suc k)
  show ?case
  proof (cases "j = Suc k")
    case False
    with Suc have "target_below (scan_state c j) (scan_state c k)" by simp
    moreover have "target_below (scan_state c k) (scan_state c (Suc k))"
      using Suc.prems depth_instr_spec(2) [OF scan_state_ok] by (simp add: scan_state_Suc)
    ultimately show ?thesis by (rule target_below_trans)
  qed simp
qed simp

lemma fwd_depth_covered:
  "fwd_depth c p d \<Longrightarrow>
   d \<le> ds_max (scan_state c (length (decode c))) \<and>
   (\<forall>k < length (decode c). 2 * i_word (decode c ! k) = p \<longrightarrow> covered (scan_state c k) p d)"
proof (induction rule: fwd_depth.induct)
  case fentry
  have "covered (scan_state c k) 0 0" if "k < length (decode c)" "2 * i_word (decode c ! k) = 0" for k
  proof -
    have "k = 0" using that decode_words_inj [of k c 0] decode_words(2) [of 0 c] by fastforce
    then show ?thesis by (simp add: covered_def depth_init_def)
  qed
  moreover have "0 \<le> ds_max (scan_state c (length (decode c)))"
    using scan_state_ok [of "length (decode c)" c] unfolding st_ok_def by linarith
  ultimately show ?case by blast
next
  case (fstep i d q)
  obtain j where j: "j < length (decode c)" "decode c ! j = i" using fstep(2) by (metis in_set_conv_nth)
  let ?d = "d + effect_of c i" and ?pc = "2 * (i_word i + i_words i)"
  have ok: "st_ok (scan_state c j)" using j(1) by (simp add: scan_state_ok)
  have cov: "covered (scan_state c j) (2 * i_word i) d" using fstep.IH j by auto
  note sp = depth_instr_spec(3) [OF ok cov fstep(3,4), of c]
  have nxt: "scan_state c (Suc j) = depth_instr c i (scan_state c j)" using j by (simp add: scan_state_Suc)
  have below: "target_below (scan_state c (Suc j)) (scan_state c k)"
    if "Suc j \<le> k" "k \<le> length (decode c)" for k using that by (rule scan_state_below)
  have "?d \<le> ds_max (scan_state c (length (decode c)))"
    using sp nxt below [of "length (decode c)"] j(1) by (auto simp: target_below_def)
  moreover have "covered (scan_state c k) q ?d" if k: "k < length (decode c)" "2 * i_word (decode c ! k) = q" for k
  proof -
    have "?pc \<le> q" using fstep(3,4) by (auto simp: instr_succs_def Let_def split: if_splits)
    with k(2) j(2) have "i_word (decode c ! j) + i_words (decode c ! j) \<le> i_word (decode c ! k)" by simp
    then have lt: "i_word (decode c ! j) < i_word (decode c ! k)" using decode_words(1) [OF j(1)] by simp
    have jk: "j < k"
    proof (rule ccontr)
      assume "\<not> j < k"
      then have "k = j \<or> k < j" by auto
      then show False using lt decode_words_less [of k j c] j(1) by auto
    qed
    show ?thesis
    proof (cases "q = ?pc")
      case True
      have "i_word (decode c ! Suc j) = i_word (decode c ! k)"
        using decode_words(3) [OF j(1)] jk k True j(2) by simp
      then have "k = Suc j" using decode_words_inj [of "Suc j" c k] jk k(1) by simp
      with sp nxt True show ?thesis by simp
    next
      case False
      with sp nxt obtain t where "map_of (ds_targets (scan_state c (Suc j))) q = Some t" "?d \<le> t" by auto
      with below [of k] jk k(1) obtain t' where "map_of (ds_targets (scan_state c k)) q = Some t'" "?d \<le> t'"
        unfolding target_below_def by (metis Suc_leI less_imp_le order_trans)
      then show ?thesis by (auto simp: covered_def)
    qed
  qed
  ultimately show ?case by blast
qed


definition sample_loop :: core where
  "sample_loop = emit RETURN 0 1 (emit JUMP_BACK 5 1 (emit JUMP_IF_FALSE 1 1 (emit BIN_INT_LT 0 1
     (emit PUSH_NIL 0 1 (emit PUSH_TRUE 0 1 empty_core)))))"


end
