(* ===== verification/Classes.thy ===== *)
theory Classes
  imports Ast "HOL-Library.AList"
begin

text \<open>
  src/frontend/Compiler.cpp, the class records: what the compiler knows of each
  class (declared in this module, compiled earlier in the process, or entered
  earlier at the prompt) and the instance and class variables a method of a
  class sees.  An \<open>unordered_map\<close> is an association list; nothing but the
  order of the error messages depends on the order of its entries.
\<close>

record class_info =
  ci_name :: string
  ci_super :: string
  ci_ivars :: "string list"
  ci_cvars :: "string list"
  ci_civars :: "string list"
  ci_mixins :: "string list"

type_synonym class_map = "(string \<times> class_info) list"

abbreviation (input) empty_info :: class_info where
  "empty_info \<equiv> \<lparr>ci_name = [], ci_super = [], ci_ivars = [], ci_cvars = [], ci_civars = [], ci_mixins = []\<rparr>"

text \<open>The \<open>i\<close>-th child, if there is one and it is not null.\<close>

definition kid :: "node \<Rightarrow> nat \<Rightarrow> node option" where
  "kid n i = (if i < length (n_children n) then n_children n ! i else None)"

lemma kid_size: "kid n i = Some m \<Longrightarrow> size m < size n"
proof -
  assume "kid n i = Some m"
  then have "Some m \<in> set (n_children n)" by (auto simp: kid_def split: if_splits) (metis nth_mem)
  then have "size_option size (Some m) \<le> size_list (size_option size) (n_children n)"
    by (rule size_list_estimation') simp
  then show ?thesis by (cases n) simp
qed

section \<open>Superclass chains\<close>

text \<open>The classes from \<open>cur\<close> up, stopping at an unknown class or a repeated one.\<close>

function super_chain :: "class_map \<Rightarrow> string list \<Rightarrow> string \<Rightarrow> class_info list" where
  "super_chain cl seen cur =
     (if cur = [] \<or> cur \<in> set seen then []
      else case map_of cl cur of
        None \<Rightarrow> []
      | Some ci \<Rightarrow> ci # super_chain cl (cur # seen) (ci_super ci))"
  by pat_completeness auto
termination
proof (relation "measure (\<lambda>(cl, seen, cur). card (fst ` set cl - set seen))", goal_cases)
  case (2 cl seen cur ci)
  then have c: "cur \<in> fst ` set cl - set seen" by (force dest: map_of_SomeD)
  have "fst ` set cl - set (cur # seen) = (fst ` set cl - set seen) - {cur}" by auto
  moreover have "card ((fst ` set cl - set seen) - {cur}) < card (fst ` set cl - set seen)"
    using c by (intro card_Diff1_less) simp_all
  ultimately show ?case by simp
qed simp

declare super_chain.simps [simp del]

text \<open>Keeps the first occurrence of each name (\<open>seenNames.insert(iv).second\<close>).\<close>

definition add_new :: "string list \<Rightarrow> string list \<Rightarrow> string list" where
  "add_new acc xs = foldl (\<lambda>a x. if x \<in> set a then a else a @ [x]) acc xs"

text \<open>
  The mixins of a class are searched by a recursive call with no guard against
  a cycle but the class itself, so the recursion need not end: \<open>fuel\<close> bounds
  its depth and \<open>None\<close> is running out of it.
\<close>

fun mixin_vars :: "(string \<Rightarrow> string list option) \<Rightarrow> string \<Rightarrow> string list \<Rightarrow> string list \<Rightarrow> string list option" where
  "mixin_vars rec cls [] acc = Some acc"
| "mixin_vars rec cls (m # ms) acc =
     (if m = cls then mixin_vars rec cls ms acc
      else case rec m of None \<Rightarrow> None | Some vs \<Rightarrow> mixin_vars rec cls ms (add_new acc vs))"

fun info_vars :: "(string \<Rightarrow> string list option) \<Rightarrow> string \<Rightarrow> bool \<Rightarrow> class_info list \<Rightarrow> string list \<Rightarrow> string list option" where
  "info_vars rec cls side [] acc = Some acc"
| "info_vars rec cls side (ci # cis) acc =
     (case mixin_vars rec cls (ci_mixins ci) (add_new acc (if side then ci_civars ci else ci_ivars ci)) of
        None \<Rightarrow> None
      | Some acc' \<Rightarrow> info_vars rec cls side cis acc')"

fun inst_vars_fuel :: "nat \<Rightarrow> class_map \<Rightarrow> bool \<Rightarrow> string \<Rightarrow> string list option" where
  "inst_vars_fuel 0 cl side cls = None"
| "inst_vars_fuel (Suc n) cl side cls =
     info_vars (inst_vars_fuel n cl side) cls side (rev (super_chain cl [] cls)) []"

text \<open>
  A call chain deeper than the number of classes and one more repeats a class
  and never ends.
\<close>

definition instVarsThroughChain :: "class_map \<Rightarrow> string \<Rightarrow> bool \<Rightarrow> string list option" where
  "instVarsThroughChain cl cls side = inst_vars_fuel (length cl + 2) cl side cls"

definition resolveClassVarsFor :: "class_map \<Rightarrow> string \<Rightarrow> string list" where
  "resolveClassVarsFor cl cls = foldl (\<lambda>acc ci. add_new acc (ci_cvars ci)) [] (super_chain cl [] cls)"

section \<open>Collecting the classes of a module\<close>

text \<open>The text of a name list, cut at white space.\<close>

fun split_words :: "string \<Rightarrow> string \<Rightarrow> string list" where
  "split_words word [] = (if word = [] then [] else [word])"
| "split_words word (c # cs) =
     (if isspace c then (if word = [] then split_words [] cs else word # split_words [] cs)
      else split_words (word @ [c]) cs)"

definition class_of_decl :: "node \<Rightarrow> class_info" where
  "class_of_decl cd =
     (let ss = n_strings cd; ivEnd = 1 + nat (n_int cd)
      in \<lparr>ci_name = n_text cd,
          ci_super = (if ss = [] then [] else ss ! 0),
          ci_ivars = drop 1 (take ivEnd ss),
          ci_cvars = drop ivEnd ss,
          ci_civars = [],
          ci_mixins =
            (case kid cd 0 of
               None \<Rightarrow> []
             | Some l \<Rightarrow>
                 if n_kind l = N_DynArrayLit \<or> n_kind l = N_ArrayLit
                 then map n_text (filter (\<lambda>e. n_kind e = N_Identifier \<or> n_kind e = N_SymbolLit)
                                    (List.map_filter id (n_children l)))
                 else [])\<rparr>)"

fun twice_declared :: "string \<Rightarrow> string list \<Rightarrow> string list \<Rightarrow> string list" where
  "twice_declared cls seen [] = []"
| "twice_declared cls seen (iv # ivs) =
     (if iv \<in> set seen then [''instance variable '' @ [SQ] @ iv @ [SQ] @ '' is declared twice in '' @ cls] else [])
     @ twice_declared cls (seen @ [iv]) ivs"

definition collect_decl :: "node option \<Rightarrow> class_map \<times> string list \<Rightarrow> class_map \<times> string list" where
  "collect_decl x s =
     (case x of
        None \<Rightarrow> s
      | Some cd \<Rightarrow>
          if n_kind cd \<noteq> N_ClassDecl then s
          else (let info = class_of_decl cd
                in (AList.update (ci_name info) info (fst s), snd s @ twice_declared (ci_name info) [] (ci_ivars info))))"

text \<open>\<open>Name class instanceVariableNames: 'a b'\<close> at the top level.\<close>

definition collect_class_side :: "node option \<Rightarrow> class_map \<Rightarrow> class_map" where
  "collect_class_side x cl =
     (case x of
        None \<Rightarrow> cl
      | Some t \<Rightarrow>
          if n_kind t = N_KeywordSend \<and> n_text t = ''instanceVariableNames:'' \<and> length (n_children t) = 2
          then (case (kid t 0, kid t 1) of
                  (Some recv, Some names) \<Rightarrow>
                    (if n_kind recv = N_UnarySend \<and> n_text recv = ''class'' \<and> n_kind names = N_StringLit
                     then (case kid recv 0 of
                             Some r \<Rightarrow>
                               (if n_kind r = N_Identifier
                                then (case map_of cl (n_text r) of
                                        None \<Rightarrow> cl
                                      | Some ci \<Rightarrow> AList.update (n_text r)
                                          (ci\<lparr>ci_civars := ci_civars ci @ split_words [] (n_text names)\<rparr>) cl)
                                else cl)
                           | None \<Rightarrow> cl)
                     else cl)
                | _ \<Rightarrow> cl)
          else cl)"

definition inherited_again :: "class_map \<Rightarrow> string \<times> class_info \<Rightarrow> string list" where
  "inherited_again cl e =
     (let (name, info) = e
      in concat (map (\<lambda>(sup, ci). map (\<lambda>iv. ''instance variable '' @ [SQ] @ iv @ [SQ] @ '' of '' @ name @
                        '' is already defined in its superclass '' @ sup)
                      (filter (\<lambda>iv. iv \<in> set (ci_ivars ci)) (ci_ivars info)))
           (zip (ci_super info # map ci_super (super_chain cl [] (ci_super info)))
                (super_chain cl [] (ci_super info)))))"

definition publishToSharedClassRegistry :: "node \<Rightarrow> class_map \<Rightarrow> class_map \<Rightarrow> class_map" where
  "publishToSharedClassRegistry md cl registry =
     (if n_kind md \<noteq> N_Module then registry
      else foldl (\<lambda>r x. case x of
          None \<Rightarrow> r
        | Some t \<Rightarrow>
            (if n_kind t \<noteq> N_ClassDecl then r
             else case map_of cl (n_text t) of None \<Rightarrow> r | Some ci \<Rightarrow> AList.update (n_text t) ci r))
        registry (n_children md))"

text \<open>Answers the classes, the errors and the registry.\<close>

definition collectClasses :: "class_map \<Rightarrow> class_map \<Rightarrow> node \<Rightarrow> class_map \<times> string list \<times> class_map" where
  "collectClasses registry known md =
     (let cl0 = foldl (\<lambda>m (k, v). AList.update k v m) registry known
      in if n_kind md \<noteq> N_Module then (cl0, [], registry)
         else
           (let (cl1, errs) = foldl (\<lambda>s x. collect_decl x s) (cl0, []) (n_children md);
                cl2 = foldl (\<lambda>m x. collect_class_side x m) cl1 (n_children md)
            in (cl2, errs @ concat (map (inherited_again cl2) cl2),
                publishToSharedClassRegistry md cl2 registry)))"

end
