(* ===== verification/ClassesMixins.thy ===== *)
theory ClassesMixins
  imports Classes
begin

text \<open>
  The search for the instance variables a method sees goes through the mixins
  of every class of the superclass chain.  Its recursion ends exactly when some
  depth is enough for it, the depth the model gives it is then enough, and two
  classes that mix in each other are a case where none is.
\<close>

section \<open>What a call calls\<close>

definition called :: "class_map \<Rightarrow> string \<Rightarrow> string set" where
  "called cl cls = (\<Union>ci \<in> set (super_chain cl [] cls). set (ci_mixins ci)) - {cls}"

lemma mixin_vars_cong:
  assumes "\<And>m. m \<in> set ms - {cls} \<Longrightarrow> r m = r' m"
  shows "mixin_vars r cls ms acc = mixin_vars r' cls ms acc"
  using assms by (induction ms arbitrary: acc) (auto split: option.split)

lemma info_vars_cong:
  assumes "\<And>m. m \<in> (\<Union>ci \<in> set cis. set (ci_mixins ci)) - {cls} \<Longrightarrow> r m = r' m"
  shows "info_vars r cls side cis acc = info_vars r' cls side cis acc"
  using assms
proof (induction cis arbitrary: acc)
  case (Cons ci cis)
  have "mixin_vars r cls (ci_mixins ci) a = mixin_vars r' cls (ci_mixins ci) a" for a
    using Cons.prems by (intro mixin_vars_cong) auto
  then show ?case using Cons.IH Cons.prems by (auto split: option.split)
qed simp

lemma mixin_vars_None:
  "mixin_vars r cls ms acc = None \<longleftrightarrow> (\<exists>m \<in> set ms - {cls}. r m = None)"
  by (induction ms arbitrary: acc) (auto split: option.split)

lemma info_vars_None:
  "info_vars r cls side cis acc = None \<longleftrightarrow> (\<exists>ci \<in> set cis. \<exists>m \<in> set (ci_mixins ci) - {cls}. r m = None)"
proof (induction cis arbitrary: acc)
  case (Cons ci cis)
  show ?case
  proof (cases "\<exists>m \<in> set (ci_mixins ci) - {cls}. r m = None")
    case True
    then have "mixin_vars r cls (ci_mixins ci) a = None" for a by (simp only: mixin_vars_None)
    with True show ?thesis by auto
  next
    case False
    then have "mixin_vars r cls (ci_mixins ci) a \<noteq> None" for a by (simp only: mixin_vars_None) simp
    then obtain b where "mixin_vars r cls (ci_mixins ci) (add_new acc (if side then ci_civars ci else ci_ivars ci)) = Some b"
      by blast
    with Cons.IH [of b] False show ?thesis by (simp del: not_None_eq)
  qed
qed simp

section \<open>How deep the calls go\<close>

text \<open>The classes the search ends for within depth \<open>k\<close>.\<close>

definition ends :: "class_map \<Rightarrow> bool \<Rightarrow> nat \<Rightarrow> string set" where
  "ends cl side k = {cls. inst_vars_fuel k cl side cls \<noteq> None}"

lemma ends_Suc: "ends cl side (Suc k) = {cls. called cl cls \<subseteq> ends cl side k}"
  by (auto simp: ends_def info_vars_None called_def simp del: not_None_eq)

lemma ends_0: "ends cl side 0 = {}"
  by (simp add: ends_def)

lemma ends_step: "ends cl side k \<subseteq> ends cl side (Suc k)"
  by (induction k) (auto simp: ends_0 ends_Suc)

lemma ends_mono: "i \<le> j \<Longrightarrow> ends cl side i \<subseteq> ends cl side j"
  by (rule lift_Suc_mono_le) (rule ends_step)

lemma ends_stable: "ends cl side k = ends cl side (Suc k) \<Longrightarrow> ends cl side (k + n) = ends cl side k"
proof (induction n)
  case (Suc n)
  then have "ends cl side (k + n) = ends cl side k" by blast
  then have "ends cl side (Suc (k + n)) = ends cl side (Suc k)" unfolding ends_Suc by (rule arg_cong)
  with Suc.prems show ?case by (metis add_Suc_right)
qed simp

text \<open>A class the compiler does not know calls nothing.\<close>

lemma unknown_ends: "cls \<notin> fst ` set cl \<Longrightarrow> cls \<in> ends cl side (Suc k)"
  by (simp add: ends_Suc called_def super_chain.simps [of cl "[]" cls] map_of_eq_None_iff [THEN iffD2])

lemma ends_grow_or_stop:
  "(\<exists>i \<le> j. ends cl side (Suc i) = ends cl side (Suc (Suc i))) \<or> j \<le> card (ends cl side (Suc j) \<inter> fst ` set cl)"
proof (induction j)
  case (Suc j)
  let ?K = "fst ` set cl"
  show ?case
  proof (cases "\<exists>i \<le> Suc j. ends cl side (Suc i) = ends cl side (Suc (Suc i))")
    case False
    then have "j \<le> card (ends cl side (Suc j) \<inter> ?K)" "ends cl side (Suc j) \<noteq> ends cl side (Suc (Suc j))"
      using Suc le_Suc_eq by blast+
    moreover from this(2) obtain c where c: "c \<in> ends cl side (Suc (Suc j))" "c \<notin> ends cl side (Suc j)"
      using ends_step [of cl side "Suc j"] by blast
    have "c \<in> ?K" using c(2) unknown_ends by blast
    with c ends_step [of cl side "Suc j"] have "ends cl side (Suc j) \<inter> ?K \<subset> ends cl side (Suc (Suc j)) \<inter> ?K" by blast
    then have "card (ends cl side (Suc j) \<inter> ?K) < card (ends cl side (Suc (Suc j)) \<inter> ?K)" by (intro psubset_card_mono) simp_all
    ultimately show ?thesis by simp
  qed blast
qed simp

lemma ends_bound: "ends cl side k \<subseteq> ends cl side (length cl + 2)"
proof -
  have "card (ends cl side (Suc (Suc (length cl))) \<inter> fst ` set cl) \<le> card (fst ` set cl)" by (intro card_mono) auto
  also have "\<dots> \<le> length cl" by (metis card_image_le card_length finite_set order_trans)
  finally obtain i where i: "i \<le> Suc (length cl)" "ends cl side (Suc i) = ends cl side (Suc (Suc i))"
    using ends_grow_or_stop [of "Suc (length cl)" cl side] by auto
  have "ends cl side k \<subseteq> ends cl side (Suc i + k)" by (intro ends_mono) simp
  also have "\<dots> = ends cl side (Suc i)" by (rule ends_stable [OF i(2)])
  also have "\<dots> \<subseteq> ends cl side (length cl + 2)" using i(1) by (intro ends_mono) simp
  finally show ?thesis .
qed

lemma fuel_more: "inst_vars_fuel k cl side cls = Some vs \<Longrightarrow> inst_vars_fuel (k + n) cl side cls = Some vs"
proof (induction k arbitrary: cls vs)
  case (Suc k)
  have "inst_vars_fuel k cl side m = inst_vars_fuel (k + n) cl side m" if "m \<in> called cl cls" for m
  proof -
    from Suc.prems have "cls \<in> ends cl side (Suc k)" by (simp add: ends_def)
    with that have "m \<in> ends cl side k" by (auto simp: ends_Suc)
    with Suc.IH show ?thesis by (auto simp: ends_def)
  qed
  then have "info_vars (inst_vars_fuel k cl side) cls side (rev (super_chain cl [] cls)) [] =
      info_vars (inst_vars_fuel (k + n) cl side) cls side (rev (super_chain cl [] cls)) []"
    by (intro info_vars_cong) (simp add: called_def)
  with Suc.prems show ?case by simp
qed simp

text \<open>
  The depth given to the search for a method's instance variables is
  enough: whenever the recursion of the code ends at all, at whatever depth, it
  ends within two calls more than the classes the compiler knows, with the same
  variables; and when it does not end there, it never does.
\<close>

theorem inst_vars_depth:
  "instVarsThroughChain cl cls side = Some vs \<longleftrightarrow> (\<exists>k. inst_vars_fuel k cl side cls = Some vs)"
proof
  assume "\<exists>k. inst_vars_fuel k cl side cls = Some vs"
  then obtain k where k: "inst_vars_fuel k cl side cls = Some vs" by blast
  then have "cls \<in> ends cl side (length cl + 2)" using ends_bound [of cl side k] by (auto simp: ends_def)
  then obtain ws where w: "inst_vars_fuel (length cl + 2) cl side cls = Some ws"
    unfolding ends_def by (simp del: inst_vars_fuel.simps) blast
  have "vs = ws" using fuel_more [OF k, of "length cl + 2"] fuel_more [OF w, of k] by (simp only: add.commute) simp
  with w show "instVarsThroughChain cl cls side = Some vs" by (simp only: instVarsThroughChain_def)
qed (unfold instVarsThroughChain_def, blast)

section \<open>Mutual mixins\<close>

lemma own_mixin_called:
  assumes "map_of cl c = Some ci" "c \<noteq> []" "m \<in> set (ci_mixins ci)" "m \<noteq> c"
  shows "m \<in> called cl c"
proof -
  have "super_chain cl [] c = ci # super_chain cl [c] (ci_super ci)" using assms(1,2) by (subst super_chain.simps) simp
  with assms(3,4) show ?thesis by (simp add: called_def)
qed

text \<open>
  C6. Two classes that mix in each other hang the compiler: for a method of
  either, the search for its instance variables never ends, whatever the depth;
  a cycle is cut only where a class mixes in itself.
\<close>

theorem mutual_mixins_never_end:
  assumes "map_of cl a = Some ca" "map_of cl b = Some cb" "a \<noteq> []" "b \<noteq> []" "a \<noteq> b"
    "b \<in> set (ci_mixins ca)" "a \<in> set (ci_mixins cb)"
  shows "inst_vars_fuel k cl side a = None"
proof -
  have "b \<in> called cl a" "a \<in> called cl b" using assms own_mixin_called by metis+
  then have "a \<notin> ends cl side k \<and> b \<notin> ends cl side k" by (induction k) (auto simp: ends_0 ends_Suc)
  then show ?thesis by (simp add: ends_def)
qed

definition mutual_classes :: class_map where
  "mutual_classes =
     [(''A'', \<lparr>ci_name = ''A'', ci_super = ''Object'', ci_ivars = [''x''], ci_cvars = [], ci_civars = [], ci_mixins = [''B'']\<rparr>),
      (''B'', \<lparr>ci_name = ''B'', ci_super = ''Object'', ci_ivars = [''y''], ci_cvars = [], ci_civars = [], ci_mixins = [''A'']\<rparr>)]"

lemma mutual_mixins_never_end_witness: "inst_vars_fuel 9 mutual_classes False ''A'' = None"
  by (rule mutual_mixins_never_end [where b = "''B''"]) (simp_all add: mutual_classes_def, simp_all)

end
