(* ===== verification/Closures.thy ===== *)
theory Closures
  imports Classes
begin

text \<open>
  src/frontend/Compiler.cpp, the closure analysis: which names of each scope
  are needed by blocks nested in it, and so live in the scope's captured
  dictionary, and which control sends are inlined.  The analysis keys its
  results by node pointer; here a node is named by its path, the child indices
  that lead to it from the root (\<open>None\<close> is the null pointer, the module).  A
  child the code dereferences without a test is skipped when it is null: the
  trees of sources that parse have none.
\<close>

type_synonym path = "nat list"

record analysis =
  an_captured :: "(path option \<times> string set) list"
  an_module :: "string set"
  an_inlined :: "path set"

definition empty_analysis :: analysis where
  "empty_analysis = \<lparr>an_captured = [], an_module = {}, an_inlined = {}\<rparr>"

definition captured_at :: "analysis \<Rightarrow> path \<Rightarrow> string set" where
  "captured_at a p = (case map_of (an_captured a) (Some p) of None \<Rightarrow> {} | Some s \<Rightarrow> s)"

record walker =
  w_declared :: "string set"
  w_refs :: "string set"
  w_inner :: "string set"
  w_isBlock :: bool
  w_ivars :: "string set option"

abbreviation (input) hides :: "string set option \<Rightarrow> string \<Rightarrow> bool" where
  "hides ivars x \<equiv> (case ivars of None \<Rightarrow> False | Some s \<Rightarrow> x \<in> s)"

definition is_free :: "walker \<Rightarrow> string \<Rightarrow> bool" where
  "is_free w x \<longleftrightarrow> x \<notin> w_declared w \<and> \<not> hides (w_ivars w) x"

definition freeVarsOf :: "walker \<Rightarrow> string set" where
  "freeVarsOf w = Set.filter (is_free w) (w_refs w \<union> w_inner w)"

definition capturedOf :: "walker \<Rightarrow> string set" where
  "capturedOf w = Set.filter (\<lambda>x. x \<in> w_inner w) (w_declared w)"

section \<open>The sends that are inlined\<close>

datatype inline_shape = Shape_None | Shape_IfTrue | Shape_IfTrueIfFalse | Shape_WhileTrue | Shape_ToDo

definition isSuperReceiver :: "node \<Rightarrow> bool" where
  "isSuperReceiver n = (case kid n 0 of None \<Rightarrow> False | Some r \<Rightarrow> n_kind r = N_Super)"

definition isInlineableBlock :: "node option \<Rightarrow> bool" where
  "isInlineableBlock b =
     (case b of None \<Rightarrow> False | Some k \<Rightarrow> n_kind k = N_Block \<and> n_int k = 0 \<and> n_strings k = [])"

definition isLoopBlock :: "node option \<Rightarrow> bool" where
  "isLoopBlock b =
     (case b of None \<Rightarrow> False | Some k \<Rightarrow> n_kind k = N_Block \<and> n_int k = 1 \<and> length (n_strings k) = 1)"

definition inlineShapeOf :: "node \<Rightarrow> inline_shape" where
  "inlineShapeOf n =
     (if n_kind n \<noteq> N_KeywordSend then Shape_None
      else if isSuperReceiver n then Shape_None
      else if length (n_children n) = 2 \<and> isInlineableBlock (kid n 1) \<and>
              (n_text n = ''ifTrue:'' \<or> n_text n = ''ifFalse:'') then Shape_IfTrue
      else if length (n_children n) = 3 \<and> isInlineableBlock (kid n 1) \<and> isInlineableBlock (kid n 2) \<and>
              (n_text n = ''ifTrue:ifFalse:'' \<or> n_text n = ''ifFalse:ifTrue:'') then Shape_IfTrueIfFalse
      else if n_text n = ''to:do:'' \<and> length (n_children n) = 3 \<and> isLoopBlock (kid n 2) then Shape_ToDo
      else if length (n_children n) = 2 \<and> isInlineableBlock (kid n 0) \<and> isInlineableBlock (kid n 1) \<and>
              (n_text n = ''whileTrue:'' \<or> n_text n = ''whileFalse:'') then Shape_WhileTrue
      else Shape_None)"

section \<open>The walk\<close>

lemma kids_size: "size_list (size_option size) (n_children n) < size n"
  by (cases n) simp

lemma kids_size_Suc:
  "3 * size_list (size_option size) (n_children n) < Suc (3 * size n)"
  "3 * size_list (size_option size) (n_children n) < 6 + (3 * size n + k)"
  using kids_size [of n] by simp_all

lemma kids_size_take: "3 * size_list (size_option size) (take k (n_children n)) < Suc (3 * size n)"
proof -
  have "size_list f (take k xs) \<le> size_list f xs" for f :: "node option \<Rightarrow> nat" and xs
    by (induction xs arbitrary: k) (auto simp: take_Cons split: nat.split)
  from this [of "size_option size" "n_children n"] kids_size [of n] show ?thesis by simp
qed

lemma kids_size_drop: "3 * size_list (size_option size) (drop k (n_children n)) < Suc (3 * size n)"
proof -
  have "size_list f (drop k xs) \<le> size_list f xs" for f :: "node option \<Rightarrow> nat" and xs
    by (induction xs arbitrary: k) (auto simp: drop_Cons split: nat.split intro: le_SucI trans_le_add2)
  from this [of "size_option size" "n_children n"] kids_size [of n] show ?thesis by simp
qed

definition fresh_walker :: "bool \<Rightarrow> string list \<Rightarrow> string set option \<Rightarrow> walker" where
  "fresh_walker blk names ivars =
     \<lparr>w_declared = set names, w_refs = {}, w_inner = {}, w_isBlock = blk, w_ivars = ivars\<rparr>"

text \<open>
  A block sees the instance variables of the method but those its own names
  hide.
\<close>

definition block_walker :: "walker \<Rightarrow> node \<Rightarrow> walker" where
  "block_walker cur n = fresh_walker True (n_strings n) (map_option (\<lambda>s. s - set (n_strings n)) (w_ivars cur))"

text \<open>
  The variables of \<open>self\<close> in a method of a class: the instance variables, and
  the class variables, which a method declaration takes from the whole
  superclass chain and a call-form one from the class alone; a name of the
  method hides one.  \<open>None\<close> where the search does not end.
\<close>

definition method_ivars :: "class_map \<Rightarrow> node \<Rightarrow> string set option" where
  "method_ivars cl n =
     (case map_of cl (n_text n) of
        None \<Rightarrow> Some {}
      | Some ci \<Rightarrow>
          (case instVarsThroughChain cl (n_text n) (n_flag n) of
             None \<Rightarrow> None
           | Some ivs \<Rightarrow>
               Some ((set ivs \<union>
                      set (if n_kind n = N_MethodDecl then concat (map ci_cvars (super_chain cl [] (n_text n)))
                           else ci_cvars ci)) - set (drop 1 (n_strings n)))))"

definition method_walker :: "class_map \<Rightarrow> node \<Rightarrow> walker" where
  "method_walker cl n = fresh_walker False (drop 1 (n_strings n))
     (Some (case method_ivars cl n of None \<Rightarrow> {} | Some s \<Rightarrow> s))"

definition add_refs :: "string set \<Rightarrow> walker \<Rightarrow> walker" where
  "add_refs s w = w\<lparr>w_refs := w_refs w \<union> s\<rparr>"

definition add_inner :: "string set \<Rightarrow> walker \<Rightarrow> walker" where
  "add_inner s w = w\<lparr>w_inner := w_inner w \<union> s\<rparr>"

definition record_scope :: "path \<Rightarrow> walker \<Rightarrow> analysis \<Rightarrow> analysis" where
  "record_scope p w a = a\<lparr>an_captured := (Some p, capturedOf w) # an_captured a\<rparr>"

text \<open>The free names of an inlined block: used by its body, and by blocks in it.\<close>

type_synonym inlined_free = "string set \<times> string set"

definition inlined_free_of :: "walker \<Rightarrow> inlined_free" where
  "inlined_free_of b = (Set.filter (is_free b) (w_refs b), Set.filter (is_free b) (w_inner b))"

text \<open>After the blocks of an inlined send have been walked.\<close>

definition close_inlined :: "path \<Rightarrow> node \<Rightarrow> inlined_free list \<Rightarrow> walker \<times> analysis \<Rightarrow> walker \<times> analysis" where
  "close_inlined p n frees s =
     (let (w, a) = s;
          inlined = (if inlineShapeOf n = Shape_ToDo
                     then (case kid n 2 of
                             None \<Rightarrow> True
                           | Some blk \<Rightarrow> hd (n_strings blk) \<notin> captured_at a (p @ [2]))
                     else True);
          direct = \<Union> (set (map fst frees)); inner = \<Union> (set (map snd frees))
      in if inlined then (add_inner inner (add_refs direct w), a\<lparr>an_inlined := insert p (an_inlined a)\<rparr>)
         else (add_inner (direct \<union> inner) w, a))"

function walkNode :: "class_map \<Rightarrow> path \<Rightarrow> node \<Rightarrow> walker \<times> analysis \<Rightarrow> walker \<times> analysis"
  and walk_list :: "class_map \<Rightarrow> path \<Rightarrow> nat \<Rightarrow> node option list \<Rightarrow> walker \<times> analysis \<Rightarrow> walker \<times> analysis"
  and walk_messages :: "class_map \<Rightarrow> path \<Rightarrow> nat \<Rightarrow> node option list \<Rightarrow> walker \<times> analysis \<Rightarrow> walker \<times> analysis"
  and walk_inlined :: "class_map \<Rightarrow> path \<Rightarrow> nat \<Rightarrow> node option list \<Rightarrow> inlined_free list \<Rightarrow>
    walker \<times> analysis \<Rightarrow> inlined_free list \<times> (walker \<times> analysis)"
  and walkBlockScope :: "class_map \<Rightarrow> path \<Rightarrow> node \<Rightarrow> walker \<times> analysis \<Rightarrow> walker \<times> analysis"
  where
  "walkNode cl p n s =
     (let (w, a) = s
      in case n_kind n of
           N_Identifier \<Rightarrow> (if n_text n \<noteq> [] then add_refs {n_text n} w else w, a)
         | N_Self \<Rightarrow> s
         | N_Super \<Rightarrow> s
         | N_ThisContext \<Rightarrow> s
         | N_Assignment \<Rightarrow>
             walk_list cl p 0 (take 1 (n_children n))
               (if n_text n = [] then w
                else if w_isBlock w then add_refs {n_text n} w
                else w\<lparr>w_declared := insert (n_text n) (w_declared w)\<rparr>, a)
         | N_Block \<Rightarrow>
             (let (b, a') = walkBlockScope cl p n s in (add_inner (freeVarsOf b) w, a'))
         | N_KeywordSend \<Rightarrow>
             (if inlineShapeOf n = Shape_None then walk_list cl p 0 (n_children n) s
              else (let (frees, s') = walk_inlined cl p 0 (n_children n) [] s in close_inlined p n frees s'))
         | N_Cascade \<Rightarrow> walk_messages cl p 1 (drop 1 (n_children n)) (walk_list cl p 0 (take 1 (n_children n)) s)
         | N_MethodDecl \<Rightarrow>
             (let (b, a') = walk_list cl p 0 (n_children n) (method_walker cl n, a) in (w, record_scope p b a'))
         | N_CallMethodDecl \<Rightarrow>
             (let (b, a') = walk_list cl p 0 (n_children n) (method_walker cl n, a) in (w, record_scope p b a'))
         | _ \<Rightarrow> walk_list cl p 0 (n_children n) s)"
| "walk_list cl p i [] s = s"
| "walk_list cl p i (x # xs) s =
     walk_list cl p (Suc i) xs (case x of None \<Rightarrow> s | Some m \<Rightarrow> walkNode cl (p @ [i]) m s)"
| "walk_messages cl p i [] s = s"
| "walk_messages cl p i (x # xs) s =
     walk_messages cl p (Suc i) xs (case x of None \<Rightarrow> s | Some m \<Rightarrow> walk_list cl (p @ [i]) 0 (n_children m) s)"
| "walk_inlined cl p i [] frees s = (frees, s)"
| "walk_inlined cl p i (x # xs) frees s =
     (case x of
        None \<Rightarrow> walk_inlined cl p (Suc i) xs frees s
      | Some m \<Rightarrow>
          if n_kind m \<noteq> N_Block then walk_inlined cl p (Suc i) xs frees (walkNode cl (p @ [i]) m s)
          else (let (b, a') = walkBlockScope cl (p @ [i]) m s
                in walk_inlined cl p (Suc i) xs (frees @ [inlined_free_of b]) (fst s, a')))"
| "walkBlockScope cl p n s =
     (let (b, a') = walk_list cl p 0 (n_children n) (block_walker (fst s) n, snd s) in (b, record_scope p b a'))"
  by pat_completeness auto
termination
proof (relation "measure (case_sum
    (case_sum (\<lambda>(cl, p, n, s). 3 * size n + 1) (\<lambda>(cl, p, i, cs, s). 3 * size_list (size_option size) cs))
    (case_sum (\<lambda>(cl, p, i, cs, s). 3 * size_list (size_option size) cs)
      (case_sum (\<lambda>(cl, p, i, cs, frees, s). 3 * size_list (size_option size) cs) (\<lambda>(cl, p, n, s). 3 * size n))))",
    goal_cases)
qed (simp_all add: kids_size kids_size_Suc kids_size_take kids_size_drop)

declare walkNode.simps [simp del] walkBlockScope.simps [simp del]

definition analyseClosures :: "class_map \<Rightarrow> bool \<Rightarrow> node \<Rightarrow> analysis" where
  "analyseClosures cl repl md =
     (let (w, a) = walk_list cl [] 0 (n_children md) (fresh_walker repl [] None, empty_analysis)
      in a\<lparr>an_module := capturedOf w, an_captured := (None, capturedOf w) # an_captured a\<rparr>)"

end
