(* ===== verification/Emitter.thy ===== *)
theory Emitter
  imports Closures Bytecode
begin

text \<open>
  src/frontend/Compiler.h and Compiler.cpp, the state of the code generator and
  what emission shares: scopes and name resolution, the errors it reports, and
  jumps of any length.

  A step that throws (an operand of more than 24 bits), that follows a null
  child or an index out of range, or that recurses for ever leaves no module
  behind; \<open>e_fail\<close> remembers the first such step, and what the steps after it
  do to the abandoned state is of no consequence.
\<close>

datatype comp_fail = Null_Child | Operand_Too_Wide | Bad_Patch | Endless | Out_Of_Fuel

text \<open>
  A scope's AST node is used for its kind only.  Scopes are listed innermost
  first; a scope is identified by the number of scopes around it.
\<close>

record scope =
  sc_slots :: "(string \<times> nat) list"
  sc_next :: nat
  sc_captured :: "string set"
  sc_kind :: "node_kind option"
  sc_args :: "string set"

record env =
  e_mod :: bmodule
  e_scopes :: "scope list"
  e_errors :: "string list"
  e_line :: int
  e_debug :: string
  e_class :: string
  e_ivars :: "string list"
  e_cvars :: "string list"
  e_classSide :: bool
  e_loops :: "(nat \<times> string) list"
  e_fail :: "comp_fail option"

text \<open>What emission reads and never changes.\<close>

record ctx =
  x_analysis :: analysis
  x_classes :: class_map
  x_repl :: bool
  x_groups :: bool

definition fail_with :: "comp_fail \<Rightarrow> env \<Rightarrow> env" where
  "fail_with f e = (case e_fail e of None \<Rightarrow> e\<lparr>e_fail := Some f\<rparr> | Some g \<Rightarrow> e)"

definition comp_error :: "string \<Rightarrow> env \<Rightarrow> env" where
  "comp_error msg e = e\<lparr>e_errors := e_errors e @ [msg]\<rparr>"

definition at_line :: "node \<Rightarrow> env \<Rightarrow> env" where
  "at_line n e = (if n_line n > 0 then e\<lparr>e_line := n_line n\<rparr> else e)"

section \<open>Writing to the module\<close>

abbreviation code_of :: "env \<Rightarrow> core" where
  "code_of e \<equiv> m_core (e_mod e)"

definition on_code :: "(core \<Rightarrow> core) \<Rightarrow> env \<Rightarrow> env" where
  "on_code f e = e\<lparr>e_mod := on_core f (e_mod e)\<rparr>"

definition try_code :: "comp_fail \<Rightarrow> (core \<Rightarrow> core option) \<Rightarrow> env \<Rightarrow> env" where
  "try_code fl f e = (case f (code_of e) of None \<Rightarrow> fail_with fl e | Some c \<Rightarrow> on_code (\<lambda>_. c) e)"

definition add_code :: "(core \<Rightarrow> nat \<times> core) \<Rightarrow> env \<Rightarrow> nat \<times> env" where
  "add_code f e = (let (i, c) = f (code_of e) in (i, on_code (\<lambda>_. c) e))"

definition put :: "op \<Rightarrow> 8 word \<Rightarrow> env \<Rightarrow> env" where
  "put o' arg e = on_code (emit o' arg (e_line e)) e"

definition put_wide :: "op \<Rightarrow> nat \<Rightarrow> env \<Rightarrow> env" where
  "put_wide o' arg e = try_code Operand_Too_Wide (emitWide o' (arg mod 2 ^ 32) (e_line e)) e"

text \<open>\<open>m.emitWide(op, m.internSymbol(s), currentLine_)\<close>.\<close>

definition put_symbol :: "op \<Rightarrow> string \<Rightarrow> env \<Rightarrow> env" where
  "put_symbol o' s e = (let (i, e1) = add_code (internSymbol s) e in put_wide o' i e1)"

definition put_const :: "(core \<Rightarrow> nat \<times> core) \<Rightarrow> env \<Rightarrow> env" where
  "put_const f e = (let (i, e1) = add_code f e in put_wide PUSH_CONST i e1)"

section \<open>Names\<close>

definition isMethodScope :: "scope \<Rightarrow> bool" where
  "isMethodScope s \<longleftrightarrow> sc_kind s = Some N_MethodDecl \<or> sc_kind s = Some N_CallMethodDecl"

definition empty_scope :: scope where
  "empty_scope = \<lparr>sc_slots = [], sc_next = 0, sc_captured = {}, sc_kind = None, sc_args = {}\<rparr>"

definition on_scope :: "(scope \<Rightarrow> scope) \<Rightarrow> env \<Rightarrow> env" where
  "on_scope f e = (case e_scopes e of [] \<Rightarrow> e | s # ss \<Rightarrow> e\<lparr>e_scopes := f s # ss\<rparr>)"

definition next_slot :: "env \<Rightarrow> nat" where
  "next_slot e = (case e_scopes e of [] \<Rightarrow> 0 | s # ss \<Rightarrow> sc_next s)"

definition declare_in :: "string \<Rightarrow> scope \<Rightarrow> nat \<times> scope" where
  "declare_in name s =
     (case map_of (sc_slots s) name of
        Some slot \<Rightarrow> (slot, s)
      | None \<Rightarrow> (sc_next s, s\<lparr>sc_next := sc_next s + 1, sc_slots := AList.update name (sc_next s) (sc_slots s)\<rparr>))"

definition declareLocal :: "string \<Rightarrow> env \<Rightarrow> nat \<times> env" where
  "declareLocal name e =
     (case e_scopes e of
        [] \<Rightarrow> (0, e)
      | s # ss \<Rightarrow> (let (slot, s') = declare_in name s in (slot, e\<lparr>e_scopes := s' # ss\<rparr>)))"

fun resolve_in :: "string \<Rightarrow> scope list \<Rightarrow> nat option" where
  "resolve_in name [] = None"
| "resolve_in name (s # ss) =
     (case map_of (sc_slots s) name of
        Some slot \<Rightarrow> Some slot
      | None \<Rightarrow> if isMethodScope s then None else resolve_in name ss)"

definition resolveLocal :: "env \<Rightarrow> string \<Rightarrow> nat option" where
  "resolveLocal e name = resolve_in name (e_scopes e)"

fun captured_in :: "string \<Rightarrow> scope list \<Rightarrow> bool" where
  "captured_in name [] = False"
| "captured_in name (s # ss) =
     (if name \<in> sc_captured s then True
      else if map_of (sc_slots s) name \<noteq> None then False
      else if isMethodScope s then False
      else captured_in name ss)"

definition isCaptured :: "env \<Rightarrow> string \<Rightarrow> bool" where
  "isCaptured e name = captured_in name (e_scopes e)"

definition atModuleScope :: "env \<Rightarrow> bool" where
  "atModuleScope e \<longleftrightarrow> length (e_scopes e) = 1"

fun argument_in :: "(nat \<times> string) list \<Rightarrow> string \<Rightarrow> scope list \<Rightarrow> bool" where
  "argument_in loops name [] = False"
| "argument_in loops name (s # ss) =
     (if map_of (sc_slots s) name \<noteq> None then name \<in> sc_args s \<or> (length ss, name) \<in> set loops
      else if isMethodScope s then False
      else argument_in loops name ss)"

definition reportArgumentAssignment :: "string \<Rightarrow> env \<Rightarrow> bool \<times> env" where
  "reportArgumentAssignment name e =
     (if argument_in (e_loops e) name (e_scopes e)
      then (True, comp_error (''cannot assign to the argument '' @ [SQ] @ name @ [SQ] @ '' (line '' @
                    show_int (e_line e) @ ''); arguments are read-only'') e)
      else (False, e))"

definition reportUndeclaredInMethod :: "string \<Rightarrow> env \<Rightarrow> bool \<times> env" where
  "reportUndeclaredInMethod name e =
     (if e_class e = [] \<or> resolveLocal e name \<noteq> None then (False, e)
      else (True, comp_error (''undeclared variable '' @ [SQ] @ name @ [SQ] @ '' in '' @ e_class e @
                    '' (line '' @ show_int (e_line e) @ ''); declare it as a temporary: | '' @ name @ '' |'' @
                    '' (if this line belongs to the top level, end the method before it with a blank line)'') e))"

definition assignsReplGlobalInBlock :: "ctx \<Rightarrow> env \<Rightarrow> string \<Rightarrow> bool" where
  "assignsReplGlobalInBlock x e name =
     (if \<not> x_repl x \<or> atModuleScope e then False
      else if list_ex isMethodScope (e_scopes e) then False
      else resolveLocal e name = None)"

fun twice_named :: "string \<Rightarrow> string list \<Rightarrow> string list \<Rightarrow> string list" where
  "twice_named where seen [] = []"
| "twice_named where seen (x # xs) =
     (if x \<in> set seen then [[SQ] @ x @ [SQ] @ '' is declared twice in '' @ where] else [])
     @ twice_named where (x # seen) xs"

definition reportDuplicateNames :: "string list \<Rightarrow> nat \<Rightarrow> string \<Rightarrow> env \<Rightarrow> env" where
  "reportDuplicateNames names from where e = e\<lparr>e_errors := e_errors e @ twice_named where [] (drop from names)\<rparr>"

text \<open>The slots of the innermost scope, by index.\<close>

definition slot_names :: "scope \<Rightarrow> string list" where
  "slot_names s = foldl (\<lambda>ns (name, slot). ns[slot := name]) (replicate (sc_next s) []) (sc_slots s)"

definition recordLocalNames :: "env \<Rightarrow> env" where
  "recordLocalNames e =
     (case e_scopes e of [] \<Rightarrow> e | s # ss \<Rightarrow> on_code (\<lambda>c. c\<lparr>m_localNames := slot_names s\<rparr>) e)"

section \<open>Jumps of any length\<close>

definition emitForwardJump :: "op \<Rightarrow> env \<Rightarrow> nat \<times> env" where
  "emitForwardJump o' e = (pos (code_of e), put o' 0 e)"

text \<open>A jump word at a byte position and the byte position it leads to.\<close>

type_synonym forward_jump = "nat \<times> nat"

fun resolve_sorted :: "forward_jump list \<Rightarrow> core \<Rightarrow> core option" where
  "resolve_sorted [] c = Some c"
| "resolve_sorted ((p, t) # js) c =
     (let offset = (t - (p + kInstrSize)) div kInstrSize mod 2 ^ 32;
          prefixes = extendPrefixesFor offset
      in case insertExtendPrefixes p prefixes c of
           None \<Rightarrow> None
         | Some c1 \<Rightarrow>
             (case patchWideArg p prefixes offset c1 of
                None \<Rightarrow> None
              | Some c2 \<Rightarrow>
                  resolve_sorted (map (\<lambda>(q, u). (q, if u > p then u + prefixes * kInstrSize else u)) js) c2))"

definition resolveForwardJumps :: "forward_jump list \<Rightarrow> env \<Rightarrow> env" where
  "resolveForwardJumps js e = try_code Bad_Patch (resolve_sorted (rev (sort_key fst js))) e"

text \<open>
  The operand of a JUMP_BACK counts its own EXTEND words: the loop looks for a
  fixed point.  (The \<open>unsigned\<close> additions do not wrap: code of \<open>2 ^ 32 - 3\<close> words
  is out of reach.)
\<close>

function back_operand :: "nat \<Rightarrow> nat \<Rightarrow> nat" where
  "back_operand span bk =
     (if bk = span + 1 + extendPrefixesFor bk then bk
      else back_operand span (span + 1 + extendPrefixesFor bk))"
  by pat_completeness auto
termination
proof (relation "measure (\<lambda>(span, bk). if bk \<le> span + 1 + extendPrefixesFor bk then span + 4 - bk else bk + 4)",
    goal_cases)
  case (2 span bk)
  let ?n = "span + 1 + extendPrefixesFor bk"
  have le: "extendPrefixesFor x \<le> extendPrefixesFor y" if "x \<le> y" for x y
    using that by (simp add: extendPrefixesFor_def)
  have b: "?n \<le> span + 3" by (simp add: extendPrefixesFor_def)
  show ?case
  proof (cases "bk < ?n")
    case True
    with le [of bk ?n] have "?n \<le> span + 1 + extendPrefixesFor ?n" by simp
    with True b show ?thesis by simp
  next
    case False
    with 2 b show ?thesis by auto
  qed
qed simp

declare back_operand.simps [simp del]

definition close_loop_code :: "nat \<Rightarrow> nat \<Rightarrow> int \<Rightarrow> core \<Rightarrow> core option" where
  "close_loop_code loopStart exitPos line c =
     (let bodyWords = (pos c - (exitPos + kInstrSize)) div kInstrSize mod 2 ^ 32;
          prefixes = extendPrefixesFor (bodyWords + 3)
      in case insertExtendPrefixes exitPos prefixes c of
           None \<Rightarrow> None
         | Some c1 \<Rightarrow>
             (let span = (pos c1 - loopStart) div kInstrSize mod 2 ^ 32;
                  back = back_operand span (span + 1);
                  jumpWord = exitPos + prefixes * kInstrSize
              in case emitWide JUMP_BACK back line c1 of
                   None \<Rightarrow> None
                 | Some c2 \<Rightarrow>
                     patchWideArg exitPos prefixes ((pos c2 - (jumpWord + kInstrSize)) div kInstrSize mod 2 ^ 32) c2))"

definition closeLoop :: "nat \<Rightarrow> nat \<Rightarrow> env \<Rightarrow> env" where
  "closeLoop loopStart exitPos e = try_code Bad_Patch (close_loop_code loopStart exitPos (e_line e)) e"

end
