(* ===== verification/BytecodeJumps.thy ===== *)
theory BytecodeJumps
  imports BytecodeCode Emitter
begin

text \<open>
  Where jumps land.  A run of code is closed when every jump in it lands on the
  start of one of its instructions or just past the last one; jumps are
  relative, so this does not depend on where the run stands, and closed runs
  put one after the other are closed.  The forward jumps of a conditional and
  the two jumps of a loop, as \<open>resolveForwardJumps\<close> and \<open>closeLoop\<close> write them,
  make closed runs out of closed bodies.
\<close>

section \<open>Closed runs\<close>

definition landing :: "instr \<Rightarrow> int option" where
  "landing i =
     (let next = int (i_word i + i_words i); mo = op_of (i_op i)
      in if mo = Some JUMP \<or> mo = Some JUMP_IF_TRUE \<or> mo = Some JUMP_IF_FALSE then Some (next + int (i_arg i))
         else if mo = Some JUMP_BACK then Some (next - int (i_arg i))
         else None)"

definition starts :: "8 word list \<Rightarrow> int set" where
  "starts bs = insert (int (length bs div 2)) ((\<lambda>i. int (i_word i)) ` set (decode_from 0 bs))"

text \<open>\<open>E\<close> lists the word offsets outside the run where its jumps may land.\<close>

definition closed_but :: "int set \<Rightarrow> 8 word list \<Rightarrow> bool" where
  "closed_but E bs \<longleftrightarrow> (\<forall>i t. i \<in> set (decode_from 0 bs) \<longrightarrow> landing i = Some t \<longrightarrow> t \<in> starts bs \<union> E)"

abbreviation closed :: "8 word list \<Rightarrow> bool" where
  "closed \<equiv> closed_but {}"

lemma landing_shift: "landing (i\<lparr>i_word := i_word i + k\<rparr>) = map_option (\<lambda>t. t + int k) (landing i)"
  by (simp add: landing_def Let_def)

lemma decode_from_at: "decode_from w bs = map (\<lambda>i. i\<lparr>i_word := i_word i + w\<rparr>) (decode_from 0 bs)"
  using decode_from_shift [of 0 w bs] by simp

lemma starts_0: "complete bs \<Longrightarrow> 0 \<in> starts bs"
proof (cases bs rule: complete.cases)
  case (3 b a cs)
  then show ?thesis
    by (cases "decode_one b (unat a) 1 cs") (simp add: starts_def image_iff)
qed (simp_all add: starts_def)

lemma starts_append:
  assumes "complete a" "complete b"
  shows "starts (a @ b) = starts a \<union> (\<lambda>t. t + int (length a div 2)) ` starts b"
proof -
  let ?l = "int (length a div 2)"
  have "length (a @ b) div 2 = length b div 2 + length a div 2"
    using complete_even [OF assms(1)] by (auto simp: div_add elim!: evenE)
  then have e: "int (length (a @ b) div 2) = int (length b div 2) + ?l" by simp
  have d: "(\<lambda>i. int (i_word i)) ` set (decode_from 0 (a @ b)) =
      (\<lambda>i. int (i_word i)) ` set (decode_from 0 a) \<union> (\<lambda>t. t + ?l) ` (\<lambda>i. int (i_word i)) ` set (decode_from 0 b)"
    unfolding decode_from_append [OF assms(1)] decode_from_at [of "0 + length a div 2" b]
    by (simp add: image_Un image_image)
  have "?l \<in> (\<lambda>t. t + ?l) ` starts b" using starts_0 [OF assms(2)] by force
  then show ?thesis unfolding starts_def e d by auto
qed

lemma closed_append:
  assumes "complete a" "complete b" "closed_but E a" "closed_but F b"
    and "E \<subseteq> starts (a @ b) \<union> G" "(\<lambda>t. t + int (length a div 2)) ` F \<subseteq> starts (a @ b) \<union> G"
  shows "closed_but G (a @ b)"
  unfolding closed_but_def
proof (intro allI impI)
  fix i t
  assume i: "i \<in> set (decode_from 0 (a @ b))" and l: "landing i = Some t"
  note st = starts_append [OF assms(1,2)]
  consider "i \<in> set (decode_from 0 a)"
    | j where "j \<in> set (decode_from 0 b)" "i = j\<lparr>i_word := i_word j + length a div 2\<rparr>"
    using i decode_from_append [OF assms(1), of 0 b] decode_from_at [of "length a div 2" b] by auto
  then show "t \<in> starts (a @ b) \<union> G"
  proof cases
    case 1
    with l assms(3,5) st show ?thesis by (auto simp: closed_but_def)
  next
    case 2
    with l obtain u where u: "landing j = Some u" "t = u + int (length a div 2)" by (auto simp: landing_shift)
    with 2 assms(4) have "u \<in> starts b \<union> F" by (auto simp: closed_but_def)
    with u assms(6) st show ?thesis by auto
  qed
qed

lemma closed_append_simple: "complete a \<Longrightarrow> complete b \<Longrightarrow> closed a \<Longrightarrow> closed b \<Longrightarrow> closed (a @ b)"
  by (rule closed_append [where E = "{}" and F = "{}"]) simp_all

lemma closed_but_weaken: "closed_but E bs \<Longrightarrow> E \<subseteq> starts bs \<union> G \<Longrightarrow> closed_but G bs"
  by (auto simp: closed_but_def)

lemma closed_Nil [simp]: "closed_but E []"
  by (simp add: closed_but_def)

definition is_jump :: "op \<Rightarrow> bool" where
  "is_jump o' \<longleftrightarrow> o' = JUMP \<or> o' = JUMP_IF_TRUE \<or> o' = JUMP_IF_FALSE"

lemma closed_wide:
  assumes "o' \<noteq> EXTEND" "arg < 256 ^ Suc k" "k \<le> 2"
  shows "closed_but (if is_jump o' then {int (Suc k + arg)} else if o' = JUMP_BACK then {int (Suc k) - int arg} else {})
    (wide_bytes o' k arg)"
  unfolding closed_but_def decode_wide [OF assms]
  by (auto simp: landing_def Let_def is_jump_def simp del: op_byte.simps)

section \<open>Conditionals\<close>

lemma closed_skip:
  assumes "is_jump o'" "arg < 256 ^ Suc k" "k \<le> 2" "arg = length xs div 2"
    and "complete xs" "complete ys" "closed (xs @ ys)"
  shows "closed (wide_bytes o' k arg @ xs @ ys)"
proof -
  have ne: "o' \<noteq> EXTEND" using assms(1) by (auto simp: is_jump_def)
  note cw = wide_bytes_complete [OF ne, of k arg] and cxy = complete_append [OF assms(5,6)]
  have "int arg \<in> starts (xs @ ys)"
    using assms(4) starts_append [OF assms(5,6)] starts_0 [OF assms(6)] by force
  then have "int (Suc k + arg) \<in> starts (wide_bytes o' k arg @ xs @ ys)"
    unfolding starts_append [OF cw cxy] by (auto simp: image_iff algebra_simps)
  then show ?thesis
    using closed_wide [OF ne assms(2,3)] assms(1,7)
    by (intro closed_append [OF cw cxy, where E = "{int (Suc k + arg)}" and F = "{}"]) auto
qed

text \<open>A jump to the false branch, the true branch, a jump past the false branch, the false branch.\<close>

lemma closed_branch:
  assumes j: "is_jump o'" and a1: "arg1 < 256 ^ Suc k1" "k1 \<le> 2" and a2: "arg2 < 256 ^ Suc k2" "k2 \<le> 2"
    and b: "complete b" "closed b" and c: "complete c" "closed c"
    and "arg2 = length c div 2" "arg1 = length b div 2 + Suc k2"
  shows "closed (wide_bytes o' k1 arg1 @ b @ wide_bytes JUMP k2 arg2 @ c)"
proof -
  have w: "complete (wide_bytes JUMP k2 arg2)" by (simp add: wide_bytes_complete)
  have "closed (wide_bytes JUMP k2 arg2 @ c @ [])"
    using c a2 assms(10) by (intro closed_skip) (simp_all add: is_jump_def)
  then have "closed (b @ wide_bytes JUMP k2 arg2 @ c)"
    using b c w by (simp add: closed_append_simple complete_append)
  moreover have "arg1 = length (b @ wide_bytes JUMP k2 arg2) div 2"
    using assms(11) complete_even [OF b(1)] by (auto elim!: evenE)
  ultimately show ?thesis
    using closed_skip [OF j a1, of "b @ wide_bytes JUMP k2 arg2" c] b c w by (simp add: complete_append)
qed

section \<open>Loops\<close>

text \<open>The test, the exit jump, the body and the jump back to the test.\<close>

lemma closed_loop:
  assumes j: "is_jump o'" and a1: "arg1 < 256 ^ Suc k1" "k1 \<le> 2" and a2: "arg2 < 256 ^ Suc k2" "k2 \<le> 2"
    and t: "complete t" "closed t" and b: "complete b" "closed b"
    and "arg1 = length b div 2 + Suc k2" "arg2 = length t div 2 + Suc k1 + length b div 2 + Suc k2"
  shows "closed (t @ wide_bytes o' k1 arg1 @ b @ wide_bytes JUMP_BACK k2 arg2)"
proof -
  have ne: "o' \<noteq> EXTEND" using j by (auto simp: is_jump_def)
  let ?x = "wide_bytes o' k1 arg1" and ?y = "wide_bytes JUMP_BACK k2 arg2"
  have x: "complete ?x" and y: "complete ?y" using ne by (simp_all add: wide_bytes_complete)
  have even: "even (length t)" "even (length b)" using t b complete_even by auto
  have cb: "closed_but {int (length b div 2 + Suc k2) - int arg2} (b @ ?y)"
    using closed_wide [of JUMP_BACK arg2 k2] a2 b y
    by (intro closed_append [OF b(1) y, where E = "{}" and F = "{int (Suc k2) - int arg2}"]) (auto simp: is_jump_def)
  have by_c: "complete (b @ ?y)" using b y by (simp add: complete_append)
  have len: "int (length (b @ ?y) div 2) = int (length b div 2 + Suc k2)" using even by (auto elim!: evenE)
  have "int (Suc k1 + arg1) \<in> starts (?x @ b @ ?y)"
    unfolding starts_append [OF x by_c] using assms(10) len by (auto simp: starts_def image_iff)
  then have "closed_but {int (Suc k1 + length b div 2 + Suc k2) - int arg2} (?x @ b @ ?y)"
    using closed_wide [OF ne a1] j cb
    by (intro closed_append [OF x by_c, where E = "{int (Suc k1 + arg1)}" and
          F = "{int (length b div 2 + Suc k2) - int arg2}"]) auto
  moreover have xb: "complete (?x @ b @ ?y)" using x by_c by (rule complete_append)
  ultimately show ?thesis
    using t starts_append [OF t(1) xb] starts_0 [OF t(1)] assms(11)
    by (intro closed_append [OF t(1) xb, where E = "{}" and
          F = "{int (Suc k1 + length b div 2 + Suc k2) - int arg2}"]) auto
qed

section \<open>What the compiler writes\<close>

lemma prefixes_le_2: "extendPrefixesFor n \<le> 2"
  by (simp add: extendPrefixesFor_def)

lemma prefixes_mono: "m \<le> n \<Longrightarrow> extendPrefixesFor m \<le> extendPrefixesFor n"
  by (simp add: extendPrefixesFor_def)

lemma prefixes_room:
  assumes "n < 2 ^ 24" "extendPrefixesFor n \<le> k"
  shows "n < 256 ^ Suc k"
proof -
  have "(256 :: nat) ^ Suc (extendPrefixesFor n) \<le> 256 ^ Suc k" using assms(2) by (intro power_increasing) simp_all
  with prefixes_fit [OF assms(1)] show ?thesis by (metis order_less_le_trans)
qed

lemma insert_bytes:
  assumes "m_bytes c = pre @ op_byte o' # y # rest" "insertExtendPrefixes (length pre) k c = Some c1"
  shows "m_bytes c1 = pre @ concat (replicate k [op_byte EXTEND, 0]) @ op_byte o' # y # rest"
  using assms by (auto simp: insertExtendPrefixes_def Let_def split: if_splits)

lemma patch_bytes_run:
  assumes "m_bytes c = pre @ concat (replicate k [op_byte EXTEND, x]) @ op_byte o' # y # rest"
    and "patchWideArg (length pre) k arg c = Some c1"
  shows "m_bytes c1 = pre @ wide_bytes o' k arg @ rest"
  using assms patch_bytes_at [OF refl, of pre k arg x o' y rest] by (auto simp: patchWideArg_def split: if_splits)

lemma resolve_step:
  assumes "resolve_sorted ((p, t) # js) c = Some c'" and "arg = (t - (p + kInstrSize)) div kInstrSize mod 2 ^ 32"
  shows "\<exists>c1 c2. insertExtendPrefixes p (extendPrefixesFor arg) c = Some c1 \<and>
    patchWideArg p (extendPrefixesFor arg) arg c1 = Some c2 \<and>
    resolve_sorted (map (\<lambda>(q, u). (q, if u > p then u + extendPrefixesFor arg * kInstrSize else u)) js) c2 = Some c'"
  using assms(1) unfolding resolve_sorted.simps Let_def assms(2) [symmetric] by (auto split: option.splits)

text \<open>One pending jump.\<close>

lemma resolve_one:
  assumes "resolve_sorted [(length pre, t)] c = Some c1" and "m_bytes c = pre @ op_byte o' # y # rest"
  shows "\<exists>k arg. k = extendPrefixesFor arg \<and> arg = (t - (length pre + 2)) div 2 mod 2 ^ 32 \<and>
    m_bytes c1 = pre @ wide_bytes o' k arg @ rest"
proof -
  define arg where "arg = (t - (length pre + 2)) div 2 mod 2 ^ 32"
  obtain c2 where c2: "insertExtendPrefixes (length pre) (extendPrefixesFor arg) c = Some c2"
      "patchWideArg (length pre) (extendPrefixesFor arg) arg c2 = Some c1"
    using resolve_step [OF assms(1), of arg] by (auto simp: arg_def)
  from patch_bytes_run [OF insert_bytes [OF assms(2) c2(1)] c2(2)] show ?thesis unfolding arg_def by blast
qed

text \<open>The later jump is widened first; the earlier one then spans its new words too.\<close>

lemma resolve_two:
  assumes "resolve_sorted [(length pre + 2 + length b, length pre + 4 + length b + length r), (length pre, length pre + 4 + length b)] c = Some c1"
    and "m_bytes c = pre @ op_byte o1 # y1 # b @ op_byte o2 # y2 # r" and "length b + length r + 16 < 2 ^ 32"
  shows "\<exists>k1 k2 arg1 arg2. k1 = extendPrefixesFor arg1 \<and> k2 = extendPrefixesFor arg2 \<and>
    arg2 = length r div 2 \<and> arg1 = (length b + 2 + 2 * k2) div 2 \<and>
    m_bytes c1 = pre @ wide_bytes o1 k1 arg1 @ b @ wide_bytes o2 k2 arg2 @ r"
proof -
  let ?p2 = "length pre + 2 + length b" and ?t2 = "length pre + 4 + length b + length r"
  define arg2 k2 where "arg2 = length r div 2" and "k2 = extendPrefixesFor arg2"
  have a2: "(?t2 - (?p2 + 2)) div 2 mod 2 ^ 32 = arg2" using assms(3) by (simp add: arg2_def)
  have k2: "k2 \<le> 2" by (simp add: k2_def prefixes_le_2)
  obtain c2 c3 where c: "insertExtendPrefixes ?p2 k2 c = Some c2" "patchWideArg ?p2 k2 arg2 c2 = Some c3"
      "resolve_sorted [(length pre, length pre + 4 + length b + k2 * 2)] c3 = Some c1"
    using resolve_step [OF assms(1), of arg2] a2 k2_def by auto
  have "m_bytes c = (pre @ op_byte o1 # y1 # b) @ op_byte o2 # y2 # r" using assms(2) by simp
  from insert_bytes [OF this, of k2 c2] c(1) have
    "m_bytes c2 = (pre @ op_byte o1 # y1 # b) @ concat (replicate k2 [op_byte EXTEND, 0]) @ op_byte o2 # y2 # r" by simp
  from patch_bytes_run [OF this, of arg2 c3] c(2) have
    "m_bytes c3 = pre @ op_byte o1 # y1 # b @ wide_bytes o2 k2 arg2 @ r" by simp
  from resolve_one [OF c(3) this] obtain arg1 where r: "m_bytes c1 = pre @ wide_bytes o1 (extendPrefixesFor arg1) arg1 @ b @ wide_bytes o2 k2 arg2 @ r"
      "arg1 = (length pre + 4 + length b + k2 * 2 - (length pre + 2)) div 2 mod 2 ^ 32" by auto
  have "length pre + 4 + length b + k2 * 2 - (length pre + 2) = length b + 2 + 2 * k2" by simp
  moreover have "(length b + 2 + 2 * k2) div 2 < 2 ^ 32" using assms(3) k2 by simp
  ultimately have "arg1 = (length b + 2 + 2 * k2) div 2" using r(2) by simp
  with r(1) k2_def arg2_def show ?thesis by blast
qed

lemma step_length:
  "insertExtendPrefixes p k c = Some c1 \<Longrightarrow> length (m_bytes c) \<le> length (m_bytes c1)"
  "patchWideArg p k arg c = Some c1 \<Longrightarrow> length (m_bytes c1) = length (m_bytes c)"
  by (auto simp: insertExtendPrefixes_def patchWideArg_def Let_def insert_at_def split: if_splits)

lemma resolve_length: "resolve_sorted js c = Some c' \<Longrightarrow> length (m_bytes c) \<le> length (m_bytes c')"
proof (induction js c rule: resolve_sorted.induct)
  case (2 p t js c)
  define arg where "arg = (t - (p + kInstrSize)) div kInstrSize mod 2 ^ 32"
  obtain c1 c2 where c: "insertExtendPrefixes p (extendPrefixesFor arg) c = Some c1"
      "patchWideArg p (extendPrefixesFor arg) arg c1 = Some c2"
      "resolve_sorted (map (\<lambda>(q, u). (q, if u > p then u + extendPrefixesFor arg * kInstrSize else u)) js) c2 = Some c'"
    using resolve_step [OF "2.prems" arg_def] by blast
  have "length (m_bytes c2) \<le> length (m_bytes c')" using 2(1) [OF arg_def refl c(1,2,3)] .
  with step_length(1) [OF c(1)] step_length(2) [OF c(2)] show ?case by simp
qed simp

lemma back_operand_fix: "back_operand span n = span + 1 + extendPrefixesFor (back_operand span n)"
proof (induction span n rule: back_operand.induct)
  case (1 span bk)
  show ?case
  proof (cases "bk = span + 1 + extendPrefixesFor bk")
    case True
    then have "back_operand span bk = bk" by (subst back_operand.simps) simp
    with True show ?thesis by simp
  next
    case False
    then have "back_operand span bk = back_operand span (span + 1 + extendPrefixesFor bk)"
      by (subst back_operand.simps) simp
    with 1 [OF False] show ?thesis by simp
  qed
qed

lemma close_loop_step:
  assumes "close_loop_code ls x line c = Some c'"
    and "k1 = extendPrefixesFor ((pos c - (x + kInstrSize)) div kInstrSize mod 2 ^ 32 + 3)"
  shows "\<exists>c1 c2. insertExtendPrefixes x k1 c = Some c1 \<and>
    emitWide JUMP_BACK (back_operand ((pos c1 - ls) div kInstrSize mod 2 ^ 32)
      ((pos c1 - ls) div kInstrSize mod 2 ^ 32 + 1)) line c1 = Some c2 \<and>
    patchWideArg x k1 ((pos c2 - (x + k1 * kInstrSize + kInstrSize)) div kInstrSize mod 2 ^ 32) c2 = Some c'"
  using assms(1) unfolding close_loop_code_def Let_def assms(2) [symmetric] by (auto split: option.splits)

lemma close_loop_length:
  assumes "close_loop_code ls x line c = Some c'"
  shows "length (m_bytes c) \<le> length (m_bytes c')"
proof -
  from close_loop_step [OF assms refl] obtain c1 c2 k a b where
    "insertExtendPrefixes x k c = Some c1" "emitWide JUMP_BACK a line c1 = Some c2" "patchWideArg x k b c2 = Some c'"
    by blast
  then show ?thesis using step_length(1) step_length(2) emitWide_bytes(1) by fastforce
qed

text \<open>
  \<open>closeLoop\<close> on a test and a body: the exit jump is widened for the widest
  JUMP_BACK, so that its operand fits whatever the JUMP_BACK takes.
\<close>

lemma close_loop_bytes:
  assumes "close_loop_code (length pre) (length pre + length t) line c = Some c'"
    and "m_bytes c = pre @ t @ op_byte o' # y # b" and "length t + length b + 32 < 2 ^ 32"
    and "even (length t)" "even (length b)"
  shows "\<exists>k1 k2 arg1 arg2. k1 \<le> 2 \<and> k2 = extendPrefixesFor arg2 \<and> extendPrefixesFor arg1 \<le> k1 \<and>
    arg1 = length b div 2 + Suc k2 \<and> arg2 = length t div 2 + Suc k1 + length b div 2 + Suc k2 \<and>
    m_bytes c' = pre @ t @ wide_bytes o' k1 arg1 @ b @ wide_bytes JUMP_BACK k2 arg2"
proof -
  let ?x = "length pre + length t"
  define k1 where "k1 = extendPrefixesFor (length b div 2 + 3)"
  have k1: "k1 \<le> 2" by (simp add: k1_def prefixes_le_2)
  have body: "(pos c - (?x + 2)) div 2 mod 2 ^ 32 = length b div 2"
    using assms(2,3) by (simp add: pos_def)
  define arg2 k2 where "arg2 = back_operand (length t div 2 + Suc k1 + length b div 2) (length t div 2 + Suc k1 + length b div 2 + 1)"
    and "k2 = extendPrefixesFor arg2"
  have k2: "k2 \<le> 2" by (simp add: k2_def prefixes_le_2)
  have arg2: "arg2 = length t div 2 + Suc k1 + length b div 2 + Suc k2"
    using back_operand_fix [of "length t div 2 + Suc k1 + length b div 2"] by (simp add: arg2_def k2_def)
  obtain c1 c2 where c1: "insertExtendPrefixes ?x k1 c = Some c1" and
      c2': "emitWide JUMP_BACK (back_operand ((pos c1 - length pre) div 2 mod 2 ^ 32)
        ((pos c1 - length pre) div 2 mod 2 ^ 32 + 1)) line c1 = Some c2" and
      c': "patchWideArg ?x k1 ((pos c2 - (?x + k1 * 2 + 2)) div 2 mod 2 ^ 32) c2 = Some c'"
    using close_loop_step [OF assms(1), of k1] body k1_def by auto
  have b1: "m_bytes c1 = (pre @ t) @ concat (replicate k1 [op_byte EXTEND, 0]) @ op_byte o' # y # b"
    using insert_bytes [of c "pre @ t" o' y b k1 c1] assms(2) c1 by simp
  have rl: "length (concat (replicate k1 [op_byte EXTEND, 0 :: 8 word])) = 2 * k1" by (induction k1) auto
  have span: "(pos c1 - length pre) div 2 mod 2 ^ 32 = length t div 2 + Suc k1 + length b div 2"
  proof -
    have "pos c1 - length pre = length t + (2 * Suc k1 + length b)" using b1 rl by (simp add: pos_def)
    then have "(pos c1 - length pre) div 2 = length t div 2 + Suc k1 + length b div 2"
      using assms(4,5) by (auto elim!: evenE)
    then show ?thesis using assms(3) k1 by simp
  qed
  have c2: "emitWide JUMP_BACK arg2 line c1 = Some c2" using c2' unfolding span arg2_def .
  have b2: "m_bytes c2 = (pre @ t) @ concat (replicate k1 [op_byte EXTEND, 0]) @ op_byte o' # y # b @ wide_bytes JUMP_BACK k2 arg2"
    using emitWide_bytes(1) [OF c2] b1 k2_def by simp
  have arg1: "(pos c2 - (?x + k1 * 2 + 2)) div 2 mod 2 ^ 32 = length b div 2 + Suc k2"
  proof -
    have "pos c2 - (?x + k1 * 2 + 2) = length b + 2 * Suc k2" using b2 rl by (simp add: pos_def)
    then have "(pos c2 - (?x + k1 * 2 + 2)) div 2 = length b div 2 + Suc k2" using assms(5) by (auto elim!: evenE)
    then show ?thesis using assms(3) k2 by simp
  qed
  have b3: "m_bytes c' = pre @ t @ wide_bytes o' k1 (length b div 2 + Suc k2) @ b @ wide_bytes JUMP_BACK k2 arg2"
    using patch_bytes_run [OF b2, of "length b div 2 + Suc k2" c'] c' arg1 by simp
  have fit: "extendPrefixesFor (length b div 2 + Suc k2) \<le> k1"
    unfolding k1_def using k2 by (intro prefixes_mono) simp
  show ?thesis by (intro exI conjI) (rule k1, rule k2_def, rule fit, rule refl, rule arg2, rule b3)
qed

end
