(* ===== verification/CodeGen.thy ===== *)
theory CodeGen
  imports Emitter
begin

text \<open>
  src/frontend/Compiler.cpp, the code generator: one definition per case of
  \<open>emitStatement\<close> and \<open>emitExpr\<close>.  The two call each other on children; they are
  parameters here (\<open>ex\<close>, \<open>st\<close>) and the knot is tied at the end with fuel, the
  depth of the tree being enough.  \<open>p\<close> is the path of the node.
\<close>

type_synonym emit_fun = "path \<Rightarrow> node \<Rightarrow> env \<Rightarrow> env"

definition emit_kid :: "emit_fun \<Rightarrow> path \<Rightarrow> node \<Rightarrow> nat \<Rightarrow> env \<Rightarrow> env" where
  "emit_kid ex p n i e = (case kid n i of None \<Rightarrow> fail_with Null_Child e | Some m \<Rightarrow> ex (p @ [i]) m e)"

definition emit_kids :: "emit_fun \<Rightarrow> path \<Rightarrow> node \<Rightarrow> nat list \<Rightarrow> env \<Rightarrow> env" where
  "emit_kids ex p n is e = foldl (\<lambda>e i. emit_kid ex p n i e) e is"

definition check :: "bool \<Rightarrow> env \<Rightarrow> env" where
  "check b e = (if b then e else fail_with Null_Child e)"

fun spaced :: "string list \<Rightarrow> string" where
  "spaced [] = []"
| "spaced [x] = x"
| "spaced (x # y # xs) = x @ '' '' @ spaced (y # xs)"

definition push_scope :: "node_kind option \<Rightarrow> string set \<Rightarrow> env \<Rightarrow> env" where
  "push_scope k cap e = e\<lparr>e_scopes := empty_scope\<lparr>sc_kind := k, sc_captured := cap\<rparr> # e_scopes e\<rparr>"

definition pop_scope :: "env \<Rightarrow> env" where
  "pop_scope e = e\<lparr>e_scopes := tl (e_scopes e)\<rparr>"

definition declare_all :: "string list \<Rightarrow> env \<Rightarrow> env" where
  "declare_all names e = foldl (\<lambda>e x. snd (declareLocal x e)) e names"

definition declare_args :: "string list \<Rightarrow> env \<Rightarrow> env" where
  "declare_args names e =
     on_scope (\<lambda>s. s\<lparr>sc_args := sc_args s \<union> set names\<rparr>) (declare_all names e)"

section \<open>The capture prologue\<close>

definition captured_names :: "string set \<Rightarrow> string list \<Rightarrow> nat \<Rightarrow> nat \<Rightarrow> (string \<times> bool) list" where
  "captured_names cap argNames nArgs offset =
     filter (\<lambda>(x, arg). x \<in> cap)
       (map (\<lambda>i. (argNames ! i, i - offset < nArgs)) [offset..<length argNames])"

definition define_captured :: "string \<times> bool \<Rightarrow> env \<Rightarrow> env" where
  "define_captured d e =
     (let (name, isArgument) = d; (sym, e1) = add_code (internSymbol name) e
      in if isArgument
         then (case resolveLocal e1 name of
                 None \<Rightarrow> e1
               | Some slot \<Rightarrow> put_wide DEFINE_CAPTURED sym (put_wide PUSH_LOCAL slot e1))
         else put_wide DEFINE_CAPTURED sym (put PUSH_NIL 0 e1))"

definition emitCaptureProlog :: "bool \<Rightarrow> string list \<Rightarrow> nat \<Rightarrow> nat \<Rightarrow> env \<Rightarrow> env" where
  "emitCaptureProlog isMethod argNames nArgs offset e =
     (let cap = (case e_scopes e of [] \<Rightarrow> {} | s # ss \<Rightarrow> sc_captured s);
          declared = captured_names cap argNames nArgs offset
      in if cap = {} then e
         else if isMethod then foldl (\<lambda>e d. define_captured d e) (put MAKE_CAPTURED 0 e) declared
         else if declared \<noteq> [] then foldl (\<lambda>e d. define_captured d e) (put MAKE_CAPTURED 1 e) declared
         else e)"

section \<open>Groups of instance-variable writes\<close>

definition isInstVarAssignment :: "env \<Rightarrow> node \<Rightarrow> bool" where
  "isInstVarAssignment e n \<longleftrightarrow>
     n_kind n = N_Assignment \<and> n_children n \<noteq> [] \<and>
     \<not> isCaptured e (n_text n) \<and> resolveLocal e (n_text n) = None \<and> n_text n \<in> set (e_ivars e)"

definition fast_op :: "string \<Rightarrow> bool" where
  "fast_op t \<longleftrightarrow> t \<in> {''+'', ''-'', ''<='', ''<'', ''>='', ''>'', ''=''}"

function isInertGroupValue :: "env \<Rightarrow> string set \<Rightarrow> node \<Rightarrow> bool" where
  "isInertGroupValue e written v =
     (if n_kind v \<in> {N_IntegerLit, N_FloatLit, N_StringLit, N_SymbolLit, N_CharLit, N_TrueLit, N_FalseLit,
                     N_NilLit, N_Self} then True
      else if n_kind v = N_Identifier then
        isCaptured e (n_text v) \<or> resolveLocal e (n_text v) \<noteq> None \<or>
        (n_text v \<in> set (e_ivars e) \<or> n_text v \<in> set (e_cvars e)) \<and> n_text v \<notin> written
      else if n_kind v = N_BinarySend then
        (case kid v 0 of
           None \<Rightarrow> False
         | Some a \<Rightarrow>
             (case kid v 1 of
                None \<Rightarrow> False
              | Some b \<Rightarrow> fast_op (n_text v) \<and> isInertGroupValue e written a \<and> isInertGroupValue e written b))
      else False)"
  by pat_completeness auto
termination
  by (relation "measure (\<lambda>(e, w, v). size v)") (auto dest: kid_size)

declare isInertGroupValue.simps [simp del]

fun group_run :: "env \<Rightarrow> string set \<Rightarrow> nat \<Rightarrow> node option list \<Rightarrow> nat" where
  "group_run e written room [] = 0"
| "group_run e written room (x # ss) =
     (if room = 0 then 0
      else case x of
        None \<Rightarrow> 0
      | Some s \<Rightarrow>
          if isInstVarAssignment e s \<and> (case kid s 0 of None \<Rightarrow> False | Some v \<Rightarrow> isInertGroupValue e written v)
          then Suc (group_run e (insert (n_text s) written) (room - 1) ss) else 0)"

abbreviation (input) kMaxInstVarGroup :: nat where
  "kMaxInstVarGroup \<equiv> 16"

definition group_write :: "emit_fun \<Rightarrow> path \<Rightarrow> node option list \<Rightarrow> nat \<Rightarrow> nat \<Rightarrow> env \<Rightarrow> nat \<Rightarrow> env" where
  "group_write ex p cs i n e k =
     (case cs ! (i + k) of
        None \<Rightarrow> fail_with Null_Child e
      | Some s \<Rightarrow>
          (let e1 = emit_kid ex (p @ [i + k]) s 0 (at_line s e);
               (sym, e2) = add_code (internSymbol (n_text s)) e1;
               (entry, e3) = add_code (addInstVarGroupEntry sym k n) e2
           in put_wide (if k + 1 < n then IVAR_GROUP else IVAR_GROUP_END) entry e3))"

definition tryEmitInstVarGroup ::
  "emit_fun \<Rightarrow> ctx \<Rightarrow> path \<Rightarrow> node option list \<Rightarrow> nat \<Rightarrow> nat \<Rightarrow> env \<Rightarrow> nat \<times> env" where
  "tryEmitInstVarGroup ex x p cs i end' e =
     (if \<not> x_groups x \<or> e_ivars e = [] then (0, e)
      else case cs ! i of
        None \<Rightarrow> (0, e)
      | Some s \<Rightarrow>
          if \<not> isInstVarAssignment e s then (0, e)
          else
            (let n = Suc (group_run e {n_text s} (kMaxInstVarGroup - 1) (take (end' - (i + 1)) (drop (i + 1) cs)))
             in if n < 2 then (0, e) else (n, foldl (group_write ex p cs i n) e [0..<n])))"

function emit_statements :: "emit_fun \<Rightarrow> emit_fun \<Rightarrow> ctx \<Rightarrow> path \<Rightarrow> node option list \<Rightarrow> nat \<Rightarrow> nat \<Rightarrow> env \<Rightarrow> env" where
  "emit_statements ex st x p cs i end' e =
     (if \<not> i < end' then e
      else
        (let (run, e1) = tryEmitInstVarGroup ex x p cs i end' e;
             j = (if run > 0 then i + run - 1 else i);
             e2 = (if run > 0 then e1
                   else case cs ! i of None \<Rightarrow> fail_with Null_Child e | Some s \<Rightarrow> st (p @ [i]) s e)
         in emit_statements ex st x p cs (j + 1) end' (if j + 1 \<noteq> end' then put POP 0 e2 else e2)))"
  by pat_completeness auto
termination
  by (relation "measure (\<lambda>(ex, st, x, p, cs, i, end', e). end' - i)") auto

declare emit_statements.simps [simp del]

definition emitStatements :: "emit_fun \<Rightarrow> emit_fun \<Rightarrow> ctx \<Rightarrow> path \<Rightarrow> node option list \<Rightarrow> nat \<Rightarrow> env \<Rightarrow> env" where
  "emitStatements ex st x p cs from e = emit_statements ex st x p cs from (length cs) e"

definition emitInlinedBlockBody :: "emit_fun \<Rightarrow> emit_fun \<Rightarrow> ctx \<Rightarrow> path \<Rightarrow> node \<Rightarrow> env \<Rightarrow> env" where
  "emitInlinedBlockBody ex st x p blk e =
     (if n_children blk = [] then put PUSH_NIL 0 e else emitStatements ex st x p (n_children blk) 0 e)"

section \<open>Assignments\<close>

definition store_symbol :: "emit_fun \<Rightarrow> path \<Rightarrow> node \<Rightarrow> op \<Rightarrow> env \<Rightarrow> env" where
  "store_symbol ex p n o' e =
     (let e1 = emit_kid ex p n 0 e; (sym, e2) = add_code (internSymbol (n_text n)) e1
      in put_wide o' sym (put DUP 0 e2))"

definition store_slot :: "emit_fun \<Rightarrow> path \<Rightarrow> node \<Rightarrow> nat \<Rightarrow> env \<Rightarrow> env" where
  "store_slot ex p n slot e = put_wide STORE_LOCAL slot (put DUP 0 (emit_kid ex p n 0 e))"

text \<open>\<open>failed\<close> is what an assignment that is refused leaves: nothing, or nil.\<close>

definition assign_with :: "(env \<Rightarrow> env) \<Rightarrow> emit_fun \<Rightarrow> ctx \<Rightarrow> path \<Rightarrow> node \<Rightarrow> env \<Rightarrow> env" where
  "assign_with failed ex x p n e =
     (let (isArg, e1) = reportArgumentAssignment (n_text n) e
      in if isArg then failed e1
         else if isCaptured e (n_text n) then
           (let (undeclared, e2) = reportUndeclaredInMethod (n_text n) e
            in if undeclared then failed e2 else store_symbol ex p n STORE_CAPTURED e)
         else case resolveLocal e (n_text n) of
           Some slot \<Rightarrow> store_slot ex p n slot e
         | None \<Rightarrow>
             if n_text n \<in> set (e_ivars e) then store_symbol ex p n STORE_INSTVAR e
             else if n_text n \<in> set (e_cvars e) then store_symbol ex p n STORE_CLASSVAR e
             else if (x_repl x \<and> atModuleScope e) \<or> assignsReplGlobalInBlock x e (n_text n)
             then store_symbol ex p n STORE_GLOBAL e
             else
               (let (undeclared, e2) = reportUndeclaredInMethod (n_text n) e
                in if undeclared then failed e2
                   else (let (slot, e3) = declareLocal (n_text n) e in store_slot ex p n slot e3)))"

definition emitAssignmentStatement :: "emit_fun \<Rightarrow> ctx \<Rightarrow> path \<Rightarrow> node \<Rightarrow> env \<Rightarrow> env" where
  "emitAssignmentStatement = assign_with (\<lambda>e. e)"

definition emitAssignmentExpr :: "emit_fun \<Rightarrow> ctx \<Rightarrow> path \<Rightarrow> node \<Rightarrow> env \<Rightarrow> env" where
  "emitAssignmentExpr = assign_with (put PUSH_NIL 0)"

section \<open>Class declarations\<close>

definition emitSetInstVarNames :: "node \<Rightarrow> env \<Rightarrow> env" where
  "emitSetInstVarNames n e =
     (if nat (n_int n) = 0 then e
      else
        (let (namesIdx, e1) = add_code (addString (spaced (take (nat (n_int n)) (drop 1 (n_strings n))))) e;
             (selIdx, e2) = add_code (internSymbol ''__setInstVarNames:'') e1
         in put_wide SEND_KEYWORD selIdx (put_wide PUSH_CONST namesIdx e2)))"

definition emit_class_vars :: "node \<Rightarrow> env \<Rightarrow> env" where
  "emit_class_vars n e =
     (let cvs = drop (1 + nat (n_int n)) (n_strings n)
      in if cvs = [] then e
         else
           (let (cvStrIdx, e1) = add_code (addString (spaced cvs)) e;
                (initCvsIdx, e2) = add_code (internSymbol ''__initClassVars:'') e1
            in put_wide SEND_KEYWORD initCvsIdx (put_wide PUSH_CONST cvStrIdx e2)))"

definition emit_mixin_class :: "emit_fun \<Rightarrow> path \<Rightarrow> node \<Rightarrow> string \<Rightarrow> env \<Rightarrow> env" where
  "emit_mixin_class ex p n super e =
     (let e1 = put_symbol PUSH_GLOBAL super e;
          e2 = put_symbol PUSH_CONST (n_text n) e1;
          ivCount = nat (n_int n);
          e3 = (if ivCount > 0
                then put_const (addString (spaced (take ivCount (drop 1 (n_strings n)))))
                       (check (ivCount < length (n_strings n)) e2)
                else e2);
          e4 = emit_kid ex p n 0 e3
      in put_symbol SEND_KEYWORD
           (if ivCount > 0 then ''subclass:instanceVariableNames:uses:'' else ''subclass:uses:'') e4)"

definition emit_plain_class :: "node \<Rightarrow> string \<Rightarrow> env \<Rightarrow> env" where
  "emit_plain_class n super e =
     (let (superIdx, e1) = add_code (internSymbol super) e;
          (subclassIdx, e2) = add_code (internSymbol ''__subclassNamed:'') e1;
          (declNameIdx, e3) = add_code (addString (n_text n)) e2;
          e4 = put_wide SEND_KEYWORD subclassIdx (put_wide PUSH_CONST declNameIdx (put_wide PUSH_GLOBAL superIdx e3));
          (setNameIdx, e5) = add_code (internSymbol ''__setClassName:'') e4;
          (nameStrIdx, e6) = add_code (addString (n_text n)) e5
      in put_wide SEND_KEYWORD setNameIdx (put_wide PUSH_CONST nameStrIdx e6))"

definition emitClassDecl :: "emit_fun \<Rightarrow> path \<Rightarrow> node \<Rightarrow> env \<Rightarrow> env" where
  "emitClassDecl ex p n e =
     (let super = (if n_strings n = [] then ''Object'' else n_strings n ! 0);
          (classNameIdx, e1) = add_code (internSymbol (n_text n)) e;
          e2 = (if kid n 0 \<noteq> None then emit_mixin_class ex p n super e1 else emit_plain_class n super e1)
      in put_wide STORE_GLOBAL classNameIdx (put DUP 0 (emit_class_vars n (emitSetInstVarNames n e2))))"

section \<open>Method declarations\<close>

definition method_selector_name :: "node \<Rightarrow> string" where
  "method_selector_name n = (if n_strings n = [] then [] else n_strings n ! 0)"

text \<open>The names a method of the class sees, and the clashes with its own.\<close>

definition enter_class :: "ctx \<Rightarrow> node \<Rightarrow> env \<Rightarrow> env" where
  "enter_class x n e =
     (let e1 = e\<lparr>e_class := n_text n, e_classSide := n_flag n\<rparr>
      in case map_of (x_classes x) (n_text n) of
           None \<Rightarrow> e1\<lparr>e_ivars := [], e_cvars := []\<rparr>
         | Some ci \<Rightarrow>
             (case instVarsThroughChain (x_classes x) (n_text n) (n_flag n) of
                None \<Rightarrow> fail_with Endless e1
              | Some ivs \<Rightarrow> e1\<lparr>e_ivars := ivs, e_cvars := resolveClassVarsFor (x_classes x) (n_text n)\<rparr>))"

definition report_clashes :: "node \<Rightarrow> env \<Rightarrow> env" where
  "report_clashes n e =
     (let own = drop 1 (n_strings n); sel = n_text n @ ''>>'' @ method_selector_name n;
          e1 = reportDuplicateNames (n_strings n) 1 sel e
      in e1\<lparr>e_errors := e_errors e1 @
           concat (map (\<lambda>s. map (\<lambda>iv. [SQ] @ iv @ [SQ] @ '' is already defined as an instance variable of '' @
                                  n_text n @ '' (in '' @ sel @ '')'')
                              (filter (\<lambda>iv. iv = s) (e_ivars e1))) own)\<rparr>)"

definition open_method :: "ctx \<Rightarrow> path \<Rightarrow> node \<Rightarrow> nat \<Rightarrow> env \<Rightarrow> env" where
  "open_method x p n nArgs e =
     (let e1 = push_scope (Some (n_kind n)) (captured_at (x_analysis x) p) (e\<lparr>e_mod := empty_module\<rparr>);
          e2 = declare_args (take nArgs (drop 1 (n_strings n))) (snd (declareLocal ''self'' e1));
          e3 = declare_all (drop (1 + nArgs) (n_strings n)) e2
      in on_code (\<lambda>c. c\<lparr>m_argCount := int nArgs + 1\<rparr>) (check (nArgs < length (n_strings n)) e3))"

definition ends_with_return :: "node option list \<Rightarrow> bool" where
  "ends_with_return cs \<longleftrightarrow>
     cs \<noteq> [] \<and> (case last cs of None \<Rightarrow> False | Some s \<Rightarrow> n_kind s = N_Return)"

text \<open>The statements of a body and the return of \<open>self\<close> after them.\<close>

definition method_statements :: "emit_fun \<Rightarrow> emit_fun \<Rightarrow> ctx \<Rightarrow> path \<Rightarrow> node option list \<Rightarrow> nat \<Rightarrow> env \<Rightarrow> env" where
  "method_statements ex st x p cs from e =
     (let e1 = (if length cs \<le> from then put PUSH_NIL 0 e else e);
          e2 = emitStatements ex st x p cs from e1
      in if from < length cs \<and> ends_with_return cs then e2
         else put RETURN 0 (put PUSH_LOCAL 0 (if from < length cs then put POP 0 e2 else e2)))"

definition clear_method :: "env \<Rightarrow> env" where
  "clear_method e = e\<lparr>e_class := [], e_debug := [], e_ivars := [], e_cvars := [], e_classSide := False\<rparr>"

text \<open>Closes the method's module and emits the code that installs it.\<close>

definition install_method :: "bmodule \<Rightarrow> int \<Rightarrow> node \<Rightarrow> env \<Rightarrow> env" where
  "install_method outer headerLine n e =
     (let e1 = pop_scope (on_code (\<lambda>c. c\<lparr>m_defClass := n_text n\<rparr>) e);
          (blkIdx, m) = addBlockModule (e_mod e1) outer;
          e2 = check (n_strings n \<noteq> []) (e1\<lparr>e_mod := m\<rparr>);
          (classIdx, e3) = add_code (internSymbol (n_text n)) e2;
          (selectorIdx, e4) = add_code (internSymbol (method_selector_name n)) e3;
          (installIdx, e5) = add_code (internSymbol
             (if n_flag n then ''__installClassMethod:as:'' else ''__installMethod:as:'')) e4;
          e6 = e5\<lparr>e_line := headerLine\<rparr>
      in clear_method (put_wide SEND_KEYWORD installIdx (put_wide PUSH_CONST selectorIdx
           (put_wide PUSH_BLOCK blkIdx (put_wide PUSH_GLOBAL classIdx e6)))))"

definition name_module :: "string \<Rightarrow> env \<Rightarrow> env" where
  "name_module s e = on_code (\<lambda>c. c\<lparr>m_debugName := s\<rparr>) (recordLocalNames e)"

definition emitMethodDecl :: "emit_fun \<Rightarrow> emit_fun \<Rightarrow> ctx \<Rightarrow> path \<Rightarrow> node \<Rightarrow> env \<Rightarrow> env" where
  "emitMethodDecl ex st x p n e =
     (let headerLine = e_line e; nArgs = nat (n_int n);
          debug = n_text n @ ''>>'' @ (if n_strings n = [] then ''<method>'' else n_strings n ! 0);
          e1 = report_clashes n (enter_class x n (e\<lparr>e_debug := debug\<rparr>));
          e2 = emitCaptureProlog True (n_strings n) nArgs 1 (open_method x p n nArgs e1);
          e3 = method_statements ex st x p (n_children n) 0 e2
      in install_method (e_mod e) headerLine n (name_module debug e3))"

text \<open>One named parameter: when its slot holds the unset marker, its default.\<close>

definition emit_default :: "emit_fun \<Rightarrow> path \<Rightarrow> node \<Rightarrow> nat \<Rightarrow> env \<Rightarrow> nat \<Rightarrow> env" where
  "emit_default ex p n nPos e i =
     (let slot = 1 + nPos + i;
          e1 = put_const addUnsetMarker (put_wide PUSH_LOCAL slot e);
          (jump, e2) = emitForwardJump JUMP_IF_FALSE (put_symbol SEND_BINARY ''=='' e1);
          e3 = (case kid n i of None \<Rightarrow> put PUSH_NIL 0 e2 | Some d \<Rightarrow> ex (p @ [i]) d e2);
          e4 = put_wide STORE_LOCAL slot e3
      in resolveForwardJumps [(jump, pos (code_of e4))] e4)"

definition emitCallMethodDecl :: "emit_fun \<Rightarrow> emit_fun \<Rightarrow> ctx \<Rightarrow> path \<Rightarrow> node \<Rightarrow> env \<Rightarrow> env" where
  "emitCallMethodDecl ex st x p n e =
     (let headerLine = e_line e; nPos = nat (n_int n); nNamed = nat (n_int2 n); nArgs = nPos + nNamed;
          e1 = open_method x p n nArgs (report_clashes n (enter_class x n e));
          e2 = on_code (setCallFormSignature (int nPos) (take nNamed (drop (1 + nPos) (n_strings n)))) e1;
          e3 = emitCaptureProlog True (n_strings n) nArgs 1 e2;
          e4 = foldl (emit_default ex p n nPos) e3 [0..<nNamed];
          e5 = method_statements ex st x p (n_children n) nNamed e4
      in install_method (e_mod e) headerLine n
           (name_module (n_text n @ ''>>'' @ method_selector_name n @ ''(...)'') e5))"

section \<open>Statements\<close>

definition emitReturn :: "emit_fun \<Rightarrow> path \<Rightarrow> node \<Rightarrow> env \<Rightarrow> env" where
  "emitReturn ex p n e =
     put RETURN 0 (if n_children n \<noteq> [] then emit_kid ex p n 0 e else put PUSH_NIL 0 e)"

definition emitStatement :: "emit_fun \<Rightarrow> emit_fun \<Rightarrow> ctx \<Rightarrow> path \<Rightarrow> node \<Rightarrow> env \<Rightarrow> env" where
  "emitStatement ex st x p n e0 =
     (let e = at_line n e0
      in if n_kind n = N_Return then emitReturn ex p n e
         else if n_kind n = N_ClassDecl then emitClassDecl ex p n e
         else if n_kind n = N_MethodDecl then emitMethodDecl ex st x p n e
         else if n_kind n = N_CallMethodDecl then emitCallMethodDecl ex st x p n e
         else if n_kind n = N_Assignment then emitAssignmentStatement ex x p n e
         else ex p n e)"

section \<open>Expressions\<close>

definition emitIdentifier :: "ctx \<Rightarrow> node \<Rightarrow> env \<Rightarrow> env" where
  "emitIdentifier x n e =
     (if isCaptured e (n_text n) then put_symbol PUSH_CAPTURED (n_text n) e
      else case resolveLocal e (n_text n) of
        Some slot \<Rightarrow> put_wide PUSH_LOCAL slot e
      | None \<Rightarrow>
          if n_text n \<in> set (e_ivars e)
          then put_symbol (if e_classSide e then PUSH_OWN_INSTVAR else PUSH_INSTVAR) (n_text n) e
          else if n_text n \<in> set (e_cvars e) then put_symbol PUSH_INSTVAR (n_text n) e
          else if \<not> x_repl x \<and> e_class e \<noteq> [] \<and> n_text n \<noteq> [] \<and> islower (hd (n_text n))
          then put PUSH_NIL 0 (comp_error (''undeclared variable '' @ [SQ] @ n_text n @ [SQ] @ '' in '' @ e_class e @
                 '' (line '' @ show_int (e_line e) @ '')'') e)
          else put_symbol PUSH_GLOBAL (n_text n) e)"

definition binary_op :: "node \<Rightarrow> op" where
  "binary_op n =
     (if isSuperReceiver n then SEND_SUPER
      else if n_text n = ''+'' then BIN_INT_ADD
      else if n_text n = ''-'' then BIN_INT_SUB
      else if n_text n = ''<='' then BIN_INT_LE
      else if n_text n = ''<'' then BIN_INT_LT
      else if n_text n = ''>='' then BIN_INT_GE
      else if n_text n = ''>'' then BIN_INT_GT
      else if n_text n = ''='' then BIN_INT_EQ
      else SEND_BINARY)"

definition emitUnarySend :: "emit_fun \<Rightarrow> path \<Rightarrow> node \<Rightarrow> env \<Rightarrow> env" where
  "emitUnarySend ex p n e =
     put_symbol (if isSuperReceiver n then SEND_SUPER else SEND_UNARY) (n_text n) (emit_kid ex p n 0 e)"

definition emitBinarySend :: "emit_fun \<Rightarrow> path \<Rightarrow> node \<Rightarrow> env \<Rightarrow> env" where
  "emitBinarySend ex p n e =
     (let e1 = emit_kid ex p n 0 e
      in if length (n_children n) < 2 then comp_error ''binary send missing argument'' e1
         else put_symbol (binary_op n) (n_text n) (emit_kid ex p n 1 e1))"

definition mangled_selector :: "node \<Rightarrow> string" where
  "mangled_selector n =
     n_text n @ ''#'' @ show_int (n_int n) @
     concat (map (\<lambda>k. ''#'' @ k) (take (nat (n_int2 n)) (n_strings n)))"

definition emitCallSend :: "emit_fun \<Rightarrow> path \<Rightarrow> node \<Rightarrow> env \<Rightarrow> env" where
  "emitCallSend ex p n e =
     (if isSuperReceiver n
      then put PUSH_NIL 0 (comp_error (''a call-form send cannot have super as its receiver: super '' @ n_text n @
             ''(...) (line '' @ show_int (e_line e) @ '')'') e)
      else put_symbol SEND_CALL (mangled_selector n)
             (check (nat (n_int2 n) \<le> length (n_strings n))
               (emit_kids ex p n [1..<1 + nat (n_int n) + nat (n_int2 n)] (emit_kid ex p n 0 e))))"

text \<open>One message of a cascade, its receiver being on the stack.\<close>

definition cascade_send :: "emit_fun \<Rightarrow> bool \<Rightarrow> path \<Rightarrow> node \<Rightarrow> env \<Rightarrow> env" where
  "cascade_send ex toSuper p msg e =
     (let send = (\<lambda>o'. put_symbol (if toSuper then SEND_SUPER else o') (n_text msg))
      in if n_kind msg = N_UnarySend then send SEND_UNARY e
         else if n_kind msg = N_BinarySend then
           send SEND_BINARY (if n_children msg = [] then comp_error ''cascade binary missing arg'' e
                             else emit_kid ex p msg 0 e)
         else if n_kind msg = N_KeywordSend then
           send SEND_KEYWORD (emit_kids ex p msg [0..<length (n_children msg)] e)
         else comp_error ''unexpected node in cascade'' e)"

definition cascade_step :: "emit_fun \<Rightarrow> path \<Rightarrow> node \<Rightarrow> nat \<Rightarrow> env \<Rightarrow> nat \<Rightarrow> env" where
  "cascade_step ex p n tmp e i =
     (case kid n i of
        None \<Rightarrow> fail_with Null_Child e
      | Some msg \<Rightarrow>
          (let e1 = cascade_send ex (isSuperReceiver n) (p @ [i]) msg (put DUP 0 e)
           in if i + 1 = length (n_children n)
              then put_wide PUSH_LOCAL tmp (put POP 0 (put_wide STORE_LOCAL tmp e1))
              else put POP 0 e1))"

definition emitCascade :: "emit_fun \<Rightarrow> path \<Rightarrow> node \<Rightarrow> env \<Rightarrow> env" where
  "emitCascade ex p n e =
     (let e1 = emit_kid ex p n 0 e;
          (tmp, e2) = declareLocal (''__cascade_tmp_'' @ show_nat (next_slot e1)) e1
      in foldl (cascade_step ex p n tmp) e2 [1..<length (n_children n)])"

definition emitArray :: "emit_fun \<Rightarrow> path \<Rightarrow> node \<Rightarrow> env \<Rightarrow> env" where
  "emitArray ex p n e =
     put_wide MAKE_ARRAY (length (n_children n))
       (emit_kids ex p n (filter (\<lambda>i. kid n i \<noteq> None) [0..<length (n_children n)]) e)"

definition emitBlock :: "emit_fun \<Rightarrow> emit_fun \<Rightarrow> ctx \<Rightarrow> path \<Rightarrow> node \<Rightarrow> env \<Rightarrow> env" where
  "emitBlock ex st x p n e =
     (let blockLine = e_line e; nArgs = nat (n_int n);
          e1 = push_scope (Some N_Block) (captured_at (x_analysis x) p) (e\<lparr>e_mod := empty_module\<rparr>);
          e2 = (if e_class e \<noteq> [] then on_code (\<lambda>c. c\<lparr>m_defClass := e_class e\<rparr>) e1 else e1);
          e3 = on_code (\<lambda>c. c\<lparr>m_argCount := n_int n\<rparr>) (reportDuplicateNames (n_strings n) 0 ''a block'' e2);
          e4 = declare_all (drop nArgs (n_strings n)) (declare_args (take nArgs (n_strings n)) e3);
          e5 = emitCaptureProlog False (n_strings n) nArgs 0 e4;
          e6 = emitStatements ex st x p (n_children n) 0 (if n_children n = [] then put PUSH_NIL 0 e5 else e5);
          e7 = name_module (if e_debug e6 = [] then ''<block>'' else ''[] in '' @ e_debug e6) (put RETURN_TOP 0 e6);
          e8 = pop_scope e7;
          (blkIdx, m) = addBlockModule (e_mod e8) (e_mod e)
      in put_wide PUSH_BLOCK blkIdx (e8\<lparr>e_mod := m, e_line := blockLine\<rparr>))"

section \<open>Inlined control\<close>

definition emitDoYieldingLoop :: "emit_fun \<Rightarrow> path \<Rightarrow> node \<Rightarrow> env \<Rightarrow> env" where
  "emitDoYieldingLoop ex p n e =
     (let base = show_nat (next_slot e);
          (coll, e1) = declareLocal (''__dy_coll_'' @ base) e;
          (blk, e2) = declareLocal (''__dy_blk_'' @ base) e1;
          (slotN, e3) = declareLocal (''__dy_n_'' @ base) e2;
          (slotI, e4) = declareLocal (''__dy_i_'' @ base) e3;
          (one, e5) = add_code (addInteger 1) e4;
          e6 = put_wide STORE_LOCAL coll (emit_kid ex p n 0 e5);
          e7 = put_wide STORE_LOCAL blk (emit_kid ex p n 1 e6);
          e8 = put_wide STORE_LOCAL slotN (put_symbol SEND_UNARY ''size'' (put_wide PUSH_LOCAL coll e7));
          e9 = put_wide STORE_LOCAL slotI (put_wide PUSH_CONST one e8);
          loopTest = pos (code_of e9);
          e10 = put_symbol SEND_BINARY ''<='' (put_wide PUSH_LOCAL slotN (put_wide PUSH_LOCAL slotI e9));
          (jumpFalse, e11) = emitForwardJump JUMP_IF_FALSE e10;
          e12 = put_wide PUSH_LOCAL slotI (put_wide PUSH_LOCAL coll (put_wide PUSH_LOCAL blk e11));
          e13 = put POP 0 (put_symbol SEND_KEYWORD ''value:'' (put_symbol SEND_KEYWORD ''at:'' e12));
          e14 = put_symbol SEND_BINARY ''+'' (put_wide PUSH_CONST one (put_wide PUSH_LOCAL slotI e13));
          e15 = put_wide STORE_LOCAL slotI e14
      in put_wide PUSH_LOCAL coll (closeLoop loopTest jumpFalse e15))"

definition body_of :: "emit_fun \<Rightarrow> emit_fun \<Rightarrow> ctx \<Rightarrow> path \<Rightarrow> node \<Rightarrow> nat \<Rightarrow> env \<Rightarrow> env" where
  "body_of ex st x p n i e =
     (case kid n i of
        None \<Rightarrow> fail_with Null_Child e
      | Some b \<Rightarrow> emitInlinedBlockBody ex st x (p @ [i]) b e)"

definition emitIfTrue :: "emit_fun \<Rightarrow> emit_fun \<Rightarrow> ctx \<Rightarrow> path \<Rightarrow> node \<Rightarrow> env \<Rightarrow> env" where
  "emitIfTrue ex st x p n e =
     (let invert = (n_text n = ''ifFalse:'');
          e1 = put_symbol ASSERT_BOOL_OR_DNU (n_text n) (emit_kid ex p n 0 e);
          (jSkip, e2) = emitForwardJump (if invert then JUMP_IF_TRUE else JUMP_IF_FALSE) e1;
          (jDone, e3) = emitForwardJump JUMP (body_of ex st x p n 1 e2);
          skipTarget = pos (code_of e3);
          e4 = put PUSH_NIL 0 e3
      in resolveForwardJumps [(jSkip, skipTarget), (jDone, pos (code_of e4))] e4)"

definition emitIfTrueIfFalse :: "emit_fun \<Rightarrow> emit_fun \<Rightarrow> ctx \<Rightarrow> path \<Rightarrow> node \<Rightarrow> env \<Rightarrow> env" where
  "emitIfTrueIfFalse ex st x p n e =
     (let ifFalseFirst = (n_text n = ''ifFalse:ifTrue:'');
          e1 = put_symbol ASSERT_BOOL_OR_DNU (n_text n) (emit_kid ex p n 0 e);
          (jToFalse, e2) = emitForwardJump JUMP_IF_FALSE e1;
          (jDone, e3) = emitForwardJump JUMP (body_of ex st x p n (if ifFalseFirst then 2 else 1) e2);
          falseTarget = pos (code_of e3);
          e4 = body_of ex st x p n (if ifFalseFirst then 1 else 2) e3
      in resolveForwardJumps [(jToFalse, falseTarget), (jDone, pos (code_of e4))] e4)"

definition emitWhile :: "emit_fun \<Rightarrow> emit_fun \<Rightarrow> ctx \<Rightarrow> path \<Rightarrow> node \<Rightarrow> env \<Rightarrow> env" where
  "emitWhile ex st x p n e =
     (let invert = (n_text n = ''whileFalse:'');
          (selSym, e1) = add_code (internSymbol (n_text n)) e;
          loopTest = pos (code_of e1);
          e2 = put_wide ASSERT_BOOL_OR_DNU selSym (body_of ex st x p n 0 e1);
          (jExit, e3) = emitForwardJump (if invert then JUMP_IF_TRUE else JUMP_IF_FALSE) e2;
          e4 = put POP 0 (body_of ex st x p n 1 e3)
      in put PUSH_NIL 0 (closeLoop loopTest jExit e4))"

text \<open>The loop variable's name, bound to the counter's slot around the body.\<close>

definition bind_loop_var :: "string \<Rightarrow> nat \<Rightarrow> env \<Rightarrow> env" where
  "bind_loop_var name slot e =
     (let e1 = on_scope (\<lambda>s. s\<lparr>sc_slots := AList.update name slot (sc_slots s),
                                sc_captured := sc_captured s - {name}\<rparr>) e
      in e1\<lparr>e_loops := e_loops e1 @ [(length (e_scopes e1) - 1, name)]\<rparr>)"

definition unbind_loop_var :: "string \<Rightarrow> scope \<Rightarrow> env \<Rightarrow> env" where
  "unbind_loop_var name old e =
     on_scope (\<lambda>s. s\<lparr>sc_captured := (if name \<in> sc_captured old then insert name (sc_captured s) else sc_captured s),
                      sc_slots := (case map_of (sc_slots old) name of
                                     Some slot \<Rightarrow> AList.update name slot (sc_slots s)
                                   | None \<Rightarrow> AList.delete name (sc_slots s))\<rparr>)
       (e\<lparr>e_loops := butlast (e_loops e)\<rparr>)"

definition emitToDo :: "emit_fun \<Rightarrow> emit_fun \<Rightarrow> ctx \<Rightarrow> path \<Rightarrow> node \<Rightarrow> env \<Rightarrow> env" where
  "emitToDo ex st x p n e =
     (let base = show_nat (next_slot e);
          (slotI, e1) = declareLocal (''__td_i_'' @ base) e;
          (slotEnd, e2) = declareLocal (''__td_end_'' @ base) e1;
          e3 = put_wide STORE_LOCAL slotI (put DUP 0 (emit_kid ex p n 0 e2));
          e4 = put_wide STORE_LOCAL slotEnd (emit_kid ex p n 1 e3);
          name = (case kid n 2 of None \<Rightarrow> [] | Some b \<Rightarrow> hd (n_strings b));
          old = (case e_scopes e4 of [] \<Rightarrow> empty_scope | s # ss \<Rightarrow> s);
          e5 = bind_loop_var name slotI e4;
          loopFrom = pos (code_of e5);
          e6 = put_symbol BIN_INT_LE ''<='' (put_wide PUSH_LOCAL slotEnd (put_wide PUSH_LOCAL slotI e5));
          (jExit, e7) = emitForwardJump JUMP_IF_FALSE e6;
          e8 = put POP 0 (body_of ex st x p n 2 e7);
          (one, e9) = add_code (addInteger 1) e8;
          e10 = put_symbol BIN_INT_ADD ''+'' (put_wide PUSH_CONST one (put_wide PUSH_LOCAL slotI e9));
          e11 = closeLoop loopFrom jExit (put_wide STORE_LOCAL slotI e10);
          e12 = on_code (\<lambda>c. addScopedLocal slotI name loopFrom (pos c) c) e11
      in unbind_loop_var name old e12)"

text \<open>The sends that the analysis inlined, and only they.\<close>

definition tryEmitInlinedControl :: "emit_fun \<Rightarrow> emit_fun \<Rightarrow> ctx \<Rightarrow> path \<Rightarrow> node \<Rightarrow> env \<Rightarrow> bool \<times> env" where
  "tryEmitInlinedControl ex st x p n e =
     (if p \<notin> an_inlined (x_analysis x) then (False, e)
      else if length (n_children n) = 2 \<and> isInlineableBlock (kid n 1) \<and>
              (n_text n = ''ifTrue:'' \<or> n_text n = ''ifFalse:'') then (True, emitIfTrue ex st x p n e)
      else if length (n_children n) = 3 \<and> isInlineableBlock (kid n 1) \<and> isInlineableBlock (kid n 2) \<and>
              (n_text n = ''ifTrue:ifFalse:'' \<or> n_text n = ''ifFalse:ifTrue:'')
           then (True, emitIfTrueIfFalse ex st x p n e)
      else if n_text n = ''to:do:'' \<and> length (n_children n) = 3 \<and> isLoopBlock (kid n 2)
           then (True, emitToDo ex st x p n e)
      else if length (n_children n) = 2 \<and> isInlineableBlock (kid n 0) \<and> isInlineableBlock (kid n 1) \<and>
              (n_text n = ''whileTrue:'' \<or> n_text n = ''whileFalse:'') then (True, emitWhile ex st x p n e)
      else (False, e))"

definition isDoYielding :: "node \<Rightarrow> bool" where
  "isDoYielding n \<longleftrightarrow>
     n_text n = ''doYielding:'' \<and> \<not> isSuperReceiver n \<and> length (n_children n) = 2 \<and>
     (case kid n 1 of None \<Rightarrow> False | Some b \<Rightarrow> n_kind b = N_Block \<and> n_int b = 1)"

definition emitKeywordSend :: "emit_fun \<Rightarrow> emit_fun \<Rightarrow> ctx \<Rightarrow> path \<Rightarrow> node \<Rightarrow> env \<Rightarrow> env" where
  "emitKeywordSend ex st x p n e =
     (if isDoYielding n then emitDoYieldingLoop ex p n e
      else
        (let (inlined, e1) = tryEmitInlinedControl ex st x p n e
         in if inlined then e1
            else put_symbol (if isSuperReceiver n then SEND_SUPER else SEND_KEYWORD) (n_text n)
                   (emit_kids ex p n [1..<length (n_children n)] (emit_kid ex p n 0 e1))))"

definition emitExpr :: "emit_fun \<Rightarrow> emit_fun \<Rightarrow> ctx \<Rightarrow> path \<Rightarrow> node \<Rightarrow> env \<Rightarrow> env" where
  "emitExpr ex st x p n e0 =
     (let e = at_line n e0
      in case n_kind n of
           N_IntegerLit \<Rightarrow>
             put_const (if n_flag n then addLargeInteger (n_text n) (n_int n) else addInteger (n_int n)) e
         | N_FloatLit \<Rightarrow> put_const (addFloat (n_float n)) e
         | N_StringLit \<Rightarrow> put_const (addString (n_text n)) e
         | N_SymbolLit \<Rightarrow> put_symbol PUSH_CONST (n_text n) e
         | N_CharLit \<Rightarrow> put_const (addChar (n_text n)) e
         | N_TrueLit \<Rightarrow> put PUSH_TRUE 0 e
         | N_FalseLit \<Rightarrow> put PUSH_FALSE 0 e
         | N_NilLit \<Rightarrow> put PUSH_NIL 0 e
         | N_Self \<Rightarrow> put PUSH_SELF 0 e
         | N_Super \<Rightarrow> put PUSH_SELF 0 e
         | N_Identifier \<Rightarrow> emitIdentifier x n e
         | N_Assignment \<Rightarrow> emitAssignmentExpr ex x p n e
         | N_UnarySend \<Rightarrow> emitUnarySend ex p n e
         | N_BinarySend \<Rightarrow> emitBinarySend ex p n e
         | N_KeywordSend \<Rightarrow> emitKeywordSend ex st x p n e
         | N_CallSend \<Rightarrow> emitCallSend ex p n e
         | N_Cascade \<Rightarrow> emitCascade ex p n e
         | N_ArrayLit \<Rightarrow> emitArray ex p n e
         | N_DynArrayLit \<Rightarrow> emitArray ex p n e
         | N_Block \<Rightarrow> emitBlock ex st x p n e
         | N_ThisContext \<Rightarrow>
             put PUSH_NIL 0 (comp_error ''thisContext is not supported in protoST (it is reserved; see STATUS D17)'' e)
         | _ \<Rightarrow> put PUSH_NIL 0 (comp_error ''expression kind not yet supported'' e))"

section \<open>Modules\<close>

fun emit_expr :: "nat \<Rightarrow> ctx \<Rightarrow> emit_fun" and emit_stmt :: "nat \<Rightarrow> ctx \<Rightarrow> emit_fun" where
  "emit_expr 0 x p n e = fail_with Out_Of_Fuel e"
| "emit_expr (Suc k) x p n e = emitExpr (emit_expr k x) (emit_stmt k x) x p n e"
| "emit_stmt 0 x p n e = fail_with Out_Of_Fuel e"
| "emit_stmt (Suc k) x p n e = emitStatement (emit_expr k x) (emit_stmt k x) x p n e"

fun depth :: "node \<Rightarrow> nat" where
  "depth (Node k l c t i j f cs ss b) =
     Suc (foldr (\<lambda>x d. max (case x of None \<Rightarrow> 0 | Some m \<Rightarrow> depth m) d) cs 0)"

definition start_env :: "string list \<Rightarrow> analysis \<Rightarrow> env" where
  "start_env errs a =
     \<lparr>e_mod = empty_module, e_scopes = [empty_scope\<lparr>sc_captured := an_module a\<rparr>], e_errors = errs, e_line = 0,
      e_debug = [], e_class = [], e_ivars = [], e_cvars = [], e_classSide = False, e_loops = [], e_fail = None\<rparr>"

definition module_step :: "nat \<Rightarrow> ctx \<Rightarrow> node \<Rightarrow> env \<Rightarrow> nat \<Rightarrow> env" where
  "module_step k x md e i =
     (let e1 = emit_kid (emit_stmt k x) [] md i e
      in if i + 1 \<noteq> length (n_children md) then put POP 0 e1 else e1)"

definition emit_module :: "nat \<Rightarrow> ctx \<Rightarrow> node \<Rightarrow> env \<Rightarrow> env" where
  "emit_module k x md e =
     (let e1 = (if n_children md = [] then put PUSH_NIL 0 e
                else foldl (module_step k x md) e [0..<length (n_children md)])
      in name_module ''<module>'' (put RETURN_TOP 0 e1))"

text \<open>
  \<open>registry\<close> is the record of the classes compiled before in the process and
  \<open>known\<close> those of the session; the answer is the final state of the generator,
  with the module and the errors, and the registry after.
\<close>

definition compileModule :: "bool \<Rightarrow> bool \<Rightarrow> class_map \<Rightarrow> class_map \<Rightarrow> node \<Rightarrow> env \<times> class_map" where
  "compileModule repl groups registry known md =
     (let (classes, errs, registry') = collectClasses registry known md;
          a = analyseClosures classes repl md;
          x = \<lparr>x_analysis = a, x_classes = classes, x_repl = repl, x_groups = groups\<rparr>
      in (emit_module (3 * depth md) x md (start_env errs a), registry'))"

end
