(* ===== verification/CodeGenJumps.thy ===== *)
theory CodeGenJumps
  imports BytecodeJumps CodeGen "HOL-Library.Code_Target_Nat"
begin

text \<open>
  Every jump of compiled code lands on an instruction.  Emission only appends:
  whatever a step emits is a closed run behind the code that was there, and the
  modules of the blocks it adds are closed too.  The locale states this
  contract for the two mutually recursive emitters and proves it for each case;
  the interpretation ties it for every fuel.
\<close>

fun jumps_land :: "bmodule \<Rightarrow> bool" where
  "jumps_land (BModule c bs) =
     ((length (m_bytes c) < 2 ^ 25 \<longrightarrow> closed (m_bytes c)) \<and> list_all jumps_land bs)"

definition grows :: "env \<Rightarrow> env \<Rightarrow> bool" where
  "grows e e' \<longleftrightarrow> (e_fail e' = None \<longrightarrow>
     e_fail e = None \<and>
     length (m_bytes (code_of e)) \<le> length (m_bytes (code_of e')) \<and>
     (length (m_bytes (code_of e')) < 2 ^ 25 \<longrightarrow>
        (\<exists>seg. m_bytes (code_of e') = m_bytes (code_of e) @ seg \<and> complete seg \<and> closed seg)) \<and>
     (\<exists>bs. m_blocks (e_mod e') = m_blocks (e_mod e) @ bs \<and> list_all jumps_land bs))"

named_theorems grow "what emission appends is closed"

lemma grows_refl [grow]: "grows e e"
  by (auto simp: grows_def)

lemma grows_same:
  assumes "grows e X" "e_mod Y = e_mod X" "e_fail Y = e_fail X"
  shows "grows e Y"
  using assms by (simp add: grows_def)

lemma grows_trans:
  assumes "grows a b" "grows b c"
  shows "grows a c"
  unfolding grows_def
proof
  assume "e_fail c = None"
  with assms(2) obtain bs2 where f2: "e_fail b = None" and
    l2: "length (m_bytes (code_of b)) \<le> length (m_bytes (code_of c))" and
    s2: "length (m_bytes (code_of c)) < 2 ^ 25 \<longrightarrow>
      (\<exists>s2. m_bytes (code_of c) = m_bytes (code_of b) @ s2 \<and> complete s2 \<and> closed s2)" and
    b2: "m_blocks (e_mod c) = m_blocks (e_mod b) @ bs2" "list_all jumps_land bs2"
    unfolding grows_def by blast
  with assms(1) obtain bs1 where f1: "e_fail a = None" and
    l1: "length (m_bytes (code_of a)) \<le> length (m_bytes (code_of b))" and
    s1: "length (m_bytes (code_of b)) < 2 ^ 25 \<longrightarrow>
      (\<exists>s1. m_bytes (code_of b) = m_bytes (code_of a) @ s1 \<and> complete s1 \<and> closed s1)" and
    b1: "m_blocks (e_mod b) = m_blocks (e_mod a) @ bs1" "list_all jumps_land bs1"
    unfolding grows_def by blast
  have "\<exists>seg. m_bytes (code_of c) = m_bytes (code_of a) @ seg \<and> complete seg \<and> closed seg"
    if small: "length (m_bytes (code_of c)) < 2 ^ 25"
  proof -
    from small s2 obtain s2 where "m_bytes (code_of c) = m_bytes (code_of b) @ s2" "complete s2" "closed s2" by blast
    moreover from small l2 s1 obtain s1 where "m_bytes (code_of b) = m_bytes (code_of a) @ s1" "complete s1" "closed s1"
      by auto
    ultimately show ?thesis
      by (intro exI [of _ "s1 @ s2"]) (simp add: complete_append closed_append_simple)
  qed
  moreover have "m_blocks (e_mod c) = m_blocks (e_mod a) @ (bs1 @ bs2)" "list_all jumps_land (bs1 @ bs2)"
    using b1 b2 by simp_all
  ultimately show "e_fail a = None \<and>
     length (m_bytes (code_of a)) \<le> length (m_bytes (code_of c)) \<and>
     (length (m_bytes (code_of c)) < 2 ^ 25 \<longrightarrow>
        (\<exists>seg. m_bytes (code_of c) = m_bytes (code_of a) @ seg \<and> complete seg \<and> closed seg)) \<and>
     (\<exists>bs. m_blocks (e_mod c) = m_blocks (e_mod a) @ bs \<and> list_all jumps_land bs)"
    using f1 l1 l2 by (metis order_trans)
qed

text \<open>How a step appends one closed run.\<close>

lemma growsI:
  assumes "e_fail e' = None \<Longrightarrow> e_fail e = None"
    and "e_fail e' = None \<Longrightarrow> m_bytes (code_of e') = m_bytes (code_of e) @ seg \<and> complete seg \<and> closed seg"
    and "m_blocks (e_mod e') = m_blocks (e_mod e)"
  shows "grows e e'"
  using assms unfolding grows_def by (intro impI conjI exI [of _ seg] exI [of _ "[] :: bmodule list"]) auto

section \<open>Steps that write no jump\<close>

definition plain :: "op \<Rightarrow> bool" where
  "plain o' \<longleftrightarrow> o' \<noteq> EXTEND \<and> \<not> is_jump o' \<and> o' \<noteq> JUMP_BACK"

lemma fail_with_sel [simp]: "e_fail (fail_with f e) \<noteq> None" "e_mod (fail_with f e) = e_mod e"
  by (simp_all add: fail_with_def split: option.split)

lemma on_code_sel [simp]:
  "e_fail (on_code f e) = e_fail e" "e_mod (on_code f e) = on_core f (e_mod e)"
  "e_scopes (on_code f e) = e_scopes e"
  by (simp_all add: on_code_def)

lemma grows_fail [grow]: "grows e (fail_with f X)"
  by (simp add: grows_def)

lemma grows_put [grow]:
  assumes "grows e X" "plain o'"
  shows "grows e (put o' a X)"
proof (rule grows_trans [OF assms(1)], rule growsI [where seg = "[op_byte o', a]"])
  let ?arg = "unat a"
  have lt: "?arg < 256 ^ Suc 0" using unsigned_less [of a] by simp
  then have "arg_byte ?arg 0 = a" by (simp add: arg_byte_def)
  then have w: "[op_byte o', a] = wide_bytes o' 0 ?arg" by simp
  from lt
  have "closed [op_byte o', a]" "complete [op_byte o', a]"
    using closed_wide [of o' ?arg 0] wide_bytes_complete [of o' 0 ?arg] assms(2) unfolding w
    by (simp_all add: plain_def)
  then show "m_bytes (code_of (put o' a X)) = m_bytes (code_of X) @ [op_byte o', a] \<and>
      complete [op_byte o', a] \<and> closed [op_byte o', a]"
    by (simp add: put_def emit_def del: complete.simps)
qed (simp_all add: put_def)

lemma grows_put_wide [grow]:
  assumes "grows e X" "plain o'"
  shows "grows e (put_wide o' a X)"
proof (rule grows_trans [OF assms(1)])
  let ?a = "a mod 2 ^ 32"
  show "grows X (put_wide o' a X)"
  proof (cases "emitWide o' ?a (e_line X) (code_of X)")
    case None
    then show ?thesis by (simp add: put_wide_def try_code_def grow)
  next
    case (Some c)
    note b = emitWide_bytes [OF Some]
    have "closed (wide_bytes o' (extendPrefixesFor ?a) ?a)"
      using closed_wide [of o' ?a "extendPrefixesFor ?a"] prefixes_fit [OF b(2)] assms(2) by (simp add: plain_def)
    moreover have "complete (wide_bytes o' (extendPrefixesFor ?a) ?a)"
      using assms(2) by (simp add: plain_def wide_bytes_complete)
    ultimately show ?thesis using Some b(1) by (intro growsI) (simp_all add: put_wide_def try_code_def)
  qed
qed

lemma keeps_bytes [simp]:
  "m_bytes (snd (add_const k c)) = m_bytes c" "m_bytes (snd (internSymbol s c)) = m_bytes c"
  "m_bytes (snd (addInteger i c)) = m_bytes c" "m_bytes (snd (addLargeInteger d i c)) = m_bytes c"
  "m_bytes (snd (addFloat f c)) = m_bytes c" "m_bytes (snd (addString s c)) = m_bytes c"
  "m_bytes (snd (addChar s c)) = m_bytes c" "m_bytes (snd (addUnsetMarker c)) = m_bytes c"
  "m_bytes (snd (addInstVarGroupEntry p q r c)) = m_bytes c"
  by (simp_all add: add_const_def internSymbol_def addInteger_def addLargeInteger_def addFloat_def addString_def
      addChar_def addUnsetMarker_def addInstVarGroupEntry_def split: option.split)

lemma add_code_sel [simp]:
  "e_fail (snd (add_code f e)) = e_fail e" "m_blocks (e_mod (snd (add_code f e))) = m_blocks (e_mod e)"
  "code_of (snd (add_code f e)) = snd (f (code_of e))" "e_scopes (snd (add_code f e)) = e_scopes e"
  by (simp_all add: add_code_def split_beta)

lemma grows_add [grow]: "grows e X \<Longrightarrow> (\<And>c. m_bytes (snd (f c)) = m_bytes c) \<Longrightarrow> grows e (snd (add_code f X))"
  by (simp add: grows_def)

lemma grows_on_code [grow]: "grows e X \<Longrightarrow> (\<And>c. m_bytes (f c) = m_bytes c) \<Longrightarrow> grows e (on_code f X)"
  by (simp add: grows_def)

lemma grows_if [grow]: "(b \<Longrightarrow> grows e X) \<Longrightarrow> (\<not> b \<Longrightarrow> grows e Y) \<Longrightarrow> grows e (if b then X else Y)"
  by simp

lemma grows_option [grow]:
  "(x = None \<Longrightarrow> grows e X) \<Longrightarrow> (\<And>y. x = Some y \<Longrightarrow> grows e (F y)) \<Longrightarrow> grows e (case x of None \<Rightarrow> X | Some y \<Rightarrow> F y)"
  by (cases x) auto

lemma grows_foldl [grow]:
  assumes "grows e X" "\<And>a y. grows a (f a y)"
  shows "grows e (foldl f X ys)"
  using assms(1)
proof (induction ys arbitrary: X)
  case (Cons y ys)
  then show ?case using grows_trans [OF Cons.prems assms(2)] by simp
qed simp

lemma grows_put_symbol [grow]: "grows e X \<Longrightarrow> plain o' \<Longrightarrow> grows e (put_symbol o' s X)"
  unfolding put_symbol_def Let_def split_beta by (intro grow) simp_all

lemma grows_put_const [grow]:
  "grows e X \<Longrightarrow> (\<And>c. m_bytes (snd (f c)) = m_bytes c) \<Longrightarrow> grows e (put_const f X)"
  unfolding put_const_def Let_def split_beta by (intro grow) (simp_all add: plain_def is_jump_def)

text \<open>Steps that leave the code alone.\<close>

lemma unchanged_sel [simp]:
  "e_mod (comp_error m e) = e_mod e" "e_fail (comp_error m e) = e_fail e"
  "e_mod (at_line n e) = e_mod e" "e_fail (at_line n e) = e_fail e"
  "e_mod (snd (declareLocal s e)) = e_mod e" "e_fail (snd (declareLocal s e)) = e_fail e"
  "e_mod (on_scope h e) = e_mod e" "e_fail (on_scope h e) = e_fail e"
  "e_mod (reportDuplicateNames ns k w e) = e_mod e" "e_fail (reportDuplicateNames ns k w e) = e_fail e"
  "e_mod (push_scope nk cap e) = e_mod e" "e_fail (push_scope nk cap e) = e_fail e"
  "e_mod (pop_scope e) = e_mod e" "e_fail (pop_scope e) = e_fail e"
  "e_mod (clear_method e) = e_mod e" "e_fail (clear_method e) = e_fail e"
  "e_mod (report_clashes n e) = e_mod e" "e_fail (report_clashes n e) = e_fail e"
  "e_mod (bind_loop_var s k e) = e_mod e" "e_fail (bind_loop_var s k e) = e_fail e"
  "e_mod (unbind_loop_var s sc e) = e_mod e" "e_fail (unbind_loop_var s sc e) = e_fail e"
  by (simp_all add: comp_error_def at_line_def declareLocal_def on_scope_def reportDuplicateNames_def push_scope_def
      pop_scope_def clear_method_def report_clashes_def bind_loop_var_def unbind_loop_var_def Let_def split_beta
      split: list.split)

lemma declare_sel [simp]:
  "e_mod (declare_all ns e) = e_mod e" "e_fail (declare_all ns e) = e_fail e"
  "e_mod (declare_args ns e) = e_mod e" "e_fail (declare_args ns e) = e_fail e"
proof -
  have "e_mod (foldl (\<lambda>e x. snd (declareLocal x e)) e ns) = e_mod e \<and>
      e_fail (foldl (\<lambda>e x. snd (declareLocal x e)) e ns) = e_fail e"
    by (induction ns arbitrary: e) simp_all
  then show "e_mod (declare_all ns e) = e_mod e" "e_fail (declare_all ns e) = e_fail e"
    by (simp_all add: declare_all_def)
  then show "e_mod (declare_args ns e) = e_mod e" "e_fail (declare_args ns e) = e_fail e"
    by (simp_all add: declare_args_def)
qed

lemma report_sel [simp]:
  "e_mod (snd (reportArgumentAssignment s e)) = e_mod e" "e_fail (snd (reportArgumentAssignment s e)) = e_fail e"
  "e_mod (snd (reportUndeclaredInMethod s e)) = e_mod e" "e_fail (snd (reportUndeclaredInMethod s e)) = e_fail e"
  by (simp_all add: reportArgumentAssignment_def reportUndeclaredInMethod_def)

lemma grows_unchanged [grow]:
  "grows e X \<Longrightarrow> grows e (comp_error m X)" "grows e X \<Longrightarrow> grows e (at_line n X)"
  "grows e X \<Longrightarrow> grows e (snd (declareLocal s X))" "grows e X \<Longrightarrow> grows e (on_scope f X)"
  "grows e X \<Longrightarrow> grows e (snd (reportArgumentAssignment s X))"
  "grows e X \<Longrightarrow> grows e (snd (reportUndeclaredInMethod s X))"
  "grows e X \<Longrightarrow> grows e (bind_loop_var s k X)" "grows e X \<Longrightarrow> grows e (unbind_loop_var s sc X)"
  "grows e X \<Longrightarrow> grows e (X\<lparr>e_line := l\<rparr>)" "grows e X \<Longrightarrow> grows e (check b X)"
  "grows e X \<Longrightarrow> grows e (clear_method X)" "grows e X \<Longrightarrow> grows e (recordLocalNames X)"
  "grows e X \<Longrightarrow> grows e (report_clashes n X)" "grows e X \<Longrightarrow> grows e (reportDuplicateNames ns j w X)"
  "grows e X \<Longrightarrow> grows e (declare_all ns X)" "grows e X \<Longrightarrow> grows e (declare_args ns X)"
  by (erule grows_same; simp_all; fail | simp add: check_def grow | simp add: recordLocalNames_def grow split: list.split)+

section \<open>Conditionals and loops\<close>

lemma growsD:
  assumes "grows e e'" "e_fail e' = None"
  shows "e_fail e = None" "length (m_bytes (code_of e)) \<le> length (m_bytes (code_of e'))"
    "length (m_bytes (code_of e')) < 2 ^ 25 \<Longrightarrow>
      \<exists>seg. m_bytes (code_of e') = m_bytes (code_of e) @ seg \<and> complete seg \<and> closed seg"
    "\<exists>bs. m_blocks (e_mod e') = m_blocks (e_mod e) @ bs \<and> list_all jumps_land bs"
  using assms unfolding grows_def by simp_all

lemma put_sel [simp]:
  "e_fail (put o' a e) = e_fail e" "m_bytes (code_of (put o' a e)) = m_bytes (code_of e) @ [op_byte o', a]"
  "m_blocks (e_mod (put o' a e)) = m_blocks (e_mod e)"
  by (simp_all add: put_def emit_def)

lemma forward_jump_sel [simp]:
  "fst (emitForwardJump o' e) = length (m_bytes (code_of e))" "snd (emitForwardJump o' e) = put o' 0 e"
  by (simp_all add: emitForwardJump_def pos_def)

lemma try_code_ok:
  assumes "e_fail (try_code f g e) = None"
  shows "e_fail e = None" "\<exists>c. g (code_of e) = Some c \<and> code_of (try_code f g e) = c \<and>
    m_blocks (e_mod (try_code f g e)) = m_blocks (e_mod e)"
  using assms by (auto simp: try_code_def split: option.splits)

lemma resolve_sel:
  assumes "e_fail (resolveForwardJumps js e) = None"
  shows "e_fail e = None" "\<exists>c. resolve_sorted (rev (sort_key fst js)) (code_of e) = Some c \<and>
     code_of (resolveForwardJumps js e) = c \<and> m_blocks (e_mod (resolveForwardJumps js e)) = m_blocks (e_mod e)"
  using try_code_ok [OF assms [unfolded resolveForwardJumps_def]] by (simp_all add: resolveForwardJumps_def)

text \<open>A conditional without an else part, as the default of a named parameter is.\<close>

lemma grows_skip:
  assumes "is_jump o'" "grows e e1" "grows (put o' 0 e1) e2"
  shows "grows e (resolveForwardJumps [(length (m_bytes (code_of e1)), length (m_bytes (code_of e2)))] e2)"
    (is "grows e ?r")
proof (rule grows_trans [OF assms(2)], unfold grows_def, intro impI conjI)
  assume ok: "e_fail ?r = None"
  from resolve_sel [OF ok] obtain c where f: "e_fail e2 = None" and
    c: "resolve_sorted [(length (m_bytes (code_of e1)), length (m_bytes (code_of e2)))] (code_of e2) = Some c"
      "code_of ?r = c" "m_blocks (e_mod ?r) = m_blocks (e_mod e2)" by auto
  note g = growsD [OF assms(3) f, unfolded put_sel]
  note len = resolve_length [OF c(1)]
  show "e_fail e1 = None" using g(1) .
  show "length (m_bytes (code_of e1)) \<le> length (m_bytes (code_of ?r))" using g(2) len c(2) by simp
  show "\<exists>bs. m_blocks (e_mod ?r) = m_blocks (e_mod e1) @ bs \<and> list_all jumps_land bs" using g(4) c(3) by simp
  assume small: "length (m_bytes (code_of ?r)) < 2 ^ 25"
  with len c(2) have "length (m_bytes (code_of e2)) < 2 ^ 25" by simp
  from g(3) [OF this] obtain b where b: "m_bytes (code_of e2) = m_bytes (code_of e1) @ op_byte o' # 0 # b"
    "complete b" "closed b" by auto
  have "(length (m_bytes (code_of e2)) - (length (m_bytes (code_of e1)) + 2)) div 2 mod 2 ^ 32 = length b div 2"
    using b(1) small len c(2) by simp
  with resolve_one [OF c(1) b(1)] obtain arg where arg: "arg = length b div 2"
    "m_bytes c = m_bytes (code_of e1) @ wide_bytes o' (extendPrefixesFor arg) arg @ b" by auto
  then have "arg < 2 ^ 24" using small c(2) by simp
  then have "closed (wide_bytes o' (extendPrefixesFor arg) arg @ b @ [])"
    using assms(1) b arg(1) prefixes_fit by (intro closed_skip) simp_all
  moreover have "complete (wide_bytes o' (extendPrefixesFor arg) arg @ b)"
    using assms(1) b(2) by (intro complete_append wide_bytes_complete) (auto simp: is_jump_def)
  ultimately show "\<exists>seg. m_bytes (code_of ?r) = m_bytes (code_of e1) @ seg \<and> complete seg \<and> closed seg"
    using arg(2) c(2) by auto
qed

text \<open>The two branches of a conditional.\<close>

lemma grows_branch:
  assumes "is_jump o'" "grows e e1" "grows (put o' 0 e1) e2" "grows (put JUMP 0 e2) e3"
  shows "grows e (resolveForwardJumps
    [(length (m_bytes (code_of e1)), length (m_bytes (code_of e2)) + 2), (length (m_bytes (code_of e2)), length (m_bytes (code_of e3)))] e3)"
    (is "grows e ?r")
proof (rule grows_trans [OF assms(2)], unfold grows_def, intro impI conjI)
  assume ok: "e_fail ?r = None"
  let ?l1 = "length (m_bytes (code_of e1))" and ?l2 = "length (m_bytes (code_of e2))"
  note f3 = resolve_sel(1) [OF ok]
  note g3 = growsD [OF assms(4) f3, unfolded put_sel]
  note g2 = growsD [OF assms(3) g3(1), unfolded put_sel]
  have le: "?l1 < ?l2" using g2(2) by simp
  from resolve_sel(2) [OF ok] le obtain c where
    c: "resolve_sorted [(?l2, length (m_bytes (code_of e3))), (?l1, ?l2 + 2)] (code_of e3) = Some c"
      "code_of ?r = c" "m_blocks (e_mod ?r) = m_blocks (e_mod e3)" by auto
  note len = resolve_length [OF c(1)]
  show "e_fail e1 = None" using g2(1) .
  show "?l1 \<le> length (m_bytes (code_of ?r))" using g2(2) g3(2) len c(2) by simp
  show "\<exists>bs. m_blocks (e_mod ?r) = m_blocks (e_mod e1) @ bs \<and> list_all jumps_land bs" using g2(4) g3(4) c(3) by auto
  assume small: "length (m_bytes (code_of ?r)) < 2 ^ 25"
  with len c(2) have s3: "length (m_bytes (code_of e3)) < 2 ^ 25" by simp
  with g3(2) have s2: "?l2 < 2 ^ 25" by simp
  from g2(3) [OF s2] obtain b where b: "m_bytes (code_of e2) = m_bytes (code_of e1) @ op_byte o' # 0 # b"
    "complete b" "closed b" by auto
  from g3(3) [OF s3] obtain r where r: "m_bytes (code_of e3) = m_bytes (code_of e2) @ op_byte JUMP # 0 # r"
    "complete r" "closed r" by auto
  have r1: "resolve_sorted [(?l1 + 2 + length b, ?l1 + 4 + length b + length r), (?l1, ?l1 + 4 + length b)] (code_of e3) = Some c"
  proof -
    have "?l2 = ?l1 + 2 + length b" "?l2 + 2 = ?l1 + 4 + length b"
      "length (m_bytes (code_of e3)) = ?l1 + 4 + length b + length r" using b(1) r(1) by simp_all
    then show ?thesis using c(1) by (simp only:)
  qed
  have r2: "m_bytes (code_of e3) = m_bytes (code_of e1) @ op_byte o' # 0 # b @ op_byte JUMP # 0 # r" using b(1) r(1) by simp
  have r3: "length b + length r + 16 < 2 ^ 32" using s3 r(1) b(1) by simp
  from resolve_two [OF r1 r2 r3] obtain k1 k2 a1 a2 where k: "k1 = extendPrefixesFor a1" "k2 = extendPrefixesFor a2" "a2 = length r div 2"
      "a1 = (length b + 2 + 2 * k2) div 2"
      "m_bytes c = m_bytes (code_of e1) @ wide_bytes o' k1 a1 @ b @ wide_bytes JUMP k2 a2 @ r"
    by blast
  have a1: "a1 = length b div 2 + Suc k2" using k(4) complete_even [OF b(2)] by (auto elim!: evenE)
  have "a1 < 2 ^ 24" "a2 < 2 ^ 24" using k(3,5) a1 small c(2) by simp_all
  then have cl: "closed (wide_bytes o' k1 a1 @ b @ wide_bytes JUMP k2 a2 @ r)"
    using assms(1) b r k(1,2,3) a1 prefixes_fit by (intro closed_branch) simp_all
  have "complete (wide_bytes o' k1 a1 @ b @ wide_bytes JUMP k2 a2 @ r)"
    using assms(1) b(2) r(2) by (intro complete_append wide_bytes_complete) (auto simp: is_jump_def)
  with cl k(5) c(2) show "\<exists>seg. m_bytes (code_of ?r) = m_bytes (code_of e1) @ seg \<and> complete seg \<and> closed seg" by blast
qed

text \<open>A loop: the test from \<open>e1\<close> to \<open>e2\<close>, the exit jump, the body up to \<open>e3\<close>.\<close>

lemma grows_loop:
  assumes "is_jump o'" "grows e e1" "grows e1 e2" "grows (put o' 0 e2) e3"
  shows "grows e (closeLoop (length (m_bytes (code_of e1))) (length (m_bytes (code_of e2))) e3)" (is "grows e ?r")
proof (rule grows_trans [OF assms(2)], unfold grows_def, intro impI conjI)
  assume ok: "e_fail ?r = None"
  let ?l1 = "length (m_bytes (code_of e1))" and ?l2 = "length (m_bytes (code_of e2))"
  from try_code_ok [OF ok [unfolded closeLoop_def]] obtain c where f3: "e_fail e3 = None" and
    c: "close_loop_code ?l1 ?l2 (e_line e3) (code_of e3) = Some c"
      "code_of ?r = c" "m_blocks (e_mod ?r) = m_blocks (e_mod e3)" by (auto simp: closeLoop_def)
  note g3 = growsD [OF assms(4) f3, unfolded put_sel]
  note g2 = growsD [OF assms(3) g3(1)]
  note len = close_loop_length [OF c(1)]
  show "e_fail e1 = None" using g2(1) .
  show "?l1 \<le> length (m_bytes (code_of ?r))" using g2(2) g3(2) len c(2) by simp
  show "\<exists>bs. m_blocks (e_mod ?r) = m_blocks (e_mod e1) @ bs \<and> list_all jumps_land bs" using g2(4) g3(4) c(3) by auto
  assume small: "length (m_bytes (code_of ?r)) < 2 ^ 25"
  with len c(2) have s3: "length (m_bytes (code_of e3)) < 2 ^ 25" by simp
  with g3(2) have s2: "?l2 < 2 ^ 25" by simp
  from g2(3) [OF s2] obtain t where t: "m_bytes (code_of e2) = m_bytes (code_of e1) @ t" "complete t" "closed t" by auto
  from g3(3) [OF s3] obtain b where b: "m_bytes (code_of e3) = m_bytes (code_of e2) @ op_byte o' # 0 # b"
    "complete b" "closed b" by auto
  have r1: "m_bytes (code_of e3) = m_bytes (code_of e1) @ t @ op_byte o' # 0 # b" using t(1) b(1) by simp
  have r2: "length t + length b + 32 < 2 ^ 32" using s3 t(1) b(1) by simp
  have r3: "close_loop_code ?l1 (?l1 + length t) (e_line e3) (code_of e3) = Some c" using c(1) t(1) by simp
  from close_loop_bytes [OF r3 r1 r2 complete_even [OF t(2)] complete_even [OF b(2)]] obtain k1 k2 a1 a2 where k: "k1 \<le> 2" "k2 = extendPrefixesFor a2" "extendPrefixesFor a1 \<le> k1"
      "a1 = length b div 2 + Suc k2" "a2 = length t div 2 + Suc k1 + length b div 2 + Suc k2"
      "m_bytes c = m_bytes (code_of e1) @ t @ wide_bytes o' k1 a1 @ b @ wide_bytes JUMP_BACK k2 a2"
    by blast
  have "length (m_bytes c) = ?l1 + length t + 2 * Suc k1 + length b + 2 * Suc k2" unfolding k(6) by simp
  then have small': "length t div 2 + Suc k1 + length b div 2 + Suc k2 < 2 ^ 24" using small c(2) by simp
  then have small': "a2 < 2 ^ 24" "a1 < 2 ^ 24" unfolding k(5) k(4) by simp_all
  have cl: "closed (t @ wide_bytes o' k1 a1 @ b @ wide_bytes JUMP_BACK k2 a2)"
    using assms(1) prefixes_room [OF small'(2) k(3)] prefixes_fit [OF small'(1), folded k(2)] k(1) t b
    by (intro closed_loop [OF _ _ _ _ _ _ _ _ _ k(4,5)]) simp_all
  have "complete (t @ wide_bytes o' k1 a1 @ b @ wide_bytes JUMP_BACK k2 a2)"
    using assms(1) b(2) t(2) by (intro complete_append wide_bytes_complete) (auto simp: is_jump_def)
  with cl k(6) c(2) show "\<exists>seg. m_bytes (code_of ?r) = m_bytes (code_of e1) @ seg \<and> complete seg \<and> closed seg" by blast
qed

section \<open>Sub-modules\<close>

lemma jumps_land_iff:
  "jumps_land m \<longleftrightarrow>
     (length (m_bytes (m_core m)) < 2 ^ 25 \<longrightarrow> closed (m_bytes (m_core m))) \<and> list_all jumps_land (m_blocks m)"
  by (cases m) simp

lemma grows_sub:
  assumes "grows s x" "e_mod s = empty_module" "e_fail s = None \<Longrightarrow> e_fail e = None"
    and "e_mod y = snd (addBlockModule (e_mod x) (e_mod e))" "e_fail y = e_fail x"
  shows "grows e y"
  unfolding grows_def
proof
  assume "e_fail y = None"
  with assms(5) have ok: "e_fail x = None" by simp
  note g = growsD [OF assms(1) ok, unfolded assms(2)]
  have "closed (m_bytes (code_of x))" if "length (m_bytes (code_of x)) < 2 ^ 25"
    using g(3) [OF that] by (auto simp: empty_module_def empty_core_def)
  moreover have "list_all jumps_land (m_blocks (e_mod x))" using g(4) by (simp add: empty_module_def)
  ultimately have "jumps_land (on_core (\<lambda>c. c\<lparr>m_source := m_source (m_core (e_mod e))\<rparr>) (e_mod x))"
    by (simp add: jumps_land_iff [of "on_core f m" for f m])
  then show "e_fail e = None \<and> length (m_bytes (code_of e)) \<le> length (m_bytes (code_of y)) \<and>
     (length (m_bytes (code_of y)) < 2 ^ 25 \<longrightarrow>
        (\<exists>seg. m_bytes (code_of y) = m_bytes (code_of e) @ seg \<and> complete seg \<and> closed seg)) \<and>
     (\<exists>bs. m_blocks (e_mod y) = m_blocks (e_mod e) @ bs \<and> list_all jumps_land bs)"
    using assms(3,4) g(1) by (auto simp: addBlockModule_def)
qed

lemmas op_kinds = plain_def is_jump_def

lemma grows_name [grow]: "grows e X \<Longrightarrow> grows e (name_module s X)"
  unfolding name_module_def by (intro grow) simp_all

lemma grows_define [grow]: "grows e X \<Longrightarrow> grows e (define_captured d X)"
  unfolding define_captured_def Let_def split_beta by (intro grow) (simp_all add: op_kinds)

lemma grows_prolog [grow]: "grows e X \<Longrightarrow> grows e (emitCaptureProlog b ns k j X)"
  unfolding emitCaptureProlog_def Let_def by (intro grow) (simp_all add: op_kinds)

lemma grows_enter [grow]: "grows e X \<Longrightarrow> grows e (enter_class x n X)"
  unfolding enter_class_def Let_def by (auto split: option.split intro!: grow elim: grows_same)

lemma grows_instvar_names [grow]:
  "grows e X \<Longrightarrow> grows e (emitSetInstVarNames n X)" "grows e X \<Longrightarrow> grows e (emit_class_vars n X)"
  "grows e X \<Longrightarrow> grows e (emit_plain_class n s X)"
  unfolding emitSetInstVarNames_def emit_class_vars_def emit_plain_class_def Let_def split_beta
  by (intro grow; simp add: op_kinds)+

section \<open>The emitters\<close>

locale sub_emitters =
  fixes ex :: emit_fun and st :: emit_fun
  assumes ex_grows: "grows e (ex p n e)" and st_grows: "grows e (st p n e)"
begin

lemma grows_ex [grow]: "grows e X \<Longrightarrow> grows e (ex p n X)"
  by (rule grows_trans [OF _ ex_grows])

lemma grows_st [grow]: "grows e X \<Longrightarrow> grows e (st p n X)"
  by (rule grows_trans [OF _ st_grows])

lemma grows_kid [grow]: "grows e X \<Longrightarrow> grows e (emit_kid ex p n i X)"
  unfolding emit_kid_def by (intro grow)

lemma grows_kids [grow]: "grows e X \<Longrightarrow> grows e (emit_kids ex p n is X)"
  unfolding emit_kids_def by (intro grow)

lemma grows_group [grow]: "grows e X \<Longrightarrow> grows e (snd (tryEmitInstVarGroup ex x p cs i end' X))"
proof -
  have "grows a (group_write ex p cs i n a k)" for a n k
    unfolding group_write_def Let_def split_beta by (intro grow) (simp_all add: op_kinds)
  then show "grows e X \<Longrightarrow> grows e (snd (tryEmitInstVarGroup ex x p cs i end' X))"
    unfolding tryEmitInstVarGroup_def Let_def by (auto split: option.split intro!: grow simp del: upt_Suc)
qed

lemma grows_statements [grow]: "grows e X \<Longrightarrow> grows e (emit_statements ex st x p cs i end' X)"
proof (induction "end' - i" arbitrary: i X rule: less_induct)
  case less
  let ?r = "fst (tryEmitInstVarGroup ex x p cs i end' X)"
  let ?j = "if ?r > 0 then i + ?r - 1 else i"
  let ?y = "if ?r > 0 then snd (tryEmitInstVarGroup ex x p cs i end' X)
            else case cs ! i of None \<Rightarrow> fail_with Null_Child X | Some s \<Rightarrow> st (p @ [i]) s X"
  show ?case
  proof (cases "i < end'")
    case True
    have "grows e (if ?j + 1 \<noteq> end' then put POP 0 ?y else ?y)"
      using less.prems by (intro grow) (simp_all add: op_kinds)
    moreover have "end' - (?j + 1) < end' - i" using True by auto
    ultimately show ?thesis using less.hyps True
      by (subst emit_statements.simps) (simp add: Let_def split_beta)
  next
    case False
    with less.prems show ?thesis by (subst emit_statements.simps) simp
  qed
qed

lemma grows_bodies [grow]:
  "grows e X \<Longrightarrow> grows e (emitStatements ex st x p cs i X)"
  "grows e X \<Longrightarrow> grows e (emitInlinedBlockBody ex st x p b X)"
  "grows e X \<Longrightarrow> grows e (method_statements ex st x p cs i X)"
  unfolding emitStatements_def emitInlinedBlockBody_def method_statements_def Let_def
  by (intro grow; simp add: op_kinds)+

lemma grows_body_of [grow]: "grows e X \<Longrightarrow> grows e (body_of ex st x p n i X)"
  unfolding body_of_def by (intro grow)

lemma grows_store [grow]:
  "grows e X \<Longrightarrow> plain o' \<Longrightarrow> grows e (store_symbol ex p n o' X)" "grows e X \<Longrightarrow> grows e (store_slot ex p n k X)"
  unfolding store_symbol_def store_slot_def Let_def split_beta by (intro grow; simp add: op_kinds)+

lemma grows_assign:
  assumes "grows e X" "\<And>Y. grows e Y \<Longrightarrow> grows e (failed Y)"
  shows "grows e (assign_with failed ex x p n X)"
  unfolding assign_with_def Let_def split_beta using assms by (intro grow assms(2)) (simp_all add: op_kinds)

lemma grows_assignments [grow]:
  "grows e X \<Longrightarrow> grows e (emitAssignmentStatement ex x p n X)" "grows e X \<Longrightarrow> grows e (emitAssignmentExpr ex x p n X)"
  by (simp_all add: emitAssignmentStatement_def emitAssignmentExpr_def grows_assign grow op_kinds)

lemma grows_class [grow]: "grows e X \<Longrightarrow> grows e (emitClassDecl ex p n X)"
  unfolding emitClassDecl_def emit_mixin_class_def Let_def split_beta by (intro grow) (simp_all add: op_kinds)

lemma grows_sends [grow]:
  "grows e X \<Longrightarrow> grows e (emitUnarySend ex p n X)" "grows e X \<Longrightarrow> grows e (emitBinarySend ex p n X)"
  "grows e X \<Longrightarrow> grows e (emitCallSend ex p n X)" "grows e X \<Longrightarrow> grows e (emitArray ex p n X)"
  "grows e X \<Longrightarrow> grows e (emitReturn ex p n X)" "grows e X \<Longrightarrow> grows e (cascade_send ex b p n X)"
  unfolding emitUnarySend_def emitBinarySend_def emitCallSend_def emitArray_def emitReturn_def cascade_send_def Let_def
    binary_op_def
  by (intro grow; simp add: op_kinds)+

lemma grows_cascade [grow]: "grows e X \<Longrightarrow> grows e (emitCascade ex p n X)"
proof -
  have "grows a (cascade_step ex p n tmp a i)" for a tmp i
    unfolding cascade_step_def Let_def by (intro grow) (simp_all add: op_kinds)
  then show "grows e X \<Longrightarrow> grows e (emitCascade ex p n X)"
    unfolding emitCascade_def Let_def split_beta by (intro grow)
qed

lemma grows_identifier [grow]: "grows e X \<Longrightarrow> grows e (emitIdentifier x n X)"
  unfolding emitIdentifier_def by (intro grow) (simp_all add: op_kinds)

lemma grows_if_true [grow]: "grows e X \<Longrightarrow> grows e (emitIfTrue ex st x p n X)"
proof -
  assume "grows e X"
  let ?j = "if n_text n = ''ifFalse:'' then JUMP_IF_TRUE else JUMP_IF_FALSE"
  let ?e1 = "put_symbol ASSERT_BOOL_OR_DNU (n_text n) (emit_kid ex p n 0 X)"
  let ?e2 = "body_of ex st x p n 1 (put ?j 0 ?e1)"
  have "grows e ?e1" using \<open>grows e X\<close> by (intro grow) (simp_all add: op_kinds)
  moreover have "grows (put ?j 0 ?e1) ?e2" by (intro grow)
  moreover have "grows (put JUMP 0 ?e2) (put PUSH_NIL 0 (put JUMP 0 ?e2))" by (intro grow) (simp add: op_kinds)
  ultimately show ?thesis
    using grows_branch [of ?j e ?e1 ?e2 "put PUSH_NIL 0 (put JUMP 0 ?e2)"]
    by (simp add: emitIfTrue_def Let_def split_beta is_jump_def pos_def del: op_byte.simps)
qed

lemma grows_if_else [grow]: "grows e X \<Longrightarrow> grows e (emitIfTrueIfFalse ex st x p n X)"
proof -
  assume "grows e X"
  let ?b = "n_text n = ''ifFalse:ifTrue:''"
  let ?e1 = "put_symbol ASSERT_BOOL_OR_DNU (n_text n) (emit_kid ex p n 0 X)"
  let ?e2 = "body_of ex st x p n (if ?b then 2 else 1) (put JUMP_IF_FALSE 0 ?e1)"
  let ?e3 = "body_of ex st x p n (if ?b then 1 else 2) (put JUMP 0 ?e2)"
  have "grows e ?e1" using \<open>grows e X\<close> by (intro grow) (simp_all add: op_kinds)
  moreover have "grows (put JUMP_IF_FALSE 0 ?e1) ?e2" "grows (put JUMP 0 ?e2) ?e3" by (intro grow)+
  ultimately show ?thesis
    using grows_branch [of JUMP_IF_FALSE e ?e1 ?e2 ?e3]
    by (simp add: emitIfTrueIfFalse_def Let_def split_beta is_jump_def pos_def del: op_byte.simps)
qed

lemma grows_while [grow]: "grows e X \<Longrightarrow> grows e (emitWhile ex st x p n X)"
proof -
  assume "grows e X"
  let ?j = "if n_text n = ''whileFalse:'' then JUMP_IF_TRUE else JUMP_IF_FALSE"
  let ?e1 = "snd (add_code (internSymbol (n_text n)) X)"
  let ?e2 = "put_wide ASSERT_BOOL_OR_DNU (fst (add_code (internSymbol (n_text n)) X)) (body_of ex st x p n 0 ?e1)"
  let ?e3 = "put POP 0 (body_of ex st x p n 1 (put ?j 0 ?e2))"
  have "grows e ?e1" using \<open>grows e X\<close> by (intro grow) simp_all
  moreover have "grows ?e1 ?e2" "grows (put ?j 0 ?e2) ?e3" by (intro grow; simp add: op_kinds)+
  ultimately have "grows e (closeLoop (length (m_bytes (code_of ?e1))) (length (m_bytes (code_of ?e2))) ?e3)"
    by (intro grows_loop [where o' = ?j]) (simp_all add: is_jump_def)
  then have "grows e (put PUSH_NIL 0 (closeLoop (length (m_bytes (code_of ?e1))) (length (m_bytes (code_of ?e2))) ?e3))"
    by (intro grow) (simp_all add: op_kinds)
  then show ?thesis
    unfolding emitWhile_def Let_def split_beta pos_def forward_jump_sel .
qed

lemma grows_do_yielding [grow]: "grows e X \<Longrightarrow> grows e (emitDoYieldingLoop ex p n X)"
  unfolding emitDoYieldingLoop_def Let_def split_beta pos_def forward_jump_sel
  by (intro grow grows_loop [where o' = JUMP_IF_FALSE]) (simp_all add: op_kinds)

lemma grows_to_do [grow]: "grows e X \<Longrightarrow> grows e (emitToDo ex st x p n X)"
  unfolding emitToDo_def Let_def split_beta pos_def forward_jump_sel
  by (intro grow grows_loop [where o' = JUMP_IF_FALSE]) (simp_all add: op_kinds addScopedLocal_def)

lemma grows_keyword [grow]: "grows e X \<Longrightarrow> grows e (emitKeywordSend ex st x p n X)"
proof -
  assume g: "grows e X"
  then have "grows e (snd (tryEmitInlinedControl ex st x p n X))"
    by (simp add: tryEmitInlinedControl_def grow)
  with g show ?thesis
    unfolding emitKeywordSend_def Let_def split_beta by (intro grow) (simp_all add: op_kinds)
qed

lemma grows_block [grow]: "grows e X \<Longrightarrow> grows e (emitBlock ex st x p n X)"
proof (rule grows_trans [where b = X])
  let ?s = "push_scope (Some N_Block) (captured_at (x_analysis x) p) (X\<lparr>e_mod := empty_module\<rparr>)"
  let ?e2 = "if e_class X \<noteq> [] then on_code (\<lambda>c. c\<lparr>m_defClass := e_class X\<rparr>) ?s else ?s"
  let ?e3 = "on_code (\<lambda>c. c\<lparr>m_argCount := n_int n\<rparr>) (reportDuplicateNames (n_strings n) 0 ''a block'' ?e2)"
  let ?e4 = "declare_all (drop (nat (n_int n)) (n_strings n)) (declare_args (take (nat (n_int n)) (n_strings n)) ?e3)"
  let ?e5 = "emitCaptureProlog False (n_strings n) (nat (n_int n)) 0 ?e4"
  let ?e6 = "emitStatements ex st x p (n_children n) 0 (if n_children n = [] then put PUSH_NIL 0 ?e5 else ?e5)"
  let ?e8 = "pop_scope (name_module (if e_debug ?e6 = [] then ''<block>'' else ''[] in '' @ e_debug ?e6) (put RETURN_TOP 0 ?e6))"
  have "grows ?s (name_module (if e_debug ?e6 = [] then ''<block>'' else ''[] in '' @ e_debug ?e6) (put RETURN_TOP 0 ?e6))"
    by (intro grow) (simp_all add: op_kinds)
  then have "grows ?s ?e8" by (rule grows_same) simp_all
  then have "grows X (?e8\<lparr>e_mod := snd (addBlockModule (e_mod ?e8) (e_mod X)), e_line := e_line X\<rparr>)"
    by (rule grows_sub) simp_all
  then show "grows X (emitBlock ex st x p n X)"
    unfolding emitBlock_def Let_def split_beta by (rule grows_put_wide) (simp add: op_kinds)
qed

text \<open>A method's module, from its first instruction to the code that installs it.\<close>

lemma open_method_grows: "grows (X\<lparr>e_mod := empty_module\<rparr>) (open_method x p n k X)"
proof -
  let ?s = "push_scope (Some (n_kind n)) (captured_at (x_analysis x) p) (X\<lparr>e_mod := empty_module\<rparr>)"
  have "grows (X\<lparr>e_mod := empty_module\<rparr>) ?s" by (rule grows_same [OF grows_refl]) simp_all
  then show ?thesis unfolding open_method_def Let_def by (intro grow) simp_all
qed

lemma install_grows:
  assumes "grows (Y\<lparr>e_mod := empty_module\<rparr>) X" "e_fail Y = None \<Longrightarrow> e_fail e = None" "outer = e_mod e"
  shows "grows e (install_method outer l n X)"
proof -
  let ?e1 = "pop_scope (on_code (\<lambda>c. c\<lparr>m_defClass := n_text n\<rparr>) X)"
  have "grows (Y\<lparr>e_mod := empty_module\<rparr>) (on_code (\<lambda>c. c\<lparr>m_defClass := n_text n\<rparr>) X)"
    using assms(1) by (intro grow) simp_all
  then have "grows (Y\<lparr>e_mod := empty_module\<rparr>) ?e1" by (rule grows_same) simp_all
  then have "grows e (?e1\<lparr>e_mod := snd (addBlockModule (e_mod ?e1) outer)\<rparr>)"
    by (rule grows_sub) (use assms in simp_all)
  then show ?thesis
    unfolding install_method_def Let_def split_beta by (intro grow) (simp_all add: op_kinds)
qed

lemma enter_class_fail: "e_fail (enter_class x n X) = None \<Longrightarrow> e_fail X = None"
  by (auto simp: enter_class_def Let_def split: option.splits)

lemma grows_method [grow]: "grows e X \<Longrightarrow> grows e (emitMethodDecl ex st x p n X)"
proof (rule grows_trans [where b = X])
  show "grows X (emitMethodDecl ex st x p n X)"
    unfolding emitMethodDecl_def Let_def
    by (rule install_grows [OF _ _ refl, where Y = "report_clashes n (enter_class x n
          (X\<lparr>e_debug := n_text n @ ''>>'' @ (if n_strings n = [] then ''<method>'' else n_strings n ! 0)\<rparr>))"])
      (intro grow open_method_grows, auto dest: enter_class_fail)
qed

lemma default_grows: "grows e (emit_default ex p n k e i)"
  unfolding emit_default_def Let_def split_beta pos_def forward_jump_sel
  by (intro grow grows_skip [where o' = JUMP_IF_FALSE]) (simp_all add: op_kinds)

lemma grows_call_method [grow]: "grows e X \<Longrightarrow> grows e (emitCallMethodDecl ex st x p n X)"
proof (rule grows_trans [where b = X])
  show "grows X (emitCallMethodDecl ex st x p n X)"
    unfolding emitCallMethodDecl_def Let_def
    by (rule install_grows [OF _ _ refl, where Y = "report_clashes n (enter_class x n X)"])
      (intro grow open_method_grows default_grows, auto dest: enter_class_fail simp: setCallFormSignature_def)
qed

lemma statement_grows: "grows e (emitStatement ex st x p n e)"
  unfolding emitStatement_def Let_def by (intro grow)

lemma expr_grows: "grows e (emitExpr ex st x p n e)"
  by (cases "n_kind n") (auto simp: emitExpr_def Let_def op_kinds intro!: grow)

end

lemma emitters_grow: "sub_emitters (emit_expr k x) (emit_stmt k x)"
proof (induction k)
  case 0
  show ?case by unfold_locales (simp_all add: grow)
next
  case (Suc k)
  show ?case by unfold_locales (simp_all add: sub_emitters.expr_grows [OF Suc] sub_emitters.statement_grows [OF Suc])
qed

interpretation gen: sub_emitters "emit_expr k x" "emit_stmt k x" for k x
  by (rule emitters_grow)

lemma module_grows: "grows e (emit_module k x md e)"
proof -
  have "grows a (module_step k x md a i)" for a i
  proof -
    have "grows a (emit_kid (emit_stmt k x) [] md i a)"
      unfolding emit_kid_def by (intro grow gen.grows_st)
    then show ?thesis unfolding module_step_def Let_def by (intro grow) (simp_all add: op_kinds)
  qed
  then show ?thesis unfolding emit_module_def Let_def by (intro grow) (simp_all add: op_kinds)
qed

text \<open>
  Every jump of compiled code lands on an instruction: whenever the compiler
  answers a module, in it and in every module of a block or method inside it,
  however deep, each JUMP, JUMP_IF_TRUE, JUMP_IF_FALSE and JUMP_BACK leads to the
  first word of an instruction of the same module or just past the last one.
  (Code of \<open>2 ^ 24\<close> words and more is left out: a jump's operand has 24 bits.)
\<close>

theorem compiled_jumps_land:
  assumes "compileModule repl groups registry known md = (e, registry')" and "e_fail e = None"
  shows "jumps_land (e_mod e)"
proof -
  obtain x errs a where e: "e = emit_module (3 * depth md) x md (start_env errs a)"
    using assms(1) by (auto simp: compileModule_def Let_def split_beta)
  have g: "grows (start_env errs a) e" unfolding e by (rule module_grows)
  have s: "e_mod (start_env errs a) = empty_module" by (simp add: start_env_def)
  note d = growsD [OF g assms(2), unfolded s]
  have "closed (m_bytes (code_of e))" if "length (m_bytes (code_of e)) < 2 ^ 25"
    using d(3) [OF that] by (auto simp: empty_module_def empty_core_def)
  moreover have "list_all jumps_land (m_blocks (e_mod e))" using d(4) by (simp add: empty_module_def)
  ultimately show ?thesis by (simp add: jumps_land_iff [of "e_mod e"])
qed

text \<open>\<open>false ifTrue: [nil]\<close>.\<close>

definition branch_module :: node where
  "branch_module =
     (let leaf = (\<lambda>k. Some (makeNode k 1 1))
      in set_children [Some (set_text ''ifTrue:'' (set_children
           [leaf N_FalseLit, Some (set_children [leaf N_NilLit] (makeNode N_Block 1 1))]
           (makeNode N_KeywordSend 1 1)))] (makeNode N_Module 1 1))"

lemma compiled_jumps_land_witness: "jumps_land (e_mod (fst (compileModule False True [] [] branch_module)))"
proof -
  have "e_fail (fst (compileModule False True [] [] branch_module)) = None" by code_simp
  then show ?thesis using compiled_jumps_land [OF prod.collapse [symmetric]] by simp
qed

end
