(* ===== verification/CodeGenSafe.thy ===== *)
theory CodeGenSafe
  imports CodeGenJumps AstShape
begin

text \<open>
  On a well-formed tree the code generator never follows a null child, never
  reads past a name list and never runs out of fuel: what can stop it are the
  limits of the operand encoding and a cycle of mixins.
\<close>

definition limit :: "comp_fail \<Rightarrow> bool" where
  "limit f \<longleftrightarrow> f = Operand_Too_Wide \<or> f = Bad_Patch \<or> f = Endless"

definition safe :: "env \<Rightarrow> env \<Rightarrow> bool" where
  "safe e e' \<longleftrightarrow> (\<forall>f. e_fail e' = Some f \<longrightarrow> e_fail e = Some f \<or> limit f)"

named_theorems safe_step "steps that can only fail at a limit"

lemma safe_refl [safe_step]: "safe e e"
  by (simp add: safe_def)

lemma safe_trans: "safe a b \<Longrightarrow> safe b c \<Longrightarrow> safe a c"
  unfolding safe_def by metis

lemma safe_same: "safe e X \<Longrightarrow> e_fail Y = e_fail X \<Longrightarrow> safe e Y"
  by (simp add: safe_def)

lemma safe_limit: "safe e X \<Longrightarrow> limit f \<Longrightarrow> safe e (fail_with f X)"
  by (auto simp: safe_def fail_with_def split: option.splits)

lemma safe_try [safe_step]:
  assumes "safe e X" "limit f"
  shows "safe e (try_code f g X)"
  using assms safe_limit [OF assms] by (auto simp: try_code_def safe_def split: option.splits)

lemma safe_put [safe_step]: "safe e X \<Longrightarrow> safe e (put o' a X)"
  by (erule safe_same) simp

lemma safe_put_wide [safe_step]: "safe e X \<Longrightarrow> safe e (put_wide o' a X)"
  unfolding put_wide_def by (intro safe_step) (simp_all add: limit_def)

lemma safe_jumps [safe_step]:
  "safe e X \<Longrightarrow> safe e (resolveForwardJumps js X)" "safe e X \<Longrightarrow> safe e (closeLoop l m X)"
  unfolding resolveForwardJumps_def closeLoop_def by (intro safe_step; simp add: limit_def)+

lemma safe_code [safe_step]:
  "safe e X \<Longrightarrow> safe e (snd (add_code f X))" "safe e X \<Longrightarrow> safe e (on_code g X)"
  "safe e X \<Longrightarrow> safe e (snd (emitForwardJump o' X))" "safe e X \<Longrightarrow> safe e (X\<lparr>e_mod := m\<rparr>)"
  by (erule safe_same; simp)+

lemma safe_unchanged [safe_step]:
  "safe e X \<Longrightarrow> safe e (comp_error m X)" "safe e X \<Longrightarrow> safe e (at_line n X)"
  "safe e X \<Longrightarrow> safe e (snd (declareLocal s X))" "safe e X \<Longrightarrow> safe e (on_scope h X)"
  "safe e X \<Longrightarrow> safe e (snd (reportArgumentAssignment s X))"
  "safe e X \<Longrightarrow> safe e (snd (reportUndeclaredInMethod s X))"
  "safe e X \<Longrightarrow> safe e (bind_loop_var s k X)" "safe e X \<Longrightarrow> safe e (unbind_loop_var s sc X)"
  "safe e X \<Longrightarrow> safe e (X\<lparr>e_line := l\<rparr>)" "safe e X \<Longrightarrow> safe e (clear_method X)"
  "safe e X \<Longrightarrow> safe e (report_clashes n X)" "safe e X \<Longrightarrow> safe e (reportDuplicateNames ns j w X)"
  "safe e X \<Longrightarrow> safe e (declare_all ns X)" "safe e X \<Longrightarrow> safe e (declare_args ns X)"
  "safe e X \<Longrightarrow> safe e (push_scope nk cap X)" "safe e X \<Longrightarrow> safe e (pop_scope X)"
  "safe e X \<Longrightarrow> safe e (X\<lparr>e_mod := m', e_line := l\<rparr>)" "safe e X \<Longrightarrow> safe e (X\<lparr>e_debug := s\<rparr>)"
  by (erule safe_same; simp)+

lemma safe_check [safe_step]: "safe e X \<Longrightarrow> b \<Longrightarrow> safe e (check b X)"
  by (simp add: check_def)

lemma safe_if [safe_step]: "(b \<Longrightarrow> safe e X) \<Longrightarrow> (\<not> b \<Longrightarrow> safe e Y) \<Longrightarrow> safe e (if b then X else Y)"
  by simp

lemma safe_option:
  "(x = None \<Longrightarrow> safe e X) \<Longrightarrow> (\<And>y. x = Some y \<Longrightarrow> safe e (F y)) \<Longrightarrow> safe e (case x of None \<Rightarrow> X | Some y \<Rightarrow> F y)"
  by (cases x) auto

lemma safe_foldl:
  assumes "safe e X" "\<And>a y. y \<in> set ys \<Longrightarrow> safe a (f a y)"
  shows "safe e (foldl f X ys)"
  using assms
proof (induction ys arbitrary: X)
  case (Cons y ys)
  have "safe e (f X y)" by (rule safe_trans [OF Cons.prems(1)]) (simp add: Cons.prems(2))
  then show ?case using Cons.IH [of "f X y"] Cons.prems(2) by simp
qed simp

lemma safe_symbols [safe_step]: "safe e X \<Longrightarrow> safe e (put_symbol o' s X)" "safe e X \<Longrightarrow> safe e (put_const f X)"
  unfolding put_symbol_def put_const_def Let_def split_beta by (intro safe_step; simp)+

lemma safe_names [safe_step]:
  "safe e X \<Longrightarrow> safe e (recordLocalNames X)" "safe e X \<Longrightarrow> safe e (name_module s X)"
  by (auto simp: recordLocalNames_def name_module_def split: list.split intro!: safe_step)

lemma safe_prolog [safe_step]: "safe e X \<Longrightarrow> safe e (emitCaptureProlog b ns k j X)"
proof -
  have d: "safe a (define_captured d a)" for a d
    unfolding define_captured_def Let_def split_beta by (intro safe_step safe_option)
  show "safe e X \<Longrightarrow> safe e (emitCaptureProlog b ns k j X)"
    unfolding emitCaptureProlog_def Let_def by (intro safe_step safe_foldl d)
qed

lemma safe_enter [safe_step]: "safe e X \<Longrightarrow> safe e (enter_class x n X)"
  unfolding enter_class_def Let_def
  by (intro safe_option safe_limit) (auto simp: safe_def limit_def)

lemma safe_class_parts [safe_step]:
  "safe e X \<Longrightarrow> safe e (emitSetInstVarNames n X)" "safe e X \<Longrightarrow> safe e (emit_class_vars n X)"
  "safe e X \<Longrightarrow> safe e (emit_plain_class n s X)"
  unfolding emitSetInstVarNames_def emit_class_vars_def emit_plain_class_def Let_def split_beta
  by (intro safe_step; simp)+

lemma safe_identifier [safe_step]: "safe e X \<Longrightarrow> safe e (emitIdentifier x n X)"
  unfolding emitIdentifier_def by (intro safe_step safe_option)

section \<open>Children\<close>

lemma foldr_max_ge: "x \<in> set xs \<Longrightarrow> f x \<le> foldr (\<lambda>y d. max (f y) d) xs (0 :: nat)"
  by (induction xs) auto

lemma child_depth: "Some m \<in> set (n_children n) \<Longrightarrow> depth m < depth n"
proof (cases n)
  case (Node k l c t i j f cs ss b)
  assume "Some m \<in> set (n_children n)"
  with Node foldr_max_ge [of "Some m" cs "\<lambda>x. case x of None \<Rightarrow> 0 | Some m \<Rightarrow> depth m"] show ?thesis by simp
qed

lemma kid_in: "kid n i = Some m \<Longrightarrow> Some m \<in> set (n_children n)"
  by (auto simp: kid_def split: if_splits) (metis nth_mem)

lemma kid_depth: "kid n i = Some m \<Longrightarrow> depth m < depth n"
  by (rule child_depth [OF kid_in])

text \<open>The children a well-formed node has are well-formed nodes.\<close>

lemma wf_kid:
  assumes "wf_node n" "n_kind n = N_Cascade \<longrightarrow> i = 0" "i < length (n_children n)"
  shows "\<exists>m. kid n i = Some m \<and> wf_node m \<and> depth m < depth n"
proof -
  have "wf_child (n_children n ! i)"
  proof (cases "n_kind n = N_Cascade")
    case True
    with assms have "wf_child (hd (n_children n))" "i = 0" by (simp_all add: wf_node_iff [of n])
    then show ?thesis using assms(3) by (simp add: hd_conv_nth)
  next
    case False
    with assms have "list_all wf_child (n_children n)" by (simp add: wf_node_iff [of n])
    with assms(3) show ?thesis by (simp add: list_all_length)
  qed
  then obtain m where "n_children n ! i = Some m" "wf_node m" by (cases "n_children n ! i") auto
  with assms(3) kid_depth [of n i m] show ?thesis by (simp add: kid_def)
qed

lemma wf_arity: "wf_node n \<Longrightarrow> arity_ok (n_kind n) (n_text n) (n_int n) (n_int2 n) (length (n_children n)) (n_strings n)"
  by (simp add: wf_node_iff [of n])

section \<open>The emitters\<close>

definition ready :: "nat \<Rightarrow> node option list \<Rightarrow> bool" where
  "ready d cs \<longleftrightarrow> list_all (\<lambda>x. case x of None \<Rightarrow> False | Some m \<Rightarrow> wf_node m \<and> depth m < d) cs"

text \<open>\<open>d\<close> bounds the depth of the nodes the two emitters are good for.\<close>

locale safe_emitters =
  fixes ex :: emit_fun and st :: emit_fun and d :: nat
  assumes ex_safe: "wf_node n \<Longrightarrow> depth n < d \<Longrightarrow> safe e (ex p n e)"
    and st_safe: "wf_node n \<Longrightarrow> depth n < d \<Longrightarrow> safe e (st p n e)"
begin

lemma ready_nth: "ready d cs \<Longrightarrow> i < length cs \<Longrightarrow> \<exists>m. cs ! i = Some m \<and> wf_node m \<and> depth m < d"
  by (cases "cs ! i") (auto simp: ready_def list_all_length)

lemma ready_children: "wf_node n \<Longrightarrow> n_kind n \<noteq> N_Cascade \<Longrightarrow> depth n \<le> d \<Longrightarrow> ready d (n_children n)"
  by (auto simp: ready_def list_all_iff wf_node_iff [of n] dest: child_depth split: option.splits)

lemma kid_safe:
  assumes "wf_node n" "depth n \<le> d" "n_kind n = N_Cascade \<longrightarrow> i = 0" "i < length (n_children n)" "safe e X"
  shows "safe e (emit_kid ex p n i X)"
  using wf_kid [OF assms(1,3,4)] assms(2) safe_trans [OF assms(5) ex_safe] by (auto simp: emit_kid_def)

lemma kids_safe:
  assumes "wf_node n" "depth n \<le> d" "n_kind n \<noteq> N_Cascade" "\<And>i. i \<in> set is \<Longrightarrow> i < length (n_children n)" "safe e X"
  shows "safe e (emit_kids ex p n is X)"
  unfolding emit_kids_def using assms by (intro safe_foldl kid_safe safe_refl) simp_all

lemma group_run_assigns:
  "k < group_run e w room cs \<Longrightarrow> k < length cs \<and> (\<exists>s. cs ! k = Some s \<and> n_kind s = N_Assignment)"
proof (induction e w room cs arbitrary: k rule: group_run.induct)
  case (2 e w room x ss)
  then show ?case by (cases k) (auto simp: isInstVarAssignment_def split: if_splits option.splits)
qed simp

lemma group_write_safe:
  assumes "cs ! (i + k) = Some s" "n_kind s = N_Assignment" "wf_node s" "depth s < d"
  shows "safe e (group_write ex p cs i n e k)"
proof -
  have "length (n_children s) = 1" using wf_arity [OF assms(3)] assms(2) by (simp add: arity_ok_def)
  then show ?thesis
    unfolding group_write_def assms(1) option.case Let_def split_beta
    using assms by (intro safe_step kid_safe) simp_all
qed

lemma group_safe:
  assumes "ready d cs" "i < end'" "end' \<le> length cs" "safe e X"
  shows "safe e (snd (tryEmitInstVarGroup ex x p cs i end' X))"
proof -
  obtain s where s: "cs ! i = Some s" using ready_nth [OF assms(1), of i] assms(2,3) by auto
  let ?r = "take (end' - (i + 1)) (drop (i + 1) cs)"
  let ?n = "Suc (group_run X {n_text s} (kMaxInstVarGroup - 1) ?r)"
  have "safe a (group_write ex p cs i ?n a k)" if assign: "isInstVarAssignment X s" and k: "k \<in> set [0..<?n]" for a k
  proof -
    have "i + k < length cs \<and> (\<exists>t. cs ! (i + k) = Some t \<and> n_kind t = N_Assignment)"
    proof (cases k)
      case 0
      then show ?thesis using assign s assms(2,3) by (simp add: isInstVarAssignment_def)
    next
      case (Suc m)
      with k group_run_assigns [of m X "{n_text s}" "kMaxInstVarGroup - 1" ?r] assms(2,3) show ?thesis by auto
    qed
    then obtain t where t: "i + k < length cs" "cs ! (i + k) = Some t" "n_kind t = N_Assignment" by blast
    with ready_nth [OF assms(1) t(1)] show ?thesis by (auto intro: group_write_safe)
  qed
  then show ?thesis
    unfolding tryEmitInstVarGroup_def s option.case Let_def
    using assms(4) by (auto intro!: safe_foldl simp del: upt_Suc)
qed

lemma statements_safe:
  assumes "ready d cs" "end' \<le> length cs"
  shows "safe e X \<Longrightarrow> safe e (emit_statements ex st x p cs i end' X)"
proof (induction "end' - i" arbitrary: i X rule: less_induct)
  case less
  let ?r = "fst (tryEmitInstVarGroup ex x p cs i end' X)"
  let ?j = "if ?r > 0 then i + ?r - 1 else i"
  let ?y = "if ?r > 0 then snd (tryEmitInstVarGroup ex x p cs i end' X)
            else case cs ! i of None \<Rightarrow> fail_with Null_Child X | Some s \<Rightarrow> st (p @ [i]) s X"
  show ?case
  proof (cases "i < end'")
    case True
    obtain m where m: "cs ! i = Some m" "wf_node m" "depth m < d" using ready_nth [OF assms(1), of i] True assms(2) by auto
    have "safe e ?y"
      using group_safe [OF assms(1) True assms(2) less.prems] safe_trans [OF less.prems st_safe [OF m(2,3)]] m(1) by simp
    then have "safe e (if ?j + 1 \<noteq> end' then put POP 0 ?y else ?y)" by (simp only: safe_put split: if_split) simp
    moreover have "end' - (?j + 1) < end' - i" using True by auto
    ultimately show ?thesis using less.hyps True
      by (subst emit_statements.simps) (simp add: Let_def split_beta)
  next
    case False
    with less.prems show ?thesis by (subst emit_statements.simps) simp
  qed
qed

lemma bodies_safe [safe_step]:
  "ready d cs \<Longrightarrow> safe e X \<Longrightarrow> safe e (emitStatements ex st x p cs i X)"
  "ready d cs \<Longrightarrow> safe e X \<Longrightarrow> safe e (method_statements ex st x p cs i X)"
  "ready d (n_children b) \<Longrightarrow> safe e X \<Longrightarrow> safe e (emitInlinedBlockBody ex st x p b X)"
  by (auto simp: emitStatements_def method_statements_def emitInlinedBlockBody_def Let_def
      intro!: safe_step statements_safe)

lemma body_of_safe:
  assumes "wf_node n" "depth n \<le> d" "n_kind n \<noteq> N_Cascade" "i < length (n_children n)"
    "isInlineableBlock (kid n i) \<or> isLoopBlock (kid n i)" "safe e X"
  shows "safe e (body_of ex st x p n i X)"
proof -
  obtain m where m: "kid n i = Some m" "wf_node m" "depth m < depth n" using wf_kid [OF assms(1)] assms(3,4) by blast
  have "n_kind m = N_Block" using assms(5) m(1) by (auto simp: isInlineableBlock_def isLoopBlock_def)
  then show ?thesis unfolding body_of_def m(1) option.case
    using assms(2,6) m ready_children [of m] by (intro safe_step) simp_all
qed

lemma stores_safe:
  assumes "wf_node n" "depth n \<le> d" "n_kind n = N_Assignment" "safe e X"
  shows "safe e (store_symbol ex p n o' X)" "safe e (store_slot ex p n k X)"
proof -
  have "length (n_children n) = 1" using wf_arity [OF assms(1)] assms(3) by (simp add: arity_ok_def)
  then show "safe e (store_symbol ex p n o' X)" "safe e (store_slot ex p n k X)"
    unfolding store_symbol_def store_slot_def Let_def split_beta using assms
    by (intro safe_step kid_safe; simp)+
qed

lemma assign_safe:
  assumes "wf_node n" "depth n \<le> d" "n_kind n = N_Assignment" "safe e X" "\<And>Y. safe e Y \<Longrightarrow> safe e (failed Y)"
  shows "safe e (assign_with failed ex x p n X)"
  unfolding assign_with_def Let_def split_beta
  by (intro safe_if safe_option stores_safe [OF assms(1,2,3)] assms(4,5) safe_unchanged)

lemma class_safe:
  assumes "wf_node n" "depth n \<le> d" "n_kind n = N_ClassDecl" "safe e X"
  shows "safe e (emitClassDecl ex p n X)"
proof -
  have a: "nat (n_int n) < length (n_strings n)"
    using wf_arity [OF assms(1)] assms(3) by (auto simp: arity_ok_def)
  have k: "safe e (emit_kid ex p n 0 Y)" if "kid n 0 \<noteq> None" "safe e Y" for Y
  proof -
    have "0 < length (n_children n)" using that(1) by (auto simp: kid_def split: if_splits)
    then show ?thesis using assms that(2) by (intro kid_safe) simp_all
  qed
  show ?thesis
    unfolding emitClassDecl_def emit_mixin_class_def Let_def split_beta using assms(4) a
    by (intro safe_step k) simp_all
qed

lemma sends_safe:
  assumes "wf_node n" "depth n \<le> d" "safe e X"
  shows "n_kind n = N_UnarySend \<Longrightarrow> safe e (emitUnarySend ex p n X)"
    "n_kind n = N_BinarySend \<Longrightarrow> safe e (emitBinarySend ex p n X)"
    "n_kind n = N_CallSend \<Longrightarrow> safe e (emitCallSend ex p n X)"
    "n_kind n = N_Return \<Longrightarrow> safe e (emitReturn ex p n X)"
    "n_kind n \<noteq> N_Cascade \<Longrightarrow> safe e (emitArray ex p n X)"
proof -
  note ar = wf_arity [OF assms(1)]
  show "safe e (emitUnarySend ex p n X)" if "n_kind n = N_UnarySend"
    unfolding emitUnarySend_def using ar that assms by (intro safe_step kid_safe) (simp_all add: arity_ok_def)
  show "safe e (emitBinarySend ex p n X)" if "n_kind n = N_BinarySend"
    unfolding emitBinarySend_def Let_def using ar that assms by (intro safe_step kid_safe) (simp_all add: arity_ok_def)
  show "safe e (emitCallSend ex p n X)" if "n_kind n = N_CallSend"
    unfolding emitCallSend_def using ar that assms by (intro safe_step kids_safe kid_safe) (auto simp: arity_ok_def)
  show "safe e (emitReturn ex p n X)" if "n_kind n = N_Return"
    unfolding emitReturn_def using ar that assms by (intro safe_step kid_safe) (simp_all add: arity_ok_def)
  show "safe e (emitArray ex p n X)" if "n_kind n \<noteq> N_Cascade"
    unfolding emitArray_def using that assms by (intro safe_step kids_safe) simp_all
qed

lemma message_safe:
  assumes "wf_message m" "depth m < d" "safe e X"
  shows "safe e (cascade_send ex b p m X)"
proof -
  have k: "safe a (emit_kid ex p m i Y)"
    if u: "n_kind m \<noteq> N_UnarySend" and i: "i < length (n_children m)" and y: "safe a Y" for i a Y
  proof -
    have "wf_child (n_children m ! i)" using assms(1) u i by (simp add: wf_message_iff [of m] list_all_length)
    then obtain c where c: "kid m i = Some c" "wf_node c" using i by (cases "n_children m ! i") (auto simp: kid_def)
    then show ?thesis
      using kid_depth [OF c(1)] assms(2) safe_trans [OF y ex_safe [OF c(2)]] by (simp add: emit_kid_def)
  qed
  show ?thesis
    unfolding cascade_send_def Let_def emit_kids_def using assms(3)
    by (intro safe_step safe_foldl k) auto
qed

lemma cascade_safe:
  assumes "wf_node n" "depth n \<le> d" "n_kind n = N_Cascade" "safe e X"
  shows "safe e (emitCascade ex p n X)"
proof -
  have ch: "2 \<le> length (n_children n)" using wf_arity [OF assms(1)] assms(3) by (simp add: arity_ok_def)
  have "safe a (cascade_step ex p n tmp a i)" if "i \<in> set [1..<length (n_children n)]" for a tmp i
  proof -
    from that have i: "1 \<le> i" "i < length (n_children n)" by auto
    have "tl (n_children n) ! (i - 1) = n_children n ! i" using i by (simp add: nth_tl)
    then obtain m where m: "kid n i = Some m" "wf_message m"
      using assms(1,3) i by (cases "n_children n ! i") (auto simp: wf_node_iff [of n] list_all_length kid_def dest!: spec [of _ "i - 1"])
    have "depth m < d" using kid_depth [OF m(1)] assms(2) by simp
    then show ?thesis unfolding cascade_step_def m(1) option.case Let_def using m(2) by (intro safe_step message_safe)
  qed
  then show ?thesis
    unfolding emitCascade_def Let_def split_beta using assms ch by (intro safe_foldl safe_step kid_safe) auto
qed


lemma kids_below:
  assumes "wf_node n" "depth n \<le> d" "n_kind n \<noteq> N_Cascade" "i < length (n_children n)" "safe e X"
  shows "safe e (emit_kid ex p n i X)"
  using assms by (intro kid_safe) simp_all

lemma block_safe:
  assumes "wf_node n" "depth n \<le> d" "n_kind n = N_Block" "safe e X"
  shows "safe e (emitBlock ex st x p n X)"
  unfolding emitBlock_def Let_def split_beta
  using assms ready_children [OF assms(1)] by (intro safe_step) simp_all

lemma method_parts_safe [safe_step]:
  "safe e X \<Longrightarrow> nArgs < length (n_strings n) \<Longrightarrow> safe e (open_method x p n nArgs X)"
  "safe e X \<Longrightarrow> n_strings n \<noteq> [] \<Longrightarrow> safe e (install_method outer l n X)"
  unfolding open_method_def install_method_def Let_def split_beta by (intro safe_step; simp)+

lemma method_safe:
  assumes "wf_node n" "depth n \<le> d" "n_kind n = N_MethodDecl" "safe e X"
  shows "safe e (emitMethodDecl ex st x p n X)"
proof -
  have "nat (n_int n) < length (n_strings n)" "n_strings n \<noteq> []"
    using wf_arity [OF assms(1)] assms(3) by (auto simp: arity_ok_def)
  then show ?thesis unfolding emitMethodDecl_def Let_def
    using assms ready_children [OF assms(1)] by (intro safe_step) simp_all
qed

lemma default_safe:
  assumes "wf_node n" "depth n \<le> d" "n_kind n \<noteq> N_Cascade" "i < length (n_children n)" "safe e X"
  shows "safe e (emit_default ex p n k X i)"
proof -
  obtain m where m: "kid n i = Some m" "wf_node m" "depth m < d" using wf_kid [OF assms(1)] assms(2,3,4) by fastforce
  have k: "safe e (ex p' m Y)" if "safe e Y" for p' Y by (rule safe_trans [OF that ex_safe [OF m(2,3)]])
  show ?thesis unfolding emit_default_def Let_def split_beta m(1) option.case using assms(5)
    by (intro safe_step k)
qed

lemma call_method_safe:
  assumes "wf_node n" "depth n \<le> d" "n_kind n = N_CallMethodDecl" "safe e X"
  shows "safe e (emitCallMethodDecl ex st x p n X)"
proof -
  have a: "nat (n_int n) + nat (n_int2 n) < length (n_strings n)" "n_strings n \<noteq> []" "nat (n_int2 n) \<le> length (n_children n)"
    using wf_arity [OF assms(1)] assms(3) by (auto simp: arity_ok_def)
  then show ?thesis unfolding emitCallMethodDecl_def Let_def
    using assms ready_children [OF assms(1)] by (intro safe_step safe_foldl default_safe) simp_all
qed

lemma inlined_safe:
  assumes "wf_node n" "depth n \<le> d" "n_kind n = N_KeywordSend" "safe e X"
  shows "safe e (snd (tryEmitInlinedControl ex st x p n X))"
proof -
  have nc: "n_kind n \<noteq> N_Cascade" using assms(3) by simp
  note parts = kids_below [OF assms(1,2) nc] body_of_safe [OF assms(1,2) nc]
  have "safe e (emitIfTrue ex st x p n X)" if "length (n_children n) = 2" "isInlineableBlock (kid n 1)"
    unfolding emitIfTrue_def Let_def split_beta using that assms(4) by (intro safe_step parts) simp_all
  moreover have "safe e (emitIfTrueIfFalse ex st x p n X)"
    if "length (n_children n) = 3" "isInlineableBlock (kid n 1)" "isInlineableBlock (kid n 2)"
    unfolding emitIfTrueIfFalse_def Let_def split_beta using that assms(4) by (intro safe_step parts) simp_all
  moreover have "safe e (emitToDo ex st x p n X)" if "length (n_children n) = 3" "isLoopBlock (kid n 2)"
    unfolding emitToDo_def Let_def split_beta using that assms(4) by (intro safe_step parts) simp_all
  moreover have "safe e (emitWhile ex st x p n X)"
    if "length (n_children n) = 2" "isInlineableBlock (kid n 0)" "isInlineableBlock (kid n 1)"
    unfolding emitWhile_def Let_def split_beta using that assms(4) by (intro safe_step parts) simp_all
  ultimately show ?thesis using assms(4) unfolding tryEmitInlinedControl_def by simp
qed

lemma keyword_safe:
  assumes "wf_node n" "depth n \<le> d" "n_kind n = N_KeywordSend" "safe e X"
  shows "safe e (emitKeywordSend ex st x p n X)"
proof -
  have nc: "n_kind n \<noteq> N_Cascade" using assms(3) by simp
  have len: "0 < length (n_children n)" using wf_arity [OF assms(1)] assms(3) by (simp add: arity_ok_def)
  note parts = kids_below [OF assms(1,2) nc] kids_safe [OF assms(1,2) nc]
  have "safe e (emitDoYieldingLoop ex p n X)" if "isDoYielding n"
    unfolding emitDoYieldingLoop_def Let_def split_beta using that assms(4)
    by (intro safe_step parts) (simp_all add: isDoYielding_def)
  then show ?thesis unfolding emitKeywordSend_def Let_def split_beta
    using inlined_safe [OF assms] len by (intro safe_step parts) simp_all
qed

lemma expr_safe:
  assumes "wf_node n" "depth n \<le> d"
  shows "safe e (emitExpr ex st x p n e)"
proof -
  have "safe e (emitAssignmentExpr ex x p n (at_line n e))" if "n_kind n = N_Assignment"
    unfolding emitAssignmentExpr_def using that assms by (intro safe_step assign_safe)
  then show ?thesis
    unfolding emitExpr_def Let_def
    using assms sends_safe [OF assms] keyword_safe [OF assms] cascade_safe [OF assms] block_safe [OF assms]
    by (cases "n_kind n") (simp_all add: safe_step)
qed

lemma statement_safe:
  assumes "wf_node n" "depth n \<le> d" "\<And>e. safe e (ex p n e)"
  shows "safe e (emitStatement ex st x p n e)"
proof -
  have "safe e (emitAssignmentStatement ex x p n (at_line n e))" if "n_kind n = N_Assignment"
    unfolding emitAssignmentStatement_def using that assms(1,2) by (intro safe_step assign_safe)
  moreover have "safe e (at_line n e)" by (intro safe_step)
  ultimately show ?thesis
    unfolding emitStatement_def Let_def
    using sends_safe(4) [OF assms(1,2)] class_safe [OF assms(1,2)] method_safe [OF assms(1,2)]
      call_method_safe [OF assms(1,2)] safe_trans [OF _ assms(3)] by simp
qed

end

lemma fuel_enough:
  "wf_node n \<Longrightarrow> 2 * depth n \<le> k \<Longrightarrow> safe e (emit_expr k x p n e)"
  "wf_node n \<Longrightarrow> 2 * depth n < k \<Longrightarrow> safe e (emit_stmt k x p n e)"
proof (induction k arbitrary: n e p)
  case 0
  {
    case 1
    then show ?case by (cases n) simp
  next
    case 2
    then show ?case by simp
  }
next
  case (Suc k)
  have below: "safe_emitters (emit_expr k x) (emit_stmt k x) d" if "2 * d \<le> Suc k" for d
    using Suc.IH that by unfold_locales simp_all
  {
    case 1
    then show ?case using safe_emitters.expr_safe [OF below 1(1) order_refl] by simp
  next
    case 2
    then show ?case using safe_emitters.statement_safe [OF below 2(1) order_refl Suc.IH(1)] by simp
  }
qed

interpretation deep: safe_emitters "emit_expr (2 * d) x" "emit_stmt (2 * d) x" d for d x
  by unfold_locales (simp_all add: fuel_enough)

lemma module_safe:
  assumes "wf_node md" "n_kind md = N_Module" "2 * depth md \<le> k"
  shows "safe e (emit_module k x md e)"
proof -
  have "safe a (module_step k x md a i)" if "i \<in> set [0..<length (n_children md)]" for a i
  proof -
    obtain m where m: "kid md i = Some m" "wf_node m" "depth m < depth md"
      using wf_kid [OF assms(1), of i] assms(2) \<open>i \<in> _\<close> by auto
    then have "safe a (emit_kid (emit_stmt k x) [] md i a)"
      using fuel_enough(2) [OF m(2)] assms(3) by (simp add: emit_kid_def)
    then show ?thesis unfolding module_step_def Let_def by (intro safe_step)
  qed
  then show ?thesis unfolding emit_module_def Let_def by (intro safe_step safe_foldl)
qed

lemma compile_safe:
  assumes "wf_node md" "n_kind md = N_Module" "compileModule repl groups registry known md = (e, registry')"
  shows "e_fail e = None \<or> e_fail e \<in> {Some Operand_Too_Wide, Some Bad_Patch, Some Endless}"
proof -
  obtain x errs a where e: "e = emit_module (3 * depth md) x md (start_env errs a)"
    using assms(3) by (auto simp: compileModule_def Let_def split_beta)
  have "safe (start_env errs a) e" unfolding e using assms(1,2) by (intro module_safe) simp_all
  then show ?thesis by (auto simp: safe_def limit_def start_env_def)
qed

end
