(* ===== verification/Effects.thy ===== *)
theory Effects
  imports Prelude
begin

text \<open>
  Code that changes a state and may leave by an exception: a function from the state
  to a result and a new state, where the state reached before a throw is kept.
\<close>

definition ret :: "'a \<Rightarrow> 's \<Rightarrow> ('e + 'a) \<times> 's" where
  "ret a s = (Inr a, s)"

definition throw :: "'e \<Rightarrow> 's \<Rightarrow> ('e + 'a) \<times> 's" where
  "throw e s = (Inl e, s)"

definition andThen :: "('s \<Rightarrow> ('e + 'a) \<times> 's) \<Rightarrow> ('a \<Rightarrow> 's \<Rightarrow> ('e + 'b) \<times> 's) \<Rightarrow> 's \<Rightarrow> ('e + 'b) \<times> 's" where
  "andThen m f s = (case m s of (Inl e, s1) \<Rightarrow> (Inl e, s1) | (Inr a, s1) \<Rightarrow> f a s1)"

lemma ret_simp [simp]: "ret a s = (Inr a, s)"
  by (simp add: ret_def)

lemma throw_simp [simp]: "throw e s = (Inl e, s)"
  by (simp add: throw_def)

lemma andThen_simps [simp]:
  "m s = (Inl e, s1) \<Longrightarrow> andThen m f s = (Inl e, s1)"
  "m s = (Inr a, s1) \<Longrightarrow> andThen m f s = f a s1"
  by (simp_all add: andThen_def)

text \<open>A read of the state.\<close>

definition reads :: "('s \<Rightarrow> 'a) \<Rightarrow> 's \<Rightarrow> ('e + 'a) \<times> 's" where
  "reads f s = (Inr (f s), s)"

definition puts :: "('s \<Rightarrow> 's) \<Rightarrow> 's \<Rightarrow> ('e + unit) \<times> 's" where
  "puts f s = (Inr (), f s)"

lemma reads_simp [simp]: "reads f s = (Inr (f s), s)"
  by (simp add: reads_def)

lemma puts_simp [simp]: "puts f s = (Inr (), f s)"
  by (simp add: puts_def)

text \<open>
  A C++ loop over a list with local variables \<open>acc\<close>: the body answers whether to go on.
\<close>

primrec walk :: "('v \<Rightarrow> 'a \<Rightarrow> 's \<Rightarrow> ('e + bool \<times> 'a) \<times> 's) \<Rightarrow> 'v list \<Rightarrow> 'a \<Rightarrow> 's \<Rightarrow> ('e + 'a) \<times> 's" where
  "walk f [] acc = ret acc"
| "walk f (x # xs) acc = andThen (f x acc) (\<lambda>(go, acc'). if go then walk f xs acc' else ret acc')"

text \<open>A body that only computes.\<close>

lemma walk_pure:
  assumes "\<And>x acc. f x acc s = (Inr (True, g acc x), s)"
  shows "walk f xs acc s = (Inr (foldl g acc xs), s)"
  by (induction xs arbitrary: acc) (simp_all add: assms)

text \<open>A body that stops at the first element with a property.\<close>

lemma walk_find:
  assumes "\<And>x. f x acc s = (Inr (if P x then (False, g x) else (True, acc)), s)"
  shows "walk f xs acc s = (Inr (case find P xs of None \<Rightarrow> acc | Some x \<Rightarrow> g x), s)"
  by (induction xs) (simp_all add: assms)

end
