(* ===== verification/EngineFrames.thy ===== *)
theory EngineFrames
  imports BytecodeScan Effects
begin

text \<open>
  The frame stack of src/runtime/ExecutionEngine.h and .cpp and its slots
  (TransientPin.h): every value a frame holds -- its captured dictionary, its
  self, its locals and its operand stack -- lives in a region of one array that
  the collector scans, and the regions of all the frames of a thread are packed
  one after another below a cursor.  Modules are known by a number and \<open>mods\<close>
  gives their code.  protoCore is the record \<open>space\<close> of the operations the engine
  calls: \<open>'v\<close> is an object, \<open>'w\<close> the state of everything outside the engine, and
  a null pointer is \<open>None\<close>.
\<close>

section \<open>Outcomes\<close>

text \<open>The C++ exceptions the engine handles itself, any other, and undefined behaviour.\<close>

datatype 'v raised =
    Runtime_Error string
  | Non_Local_Return nat 'v
  | Future_Yield "'v option"
  | Debugger_Halt string
  | Other_Exception
  | Undefined

section \<open>Frames and slots\<close>

definition u32 :: "nat \<Rightarrow> nat" where
  "u32 n = n mod 2 ^ 32"

abbreviation (input) kHeaderSlots :: nat where "kHeaderSlots \<equiv> 2"
abbreviation (input) kMinLocals :: nat where "kMinLocals \<equiv> 4"
definition kEngineSlotCapacity :: nat where "kEngineSlotCapacity = 2 ^ 20"
definition kFrameRegionBase :: nat where "kFrameRegionBase = 256"
definition kFrameRegionLimit :: nat where "kFrameRegionLimit = kEngineSlotCapacity"
definition kInitialEngineSlots :: nat where "kInitialEngineSlots = 4096"
definition kOverflowReserve :: nat where "kOverflowReserve = 16384"
definition kFrameIdBlock :: nat where "kFrameIdBlock = 4096"

lemmas slot_geometry =
  kEngineSlotCapacity_def kFrameRegionBase_def kFrameRegionLimit_def kInitialEngineSlots_def kOverflowReserve_def

record frame =
  f_m :: nat
  f_pc :: nat
  f_baseSlot :: nat
  f_localCount :: nat
  f_maxStack :: nat
  f_sp :: nat
  f_frameId :: nat
  f_homeFrameId :: nat
  f_groupActive :: bool
  f_groupPending :: nat
  f_groupBase :: nat
  f_groupFirst :: nat

text \<open>
  One engine of a thread: its frames, newest first; the thread's slots (with how
  many there are), slot cursor and frame ids; where this engine's regions begin;
  the frames of the other engines alive on the thread.
\<close>

record ('v, 'w) machine =
  mc_frames :: "frame list"
  mc_slots :: "nat \<Rightarrow> 'v"
  mc_count :: nat
  mc_cursor :: nat
  mc_base :: nat
  mc_nextId :: nat
  mc_idLimit :: nat
  mc_globalId :: nat
  mc_outer :: "frame list list"
  mc_world :: 'w

type_synonym ('v, 'w, 'a) act = "('v, 'w) machine \<Rightarrow> ('v raised + 'a) \<times> ('v, 'w) machine"

text \<open>What the frames need of the world outside: nil, and the errors they signal.\<close>

record ('v, 'w) space =
  sp_none :: 'v
  sp_signalNative :: "string \<Rightarrow> 'w \<Rightarrow> ('v raised + 'v option) \<times> 'w"
  sp_signalError :: "string \<Rightarrow> string \<Rightarrow> 'w \<Rightarrow> ('v raised + 'v option) \<times> 'w"
  sp_raiseRejection :: "'v \<Rightarrow> 'w \<Rightarrow> ('v raised + 'v option) \<times> 'w"

definition or_none :: "('v, 'w, 'z) space_scheme \<Rightarrow> 'v option \<Rightarrow> 'v" where
  "or_none S v = (case v of None \<Rightarrow> sp_none S | Some x \<Rightarrow> x)"

text \<open>A call out of the engine.\<close>

definition outside :: "('w \<Rightarrow> ('v raised + 'a) \<times> 'w) \<Rightarrow> ('v, 'w, 'a) act" where
  "outside f mc = (case f (mc_world mc) of (r, w) \<Rightarrow> (r, mc\<lparr>mc_world := w\<rparr>))"

definition frameRegionSize :: "frame \<Rightarrow> nat" where
  "frameRegionSize f = u32 (kHeaderSlots + f_localCount f + f_maxStack f)"

definition localsBase :: "frame \<Rightarrow> nat" where
  "localsBase f = u32 (f_baseSlot f + kHeaderSlots)"

definition opStackBase :: "frame \<Rightarrow> nat" where
  "opStackBase f = u32 (f_baseSlot f + kHeaderSlots + f_localCount f)"

definition frame_locals :: "core \<Rightarrow> nat \<Rightarrow> nat" where
  "frame_locals c argc = max (computeLocalCount argc c) kMinLocals"

definition computeMaxStack :: "core \<Rightarrow> nat" where
  "computeMaxStack c = nat (operandStackCapacity c)"

definition getLocal :: "frame \<Rightarrow> nat \<Rightarrow> ('v, 'w) machine \<Rightarrow> 'v" where
  "getLocal f i mc = mc_slots mc (u32 (localsBase f + i))"

definition getSelf :: "frame \<Rightarrow> ('v, 'w) machine \<Rightarrow> 'v" where
  "getSelf f mc = mc_slots mc (u32 (f_baseSlot f + 1))"

definition getCaptured :: "frame \<Rightarrow> ('v, 'w) machine \<Rightarrow> 'v" where
  "getCaptured f mc = mc_slots mc (f_baseSlot f)"

definition set_slot :: "nat \<Rightarrow> 'v \<Rightarrow> ('v, 'w) machine \<Rightarrow> ('v, 'w) machine" where
  "set_slot i v mc = mc\<lparr>mc_slots := (mc_slots mc)(i := v)\<rparr>"

definition setLocal :: "frame \<Rightarrow> nat \<Rightarrow> 'v \<Rightarrow> ('v, 'w) machine \<Rightarrow> ('v, 'w) machine" where
  "setLocal f i = set_slot (u32 (localsBase f + i))"

definition setCaptured :: "frame \<Rightarrow> 'v \<Rightarrow> ('v, 'w) machine \<Rightarrow> ('v, 'w) machine" where
  "setCaptured f = set_slot (f_baseSlot f)"

text \<open>The value \<open>depth\<close> below the top of the operand stack.\<close>

definition opAt :: "frame \<Rightarrow> nat \<Rightarrow> ('v, 'w) machine \<Rightarrow> 'v" where
  "opAt f depth mc = mc_slots mc (u32 (opStackBase f + f_sp f - 1 - depth))"

definition with_top :: "(frame \<Rightarrow> ('v, 'w, 'a) act) \<Rightarrow> ('v, 'w, 'a) act" where
  "with_top g mc = (case mc_frames mc of [] \<Rightarrow> (Inl Undefined, mc) | f # fs \<Rightarrow> g f mc)"

definition set_top :: "frame \<Rightarrow> ('v, 'w) machine \<Rightarrow> ('v, 'w) machine" where
  "set_top f mc = mc\<lparr>mc_frames := f # tl (mc_frames mc)\<rparr>"

text \<open>An error raised in the dispatch loop; a signal that comes back becomes a C++ error.\<close>

definition signalCatchable :: "('v, 'w, 'z) space_scheme \<Rightarrow> string \<Rightarrow> ('v, 'w, 'a) act" where
  "signalCatchable S msg = andThen (outside (sp_signalNative S msg)) (\<lambda>_. throw (Runtime_Error msg))"

definition push :: "('v, 'w, 'z) space_scheme \<Rightarrow> 'v \<Rightarrow> ('v, 'w, unit) act" where
  "push S v = with_top (\<lambda>f.
     if f_sp f \<ge> f_maxStack f
     then signalCatchable S (''operand stack overflow ('' @ show_nat (f_maxStack f) @ '' slots)'')
     else (\<lambda>mc. (Inr (), set_top (f\<lparr>f_sp := f_sp f + 1\<rparr>) (set_slot (u32 (opStackBase f + f_sp f)) v mc))))"

definition pop :: "('v, 'w, 'v) act" where
  "pop = with_top (\<lambda>f.
     if f_sp f = 0 then throw (Runtime_Error ''engine operand stack underflow'')
     else (\<lambda>mc. (Inr (mc_slots mc (u32 (opStackBase f + f_sp f - 1))), set_top (f\<lparr>f_sp := f_sp f - 1\<rparr>) mc)))"

definition peek :: "('v, 'w, 'v) act" where
  "peek = with_top (\<lambda>f.
     if f_sp f = 0 then throw (Runtime_Error ''engine operand stack peek on empty'')
     else (\<lambda>mc. (Inr (mc_slots mc (u32 (opStackBase f + f_sp f - 1))), mc)))"

section \<open>Entering and leaving a frame\<close>

text \<open>Frame ids, taken from the global counter a block at a time.\<close>

definition nextFrameId :: "('v, 'w) machine \<Rightarrow> nat \<times> ('v, 'w) machine" where
  "nextFrameId mc =
     (let mc1 = (if mc_nextId mc = mc_idLimit mc
                 then mc\<lparr>mc_nextId := mc_globalId mc, mc_idLimit := mc_globalId mc + kFrameIdBlock,
                         mc_globalId := mc_globalId mc + kFrameIdBlock\<rparr>
                 else mc)
      in (mc_nextId mc1, mc1\<lparr>mc_nextId := mc_nextId mc1 + 1\<rparr>))"

function grow_slots :: "nat \<Rightarrow> nat \<Rightarrow> nat" where
  "grow_slots grow needed =
     (if 0 < grow \<and> grow < needed \<and> grow < kEngineSlotCapacity then grow_slots (grow * 2) needed else grow)"
  by auto
termination by (relation "measure (\<lambda>(g, n). n - g)") auto

declare grow_slots.simps [simp del]

definition ensureEngineSlots :: "nat \<Rightarrow> ('v, 'w) machine \<Rightarrow> ('v, 'w) machine" where
  "ensureEngineSlots needed mc =
     (if mc_count mc \<ge> needed then mc
      else mc\<lparr>mc_count := min (grow_slots (if mc_count mc < kInitialEngineSlots then kInitialEngineSlots else mc_count mc) needed)
                kEngineSlotCapacity\<rparr>)"

text \<open>A frame's region written afresh: its header, its locals and its operand stack.\<close>

definition fill_region :: "'v \<Rightarrow> frame \<Rightarrow> 'v \<Rightarrow> 'v \<Rightarrow> 'v list \<Rightarrow> 'v list \<Rightarrow> (nat \<Rightarrow> 'v) \<Rightarrow> nat \<Rightarrow> 'v" where
  "fill_region none f captured self ls st slots i =
     (if i < f_baseSlot f \<or> i \<ge> f_baseSlot f + frameRegionSize f then slots i
      else if i = f_baseSlot f then captured
      else if i = f_baseSlot f + 1 then self
      else if i < localsBase f + length ls then ls ! (i - localsBase f)
      else if opStackBase f \<le> i \<and> i < opStackBase f + length st then st ! (i - opStackBase f)
      else none)"

definition new_frame :: "nat \<Rightarrow> nat \<Rightarrow> nat \<Rightarrow> nat \<Rightarrow> nat \<Rightarrow> frame" where
  "new_frame m base locals' stack fid =
     \<lparr>f_m = m, f_pc = 0, f_baseSlot = base, f_localCount = locals', f_maxStack = stack, f_sp = 0,
      f_frameId = fid, f_homeFrameId = fid, f_groupActive = False, f_groupPending = 0, f_groupBase = 0, f_groupFirst = 0\<rparr>"

definition pushFrame :: "('v, 'w, 'z) space_scheme \<Rightarrow> (nat \<Rightarrow> core) \<Rightarrow> nat \<Rightarrow> 'v option \<Rightarrow> 'v option \<Rightarrow>
    'v option list \<Rightarrow> nat \<Rightarrow> ('v, 'w, unit) act" where
  "pushFrame S mods m self captured args homeFrameId mc =
     (let (fid, mc1) = nextFrameId mc;
          f = (new_frame m (mc_cursor mc) (frame_locals (mods m) (length args)) (computeMaxStack (mods m)) fid)
                \<lparr>f_homeFrameId := (if homeFrameId = 0 then fid else homeFrameId)\<rparr>;
          regionEnd = u32 (f_baseSlot f + frameRegionSize f)
      in if regionEnd > kFrameRegionLimit then (Inl (Runtime_Error ''engine slot region exhausted''), mc1)
         else
           (let mc2 = ensureEngineSlots regionEnd mc1
            in (Inr (), mc2\<lparr>mc_slots := fill_region (sp_none S) f (or_none S captured) (or_none S self) (map (or_none S) args) []
                              (mc_slots mc2),
                            mc_cursor := u32 (mc_cursor mc2 + frameRegionSize f),
                            mc_frames := f # mc_frames mc2\<rparr>)))"

definition popFrame :: "('v, 'w) machine \<Rightarrow> ('v, 'w) machine" where
  "popFrame mc =
     (case mc_frames mc of [] \<Rightarrow> mc | f # fs \<Rightarrow> mc\<lparr>mc_cursor := f_baseSlot f, mc_frames := fs\<rparr>)"

definition homeFrameAlive :: "nat \<Rightarrow> ('v, 'w) machine \<Rightarrow> bool" where
  "homeFrameAlive fid mc \<longleftrightarrow> fid \<noteq> 0 \<and> (\<exists>fs \<in> set (mc_frames mc # mc_outer mc). \<exists>f \<in> set fs. f_frameId f = fid)"

text \<open>The depth check before every call: whether the call was refused.\<close>

definition signalIfTooDeep :: "('v, 'w, 'z) space_scheme \<Rightarrow> (nat \<Rightarrow> core) \<Rightarrow> nat \<Rightarrow> nat \<Rightarrow> ('v, 'w, bool) act" where
  "signalIfTooDeep S mods m argc mc =
     (if u32 (mc_cursor mc + kHeaderSlots + frame_locals (mods m) argc + computeMaxStack (mods m)) \<le>
         kFrameRegionLimit - kOverflowReserve
      then (Inr False, mc)
      else andThen (outside (sp_signalError S ''Error''
                      (''stack depth exceeded ('' @ show_nat (length (mc_frames mc)) @ '' frames in this activation chain)'')))
             (\<lambda>r. andThen (push S (or_none S r)) (\<lambda>_. ret True)) mc)"

section \<open>Snapshot and restore\<close>

text \<open>A frame as a suspended actor keeps it.\<close>

record 'v saved_frame =
  s_pc :: nat
  s_stack :: "'v list"
  s_locals :: "'v list"
  s_self :: 'v
  s_captured :: 'v
  s_m :: nat
  s_frameId :: nat
  s_homeFrameId :: nat

definition saved_of :: "('v, 'w) machine \<Rightarrow> frame \<Rightarrow> 'v saved_frame" where
  "saved_of mc f =
     \<lparr>s_pc = f_pc f, s_stack = map (\<lambda>j. mc_slots mc (u32 (opStackBase f + j))) [0..<f_sp f],
      s_locals = map (\<lambda>j. getLocal f j mc) [0..<f_localCount f], s_self = getSelf f mc, s_captured = getCaptured f mc,
      s_m = f_m f, s_frameId = f_frameId f, s_homeFrameId = f_homeFrameId f\<rparr>"

definition snapshotFrames :: "('v, 'w) machine \<Rightarrow> 'v saved_frame list" where
  "snapshotFrames mc = map (saved_of mc) (rev (mc_frames mc))"

definition restored_frame :: "(nat \<Rightarrow> core) \<Rightarrow> nat \<Rightarrow> 'v saved_frame \<Rightarrow> frame" where
  "restored_frame mods base sv =
     (new_frame (s_m sv) base (max (frame_locals (mods (s_m sv)) 0) (length (s_locals sv)))
        (max (computeMaxStack (mods (s_m sv))) (length (s_stack sv))) (s_frameId sv))
       \<lparr>f_pc := s_pc sv, f_sp := length (s_stack sv),
        f_homeFrameId := (if s_homeFrameId sv = 0 then s_frameId sv else s_homeFrameId sv)\<rparr>"

definition restore_frame :: "('v, 'w, 'z) space_scheme \<Rightarrow> (nat \<Rightarrow> core) \<Rightarrow> 'v saved_frame \<Rightarrow> ('v, 'w, unit) act" where
  "restore_frame S mods sv mc =
     (let f = restored_frame mods (mc_cursor mc) sv; regionEnd = u32 (f_baseSlot f + frameRegionSize f)
      in if regionEnd > kFrameRegionLimit then (Inl (Runtime_Error ''engine slot region exhausted''), mc)
         else
           (let mc1 = ensureEngineSlots regionEnd mc
            in (Inr (), mc1\<lparr>mc_slots := fill_region (sp_none S) f (s_captured sv) (s_self sv) (s_locals sv) (s_stack sv) (mc_slots mc1),
                            mc_cursor := u32 (mc_cursor mc1 + frameRegionSize f), mc_frames := f # mc_frames mc1\<rparr>)))"

fun restore_all :: "('v, 'w, 'z) space_scheme \<Rightarrow> (nat \<Rightarrow> core) \<Rightarrow> 'v saved_frame list \<Rightarrow> ('v, 'w, unit) act" where
  "restore_all S mods [] = ret ()"
| "restore_all S mods (sv # svs) = andThen (restore_frame S mods sv) (\<lambda>_. restore_all S mods svs)"

definition restoreFrames :: "('v, 'w, 'z) space_scheme \<Rightarrow> (nat \<Rightarrow> core) \<Rightarrow> 'v saved_frame list \<Rightarrow> ('v, 'w, unit) act" where
  "restoreFrames S mods snapshot mc =
     restore_all S mods snapshot ((ensureEngineSlots kInitialEngineSlots mc)\<lparr>mc_frames := [], mc_base := mc_cursor mc\<rparr>)"

text \<open>The value of the \<open>wait\<close> that suspended the actor, or the error it was rejected with.\<close>

definition resumeWith :: "('v, 'w, 'z) space_scheme \<Rightarrow> 'v option \<Rightarrow> 'v option \<Rightarrow> ('v, 'w, unit) act" where
  "resumeWith S value' error' mc =
     (case error' of
        Some e \<Rightarrow>
          andThen (outside (sp_raiseRejection S e))
            (\<lambda>v mc1. if mc_frames mc1 = [] then (Inr (), mc1) else push S (or_none S v) mc1) mc
      | None \<Rightarrow> if mc_frames mc = [] then (Inr (), mc) else push S (or_none S value') mc)"

text \<open>How a turn of an actor resumes it; \<open>run\<close> is the dispatch loop.\<close>

definition resume_turn :: "('v, 'w, 'z) space_scheme \<Rightarrow> (nat \<Rightarrow> core) \<Rightarrow> ('v, 'w, 'v) act \<Rightarrow> 'v saved_frame list \<Rightarrow> 'v option \<Rightarrow>
    'v option \<Rightarrow> ('v, 'w, 'v) act" where
  "resume_turn S mods run snapshot value' error' =
     andThen (restoreFrames S mods snapshot) (\<lambda>_. andThen (resumeWith S value' error') (\<lambda>_. run))"

section \<open>The regions are packed\<close>

text \<open>Newest first: each region ends where the next newer one begins.\<close>

fun packed :: "nat \<Rightarrow> frame list \<Rightarrow> nat \<Rightarrow> bool" where
  "packed base [] cursor \<longleftrightarrow> cursor = base"
| "packed base (f # fs) cursor \<longleftrightarrow>
     cursor = f_baseSlot f + kHeaderSlots + f_localCount f + f_maxStack f \<and> packed base fs (f_baseSlot f)"

definition frame_ok :: "(nat \<Rightarrow> core) \<Rightarrow> frame \<Rightarrow> bool" where
  "frame_ok mods f \<longleftrightarrow>
     f_sp f \<le> f_maxStack f \<and> frame_locals (mods (f_m f)) 0 \<le> f_localCount f \<and>
     computeMaxStack (mods (f_m f)) \<le> f_maxStack f \<and> 0 < f_frameId f \<and> 0 < f_homeFrameId f"

definition regions_ok :: "(nat \<Rightarrow> core) \<Rightarrow> ('v, 'w) machine \<Rightarrow> bool" where
  "regions_ok mods mc \<longleftrightarrow>
     packed (mc_base mc) (mc_frames mc) (mc_cursor mc) \<and> mc_cursor mc \<le> kFrameRegionLimit \<and>
     (mc_frames mc \<noteq> [] \<longrightarrow> mc_cursor mc \<le> mc_count mc) \<and> list_all (frame_ok mods) (mc_frames mc)"

text \<open>The frame ids of a thread: those left of its block are below the global counter.\<close>

definition ids_ok :: "('v, 'w) machine \<Rightarrow> bool" where
  "ids_ok mc \<longleftrightarrow> mc_nextId mc \<le> mc_idLimit mc \<and> mc_idLimit mc \<le> mc_globalId mc \<and> 0 < mc_globalId mc \<and>
     (mc_nextId mc < mc_idLimit mc \<longrightarrow> 0 < mc_nextId mc)"

lemma packed_le: "packed base fs c \<Longrightarrow> base \<le> c"
  by (induction fs arbitrary: c) fastforce+

lemma packed_region:
  "packed base fs c \<Longrightarrow> f \<in> set fs \<Longrightarrow> base \<le> f_baseSlot f \<and> f_baseSlot f + kHeaderSlots + f_localCount f + f_maxStack f \<le> c"
  by (induction fs arbitrary: c) (fastforce dest: packed_le)+

lemma u32_small [simp]: "n < 2 ^ 32 \<Longrightarrow> u32 n = n"
  by (simp add: u32_def)

lemma limit_small: "n \<le> kFrameRegionLimit \<Longrightarrow> n < 2 ^ 32"
  by (simp add: slot_geometry)

text \<open>Addresses in a region that ends below the limit do not wrap.\<close>

lemma region_addresses:
  assumes "f_baseSlot f + kHeaderSlots + f_localCount f + f_maxStack f \<le> kFrameRegionLimit"
  shows "frameRegionSize f = kHeaderSlots + f_localCount f + f_maxStack f" "localsBase f = f_baseSlot f + 2"
    "opStackBase f = f_baseSlot f + 2 + f_localCount f"
    "n \<le> f_baseSlot f + kHeaderSlots + f_localCount f + f_maxStack f \<Longrightarrow> u32 n = n"
  using assms by (simp_all add: frameRegionSize_def localsBase_def opStackBase_def slot_geometry)

lemma ensure_enough:
  assumes "needed \<le> kEngineSlotCapacity"
  shows "needed \<le> mc_count (ensureEngineSlots needed mc)" "mc_count mc \<le> kEngineSlotCapacity \<Longrightarrow>
    mc_count (ensureEngineSlots needed mc) \<le> kEngineSlotCapacity"
proof -
  have g: "0 < grow \<Longrightarrow> min needed kEngineSlotCapacity \<le> grow_slots grow needed" for grow
  proof (induction grow needed rule: grow_slots.induct)
    case (1 grow needed)
    then show ?case
      by (cases "0 < grow \<and> grow < needed \<and> grow < kEngineSlotCapacity") (auto simp: grow_slots.simps [of grow] min_def)
  qed
  show "needed \<le> mc_count (ensureEngineSlots needed mc)"
    using assms g [of "if mc_count mc < kInitialEngineSlots then kInitialEngineSlots else mc_count mc"]
    by (auto simp: ensureEngineSlots_def kInitialEngineSlots_def split: if_splits)
qed (simp add: ensureEngineSlots_def)

lemma ensure_other [simp]:
  "mc_frames (ensureEngineSlots n mc) = mc_frames mc" "mc_slots (ensureEngineSlots n mc) = mc_slots mc"
  "mc_cursor (ensureEngineSlots n mc) = mc_cursor mc" "mc_base (ensureEngineSlots n mc) = mc_base mc"
  "mc_outer (ensureEngineSlots n mc) = mc_outer mc" "mc_world (ensureEngineSlots n mc) = mc_world mc"
  "mc_nextId (ensureEngineSlots n mc) = mc_nextId mc" "mc_idLimit (ensureEngineSlots n mc) = mc_idLimit mc"
  "mc_globalId (ensureEngineSlots n mc) = mc_globalId mc"
  by (simp_all add: ensureEngineSlots_def)

section \<open>What a frame holds\<close>

text \<open>The values of a frame.\<close>

definition region :: "frame \<Rightarrow> nat set" where
  "region f = {f_baseSlot f..<f_baseSlot f + kHeaderSlots + f_localCount f + f_maxStack f}"

lemma saved_of_cong:
  assumes "f_baseSlot f + kHeaderSlots + f_localCount f + f_maxStack f \<le> kFrameRegionLimit" "f_sp f \<le> f_maxStack f"
    and "\<And>i. i \<in> region f \<Longrightarrow> mc_slots mc' i = mc_slots mc i"
  shows "saved_of mc' f = saved_of mc f"
  using assms(2) by (auto simp: saved_of_def getLocal_def getSelf_def getCaptured_def region_addresses [OF assms(1)]
    intro!: assms(3) simp: region_def)

lemma fill_region_outside: "f_baseSlot f + kHeaderSlots + f_localCount f + f_maxStack f \<le> kFrameRegionLimit \<Longrightarrow>
    i \<notin> region f \<Longrightarrow> fill_region none f captured self ls st slots i = slots i"
  by (auto simp: fill_region_def region_def region_addresses)

lemma fill_region_inside:
  assumes fit: "f_baseSlot f + kHeaderSlots + f_localCount f + f_maxStack f \<le> kFrameRegionLimit"
    and len: "length ls \<le> f_localCount f" "length st \<le> f_maxStack f"
  shows "fill_region none f captured self ls st slots (f_baseSlot f) = captured"
    "fill_region none f captured self ls st slots (Suc (f_baseSlot f)) = self"
    "i < f_localCount f \<Longrightarrow> fill_region none f captured self ls st slots (Suc (Suc (f_baseSlot f + i))) = (if i < length ls then ls ! i else none)"
    "i < f_maxStack f \<Longrightarrow> fill_region none f captured self ls st slots (Suc (Suc (f_baseSlot f + f_localCount f + i))) =
       (if i < length st then st ! i else none)"
  using len by (auto simp: fill_region_def region_addresses [OF fit])

text \<open>What the frame that \<open>pushFrame\<close> or \<open>restoreFrames\<close> builds holds.\<close>

lemma saved_of_filled:
  assumes "f_baseSlot f + kHeaderSlots + f_localCount f + f_maxStack f \<le> kFrameRegionLimit"
    and "length ls \<le> f_localCount f" "length st = f_sp f" "f_sp f \<le> f_maxStack f"
    and "mc_slots mc = fill_region none f captured self ls st slots"
  shows "saved_of mc f =
    \<lparr>s_pc = f_pc f, s_stack = st, s_locals = ls @ replicate (f_localCount f - length ls) none, s_self = self, s_captured = captured,
     s_m = f_m f, s_frameId = f_frameId f, s_homeFrameId = f_homeFrameId f\<rparr>"
  using assms(2-4)
  by (auto simp: saved_of_def getLocal_def getSelf_def getCaptured_def assms(5) region_addresses [OF assms(1)]
      fill_region_inside [OF assms(1)] nth_append intro!: nth_equalityI)

lemma frame_locals_mono: "frame_locals c 0 \<le> frame_locals c n"
  by (auto simp: frame_locals_def computeLocalCount_def Let_def split: option.split)

lemma frame_locals_args: "n \<le> frame_locals c n"
  by (auto simp: frame_locals_def computeLocalCount_def Let_def split: option.split)

lemma packed_snapshot_cong:
  assumes "packed base fs c" "c \<le> kFrameRegionLimit" "list_all (frame_ok mods) fs"
    and "\<And>i. base \<le> i \<Longrightarrow> i < c \<Longrightarrow> mc_slots mc' i = mc_slots mc i"
  shows "map (saved_of mc') fs = map (saved_of mc) fs"
proof (rule map_cong [OF refl], rule saved_of_cong)
  fix f assume f: "f \<in> set fs"
  note r = packed_region [OF assms(1) f]
  show "f_baseSlot f + kHeaderSlots + f_localCount f + f_maxStack f \<le> kFrameRegionLimit" using r assms(2) by simp
  show "f_sp f \<le> f_maxStack f" using assms(3) f by (simp add: list_all_iff frame_ok_def)
  show "mc_slots mc' i = mc_slots mc i" if "i \<in> region f" for i
    using that r assms(4) [of i] by (simp add: region_def)
qed

section \<open>Calls\<close>

text \<open>
  A successful call: the new frame holds the arguments in its first locals and
  nil elsewhere, above every older frame, which keeps its values.
\<close>

lemma next_id: "ids_ok mc \<Longrightarrow> nextFrameId mc = (fid, mc1) \<Longrightarrow>
    ids_ok mc1 \<and> 0 < fid \<and> fid < mc_globalId mc1 \<and> (mc_frames mc1 = mc_frames mc \<and> mc_slots mc1 = mc_slots mc \<and> mc_count mc1 = mc_count mc \<and>
    mc_cursor mc1 = mc_cursor mc \<and> mc_base mc1 = mc_base mc \<and> mc_outer mc1 = mc_outer mc \<and> mc_world mc1 = mc_world mc)"
  by (auto simp: nextFrameId_def ids_ok_def Let_def kFrameIdBlock_def split: if_splits)

lemma install_frame:
  assumes ok: "regions_ok mods mc" and base: "f_baseSlot f = mc_cursor mc" and f: "frame_ok mods f"
    and fit: "mc_cursor mc + kHeaderSlots + f_localCount f + f_maxStack f \<le> kFrameRegionLimit"
    and len: "length ls \<le> f_localCount f" "length st = f_sp f"
    and mc': "mc' = (ensureEngineSlots (u32 (f_baseSlot f + frameRegionSize f)) mc1)
        \<lparr>mc_slots := fill_region none f captured self ls st (mc_slots mc1),
         mc_cursor := u32 (mc_cursor mc1 + frameRegionSize f), mc_frames := f # mc_frames mc1\<rparr>"
    and mc1: "mc_frames mc1 = mc_frames mc" "mc_slots mc1 = mc_slots mc" "mc_cursor mc1 = mc_cursor mc" "mc_base mc1 = mc_base mc"
  shows "regions_ok mods mc' \<and> mc_cursor mc' = mc_cursor mc + kHeaderSlots + f_localCount f + f_maxStack f \<and>
    snapshotFrames mc' = snapshotFrames mc @
      [\<lparr>s_pc = f_pc f, s_stack = st, s_locals = ls @ replicate (f_localCount f - length ls) none, s_self = self,
        s_captured = captured, s_m = f_m f, s_frameId = f_frameId f, s_homeFrameId = f_homeFrameId f\<rparr>]"
proof -
  have fit': "f_baseSlot f + kHeaderSlots + f_localCount f + f_maxStack f \<le> kFrameRegionLimit" using fit base by simp
  note adr = region_addresses [OF fit']
  have e: "u32 (f_baseSlot f + frameRegionSize f) = f_baseSlot f + (2 + f_localCount f + f_maxStack f)"
    "u32 (mc_cursor mc + frameRegionSize f) = mc_cursor mc + (2 + f_localCount f + f_maxStack f)"
    using limit_small [OF fit'] base by (simp_all add: adr)
  have cnt: "mc_cursor mc + (2 + f_localCount f + f_maxStack f) \<le> mc_count mc'"
    using ensure_enough(1) [of "f_baseSlot f + (2 + f_localCount f + f_maxStack f)" mc1] fit' base
    unfolding mc' e by (simp add: kFrameRegionLimit_def)
  have pk: "packed (mc_base mc) (mc_frames mc) (mc_cursor mc)" "mc_cursor mc \<le> kFrameRegionLimit" "list_all (frame_ok mods) (mc_frames mc)"
    using ok by (simp_all add: regions_ok_def)
  have r: "regions_ok mods mc'"
    using cnt pk f fit base e(2) mc1 unfolding regions_ok_def mc' by simp
  have old: "map (saved_of mc') (mc_frames mc) = map (saved_of mc) (mc_frames mc)"
  proof (rule packed_snapshot_cong [OF pk])
    fix i assume "mc_base mc \<le> i" "i < mc_cursor mc"
    then show "mc_slots mc' i = mc_slots mc i"
      using base unfolding mc' by (simp add: fill_region_def mc1)
  qed
  have new: "saved_of mc' f = \<lparr>s_pc = f_pc f, s_stack = st, s_locals = ls @ replicate (f_localCount f - length ls) none,
      s_self = self, s_captured = captured, s_m = f_m f, s_frameId = f_frameId f, s_homeFrameId = f_homeFrameId f\<rparr>"
    by (rule saved_of_filled [OF fit' len]) (use f in \<open>simp_all add: mc' frame_ok_def\<close>)
  have "mc_frames mc' = f # mc_frames mc" "mc_cursor mc' = mc_cursor mc + (2 + f_localCount f + f_maxStack f)"
    unfolding mc' by (simp_all add: mc1 e(2))
  then show ?thesis using r old new by (simp add: snapshotFrames_def rev_map)
qed

definition call_slots :: "core \<Rightarrow> nat \<Rightarrow> nat" where
  "call_slots c argc = kHeaderSlots + frame_locals c argc + computeMaxStack c"

text \<open>What a fresh frame holds.\<close>

definition called :: "'v \<Rightarrow> core \<Rightarrow> nat \<Rightarrow> 'v \<Rightarrow> 'v \<Rightarrow> 'v list \<Rightarrow> nat \<Rightarrow> nat \<Rightarrow> 'v saved_frame" where
  "called none c m self captured args fid home =
     \<lparr>s_pc = 0, s_stack = [], s_locals = args @ replicate (frame_locals c (length args) - length args) none, s_self = self,
      s_captured = captured, s_m = m, s_frameId = fid, s_homeFrameId = (if home = 0 then fid else home)\<rparr>"

lemma pushFrame_fits:
  assumes ok: "regions_ok mods mc" "ids_ok mc" and fit: "mc_cursor mc + call_slots (mods m) (length args) \<le> kFrameRegionLimit"
  shows "\<exists>mc' fid. pushFrame S mods m self captured args home mc = (Inr (), mc') \<and> regions_ok mods mc' \<and> ids_ok mc' \<and>
    mc_cursor mc' = mc_cursor mc + call_slots (mods m) (length args) \<and> 0 < fid \<and> fid < mc_globalId mc' \<and> popFrame mc' = mc'\<lparr>mc_cursor := mc_cursor mc, mc_frames := mc_frames mc\<rparr> \<and>
    mc_world mc' = mc_world mc \<and> mc_outer mc' = mc_outer mc \<and> mc_base mc' = mc_base mc \<and>
    snapshotFrames mc' = snapshotFrames mc @
      [called (sp_none S) (mods m) m (or_none S self) (or_none S captured) (map (or_none S) args) fid home]"
proof -
  obtain fid mc1 where n: "nextFrameId mc = (fid, mc1)" by fastforce
  note n1 = next_id [OF ok(2) n]
  define f where "f = (new_frame m (mc_cursor mc) (frame_locals (mods m) (length args)) (computeMaxStack (mods m)) fid)
    \<lparr>f_homeFrameId := (if home = 0 then fid else home)\<rparr>"
  have fs: "f_baseSlot f = mc_cursor mc" "f_localCount f = frame_locals (mods m) (length args)" "f_maxStack f = computeMaxStack (mods m)"
    "f_sp f = 0" "f_m f = m" "f_pc f = 0" "f_frameId f = fid" "f_homeFrameId f = (if home = 0 then fid else home)"
    by (simp_all add: f_def new_frame_def)
  have f: "frame_ok mods f" using n1 by (simp add: frame_ok_def fs frame_locals_mono)
  have fit': "mc_cursor mc + kHeaderSlots + f_localCount f + f_maxStack f \<le> kFrameRegionLimit" using fit by (simp add: fs call_slots_def)
  have small: "\<not> kFrameRegionLimit < u32 (f_baseSlot f + frameRegionSize f)"
    using fit' by (simp add: fs(1) region_addresses(1,4) [of f])
  define mc' where "mc' = (ensureEngineSlots (u32 (f_baseSlot f + frameRegionSize f)) mc1)
        \<lparr>mc_slots := fill_region (sp_none S) f (or_none S captured) (or_none S self) (map (or_none S) args) [] (mc_slots mc1),
         mc_cursor := u32 (mc_cursor mc1 + frameRegionSize f), mc_frames := f # mc_frames mc1\<rparr>"
  have len: "length (map (or_none S) args) \<le> f_localCount f" "length [] = f_sp f" by (simp_all add: fs frame_locals_args)
  have m1: "mc_frames mc1 = mc_frames mc" "mc_slots mc1 = mc_slots mc" "mc_cursor mc1 = mc_cursor mc" "mc_base mc1 = mc_base mc"
    using n1 by simp_all
  note i = install_frame [OF ok(1) fs(1) f fit' len mc'_def m1]
  have "pushFrame S mods m self captured args home mc = (Inr (), mc')"
    using small unfolding pushFrame_def n Let_def prod.case f_def [symmetric] mc'_def by simp
  moreover have "popFrame mc' = mc'\<lparr>mc_cursor := mc_cursor mc, mc_frames := mc_frames mc\<rparr>"
    "ids_ok mc'" "fid < mc_globalId mc'" "mc_world mc' = mc_world mc" "mc_outer mc' = mc_outer mc" "mc_base mc' = mc_base mc"
    using n1 by (simp_all add: popFrame_def fs mc'_def ids_ok_def)
  ultimately show ?thesis
    using i n1 by (intro exI [of _ mc'] exI [of _ fid]) (simp add: fs called_def call_slots_def)
qed

lemma popFrame_ok:
  assumes "regions_ok mods mc"
  shows "regions_ok mods (popFrame mc)" "snapshotFrames (popFrame mc) = butlast (snapshotFrames mc)"
proof -
  have "regions_ok mods (popFrame mc) \<and> snapshotFrames (popFrame mc) = butlast (snapshotFrames mc)"
  proof (cases "mc_frames mc")
    case (Cons f fs)
    let ?mc' = "mc\<lparr>mc_cursor := f_baseSlot f, mc_frames := fs\<rparr>"
    have "saved_of ?mc' = saved_of mc" by (rule ext) (simp add: saved_of_def getLocal_def getSelf_def getCaptured_def)
    then show ?thesis
      using assms Cons packed_le [of "mc_base mc" fs "f_baseSlot f"] by (auto simp: popFrame_def regions_ok_def snapshotFrames_def butlast_append)
  qed (use assms in \<open>simp add: popFrame_def snapshotFrames_def\<close>)
  then show "regions_ok mods (popFrame mc)" "snapshotFrames (popFrame mc) = butlast (snapshotFrames mc)" by blast+
qed

section \<open>Suspending and resuming\<close>

definition saved_slots :: "(nat \<Rightarrow> core) \<Rightarrow> 'v saved_frame \<Rightarrow> nat" where
  "saved_slots mods sv = kHeaderSlots + length (s_locals sv) + max (computeMaxStack (mods (s_m sv))) (length (s_stack sv))"

definition saved_ok :: "(nat \<Rightarrow> core) \<Rightarrow> 'v saved_frame \<Rightarrow> bool" where
  "saved_ok mods sv \<longleftrightarrow> frame_locals (mods (s_m sv)) 0 \<le> length (s_locals sv) \<and> 0 < s_frameId sv \<and> 0 < s_homeFrameId sv"

lemma restore_frame_fits:
  assumes "regions_ok mods mc" "saved_ok mods sv" "mc_cursor mc + saved_slots mods sv \<le> kFrameRegionLimit"
  shows "\<exists>mc'. restore_frame S mods sv mc = (Inr (), mc') \<and> regions_ok mods mc' \<and> mc_cursor mc' = mc_cursor mc + saved_slots mods sv \<and>
    snapshotFrames mc' = snapshotFrames mc @ [sv] \<and> mc_frames mc' \<noteq> [] \<and> mc_base mc' = mc_base mc \<and> mc_world mc' = mc_world mc"
proof -
  define f where "f = restored_frame mods (mc_cursor mc) sv"
  have fs: "f_baseSlot f = mc_cursor mc" "f_localCount f = length (s_locals sv)"
    "f_maxStack f = max (computeMaxStack (mods (s_m sv))) (length (s_stack sv))"
    "f_sp f = length (s_stack sv)" "f_m f = s_m sv" "f_pc f = s_pc sv" "f_frameId f = s_frameId sv" "f_homeFrameId f = s_homeFrameId sv"
    using assms(2) by (simp_all add: f_def restored_frame_def new_frame_def saved_ok_def)
  have f: "frame_ok mods f" using assms(2) by (simp add: frame_ok_def fs saved_ok_def)
  have fit: "mc_cursor mc + kHeaderSlots + f_localCount f + f_maxStack f \<le> kFrameRegionLimit" using assms(3) by (simp add: fs saved_slots_def)
  have small: "\<not> kFrameRegionLimit < u32 (f_baseSlot f + frameRegionSize f)"
    using fit by (simp add: fs(1) region_addresses(1,4) [of f])
  define mc' where "mc' = (ensureEngineSlots (u32 (f_baseSlot f + frameRegionSize f)) mc)
        \<lparr>mc_slots := fill_region (sp_none S) f (s_captured sv) (s_self sv) (s_locals sv) (s_stack sv) (mc_slots mc),
         mc_cursor := u32 (mc_cursor mc + frameRegionSize f), mc_frames := f # mc_frames mc\<rparr>"
  have len: "length (s_locals sv) \<le> f_localCount f" "length (s_stack sv) = f_sp f" by (simp_all add: fs)
  note i = install_frame [OF assms(1) fs(1) f fit len mc'_def refl refl refl refl]
  have "restore_frame S mods sv mc = (Inr (), mc')"
    using small unfolding restore_frame_def Let_def f_def [symmetric] mc'_def by simp
  moreover have "mc_frames mc' \<noteq> [] \<and> mc_base mc' = mc_base mc \<and> mc_world mc' = mc_world mc" by (simp add: mc'_def)
  ultimately show ?thesis using i by (intro exI [of _ mc']) (simp add: fs saved_slots_def)
qed

lemma restore_all_fits:
  assumes "regions_ok mods mc" "list_all (saved_ok mods) svs" "mc_cursor mc + sum_list (map (saved_slots mods) svs) \<le> kFrameRegionLimit"
  shows "\<exists>mc'. restore_all S mods svs mc = (Inr (), mc') \<and> regions_ok mods mc' \<and>
    mc_cursor mc' = mc_cursor mc + sum_list (map (saved_slots mods) svs) \<and> snapshotFrames mc' = snapshotFrames mc @ svs \<and>
    mc_base mc' = mc_base mc \<and> mc_world mc' = mc_world mc"
  using assms
proof (induction svs arbitrary: mc)
  case (Cons sv svs)
  then obtain mc1 where mc1: "restore_frame S mods sv mc = (Inr (), mc1)" "regions_ok mods mc1" "mc_cursor mc1 = mc_cursor mc + saved_slots mods sv"
      "snapshotFrames mc1 = snapshotFrames mc @ [sv]" "mc_base mc1 = mc_base mc" "mc_world mc1 = mc_world mc"
    using restore_frame_fits [of mods mc sv S] by auto
  show ?case using Cons.IH [OF mc1(2)] Cons.prems(2,3) mc1 by auto
qed simp

lemma restoreFrames_fits:
  assumes "list_all (saved_ok mods) svs" "mc_cursor mc + sum_list (map (saved_slots mods) svs) \<le> kFrameRegionLimit"
  shows "\<exists>mc'. restoreFrames S mods svs mc = (Inr (), mc') \<and> regions_ok mods mc' \<and> mc_base mc' = mc_cursor mc \<and>
    mc_cursor mc' = mc_cursor mc + sum_list (map (saved_slots mods) svs) \<and> snapshotFrames mc' = svs \<and> mc_world mc' = mc_world mc"
proof -
  let ?mc = "(ensureEngineSlots kInitialEngineSlots mc)\<lparr>mc_frames := [], mc_base := mc_cursor mc\<rparr>"
  have ok: "regions_ok mods ?mc" using assms(2) by (simp add: regions_ok_def)
  have "mc_cursor ?mc + sum_list (map (saved_slots mods) svs) \<le> kFrameRegionLimit" using assms(2) by simp
  from restore_all_fits [OF ok assms(1) this, of S] show ?thesis
    unfolding restoreFrames_def by (auto simp: snapshotFrames_def [of ?mc])
qed

lemma saved_of_ok: "frame_ok mods f \<Longrightarrow> saved_ok mods (saved_of mc f)"
  by (simp add: frame_ok_def saved_ok_def saved_of_def)

lemma saved_of_slots: "frame_ok mods f \<Longrightarrow> saved_slots mods (saved_of mc f) \<le> kHeaderSlots + f_localCount f + f_maxStack f"
  by (simp add: frame_ok_def saved_slots_def saved_of_def)

lemma packed_slots:
  "packed base fs c \<Longrightarrow> list_all (frame_ok mods) fs \<Longrightarrow> base + sum_list (map (saved_slots mods) (map (saved_of mc) fs)) \<le> c"
proof (induction fs arbitrary: c)
  case (Cons f fs)
  then have "base + sum_list (map (saved_slots mods) (map (saved_of mc) fs)) \<le> f_baseSlot f" by (intro Cons.IH) simp_all
  then show ?case using Cons.prems saved_of_slots [of mods f mc] by simp
qed simp

section \<open>Properties\<close>

definition empty_machine :: "'v \<Rightarrow> 'w \<Rightarrow> ('v, 'w) machine" where
  "empty_machine none w = \<lparr>mc_frames = [], mc_slots = (\<lambda>_. none), mc_count = 0, mc_cursor = kFrameRegionBase, mc_base = kFrameRegionBase,
     mc_nextId = 0, mc_idLimit = 0, mc_globalId = 1, mc_outer = [], mc_world = w\<rparr>"

lemma empty_machine_ok: "regions_ok mods (empty_machine none w)" "ids_ok (empty_machine none w)"
  by (simp_all add: regions_ok_def ids_ok_def empty_machine_def slot_geometry)

definition plain_space :: "(bool, unit) space" where
  "plain_space = \<lparr>sp_none = False, sp_signalNative = (\<lambda>_ w. (Inl Other_Exception, w)), sp_signalError = (\<lambda>_ _ w. (Inl Other_Exception, w)),
     sp_raiseRejection = (\<lambda>_ w. (Inl Other_Exception, w))\<rparr>"

text \<open>
  C12. A call that the depth check lets through always finds room, and leaves
  the reserve for error handlers free: the new frame holds the receiver, the
  captured variables and the arguments and nil everywhere else, every older
  frame keeps its values, and returning from it gives back exactly the slots it
  took.  A call is refused only when the reserve would be used.
\<close>

theorem call_and_return:
  assumes "regions_ok mods mc" "ids_ok mc" "call_slots (mods m) (length args) < 2 ^ 31"
  shows "case signalIfTooDeep S mods m (length args) mc of
      (Inr False, _) \<Rightarrow>
        (\<exists>mc' fid. pushFrame S mods m self captured args home mc = (Inr (), mc') \<and> regions_ok mods mc' \<and> ids_ok mc' \<and> 0 < fid \<and>
           mc_cursor mc' + kOverflowReserve \<le> kFrameRegionLimit \<and>
           snapshotFrames mc' = snapshotFrames mc @
             [called (sp_none S) (mods m) m (or_none S self) (or_none S captured) (map (or_none S) args) fid home] \<and>
           mc_cursor (popFrame mc') = mc_cursor mc \<and> mc_frames (popFrame mc') = mc_frames mc \<and>
           snapshotFrames (popFrame mc') = snapshotFrames mc)
    | _ \<Rightarrow> mc_cursor mc + call_slots (mods m) (length args) + kOverflowReserve > kFrameRegionLimit"
proof (cases "mc_cursor mc + call_slots (mods m) (length args) + kOverflowReserve \<le> kFrameRegionLimit")
  case True
  then have "mc_cursor mc + call_slots (mods m) (length args) \<le> kFrameRegionLimit" by simp
  from pushFrame_fits [OF assms(1,2) this, of S self captured home]
  obtain mc' fid where p: "pushFrame S mods m self captured args home mc = (Inr (), mc')" "regions_ok mods mc'" "ids_ok mc'" "0 < fid"
      "mc_cursor mc' = mc_cursor mc + call_slots (mods m) (length args)" "popFrame mc' = mc'\<lparr>mc_cursor := mc_cursor mc, mc_frames := mc_frames mc\<rparr>"
      "snapshotFrames mc' = snapshotFrames mc @
         [called (sp_none S) (mods m) m (or_none S self) (or_none S captured) (map (or_none S) args) fid home]" by blast
  have "signalIfTooDeep S mods m (length args) mc = (Inr False, mc)"
    using True by (simp add: signalIfTooDeep_def call_slots_def slot_geometry)
  moreover have "mc_cursor (popFrame mc') = mc_cursor mc" "mc_frames (popFrame mc') = mc_frames mc" by (simp_all add: p(6))
  ultimately show ?thesis using p True popFrame_ok(2) [OF p(2)] by auto
next
  case False
  have "mc_cursor mc \<le> kFrameRegionLimit" using assms(1) by (simp add: regions_ok_def)
  then have u: "u32 (mc_cursor mc + call_slots (mods m) (length args)) = mc_cursor mc + call_slots (mods m) (length args)"
    using assms(3) by (intro u32_small) (simp add: slot_geometry)
  have "fst (signalIfTooDeep S mods m (length args) mc) \<noteq> Inr False"
    using False u by (auto simp: signalIfTooDeep_def call_slots_def andThen_def slot_geometry add.assoc split: prod.splits sum.splits)
  then show ?thesis using False by (auto split: prod.splits sum.splits bool.splits)
qed

lemma call_and_return_witness:
  "\<exists>mc' fid. pushFrame plain_space (\<lambda>_. empty_core) 7 (Some True) None [Some True, None] 0 (empty_machine False ()) = (Inr (), mc') \<and>
     snapshotFrames mc' = [called False empty_core 7 True False [True, False] fid 0]"
proof -
  let ?args = "[Some True, None] :: bool option list"
  have e: "frame_locals empty_core (length ?args) = 4" "computeMaxStack empty_core = 48" by code_simp+
  have sz: "call_slots empty_core (length ?args) < 2 ^ 31" by (simp only: call_slots_def e) simp
  have sg: "signalIfTooDeep plain_space (\<lambda>_. empty_core) 7 (length ?args) (empty_machine False ()) = (Inr False, empty_machine False ())"
    by (simp only: signalIfTooDeep_def e) (simp add: empty_machine_def slot_geometry)
  have "snapshotFrames (empty_machine False ()) = []" by (simp add: snapshotFrames_def empty_machine_def)
  then show ?thesis
    using call_and_return [where mods = "\<lambda>_. empty_core" and mc = "empty_machine False ()" and m = 7 and S = plain_space and self = "Some True" and captured = None and
        home = 0, OF empty_machine_ok sz, unfolded sg prod.case sum.case bool.case]
    by (fastforce simp: or_none_def plain_space_def)
qed



lemma frame_minimum: "4 \<le> frame_locals c n" "48 \<le> computeMaxStack c"
  by (auto simp: frame_locals_def computeMaxStack_def operandStackCapacity_def Let_def)

lemma saved_slots_min: "saved_ok mods sv \<Longrightarrow> 54 \<le> saved_slots mods sv"
  using frame_minimum(1) [of "mods (s_m sv)" 0] frame_minimum(2) [of "mods (s_m sv)"] unfolding saved_ok_def saved_slots_def by linarith

lemma saved_slots_sum: "list_all (saved_ok mods) svs \<Longrightarrow> 54 * length svs \<le> sum_list (map (saved_slots mods) svs)"
  by (induction svs) (use saved_slots_min in \<open>fastforce+\<close>)

text \<open>
  C16. An actor that waits for a future that is rejected costs its worker
  thread stack space for good: the turn that resumes it restores its frames and
  then raises the rejection before the dispatch loop, whose exit rewinds the
  slot cursor, is entered, so the cursor stays above the restored frames, by at
  least 54 slots for each.
\<close>

theorem rejected_resume_leaks:
  assumes "list_all (saved_ok mods) svs" "mc_cursor mc + sum_list (map (saved_slots mods) svs) \<le> kFrameRegionLimit"
    and "sp_raiseRejection S e (mc_world mc) = (Inl x, w)"
  shows "\<exists>mc'. resume_turn S mods run svs value' (Some e) mc = (Inl x, mc') \<and> mc_cursor mc + 54 * length svs \<le> mc_cursor mc'"
proof -
  obtain mc1 where mc1: "restoreFrames S mods svs mc = (Inr (), mc1)" "mc_cursor mc1 = mc_cursor mc + sum_list (map (saved_slots mods) svs)"
      "mc_world mc1 = mc_world mc"
    using restoreFrames_fits [OF assms(1,2), of S] by blast
  have r: "resumeWith S value' (Some e) mc1 = (Inl x, mc1\<lparr>mc_world := w\<rparr>)"
    using assms(3) mc1(3) by (simp add: resumeWith_def outside_def)
  have "resume_turn S mods run svs value' (Some e) mc = (Inl x, mc1\<lparr>mc_world := w\<rparr>)"
    unfolding resume_turn_def using mc1(1) r by simp
  then show ?thesis using mc1(2) saved_slots_sum [OF assms(1)] by auto
qed

lemma rejected_resume_leaks_witness:
  "\<exists>mc'. resume_turn plain_space (\<lambda>_. empty_core) (ret True) [called False empty_core 7 True False [True] 1 0] None (Some True)
       (empty_machine False ()) = (Inl Other_Exception, mc') \<and> 310 \<le> mc_cursor mc'"
proof -
  let ?sv = "called False empty_core 7 True False [True] 1 0"
  have e: "frame_locals empty_core (Suc 0) = 4" "frame_locals empty_core 0 = 4" "computeMaxStack empty_core = 48" by code_simp+
  have "list_all (saved_ok (\<lambda>_. empty_core)) [?sv]" by (simp add: saved_ok_def called_def e)
  from rejected_resume_leaks [OF this, of "empty_machine False ()" plain_space True Other_Exception "()" "ret True" None]
  show ?thesis by (simp add: saved_slots_def called_def e plain_space_def empty_machine_def slot_geometry)
qed

end
