(* ===== verification/EngineOps.thy ===== *)
theory EngineOps
  imports EngineFrames
begin

text \<open>
  src/runtime/ExecutionEngine.cpp, the instructions of \<open>runLoop\<close> that are not
  sends.  An instruction answers \<open>Some r\<close> when the loop returns \<open>r\<close> to its C++
  caller and \<open>None\<close> when it goes on with the next instruction.
\<close>

section \<open>Objects\<close>

text \<open>
  The operations of protoCore and of the rest of the runtime that the engine
  calls.  \<open>ob_small\<close> reads a tagged small integer, \<open>ob_chain\<close> lists an object and
  its first parents, \<open>ob_with\<close> is \<open>setAttribute\<close> on an immutable object (a new
  version), \<open>ob_symbol\<close> an interned symbol as an object and \<open>ob_primitive\<close> a call
  of a registered primitive through \<open>translateNativeException\<close>.
\<close>

record ('v, 'w) objects = "('v, 'w) space" +
  ob_true :: 'v
  ob_false :: 'v
  ob_objectProto :: 'v
  ob_blockProto :: 'v
  ob_unset :: 'v
  ob_nilProto :: 'v
  ob_booleanProto :: 'v
  ob_smallIntegerProto :: 'v
  ob_largeIntegerProto :: 'v
  ob_floatProto :: 'v
  ob_stringProto :: 'v
  ob_characterProto :: 'v
  ob_small :: "'v \<Rightarrow> int option"
  ob_makeSmall :: "int \<Rightarrow> 'v"
  ob_smallInRange :: "int \<Rightarrow> bool"
  ob_isObjectCell :: "'v \<Rightarrow> bool"
  ob_isInteger :: "'v \<Rightarrow> 'w \<Rightarrow> bool"
  ob_isFloat :: "'v \<Rightarrow> 'w \<Rightarrow> bool"
  ob_isBoolean :: "'v \<Rightarrow> 'w \<Rightarrow> bool"
  ob_isCharacter :: "'v \<Rightarrow> 'w \<Rightarrow> bool"
  ob_isSymbol :: "'v \<Rightarrow> 'w \<Rightarrow> bool"
  ob_isMethod :: "'v \<Rightarrow> 'w \<Rightarrow> bool"
  ob_asString :: "'v \<Rightarrow> 'w \<Rightarrow> string option"
  ob_asLong :: "'v \<Rightarrow> 'w \<Rightarrow> int"
  ob_fromLong :: "int \<Rightarrow> 'w \<Rightarrow> 'v \<times> 'w"
  ob_symbol :: "string \<Rightarrow> 'v"
  ob_getAttribute :: "'v \<Rightarrow> string \<Rightarrow> 'w \<Rightarrow> 'v option"
  ob_getOwn :: "'v \<Rightarrow> string \<Rightarrow> 'w \<Rightarrow> 'v option"
  ob_hasOwn :: "'v \<Rightarrow> string \<Rightarrow> 'w \<Rightarrow> bool"
  ob_setAttribute :: "'v \<Rightarrow> string \<Rightarrow> 'v \<Rightarrow> 'w \<Rightarrow> 'w"
  ob_setAttributes :: "'v \<Rightarrow> (string \<times> 'v) list \<Rightarrow> 'w \<Rightarrow> 'w"
  ob_with :: "'v \<Rightarrow> string \<Rightarrow> 'v \<Rightarrow> 'w \<Rightarrow> 'v \<times> 'w"
  ob_chain :: "'v \<Rightarrow> 'w \<Rightarrow> 'v list"
  ob_parents :: "'v \<Rightarrow> 'w \<Rightarrow> 'v list option"
  ob_newChild :: "'v \<Rightarrow> bool \<Rightarrow> 'w \<Rightarrow> 'v \<times> 'w"
  ob_list :: "'v list \<Rightarrow> 'w \<Rightarrow> 'v \<times> 'w"
  ob_array :: "'v list \<Rightarrow> 'w \<Rightarrow> 'v option \<times> 'w"
  ob_materialize :: "core \<Rightarrow> nat \<Rightarrow> 'w \<Rightarrow> 'v \<times> 'w"
  ob_globals :: "'v option"
  ob_isActor :: "'v \<Rightarrow> 'w \<Rightarrow> bool"
  ob_newFuture :: "'w \<Rightarrow> 'v \<times> 'w"
  ob_mailboxPush :: "'v \<Rightarrow> 'v \<Rightarrow> 'w \<Rightarrow> 'w"
  ob_schedule :: "'v \<Rightarrow> 'w \<Rightarrow> 'w"
  ob_primitive :: "int \<Rightarrow> 'v \<Rightarrow> 'v list \<Rightarrow> 'w \<Rightarrow> ('v raised + 'v option) \<times> 'w"
  ob_callMethod :: "'v \<Rightarrow> string \<Rightarrow> 'v list \<Rightarrow> (string \<times> 'v) list \<Rightarrow> 'w \<Rightarrow> ('v raised + 'v option) \<times> 'w"
  ob_canSendForeign :: "'v \<Rightarrow> string \<Rightarrow> 'w \<Rightarrow> bool"
  ob_sendForeign :: "'v \<Rightarrow> string \<Rightarrow> 'v list \<Rightarrow> 'w \<Rightarrow> ('v raised + 'v option) \<times> 'w"
  ob_makeMessage :: "string \<Rightarrow> 'v list \<Rightarrow> 'w \<Rightarrow> 'v \<times> 'w"
  ob_sendDynamic :: "'v \<Rightarrow> string \<Rightarrow> 'v list \<Rightarrow> 'w \<Rightarrow> ('v raised + 'v option) \<times> 'w"
  ob_signalMNU :: "'v \<Rightarrow> 'v \<Rightarrow> string \<Rightarrow> 'w \<Rightarrow> ('v raised + 'v option) \<times> 'w"
  ob_attached :: "'w \<Rightarrow> bool"
  ob_onInstruction :: "nat \<Rightarrow> nat \<Rightarrow> 'w \<Rightarrow> ('v raised + unit) \<times> 'w"
  ob_enterSession :: "string \<Rightarrow> 'w \<Rightarrow> ('v raised + unit) \<times> 'w"
  ob_safepoint :: "'w \<Rightarrow> ('v raised + unit) \<times> 'w"
  ob_currentActor :: "'w \<Rightarrow> 'v option"
  ob_suspendedFrame :: "'v \<Rightarrow> 'w \<Rightarrow> 'v saved_frame list option"
  ob_setSuspendedFrame :: "'v \<Rightarrow> 'v saved_frame list \<Rightarrow> 'w \<Rightarrow> 'w"
  ob_setWaitingOn :: "'v \<Rightarrow> 'v \<Rightarrow> 'w \<Rightarrow> 'w"
  ob_appendWaiter :: "'v \<Rightarrow> 'v \<Rightarrow> 'w \<Rightarrow> bool \<times> 'w"

text \<open>The modules a program runs, and which module is a block of which.\<close>

record prog =
  pr_mods :: "nat \<Rightarrow> core"
  pr_block :: "nat \<Rightarrow> nat \<Rightarrow> nat"

abbreviation code_of_frame :: "prog \<Rightarrow> frame \<Rightarrow> core" where
  "code_of_frame P f \<equiv> pr_mods P (f_m f)"

definition const_symbol :: "core \<Rightarrow> nat \<Rightarrow> string" where
  "const_symbol c i = c_sval (m_consts c ! i)"

definition iv_symbol :: "core \<Rightarrow> nat \<Rightarrow> string" where
  "iv_symbol c i = ''_iv_'' @ const_symbol c i"

definition is_nil :: "('v, 'w) objects \<Rightarrow> 'v option \<Rightarrow> bool" where
  "is_nil B v \<longleftrightarrow> v = None \<or> v = Some (sp_none B)"

text \<open>A call out of the engine that cannot throw, with and without a result.\<close>

definition world :: "('w \<Rightarrow> 'a \<times> 'w) \<Rightarrow> ('v, 'w, 'a) act" where
  "world g mc = (case g (mc_world mc) of (a, w) \<Rightarrow> (Inr a, mc\<lparr>mc_world := w\<rparr>))"

definition change :: "('w \<Rightarrow> 'w) \<Rightarrow> ('v, 'w, unit) act" where
  "change g = world (\<lambda>w. ((), g w))"

definition reading :: "('w \<Rightarrow> 'a) \<Rightarrow> ('v, 'w, 'a) act" where
  "reading g = world (\<lambda>w. (g w, w))"

text \<open>Reads of the top frame and its slots, and a step to the next instruction.\<close>

definition of_top :: "(frame \<Rightarrow> ('v, 'w) machine \<Rightarrow> 'a) \<Rightarrow> ('v, 'w, 'a) act" where
  "of_top g = with_top (\<lambda>f mc. (Inr (g f mc), mc))"

definition upd_top :: "(frame \<Rightarrow> frame) \<Rightarrow> ('v, 'w, unit) act" where
  "upd_top g = with_top (\<lambda>f mc. (Inr (), set_top (g f) mc))"

definition upd_slot :: "(frame \<Rightarrow> nat) \<Rightarrow> 'v \<Rightarrow> ('v, 'w, unit) act" where
  "upd_slot g v = with_top (\<lambda>f mc. (Inr (), set_slot (g f) v mc))"

definition continue :: "('v, 'w, 'a) act \<Rightarrow> ('v, 'w, 'v option) act" where
  "continue m = andThen m (\<lambda>_. ret None)"

section \<open>Locals and constants\<close>

definition checkLocal :: "nat \<Rightarrow> ('v, 'w, unit) act" where
  "checkLocal slot = with_top (\<lambda>f.
     if slot \<ge> f_localCount f then throw (Runtime_Error ''engine local slot out of range'') else ret ())"

definition push_local :: "('v, 'w) objects \<Rightarrow> nat \<Rightarrow> ('v, 'w, unit) act" where
  "push_local B slot = andThen (checkLocal slot) (\<lambda>_. andThen (of_top (\<lambda>f. getLocal f slot)) (push B))"

definition need_value :: "string \<Rightarrow> ('v, 'w, unit) act" where
  "need_value msg = with_top (\<lambda>f. if f_sp f = 0 then throw (Runtime_Error msg) else ret ())"

definition store_local :: "nat \<Rightarrow> ('v, 'w, unit) act" where
  "store_local slot =
     andThen (checkLocal slot) (\<lambda>_. andThen (need_value ''STORE_LOCAL with empty stack'') (\<lambda>_.
     andThen pop (\<lambda>v. upd_slot (\<lambda>f. u32 (localsBase f + slot)) v)))"

section \<open>Returns\<close>

text \<open>The value a frame answers: the top of its stack, or nil.\<close>

definition answer :: "('v, 'w) objects \<Rightarrow> ('v, 'w, 'v) act" where
  "answer B = with_top (\<lambda>f. if f_sp f = 0 then ret (sp_none B) else peek)"

text \<open>Hand \<open>r\<close> to the frame that is now on top, or out of the loop.\<close>

definition deliver :: "('v, 'w) objects \<Rightarrow> 'v \<Rightarrow> ('v, 'w, 'v option) act" where
  "deliver B r mc = (if mc_frames mc = [] then (Inr (Some r), mc) else continue (push B r) mc)"

definition return_top :: "('v, 'w) objects \<Rightarrow> ('v, 'w, 'v option) act" where
  "return_top B = andThen (answer B) (\<lambda>r mc. deliver B r (popFrame mc))"

text \<open>Pop frames until the home frame is gone.\<close>

function pop_to :: "nat \<Rightarrow> ('v, 'w) machine \<Rightarrow> ('v, 'w) machine" where
  "pop_to n mc = (if length (mc_frames mc) > n then pop_to n (popFrame mc) else mc)"
  by auto
termination
  by (relation "measure (\<lambda>(n, mc). length (mc_frames mc))") (auto simp: popFrame_def split: list.split)

declare pop_to.simps [simp del]

text \<open>How many frames are below the newest frame with the given id, if there is one.\<close>

fun home_index :: "nat \<Rightarrow> frame list \<Rightarrow> nat option" where
  "home_index fid [] = None"
| "home_index fid (f # fs) = (if f_frameId f = fid then Some (length fs) else home_index fid fs)"

definition kBlockCannotReturnText :: string where
  "kBlockCannotReturnText =
     ''non-local return: the block'' @ [SQ] @ ''s home method is not active on this thread '' @
     ''(it has returned, or the block runs in another actor or thread)''"

definition return_home :: "('v, 'w) objects \<Rightarrow> ('v, 'w, 'v option) act" where
  "return_home B = andThen (answer B) (\<lambda>r. with_top (\<lambda>f mc.
     if f_homeFrameId f = f_frameId f then deliver B r (popFrame mc)
     else case home_index (f_homeFrameId f) (mc_frames mc) of
            Some n \<Rightarrow> deliver B r (pop_to n mc)
          | None \<Rightarrow>
              if \<not> homeFrameAlive (f_homeFrameId f) mc
              then continue (andThen (outside (sp_signalError B ''BlockCannotReturn'' kBlockCannotReturnText))
                     (\<lambda>res. push B (or_none B res))) mc
              else throw (Non_Local_Return (f_homeFrameId f) r) mc))"

section \<open>Blocks and captured variables\<close>

definition push_block :: "('v, 'w) objects \<Rightarrow> prog \<Rightarrow> nat \<Rightarrow> ('v, 'w, unit) act" where
  "push_block B P arg =
     andThen (world (ob_newChild B (ob_blockProto B) True)) (\<lambda>block.
     andThen (of_top (\<lambda>f mc. (f, getCaptured f mc, getSelf f mc))) (\<lambda>(f, captured, self).
     andThen (world (ob_fromLong B (int (pr_block P (f_m f) arg)))) (\<lambda>bc.
     andThen (change (ob_setAttribute B block ''__bc_ptr__'' bc)) (\<lambda>_.
     andThen (change (ob_setAttribute B block ''__captured__'' captured)) (\<lambda>_.
     andThen (world (ob_fromLong B (int (f_homeFrameId f)))) (\<lambda>home.
     andThen (change (ob_setAttribute B block ''__home_frame__'' home)) (\<lambda>_.
     andThen (change (ob_setAttribute B block ''__block_self__'' self)) (\<lambda>_.
     push B block))))))))"

definition make_captured :: "('v, 'w) objects \<Rightarrow> nat \<Rightarrow> ('v, 'w, unit) act" where
  "make_captured B arg =
     andThen (of_top getCaptured) (\<lambda>inherited.
     let parent = (if arg = 1 \<and> inherited \<noteq> sp_none B then inherited else ob_objectProto B)
     in andThen (world (ob_newChild B parent True)) (\<lambda>dict. upd_slot f_baseSlot dict))"

definition push_captured :: "('v, 'w) objects \<Rightarrow> prog \<Rightarrow> nat \<Rightarrow> ('v, 'w, unit) act" where
  "push_captured B P arg =
     andThen (of_top (\<lambda>f mc. (const_symbol (code_of_frame P f) arg, getCaptured f mc))) (\<lambda>(key, capD).
     andThen (reading (\<lambda>w. if capD = sp_none B then None else ob_getAttribute B capD key w)) (\<lambda>v.
     push B (or_none B v)))"

text \<open>The activation up the chain that binds the name, or the innermost one.\<close>

definition captured_owner :: "('v, 'w) objects \<Rightarrow> 'v \<Rightarrow> string \<Rightarrow> 'w \<Rightarrow> 'v" where
  "captured_owner B capD key w =
     (case find (\<lambda>d. ob_hasOwn B d key w) (takeWhile (\<lambda>d. d \<noteq> sp_none B \<and> d \<noteq> ob_objectProto B) (ob_chain B capD w)) of
        None \<Rightarrow> capD | Some d \<Rightarrow> d)"

definition pop_for_captured :: "('v, 'w) objects \<Rightarrow> prog \<Rightarrow> string \<Rightarrow> nat \<Rightarrow> ('v, 'w, 'v \<times> 'v \<times> string) act" where
  "pop_for_captured B P name arg =
     andThen (need_value (name @ '' with empty stack'')) (\<lambda>_. andThen pop (\<lambda>v.
     andThen (of_top (\<lambda>f mc. (getCaptured f mc, const_symbol (code_of_frame P f) arg))) (\<lambda>(capD, key).
     if capD = sp_none B then throw (Runtime_Error (name @ '' without captured dict'')) else ret (v, capD, key))))"

definition store_captured :: "('v, 'w) objects \<Rightarrow> prog \<Rightarrow> nat \<Rightarrow> ('v, 'w, unit) act" where
  "store_captured B P arg =
     andThen (pop_for_captured B P ''STORE_CAPTURED'' arg) (\<lambda>(v, capD, key).
     change (\<lambda>w. ob_setAttribute B (captured_owner B capD key w) key v w))"

definition define_captured :: "('v, 'w) objects \<Rightarrow> prog \<Rightarrow> nat \<Rightarrow> ('v, 'w, unit) act" where
  "define_captured B P arg =
     andThen (pop_for_captured B P ''DEFINE_CAPTURED'' arg) (\<lambda>(v, capD, key). change (ob_setAttribute B capD key v))"

section \<open>Globals\<close>

definition push_global :: "('v, 'w) objects \<Rightarrow> prog \<Rightarrow> nat \<Rightarrow> ('v, 'w, unit) act" where
  "push_global B P arg =
     andThen (of_top (\<lambda>f _. const_symbol (code_of_frame P f) arg)) (\<lambda>name.
     andThen (reading (\<lambda>w. case ob_globals B of None \<Rightarrow> None | Some g \<Rightarrow> ob_getAttribute B g name w)) (\<lambda>v.
     case v of
       None \<Rightarrow> signalCatchable B (''undefined global: '' @ name)
     | Some x \<Rightarrow> if x = sp_none B then signalCatchable B (''undefined global: '' @ name) else push B x))"

definition store_global :: "('v, 'w) objects \<Rightarrow> prog \<Rightarrow> nat \<Rightarrow> ('v, 'w, unit) act" where
  "store_global B P arg =
     andThen (need_value ''STORE_GLOBAL with empty stack'') (\<lambda>_. andThen pop (\<lambda>v.
     andThen (of_top (\<lambda>f _. const_symbol (code_of_frame P f) arg)) (\<lambda>name.
     case ob_globals B of
       None \<Rightarrow> throw (Runtime_Error ''globals not initialized'')
     | Some g \<Rightarrow> change (ob_setAttribute B g name v))))"

section \<open>Instance and class variables\<close>

definition push_instvar :: "('v, 'w) objects \<Rightarrow> prog \<Rightarrow> bool \<Rightarrow> nat \<Rightarrow> ('v, 'w, unit) act" where
  "push_instvar B P own arg =
     andThen (of_top (\<lambda>f mc. (iv_symbol (code_of_frame P f) arg, getSelf f mc))) (\<lambda>(key, self).
     andThen (reading (\<lambda>w. if self = sp_none B then None
                             else if own then ob_getOwn B self key w else ob_getAttribute B self key w)) (\<lambda>v.
     push B (or_none B v)))"

definition storeInstVar :: "('v, 'w) objects \<Rightarrow> prog \<Rightarrow> nat \<Rightarrow> 'v \<Rightarrow> ('v, 'w, unit) act" where
  "storeInstVar B P nameConst v =
     andThen (of_top (\<lambda>f mc. (iv_symbol (code_of_frame P f) nameConst, getSelf f mc))) (\<lambda>(key, self).
     if self = sp_none B then throw (Runtime_Error ''STORE_INSTVAR self is null'')
     else change (ob_setAttribute B self key v))"

definition store_instvar :: "('v, 'w) objects \<Rightarrow> prog \<Rightarrow> nat \<Rightarrow> ('v, 'w, unit) act" where
  "store_instvar B P arg =
     andThen (need_value ''STORE_INSTVAR empty stack'') (\<lambda>_. andThen pop (storeInstVar B P arg))"

text \<open>The class that declares the variable: the first owner up to \<open>Object\<close>, or self.\<close>

definition classvar_owner :: "('v, 'w) objects \<Rightarrow> 'v \<Rightarrow> string \<Rightarrow> 'w \<Rightarrow> 'v" where
  "classvar_owner B self key w =
     (let ps = takeWhile (\<lambda>d. d \<noteq> sp_none B) (ob_chain B self w);
          upto_object = takeWhile (\<lambda>d. d \<noteq> ob_objectProto B) ps;
          seen = upto_object @ take 1 (drop (length upto_object) ps)
      in case find (\<lambda>d. ob_hasOwn B d key w) seen of None \<Rightarrow> self | Some d \<Rightarrow> d)"

definition store_classvar :: "('v, 'w) objects \<Rightarrow> prog \<Rightarrow> nat \<Rightarrow> ('v, 'w, unit) act" where
  "store_classvar B P arg =
     andThen (need_value ''STORE_CLASSVAR empty stack'') (\<lambda>_. andThen pop (\<lambda>v.
     andThen (of_top (\<lambda>f mc. (iv_symbol (code_of_frame P f) arg, getSelf f mc))) (\<lambda>(key, self).
     if self = sp_none B then throw (Runtime_Error ''STORE_CLASSVAR self is null'')
     else change (\<lambda>w. ob_setAttribute B (classvar_owner B self key w) key v w))))"

section \<open>Write groups\<close>

text \<open>\<open>groupEntries_.at(i)\<close>; past the end is std::out_of_range.\<close>

definition group_entry_at :: "prog \<Rightarrow> nat \<Rightarrow> ('v, 'w, group_entry) act" where
  "group_entry_at P i = with_top (\<lambda>f.
     if i < length (m_groups (code_of_frame P f)) then ret (m_groups (code_of_frame P f) ! i) else throw Other_Exception)"

text \<open>The value of the pending write number \<open>k\<close> of the group in progress.\<close>

definition pending_value :: "nat \<Rightarrow> frame \<Rightarrow> ('v, 'w) machine \<Rightarrow> 'v" where
  "pending_value k f mc = mc_slots mc (u32 (opStackBase f + f_groupBase f + k))"

fun flush_writes :: "('v, 'w) objects \<Rightarrow> prog \<Rightarrow> nat \<Rightarrow> nat list \<Rightarrow> ('v, 'w, unit) act" where
  "flush_writes B P first [] = ret ()"
| "flush_writes B P first (k # ks) =
     andThen (group_entry_at P (first + k)) (\<lambda>e.
     andThen (of_top (pending_value k)) (\<lambda>v.
     andThen (storeInstVar B P (g_name e) v) (\<lambda>_. flush_writes B P first ks)))"

definition flushInstVarGroup :: "('v, 'w) objects \<Rightarrow> prog \<Rightarrow> ('v, 'w, unit) act" where
  "flushInstVarGroup B P =
     andThen (of_top (\<lambda>f _. (f_groupPending f, f_groupFirst f))) (\<lambda>(pending, first).
     andThen (upd_top (\<lambda>f. f\<lparr>f_groupActive := False, f_groupPending := 0\<rparr>)) (\<lambda>_.
     flush_writes B P first [0..<pending]))"

definition ivar_group :: "('v, 'w) objects \<Rightarrow> prog \<Rightarrow> nat \<Rightarrow> ('v, 'w, unit) act" where
  "ivar_group B P arg =
     andThen (need_value ''IVAR_GROUP empty stack'') (\<lambda>_.
     andThen (group_entry_at P arg) (\<lambda>e.
     andThen (of_top (\<lambda>f mc. (getSelf f mc, ob_attached B (mc_world mc)))) (\<lambda>(self, attached).
     andThen (upd_top (\<lambda>f. if g_position e = 0
        then f\<lparr>f_groupActive := (self \<noteq> sp_none B \<and> \<not> attached), f_groupPending := 0, f_groupBase := f_sp f - 1, f_groupFirst := arg\<rparr>
        else f)) (\<lambda>_.
     andThen (of_top (\<lambda>f _. f_groupActive f)) (\<lambda>active.
     if active then upd_top (\<lambda>f. f\<lparr>f_groupPending := (f_groupPending f + 1) mod 2 ^ 16\<rparr>)
     else andThen peek (storeInstVar B P (g_name e)))))))"

definition group_names :: "prog \<Rightarrow> frame \<Rightarrow> nat \<Rightarrow> nat \<Rightarrow> string list" where
  "group_names P f first n =
     map (\<lambda>k. iv_symbol (code_of_frame P f) (g_name (m_groups (code_of_frame P f) ! (first + k)))) [0..<n]"

text \<open>
  The end of a run: the values are the \<open>count\<close> topmost; the arrays of the
  publication have room for 16.
\<close>

definition ivar_group_end :: "('v, 'w) objects \<Rightarrow> prog \<Rightarrow> nat \<Rightarrow> ('v, 'w, unit) act" where
  "ivar_group_end B P arg =
     andThen (group_entry_at P arg) (\<lambda>e.
     andThen (with_top (\<lambda>f. if f_sp f < g_count e then throw (Runtime_Error ''IVAR_GROUP_END stack underflow'') else ret f)) (\<lambda>f.
     andThen
       (if f_groupActive f
        then andThen (upd_top (\<lambda>f. f\<lparr>f_groupActive := False, f_groupPending := 0\<rparr>)) (\<lambda>_.
             if g_count e > 16 then throw Undefined
             else if arg < g_position e \<or> arg - g_position e + g_count e > length (m_groups (code_of_frame P f)) then throw Other_Exception
             else andThen (of_top (\<lambda>f mc. (getSelf f mc, map (\<lambda>k. opAt f (g_count e - 1 - k) mc) [0..<g_count e]))) (\<lambda>(self, vs).
             if self = sp_none B then throw (Runtime_Error ''STORE_INSTVAR self is null'')
             else change (ob_setAttributes B self (zip (group_names P f (arg - g_position e) (g_count e)) vs))))
        else andThen peek (storeInstVar B P (g_name e)))
     (\<lambda>_. andThen pop (\<lambda>last'. andThen (upd_top (\<lambda>f. f\<lparr>f_sp := u32 (f_sp f + 1 + 2 ^ 32 - g_count e)\<rparr>)) (\<lambda>_. push B last')))))"

section \<open>Arrays\<close>

fun pop_n :: "nat \<Rightarrow> ('v, 'w, 'v list) act" where
  "pop_n 0 = ret []"
| "pop_n (Suc n) = andThen pop (\<lambda>v. andThen (pop_n n) (\<lambda>vs. ret (vs @ [v])))"

definition make_array :: "('v, 'w) objects \<Rightarrow> nat \<Rightarrow> ('v, 'w, unit) act" where
  "make_array B arg =
     andThen (with_top (\<lambda>f. if f_sp f < arg then throw (Runtime_Error ''MAKE_ARRAY with insufficient stack'') else ret ())) (\<lambda>_.
     andThen (pop_n arg) (\<lambda>vs.
     andThen (world (ob_array B vs)) (\<lambda>arr. push B (or_none B arr))))"

end
