(* ===== verification/EngineSend.thy ===== *)
theory EngineSend
  imports EngineOps
begin

text \<open>
  src/runtime/ExecutionEngine.cpp, the sends: the arithmetic fast paths, the
  plain, super and call-form sends, messages to actors, calls of blocks, methods
  and primitives, and messages that are not understood; PrimitiveMarker.h and
  \<open>methodHolder\<close> of Bootstrap.cpp.
\<close>

unbundle bit_operations_syntax

section \<open>Small integers\<close>

text \<open>64-bit addition and subtraction; \<open>None\<close> is an overflow.\<close>

definition fits_long :: "int \<Rightarrow> bool" where
  "fits_long n \<longleftrightarrow> - (2 ^ 63) \<le> n \<and> n < 2 ^ 63"

definition addOverflows :: "int \<Rightarrow> int \<Rightarrow> int option" where
  "addOverflows a b =
     (if (b > 0 \<and> a > 2 ^ 63 - 1 - b) \<or> (b < 0 \<and> a < - (2 ^ 63) - b) then None else Some (a + b))"

definition subOverflows :: "int \<Rightarrow> int \<Rightarrow> int option" where
  "subOverflows a b =
     (if (b < 0 \<and> a > 2 ^ 63 - 1 + b) \<or> (b > 0 \<and> a < - (2 ^ 63) + b) then None else Some (a - b))"

definition small_bool :: "('v, 'w) objects \<Rightarrow> bool \<Rightarrow> 'v" where
  "small_bool B b = (if b then ob_true B else ob_false B)"

text \<open>The result of a fast-path operator on two small integers, unless it has to be sent.\<close>

definition int_result :: "('v, 'w) objects \<Rightarrow> op \<Rightarrow> int \<Rightarrow> int \<Rightarrow> 'v option" where
  "int_result B o' a b =
     (let arith = (\<lambda>r. case r of None \<Rightarrow> None | Some n \<Rightarrow> if ob_smallInRange B n then Some (ob_makeSmall B n) else None)
      in if o' = BIN_INT_ADD then arith (addOverflows a b)
         else if o' = BIN_INT_SUB then arith (subOverflows a b)
         else if o' = BIN_INT_LE then Some (small_bool B (a \<le> b))
         else if o' = BIN_INT_LT then Some (small_bool B (a < b))
         else if o' = BIN_INT_GE then Some (small_bool B (a \<ge> b))
         else if o' = BIN_INT_GT then Some (small_bool B (a > b))
         else if o' = BIN_INT_EQ then Some (small_bool B (a = b))
         else None)"

section \<open>Primitive markers\<close>

definition encodePrimitiveMarker :: "int \<Rightarrow> int" where
  "encodePrimitiveMarker index = index OR 2 ^ 62"

definition isPrimitiveMarker :: "int \<Rightarrow> bool" where
  "isPrimitiveMarker v \<longleftrightarrow> v > 0 \<and> v AND 2 ^ 62 \<noteq> 0"

text \<open>The cast to a 32-bit int is written out.\<close>

definition primitiveMarkerIndex :: "int \<Rightarrow> int" where
  "primitiveMarkerIndex marker =
     (let r = (marker AND (2 ^ 62 - 1)) mod 2 ^ 32 in if r < 2 ^ 31 then r else r - 2 ^ 32)"

section \<open>Messages that are not understood\<close>

definition methodHolder :: "('v, 'w) objects \<Rightarrow> 'v \<Rightarrow> 'w \<Rightarrow> 'v" where
  "methodHolder B recv w =
     (if recv = sp_none B then ob_nilProto B
      else if recv = ob_true B \<or> recv = ob_false B then ob_booleanProto B
      else if ob_small B recv \<noteq> None then ob_smallIntegerProto B
      else if ob_isObjectCell B recv then recv
      else if ob_isInteger B recv w then ob_largeIntegerProto B
      else if ob_isFloat B recv w then ob_floatProto B
      else if ob_asString B recv w \<noteq> None then ob_stringProto B
      else if ob_isCharacter B recv w then ob_characterProto B
      else recv)"

text \<open>A string object answers its text; \<open>isString\<close> is whether it has one.\<close>

definition describeReceiverForDNU :: "('v, 'w) objects \<Rightarrow> 'v \<Rightarrow> 'w \<Rightarrow> string" where
  "describeReceiverForDNU B recv w =
     (let text = (\<lambda>v. case v of None \<Rightarrow> None | Some x \<Rightarrow> if x = sp_none B then None else ob_asString B x w)
      in if recv = sp_none B then '' (receiver: nil)''
         else if ob_isInteger B recv w
         then (if ob_small B recv \<noteq> None then '' (receiver class: SmallInteger)'' else '' (receiver class: LargeInteger)'')
         else if ob_asString B recv w \<noteq> None
         then (if ob_isSymbol B recv w then '' (receiver class: Symbol)'' else '' (receiver class: String)'')
         else if ob_isBoolean B recv w then '' (receiver class: Boolean)''
         else if ob_isFloat B recv w then '' (receiver class: Float)''
         else case text (ob_getOwn B recv ''__class_name__'' w) of
                Some s \<Rightarrow> '' (receiver class: '' @ s @ '' class)''
              | None \<Rightarrow>
                  (case text (ob_getAttribute B recv ''__class_name__'' w) of
                     Some s \<Rightarrow> '' (receiver class: '' @ s @ '')''
                   | None \<Rightarrow> '' (receiver class: unknown)''))"

definition doesNotUnderstand :: "('v, 'w) objects \<Rightarrow> 'v \<Rightarrow> string \<Rightarrow> 'v list \<Rightarrow> ('v, 'w, 'v option) act" where
  "doesNotUnderstand B recv selector args =
     andThen (reading (ob_canSendForeign B recv selector)) (\<lambda>foreign.
     if foreign then outside (ob_sendForeign B recv selector args)
     else andThen (world (ob_makeMessage B selector args)) (\<lambda>message.
       andThen (reading (\<lambda>w. (case ob_getAttribute B (methodHolder B recv w) ''doesNotUnderstand:'' w of
                                 None \<Rightarrow> False
                               | Some h \<Rightarrow> h \<noteq> sp_none B \<and> \<not> is_nil B (ob_getOwn B h ''__bc_ptr__'' w)))) (\<lambda>handled.
       if handled then outside (ob_sendDynamic B recv ''doesNotUnderstand:'' [message])
       else andThen (reading (describeReceiverForDNU B recv)) (\<lambda>descr.
         outside (ob_signalMNU B recv message (''doesNotUnderstand: '' @ selector @ descr))))))"

definition dnu :: "('v, 'w) objects \<Rightarrow> 'v \<Rightarrow> string \<Rightarrow> 'v list \<Rightarrow> ('v, 'w, unit) act" where
  "dnu B recv selector args = andThen (doesNotUnderstand B recv selector args) (\<lambda>r. push B (or_none B r))"

section \<open>Calls\<close>

text \<open>A frame for module \<open>sub\<close>, unless the stack is too deep.\<close>

definition enter :: "('v, 'w) objects \<Rightarrow> prog \<Rightarrow> nat \<Rightarrow> 'v \<Rightarrow> 'v option \<Rightarrow> 'v list \<Rightarrow> nat \<Rightarrow> ('v, 'w, unit) act" where
  "enter B P sub self captured args home =
     andThen (signalIfTooDeep B (pr_mods P) sub (length args)) (\<lambda>refused.
     if refused then ret ()
     else andThen (pushFrame B (pr_mods P) sub (Some self) captured (map Some args) home) (\<lambda>_. outside (ob_safepoint B)))"

definition not_nil :: "('v, 'w) objects \<Rightarrow> 'v option \<Rightarrow> 'v option" where
  "not_nil B v = (if is_nil B v then None else v)"

section \<open>Messages to actors\<close>

definition isActorLocalSelector :: "string \<Rightarrow> bool" where
  "isActorLocalSelector s \<longleftrightarrow>
     s \<in> {''=='', ''~~'', ''='', ''~='', ''hash'', ''identityHash'', ''yourself'', ''isNil'', ''notNil'', ''ifNil:'', ''ifNotNil:'',
          ''ifNil:ifNotNil:'', ''ifNotNil:ifNil:'', ''printString'', ''printOn:'', ''displayString'', ''printNl'', ''displayNl'',
          ''isActor'', ''__wrappedObject''}"

definition actor_send :: "('v, 'w) objects \<Rightarrow> 'v \<Rightarrow> string \<Rightarrow> 'v list \<Rightarrow> ('v, 'w, unit) act" where
  "actor_send B recv selector args =
     andThen (world (ob_newFuture B)) (\<lambda>fut.
     andThen (change (ob_setAttribute B fut ''__target_actor__'' recv)) (\<lambda>_.
     andThen (world (ob_newChild B (ob_objectProto B) False)) (\<lambda>msg0.
     andThen (world (ob_list B args)) (\<lambda>argsList.
     andThen (world (ob_with B msg0 ''__selector__'' (ob_symbol B selector))) (\<lambda>msg1.
     andThen (world (ob_with B msg1 ''__args__'' argsList)) (\<lambda>msg2.
     andThen (world (ob_with B msg2 ''__future__'' fut)) (\<lambda>msg.
     andThen (change (ob_mailboxPush B recv msg)) (\<lambda>_.
     andThen (change (ob_schedule B recv)) (\<lambda>_. push B fut)))))))))"

section \<open>Blocks\<close>

definition value_family :: "op \<Rightarrow> string \<Rightarrow> nat \<Rightarrow> bool" where
  "value_family o' sel argc \<longleftrightarrow>
     (o' = SEND_UNARY \<and> sel = ''value'') \<or> (o' = SEND_KEYWORD \<and> sel = concat (replicate argc ''value:''))"

definition block_call :: "('v, 'w) objects \<Rightarrow> prog \<Rightarrow> nat \<Rightarrow> 'v \<Rightarrow> 'v list \<Rightarrow> ('v, 'w, unit) act" where
  "block_call B P sub recv args =
     (let expected = m_argCount (pr_mods P sub)
      in if expected \<noteq> int (length args)
         then signalCatchable B (''block arg count mismatch (expected '' @ show_int expected @ '', got '' @ show_nat (length args) @ '')'')
         else andThen (reading (\<lambda>w. (not_nil B (ob_getOwn B recv ''__captured__'' w),
                  case not_nil B (ob_getOwn B recv ''__home_frame__'' w) of
                    None \<Rightarrow> 0 | Some h \<Rightarrow> nat (ob_asLong B h w mod 2 ^ 64),
                  or_none B (ob_getOwn B recv ''__block_self__'' w)))) (\<lambda>(cap, home, self).
              enter B P sub self cap args home))"

section \<open>Methods\<close>

text \<open>
  The class that defines the running method, by id or by name, searched from the
  receiver depth first and left to right over all parents, in at most 4096 hops.
\<close>

fun defining_class :: "('v, 'w) objects \<Rightarrow> string \<Rightarrow> int \<Rightarrow> 'w \<Rightarrow> nat \<Rightarrow> 'v list \<Rightarrow> 'v option" where
  "defining_class B cls cid w 0 st = None"
| "defining_class B cls cid w (Suc hops) [] = None"
| "defining_class B cls cid w (Suc hops) (node # st) =
     (let found = (if cid \<noteq> 0
                   then (case not_nil B (ob_getOwn B node ''__class_id__'' w) of
                           None \<Rightarrow> False | Some own \<Rightarrow> ob_isInteger B own w \<and> ob_asLong B own w = cid)
                   else (case not_nil B (ob_getOwn B node ''__class_name__'' w) of
                           None \<Rightarrow> False | Some own \<Rightarrow> ob_asString B own w = Some cls))
      in if node = sp_none B then defining_class B cls cid w hops st
         else if found then Some node
         else defining_class B cls cid w hops (case ob_parents B node w of None \<Rightarrow> st | Some ps \<Rightarrow> ps @ st))"

text \<open>The attribute a super send finds.\<close>

definition super_lookup :: "('v, 'w) objects \<Rightarrow> core \<Rightarrow> string \<Rightarrow> 'v \<Rightarrow> ('v, 'w, 'v option) act" where
  "super_lookup B c sel recv =
     (let cls = m_defClass c
      in if cls = [] then signalCatchable B ''super send outside a method body''
         else andThen (reading (\<lambda>w.
                case not_nil B (defining_class B cls (m_classId c) w 4096 [recv]) of
                  Some d \<Rightarrow> Some d
                | None \<Rightarrow> not_nil B (case ob_globals B of None \<Rightarrow> None | Some g \<Rightarrow> ob_getAttribute B g cls w))) (\<lambda>d.
              case d of
                None \<Rightarrow> signalCatchable B (''super: cannot resolve defining class '' @ cls)
              | Some dc \<Rightarrow>
                  andThen (reading (ob_parents B dc)) (\<lambda>ps.
                  if ps = None \<or> ps = Some [] then signalCatchable B (''super: class '' @ cls @ '' has no superclass'')
                  else reading (\<lambda>w.
                    case find (\<lambda>p. p \<noteq> sp_none B \<and> \<not> is_nil B (ob_getAttribute B p sel w)) (the ps) of
                      None \<Rightarrow> None | Some p \<Rightarrow> ob_getAttribute B p sel w))))"

text \<open>A class-side method is hidden from an instance.\<close>

definition visible :: "('v, 'w) objects \<Rightarrow> 'v \<Rightarrow> 'v option \<Rightarrow> 'w \<Rightarrow> 'v option" where
  "visible B recv attr w =
     (case not_nil B attr of
        None \<Rightarrow> None
      | Some a \<Rightarrow>
          if ob_getOwn B a ''__class_side__'' w = Some (ob_true B) \<and> is_nil B (ob_getOwn B recv ''__class_name__'' w)
          then None else Some a)"

definition method_call :: "('v, 'w) objects \<Rightarrow> prog \<Rightarrow> string \<Rightarrow> 'v \<Rightarrow> nat \<Rightarrow> 'v \<Rightarrow> 'v list \<Rightarrow> ('v, 'w, unit) act" where
  "method_call B P sel attr sub recv args =
     (let expected = m_argCount (pr_mods P sub)
      in if expected \<noteq> int (length args) + 1
         then signalCatchable B (''method '' @ sel @ '' expects '' @ show_int (expected - 1) @ '' args, got '' @ show_nat (length args))
         else andThen (reading (\<lambda>w. not_nil B (ob_getOwn B attr ''__captured__'' w))) (\<lambda>cap.
              enter B P sub recv cap (recv # args) 0))"

definition value_attribute :: "('v, 'w) objects \<Rightarrow> string \<Rightarrow> 'v \<Rightarrow> 'v list \<Rightarrow> ('v, 'w, unit) act" where
  "value_attribute B sel attr args =
     (if args = [] then push B attr
      else signalCatchable B (''#'' @ sel @ '': the attribute is a value, not a method; only unary sends read value attributes''))"

definition call_primitive :: "('v, 'w) objects \<Rightarrow> int \<Rightarrow> 'v \<Rightarrow> 'v list \<Rightarrow> ('v, 'w, unit) act" where
  "call_primitive B marker recv args =
     andThen (outside (ob_primitive B (primitiveMarkerIndex marker) recv args)) (\<lambda>r. push B (or_none B r))"

definition method_send :: "('v, 'w) objects \<Rightarrow> prog \<Rightarrow> bool \<Rightarrow> core \<Rightarrow> string \<Rightarrow> 'v \<Rightarrow> 'v list \<Rightarrow> ('v, 'w, unit) act" where
  "method_send B P super' c sel recv args =
     andThen (if super' then super_lookup B c sel recv
              else reading (\<lambda>w. ob_getAttribute B (methodHolder B recv w) sel w)) (\<lambda>found.
     andThen (reading (visible B recv found)) (\<lambda>attr.
     case attr of
       None \<Rightarrow> dnu B recv sel args
     | Some a \<Rightarrow>
         andThen (reading (\<lambda>w. (not_nil B (ob_getOwn B a ''__bc_ptr__'' w), ob_isInteger B a w, ob_asLong B a w))) (\<lambda>(bc, isInt, marker).
         case bc of
           Some b \<Rightarrow> andThen (reading (ob_asLong B b)) (\<lambda>p. method_call B P sel a (nat p) recv args)
         | None \<Rightarrow>
             if isInt \<and> isPrimitiveMarker marker then call_primitive B marker recv args
             else value_attribute B sel a args)))"

section \<open>The send instruction\<close>

definition send_argc :: "op \<Rightarrow> string \<Rightarrow> nat" where
  "send_argc o' sel =
     (if o' = SEND_SUPER then sendArgCount o' sel
      else if o' = SEND_BINARY then 1
      else if o' = SEND_KEYWORD then length (filter (\<lambda>c. c = CHR '':'') sel)
      else 0)"

definition send :: "('v, 'w) objects \<Rightarrow> prog \<Rightarrow> op \<Rightarrow> nat \<Rightarrow> ('v, 'w, unit) act" where
  "send B P o' arg = with_top (\<lambda>f.
     let c = code_of_frame P f; sel = const_symbol c arg; argc = send_argc o' sel
     in if f_sp f < argc + 1 then throw (Runtime_Error ''SEND with insufficient stack'')
        else andThen (pop_n argc) (\<lambda>args. andThen pop (\<lambda>recv.
             andThen (reading (\<lambda>w. (ob_isActor B recv w, not_nil B (ob_getOwn B recv ''__bc_ptr__'' w)))) (\<lambda>(actor, bc).
             if actor \<and> \<not> isActorLocalSelector sel then actor_send B recv sel args
             else case bc of
                    Some b \<Rightarrow>
                      if value_family o' sel argc then andThen (reading (ob_asLong B b)) (\<lambda>p. block_call B P (nat p) recv args)
                      else method_send B P (o' = SEND_SUPER) c sel recv args
                  | None \<Rightarrow> method_send B P (o' = SEND_SUPER) c sel recv args))))"

text \<open>A fast-path operator: the result, or the message after the pending writes of a group.\<close>

definition bin_int :: "('v, 'w) objects \<Rightarrow> prog \<Rightarrow> op \<Rightarrow> nat \<Rightarrow> ('v, 'w, unit) act" where
  "bin_int B P o' arg =
     andThen pop (\<lambda>rhs. andThen pop (\<lambda>lhs.
     case (case (ob_small B lhs, ob_small B rhs) of (Some a, Some b) \<Rightarrow> int_result B o' a b | _ \<Rightarrow> None) of
       Some r \<Rightarrow> push B r
     | None \<Rightarrow>
         andThen (push B lhs) (\<lambda>_. andThen (push B rhs) (\<lambda>_.
         andThen (of_top (\<lambda>f _. f_groupActive f)) (\<lambda>active.
         andThen (if active then flushInstVarGroup B P else ret ()) (\<lambda>_. send B P SEND_BINARY arg))))))"

section \<open>Call-form sends\<close>

text \<open>\<open>std::stoi\<close>; \<open>None\<close> is either of its exceptions.\<close>

definition stoi_text :: "string \<Rightarrow> int option" where
  "stoi_text s =
     (let s1 = dropWhile isspace s;
          (neg, s2) = (case s1 of
                         [] \<Rightarrow> (False, [])
                       | c # cs \<Rightarrow> if c = CHR ''-'' then (True, cs)
                                   else if c = CHR ''+'' then (False, cs) else (False, s1));
          ds = takeWhile isdigit s2;
          v = (if neg then - digits_value 10 ds else digits_value 10 ds)
      in if ds = [] \<or> v < - (2 ^ 31) \<or> v \<ge> 2 ^ 31 then None else Some v)"

fun split_hash :: "string \<Rightarrow> string list" where
  "split_hash [] = [[]]"
| "split_hash (c # cs) = (if c = CHR ''#'' then [] # split_hash cs else (c # hd (split_hash cs)) # tl (split_hash cs))"

record call_descriptor =
  cd_name :: string
  cd_nPos :: int
  cd_keys :: "string list"
  cd_mangled :: string

definition parse_call :: "string \<Rightarrow> string + call_descriptor" where
  "parse_call mangled =
     (case split_hash mangled of
        name # nPos # keys \<Rightarrow>
          (case stoi_text nPos of
             None \<Rightarrow> Inl (''SEND_CALL: malformed call selector '' @ [SQ] @ mangled @ [SQ] @ '' (nPos not an integer)'')
           | Some n \<Rightarrow> Inr \<lparr>cd_name = name, cd_nPos = n, cd_keys = filter (\<lambda>k. k \<noteq> []) keys, cd_mangled = mangled\<rparr>)
      | _ \<Rightarrow> Inl (''SEND_CALL: malformed call selector '' @ [SQ] @ mangled @ [SQ] @ '' (missing nPos delimiter)''))"

fun str_less :: "string \<Rightarrow> string \<Rightarrow> bool" where
  "str_less s [] = False"
| "str_less [] (b # bs) = True"
| "str_less (a # as) (b # bs) = (char_code a < char_code b \<or> a = b \<and> str_less as bs)"

text \<open>
  The named arguments of a call against the declared names: their values in the
  declared order, the first name that is not declared, or a write past the
  array, which has room for \<open>room\<close> more.
\<close>

datatype 'v bound = Bound "'v list" | Foreign string | Overrun

fun cons_bound :: "'v \<Rightarrow> 'v bound \<Rightarrow> 'v bound" where
  "cons_bound v (Bound vs) = Bound (v # vs)"
| "cons_bound v r = r"

fun bind_keys :: "'v \<Rightarrow> nat \<Rightarrow> string list \<Rightarrow> (string \<times> 'v) list \<Rightarrow> 'v bound" where
  "bind_keys unset room [] [] = Bound []"
| "bind_keys unset room [] ((k, v) # cs) = Foreign k"
| "bind_keys unset room (d # ds) [] = (if room = 0 then Overrun else cons_bound unset (bind_keys unset (room - 1) ds []))"
| "bind_keys unset room (d # ds) ((k, v) # cs) =
     (if str_less k d then Foreign k
      else if room = 0 then Overrun
      else if k = d then cons_bound v (bind_keys unset (room - 1) ds cs)
      else cons_bound unset (bind_keys unset (room - 1) ds ((k, v) # cs)))"

definition call_method :: "('v, 'w) objects \<Rightarrow> prog \<Rightarrow> call_descriptor \<Rightarrow> 'v \<Rightarrow> nat \<Rightarrow> 'v \<Rightarrow> 'v list \<Rightarrow> ('v, 'w, unit) act" where
  "call_method B P d attr sub recv args =
     (let c = pr_mods P sub; nPos = nat (cd_nPos d); name = cd_name d
      in if \<not> m_callForm c
         then signalCatchable B (''method '' @ [SQ] @ name @ [SQ] @ '' is not a call-form method; called as '' @ cd_mangled d)
         else if cd_nPos d \<noteq> m_posArity c
         then signalCatchable B (''call-form method '' @ name @ '' expects '' @ show_int (m_posArity c) @ '' positional args, got '' @
                show_int (cd_nPos d))
         else case bind_keys (ob_unset B) (16 - nPos) (m_namedKeys c) (zip (cd_keys d) (drop nPos args)) of
                Overrun \<Rightarrow> throw Undefined
              | Foreign k \<Rightarrow> signalCatchable B (''call-form method '' @ name @ '' does not accept named arg '' @ [SQ] @ k @ [SQ])
              | Bound named \<Rightarrow>
                  andThen (reading (\<lambda>w. not_nil B (ob_getOwn B attr ''__captured__'' w))) (\<lambda>cap.
                  if m_argCount c \<noteq> 1 + m_posArity c + int (length (m_namedKeys c))
                  then throw (Runtime_Error (''internal: call-form module argCount mismatch for '' @ name))
                  else enter B P sub recv cap (recv # take nPos args @ named) 0))"

definition send_call :: "('v, 'w) objects \<Rightarrow> prog \<Rightarrow> nat \<Rightarrow> ('v, 'w, unit) act" where
  "send_call B P arg = with_top (\<lambda>f.
     case parse_call (const_symbol (code_of_frame P f) arg) of
       Inl msg \<Rightarrow> throw (Runtime_Error msg)
     | Inr d \<Rightarrow>
         (let total = cd_nPos d + int (length (cd_keys d))
          in if total > 16 then signalCatchable B (''SEND_CALL: more than 16 args not supported (v1 limit): '' @ cd_mangled d)
             else if int (f_sp f) < total + 1 then throw (Runtime_Error (''SEND_CALL with insufficient stack for '' @ cd_mangled d))
             else andThen (pop_n (nat total)) (\<lambda>args. andThen pop (\<lambda>recv.
                  andThen (reading (\<lambda>w. (ob_isActor B recv w, not_nil B (ob_getAttribute B (methodHolder B recv w) (cd_name d) w)))) (\<lambda>(actor, attr).
                  if actor then signalCatchable B (''call-form send to an actor is not supported in v1: '' @ cd_mangled d)
                  else case attr of
                         None \<Rightarrow> dnu B recv (cd_mangled d) []
                       | Some a \<Rightarrow>
                           andThen (reading (\<lambda>w. (not_nil B (ob_getOwn B a ''__bc_ptr__'' w), ob_isMethod B a w, ob_isInteger B a w, ob_asLong B a w)))
                             (\<lambda>(bc, isMethod, isInt, marker).
                           case bc of
                             Some b \<Rightarrow> andThen (reading (ob_asLong B b)) (\<lambda>p. call_method B P d a (nat p) recv args)
                           | None \<Rightarrow>
                               if isMethod
                               then andThen (outside (ob_callMethod B recv (cd_name d) (take (nat (cd_nPos d)) args)
                                               (zip (cd_keys d) (drop (nat (cd_nPos d)) args)))) (\<lambda>r. push B (or_none B r))
                               else if total = 0 then push B a
                               else if isInt \<and> isPrimitiveMarker marker
                               then (if cd_keys d \<noteq> []
                                     then signalCatchable B (''primitive method '' @ [SQ] @ cd_name d @ [SQ] @ '' does not accept named args in v1'')
                                     else call_primitive B marker recv (take (nat (cd_nPos d)) args))
                               else dnu B recv (cd_mangled d) []))))))"

end
