(* ===== verification/Engine.thy ===== *)
theory Engine
  imports EngineSend
begin

text \<open>
  The dispatch loop of src/runtime/ExecutionEngine.cpp: \<open>runLoop\<close> with its catch
  clauses, \<open>runWithArgs\<close>, and what one instruction may change.
\<close>

section \<open>One instruction\<close>

text \<open>JUMP_BACK subtracts in 64-bit arithmetic.\<close>

definition jump_back :: "nat \<Rightarrow> frame \<Rightarrow> frame" where
  "jump_back arg f = f\<lparr>f_pc := (f_pc f + (2 ^ 64 - arg * kInstrSize mod 2 ^ 64)) mod 2 ^ 64\<rparr>"

definition jump_forward :: "nat \<Rightarrow> frame \<Rightarrow> frame" where
  "jump_forward arg f = f\<lparr>f_pc := (f_pc f + arg * kInstrSize) mod 2 ^ 64\<rparr>"

definition jump_if :: "'v \<Rightarrow> nat \<Rightarrow> ('v, 'w, unit) act" where
  "jump_if b arg = andThen pop (\<lambda>v. if v = b then upd_top (jump_forward arg) else ret ())"

definition assert_bool :: "('v, 'w) objects \<Rightarrow> prog \<Rightarrow> nat \<Rightarrow> ('v, 'w, unit) act" where
  "assert_bool B P arg =
     andThen peek (\<lambda>v.
     if v = ob_true B \<or> v = ob_false B then ret ()
     else andThen (of_top (\<lambda>f _. const_symbol (code_of_frame P f) arg)) (\<lambda>sel.
          andThen pop (\<lambda>bad. dnu B bad sel [])))"

definition exec :: "('v, 'w) objects \<Rightarrow> prog \<Rightarrow> op \<Rightarrow> nat \<Rightarrow> ('v, 'w, 'v option) act" where
  "exec B P o' arg = (case o' of
       PUSH_NIL \<Rightarrow> continue (push B (sp_none B))
     | PUSH_TRUE \<Rightarrow> continue (push B (ob_true B))
     | PUSH_FALSE \<Rightarrow> continue (push B (ob_false B))
     | PUSH_CONST \<Rightarrow> continue (andThen (of_top (\<lambda>f _. code_of_frame P f)) (\<lambda>c. andThen (world (ob_materialize B c arg)) (push B)))
     | DUP \<Rightarrow> continue (andThen peek (push B))
     | POP \<Rightarrow> continue pop
     | PUSH_LOCAL \<Rightarrow> continue (push_local B arg)
     | STORE_LOCAL \<Rightarrow> continue (store_local arg)
     | RETURN_TOP \<Rightarrow> return_top B
     | RETURN \<Rightarrow> return_home B
     | PUSH_BLOCK \<Rightarrow> continue (push_block B P arg)
     | SEND_UNARY \<Rightarrow> continue (send B P SEND_UNARY arg)
     | SEND_BINARY \<Rightarrow> continue (send B P SEND_BINARY arg)
     | SEND_KEYWORD \<Rightarrow> continue (send B P SEND_KEYWORD arg)
     | SEND_SUPER \<Rightarrow> continue (send B P SEND_SUPER arg)
     | SEND_CALL \<Rightarrow> continue (send_call B P arg)
     | JUMP \<Rightarrow> continue (upd_top (jump_forward arg))
     | JUMP_BACK \<Rightarrow> continue (andThen (upd_top (jump_back arg)) (\<lambda>_. outside (ob_safepoint B)))
     | ASSERT_BOOL_OR_DNU \<Rightarrow> continue (assert_bool B P arg)
     | JUMP_IF_TRUE \<Rightarrow> continue (jump_if (ob_true B) arg)
     | JUMP_IF_FALSE \<Rightarrow> continue (jump_if (ob_false B) arg)
     | PUSH_CAPTURED \<Rightarrow> continue (push_captured B P arg)
     | STORE_CAPTURED \<Rightarrow> continue (store_captured B P arg)
     | DEFINE_CAPTURED \<Rightarrow> continue (define_captured B P arg)
     | PUSH_GLOBAL \<Rightarrow> continue (push_global B P arg)
     | STORE_GLOBAL \<Rightarrow> continue (store_global B P arg)
     | PUSH_INSTVAR \<Rightarrow> continue (push_instvar B P False arg)
     | PUSH_OWN_INSTVAR \<Rightarrow> continue (push_instvar B P True arg)
     | STORE_INSTVAR \<Rightarrow> continue (store_instvar B P arg)
     | STORE_CLASSVAR \<Rightarrow> continue (store_classvar B P arg)
     | IVAR_GROUP \<Rightarrow> continue (ivar_group B P arg)
     | IVAR_GROUP_END \<Rightarrow> continue (ivar_group_end B P arg)
     | MAKE_CAPTURED \<Rightarrow> continue (make_captured B arg)
     | MAKE_ARRAY \<Rightarrow> continue (make_array B arg)
     | PUSH_SELF \<Rightarrow> continue (andThen (of_top getSelf) (push B))
     | EXTEND \<Rightarrow> throw (Runtime_Error ''ExecutionEngine: stray EXTEND prefix'')
     | _ \<Rightarrow> continue (bin_int B P o' arg))"

text \<open>Decoding: the operand is collected from the EXTEND words in front.\<close>

definition fetch :: "prog \<Rightarrow> ('v, 'w, 8 word \<times> nat) act" where
  "fetch P = with_top (\<lambda>f.
     let bytes = m_bytes (code_of_frame P f);
         (b, arg, words, rest) = decode_one (bytes ! f_pc f) (unat (bytes ! (f_pc f + 1))) 1 (drop (f_pc f + 2) bytes)
     in andThen (upd_top (\<lambda>f. f\<lparr>f_pc := f_pc f + words * kInstrSize\<rparr>)) (\<lambda>_.
        if b = op_byte EXTEND then throw (Runtime_Error ''ExecutionEngine: truncated EXTEND prefix'') else ret (b, arg)))"

definition run_instruction :: "('v, 'w) objects \<Rightarrow> prog \<Rightarrow> ('v, 'w, 'v option) act" where
  "run_instruction B P mc =
     (case mc_frames mc of
        [] \<Rightarrow> (Inr (Some (sp_none B)), mc)
      | f # fs \<Rightarrow>
          if f_pc f + 1 \<ge> length (m_bytes (code_of_frame P f)) then return_top B mc
          else andThen (if ob_attached B (mc_world mc) then outside (ob_onInstruction B (f_m f) (f_pc f)) else ret ()) (\<lambda>_.
               andThen (fetch P) (\<lambda>(b, arg).
               case op_of b of
                 None \<Rightarrow> throw (Runtime_Error ''ExecutionEngine: unimplemented opcode (threaded dispatch)'')
               | Some o' \<Rightarrow> exec B P o' arg)) mc)"

section \<open>The catch clauses\<close>

text \<open>
  A yield: the frames are saved on the actor, in front of what an inner engine
  saved already; the innermost engine also registers the actor with the future.
\<close>

definition suspend :: "('v, 'w) objects \<Rightarrow> 'v option \<Rightarrow> ('v, 'w, 'a) act" where
  "suspend B fut mc =
     (case ob_currentActor B (mc_world mc) of
        None \<Rightarrow> (Inl (Runtime_Error ''FutureYield outside of actor handler''), mc)
      | Some actor \<Rightarrow>
          (let w = mc_world mc;
               existing = ob_suspendedFrame B actor w;
               mine = snapshotFrames mc;
               w1 = ob_setSuspendedFrame B actor (case existing of None \<Rightarrow> mine | Some e \<Rightarrow> mine @ e) w;
               w2 = (case (existing, fut) of
                       (None, Some y) \<Rightarrow>
                         (let (parked, w') = ob_appendWaiter B y actor (ob_setWaitingOn B actor y w1)
                          in if parked then w' else ob_schedule B actor w')
                     | _ \<Rightarrow> w1)
           in (Inl (Future_Yield fut), mc\<lparr>mc_world := w2, mc_frames := []\<rparr>)))"

definition handle :: "('v, 'w) objects \<Rightarrow> 'v raised \<Rightarrow> ('v, 'w, 'v option) act" where
  "handle B e mc =
     (case e of
        Non_Local_Return home v \<Rightarrow>
          (case home_index home (mc_frames mc) of None \<Rightarrow> (Inl e, mc) | Some n \<Rightarrow> deliver B v (pop_to n mc))
      | Future_Yield fut \<Rightarrow> suspend B fut mc
      | Debugger_Halt reason \<Rightarrow>
          andThen (outside (ob_enterSession B reason))
            (\<lambda>_ mc1. if mc_frames mc1 = [] then (Inr None, mc1) else continue (push B (sp_none B)) mc1) mc
      | _ \<Rightarrow> (Inl e, mc))"

section \<open>The loop\<close>

text \<open>One turn: whether the loop goes on, or how it is left, which rewinds the slot cursor.\<close>

definition loop_step :: "('v, 'w) objects \<Rightarrow> prog \<Rightarrow> ('v, 'w) machine \<Rightarrow> ('v raised + 'v) option \<times> ('v, 'w) machine" where
  "loop_step B P mc =
     (let leave = (\<lambda>r mc'. (Some r, mc'\<lparr>mc_cursor := mc_base mc'\<rparr>));
          after = (\<lambda>(r, mc'). case r of Inr None \<Rightarrow> (None, mc') | Inr (Some v) \<Rightarrow> leave (Inr v) mc' | Inl e \<Rightarrow> leave (Inl e) mc')
      in case run_instruction B P mc of
           (Inl e, mc1) \<Rightarrow> after (handle B e mc1)
         | r \<Rightarrow> after r)"

partial_function (option) loop :: "('v, 'w) objects \<Rightarrow> prog \<Rightarrow> ('v, 'w) machine \<Rightarrow> (('v raised + 'v) \<times> ('v, 'w) machine) option" where
  "loop B P mc = (case loop_step B P mc of (None, mc1) \<Rightarrow> loop B P mc1 | (Some r, mc1) \<Rightarrow> Some (r, mc1))"

declare loop.simps [code]

text \<open>\<open>runLoop\<close>: the first safepoint comes before the cursor is guarded.\<close>

definition runLoop :: "('v, 'w) objects \<Rightarrow> prog \<Rightarrow> ('v, 'w) machine \<Rightarrow> (('v raised + 'v) \<times> ('v, 'w) machine) option" where
  "runLoop B P mc =
     (case outside (ob_safepoint B) mc of (Inl e, mc1) \<Rightarrow> Some (Inl e, mc1) | (Inr _, mc1) \<Rightarrow> loop B P mc1)"

definition kMaxNestedEngines :: nat where
  "kMaxNestedEngines = 1000"

definition runWithArgs :: "('v, 'w) objects \<Rightarrow> prog \<Rightarrow> nat \<Rightarrow> 'v option \<Rightarrow> 'v option list \<Rightarrow> 'v option \<Rightarrow> nat \<Rightarrow>
    ('v, 'w) machine \<Rightarrow> (('v raised + 'v) \<times> ('v, 'w) machine) option" where
  "runWithArgs B P m self args captured home mc =
     (if length (mc_outer mc) + 1 > kMaxNestedEngines
      then Some (Inl (Runtime_Error ''stack depth exceeded (nested block evaluation)''), mc)
      else
        (let mc1 = (ensureEngineSlots kInitialEngineSlots mc)\<lparr>mc_frames := [], mc_base := mc_cursor mc\<rparr>
         in case pushFrame B (pr_mods P) m self captured args home mc1 of
              (Inl e, mc2) \<Rightarrow> Some (Inl e, mc2)
            | (Inr _, mc2) \<Rightarrow> runLoop B P mc2))"

end
