(* ===== verification/EngineInv.thy ===== *)
theory EngineInv
  imports Engine
begin

text \<open>
  What one turn of the dispatch loop may change: the actions that stay in the
  top frame, the calls, the returns, and their composition into instructions.
\<close>

named_theorems local_intros

section \<open>Actions in the top frame\<close>

definition same_frame :: "frame \<Rightarrow> frame \<Rightarrow> bool" where
  "same_frame f g \<longleftrightarrow>
     f_m g = f_m f \<and> f_baseSlot g = f_baseSlot f \<and> f_localCount g = f_localCount f \<and> f_maxStack g = f_maxStack f \<and>
     f_frameId g = f_frameId f \<and> f_homeFrameId g = f_homeFrameId f"

lemma same_frame_refl [simp]: "same_frame f f"
  by (simp add: same_frame_def)

lemma same_frame_trans: "same_frame f g \<Longrightarrow> same_frame g h \<Longrightarrow> same_frame f h"
  by (simp add: same_frame_def)

text \<open>
  From a machine whose top frame is \<open>f0\<close>, the action changes at most that frame's
  position, operand stack, group state and slots; with \<open>still\<close> the depth of the
  operand stack is kept too.
\<close>

definition moves :: "bool \<Rightarrow> ('v, 'w) machine \<Rightarrow> ('v, 'w) machine \<Rightarrow> bool" where
  "moves still mc mc' \<longleftrightarrow>
     (\<exists>f fs g. mc_frames mc = f # fs \<and> mc_frames mc' = g # fs \<and> same_frame f g \<and> f_sp g \<le> f_maxStack g \<and> (still \<longrightarrow> f_sp g = f_sp f) \<and>
        (\<forall>i. i \<notin> region f \<longrightarrow> mc_slots mc' i = mc_slots mc i)) \<and>
     mc_cursor mc' = mc_cursor mc \<and> mc_base mc' = mc_base mc \<and> mc_outer mc' = mc_outer mc \<and> mc_count mc' = mc_count mc \<and>
     mc_nextId mc' = mc_nextId mc \<and> mc_idLimit mc' = mc_idLimit mc \<and> mc_globalId mc' = mc_globalId mc"

definition on_frame :: "(nat \<Rightarrow> core) \<Rightarrow> frame \<Rightarrow> ('v, 'w) machine \<Rightarrow> bool" where
  "on_frame mods f0 mc \<longleftrightarrow> regions_ok mods mc \<and> (\<exists>f fs. mc_frames mc = f # fs \<and> same_frame f0 f)"

definition local_act :: "(nat \<Rightarrow> core) \<Rightarrow> bool \<Rightarrow> frame \<Rightarrow> ('v, 'w, 'a) act \<Rightarrow> bool" where
  "local_act mods still f0 m \<longleftrightarrow> (\<forall>mc. on_frame mods f0 mc \<longrightarrow> moves still mc (snd (m mc)))"

lemma on_frameE:
  assumes "on_frame mods f0 mc"
  obtains f fs where "mc_frames mc = f # fs" "same_frame f0 f" "f_sp f \<le> f_maxStack f"
    "f_baseSlot f + kHeaderSlots + f_localCount f + f_maxStack f \<le> kFrameRegionLimit" "regions_ok mods mc"
    "f_baseSlot f + kHeaderSlots + f_localCount f + f_maxStack f = mc_cursor mc"
  using assms by (force simp: on_frame_def regions_ok_def frame_ok_def)

lemma frame_moves_refl: "on_frame mods f0 mc \<Longrightarrow> moves still mc mc"
  by (erule on_frameE) (auto simp: moves_def)

lemma region_same: "same_frame f g \<Longrightarrow> region g = region f"
  by (simp add: same_frame_def region_def)

lemma frame_moves_trans: "moves s mc mc1 \<Longrightarrow> moves s mc1 mc2 \<Longrightarrow> moves s mc mc2"
  unfolding moves_def by (fastforce simp: region_same elim: same_frame_trans)

lemma moves_weaken: "moves True mc mc1 \<Longrightarrow> moves s mc mc1"
  unfolding moves_def by blast

lemma moves_on_frame:
  assumes "on_frame mods f0 mc" "moves s mc mc1"
  shows "on_frame mods f0 mc1"
proof -
  obtain f fs g where m: "mc_frames mc = f # fs" "mc_frames mc1 = g # fs" "same_frame f g" "f_sp g \<le> f_maxStack g"
      "mc_cursor mc1 = mc_cursor mc" "mc_base mc1 = mc_base mc" "mc_count mc1 = mc_count mc"
    using assms(2) by (auto simp: moves_def)
  have ok: "regions_ok mods mc" "same_frame f0 f" using assms(1) m(1) by (auto simp: on_frame_def)
  have "regions_ok mods mc1" using ok(1) m by (simp add: regions_ok_def frame_ok_def same_frame_def)
  then show ?thesis using m(2,3) ok(2) same_frame_trans by (auto simp: on_frame_def)
qed

lemma local_weaken: "local_act mods True f0 m \<Longrightarrow> local_act mods s f0 m"
  unfolding local_act_def using moves_weaken by blast

lemma local_andThen [local_intros]:
  fixes m :: "('v, 'w, 'a) act"
  assumes "local_act mods s f0 m" "\<And>a. local_act mods s f0 (g a)"
  shows "local_act mods s f0 (andThen m g)"
  unfolding local_act_def
proof (intro allI impI)
  fix mc :: "('v, 'w) machine" assume on: "on_frame mods f0 mc"
  obtain r mc1 where m: "m mc = (r, mc1)" by fastforce
  have 1: "moves s mc mc1" using assms(1) on m by (metis local_act_def snd_conv)
  show "moves s mc (snd (andThen m g mc))"
  proof (cases r)
    case (Inr a)
    then show ?thesis using 1 assms(2) [of a] m moves_on_frame [OF on 1] frame_moves_trans by (fastforce simp: local_act_def)
  qed (use 1 m in simp)
qed

lemma local_ret [local_intros]: "local_act mods s f0 (ret a)" "local_act mods s f0 (throw e)"
  by (auto simp: local_act_def intro: frame_moves_refl)

lemma world_moves: "on_frame mods f0 mc \<Longrightarrow> moves s mc (mc\<lparr>mc_world := w\<rparr>)"
  by (erule on_frameE) (auto simp: moves_def)

lemma local_outside [local_intros]:
  "local_act mods s f0 (outside f)" "local_act mods s f0 (world h)" "local_act mods s f0 (change g)" "local_act mods s f0 (reading k)"
  unfolding local_act_def outside_def change_def reading_def world_def
  by (auto intro: world_moves frame_moves_refl split: prod.split)

lemma local_of_top [local_intros]: "local_act mods s f0 (of_top g)"
  by (auto simp: local_act_def of_top_def with_top_def elim!: on_frameE intro!: frame_moves_refl [of mods f0] simp: on_frame_def)

lemma local_with_topI:
  fixes g :: "frame \<Rightarrow> ('v, 'w, 'a) act"
  assumes "\<And>mc f fs. mc_frames mc = f # fs \<Longrightarrow> same_frame f0 f \<Longrightarrow> f_sp f \<le> f_maxStack f \<Longrightarrow>
    f_baseSlot f + kHeaderSlots + f_localCount f + f_maxStack f \<le> kFrameRegionLimit \<Longrightarrow> on_frame mods f0 mc \<Longrightarrow> moves s mc (snd (g f mc))"
  shows "local_act mods s f0 (with_top g)"
  unfolding local_act_def
proof (intro allI impI)
  fix mc :: "('v, 'w) machine"
  assume on: "on_frame mods f0 mc"
  then obtain f fs where "mc_frames mc = f # fs" "same_frame f0 f" "f_sp f \<le> f_maxStack f"
      "f_baseSlot f + kHeaderSlots + f_localCount f + f_maxStack f \<le> kFrameRegionLimit" by (elim on_frameE)
  then show "moves s mc (snd (with_top g mc))" using assms on by (simp add: with_top_def)
qed

lemma local_with_top [local_intros]:
  assumes "\<And>f. same_frame f0 f \<Longrightarrow> local_act mods s f0 (g f)"
  shows "local_act mods s f0 (with_top g)"
  by (rule local_with_topI) (use assms in \<open>simp add: local_act_def\<close>)

lemma local_if [local_intros]:
  "(b \<Longrightarrow> local_act mods s f0 m) \<Longrightarrow> (\<not> b \<Longrightarrow> local_act mods s f0 n) \<Longrightarrow> local_act mods s f0 (if b then m else n)"
  by simp

lemma local_let [local_intros]: "(\<And>x. local_act mods s f0 (g x)) \<Longrightarrow> local_act mods s f0 (Let a g)"
  by simp

lemma local_option [local_intros]:
  "local_act mods s f0 m \<Longrightarrow> (\<And>x. local_act mods s f0 (g x)) \<Longrightarrow> local_act mods s f0 (case v of None \<Rightarrow> m | Some x \<Rightarrow> g x)"
  by (cases v) simp_all

lemma local_prod [local_intros]: "(\<And>a b. local_act mods s f0 (g a b)) \<Longrightarrow> local_act mods s f0 (case v of (a, b) \<Rightarrow> g a b)"
  by (cases v) simp

lemma local_upd_top:
  assumes "\<And>f. same_frame f0 f \<Longrightarrow> f_sp f \<le> f_maxStack f \<Longrightarrow> same_frame f (g f) \<and> f_sp (g f) \<le> f_maxStack f \<and> (s \<longrightarrow> f_sp (g f) = f_sp f)"
  shows "local_act mods s f0 (upd_top g)"
  unfolding upd_top_def
proof (rule local_with_topI)
  fix mc :: "('a, 'b) machine" and f fs
  assume f: "mc_frames mc = f # fs" "same_frame f0 f" "f_sp f \<le> f_maxStack f"
  then show "moves s mc (snd (Inr (), set_top (g f) mc))"
    using assms [OF f(2,3)] by (auto simp: set_top_def moves_def same_frame_def)
qed

lemma local_upd_slot:
  assumes "\<And>f. same_frame f0 f \<Longrightarrow> f_baseSlot f + kHeaderSlots + f_localCount f + f_maxStack f \<le> kFrameRegionLimit \<Longrightarrow> g f \<in> region f"
  shows "local_act mods s f0 (upd_slot g v)"
  unfolding upd_slot_def
  by (rule local_with_topI) (use assms in \<open>auto simp: set_slot_def moves_def\<close>)

lemma local_signal [local_intros]: "local_act mods s f0 (signalCatchable S msg)"
  unfolding signalCatchable_def by (intro local_intros)

lemma top_slot: "f_sp f < f_maxStack f \<Longrightarrow> f_baseSlot f + kHeaderSlots + f_localCount f + f_maxStack f \<le> kFrameRegionLimit \<Longrightarrow>
    u32 (opStackBase f + f_sp f) \<in> region f"
  by (simp add: region_addresses region_def)

lemma local_push [local_intros]: "local_act mods False f0 (push S v)"
  unfolding push_def
proof (rule local_with_topI)
  fix mc :: "('a, 'b) machine" and f fs
  assume f: "mc_frames mc = f # fs" "same_frame f0 f" "f_sp f \<le> f_maxStack f"
    "f_baseSlot f + kHeaderSlots + f_localCount f + f_maxStack f \<le> kFrameRegionLimit" "on_frame mods f0 mc"
  show "moves False mc (snd ((if f_maxStack f \<le> f_sp f
      then signalCatchable S (''operand stack overflow ('' @ show_nat (f_maxStack f) @ '' slots)'')
      else (\<lambda>mc. (Inr (), set_top (f\<lparr>f_sp := f_sp f + 1\<rparr>) (set_slot (u32 (opStackBase f + f_sp f)) v mc)))) mc))"
  proof (cases "f_maxStack f \<le> f_sp f")
    case True
    then show ?thesis using local_signal [unfolded local_act_def, rule_format, OF f(5)] by simp
  next
    case False
    then show ?thesis using f(1) top_slot [OF _ f(4)] by (auto simp: set_top_def set_slot_def moves_def same_frame_def)
  qed
qed

lemma local_pop [local_intros]: "local_act mods False f0 pop"
  unfolding pop_def by (rule local_with_topI) (auto simp: set_top_def moves_def same_frame_def)

lemma local_peek [local_intros]: "local_act mods s f0 peek"
  unfolding peek_def by (rule local_with_topI) (auto intro: frame_moves_refl)

lemma local_pop_n [local_intros]: "local_act mods False f0 (pop_n n)"
  by (induction n) (simp_all only: pop_n.simps, (intro local_intros | assumption)+)

section \<open>Instructions of one frame\<close>

lemma local_need [local_intros]: "local_act mods s f0 (need_value msg)"
  unfolding need_value_def by (intro local_intros)

lemma local_flags: "local_act mods s f0 (upd_top (\<lambda>f. f\<lparr>f_groupActive := False, f_groupPending := 0\<rparr>))"
  by (rule local_upd_top) (simp add: same_frame_def)

lemma local_local_slot: "i < f_localCount f0 \<Longrightarrow> local_act mods s f0 (upd_slot (\<lambda>f. u32 (localsBase f + i)) v)"
  by (rule local_upd_slot) (simp add: same_frame_def region_addresses region_def)

lemma local_check [local_intros]:
  fixes g :: "unit \<Rightarrow> ('v, 'w, 'a) act"
  assumes "i < f_localCount f0 \<Longrightarrow> local_act mods s f0 (g ())"
  shows "local_act mods s f0 (andThen (checkLocal i) g)"
proof (cases "i < f_localCount f0")
  case True
  then show ?thesis unfolding checkLocal_def using assms by (intro local_intros) simp_all
next
  case False
  show ?thesis
    unfolding local_act_def
  proof (intro allI impI)
    fix mc :: "('v, 'w) machine"
    assume on: "on_frame mods f0 mc"
    then obtain f fs where "mc_frames mc = f # fs" "same_frame f0 f" by (elim on_frameE)
    then have "andThen (checkLocal i) g mc = (Inl (Runtime_Error ''engine local slot out of range''), mc)"
      using False by (simp add: checkLocal_def with_top_def andThen_def same_frame_def)
    then show "moves s mc (snd (andThen (checkLocal i) g mc))" using frame_moves_refl [OF on] by simp
  qed
qed

lemma local_locals [local_intros]: "local_act mods False f0 (push_local B i)" "local_act mods False f0 (store_local i)"
  unfolding push_local_def store_local_def by (intro local_check local_intros local_local_slot | assumption)+

lemma local_storeInstVar [local_intros]: "local_act mods s f0 (storeInstVar B P n v)"
  unfolding storeInstVar_def by (intro local_intros)

lemma local_group_entry [local_intros]: "local_act mods s f0 (group_entry_at P i)"
  unfolding group_entry_at_def by (intro local_intros)

lemma local_flush_writes [local_intros]: "local_act mods s f0 (flush_writes B P first ks)"
  by (induction ks) (simp_all only: flush_writes.simps, (intro local_intros | assumption)+)

lemma local_flush [local_intros]: "local_act mods s f0 (flushInstVarGroup B P)"
  unfolding flushInstVarGroup_def by (intro local_intros local_flags)

lemma local_variables [local_intros]:
  "local_act mods False f0 (push_block B P arg)" "local_act mods False f0 (push_captured B P arg)"
  "local_act mods False f0 (store_captured B P arg)" "local_act mods False f0 (define_captured B P arg)"
  "local_act mods False f0 (push_global B P arg)" "local_act mods False f0 (store_global B P arg)"
  "local_act mods False f0 (push_instvar B P own arg)" "local_act mods False f0 (store_instvar B P arg)"
  "local_act mods False f0 (store_classvar B P arg)" "local_act mods False f0 (make_array B arg)"
  unfolding push_block_def push_captured_def store_captured_def define_captured_def pop_for_captured_def push_global_def
    store_global_def push_instvar_def store_instvar_def store_classvar_def make_array_def
  by (intro local_intros)+

lemma local_make_captured [local_intros]: "local_act mods s f0 (make_captured B arg)"
  unfolding make_captured_def by (intro local_intros local_upd_slot) (simp add: region_def)

lemma local_ivar_group [local_intros]: "local_act mods s f0 (ivar_group B P arg)"
  unfolding ivar_group_def by (intro local_intros local_upd_top) (auto simp: same_frame_def)

text \<open>The end of a group cuts the operand stack; the check before it and the writes keep its depth.\<close>

lemma local_cut:
  fixes mid :: "frame \<Rightarrow> ('v, 'w, unit) act"
  assumes "\<And>f. local_act mods True f0 (mid f)"
  shows "local_act mods False f0 (andThen (with_top (\<lambda>f. if f_sp f < n then throw e else ret f)) (\<lambda>f.
    andThen (mid f) (\<lambda>_. andThen pop (\<lambda>v. andThen (upd_top (\<lambda>f. f\<lparr>f_sp := u32 (f_sp f + 1 + 2 ^ 32 - n)\<rparr>)) (\<lambda>_. push S v)))))"
  unfolding local_act_def
proof (intro allI impI)
  fix mc :: "('v, 'w) machine"
  assume on: "on_frame mods f0 mc"
  then obtain f fs where f: "mc_frames mc = f # fs" by (elim on_frameE)
  let ?rest = "\<lambda>_. andThen pop (\<lambda>v. andThen (upd_top (\<lambda>f. f\<lparr>f_sp := u32 (f_sp f + 1 + 2 ^ 32 - n)\<rparr>)) (\<lambda>_. push S v))"
  show "moves False mc (snd (andThen (with_top (\<lambda>f. if f_sp f < n then throw e else ret f)) (\<lambda>f. andThen (mid f) ?rest) mc))"
  proof (cases "f_sp f < n")
    case True
    then show ?thesis using frame_moves_refl [OF on] by (simp add: f with_top_def andThen_def)
  next
    case False
    obtain r mc1 where m: "mid f mc = (r, mc1)" by fastforce
    have 1: "moves True mc mc1" using assms [of f] on m by (metis local_act_def snd_conv)
    then obtain g where g: "mc_frames mc1 = g # fs" "f_sp g = f_sp f" using f by (auto simp: moves_def)
    have on1: "on_frame mods f0 mc1" using moves_on_frame [OF on 1] .
    have le: "f_sp g \<le> f_maxStack g" "f_maxStack g < 2 ^ 20 + 1" using on1 g(1) by (auto elim!: on_frameE simp: slot_geometry)
    let ?g = "g\<lparr>f_sp := f_sp g - 1\<rparr>"
    have "moves False mc1 (snd (?rest () mc1))"
    proof (cases "f_sp g = 0")
      case True
      then show ?thesis using frame_moves_refl [OF on1] by (simp add: pop_def with_top_def g(1) andThen_def)
    next
      case pos: False
      define v where "v = mc_slots mc1 (u32 (opStackBase g + f_sp g - 1))"
      define mc2 where "mc2 = set_top ?g mc1"
      define mc3 where "mc3 = set_top (g\<lparr>f_sp := f_sp g - n\<rparr>) mc1"
      have p: "pop mc1 = (Inr v, mc2)" using pos g(1) by (simp add: pop_def with_top_def v_def mc2_def)
      have "f_sp g - 1 + 1 + 2 ^ 32 - n = (f_sp g - n) + 2 ^ 32" using False g(2) pos by simp
      moreover have "f_sp g - n < 2 ^ 32" using le by simp
      ultimately have "u32 (f_sp g - 1 + 1 + 2 ^ 32 - n) = f_sp g - n" by (simp add: u32_def)
      then have u: "upd_top (\<lambda>f. f\<lparr>f_sp := u32 (f_sp f + 1 + 2 ^ 32 - n)\<rparr>) mc2 = (Inr (), mc3)"
        using g(1) by (simp add: upd_top_def with_top_def mc2_def mc3_def set_top_def)
      have 3: "moves False mc1 mc3" using g(1) le by (auto simp: moves_def mc3_def set_top_def same_frame_def)
      have "snd (?rest () mc1) = snd (push S v mc3)" using p u by simp
      moreover have "moves False mc3 (snd (push S v mc3))"
        using local_push [of mods f0 S v] moves_on_frame [OF on1 3] by (auto simp: local_act_def)
      ultimately show ?thesis using frame_moves_trans [OF 3] by simp
    qed
    then have "moves False mc (snd (andThen (mid f) ?rest mc))"
      using frame_moves_trans [OF moves_weaken [OF 1]] moves_weaken [OF 1] m by (cases r) (auto simp: andThen_def)
    then show ?thesis using False by (simp add: f with_top_def andThen_def [of "\<lambda>mc. case mc_frames mc of [] \<Rightarrow> _ mc | _ # _ \<Rightarrow> _ mc"])
  qed
qed

lemma local_ivar_group_end [local_intros]: "local_act mods False f0 (ivar_group_end B P arg)"
  unfolding ivar_group_end_def by (intro local_cut local_intros local_flags local_andThen [of _ False])

section \<open>Turns of the loop\<close>

text \<open>
  A turn keeps the regions packed and the ids fresh, and changes the values of no
  frame below the top one -- the top one before or after it, whichever is deeper
  in the stack.
\<close>

definition turn :: "(nat \<Rightarrow> core) \<Rightarrow> ('v, 'w) machine \<Rightarrow> ('v, 'w) machine \<Rightarrow> bool" where
  "turn mods mc mc' \<longleftrightarrow>
     regions_ok mods mc' \<and> ids_ok mc' \<and> mc_base mc' = mc_base mc \<and> mc_outer mc' = mc_outer mc \<and>
     (let n = min (length (mc_frames mc)) (length (mc_frames mc')) - 1 in take n (snapshotFrames mc') = take n (snapshotFrames mc))"

definition turn_act :: "(nat \<Rightarrow> core) \<Rightarrow> frame \<Rightarrow> ('v, 'w, 'a) act \<Rightarrow> bool" where
  "turn_act mods f0 m \<longleftrightarrow> (\<forall>mc. on_frame mods f0 mc \<longrightarrow> ids_ok mc \<longrightarrow> turn mods mc (snd (m mc)))"

named_theorems turn_intros

lemma snapshot_length: "length (snapshotFrames mc) = length (mc_frames mc)"
  by (simp add: snapshotFrames_def)

lemma saved_of_slots_only: "mc_slots mc' = mc_slots mc \<Longrightarrow> saved_of mc' = saved_of mc"
  by (rule ext) (simp add: saved_of_def getLocal_def getSelf_def getCaptured_def)

lemma moves_ids: "moves s mc mc' \<Longrightarrow> ids_ok mc' = ids_ok mc"
  by (simp add: moves_def ids_ok_def)

lemma moves_length: "moves s mc mc' \<Longrightarrow> length (mc_frames mc') = length (mc_frames mc)"
  by (auto simp: moves_def)

lemma moves_below:
  assumes "on_frame mods f0 mc" "moves s mc mc'"
  shows "take (length (mc_frames mc) - 1) (snapshotFrames mc') = take (length (mc_frames mc) - 1) (snapshotFrames mc)"
proof -
  obtain f fs g where m: "mc_frames mc = f # fs" "mc_frames mc' = g # fs" "\<And>i. i \<notin> region f \<Longrightarrow> mc_slots mc' i = mc_slots mc i"
    using assms(2) by (auto simp: moves_def)
  have ok: "regions_ok mods mc" using assms(1) by (simp add: on_frame_def)
  have eq: "map (saved_of mc') fs = map (saved_of mc) fs"
  proof (rule packed_snapshot_cong)
    show "packed (mc_base mc) fs (f_baseSlot f)" "f_baseSlot f \<le> kFrameRegionLimit" "list_all (frame_ok mods) fs"
      using ok m(1) by (simp_all add: regions_ok_def)
  qed (use m(3) in \<open>simp add: region_def\<close>)
  then have "map (saved_of mc') (rev fs) = map (saved_of mc) (rev fs)" by simp
  then show ?thesis using m(1,2) by (simp add: snapshotFrames_def)
qed

lemma take_shorter: "take k xs = take k ys \<Longrightarrow> n \<le> k \<Longrightarrow> take n xs = take n ys"
  by (metis min.absorb1 take_take)

lemma world_only [simp]:
  "regions_ok mods (mc\<lparr>mc_world := w\<rparr>) = regions_ok mods mc" "ids_ok (mc\<lparr>mc_world := w\<rparr>) = ids_ok mc"
  "snapshotFrames (mc\<lparr>mc_world := w\<rparr>) = snapshotFrames mc"
  by (simp_all add: regions_ok_def ids_ok_def snapshotFrames_def saved_of_slots_only [of "mc\<lparr>mc_world := w\<rparr>" mc])

lemma moves_turn:
  assumes "on_frame mods f0 mc" "ids_ok mc" "moves s mc mc'"
  shows "turn mods mc mc'"
  using moves_below [OF assms(1,3)] moves_on_frame [OF assms(1,3)] moves_ids [OF assms(3)] moves_length [OF assms(3)] assms(2,3)
  by (simp add: turn_def on_frame_def) (auto simp: moves_def)

lemma moves_then_turn:
  assumes "on_frame mods f0 mc" "moves s mc mc1" "turn mods mc1 mc2"
  shows "turn mods mc mc2"
proof -
  let ?n = "min (length (mc_frames mc)) (length (mc_frames mc2)) - 1"
  have l: "length (mc_frames mc1) = length (mc_frames mc)" using assms(2) by (rule moves_length)
  have "take ?n (snapshotFrames mc1) = take ?n (snapshotFrames mc)" using moves_below [OF assms(1,2)] by (rule take_shorter) simp
  moreover have "mc_base mc1 = mc_base mc" "mc_outer mc1 = mc_outer mc" using assms(2) by (auto simp: moves_def)
  ultimately show ?thesis using assms(3) l by (simp add: turn_def Let_def)
qed

lemma turn_trans:
  assumes "turn mods mc mc1" "turn mods mc1 mc2" "length (mc_frames mc2) \<le> length (mc_frames mc1)"
  shows "turn mods mc mc2"
proof -
  let ?n = "min (length (mc_frames mc)) (length (mc_frames mc2)) - 1"
  let ?k = "min (length (mc_frames mc)) (length (mc_frames mc1)) - 1" and ?k2 = "length (mc_frames mc2) - 1"
  have "take ?n (snapshotFrames mc2) = take ?n (snapshotFrames mc1)"
    by (rule take_shorter [of ?k2]) (use assms(2,3) in \<open>simp_all add: turn_def Let_def min_absorb2\<close>)
  also have "\<dots> = take ?n (snapshotFrames mc)"
    by (rule take_shorter [of ?k]) (use assms(1,3) in \<open>auto simp: turn_def Let_def\<close>)
  finally show ?thesis using assms(1,2) by (simp add: turn_def Let_def)
qed

lemma turn_world: "turn mods mc mc' \<Longrightarrow> turn mods mc (mc'\<lparr>mc_world := w\<rparr>)"
  by (simp add: turn_def)

lemma turn_local: "local_act mods s f0 m \<Longrightarrow> turn_act mods f0 m"
  unfolding turn_act_def local_act_def using moves_turn by blast

lemma turn_andThen [turn_intros]:
  fixes m :: "('v, 'w, 'a) act"
  assumes "local_act mods False f0 m" "\<And>a. turn_act mods f0 (g a)"
  shows "turn_act mods f0 (andThen m g)"
  unfolding turn_act_def
proof (intro allI impI)
  fix mc :: "('v, 'w) machine" assume on: "on_frame mods f0 mc" and ids: "ids_ok mc"
  obtain r mc1 where m: "m mc = (r, mc1)" by fastforce
  have 1: "moves False mc mc1" using assms(1) on m by (metis local_act_def snd_conv)
  show "turn mods mc (snd (andThen m g mc))"
  proof (cases r)
    case (Inl e)
    then show ?thesis using moves_turn [OF on ids 1] m by simp
  next
    case (Inr a)
    have "turn mods mc1 (snd (g a mc1))"
      using assms(2) [of a] moves_on_frame [OF on 1] moves_ids [OF 1] ids by (simp add: turn_act_def)
    then show ?thesis using moves_then_turn [OF on 1] m Inr by simp
  qed
qed

lemma turn_then_ret: "turn_act mods f0 m \<Longrightarrow> turn_act mods f0 (andThen m (\<lambda>_. ret a))"
  unfolding turn_act_def andThen_def by (auto split: prod.split sum.split)

lemma turn_continue [turn_intros]: "turn_act mods f0 m \<Longrightarrow> turn_act mods f0 (continue m)"
  unfolding continue_def by (rule turn_then_ret)

lemma turn_if [turn_intros]:
  "(b \<Longrightarrow> turn_act mods f0 m) \<Longrightarrow> (\<not> b \<Longrightarrow> turn_act mods f0 n) \<Longrightarrow> turn_act mods f0 (if b then m else n)"
  by simp

lemma turn_let [turn_intros]: "(\<And>x. turn_act mods f0 (g x)) \<Longrightarrow> turn_act mods f0 (Let a g)"
  by simp

lemma turn_option [turn_intros]:
  "turn_act mods f0 m \<Longrightarrow> (\<And>x. turn_act mods f0 (g x)) \<Longrightarrow> turn_act mods f0 (case v of None \<Rightarrow> m | Some x \<Rightarrow> g x)"
  by (cases v) simp_all

lemma turn_prod [turn_intros]: "(\<And>a b. turn_act mods f0 (g a b)) \<Longrightarrow> turn_act mods f0 (case v of (a, b) \<Rightarrow> g a b)"
  by (cases v) simp

lemma turn_with_top [turn_intros]:
  assumes "\<And>f. same_frame f0 f \<Longrightarrow> turn_act mods f0 (g f)"
  shows "turn_act mods f0 (with_top g)"
  using assms unfolding turn_act_def on_frame_def with_top_def by auto

section \<open>Calls and sends\<close>

text \<open>No module needs more than half of the 32-bit slot numbers for its frame.\<close>

definition sized :: "prog \<Rightarrow> bool" where
  "sized P \<longleftrightarrow> (\<forall>m. call_slots (pr_mods P m) (nat (m_argCount (pr_mods P m)) + 17) < 2 ^ 31)"

lemma call_slots_mono: "n \<le> k \<Longrightarrow> call_slots c n \<le> call_slots c k"
  by (auto simp: call_slots_def frame_locals_def computeLocalCount_def Let_def split: option.split)

lemma turn_pushed:
  assumes ok: "regions_ok mods mc" "ids_ok mc" and fit: "mc_cursor mc + call_slots (mods m) (length args) \<le> kFrameRegionLimit"
  shows "fst (pushFrame B mods m self cap args home mc) = Inr () \<and> turn mods mc (snd (pushFrame B mods m self cap args home mc))"
proof -
  obtain mc' fid where "pushFrame B mods m self cap args home mc = (Inr (), mc')" "regions_ok mods mc'" "ids_ok mc'"
      "mc_outer mc' = mc_outer mc" "mc_base mc' = mc_base mc"
      "snapshotFrames mc' = snapshotFrames mc @ [called (sp_none B) (mods m) m (or_none B self) (or_none B cap) (map (or_none B) args) fid home]"
    using pushFrame_fits [OF ok fit, of B self cap home] by blast
  then show ?thesis using snapshot_length [of mc] by (simp add: turn_def Let_def)
qed

lemma turn_enter [turn_intros]:
  fixes B :: "('v, 'w) objects"
  assumes "sized P" "length args \<le> nat (m_argCount (pr_mods P sub)) + 17"
  shows "turn_act (pr_mods P) f0 (enter B P sub self cap args home)"
  unfolding turn_act_def
proof (intro allI impI)
  fix mc :: "('v, 'w) machine" assume on: "on_frame (pr_mods P) f0 mc" and ids: "ids_ok mc"
  have ok: "regions_ok (pr_mods P) mc" using on by (simp add: on_frame_def)
  let ?need = "call_slots (pr_mods P sub) (length args)"
  have "?need < 2 ^ 31" using assms(1) call_slots_mono [OF assms(2), of "pr_mods P sub"] unfolding sized_def by (meson le_less_trans)
  then have u: "u32 (mc_cursor mc + ?need) = mc_cursor mc + ?need"
    using ok by (intro u32_small) (simp add: regions_ok_def slot_geometry)
  have "local_act (pr_mods P) False f0 (andThen (outside (sp_signalError B ''Error''
        (''stack depth exceeded ('' @ show_nat (length (mc_frames mc)) @ '' frames in this activation chain)'')))
     (\<lambda>r. andThen (push B (or_none B r)) (\<lambda>_. ret True)))" (is "local_act _ _ _ ?refuse") by (intro local_intros)
  then have refuse: "turn (pr_mods P) mc (snd (?refuse mc))" using moves_turn [OF on ids] on by (auto simp: local_act_def)
  show "turn (pr_mods P) mc (snd (enter B P sub self cap args home mc))"
  proof (cases "mc_cursor mc + ?need \<le> kFrameRegionLimit - kOverflowReserve")
    case True
    then have "mc_cursor mc + call_slots (pr_mods P sub) (length (map Some args)) \<le> kFrameRegionLimit" by simp
    from turn_pushed [OF ok ids this, of B "Some self" cap home] obtain mc1 where
      "pushFrame B (pr_mods P) sub (Some self) cap (map Some args) home mc = (Inr (), mc1)" "turn (pr_mods P) mc mc1"
      by (metis prod.collapse)
    then show ?thesis
      using True u by (auto simp: enter_def signalIfTooDeep_def call_slots_def add.assoc andThen_def outside_def turn_world split: prod.split)
  next
    case False
    then have "signalIfTooDeep B (pr_mods P) sub (length args) mc = ?refuse mc"
      using u by (simp add: signalIfTooDeep_def call_slots_def add.assoc)
    then have "snd (enter B P sub self cap args home mc) = snd (?refuse mc)"
      by (auto simp: enter_def andThen_def split: prod.split sum.split)
    then show ?thesis using refuse by simp
  qed
qed

lemma local_dnu [local_intros]: "local_act mods s f0 (doesNotUnderstand B recv sel args)" "local_act mods False f0 (dnu B recv sel args)"
  unfolding dnu_def doesNotUnderstand_def by (intro local_intros)+

lemma local_sends [local_intros]:
  "local_act mods False f0 (actor_send B recv sel args)" "local_act mods s f0 (super_lookup B c sel recv)"
  "local_act mods False f0 (value_attribute B sel attr args)" "local_act mods False f0 (call_primitive B marker recv args)"
  unfolding actor_send_def super_lookup_def value_attribute_def call_primitive_def by (intro local_intros)+

lemmas turn_stays = turn_local [where s = False]

lemma turn_block_call [turn_intros]: "sized P \<Longrightarrow> turn_act (pr_mods P) f0 (block_call B P sub recv args)"
  unfolding block_call_def Let_def
  by (intro turn_intros local_intros turn_stays [OF local_signal]) simp_all

lemma turn_method_call [turn_intros]: "sized P \<Longrightarrow> turn_act (pr_mods P) f0 (method_call B P sel attr sub recv args)"
  unfolding method_call_def Let_def
  by (intro turn_intros local_intros turn_stays [OF local_signal]) simp_all

lemma turn_method_send [turn_intros]: "sized P \<Longrightarrow> turn_act (pr_mods P) f0 (method_send B P super' c sel recv args)"
  unfolding method_send_def
  by (intro turn_intros local_intros turn_stays [OF local_dnu(2)] turn_stays [OF local_sends(3)] turn_stays [OF local_sends(4)])

lemma turn_send [turn_intros]: "sized P \<Longrightarrow> turn_act (pr_mods P) f0 (send B P o' arg)"
  unfolding send_def
  by (intro turn_intros local_intros turn_stays [OF local_ret(2)] turn_stays [OF local_sends(1)])

lemma turn_bin_int [turn_intros]: "sized P \<Longrightarrow> turn_act (pr_mods P) f0 (bin_int B P o' arg)"
  unfolding bin_int_def by (intro turn_intros local_intros turn_stays [OF local_push])

lemma bind_keys_length: "bind_keys unset room ds cs = Bound vs \<Longrightarrow> length vs = length ds \<and> length ds \<le> room"
proof (induction unset room ds cs arbitrary: vs rule: bind_keys.induct)
  case (3 unset room d ds)
  then show ?case by (cases "bind_keys unset (room - 1) ds []") (auto split: if_splits)
next
  case (4 unset room d ds k v cs)
  then show ?case
    by (cases "bind_keys unset (room - 1) ds cs"; cases "bind_keys unset (room - 1) ds ((k, v) # cs)") (auto split: if_splits)
qed simp_all

lemma turn_bound [turn_intros]:
  "turn_act mods f0 m \<Longrightarrow> (\<And>k. turn_act mods f0 (g k)) \<Longrightarrow> (\<And>vs. r = Bound vs \<Longrightarrow> turn_act mods f0 (h vs)) \<Longrightarrow>
   turn_act mods f0 (case r of Overrun \<Rightarrow> m | Foreign k \<Rightarrow> g k | Bound vs \<Rightarrow> h vs)"
  by (cases r) simp_all

lemma turn_call_method [turn_intros]:
  assumes "sized P" "cd_nPos d \<le> 16"
  shows "turn_act (pr_mods P) f0 (call_method B P d attr sub recv args)"
proof -
  have "length (recv # take (nat (cd_nPos d)) args @ vs) \<le> nat k + 17"
    if "bind_keys (ob_unset B) (16 - nat (cd_nPos d)) ds cs = Bound vs" for vs ds cs k
  proof -
    have "length vs \<le> 16 - nat (cd_nPos d)" "nat (cd_nPos d) \<le> 16" using bind_keys_length [OF that] assms(2) by simp_all
    moreover have "length (take (nat (cd_nPos d)) args) \<le> nat (cd_nPos d)" by simp
    ultimately show ?thesis by (simp only: length_Cons length_append)
  qed
  then show ?thesis
    unfolding call_method_def Let_def
    by (intro turn_intros local_intros turn_stays [OF local_signal] turn_stays [OF local_ret(2)] assms(1))
qed

lemma turn_sum [turn_intros]:
  "(\<And>e. turn_act mods f0 (g e)) \<Longrightarrow> (\<And>x. turn_act mods f0 (h x)) \<Longrightarrow> turn_act mods f0 (case r of Inl e \<Rightarrow> g e | Inr x \<Rightarrow> h x)"
  by (cases r) simp_all

lemma turn_send_call [turn_intros]: "sized P \<Longrightarrow> turn_act (pr_mods P) f0 (send_call B P arg)"
  unfolding send_call_def Let_def
  by (intro turn_intros local_intros turn_stays [OF local_signal] turn_stays [OF local_ret(2)] turn_stays [OF local_dnu(2)]
      turn_stays [OF local_push] turn_stays [OF local_sends(4)] | assumption | (rule turn_stays, (intro local_intros)) | simp)+

section \<open>Returns\<close>

lemma pop_to_drop:
  "regions_ok mods mc \<Longrightarrow> n \<le> length (mc_frames mc) \<Longrightarrow>
   regions_ok mods (pop_to n mc) \<and> mc_frames (pop_to n mc) = drop (length (mc_frames mc) - n) (mc_frames mc) \<and>
   mc_slots (pop_to n mc) = mc_slots mc \<and> ids_ok (pop_to n mc) = ids_ok mc \<and> mc_base (pop_to n mc) = mc_base mc \<and>
   mc_outer (pop_to n mc) = mc_outer mc \<and> mc_world (pop_to n mc) = mc_world mc"
proof (induction n mc rule: pop_to.induct)
  case (1 n mc)
  show ?case
  proof (cases "n < length (mc_frames mc)")
    case True
    then obtain f fs where f: "mc_frames mc = f # fs" by (cases "mc_frames mc") auto
    have p: "popFrame mc = mc\<lparr>mc_cursor := f_baseSlot f, mc_frames := fs\<rparr>" by (simp add: popFrame_def f)
    have "pop_to n mc = pop_to n (popFrame mc)" using True by (subst pop_to.simps) simp
    moreover have "n \<le> length (mc_frames (popFrame mc))" using True by (simp add: p f)
    moreover have "drop (length (mc_frames mc) - n) (mc_frames mc) = drop (length fs - n) fs"
      using True by (simp add: f Suc_diff_le)
    ultimately show ?thesis
      using 1(1) [OF True] popFrame_ok(1) [OF 1(2)] by (simp add: p ids_ok_def)
  next
    case False
    then have "pop_to n mc = mc" by (subst pop_to.simps) simp
    then show ?thesis using False 1(2,3) by simp
  qed
qed

lemma home_index_below: "home_index fid fs = Some n \<Longrightarrow> n < length fs"
  by (induction fs) (auto split: if_splits)

lemma turn_deliver:
  assumes ok: "regions_ok mods mc" and ids: "ids_ok mc" and n: "n < length (mc_frames mc)"
  shows "turn mods mc (snd (deliver B r (pop_to n mc))) \<and> length (mc_frames (snd (deliver B r (pop_to n mc)))) = n"
proof -
  let ?mc1 = "pop_to n mc"
  have p: "regions_ok mods ?mc1" "mc_frames ?mc1 = drop (length (mc_frames mc) - n) (mc_frames mc)" "mc_slots ?mc1 = mc_slots mc"
      "ids_ok ?mc1" "mc_base ?mc1 = mc_base mc" "mc_outer ?mc1 = mc_outer mc"
    using pop_to_drop [OF ok, of n] n ids by simp_all
  have len: "length (mc_frames ?mc1) = n" using n p(2) by simp
  have "snapshotFrames ?mc1 = take n (snapshotFrames mc)"
    using n p(2) by (simp add: snapshotFrames_def saved_of_slots_only [OF p(3)] take_map take_rev)
  then have t: "turn mods mc ?mc1" using p len n by (simp add: turn_def Let_def min_def)
  show ?thesis
  proof (cases "mc_frames ?mc1")
    case Nil
    then show ?thesis using t len by (simp add: deliver_def)
  next
    case (Cons g gs)
    then have on: "on_frame mods g ?mc1" using p(1) by (simp add: on_frame_def)
    have mv: "moves False ?mc1 (snd (push B r ?mc1))" by (rule local_push [unfolded local_act_def, rule_format, OF on])
    have "snd (deliver B r ?mc1) = snd (push B r ?mc1)"
      using Cons by (auto simp: deliver_def continue_def andThen_def split: prod.split sum.split)
    moreover have "turn mods mc (snd (push B r ?mc1))"
      by (rule turn_trans [OF t moves_turn [OF on p(4) mv]]) (use moves_length [OF mv] in simp)
    ultimately show ?thesis using moves_length [OF mv] len by simp
  qed
qed

lemma popFrame_pop_to: "mc_frames mc = f # fs \<Longrightarrow> popFrame mc = pop_to (length fs) mc"
  by (subst pop_to.simps, subst pop_to.simps) (simp add: popFrame_def)

lemma local_answer [local_intros]: "local_act mods s f0 (answer B)"
  unfolding answer_def by (intro local_intros)

lemma turn_after_pop:
  fixes B :: "('v, 'w) objects"
  shows "turn_act mods f0 (\<lambda>mc. deliver B r (popFrame mc))"
  unfolding turn_act_def
proof (intro allI impI)
  fix mc :: "('v, 'w) machine" assume on: "on_frame mods f0 mc" and ids: "ids_ok mc"
  then obtain f fs where f: "mc_frames mc = f # fs" "regions_ok mods mc" by (auto simp: on_frame_def)
  then show "turn mods mc (snd (deliver B r (popFrame mc)))"
    using turn_deliver [OF f(2) ids, of "length fs" B r] by (simp add: popFrame_pop_to)
qed

lemma turn_returns [turn_intros]: "turn_act mods f0 (return_top B)" "turn_act mods f0 (return_home B)"
proof -
  show "turn_act mods f0 (return_top B)" unfolding return_top_def by (intro turn_andThen local_answer turn_after_pop)
  have dead: "turn_act mods f0 (continue (andThen (outside (sp_signalError B c m)) (\<lambda>res. push B (or_none B res))))" for c m
    by (intro turn_intros turn_stays [OF local_push] local_intros)
  have "turn mods mc (snd (case home_index h (mc_frames mc) of Some n \<Rightarrow> deliver B r (pop_to n mc)
      | None \<Rightarrow> if \<not> homeFrameAlive h mc
          then continue (andThen (outside (sp_signalError B ''BlockCannotReturn'' kBlockCannotReturnText)) (\<lambda>res. push B (or_none B res))) mc
          else throw (Non_Local_Return h r) mc))" if "on_frame mods f0 mc" "ids_ok mc" for mc h r
  proof (cases "home_index h (mc_frames mc)")
    case None
    then show ?thesis using dead that moves_turn [OF that frame_moves_refl [OF that(1)]] by (auto simp: turn_act_def)
  next
    case (Some n)
    have "regions_ok mods mc" using that(1) by (simp add: on_frame_def)
    from turn_deliver [OF this that(2) home_index_below [OF Some]] Some show ?thesis by simp
  qed
  then show "turn_act mods f0 (return_home B)"
    unfolding return_home_def
    by (intro turn_andThen local_answer turn_with_top)
      (simp add: turn_act_def turn_after_pop [unfolded turn_act_def, rule_format])
qed

section \<open>The dispatch loop\<close>

lemma local_jumps [local_intros]:
  "local_act mods s f0 (upd_top (jump_forward arg))" "local_act mods s f0 (upd_top (jump_back arg))"
  "local_act mods False f0 (jump_if b arg)" "local_act mods False f0 (assert_bool B P arg)"
proof -
  show j: "local_act mods s f0 (upd_top (jump_forward arg))" "local_act mods s f0 (upd_top (jump_back arg))" for s
    by (rule local_upd_top, simp add: same_frame_def jump_forward_def jump_back_def)+
  show "local_act mods False f0 (jump_if b arg)" unfolding jump_if_def by (intro local_intros j)
  show "local_act mods False f0 (assert_bool B P arg)" unfolding assert_bool_def by (intro local_intros)
qed

lemma local_continue [local_intros]: "local_act mods s f0 m \<Longrightarrow> local_act mods s f0 (continue m)"
  unfolding continue_def by (intro local_intros)

lemma turn_exec: "sized P \<Longrightarrow> turn_act (pr_mods P) f0 (exec B P o' arg)"
  unfolding exec_def
  by (cases o'; simp only: op.case)
    ((rule turn_stays, (intro local_intros; fail)) | (intro turn_intros, assumption) | (intro turn_intros; fail))+

lemma local_fetch [local_intros]: "local_act mods s f0 (fetch P)"
  unfolding fetch_def by (intro local_intros local_upd_top) (simp add: same_frame_def)

lemma turn_refl: "regions_ok mods mc \<Longrightarrow> ids_ok mc \<Longrightarrow> turn mods mc mc"
  by (simp add: turn_def)

lemma turn_run_instruction:
  assumes sz: "sized P" and ok: "regions_ok (pr_mods P) mc" "ids_ok mc"
  shows "turn (pr_mods P) mc (snd (run_instruction B P mc))"
proof (cases "mc_frames mc")
  case Nil
  then show ?thesis using turn_refl [OF ok] by (simp add: run_instruction_def)
next
  case (Cons f fs)
  then have on: "on_frame (pr_mods P) f mc" using ok by (simp add: on_frame_def)
  let ?go = "andThen (if ob_attached B (mc_world mc) then outside (ob_onInstruction B (f_m f) (f_pc f)) else ret ()) (\<lambda>_.
      andThen (fetch P) (\<lambda>(b, arg).
      case op_of b of
        None \<Rightarrow> throw (Runtime_Error ''ExecutionEngine: unimplemented opcode (threaded dispatch)'')
      | Some o' \<Rightarrow> exec B P o' arg))"
  have "turn_act (pr_mods P) f ?go"
    by (intro turn_intros local_intros turn_exec sz turn_stays [OF local_ret(2)])
  then show ?thesis
    using turn_returns(1) [of "pr_mods P" f B] on ok(2) Cons by (auto simp: run_instruction_def turn_act_def)
qed

lemma turn_handle:
  assumes ok: "regions_ok mods mc" "ids_ok mc"
  shows "case handle B e mc of
      (Inl _, mc') \<Rightarrow> mc_base mc' = mc_base mc
    | (Inr _, mc') \<Rightarrow> turn mods mc mc' \<and> length (mc_frames mc') \<le> length (mc_frames mc)"
proof -
  note r = turn_refl [OF ok]
  have goal: "turn mods mc (snd a) \<Longrightarrow> length (mc_frames (snd a)) \<le> length (mc_frames mc) \<Longrightarrow>
      case a of (Inl _, mc') \<Rightarrow> mc_base mc' = mc_base mc
        | (Inr _, mc') \<Rightarrow> turn mods mc mc' \<and> length (mc_frames mc') \<le> length (mc_frames mc)"
    for a :: "('a raised + 'a option) \<times> ('a, 'b) machine"
    by (cases a; cases "fst a") (auto simp: turn_def)
  show ?thesis
  proof (cases e)
    case (Non_Local_Return home v)
    show ?thesis
    proof (cases "home_index home (mc_frames mc)")
      case (Some n)
      note t = turn_deliver [OF ok home_index_below [OF Some], of B v]
      have "handle B e mc = deliver B v (pop_to n mc)" using Non_Local_Return Some by (simp add: handle_def)
      then show ?thesis using t home_index_below [OF Some] by (intro goal) simp_all
    qed (use Non_Local_Return in \<open>simp add: handle_def\<close>)
  next
    case (Future_Yield fut)
    then show ?thesis by (auto simp: handle_def suspend_def Let_def split: option.split prod.split)
  next
    case (Debugger_Halt reason)
    obtain x w where s: "ob_enterSession B reason (mc_world mc) = (x, w)" by fastforce
    let ?mc1 = "mc\<lparr>mc_world := w\<rparr>"
    show ?thesis
    proof (cases x)
      case (Inl e')
      then show ?thesis using Debugger_Halt s by (simp add: handle_def outside_def)
    next
      case (Inr u)
      show ?thesis
      proof (cases "mc_frames mc")
        case Nil
        then show ?thesis using Debugger_Halt s Inr turn_world [OF r, of w] by (simp add: handle_def outside_def)
      next
        case (Cons f fs)
        then have on: "on_frame mods f ?mc1" using ok by (simp add: on_frame_def)
        have mv: "moves False ?mc1 (snd (continue (push B (sp_none B)) ?mc1))"
          by (rule local_continue [OF local_push, unfolded local_act_def, rule_format, OF on])
        have "turn mods ?mc1 (snd (continue (push B (sp_none B)) ?mc1))" using moves_turn [OF on _ mv] ok(2) by simp
        then have "turn mods mc (snd (continue (push B (sp_none B)) ?mc1))"
          using turn_trans [OF turn_world [OF r, of w]] moves_length [OF mv] by simp
        moreover have "handle B e mc = continue (push B (sp_none B)) ?mc1"
          using Debugger_Halt s Inr Cons by (simp add: handle_def outside_def)
        ultimately show ?thesis using moves_length [OF mv] by (intro goal) simp_all
      qed
    qed
  qed (simp_all add: handle_def)
qed

lemma loop_step_turn:
  assumes sz: "sized P" and ok: "regions_ok (pr_mods P) mc" "ids_ok mc"
  shows "case loop_step B P mc of
      (None, mc') \<Rightarrow> turn (pr_mods P) mc mc'
    | (Some r, mc') \<Rightarrow> mc_cursor mc' = mc_base mc \<and> mc_base mc' = mc_base mc"
proof -
  obtain r mc1 where i: "run_instruction B P mc = (r, mc1)" by fastforce
  have t: "turn (pr_mods P) mc mc1" using turn_run_instruction [OF sz ok, of B] i by simp
  then have ok1: "regions_ok (pr_mods P) mc1" "ids_ok mc1" "mc_base mc1 = mc_base mc" by (simp_all add: turn_def)
  show ?thesis
  proof (cases r)
    case (Inl e)
    obtain r2 mc2 where h: "handle B e mc1 = (r2, mc2)" by fastforce
    note th = turn_handle [OF ok1(1,2), of B e, unfolded h prod.case]
    show ?thesis
    proof (cases r2)
      case (Inl e2)
      then show ?thesis using i \<open>r = Inl e\<close> h th ok1(3) by (simp add: loop_step_def Let_def)
    next
      case (Inr v)
      then have "turn (pr_mods P) mc mc2" using turn_trans [OF t, of mc2] th by simp
      then show ?thesis using i \<open>r = Inl e\<close> h Inr by (cases v) (simp_all add: loop_step_def Let_def turn_def)
    qed
  next
    case (Inr v)
    then show ?thesis using i t ok1(3) by (cases v) (simp_all add: loop_step_def Let_def)
  qed
qed

end
