(* ===== verification/EngineRefine.thy ===== *)
theory EngineRefine
  imports EngineInv
begin

text \<open>
  The slots implement a stack of frames: on what the frames hold
  (\<open>snapshotFrames\<close>), the instructions that only move values are the obvious
  operations on lists.
\<close>

section \<open>The abstract machine\<close>

text \<open>A stack of frames, the oldest first; \<open>None\<close> is an error of the engine.\<close>

type_synonym 'v stack = "'v saved_frame list"

definition on_last :: "('v saved_frame \<Rightarrow> 'v saved_frame) \<Rightarrow> 'v stack \<Rightarrow> 'v stack" where
  "on_last g ss = butlast ss @ [g (last ss)]"

definition a_push :: "'v \<Rightarrow> 'v stack \<Rightarrow> 'v stack" where
  "a_push v = on_last (\<lambda>s. s\<lparr>s_stack := s_stack s @ [v]\<rparr>)"

definition a_drop :: "'v stack \<Rightarrow> 'v stack" where
  "a_drop = on_last (\<lambda>s. s\<lparr>s_stack := butlast (s_stack s)\<rparr>)"

definition a_top :: "'v stack \<Rightarrow> 'v option" where
  "a_top ss = (if s_stack (last ss) = [] then None else Some (last (s_stack (last ss))))"

text \<open>Leave all frames from number \<open>n\<close> on, with the value \<open>r\<close>.\<close>

definition a_leave :: "'v \<Rightarrow> nat \<Rightarrow> 'v stack \<Rightarrow> 'v stack \<times> 'v option" where
  "a_leave r n ss = (if n = 0 then ([], Some r) else (a_push r (take n ss), None))"

text \<open>The newest frame with the given id.\<close>

definition a_home :: "nat \<Rightarrow> 'v stack \<Rightarrow> nat option" where
  "a_home h ss =
     (let found = filter (\<lambda>i. s_frameId (ss ! i) = h) [0..<length ss] in if found = [] then None else Some (last found))"

definition a_exec :: "('v, 'w) objects \<Rightarrow> op \<Rightarrow> nat \<Rightarrow> 'v stack \<Rightarrow> ('v stack \<times> 'v option) option" where
  "a_exec B o' arg ss =
     (let s = last ss; top = a_top ss;
          r = (case top of None \<Rightarrow> sp_none B | Some v \<Rightarrow> v);
          goes = (\<lambda>x. map_option (\<lambda>ss'. (ss', None)) x)
      in case o' of
           PUSH_NIL \<Rightarrow> goes (Some (a_push (sp_none B) ss))
         | PUSH_TRUE \<Rightarrow> goes (Some (a_push (ob_true B) ss))
         | PUSH_FALSE \<Rightarrow> goes (Some (a_push (ob_false B) ss))
         | PUSH_SELF \<Rightarrow> goes (Some (a_push (s_self s) ss))
         | DUP \<Rightarrow> goes (map_option (\<lambda>v. a_push v ss) top)
         | POP \<Rightarrow> goes (map_option (\<lambda>_. a_drop ss) top)
         | PUSH_LOCAL \<Rightarrow> goes (if arg < length (s_locals s) then Some (a_push (s_locals s ! arg) ss) else None)
         | STORE_LOCAL \<Rightarrow>
             goes (if arg < length (s_locals s)
                   then map_option (\<lambda>v. on_last (\<lambda>s. s\<lparr>s_locals := (s_locals s)[arg := v]\<rparr>) (a_drop ss)) top else None)
         | RETURN_TOP \<Rightarrow> Some (a_leave r (length ss - 1) ss)
         | RETURN \<Rightarrow>
             (if s_homeFrameId s = s_frameId s then Some (a_leave r (length ss - 1) ss)
              else map_option (\<lambda>n. a_leave r n ss) (a_home (s_homeFrameId s) ss))
         | _ \<Rightarrow> None)"

section \<open>Frames and their slots\<close>

lemma saved_of_plain:
  assumes "f_baseSlot f + kHeaderSlots + f_localCount f + f_maxStack f \<le> kFrameRegionLimit" "f_sp f \<le> f_maxStack f"
  shows "saved_of mc f =
    \<lparr>s_pc = f_pc f, s_stack = map (\<lambda>j. mc_slots mc (f_baseSlot f + 2 + f_localCount f + j)) [0..<f_sp f],
     s_locals = map (\<lambda>j. mc_slots mc (f_baseSlot f + 2 + j)) [0..<f_localCount f], s_self = mc_slots mc (f_baseSlot f + 1),
     s_captured = mc_slots mc (f_baseSlot f), s_m = f_m f, s_frameId = f_frameId f, s_homeFrameId = f_homeFrameId f\<rparr>"
  using assms(2) by (simp add: saved_of_def getLocal_def getSelf_def getCaptured_def region_addresses [OF assms(1)])

text \<open>Only the top frame changes: what is left to show is its own values.\<close>

lemma snapshot_top:
  assumes "on_frame mods f0 mc" "moves s mc mc'" "mc_frames mc = f # fs" "mc_frames mc' = g # fs" "saved_of mc' g = h (saved_of mc f)"
  shows "snapshotFrames mc' = on_last h (snapshotFrames mc)"
  using moves_below [OF assms(1,2)] assms(3-5) by (simp add: snapshotFrames_def on_last_def)

lemma snapshot_last: "mc_frames mc = f # fs \<Longrightarrow> last (snapshotFrames mc) = saved_of mc f"
  by (simp add: snapshotFrames_def)

lemma refine_push:
  assumes on: "on_frame mods f0 mc" and f: "mc_frames mc = f # fs" "f_sp f < f_maxStack f"
  shows "\<exists>mc'. push B v mc = (Inr (), mc') \<and> snapshotFrames mc' = a_push v (snapshotFrames mc) \<and> on_frame mods f0 mc' \<and>
    mc_frames mc' = f\<lparr>f_sp := f_sp f + 1\<rparr> # fs \<and> mc_world mc' = mc_world mc"
proof -
  have fit: "f_baseSlot f + kHeaderSlots + f_localCount f + f_maxStack f \<le> kFrameRegionLimit"
    using on f(1) by (auto elim!: on_frameE)
  define mc' where "mc' = set_top (f\<lparr>f_sp := f_sp f + 1\<rparr>) (set_slot (u32 (opStackBase f + f_sp f)) v mc)"
  have p: "push B v mc = (Inr (), mc')" using f by (simp add: push_def with_top_def mc'_def)
  have mv: "moves False mc mc'" using local_push [of mods f0 B v, unfolded local_act_def, rule_format, OF on] p by simp
  have fr: "mc_frames mc' = f\<lparr>f_sp := f_sp f + 1\<rparr> # fs" "mc_world mc' = mc_world mc" by (simp_all add: mc'_def set_top_def set_slot_def f(1))
  have a: "u32 (opStackBase f + f_sp f) = f_baseSlot f + 2 + f_localCount f + f_sp f"
    using f(2) by (simp add: region_addresses [OF fit])
  have "snapshotFrames mc' = a_push v (snapshotFrames mc)"
    unfolding a_push_def
  proof (rule snapshot_top [OF on mv f(1) fr(1)])
    show "saved_of mc' (f\<lparr>f_sp := f_sp f + 1\<rparr>) = saved_of mc f\<lparr>s_stack := s_stack (saved_of mc f) @ [v]\<rparr>"
      using fit f(2) by (simp add: saved_of_plain mc'_def set_top_def set_slot_def a)
  qed
  then show ?thesis using p fr moves_on_frame [OF on mv] by blast
qed

lemma refine_pop:
  assumes on: "on_frame mods f0 mc" and f: "mc_frames mc = f # fs" "f_sp f > 0"
  shows "\<exists>mc' v. pop mc = (Inr v, mc') \<and> a_top (snapshotFrames mc) = Some v \<and> snapshotFrames mc' = a_drop (snapshotFrames mc) \<and>
    on_frame mods f0 mc' \<and> mc_frames mc' = f\<lparr>f_sp := f_sp f - 1\<rparr> # fs \<and> mc_world mc' = mc_world mc"
proof -
  have fit: "f_baseSlot f + kHeaderSlots + f_localCount f + f_maxStack f \<le> kFrameRegionLimit" and sp: "f_sp f \<le> f_maxStack f"
    using on f(1) by (auto elim!: on_frameE)
  obtain k where k: "f_sp f = Suc k" using f(2) by (cases "f_sp f") auto
  define mc' where "mc' = set_top (f\<lparr>f_sp := f_sp f - 1\<rparr>) mc"
  define v where "v = mc_slots mc (u32 (opStackBase f + f_sp f - 1))"
  have p: "pop mc = (Inr v, mc')" using f by (simp add: pop_def with_top_def mc'_def v_def)
  have mv: "moves False mc mc'" using local_pop [of mods f0, unfolded local_act_def, rule_format, OF on] p by simp
  have fr: "mc_frames mc' = f\<lparr>f_sp := f_sp f - 1\<rparr> # fs" "mc_world mc' = mc_world mc" by (simp_all add: mc'_def set_top_def f(1))
  have sv: "saved_of mc f = saved_of mc' (f\<lparr>f_sp := f_sp f - 1\<rparr>)\<lparr>s_stack := s_stack (saved_of mc' (f\<lparr>f_sp := f_sp f - 1\<rparr>)) @ [v]\<rparr>"
    using fit sp k by (simp add: saved_of_plain mc'_def set_top_def v_def region_addresses [OF fit])
  have "snapshotFrames mc' = a_drop (snapshotFrames mc)"
    unfolding a_drop_def by (rule snapshot_top [OF on mv f(1) fr(1)]) (unfold sv, simp)
  moreover have "a_top (snapshotFrames mc) = Some v" unfolding a_top_def snapshot_last [OF f(1)] sv by simp
  ultimately show ?thesis using p fr moves_on_frame [OF on mv] by blast
qed

lemma a_top_empty: "mc_frames mc = f # fs \<Longrightarrow> a_top (snapshotFrames mc) = None \<longleftrightarrow> f_sp f = 0"
  by (simp add: a_top_def snapshot_last saved_of_def)

lemma refine_peek:
  assumes "on_frame mods f0 mc" "mc_frames mc = f # fs" "f_sp f > 0"
  shows "\<exists>v. peek mc = (Inr v, mc) \<and> a_top (snapshotFrames mc) = Some v"
proof -
  obtain v mc' where "pop mc = (Inr v, mc')" "a_top (snapshotFrames mc) = Some v" using refine_pop [OF assms] by blast
  then show ?thesis using assms(2,3) by (simp add: pop_def peek_def with_top_def)
qed

lemma refine_slot:
  assumes on: "on_frame mods f0 mc" and f: "mc_frames mc = f # fs" and i: "i < f_localCount f"
  shows "\<exists>mc'. upd_slot (\<lambda>f. u32 (localsBase f + i)) v mc = (Inr (), mc') \<and>
    snapshotFrames mc' = on_last (\<lambda>s. s\<lparr>s_locals := (s_locals s)[i := v]\<rparr>) (snapshotFrames mc)"
proof -
  have fit: "f_baseSlot f + kHeaderSlots + f_localCount f + f_maxStack f \<le> kFrameRegionLimit" and sp: "f_sp f \<le> f_maxStack f"
    and same: "same_frame f0 f" using on f(1) by (auto elim!: on_frameE)
  define mc' where "mc' = set_slot (u32 (localsBase f + i)) v mc"
  have p: "upd_slot (\<lambda>f. u32 (localsBase f + i)) v mc = (Inr (), mc')" using f by (simp add: upd_slot_def with_top_def mc'_def)
  have "i < f_localCount f0" using i same by (simp add: same_frame_def)
  then have mv: "moves False mc mc'" using local_local_slot [of i f0 mods False v, unfolded local_act_def, rule_format, OF _ on] p by simp
  have fr: "mc_frames mc' = f # fs" by (simp add: mc'_def set_slot_def f(1))
  have a: "u32 (localsBase f + i) = f_baseSlot f + 2 + i" using i by (simp add: region_addresses [OF fit])
  have "snapshotFrames mc' = on_last (\<lambda>s. s\<lparr>s_locals := (s_locals s)[i := v]\<rparr>) (snapshotFrames mc)"
  proof (rule snapshot_top [OF on mv f(1) fr])
    show "saved_of mc' f = saved_of mc f\<lparr>s_locals := (s_locals (saved_of mc f))[i := v]\<rparr>"
      using i by (auto simp: saved_of_plain [OF fit sp] mc'_def set_slot_def a intro!: nth_equalityI simp: nth_list_update)
  qed
  then show ?thesis using p by blast
qed

lemma refine_answer:
  assumes "on_frame mods f0 mc"
  shows "answer B mc = (Inr (case a_top (snapshotFrames mc) of None \<Rightarrow> sp_none B | Some v \<Rightarrow> v), mc)"
proof -
  obtain f fs where f: "mc_frames mc = f # fs" using assms by (auto simp: on_frame_def)
  show ?thesis
    using refine_peek [OF assms f] a_top_empty [OF f] by (cases "f_sp f = 0") (auto simp: answer_def with_top_def f)
qed

lemma refine_deliver:
  assumes ok: "regions_ok mods mc" "ids_ok mc" and n: "n < length (mc_frames mc)"
    and room: "\<forall>f \<in> set (mc_frames mc). f_sp f < f_maxStack f"
  shows "\<exists>mc'. deliver B r (pop_to n mc) = (Inr (snd (a_leave r n (snapshotFrames mc))), mc') \<and>
    snapshotFrames mc' = fst (a_leave r n (snapshotFrames mc))"
proof -
  let ?mc1 = "pop_to n mc"
  have p: "regions_ok mods ?mc1" "mc_frames ?mc1 = drop (length (mc_frames mc) - n) (mc_frames mc)" "mc_slots ?mc1 = mc_slots mc"
    using pop_to_drop [OF ok(1), of n] n by simp_all
  have sn: "snapshotFrames ?mc1 = take n (snapshotFrames mc)"
    using n p(2) by (simp add: snapshotFrames_def saved_of_slots_only [OF p(3)] take_map take_rev)
  show ?thesis
  proof (cases "mc_frames ?mc1")
    case Nil
    then have "n = 0" using p(2) n by simp
    then show ?thesis using Nil sn by (simp add: deliver_def a_leave_def)
  next
    case (Cons g gs)
    then have on: "on_frame mods g ?mc1" using p(1) by (simp add: on_frame_def)
    have "g \<in> set (mc_frames mc)" using Cons p(2) by (metis in_set_dropD list.set_intros(1))
    then have "f_sp g < f_maxStack g" using room by blast
    from refine_push [OF on Cons this, of B r] obtain mc2 where
      "push B r ?mc1 = (Inr (), mc2)" "snapshotFrames mc2 = a_push r (snapshotFrames ?mc1)" by blast
    moreover have "length (mc_frames ?mc1) = n" using n p(2) by simp
    then have "n \<noteq> 0" using Cons by auto
    ultimately show ?thesis using Cons sn by (simp add: deliver_def continue_def a_leave_def)
  qed
qed

lemma home_index_snapshot: "home_index h (mc_frames mc) = a_home h (snapshotFrames mc)"
proof -
  have "home_index h fs = a_home h (map (saved_of mc) (rev fs))" for fs
  proof (induction fs)
    case (Cons f fs)
    have "filter (\<lambda>i. s_frameId (map (saved_of mc) (rev (f # fs)) ! i) = h) [0..<length fs] =
        filter (\<lambda>i. s_frameId (map (saved_of mc) (rev fs) ! i) = h) [0..<length fs]"
      by (rule filter_cong) (simp_all add: nth_append)
    moreover have "s_frameId (map (saved_of mc) (rev (f # fs)) ! length fs) = f_frameId f"
      by (simp add: nth_append saved_of_def)
    ultimately show ?case using Cons.IH by (simp add: a_home_def Let_def)
  qed (simp add: a_home_def)
  then show ?thesis by (simp add: snapshotFrames_def)
qed

text \<open>One instruction does on the slots what it does on the list of frames.\<close>

definition follows :: "('v, 'w) objects \<Rightarrow> prog \<Rightarrow> op \<Rightarrow> nat \<Rightarrow> ('v, 'w) machine \<Rightarrow> bool" where
  "follows B P o' arg mc \<longleftrightarrow> (case a_exec B o' arg (snapshotFrames mc) of
      Some (ss, r) \<Rightarrow> \<exists>mc'. exec B P o' arg mc = (Inr r, mc') \<and> snapshotFrames mc' = ss
    | None \<Rightarrow> \<exists>msg. exec B P o' arg mc = (Inl (Runtime_Error msg), mc))"

lemma saved_locals:
  "length (s_locals (saved_of mc f)) = f_localCount f"
  "i < f_localCount f \<Longrightarrow> s_locals (saved_of mc f) ! i = getLocal f i mc"
  by (simp_all add: saved_of_def)

lemmas exec_defs = exec_def a_exec_def Let_def continue_def

lemma follows_self:
  assumes on: "on_frame mods f mc" and f: "mc_frames mc = f # fs" and fr: "f_sp f < f_maxStack f"
  shows "follows B P PUSH_SELF arg mc"
proof -
  note push = refine_push [OF on f fr, of B]
  note last = snapshot_last [OF f] and locals = saved_locals [where mc = mc and f = f]
  have "of_top getSelf mc = (Inr (s_self (saved_of mc f)), mc)" by (simp add: of_top_def with_top_def f saved_of_def)
  then show ?thesis using push [of "s_self (saved_of mc f)"] last by (auto simp: follows_def exec_defs)
qed

lemma follows_dup:
  assumes on: "on_frame mods f mc" and f: "mc_frames mc = f # fs" and fr: "f_sp f < f_maxStack f"
  shows "follows B P DUP arg mc"
proof -
  note push = refine_push [OF on f fr, of B]
  note emp = a_top_empty [OF f]
  show ?thesis
  proof (cases "f_sp f = 0")
    case True
    then show ?thesis using emp by (simp add: follows_def exec_defs andThen_def peek_def with_top_def f)
  next
    case False
    then obtain v where "peek mc = (Inr v, mc)" "a_top (snapshotFrames mc) = Some v" using refine_peek [OF on f] by blast
    then show ?thesis using push [of v] by (auto simp: follows_def exec_defs)
  qed
qed

lemma follows_pop:
  assumes on: "on_frame mods f mc" and f: "mc_frames mc = f # fs"
  shows "follows B P POP arg mc"
proof -
  note emp = a_top_empty [OF f]
  show ?thesis
  proof (cases "f_sp f = 0")
    case True
    then show ?thesis using emp by (simp add: follows_def exec_defs andThen_def pop_def with_top_def f)
  next
    case False
    then show ?thesis using refine_pop [OF on f] by (auto simp: follows_def exec_defs)
  qed
qed

lemma follows_push_local:
  assumes on: "on_frame mods f mc" and f: "mc_frames mc = f # fs" and fr: "f_sp f < f_maxStack f"
  shows "follows B P PUSH_LOCAL arg mc"
proof -
  note push = refine_push [OF on f fr, of B]
  note last = snapshot_last [OF f] and locals = saved_locals [where mc = mc and f = f]
  show ?thesis
  proof (cases "arg < f_localCount f")
    case True
    then have "checkLocal arg mc = (Inr (), mc)" "of_top (\<lambda>f. getLocal f arg) mc = (Inr (getLocal f arg mc), mc)"
      by (simp_all add: checkLocal_def of_top_def with_top_def f)
    then show ?thesis using True push [of "getLocal f arg mc"] last locals
      by (auto simp: follows_def exec_defs push_local_def)
  next
    case False
    then show ?thesis using last locals
      by (simp add: follows_def exec_defs push_local_def checkLocal_def with_top_def andThen_def f)
  qed
qed

lemma follows_store_local:
  assumes on: "on_frame mods f mc" and f: "mc_frames mc = f # fs"
  shows "follows B P STORE_LOCAL arg mc"
proof -
  note emp = a_top_empty [OF f]
  note last = snapshot_last [OF f] and locals = saved_locals [where mc = mc and f = f]
  show ?thesis
  proof (cases "arg < f_localCount f \<and> f_sp f \<noteq> 0")
    case True
    obtain mc1 v where p: "EngineFrames.pop mc = (Inr v, mc1)" "a_top (snapshotFrames mc) = Some v" "snapshotFrames mc1 = a_drop (snapshotFrames mc)"
        "on_frame mods f mc1" "mc_frames mc1 = f\<lparr>f_sp := f_sp f - 1\<rparr> # fs"
      using refine_pop [OF on f] True by blast
    have "\<exists>mc'. upd_slot (\<lambda>f. u32 (localsBase f + arg)) v mc1 = (Inr (), mc') \<and>
        snapshotFrames mc' = on_last (\<lambda>s. s\<lparr>s_locals := (s_locals s)[arg := v]\<rparr>) (snapshotFrames mc1)"
      by (rule refine_slot [OF p(4,5)]) (use True in simp)
    moreover have "checkLocal arg mc = (Inr (), mc)" "need_value ''STORE_LOCAL with empty stack'' mc = (Inr (), mc)"
      using True by (simp_all add: checkLocal_def need_value_def with_top_def f)
    ultimately show ?thesis using True p last locals
      by (auto simp: follows_def exec_defs store_local_def)
  next
    case False
    then show ?thesis using last locals emp
      by (auto simp: follows_def exec_defs store_local_def checkLocal_def need_value_def with_top_def andThen_def f)
  qed
qed

lemma leave_top:
  assumes ok: "regions_ok mods mc" "ids_ok mc" and f: "mc_frames mc = f # fs" and room: "\<forall>f \<in> set (mc_frames mc). f_sp f < f_maxStack f"
  shows "\<exists>mc'. deliver B r (popFrame mc) = (Inr (snd (a_leave r (length fs) (snapshotFrames mc))), mc') \<and>
      snapshotFrames mc' = fst (a_leave r (length fs) (snapshotFrames mc))"
  using refine_deliver [OF ok _ room, of "length fs" B r] by (simp add: f popFrame_pop_to)

lemma follows_return_top:
  assumes ok: "regions_ok mods mc" "ids_ok mc" and on: "on_frame mods f mc" and f: "mc_frames mc = f # fs"
    and room: "\<forall>f \<in> set (mc_frames mc). f_sp f < f_maxStack f"
  shows "follows B P RETURN_TOP arg mc"
proof -
  have left: "a_leave r (length fs) (snapshotFrames mc) = (ss, x) \<Longrightarrow> \<exists>mc'. deliver B r (popFrame mc) = (Inr x, mc') \<and> snapshotFrames mc' = ss"
    for r ss x using leave_top [OF ok f room, of B r] by simp
  have len: "length (snapshotFrames mc) - 1 = length fs" by (simp add: snapshot_length f)
  show ?thesis using left refine_answer [OF on, of B] len
    by (auto simp: follows_def exec_defs return_top_def split: prod.split)
qed

lemma follows_return:
  assumes ok: "regions_ok mods mc" "ids_ok mc" and on: "on_frame mods f mc" and f: "mc_frames mc = f # fs"
    and room: "\<forall>f \<in> set (mc_frames mc). f_sp f < f_maxStack f"
    and home: "a_home (s_homeFrameId (last (snapshotFrames mc))) (snapshotFrames mc) \<noteq> None"
  shows "follows B P RETURN arg mc"
proof -
  have left: "\<exists>mc'. deliver B r (popFrame mc) = (Inr (snd (a_leave r (length fs) (snapshotFrames mc))), mc') \<and>
      snapshotFrames mc' = fst (a_leave r (length fs) (snapshotFrames mc))" for r by (rule leave_top [OF ok f room])
  have last: "last (snapshotFrames mc) = saved_of mc f" by (rule snapshot_last [OF f])
  have len: "length (snapshotFrames mc) - 1 = length fs" by (simp add: snapshot_length f)
  let ?r = "case a_top (snapshotFrames mc) of None \<Rightarrow> sp_none B | Some v \<Rightarrow> v"
  obtain n where n: "a_home (f_homeFrameId f) (snapshotFrames mc) = Some n" using home last by (auto simp: saved_of_def)
  then have i: "home_index (f_homeFrameId f) (mc_frames mc) = Some n" by (simp add: home_index_snapshot)
  have ids: "s_homeFrameId (saved_of mc f) = f_homeFrameId f" "s_frameId (saved_of mc f) = f_frameId f"
    by (simp_all add: saved_of_def)
  show ?thesis
  proof (cases "f_homeFrameId f = f_frameId f")
    case True
    have "exec B P RETURN arg mc = deliver B ?r (popFrame mc)"
      using True by (simp add: exec_def return_home_def with_top_def f refine_answer [OF on])
    moreover have "a_exec B RETURN arg (snapshotFrames mc) = Some (a_leave ?r (length fs) (snapshotFrames mc))"
      unfolding a_exec_def by (simp only: Let_def last ids True len op.case simp_thms if_True)
    ultimately show ?thesis using left [of ?r] by (simp add: follows_def split_beta)
  next
    case False
    have "exec B P RETURN arg mc = deliver B ?r (pop_to n mc)"
      using False i by (simp add: exec_def return_home_def with_top_def f refine_answer [OF on])
    moreover have "a_exec B RETURN arg (snapshotFrames mc) = Some (a_leave ?r n (snapshotFrames mc))"
      using False by (simp add: a_exec_def Let_def last ids n)
    ultimately show ?thesis
      using refine_deliver [OF ok home_index_below [OF i] room, of B ?r] by (simp add: follows_def split_beta)
  qed
qed

text \<open>
  C13. The engine's slots implement a stack of frames.  On what the frames hold,
  pushing nil, true, false or self, duplicating, dropping, reading and writing a
  local are the list operations; a return, of a method or of a block from its
  home method, leaves the home frame and all the frames above it and puts its
  value on the stack of the frame below, or hands it to the caller of the engine
  when there is none.  Where the list operation is undefined the engine raises an
  error.
\<close>

theorem frames_refine_lists:
  assumes ok: "regions_ok mods mc" "ids_ok mc" "mc_frames mc \<noteq> []" and room: "\<forall>f \<in> set (mc_frames mc). f_sp f < f_maxStack f"
    and op: "o' \<in> {PUSH_NIL, PUSH_TRUE, PUSH_FALSE, PUSH_SELF, DUP, POP, PUSH_LOCAL, STORE_LOCAL, RETURN_TOP}
       \<or> o' = RETURN \<and> a_home (s_homeFrameId (last (snapshotFrames mc))) (snapshotFrames mc) \<noteq> None"
  shows "case a_exec B o' arg (snapshotFrames mc) of
      Some (ss, r) \<Rightarrow> \<exists>mc'. exec B P o' arg mc = (Inr r, mc') \<and> snapshotFrames mc' = ss
    | None \<Rightarrow> \<exists>msg. exec B P o' arg mc = (Inl (Runtime_Error msg), mc)"
proof -
  obtain f fs where f: "mc_frames mc = f # fs" using ok(3) by (cases "mc_frames mc") auto
  have on: "on_frame mods f mc" using ok(1) f by (simp add: on_frame_def)
  have fr: "f_sp f < f_maxStack f" using room f by simp
  consider (const) v where "exec B P o' arg = continue (push B v)" "a_exec B o' arg (snapshotFrames mc) = Some (a_push v (snapshotFrames mc), None)"
    | "o' = PUSH_SELF" | "o' = DUP" | "o' = POP" | "o' = PUSH_LOCAL" | "o' = STORE_LOCAL" | "o' = RETURN_TOP"
    | (home) "o' = RETURN" "a_home (s_homeFrameId (last (snapshotFrames mc))) (snapshotFrames mc) \<noteq> None"
    using op by (auto simp: exec_def a_exec_def Let_def)
  then have "follows B P o' arg mc"
  proof cases
    case const
    then show ?thesis using refine_push [OF on f fr, of B v] by (auto simp: follows_def continue_def)
  next
    case home
    show ?thesis unfolding home(1) by (rule follows_return [OF ok(1,2) on f room home(2)])
  qed (use follows_self [OF on f fr] follows_dup [OF on f fr] follows_pop [OF on f] follows_push_local [OF on f fr]
      follows_store_local [OF on f] follows_return_top [OF ok(1,2) on f room] in blast)+
  then show ?thesis by (simp add: follows_def)
qed

text \<open>A machine with a method's frame and, on top, a frame of one of its blocks that returns 9 from it.\<close>

definition block_in_method :: "'w \<Rightarrow> (nat, 'w) machine" where
  "block_in_method w = \<lparr>mc_frames =
       [\<lparr>f_m = 0, f_pc = 0, f_baseSlot = 310, f_localCount = 4, f_maxStack = 48, f_sp = 1, f_frameId = 2, f_homeFrameId = 1,
         f_groupActive = False, f_groupPending = 0, f_groupBase = 0, f_groupFirst = 0\<rparr>,
        \<lparr>f_m = 0, f_pc = 0, f_baseSlot = 256, f_localCount = 4, f_maxStack = 48, f_sp = 0, f_frameId = 1, f_homeFrameId = 1,
         f_groupActive = False, f_groupPending = 0, f_groupBase = 0, f_groupFirst = 0\<rparr>],
     mc_slots = (\<lambda>i. if i = 316 then 9 else 0), mc_count = 4096, mc_cursor = 364, mc_base = 256,
     mc_nextId = 3, mc_idLimit = 1024, mc_globalId = 1024, mc_outer = [], mc_world = w\<rparr>"

lemma block_in_method_ok:
  "regions_ok (\<lambda>_. empty_core) (block_in_method w)" "ids_ok (block_in_method w)" "mc_frames (block_in_method w) \<noteq> []"
  "\<forall>f \<in> set (mc_frames (block_in_method w)). f_sp f < f_maxStack f"
proof -
  have e: "frame_locals empty_core 0 = 4" "computeMaxStack empty_core = 48" by code_simp+
  show "regions_ok (\<lambda>_. empty_core) (block_in_method w)" "ids_ok (block_in_method w)" "mc_frames (block_in_method w) \<noteq> []"
    "\<forall>f \<in> set (mc_frames (block_in_method w)). f_sp f < f_maxStack f"
    by (simp_all add: regions_ok_def ids_ok_def block_in_method_def frame_ok_def slot_geometry e)
qed

lemma block_in_method_snapshot:
  "snapshotFrames (block_in_method w) =
     [\<lparr>s_pc = 0, s_stack = [], s_locals = [0, 0, 0, 0], s_self = 0, s_captured = 0, s_m = 0, s_frameId = 1, s_homeFrameId = 1\<rparr>,
      \<lparr>s_pc = 0, s_stack = [9], s_locals = [0, 0, 0, 0], s_self = 0, s_captured = 0, s_m = 0, s_frameId = 2, s_homeFrameId = 1\<rparr>]"
  by (simp add: snapshotFrames_def saved_of_def block_in_method_def getLocal_def getSelf_def getCaptured_def opStackBase_def localsBase_def
      slot_geometry upt_rec)

lemma frames_refine_lists_witness:
  "\<forall>(B :: (nat, unit) objects) P. \<exists>mc'. exec B P RETURN 0 (block_in_method ()) = (Inr (Some 9), mc') \<and> snapshotFrames mc' = []"
proof (intro allI)
  fix B :: "(nat, unit) objects" and P
  have "a_home (s_homeFrameId (last (snapshotFrames (block_in_method ())))) (snapshotFrames (block_in_method ())) \<noteq> None"
    by (simp add: block_in_method_snapshot a_home_def)
  from frames_refine_lists [OF block_in_method_ok, where o' = RETURN and B = B and arg = 0 and P = P] this
  show "\<exists>mc'. exec B P RETURN 0 (block_in_method ()) = (Inr (Some 9), mc') \<and> snapshotFrames mc' = []"
    by (simp add: block_in_method_snapshot a_home_def a_exec_def a_top_def a_leave_def)
qed

end
