(* ===== verification/EngineGroups.thy ===== *)
theory EngineGroups
  imports EngineRefine
begin

text \<open>
  Runs of instance-variable writes (IVAR_GROUP, IVAR_GROUP_END and
  \<open>flushInstVarGroup\<close>): publishing a run at once is the same as writing one
  variable after the other.
\<close>

section \<open>A run of writes\<close>

text \<open>
  The code of a run: each value is pushed, the last one ends the run.  The flag of
  a value says whether computing it sends a message, which first writes what is
  pending, as the fallback of a BIN_ instruction does.
\<close>

definition flush_active :: "('v, 'w) objects \<Rightarrow> prog \<Rightarrow> ('v, 'w, unit) act" where
  "flush_active B P = andThen (of_top (\<lambda>f _. f_groupActive f)) (\<lambda>active. if active then flushInstVarGroup B P else ret ())"

fun run_group :: "('v, 'w) objects \<Rightarrow> prog \<Rightarrow> nat \<Rightarrow> (bool \<times> 'v) list \<Rightarrow> ('v, 'w, unit) act" where
  "run_group B P i [] = ret ()"
| "run_group B P i ((sends, v) # vs) =
     andThen (if sends then flush_active B P else ret ()) (\<lambda>_.
     andThen (push B v) (\<lambda>_.
     andThen (if vs = [] then ivar_group_end B P i else ivar_group B P i) (\<lambda>_. run_group B P (Suc i) vs)))"

text \<open>One write after the other.\<close>

definition write_all :: "('v, 'w) objects \<Rightarrow> 'v \<Rightarrow> (string \<times> 'v) list \<Rightarrow> 'w \<Rightarrow> 'w" where
  "write_all B self ps = fold (\<lambda>(n, v). ob_setAttribute B self n v) ps"

lemma write_all_simps [simp]:
  "write_all B self [] w = w" "write_all B self (ps @ qs) w = write_all B self qs (write_all B self ps w)"
  "write_all B self [(n, v)] w = ob_setAttribute B self n v w"
  by (simp_all add: write_all_def)

text \<open>The entries of a run of \<open>n\<close> writes that starts at \<open>first\<close>.\<close>

definition run_at :: "prog \<Rightarrow> nat \<Rightarrow> nat \<Rightarrow> nat \<Rightarrow> bool" where
  "run_at P m first n \<longleftrightarrow>
     first + n \<le> length (m_groups (pr_mods P m)) \<and>
     (\<forall>k<n. g_position (m_groups (pr_mods P m) ! (first + k)) = k \<and> g_count (m_groups (pr_mods P m) ! (first + k)) = n)"

definition run_names :: "prog \<Rightarrow> nat \<Rightarrow> nat \<Rightarrow> nat \<Rightarrow> string list" where
  "run_names P m first n = map (\<lambda>k. iv_symbol (pr_mods P m) (g_name (m_groups (pr_mods P m) ! (first + k)))) [0..<n]"

section \<open>The single steps\<close>

lemma store_step:
  assumes "mc_frames mc = f # fs" "getSelf f mc \<noteq> sp_none B"
  shows "storeInstVar B P c v mc =
    (Inr (), mc\<lparr>mc_world := ob_setAttribute B (getSelf f mc) (iv_symbol (code_of_frame P f) c) v (mc_world mc)\<rparr>)"
  using assms by (simp add: storeInstVar_def of_top_def with_top_def change_def world_def)

lemma flush_writes_step:
  assumes f: "mc_frames mc = f # fs" "getSelf f mc \<noteq> sp_none B" and r: "\<forall>k \<in> set ks. first + k < length (m_groups (code_of_frame P f))"
  shows "flush_writes B P first ks mc =
    (Inr (), mc\<lparr>mc_world := write_all B (getSelf f mc)
       (map (\<lambda>k. (iv_symbol (code_of_frame P f) (g_name (m_groups (code_of_frame P f) ! (first + k))), pending_value k f mc)) ks) (mc_world mc)\<rparr>)"
  using f r
proof (induction ks arbitrary: mc)
  case (Cons k ks)
  let ?w = "ob_setAttribute B (getSelf f mc) (iv_symbol (code_of_frame P f) (g_name (m_groups (code_of_frame P f) ! (first + k)))) (pending_value k f mc)"
  define mc1 where "mc1 = mc\<lparr>mc_world := ?w (mc_world mc)\<rparr>"
  have "flush_writes B P first (k # ks) mc = flush_writes B P first ks mc1"
    using Cons.prems store_step [OF Cons.prems(1,2)]
    by (simp add: group_entry_at_def of_top_def with_top_def andThen_def ret_def mc1_def)
  moreover have "pending_value i f mc1 = pending_value i f mc" "getSelf f mc1 = getSelf f mc" "mc_frames mc1 = f # fs" for i
    using Cons.prems(1) by (simp_all add: mc1_def pending_value_def getSelf_def)
  ultimately show ?case using Cons.IH [of mc1] Cons.prems by (simp add: mc1_def write_all_def)
qed (simp add: ret_def)

section \<open>The state within a run\<close>

text \<open>
  The first \<open>j\<close> values are on the operand stack; the first \<open>k\<close> writes are all
  pending, or all done.
\<close>

definition in_run :: "('v, 'w) objects \<Rightarrow> prog \<Rightarrow> nat \<Rightarrow> 'v list \<Rightarrow> 'v stack \<Rightarrow> 'w \<Rightarrow> nat \<Rightarrow> nat \<Rightarrow> nat \<Rightarrow>
    ('v, 'w) machine \<Rightarrow> bool" where
  "in_run B P first vs ss w0 cap j k mc \<longleftrightarrow>
     (\<exists>f fs. mc_frames mc = f # fs \<and> on_frame (pr_mods P) f mc \<and> f_maxStack f = cap \<and>
        snapshotFrames mc = on_last (\<lambda>s. s\<lparr>s_stack := s_stack s @ take j vs\<rparr>) ss \<and>
        (if f_groupActive f
         then f_groupPending f = k \<and> f_groupBase f = length (s_stack (last ss)) \<and> f_groupFirst f = first \<and> mc_world mc = w0
         else mc_world mc = write_all B (s_self (last ss)) (zip (run_names P (s_m (last ss)) first k) (take k vs)) w0))"

lemma on_last_last [simp]: "last (on_last g ss) = g (last ss)"
  by (simp add: on_last_def)

lemma snapshot_flags:
  assumes "on_frame mods f mc" "mc_frames mc = f # fs" "same_frame f g" "f_sp g = f_sp f" "f_pc g = f_pc f"
  shows "snapshotFrames (set_top g mc) = snapshotFrames mc" "on_frame mods g (set_top g mc)" "mc_frames (set_top g mc) = g # fs"
    "mc_world (set_top g mc) = mc_world mc" "mc_slots (set_top g mc) = mc_slots mc"
proof -
  have "saved_of mc g = saved_of mc f" using assms(3-5)
    by (simp add: saved_of_def same_frame_def getLocal_def getSelf_def getCaptured_def opStackBase_def localsBase_def)
  moreover have "saved_of (set_top g mc) = saved_of mc" by (rule saved_of_slots_only) (simp add: set_top_def)
  ultimately show "snapshotFrames (set_top g mc) = snapshotFrames mc" using assms(2) by (simp add: snapshotFrames_def set_top_def)
  show "on_frame mods g (set_top g mc)"
    using assms by (auto simp: on_frame_def set_top_def regions_ok_def frame_ok_def same_frame_def)
qed (simp_all add: assms(2) set_top_def)

lemma snapshot_world [simp]: "snapshotFrames (mc\<lparr>mc_world := w\<rparr>) = snapshotFrames mc"
  unfolding snapshotFrames_def by (simp add: saved_of_slots_only [of "mc\<lparr>mc_world := w\<rparr>" mc])

lemma on_frame_world [simp]: "on_frame mods f (mc\<lparr>mc_world := w\<rparr>) = on_frame mods f mc"
  by (simp add: on_frame_def regions_ok_def)

text \<open>What the snapshot says of the slots.\<close>

lemma run_slots:
  assumes f: "mc_frames mc = f # fs" and ss: "snapshotFrames mc = on_last (\<lambda>s. s\<lparr>s_stack := s_stack s @ xs\<rparr>) ss"
  shows "getSelf f mc = s_self (last ss)" "f_m f = s_m (last ss)" "f_sp f = length (s_stack (last ss)) + length xs"
    "j < length xs \<Longrightarrow> mc_slots mc (u32 (opStackBase f + (length (s_stack (last ss)) + j))) = xs ! j"
proof -
  have sv: "saved_of mc f = (last ss)\<lparr>s_stack := s_stack (last ss) @ xs\<rparr>" using snapshot_last [OF f] ss by simp
  have "s_self (saved_of mc f) = s_self (last ss)" "s_m (saved_of mc f) = s_m (last ss)" by (simp_all add: sv)
  then show "getSelf f mc = s_self (last ss)" "f_m f = s_m (last ss)" by (simp_all add: saved_of_def)
  have st: "map (\<lambda>j. mc_slots mc (u32 (opStackBase f + j))) [0..<f_sp f] = s_stack (last ss) @ xs"
    using arg_cong [OF sv, of s_stack] by (simp add: saved_of_def)
  from arg_cong [OF st, of length] show sp: "f_sp f = length (s_stack (last ss)) + length xs" by simp
  show "mc_slots mc (u32 (opStackBase f + (length (s_stack (last ss)) + j))) = xs ! j" if "j < length xs"
    using arg_cong [OF st, of "\<lambda>l. l ! (length (s_stack (last ss)) + j)"] that by (simp add: sp nth_append)
qed

text \<open>The send in front of a value writes what is pending.\<close>

lemma run_flush:
  assumes r: "in_run B P first vs ss w0 cap j k mc" "k \<le> j" "j \<le> length vs"
    and at: "run_at P (s_m (last ss)) first n" "k \<le> n" and self: "s_self (last ss) \<noteq> sp_none B"
  shows "\<exists>mc'. flush_active B P mc = (Inr (), mc') \<and> in_run B P first vs ss w0 cap j k mc'"
proof -
  obtain f fs where f: "mc_frames mc = f # fs" "on_frame (pr_mods P) f mc" "f_maxStack f = cap"
      "snapshotFrames mc = on_last (\<lambda>s. s\<lparr>s_stack := s_stack s @ take j vs\<rparr>) ss"
    and st: "if f_groupActive f
         then f_groupPending f = k \<and> f_groupBase f = length (s_stack (last ss)) \<and> f_groupFirst f = first \<and> mc_world mc = w0
         else mc_world mc = write_all B (s_self (last ss)) (zip (run_names P (s_m (last ss)) first k) (take k vs)) w0"
    using r(1) unfolding in_run_def by blast
  show ?thesis
  proof (cases "f_groupActive f")
    case False
    then show ?thesis using r(1) f(1) by (simp add: flush_active_def of_top_def with_top_def ret_def)
  next
    case True
    define g where "g = f\<lparr>f_groupActive := False, f_groupPending := 0\<rparr>"
    have g: "same_frame f g" "f_sp g = f_sp f" "f_pc g = f_pc f" "\<not> f_groupActive g" "f_maxStack g = cap"
      "f_groupBase g = length (s_stack (last ss))" "f_m g = f_m f" "opStackBase g = opStackBase f" "getSelf g = getSelf f"
      using st True f(3) by (simp_all add: g_def same_frame_def opStackBase_def getSelf_def fun_eq_iff)
    note fl = snapshot_flags [OF f(2,1) g(1-3)]
    note sl = run_slots [OF f(1,4)]
    let ?mc1 = "set_top g mc"
    have self1: "getSelf g ?mc1 = s_self (last ss)" using sl(1) by (simp add: getSelf_def g_def set_top_def)
    have in_range: "\<forall>i \<in> set [0..<k]. first + i < length (m_groups (code_of_frame P g))"
      using at sl(2) g(7) by (auto simp: run_at_def)
    have "map (\<lambda>i. (iv_symbol (code_of_frame P g) (g_name (m_groups (code_of_frame P g) ! (first + i))), pending_value i g ?mc1)) [0..<k] =
        zip (run_names P (s_m (last ss)) first k) (take k vs)"
    proof (rule nth_equalityI)
      fix i assume "i < length (map (\<lambda>i. (iv_symbol (code_of_frame P g) (g_name (m_groups (code_of_frame P g) ! (first + i))), pending_value i g ?mc1)) [0..<k])"
      then have i: "i < k" by simp
      then have "pending_value i g ?mc1 = vs ! i"
        using sl(4) [of i] r(2,3) g(6,8) fl(5) by (simp add: pending_value_def add.assoc)
      then show "map (\<lambda>i. (iv_symbol (code_of_frame P g) (g_name (m_groups (code_of_frame P g) ! (first + i))), pending_value i g ?mc1)) [0..<k] ! i =
          zip (run_names P (s_m (last ss)) first k) (take k vs) ! i"
        using i r(2,3) sl(2) g(7) by (simp add: run_names_def)
    qed (use r(2,3) in \<open>simp add: run_names_def\<close>)
    moreover have "flush_active B P mc = flush_writes B P first [0..<k] ?mc1"
      using True st f(1) by (simp add: flush_active_def flushInstVarGroup_def of_top_def upd_top_def with_top_def g_def)
    ultimately have "flush_active B P mc = (Inr (), ?mc1\<lparr>mc_world :=
        write_all B (s_self (last ss)) (zip (run_names P (s_m (last ss)) first k) (take k vs)) w0\<rparr>)"
      using flush_writes_step [OF fl(3) _ in_range, of B] self self1 fl(4) st True by simp
    then show ?thesis using fl g f(4) unfolding in_run_def by simp
  qed
qed

text \<open>A value, and the write that follows it.\<close>

lemma run_push:
  assumes r: "in_run B P first vs ss w0 cap k k mc" and k: "k < length vs" and room: "length (s_stack (last ss)) + length vs \<le> cap"
  shows "\<exists>mc'. push B (vs ! k) mc = (Inr (), mc') \<and> in_run B P first vs ss w0 cap (Suc k) k mc'"
proof -
  obtain f fs where f: "mc_frames mc = f # fs" "on_frame (pr_mods P) f mc" "f_maxStack f = cap"
      "snapshotFrames mc = on_last (\<lambda>s. s\<lparr>s_stack := s_stack s @ take k vs\<rparr>) ss"
    and st: "if f_groupActive f
         then f_groupPending f = k \<and> f_groupBase f = length (s_stack (last ss)) \<and> f_groupFirst f = first \<and> mc_world mc = w0
         else mc_world mc = write_all B (s_self (last ss)) (zip (run_names P (s_m (last ss)) first k) (take k vs)) w0"
    using r unfolding in_run_def by blast
  have "f_sp f = length (s_stack (last ss)) + k" using run_slots(3) [OF f(1,4)] k by simp
  then have sp: "f_sp f < f_maxStack f" using room k f(3) by simp
  obtain mc1 where p: "push B (vs ! k) mc = (Inr (), mc1)" "snapshotFrames mc1 = a_push (vs ! k) (snapshotFrames mc)"
      "on_frame (pr_mods P) f mc1" "mc_frames mc1 = f\<lparr>f_sp := f_sp f + 1\<rparr> # fs" "mc_world mc1 = mc_world mc"
    using refine_push [OF f(2,1) sp, of B "vs ! k"] by blast
  have "snapshotFrames mc1 = on_last (\<lambda>s. s\<lparr>s_stack := s_stack s @ take (Suc k) vs\<rparr>) ss"
    using p(2) k by (simp add: f(4) a_push_def on_last_def take_Suc_conv_app_nth)
  moreover have "on_frame (pr_mods P) (f\<lparr>f_sp := f_sp f + 1\<rparr>) mc1" using p(3,4) by (simp add: on_frame_def same_frame_def)
  ultimately show ?thesis using p st f(3) unfolding in_run_def by simp
qed

lemma run_entry:
  assumes "run_at P m first n" "k < n"
  shows "m_groups (pr_mods P m) ! (first + k) \<in> set (m_groups (pr_mods P m))" "first + k < length (m_groups (pr_mods P m))"
    "g_position (m_groups (pr_mods P m) ! (first + k)) = k" "g_count (m_groups (pr_mods P m) ! (first + k)) = n"
  using assms by (auto simp: run_at_def)

lemma run_names_Suc:
  "run_names P m first (Suc k) = run_names P m first k @ [iv_symbol (pr_mods P m) (g_name (m_groups (pr_mods P m) ! (first + k)))]"
  by (simp add: run_names_def)

lemma run_names_length [simp]: "length (run_names P m first k) = k"
  by (simp add: run_names_def)

lemma run_write:
  assumes r: "in_run B P first vs ss w0 cap (Suc k) k mc" and k: "k < length vs" "length vs \<le> 16"
    and at: "run_at P (s_m (last ss)) first (length vs)" and self: "s_self (last ss) \<noteq> sp_none B"
  shows "\<exists>mc'. ivar_group B P (first + k) mc = (Inr (), mc') \<and> in_run B P first vs ss w0 cap (Suc k) (Suc k) mc'"
proof -
  obtain f fs where f: "mc_frames mc = f # fs" "on_frame (pr_mods P) f mc" "f_maxStack f = cap"
      "snapshotFrames mc = on_last (\<lambda>s. s\<lparr>s_stack := s_stack s @ take (Suc k) vs\<rparr>) ss"
    and st: "if f_groupActive f
         then f_groupPending f = k \<and> f_groupBase f = length (s_stack (last ss)) \<and> f_groupFirst f = first \<and> mc_world mc = w0
         else mc_world mc = write_all B (s_self (last ss)) (zip (run_names P (s_m (last ss)) first k) (take k vs)) w0"
    using r unfolding in_run_def by blast
  note sl = run_slots [OF f(1,4)] and en = run_entry [OF at k(1)]
  let ?e = "m_groups (pr_mods P (s_m (last ss))) ! (first + k)"
  define g where "g = (if k = 0 then f\<lparr>f_groupActive := \<not> ob_attached B (mc_world mc), f_groupPending := 0, f_groupBase := f_sp f - 1,
      f_groupFirst := first + k\<rparr> else f)"
  define h where "h = (if f_groupActive g then g\<lparr>f_groupPending := Suc k\<rparr> else g)"
  have gh: "same_frame f g" "f_sp g = f_sp f" "f_pc g = f_pc f" "f_maxStack g = cap" "f_m g = f_m f"
    "same_frame f h" "f_sp h = f_sp f" "f_pc h = f_pc f" "f_maxStack h = cap" "getSelf g = getSelf f" "opStackBase g = opStackBase f"
    "f_groupActive h = f_groupActive g"
    using f(3) by (simp_all add: g_def h_def same_frame_def getSelf_def opStackBase_def fun_eq_iff)
  have gp: "f_groupActive g \<Longrightarrow> f_groupPending g = k \<and> f_groupBase g = length (s_stack (last ss)) \<and> f_groupFirst g = first \<and> mc_world mc = w0"
    and gn: "\<not> f_groupActive g \<Longrightarrow>
      mc_world mc = write_all B (s_self (last ss)) (zip (run_names P (s_m (last ss)) first k) (take k vs)) w0"
    using st sl(3) k by (auto simp: g_def run_names_def split: if_splits)
  have start: "ivar_group B P (first + k) mc = (if f_groupActive g then (Inr (), set_top h mc)
      else andThen peek (storeInstVar B P (g_name ?e)) (set_top g mc))"
  proof -
    have m: "f_m f = s_m (last ss)" by (rule sl(2))
    have "Suc k mod 2 ^ 16 = Suc k" using k by simp
    then show ?thesis using gp sl(1,3) k en self
      by (auto simp: ivar_group_def need_value_def group_entry_at_def of_top_def upd_top_def with_top_def andThen_def f(1) m ret_def
          set_top_def h_def g_def split: if_splits)
  qed
  show ?thesis
  proof (cases "f_groupActive g")
    case True
    then show ?thesis using start snapshot_flags [OF f(2,1) gh(6-8)] f(4) gh gp unfolding in_run_def by (simp add: h_def)
  next
    case False
    note fl = snapshot_flags [OF f(2,1) gh(1-3)]
    have "peek (set_top g mc) = (Inr (vs ! k), set_top g mc)"
      using sl(3) sl(4) [of k] k gh fl by (simp add: peek_def with_top_def)
    moreover have "getSelf g (set_top g mc) = s_self (last ss)" using sl(1) gh(10) by (simp add: getSelf_def set_top_def fun_eq_iff g_def)
    ultimately have "ivar_group B P (first + k) mc = (Inr (), (set_top g mc)\<lparr>mc_world :=
        ob_setAttribute B (s_self (last ss)) (iv_symbol (pr_mods P (s_m (last ss))) (g_name ?e)) (vs ! k) (mc_world mc)\<rparr>)"
      using start False store_step [OF fl(3), of B] self fl(4) sl(2) gh(5) by simp
    then show ?thesis using fl gh f(4) False gn k unfolding in_run_def
      by (simp add: run_names_Suc take_Suc_conv_app_nth)
  qed
qed

text \<open>Dropping values from the operand stack.\<close>

lemma snapshot_cut:
  assumes "on_frame mods f mc" "mc_frames mc = f # fs" "n \<le> f_sp f"
  shows "snapshotFrames (set_top (f\<lparr>f_sp := n\<rparr>) mc) = on_last (\<lambda>s. s\<lparr>s_stack := take n (s_stack s)\<rparr>) (snapshotFrames mc)"
    "on_frame mods (f\<lparr>f_sp := n\<rparr>) (set_top (f\<lparr>f_sp := n\<rparr>) mc)" "mc_frames (set_top (f\<lparr>f_sp := n\<rparr>) mc) = f\<lparr>f_sp := n\<rparr> # fs"
proof -
  have "saved_of mc (f\<lparr>f_sp := n\<rparr>) = saved_of mc f\<lparr>s_stack := take n (s_stack (saved_of mc f))\<rparr>" using assms(3)
    by (simp add: saved_of_def getLocal_def getSelf_def getCaptured_def opStackBase_def localsBase_def take_map)
  moreover have "saved_of (set_top (f\<lparr>f_sp := n\<rparr>) mc) = saved_of mc" by (rule saved_of_slots_only) (simp add: set_top_def)
  ultimately show "snapshotFrames (set_top (f\<lparr>f_sp := n\<rparr>) mc) = on_last (\<lambda>s. s\<lparr>s_stack := take n (s_stack s)\<rparr>) (snapshotFrames mc)"
    using assms(2) by (simp add: snapshotFrames_def on_last_def set_top_def)
  show "on_frame mods (f\<lparr>f_sp := n\<rparr>) (set_top (f\<lparr>f_sp := n\<rparr>) mc)"
    using assms by (auto simp: on_frame_def set_top_def regions_ok_def frame_ok_def same_frame_def)
qed (use assms(2) in \<open>simp add: set_top_def\<close>)

text \<open>The end of a run: the writes are done, whatever is pending, and the last value stays.\<close>

lemma run_end_writes:
  assumes r: "in_run B P first vs ss w0 cap (length vs) k mc" and k: "Suc k = length vs" "length vs \<le> 16"
    and at: "run_at P (s_m (last ss)) first (length vs)" and self: "s_self (last ss) \<noteq> sp_none B"
    and pub: "\<And>self ps w. ob_setAttributes B self ps w = write_all B self ps w"
  obtains g fs mc1 where "mc_frames mc1 = g # fs" "on_frame (pr_mods P) g mc1" "f_maxStack g = cap"
    "snapshotFrames mc1 = on_last (\<lambda>s. s\<lparr>s_stack := s_stack s @ vs\<rparr>) ss"
    "mc_world mc1 = write_all B (s_self (last ss)) (zip (run_names P (s_m (last ss)) first (length vs)) vs) w0"
    "ivar_group_end B P (first + k) mc =
       andThen pop (\<lambda>l. andThen (upd_top (\<lambda>f. f\<lparr>f_sp := u32 (f_sp f + 1 + 2 ^ 32 - length vs)\<rparr>)) (\<lambda>_. push B l)) mc1"
proof -
  obtain f fs where f: "mc_frames mc = f # fs" "on_frame (pr_mods P) f mc" "f_maxStack f = cap"
      "snapshotFrames mc = on_last (\<lambda>s. s\<lparr>s_stack := s_stack s @ vs\<rparr>) ss"
    and st: "if f_groupActive f
         then f_groupPending f = k \<and> f_groupBase f = length (s_stack (last ss)) \<and> f_groupFirst f = first \<and> mc_world mc = w0
         else mc_world mc = write_all B (s_self (last ss)) (zip (run_names P (s_m (last ss)) first k) (take k vs)) w0"
    using r unfolding in_run_def by auto
  note sl = run_slots [OF f(1,4)] and en = run_entry [OF at, of k]
  let ?e = "m_groups (pr_mods P (s_m (last ss))) ! (first + k)"
  have kl: "k < length vs" "vs \<noteq> []" using k by auto
  let ?rest = "andThen pop (\<lambda>l. andThen (upd_top (\<lambda>f. f\<lparr>f_sp := u32 (f_sp f + 1 + 2 ^ 32 - length vs)\<rparr>)) (\<lambda>_. push B l))"
  have no: "\<not> f_sp f < g_count ?e" using sl(3) en kl by simp
  show ?thesis
  proof (cases "f_groupActive f")
    case True
    define g where "g = f\<lparr>f_groupActive := False, f_groupPending := 0\<rparr>"
    have g: "same_frame f g" "f_sp g = f_sp f" "f_pc g = f_pc f" "f_maxStack g = cap" using f(3) by (simp_all add: g_def same_frame_def)
    note fl = snapshot_flags [OF f(2,1) g(1-3)]
    have vs: "map (\<lambda>j. opAt g (length vs - 1 - j) (set_top g mc)) [0..<length vs] = vs"
    proof (rule nth_equalityI)
      fix j assume "j < length (map (\<lambda>j. opAt g (length vs - 1 - j) (set_top g mc)) [0..<length vs])"
      then have j: "j < length vs" by simp
      have "opStackBase f + f_sp f - 1 - (length vs - 1 - j) = opStackBase f + (length (s_stack (last ss)) + j)"
        using sl(3) j by simp
      then show "map (\<lambda>j. opAt g (length vs - 1 - j) (set_top g mc)) [0..<length vs] ! j = vs ! j"
        using j sl(4) [OF j] by (simp add: opAt_def set_top_def g_def opStackBase_def)
    qed simp
    let ?mc1 = "(set_top g mc)\<lparr>mc_world := write_all B (s_self (last ss)) (zip (run_names P (s_m (last ss)) first (length vs)) vs) w0\<rparr>"
    have "getSelf g (set_top g mc) = s_self (last ss)" using sl(1) by (simp add: getSelf_def set_top_def g_def)
    moreover have "group_names P f first (length vs) = run_names P (s_m (last ss)) first (length vs)"
      using sl(2) by (simp add: group_names_def run_names_def)
    moreover have "first + k - k + length vs \<le> length (m_groups (pr_mods P (s_m (last ss))))" using at by (simp add: run_at_def)
    ultimately have "ivar_group_end B P (first + k) mc = ?rest ?mc1"
      using True no sl(2) en kl self st vs k(2) fl(3,4)
      by (simp add: ivar_group_end_def group_entry_at_def of_top_def upd_top_def with_top_def f(1) change_def world_def pub flip: g_def)
    then show ?thesis using that [of ?mc1 g fs] fl g f(4) by simp
  next
    case False
    let ?mc1 = "mc\<lparr>mc_world := write_all B (s_self (last ss)) (zip (run_names P (s_m (last ss)) first (length vs)) vs) w0\<rparr>"
    have "opStackBase f + f_sp f - 1 = opStackBase f + (length (s_stack (last ss)) + k)" "f_sp f \<noteq> 0" using sl(3) k(1) by linarith+
    then have "peek mc = (Inr (vs ! k), mc)" using sl(4) [OF kl(1)] by (simp add: peek_def with_top_def f(1))
    moreover have "write_all B (s_self (last ss)) (zip (run_names P (s_m (last ss)) first (length vs)) vs) w0 =
        ob_setAttribute B (s_self (last ss)) (iv_symbol (pr_mods P (s_m (last ss))) (g_name ?e)) (vs ! k) (mc_world mc)"
    proof -
      have "take k vs @ [vs ! k] = vs" using take_Suc_conv_app_nth [OF kl(1)] k(1) by simp
      then have "zip (run_names P (s_m (last ss)) first (length vs)) vs =
          zip (run_names P (s_m (last ss)) first k @ [iv_symbol (pr_mods P (s_m (last ss))) (g_name ?e)]) (take k vs @ [vs ! k])"
        using run_names_Suc [of P "s_m (last ss)" first k] k(1) by simp
      then show ?thesis using st False kl(1) by simp
    qed
    ultimately have "ivar_group_end B P (first + k) mc = ?rest ?mc1"
      using False no sl(1,2) en kl self store_step [OF f(1), of B]
      by (simp add: ivar_group_end_def group_entry_at_def of_top_def with_top_def f(1))
    then show ?thesis using that [of ?mc1 f fs] f by simp
  qed
qed

lemma run_end:
  assumes r: "in_run B P first vs ss w0 cap (length vs) k mc" and k: "Suc k = length vs" "length vs \<le> 16"
    and at: "run_at P (s_m (last ss)) first (length vs)" and self: "s_self (last ss) \<noteq> sp_none B"
    and pub: "\<And>self ps w. ob_setAttributes B self ps w = write_all B self ps w"
    and room: "length (s_stack (last ss)) + length vs \<le> cap"
  shows "\<exists>mc'. ivar_group_end B P (first + k) mc = (Inr (), mc') \<and> snapshotFrames mc' = a_push (last vs) ss \<and>
    mc_world mc' = write_all B (s_self (last ss)) (zip (run_names P (s_m (last ss)) first (length vs)) vs) w0"
proof -
  obtain g fs mc1 where g: "mc_frames mc1 = g # fs" "on_frame (pr_mods P) g mc1" "f_maxStack g = cap"
    and sn: "snapshotFrames mc1 = on_last (\<lambda>s. s\<lparr>s_stack := s_stack s @ vs\<rparr>) ss"
    and w: "mc_world mc1 = write_all B (s_self (last ss)) (zip (run_names P (s_m (last ss)) first (length vs)) vs) w0"
    and e: "ivar_group_end B P (first + k) mc =
       andThen pop (\<lambda>l. andThen (upd_top (\<lambda>f. f\<lparr>f_sp := u32 (f_sp f + 1 + 2 ^ 32 - length vs)\<rparr>)) (\<lambda>_. push B l)) mc1"
    by (rule run_end_writes [OF r k at self pub])
  let ?n = "length (s_stack (last ss))"
  let ?mc2 = "set_top (g\<lparr>f_sp := ?n\<rparr>) mc1"
  have ne: "vs \<noteq> []" using k by auto
  have lst: "last vs = vs ! k" using last_conv_nth [OF ne] by (simp flip: k(1))
  have sp: "f_sp g = ?n + Suc k" using run_slots(3) [OF g(1) sn] k by simp
  note cut = snapshot_cut [OF g(2,1), of ?n]
  have at1: "opStackBase g + f_sp g - 1 = opStackBase g + (?n + k)" "f_sp g - 1 = ?n + k" "f_sp g \<noteq> 0" "k < length vs"
    using sp k(1) by linarith+
  have "pop mc1 = (Inr (last vs), set_top (g\<lparr>f_sp := ?n + k\<rparr>) mc1)"
    unfolding pop_def with_top_def g(1) list.case using run_slots(4) [OF g(1) sn, of k] lst at1 by simp
  moreover have small: "?n < 2 ^ 32"
    using g(2) g(1) sp by (auto elim!: on_frameE simp: slot_geometry)
  moreover have "u32 (?n + k + 1 + 2 ^ 32 - length vs) = ?n"
    using small by (simp add: u32_def flip: k(1))
  ultimately have run: "ivar_group_end B P (first + k) mc = push B (last vs) ?mc2"
    using e by (simp add: upd_top_def with_top_def set_top_def)
  have c2: "mc_frames ?mc2 = g\<lparr>f_sp := ?n\<rparr> # fs" "on_frame (pr_mods P) (g\<lparr>f_sp := ?n\<rparr>) ?mc2" using cut sp by simp_all
  have "f_sp (g\<lparr>f_sp := ?n\<rparr>) < f_maxStack (g\<lparr>f_sp := ?n\<rparr>)" using room k g(3) by simp
  from refine_push [OF c2(2,1) this, of B "last vs"] obtain mc3 where
    "push B (last vs) ?mc2 = (Inr (), mc3)" "snapshotFrames mc3 = a_push (last vs) (snapshotFrames ?mc2)" "mc_world mc3 = mc_world ?mc2"
    by blast
  moreover have "snapshotFrames ?mc2 = on_last (\<lambda>s. s) ss" using cut(1) sp by (simp add: sn on_last_def)
  ultimately show ?thesis using run w by (simp add: a_push_def on_last_def set_top_def)
qed

lemma run_group_correct:
  assumes r: "in_run B P first (map snd ops) ss w0 cap k k mc" and k: "k < length ops" "length ops \<le> 16"
    and at: "run_at P (s_m (last ss)) first (length ops)" and self: "s_self (last ss) \<noteq> sp_none B"
    and pub: "\<And>self ps w. ob_setAttributes B self ps w = write_all B self ps w"
    and room: "length (s_stack (last ss)) + length ops \<le> cap"
  shows "\<exists>mc'. run_group B P (first + k) (drop k ops) mc = (Inr (), mc') \<and> snapshotFrames mc' = a_push (snd (last ops)) ss \<and>
    mc_world mc' = write_all B (s_self (last ss)) (zip (run_names P (s_m (last ss)) first (length ops)) (map snd ops)) w0"
  using r k(1)
proof (induction "length ops - Suc k" arbitrary: k mc)
  case (0 k)
  then have k: "Suc k = length ops" by simp
  obtain b where d: "drop k ops = [(b, map snd ops ! k)]" using k by (metis 0(3) Cons_nth_drop_Suc drop_all le_refl nth_map prod.collapse)
  obtain mc1 where 1: "(if b then flush_active B P else ret ()) mc = (Inr (), mc1)" "in_run B P first (map snd ops) ss w0 cap k k mc1"
    using run_flush [OF 0(2), of "length ops"] at self k 0(2) by (cases b) auto
  obtain mc2 where 2: "push B (map snd ops ! k) mc1 = (Inr (), mc2)" "in_run B P first (map snd ops) ss w0 cap (Suc k) k mc2"
    using run_push [OF 1(2)] 0(3) room by auto
  obtain mc3 where 3: "ivar_group_end B P (first + k) mc2 = (Inr (), mc3)" "snapshotFrames mc3 = a_push (last (map snd ops)) ss"
      "mc_world mc3 = write_all B (s_self (last ss)) (zip (run_names P (s_m (last ss)) first (length ops)) (map snd ops)) w0"
    using run_end [of B P first "map snd ops" ss w0 cap k mc2] 2(2) k assms(3) at self pub room by auto
  have "ops \<noteq> []" using k by auto
  then show ?case using d 1(1) 2(1) 3 by (simp add: last_map)
next
  case (Suc n k)
  have k: "Suc k < length ops" "n = length ops - Suc (Suc k)" using Suc(2) by simp_all
  obtain b where d: "drop k ops = (b, map snd ops ! k) # drop (Suc k) ops"
    using k(1) by (metis Cons_nth_drop_Suc Suc_lessD nth_map prod.collapse)
  obtain mc1 where 1: "(if b then flush_active B P else ret ()) mc = (Inr (), mc1)" "in_run B P first (map snd ops) ss w0 cap k k mc1"
    using run_flush [OF Suc(3), of "length ops"] at self k Suc(3) by (cases b) auto
  obtain mc2 where 2: "push B (map snd ops ! k) mc1 = (Inr (), mc2)" "in_run B P first (map snd ops) ss w0 cap (Suc k) k mc2"
    using run_push [OF 1(2)] k room by auto
  obtain mc3 where 3: "ivar_group B P (first + k) mc2 = (Inr (), mc3)" "in_run B P first (map snd ops) ss w0 cap (Suc k) (Suc k) mc3"
    using run_write [OF 2(2)] k assms(3) at self by auto
  have "drop (Suc k) ops \<noteq> []" using k by simp
  then show ?case using Suc(1) [OF k(2) 3(2) k(1)] d 1(1) 2(1) 3(1) by simp
qed


text \<open>Two variables are written, the second value is sent for.\<close>

definition writing_core :: core where
  "writing_core = empty_core\<lparr>m_consts := [mk_const C_Symbol 0 dbl_zero ''a'', mk_const C_Symbol 0 dbl_zero ''b''],
     m_groups := [\<lparr>g_name = 0, g_position = 0, g_count = 2\<rparr>, \<lparr>g_name = 1, g_position = 1, g_count = 2\<rparr>]\<rparr>"

definition appending :: "(nat, (string \<times> nat) list) objects \<Rightarrow> (nat, (string \<times> nat) list) objects" where
  "appending B = B\<lparr>sp_none := 1, ob_setAttribute := (\<lambda>self n v w. w @ [(n, v)]), ob_setAttributes := (\<lambda>self ps w. w @ ps)\<rparr>"

lemma fold_snoc: "fold (\<lambda>(n, v) w. w @ [(n, v)]) ps w = w @ ps"
  by (induction ps arbitrary: w) auto

lemma appending_writes: "ob_setAttributes (appending B) self ps w = write_all (appending B) self ps w" "write_all (appending B) self ps w = w @ ps"
  by (simp_all add: appending_def write_all_def fold_snoc)


end
