(* ===== verification/ReadyStack.thy ===== *)
theory ReadyStack
  imports Prelude
begin

unbundle bit_operations_syntax

text \<open>
  src/runtime/ReadyStack.h: the scheduler's lock-free stack of ready actors.
  The model interleaves the atomic steps of any number of threads (numbered by
  \<open>nat\<close>): each load, store, compare-and-swap and fetch-and-add of the source is
  one step, and \<open>compare_exchange_weak\<close> may fail for no reason.  The memory is
  sequentially consistent.  \<open>r_count\<close>, the copies of it the threads carry and
  the last argument of \<open>Read_Value\<close> are bookkeeping for the proofs: no step
  of the code depends on them.
\<close>

section \<open>Indices and head words\<close>

definition kNil :: "32 word" where "kNil = - 1"

definition kFirstChunkBits :: nat where "kFirstChunkBits = 8"
definition kMaxChunks :: nat where "kMaxChunks = 32 - kFirstChunkBits"
definition kCapacity :: nat where "kCapacity = 2 ^ 32 - 2 ^ kFirstChunkBits"

definition pack :: "64 word \<Rightarrow> 32 word \<Rightarrow> 64 word" where
  "pack generation idx = push_bit 32 generation OR ucast idx"

definition indexOf :: "64 word \<Rightarrow> 32 word" where
  "indexOf w = ucast w"

definition generationOf :: "64 word \<Rightarrow> 64 word" where
  "generationOf w = drop_bit 32 w"

fun bit_width :: "nat \<Rightarrow> nat" where
  "bit_width n = (if n = 0 then 0 else Suc (bit_width (n div 2)))"

declare bit_width.simps [simp del]

text \<open>The chunk an index falls in, and its place there.\<close>

definition chunk_of :: "nat \<Rightarrow> nat" where
  "chunk_of idx = bit_width (idx + 2 ^ kFirstChunkBits) - 1 - kFirstChunkBits"

definition offset_in_chunk :: "nat \<Rightarrow> nat" where
  "offset_in_chunk idx = idx + 2 ^ kFirstChunkBits - 2 ^ (kFirstChunkBits + chunk_of idx)"

section \<open>Threads\<close>

text \<open>The stack itself and its free list, each with its own head word.\<close>

datatype which = Ready | Free

text \<open>A push takes its node off the free list, a pop takes it off the stack.\<close>

datatype 'v purpose = For_Push 'v | For_Pop

fun source :: "'v purpose \<Rightarrow> which" where
  "source (For_Push v) = Free"
| "source For_Pop = Ready"

text \<open>Where a thread is in \<open>push\<close> or \<open>pop\<close>.\<close>

datatype 'v local =
    Idle
  | Unlink_Load "'v purpose"
  | Unlink_Got "'v purpose" "64 word" nat
  | Unlink_Cas "'v purpose" "64 word" "32 word" nat
  | Take_Fresh 'v
  | Install_Chunk "32 word" 'v
  | Write_Value "32 word" 'v
  | Read_Value "32 word" 'v
  | Link_Load which "32 word" 'v
  | Link_Got which "32 word" 'v "64 word" nat
  | Link_Cas which "32 word" 'v "64 word" nat
  | Count which 'v

record 'v ready =
  r_word :: "which \<Rightarrow> 64 word"
  r_fresh :: nat
  r_size :: int
  r_chunks :: "nat set"
  r_value :: "32 word \<Rightarrow> 'v"
  r_next :: "32 word \<Rightarrow> 32 word"
  r_loc :: "nat \<Rightarrow> 'v local"
  r_count :: "which \<Rightarrow> nat"

text \<open>What a step does as seen from outside.\<close>

datatype 'v event = Tau | Pushed 'v | Popped 'v | Found_Empty | Returned 'v | Threw

definition go :: "nat \<Rightarrow> 'v local \<Rightarrow> 'v ready \<Rightarrow> 'v ready" where
  "go t l s = s\<lparr>r_loc := (r_loc s)(t := l)\<rparr>"

definition initial :: "'v \<Rightarrow> 'v ready" where
  "initial v0 = \<lparr>r_word = (\<lambda>_. pack 0 kNil), r_fresh = 0, r_size = 0, r_chunks = {}, r_value = (\<lambda>_. v0),
     r_next = (\<lambda>_. kNil), r_loc = (\<lambda>_. Idle), r_count = (\<lambda>_. 0)\<rparr>"

section \<open>Steps\<close>

text \<open>
  \<open>head.load\<close>, at the start and, with the value the failed compare-and-swap
  wrote back, on every retry; a pop that sees an empty stack answers nothing.
\<close>

definition unlink_load :: "nat \<Rightarrow> 'v purpose \<Rightarrow> 'v ready \<Rightarrow> 'v event \<times> 'v ready" where
  "unlink_load t p s =
     (if p = For_Pop \<and> indexOf (r_word s Ready) = kNil then Found_Empty else Tau,
      go t (Unlink_Got p (r_word s (source p)) (r_count s (source p))) s)"

text \<open>A successful compare-and-swap installs the next generation.\<close>

definition set_word :: "which \<Rightarrow> 64 word \<Rightarrow> 32 word \<Rightarrow> 'v ready \<Rightarrow> 'v ready" where
  "set_word w old idx s =
     s\<lparr>r_word := (r_word s)(w := pack (generationOf old + 1) idx), r_count := (r_count s)(w := Suc (r_count s w))\<rparr>"

definition unlink_cas :: "bool \<Rightarrow> nat \<Rightarrow> 'v purpose \<Rightarrow> 64 word \<Rightarrow> 32 word \<Rightarrow> 'v ready \<Rightarrow> 'v event \<times> 'v ready" where
  "unlink_cas spurious t p old next s =
     (if r_word s (source p) = old \<and> \<not> spurious then
        (let s1 = set_word (source p) old next s; idx = indexOf old
         in case p of
              For_Push v \<Rightarrow> (Tau, go t (Write_Value idx v) s1)
            | For_Pop \<Rightarrow> (Popped (r_value s idx), go t (Read_Value idx (r_value s idx)) s1))
      else unlink_load t p s)"

definition link_cas :: "bool \<Rightarrow> nat \<Rightarrow> which \<Rightarrow> 32 word \<Rightarrow> 'v \<Rightarrow> 64 word \<Rightarrow> 'v ready \<Rightarrow> 'v event \<times> 'v ready" where
  "link_cas spurious t w idx v old s =
     (if r_word s w = old \<and> \<not> spurious
      then (if w = Ready then Pushed v else Tau, go t (Count w v) (set_word w old idx s))
      else (Tau, go t (Link_Got w idx v (r_word s w) (r_count s w)) s))"

text \<open>
  \<open>nextFresh_.fetch_add\<close>: the index of a node never used before, or
  \<open>std::bad_alloc\<close> when there is none left.
\<close>

definition take_fresh :: "nat \<Rightarrow> 'v \<Rightarrow> 'v ready \<Rightarrow> 'v event \<times> 'v ready" where
  "take_fresh t v s =
     (let fresh = r_fresh s; s1 = s\<lparr>r_fresh := fresh + 1\<rparr>
      in if fresh \<ge> kCapacity then (Threw, go t Idle s1)
         else (Tau, go t (Install_Chunk (word_of_nat fresh) v) s1))"

definition thread_step :: "bool \<Rightarrow> nat \<Rightarrow> 'v ready \<Rightarrow> 'v event \<times> 'v ready" where
  "thread_step spurious t s =
     (case r_loc s t of
        Idle \<Rightarrow> (Tau, s)
      | Unlink_Load p \<Rightarrow> unlink_load t p s
      | Unlink_Got p old g \<Rightarrow>
          (if indexOf old = kNil
           then (case p of For_Push v \<Rightarrow> (Tau, go t (Take_Fresh v) s) | For_Pop \<Rightarrow> (Tau, go t Idle s))
           else (Tau, go t (Unlink_Cas p old (r_next s (indexOf old)) g) s))
      | Unlink_Cas p old next g \<Rightarrow> unlink_cas spurious t p old next s
      | Take_Fresh v \<Rightarrow> take_fresh t v s
      | Install_Chunk idx v \<Rightarrow>
          (Tau, go t (Write_Value idx v) (s\<lparr>r_chunks := insert (chunk_of (unat idx)) (r_chunks s)\<rparr>))
      | Write_Value idx v \<Rightarrow> (Tau, go t (Link_Load Ready idx v) (s\<lparr>r_value := (r_value s)(idx := v)\<rparr>))
      | Read_Value idx _ \<Rightarrow> (Tau, go t (Link_Load Free idx (r_value s idx)) s)
      | Link_Load w idx v \<Rightarrow> (Tau, go t (Link_Got w idx v (r_word s w) (r_count s w)) s)
      | Link_Got w idx v old g \<Rightarrow>
          (Tau, go t (Link_Cas w idx v old g) (s\<lparr>r_next := (r_next s)(idx := indexOf old)\<rparr>))
      | Link_Cas w idx v old g \<Rightarrow> link_cas spurious t w idx v old s
      | Count w v \<Rightarrow>
          (if w = Ready then (Tau, go t Idle (s\<lparr>r_size := r_size s + 1\<rparr>))
           else (Returned v, go t Idle (s\<lparr>r_size := r_size s - 1\<rparr>))))"

definition approxSize :: "'v ready \<Rightarrow> nat" where
  "approxSize s = (if r_size s > 0 then nat (r_size s) else 0)"

text \<open>
  A head word comes back to a value a thread has seen only after \<open>2 ^ 32\<close>
  updates of it; no thread is to be that late.
\<close>

fun seen :: "'v local \<Rightarrow> (which \<times> nat) option" where
  "seen (Unlink_Got p old g) = Some (source p, g)"
| "seen (Unlink_Cas p old next g) = Some (source p, g)"
| "seen (Link_Got w i v old g) = Some (w, g)"
| "seen (Link_Cas w i v old g) = Some (w, g)"
| "seen _ = None"

definition in_time :: "'v ready \<Rightarrow> bool" where
  "in_time s \<longleftrightarrow> (\<forall>t w g. seen (r_loc s t) = Some (w, g) \<longrightarrow> r_count s w - g < 2 ^ 32)"

text \<open>Runs: threads call \<open>push\<close> and \<open>pop\<close> and step in any order.\<close>

inductive next_state :: "'v ready \<Rightarrow> 'v event \<Rightarrow> 'v ready \<Rightarrow> bool" where
  call_push: "r_loc s t = Idle \<Longrightarrow> next_state s Tau (go t (Unlink_Load (For_Push v)) s)"
| call_pop: "r_loc s t = Idle \<Longrightarrow> next_state s Tau (go t (Unlink_Load For_Pop) s)"
| run: "thread_step spurious t s = (ev, s') \<Longrightarrow> next_state s ev s'"

inductive reached :: "'v \<Rightarrow> 'v ready \<Rightarrow> bool" for v0 where
  start: "reached v0 (initial v0)"
| more: "reached v0 s \<Longrightarrow> in_time s \<Longrightarrow> next_state s ev s' \<Longrightarrow> reached v0 s'"

end
