(* ===== verification/ReadyStackInv.thy ===== *)
theory ReadyStackInv
  imports ReadyStack
begin

text \<open>
  The invariant of the lock-free stack, its refinement of an abstract LIFO
  stack, and the safety of its node pool.
\<close>

section \<open>Words\<close>

lemma bit_pack: "bit (pack g i) n \<longleftrightarrow> n < 64 \<and> (if n < 32 then bit i n else bit g (n - 32))"
  by (auto simp: pack_def bit_or_iff bit_push_bit_iff bit_ucast_iff dest: bit_imp_le_length)

lemma indexOf_pack [simp]: "indexOf (pack g i) = i"
  by (rule bit_word_eqI) (simp add: indexOf_def bit_ucast_iff bit_pack)

lemma pack_eq_iff: "pack (of_nat m) i = pack (of_nat n) j \<longleftrightarrow> m mod 2 ^ 32 = n mod 2 ^ 32 \<and> i = j"
proof
  assume eq: "pack (of_nat m) i = pack (of_nat n) j"
  have "bit m k = bit n k" if "k < 32" for k
    using bit_pack [of "of_nat m" i "k + 32"] bit_pack [of "of_nat n" j "k + 32"] eq that by (simp add: bit_of_nat_iff)
  then have "take_bit 32 m = take_bit 32 n" by (intro bit_eqI) (auto simp: bit_take_bit_iff)
  moreover have "i = j" using arg_cong [OF eq, of indexOf] by simp
  ultimately show "m mod 2 ^ 32 = n mod 2 ^ 32 \<and> i = j" by (simp only: take_bit_eq_mod)
next
  assume "m mod 2 ^ 32 = n mod 2 ^ 32 \<and> i = j"
  then have t: "take_bit 32 m = take_bit 32 n" and "i = j" by (simp_all only: take_bit_eq_mod)
  have "bit m k = bit n k" if "k < 32" for k
    using arg_cong [OF t, of "\<lambda>x. bit x k"] that by (simp add: bit_take_bit_iff)
  with \<open>i = j\<close> show "pack (of_nat m) i = pack (of_nat n) j"
    by (intro bit_word_eqI) (simp add: bit_pack bit_of_nat_iff)
qed

lemma generationOf_pack: "generationOf (pack (of_nat n) i) = of_nat (n mod 2 ^ 32)"
  unfolding take_bit_eq_mod [symmetric]
  by (rule bit_word_eqI) (auto simp: generationOf_def bit_drop_bit_eq bit_pack bit_of_nat_iff bit_take_bit_iff)

lemma pack_next: "pack (generationOf (pack (of_nat n) i) + 1) j = pack (of_nat (Suc n)) j"
proof -
  have "generationOf (pack (of_nat n) i) + 1 = of_nat (Suc (n mod 2 ^ 32))" by (simp add: generationOf_pack)
  then show ?thesis using pack_eq_iff [of "Suc (n mod 2 ^ 32)" j "Suc n" j] by (simp only: mod_Suc_eq)
qed

section \<open>Chunks\<close>

lemma bit_width_bounds: "n > 0 \<Longrightarrow> 2 ^ (bit_width n - 1) \<le> n \<and> n < 2 ^ bit_width n"
proof (induction n rule: bit_width.induct)
  case (1 n)
  show ?case
  proof (cases "n div 2 = 0")
    case True
    with 1 have "n = 1" by simp
    then show ?thesis by (simp add: bit_width.simps [of "Suc 0"] bit_width.simps [of 0])
  next
    case False
    let ?b = "bit_width (n div 2)"
    from False 1 have ih: "2 ^ (?b - 1) \<le> n div 2" "n div 2 < 2 ^ ?b" by auto
    have b: "?b = Suc (?b - 1)" using False by (simp add: bit_width.simps [of "n div 2"])
    have "2 * 2 ^ (?b - 1) \<le> n" "n < 2 * 2 ^ ?b" using ih by simp_all
    moreover have "(2 :: nat) * 2 ^ (?b - 1) = 2 ^ ?b" using b by (metis power_Suc)
    ultimately show ?thesis using 1(2) by (simp add: bit_width.simps [of n])
  qed
qed

lemma chunk_bounds:
  "2 ^ (kFirstChunkBits + chunk_of idx) \<le> idx + 2 ^ kFirstChunkBits"
  "idx + 2 ^ kFirstChunkBits < 2 ^ (kFirstChunkBits + chunk_of idx + 1)"
proof -
  let ?v = "idx + 2 ^ kFirstChunkBits"
  note b = bit_width_bounds [of ?v]
  have "bit_width ?v > kFirstChunkBits"
  proof (rule ccontr)
    assume "\<not> kFirstChunkBits < bit_width ?v"
    then have "(2 :: nat) ^ bit_width ?v \<le> 2 ^ kFirstChunkBits" by (intro power_increasing) simp_all
    with b show False by simp
  qed
  then have e: "kFirstChunkBits + chunk_of idx = bit_width ?v - 1" by (simp add: chunk_of_def)
  show "2 ^ (kFirstChunkBits + chunk_of idx) \<le> ?v" using b unfolding e by simp
  have "kFirstChunkBits + chunk_of idx + 1 = bit_width ?v" using e \<open>bit_width ?v > kFirstChunkBits\<close> by simp
  with b show "?v < 2 ^ (kFirstChunkBits + chunk_of idx + 1)" by simp
qed

lemma index_not_nil: "unat i < kCapacity \<Longrightarrow> i \<noteq> kNil"
  by (auto simp: kNil_def unsigned_minus_1_eq_mask mask_eq_exp_minus_1 kCapacity_def kFirstChunkBits_def)

lemma fresh_unat: "n < kCapacity \<Longrightarrow> unat (word_of_nat n :: 32 word) = n"
  by (simp add: kCapacity_def kFirstChunkBits_def unat_of_nat)

text \<open>
  The pool's addressing is sound: every index below the capacity falls in
  one of the \<open>kMaxChunks\<close> chunks, inside its \<open>2 ^ (kFirstChunkBits + k)\<close> nodes, no two
  indices share a place, and no index is the nil mark.
\<close>

theorem pool_addressing:
  "(\<forall>i < kCapacity. chunk_of i < kMaxChunks \<and> offset_in_chunk i < 2 ^ (kFirstChunkBits + chunk_of i) \<and>
      (word_of_nat i :: 32 word) \<noteq> kNil) \<and>
   inj (\<lambda>i. (chunk_of i, offset_in_chunk i))"
proof (intro conjI allI impI)
  fix i assume i: "i < kCapacity"
  have "(2 :: nat) ^ (kFirstChunkBits + chunk_of i) < 2 ^ 32"
    using chunk_bounds(1) [of i] i by (simp add: kCapacity_def kFirstChunkBits_def)
  then have "kFirstChunkBits + chunk_of i < 32" by (simp only: power_strict_increasing_iff)
  then show "chunk_of i < kMaxChunks" by (simp add: kMaxChunks_def)
  show "offset_in_chunk i < 2 ^ (kFirstChunkBits + chunk_of i)"
    using chunk_bounds [of i] by (simp add: offset_in_chunk_def)
  show "(word_of_nat i :: 32 word) \<noteq> kNil" using i fresh_unat [OF i] by (intro index_not_nil) simp
next
  show "inj (\<lambda>i. (chunk_of i, offset_in_chunk i))"
  proof (rule injI)
    fix i j assume "(chunk_of i, offset_in_chunk i) = (chunk_of j, offset_in_chunk j)"
    then have "chunk_of i = chunk_of j" "offset_in_chunk i = offset_in_chunk j" by simp_all
    then show "i = j" using chunk_bounds(1) [of i] chunk_bounds(1) [of j] by (simp add: offset_in_chunk_def)
  qed
qed

lemma pool_addressing_witness:
  "chunk_of 300 < kMaxChunks \<and> offset_in_chunk 300 < 2 ^ (kFirstChunkBits + chunk_of 300)"
proof -
  have "300 < kCapacity" by (simp add: kCapacity_def kFirstChunkBits_def)
  then show ?thesis using pool_addressing by blast
qed

section \<open>The invariant\<close>

fun linked :: "(32 word \<Rightarrow> 32 word) \<Rightarrow> 32 word list \<Rightarrow> 32 word \<Rightarrow> bool" where
  "linked nx [] i \<longleftrightarrow> i = kNil"
| "linked nx (x # xs) i \<longleftrightarrow> i = x \<and> x \<noteq> kNil \<and> linked nx xs (nx x)"

lemma linked_nil: "linked nx xs i \<Longrightarrow> i = kNil \<longleftrightarrow> xs = []"
  by (cases xs) auto

lemma linked_unique: "linked nx xs i \<Longrightarrow> linked nx ys i \<Longrightarrow> xs = ys"
proof (induction xs arbitrary: ys i)
  case (Cons x xs)
  then show ?case by (cases ys) auto
qed (cases, auto dest: linked_nil)

lemma linked_cong: "(\<And>x. x \<in> set xs \<Longrightarrow> nx x = nx' x) \<Longrightarrow> linked nx xs i = linked nx' xs i"
  by (induction xs arbitrary: i) auto

text \<open>The node a thread has to itself.\<close>

fun owned :: "'v local \<Rightarrow> 32 word option" where
  "owned (Install_Chunk i v) = Some i"
| "owned (Write_Value i v) = Some i"
| "owned (Read_Value i v) = Some i"
| "owned (Link_Load w i v) = Some i"
| "owned (Link_Got w i v old g) = Some i"
| "owned (Link_Cas w i v old g) = Some i"
| "owned _ = None"

definition taken :: "'v ready \<Rightarrow> 32 word \<Rightarrow> bool" where
  "taken s i \<longleftrightarrow> unat i < r_fresh s \<and> unat i < kCapacity"

definition usable :: "'v ready \<Rightarrow> 32 word \<Rightarrow> bool" where
  "usable s i \<longleftrightarrow> taken s i \<and> chunk_of (unat i) \<in> r_chunks s"

text \<open>A head word a thread has seen: an old one, or the present one.\<close>

definition view_ok :: "'v ready \<Rightarrow> which \<Rightarrow> 64 word \<Rightarrow> nat \<Rightarrow> bool" where
  "view_ok s w old g \<longleftrightarrow> g \<le> r_count s w \<and> old = pack (of_nat g) (indexOf old) \<and>
     (g = r_count s w \<longrightarrow> old = r_word s w) \<and> (indexOf old \<noteq> kNil \<longrightarrow> usable s (indexOf old))"

fun local_ok :: "'v ready \<Rightarrow> 'v local \<Rightarrow> bool" where
  "local_ok s (Unlink_Got p old g) = view_ok s (source p) old g"
| "local_ok s (Unlink_Cas p old nx g) =
     (view_ok s (source p) old g \<and> indexOf old \<noteq> kNil \<and> (g = r_count s (source p) \<longrightarrow> nx = r_next s (indexOf old)))"
| "local_ok s (Install_Chunk i v) = taken s i"
| "local_ok s (Write_Value i v) = usable s i"
| "local_ok s (Read_Value i v) = (usable s i \<and> r_value s i = v)"
| "local_ok s (Link_Load w i v) = (usable s i \<and> (w = Ready \<longrightarrow> r_value s i = v))"
| "local_ok s (Link_Got w i v old g) = (usable s i \<and> (w = Ready \<longrightarrow> r_value s i = v) \<and> view_ok s w old g)"
| "local_ok s (Link_Cas w i v old g) =
     (usable s i \<and> (w = Ready \<longrightarrow> r_value s i = v) \<and> view_ok s w old g \<and> r_next s i = indexOf old)"
| "local_ok s _ = True"

text \<open>\<open>ch\<close> holds the nodes of the two lists.\<close>

definition lists_ok :: "'v ready \<Rightarrow> (which \<Rightarrow> 32 word list) \<Rightarrow> bool" where
  "lists_ok s ch \<longleftrightarrow>
     (\<forall>w. linked (r_next s) (ch w) (indexOf (r_word s w)) \<and> distinct (ch w) \<and>
          r_word s w = pack (of_nat (r_count s w)) (indexOf (r_word s w)) \<and> list_all (usable s) (ch w)) \<and>
     set (ch Ready) \<inter> set (ch Free) = {}"

definition mine :: "nat \<Rightarrow> 'v ready \<Rightarrow> (which \<Rightarrow> 32 word list) \<Rightarrow> 32 word \<Rightarrow> bool" where
  "mine t s ch i \<longleftrightarrow> (\<forall>w. i \<notin> set (ch w)) \<and> (\<forall>u. u \<noteq> t \<longrightarrow> owned (r_loc s u) \<noteq> Some i)"

definition inv :: "'v ready \<Rightarrow> (which \<Rightarrow> 32 word list) \<Rightarrow> bool" where
  "inv s ch \<longleftrightarrow> lists_ok s ch \<and>
     (\<forall>t. local_ok s (r_loc s t) \<and> (\<forall>i. owned (r_loc s t) = Some i \<longrightarrow> mine t s ch i))"

lemma invD:
  assumes "inv s ch"
  shows "linked (r_next s) (ch w) (indexOf (r_word s w))" "distinct (ch w)"
    "r_word s w = pack (of_nat (r_count s w)) (indexOf (r_word s w))" "x \<in> set (ch w) \<Longrightarrow> usable s x"
    "set (ch Ready) \<inter> set (ch Free) = {}" "local_ok s (r_loc s t)" "owned (r_loc s t) = Some i \<Longrightarrow> mine t s ch i"
  using assms unfolding inv_def lists_ok_def list_all_iff by blast+

text \<open>A thread put out of the way, and back.\<close>

lemma go_sel [simp]:
  "r_word (go t l s) = r_word s" "r_fresh (go t l s) = r_fresh s" "r_size (go t l s) = r_size s"
  "r_chunks (go t l s) = r_chunks s" "r_value (go t l s) = r_value s" "r_next (go t l s) = r_next s"
  "r_count (go t l s) = r_count s" "r_loc (go t l s) = (r_loc s)(t := l)" "go t l (go t l' s) = go t l s"
  by (simp_all add: go_def)

lemma ok_go [simp]:
  "taken (go t l s) = taken s" "usable (go t l s) = usable s" "view_ok (go t l s) = view_ok s"
  "local_ok (go t l s) = local_ok s" "mine t (go t l s) = mine t s" "lists_ok (go t l s) = lists_ok s"
proof -
  show t: "taken (go t l s) = taken s" by (rule ext) (simp add: taken_def)
  then show u: "usable (go t l s) = usable s" by (intro ext) (simp add: usable_def)
  then show v: "view_ok (go t l s) = view_ok s" by (intro ext) (simp add: view_ok_def)
  show "local_ok (go t l s) = local_ok s"
  proof
    fix x show "local_ok (go t l s) x = local_ok s x" by (cases x) (simp_all add: t u v)
  qed
  show "mine t (go t l s) = mine t s" by (intro ext) (auto simp: mine_def)
  show "lists_ok (go t l s) = lists_ok s" by (rule ext) (simp add: lists_ok_def u)
qed

lemma inv_out:
  assumes "inv s ch"
  shows "inv (go t Idle s) ch"
  using assms by (auto simp: inv_def mine_def)

lemma inv_back:
  assumes "inv (go t Idle s) ch" "local_ok s l" "\<And>i. owned l = Some i \<Longrightarrow> mine t s ch i"
  shows "inv (go t l s) ch"
  unfolding inv_def
proof (intro conjI allI impI)
  show "lists_ok (go t l s) ch" using assms(1) by (simp add: inv_def)
  fix u
  show "local_ok (go t l s) (r_loc (go t l s) u)" using assms(1,2) invD(6) [OF assms(1), of u] by (cases "u = t") simp_all
  fix i assume o: "owned (r_loc (go t l s) u) = Some i"
  show "mine u (go t l s) ch i"
  proof (cases "u = t")
    case True
    with o assms(3) show ?thesis by simp
  next
    case False
    with o have m: "mine u (go t Idle s) ch i" using invD(7) [OF assms(1), of u] by simp
    moreover have "owned l \<noteq> Some i" using assms(3) [of i] False o by (auto simp: mine_def)
    ultimately show ?thesis by (auto simp: mine_def)
  qed
qed

section \<open>Updates of the shared state\<close>

text \<open>
  A state as good for what it holds: nothing that was usable is lost, and the
  heads, links and values a thread relies on are as before.
\<close>

lemma inv_same:
  assumes "inv z ch" "r_word z' = r_word z" "r_count z' = r_count z" "r_loc z' = r_loc z"
    and "\<And>i. taken z i \<Longrightarrow> taken z' i" "r_chunks z \<subseteq> r_chunks z'"
    and "\<And>t i. owned (r_loc z t) = Some i \<Longrightarrow> r_value z' i = r_value z i \<and> r_next z' i = r_next z i"
    and "\<And>w i. i \<in> set (ch w) \<Longrightarrow> r_next z' i = r_next z i"
  shows "inv z' ch"
proof -
  have us: "usable z i \<Longrightarrow> usable z' i" for i using assms(5,6) by (auto simp: usable_def)
  then have vo: "view_ok z w old g \<Longrightarrow> view_ok z' w old g" for w old g using assms(2,3) by (auto simp: view_ok_def)
  have "linked (r_next z') (ch w) (indexOf (r_word z' w)) = linked (r_next z) (ch w) (indexOf (r_word z w))" for w
    unfolding assms(2) by (rule linked_cong) (rule assms(8))
  then have lists: "lists_ok z' ch" using assms(1,2,3) us by (auto simp: inv_def lists_ok_def list_all_iff)
  have top: "indexOf old \<in> set (ch w)" if "view_ok z w old (r_count z w)" "indexOf old \<noteq> kNil" for w old
  proof -
    from that have "old = r_word z w" by (simp add: view_ok_def)
    with that(2) invD(1) [OF assms(1), of w] show ?thesis by (cases "ch w") auto
  qed
  have "local_ok z' (r_loc z t)" for t
  proof (cases "r_loc z t")
    case (Unlink_Cas p old nx g)
    with invD(6) [OF assms(1), of t] show ?thesis using vo assms(3) assms(8) [OF top] by auto
  qed (use invD(6) [OF assms(1), of t] vo us assms(5) assms(7) [of t] in auto)
  moreover have "mine t z ch i \<Longrightarrow> mine t z' ch i" for t i using assms(4) by (simp add: mine_def)
  ultimately show ?thesis using assms(1,4) lists unfolding inv_def by auto
qed

lemma inv_value: "inv z ch \<Longrightarrow> (\<And>t. owned (r_loc z t) \<noteq> Some i) \<Longrightarrow> inv (z\<lparr>r_value := (r_value z)(i := v)\<rparr>) ch"
  by (erule inv_same) (auto simp: taken_def)

lemma inv_next:
  "inv z ch \<Longrightarrow> (\<And>t. owned (r_loc z t) \<noteq> Some i) \<Longrightarrow> (\<And>w. i \<notin> set (ch w)) \<Longrightarrow>
   inv (z\<lparr>r_next := (r_next z)(i := n)\<rparr>) ch"
  by (erule inv_same) (auto simp: taken_def)

lemma inv_grow:
  "inv z ch \<Longrightarrow> inv (z\<lparr>r_fresh := r_fresh z + 1\<rparr>) ch" "inv z ch \<Longrightarrow> inv (z\<lparr>r_chunks := insert k (r_chunks z)\<rparr>) ch"
  "inv z ch \<Longrightarrow> inv (z\<lparr>r_size := n\<rparr>) ch"
  by (erule inv_same; auto simp: taken_def)+

text \<open>A successful compare-and-swap: threads that saw the old head are late now.\<close>

lemma set_word_sel [simp]:
  "r_word (set_word w old i z) = (r_word z)(w := pack (generationOf old + 1) i)"
  "r_count (set_word w old i z) = (r_count z)(w := Suc (r_count z w))"
  "r_loc (set_word w old i z) = r_loc z" "r_next (set_word w old i z) = r_next z" "r_value (set_word w old i z) = r_value z"
  "r_fresh (set_word w old i z) = r_fresh z" "r_chunks (set_word w old i z) = r_chunks z"
  "go t l (set_word w old i z) = set_word w old i (go t l z)"
  by (simp_all add: set_word_def go_def)

lemma inv_swap:
  assumes "inv z ch" "linked (r_next z) xs i" "distinct xs" "\<And>x. x \<in> set xs \<Longrightarrow> usable z x"
    and "\<And>x t. x \<in> set xs \<Longrightarrow> owned (r_loc z t) \<noteq> Some x" "\<And>v. v \<noteq> w \<Longrightarrow> set xs \<inter> set (ch v) = {}"
  shows "inv (set_word w (r_word z w) i z) (ch(w := xs))" (is "inv ?z ?ch")
proof -
  have us: "usable ?z = usable z" by (intro ext) (simp add: usable_def taken_def)
  have tk: "taken ?z = taken z" by (intro ext) (simp add: taken_def)
  have word: "r_word ?z w = pack (of_nat (Suc (r_count z w))) i"
    using pack_next [of "r_count z w" "indexOf (r_word z w)" i] invD(3) [OF assms(1), of w] by simp
  have lists: "lists_ok ?z ?ch"
    unfolding lists_ok_def
  proof (intro conjI allI)
    fix v
    show "linked (r_next ?z) (?ch v) (indexOf (r_word ?z v))" using assms(2) invD(1) [OF assms(1), of v] by simp
    show "distinct (?ch v)" using assms(3) invD(2) [OF assms(1), of v] by simp
    show "r_word ?z v = pack (of_nat (r_count ?z v)) (indexOf (r_word ?z v))"
      using word invD(3) [OF assms(1), of v] by (cases "v = w") simp_all
    show "list_all (usable ?z) (?ch v)" using assms(4) invD(4) [OF assms(1), of _ v] us by (auto simp: list_all_iff)
  next
    show "set (?ch Ready) \<inter> set (?ch Free) = {}"
      using assms(6) [of Ready] assms(6) [of Free] invD(5) [OF assms(1)] by (cases w) auto
  qed
  have vo: "view_ok z v old g \<Longrightarrow> view_ok ?z v old g" for v old g using us by (auto simp: view_ok_def)
  have "local_ok ?z (r_loc z t)" for t
  proof (cases "r_loc z t")
    case (Unlink_Cas p old nx g)
    with invD(6) [OF assms(1), of t] vo show ?thesis by (auto simp: view_ok_def)
  qed (use invD(6) [OF assms(1), of t] vo us tk in auto)
  moreover have "mine t z ch x \<Longrightarrow> owned (r_loc z t) = Some x \<Longrightarrow> mine t ?z ?ch x" for t x
    using assms(5) [of x t] by (auto simp: mine_def)
  ultimately show ?thesis using lists assms(1) unfolding inv_def by simp
qed

section \<open>The abstract stack\<close>

fun lifo_step :: "'v list \<Rightarrow> 'v event \<Rightarrow> 'v list \<Rightarrow> bool" where
  "lifo_step vs (Pushed v) vs' \<longleftrightarrow> vs' = v # vs"
| "lifo_step vs (Popped v) vs' \<longleftrightarrow> vs = v # vs'"
| "lifo_step vs Found_Empty vs' \<longleftrightarrow> vs = [] \<and> vs' = []"
| "lifo_step vs _ vs' \<longleftrightarrow> vs' = vs"

text \<open>The values on the stack, top first.\<close>

definition holds :: "'v ready \<Rightarrow> 'v list \<Rightarrow> bool" where
  "holds s vs \<longleftrightarrow> (\<exists>xs. linked (r_next s) xs (indexOf (r_word s Ready)) \<and> vs = map (r_value s) xs)"

lemma holds_unique: "holds s vs \<Longrightarrow> holds s vs' \<Longrightarrow> vs = vs'"
  unfolding holds_def using linked_unique by blast

definition refines :: "'v list \<Rightarrow> 'v event \<times> 'v ready \<Rightarrow> bool" where
  "refines vs r \<longleftrightarrow> (\<exists>ch. inv (snd r) ch \<and> lifo_step vs (fst r) (map (r_value (snd r)) (ch Ready)))"

lemma refinesI:
  assumes "inv (go t Idle s) ch" "local_ok s l" "\<And>i. owned l = Some i \<Longrightarrow> mine t s ch i"
    and "lifo_step vs ev (map (r_value s) (ch Ready))"
  shows "refines vs (ev, go t l s)"
  using inv_back [OF assms(1-3)] assms(4) by (auto simp: refines_def)

lemma view_now:
  assumes "inv s ch"
  shows "view_ok s w (r_word s w) (r_count s w)"
proof -
  have "usable s (indexOf (r_word s w))" if "indexOf (r_word s w) \<noteq> kNil"
    using that invD(4) [OF assms, of _ w] invD(1) [OF assms, of w] by (cases "ch w") auto
  then show ?thesis using invD(3) [OF assms, of w] by (simp add: view_ok_def)
qed

lemma step_unlink_load:
  assumes "inv s ch"
  shows "refines (map (r_value s) (ch Ready)) (unlink_load t p s)"
  unfolding unlink_load_def
proof (rule refinesI [OF inv_out [OF assms]])
  show "local_ok s (Unlink_Got p (r_word s (source p)) (r_count s (source p)))" using view_now [OF assms] by simp
  show "lifo_step (map (r_value s) (ch Ready))
     (if p = For_Pop \<and> indexOf (r_word s Ready) = kNil then Found_Empty else Tau) (map (r_value s) (ch Ready))"
    using linked_nil [OF invD(1) [OF assms, of Ready]] by simp
qed simp

text \<open>The word a timely thread saw is on the head only when it is the present one.\<close>

lemma cas_is_current:
  assumes "view_ok s w old g" "r_word s w = old" "inv s ch" "r_count s w - g < 2 ^ 32"
  shows "g = r_count s w"
proof -
  let ?c = "r_count s w"
  have "pack (of_nat ?c) (indexOf old) = pack (of_nat g) (indexOf old)"
    using assms(1,2) invD(3) [OF assms(3), of w] by (simp add: view_ok_def)
  then have "?c mod 2 ^ 32 = g mod 2 ^ 32" by (simp only: pack_eq_iff)
  moreover have "g \<le> ?c" using assms(1) by (simp add: view_ok_def)
  ultimately have "(?c - g) mod 2 ^ 32 = 0" by (metis mod_eq_dvd_iff_nat mod_0_imp_dvd dvd_imp_mod_0)
  with assms(4) \<open>g \<le> ?c\<close> show ?thesis by simp
qed

lemma step_unlink_cas:
  assumes "inv s ch" "in_time s" "r_loc s t = Unlink_Cas p old nx g"
  shows "refines (map (r_value s) (ch Ready)) (unlink_cas spurious t p old nx s)"
proof (cases "r_word s (source p) = old \<and> \<not> spurious")
  case False
  then have "unlink_cas spurious t p old nx s = unlink_load t p s" by (simp only: unlink_cas_def if_False)
  with step_unlink_load [OF assms(1)] show ?thesis by simp
next
  case True
  let ?w = "source p" and ?i = "indexOf old"
  have l: "view_ok s ?w old g" "?i \<noteq> kNil" "g = r_count s ?w \<longrightarrow> nx = r_next s ?i"
    using invD(6) [OF assms(1), of t] assms(3) by simp_all
  have "r_count s ?w - g < 2 ^ 32" using assms(2,3) unfolding in_time_def by (metis seen.simps(2))
  with cas_is_current [OF l(1) conjunct1 [OF True] assms(1)] l(3) have nx: "nx = r_next s ?i" by simp
  from invD(1) [OF assms(1), of ?w] True l(2) obtain xs where xs: "ch ?w = ?i # xs" "linked (r_next s) xs nx"
    unfolding nx by (cases "ch ?w") auto
  let ?ch = "ch(?w := xs)" and ?s = "set_word ?w old nx s"
  have "inv (set_word ?w (r_word (go t Idle s) ?w) nx (go t Idle s)) ?ch"
  proof (rule inv_swap [OF inv_out [OF assms(1)]])
    show "linked (r_next (go t Idle s)) xs nx" using xs(2) by simp
    show "distinct xs" using invD(2) [OF assms(1), of ?w] xs(1) by simp
    show "usable (go t Idle s) x" if "x \<in> set xs" for x using invD(4) [OF assms(1), of x ?w] xs(1) that by simp
    show "owned (r_loc (go t Idle s) u) \<noteq> Some x" if "x \<in> set xs" for x u
    proof
      assume "owned (r_loc (go t Idle s) u) = Some x"
      then have "mine u (go t Idle s) ch x" using invD(7) [OF inv_out [OF assms(1)]] by blast
      then have "x \<notin> set (ch ?w)" unfolding mine_def by blast
      with that xs(1) show False by simp
    qed
    show "set xs \<inter> set (ch v) = {}" if "v \<noteq> ?w" for v
      using invD(5) [OF assms(1)] that xs(1) by (cases v; cases p) auto
  qed
  then have inv': "inv (go t Idle ?s) ?ch" using True by simp
  have us: "usable ?s ?i" using invD(4) [OF assms(1), of ?i ?w] xs(1) by (simp add: usable_def taken_def)
  have mn: "mine t ?s ?ch ?i"
  proof -
    have "?i \<notin> set (?ch v)" for v
      using invD(2) [OF assms(1), of ?w] invD(5) [OF assms(1)] xs(1) by (cases v; cases p) auto
    moreover have "owned (r_loc s u) \<noteq> Some ?i" for u
      using invD(7) [OF assms(1), of u ?i] xs(1) unfolding mine_def by (metis list.set_intros(1))
    ultimately show ?thesis by (simp add: mine_def)
  qed
  show ?thesis
  proof (cases p)
    case (For_Push v)
    then have "unlink_cas spurious t p old nx s = (Tau, go t (Write_Value ?i v) ?s)"
      using True by (simp add: unlink_cas_def del: set_word_sel(8))
    moreover have "refines (map (r_value s) (ch Ready)) (Tau, go t (Write_Value ?i v) ?s)"
      using inv' us mn For_Push by (intro refinesI [where ch = ?ch]) auto
    ultimately show ?thesis by simp
  next
    case For_Pop
    then have "unlink_cas spurious t p old nx s = (Popped (r_value s ?i), go t (Read_Value ?i (r_value s ?i)) ?s)"
      using True by (simp add: unlink_cas_def Let_def del: set_word_sel(8))
    moreover have "refines (map (r_value s) (ch Ready)) (Popped (r_value s ?i), go t (Read_Value ?i (r_value s ?i)) ?s)"
      using inv' us mn xs(1) For_Pop by (intro refinesI [where ch = ?ch]) auto
    ultimately show ?thesis by simp
  qed
qed

lemma step_link_cas:
  assumes "inv s ch" "in_time s" "r_loc s t = Link_Cas w i v old g"
  shows "refines (map (r_value s) (ch Ready)) (link_cas spurious t w i v old s)"
proof (cases "r_word s w = old \<and> \<not> spurious")
  case False
  then have "link_cas spurious t w i v old s = (Tau, go t (Link_Got w i v (r_word s w) (r_count s w)) s)"
    by (simp only: link_cas_def if_False)
  moreover have "refines (map (r_value s) (ch Ready)) (Tau, go t (Link_Got w i v (r_word s w) (r_count s w)) s)"
    using invD(6) [OF assms(1), of t] invD(7) [OF assms(1), of t] view_now [OF assms(1)] assms(3)
    by (intro refinesI [OF inv_out [OF assms(1)]]) auto
  ultimately show ?thesis by simp
next
  case True
  have l: "usable s i" "w = Ready \<longrightarrow> r_value s i = v" "r_next s i = indexOf old"
    using invD(6) [OF assms(1), of t] assms(3) by simp_all
  have m: "i \<notin> set (ch w')" "u \<noteq> t \<longrightarrow> owned (r_loc s u) \<noteq> Some i" for w' u
    using invD(7) [OF assms(1), of t i] assms(3) by (auto simp: mine_def)
  have nn: "i \<noteq> kNil" using l(1) index_not_nil by (auto simp: usable_def taken_def)
  let ?ch = "ch(w := i # ch w)"
  have "inv (set_word w (r_word (go t Idle s) w) i (go t Idle s)) ?ch"
  proof (rule inv_swap [OF inv_out [OF assms(1)]])
    show "linked (r_next (go t Idle s)) (i # ch w) i" using l(3) nn invD(1) [OF assms(1), of w] True by simp
    show "distinct (i # ch w)" using invD(2) [OF assms(1), of w] m(1) by simp
    show "usable (go t Idle s) x" if "x \<in> set (i # ch w)" for x using invD(4) [OF assms(1), of x w] l(1) that by auto
    show "owned (r_loc (go t Idle s) u) \<noteq> Some x" if "x \<in> set (i # ch w)" for x u
      using that m(2) [of u] invD(7) [OF assms(1), of u x] by (auto simp: mine_def)
    show "set (i # ch w) \<inter> set (ch v) = {}" if "v \<noteq> w" for v
      using invD(5) [OF assms(1)] that m(1) by (cases v; cases w) auto
  qed
  then have inv': "inv (go t Idle (set_word w old i s)) ?ch" using True by simp
  have "link_cas spurious t w i v old s = (if w = Ready then Pushed v else Tau, go t (Count w v) (set_word w old i s))"
    using True by (simp add: link_cas_def del: set_word_sel(8))
  moreover have "refines (map (r_value s) (ch Ready)) (if w = Ready then Pushed v else Tau, go t (Count w v) (set_word w old i s))"
    using inv' l(2) by (cases w; intro refinesI [where ch = ?ch]) auto
  ultimately show ?thesis by simp
qed

section \<open>Every step\<close>

lemma fresh_mine:
  assumes "inv s ch" "r_fresh s < kCapacity"
  shows "mine t s ch (word_of_nat (r_fresh s))"
proof -
  have u: "unat (word_of_nat (r_fresh s) :: 32 word) = r_fresh s" by (rule fresh_unat [OF assms(2)])
  have "word_of_nat (r_fresh s) \<notin> set (ch w)" for w
    using invD(4) [OF assms(1), of "word_of_nat (r_fresh s)" w] u by (auto simp: usable_def taken_def)
  moreover have "owned (r_loc s x) \<noteq> Some (word_of_nat (r_fresh s))" for x
    using invD(6) [OF assms(1), of x] u by (cases "r_loc s x") (auto simp: usable_def taken_def)
  ultimately show ?thesis by (simp add: mine_def)
qed

lemma mine_sel [simp]:
  "mine t (s\<lparr>r_fresh := a\<rparr>) = mine t s" "mine t (s\<lparr>r_chunks := b\<rparr>) = mine t s" "mine t (s\<lparr>r_value := c\<rparr>) = mine t s"
  "mine t (s\<lparr>r_next := d\<rparr>) = mine t s" "mine t (s\<lparr>r_size := e\<rparr>) = mine t s"
  by (intro ext; simp add: mine_def)+

lemma go_upd:
  "go t l (s\<lparr>r_fresh := a\<rparr>) = (go t l s)\<lparr>r_fresh := a\<rparr>" "go t l (s\<lparr>r_chunks := b\<rparr>) = (go t l s)\<lparr>r_chunks := b\<rparr>"
  "go t l (s\<lparr>r_value := c\<rparr>) = (go t l s)\<lparr>r_value := c\<rparr>" "go t l (s\<lparr>r_next := d\<rparr>) = (go t l s)\<lparr>r_next := d\<rparr>"
  "go t l (s\<lparr>r_size := n\<rparr>) = (go t l s)\<lparr>r_size := n\<rparr>"
  by (simp_all add: go_def)

lemma step_refines:
  assumes "inv s ch" "in_time s"
  shows "refines (map (r_value s) (ch Ready)) (thread_step spurious t s)"
proof -
  note here = invD(6) [OF assms(1), of t] and own = invD(7) [OF assms(1), of t]
  note out = inv_out [OF assms(1), of t]
  let ?R = "refines (map (r_value s) (ch Ready))"
  have alone: "owned (r_loc (go t Idle s) u) \<noteq> Some i" if "owned (r_loc s t) = Some i" for i u
    using own [OF that] by (simp add: mine_def)
  show ?thesis
  proof (cases "r_loc s t")
    case Idle
    then show ?thesis using assms(1) by (auto simp: thread_step_def refines_def)
  next
    case (Unlink_Load p)
    then show ?thesis using step_unlink_load [OF assms(1)] by (simp add: thread_step_def)
  next
    case (Unlink_Got p old g)
    have "?R (Tau, go t (Unlink_Cas p old (r_next s (indexOf old)) g) s)" if "indexOf old \<noteq> kNil"
      using here Unlink_Got that by (intro refinesI [OF out]) simp_all
    moreover have "?R (Tau, go t (Take_Fresh v) s)" "?R (Tau, go t Idle s)" for v by (intro refinesI [OF out]; simp)+
    ultimately show ?thesis using Unlink_Got by (auto simp: thread_step_def split: purpose.split)
  next
    case (Unlink_Cas p old nx g)
    then show ?thesis using step_unlink_cas [OF assms Unlink_Cas] by (simp add: thread_step_def)
  next
    case (Take_Fresh v)
    have inv': "inv (go t Idle (s\<lparr>r_fresh := r_fresh s + 1\<rparr>)) ch" using inv_grow(1) [OF out] by (simp add: go_upd)
    have "?R (Threw, go t Idle (s\<lparr>r_fresh := r_fresh s + 1\<rparr>))" by (intro refinesI [OF inv']) simp_all
    moreover have "?R (Tau, go t (Install_Chunk (word_of_nat (r_fresh s)) v) (s\<lparr>r_fresh := r_fresh s + 1\<rparr>))"
      if "r_fresh s < kCapacity"
      using fresh_mine [OF assms(1) that] fresh_unat [OF that] that
      by (intro refinesI [OF inv']) (auto simp: taken_def)
    ultimately show ?thesis using Take_Fresh by (simp add: thread_step_def take_fresh_def Let_def)
  next
    case (Install_Chunk i v)
    let ?s = "s\<lparr>r_chunks := insert (chunk_of (unat i)) (r_chunks s)\<rparr>"
    have "inv (go t Idle ?s) ch" using inv_grow(2) [OF out] by (simp add: go_upd)
    then have "?R (Tau, go t (Write_Value i v) ?s)"
      using here own Install_Chunk by (intro refinesI [where ch = ch]) (auto simp: usable_def taken_def)
    then show ?thesis using Install_Chunk by (simp add: thread_step_def)
  next
    case (Write_Value i v)
    let ?s = "s\<lparr>r_value := (r_value s)(i := v)\<rparr>"
    have "inv (go t Idle ?s) ch" using inv_value [OF out alone] Write_Value by (simp add: go_upd)
    moreover have "map (r_value ?s) (ch Ready) = map (r_value s) (ch Ready)" using own Write_Value by (auto simp: mine_def)
    ultimately have "?R (Tau, go t (Link_Load Ready i v) ?s)"
      using here own Write_Value by (intro refinesI [where ch = ch]) (auto simp: usable_def taken_def)
    then show ?thesis using Write_Value by (simp add: thread_step_def)
  next
    case (Read_Value i v)
    have "?R (Tau, go t (Link_Load Free i (r_value s i)) s)"
      using here own Read_Value by (intro refinesI [OF out]) auto
    then show ?thesis using Read_Value by (simp add: thread_step_def)
  next
    case (Link_Load w i v)
    have "?R (Tau, go t (Link_Got w i v (r_word s w) (r_count s w)) s)"
      using here own view_now [OF assms(1)] Link_Load by (intro refinesI [OF out]) auto
    then show ?thesis using Link_Load by (simp add: thread_step_def)
  next
    case (Link_Got w i v old g)
    let ?s = "s\<lparr>r_next := (r_next s)(i := indexOf old)\<rparr>"
    have "inv (go t Idle ?s) ch" using inv_next [OF out alone] own Link_Got by (simp add: go_upd mine_def)
    then have "?R (Tau, go t (Link_Cas w i v old g) ?s)"
      using here own Link_Got by (intro refinesI [where ch = ch]) (auto simp: usable_def taken_def view_ok_def)
    then show ?thesis using Link_Got by (simp add: thread_step_def)
  next
    case (Link_Cas w i v old g)
    then show ?thesis using step_link_cas [OF assms Link_Cas] by (simp add: thread_step_def)
  next
    case (Count w v)
    have "inv (go t Idle (s\<lparr>r_size := n\<rparr>)) ch" for n using inv_grow(3) [OF out] by (simp add: go_upd)
    then have "?R (Tau, go t Idle (s\<lparr>r_size := n\<rparr>))" "?R (Returned v, go t Idle (s\<lparr>r_size := n\<rparr>))" for n
      by (intro refinesI [where ch = ch]; simp)+
    then show ?thesis using Count by (simp add: thread_step_def)
  qed
qed

lemma initial_inv: "inv (initial v0) (\<lambda>_. [])"
  by (auto simp: inv_def lists_ok_def initial_def)

lemma next_refines:
  assumes "inv s ch" "in_time s" "next_state s ev s'"
  shows "refines (map (r_value s) (ch Ready)) (ev, s')"
  using assms(3)
proof cases
  case (call_push t v)
  then show ?thesis by (auto intro!: refinesI [OF inv_out [OF assms(1)]])
next
  case (call_pop t)
  then show ?thesis by (auto intro!: refinesI [OF inv_out [OF assms(1)]])
next
  case (run spurious t)
  with step_refines [OF assms(1,2), of spurious t] show ?thesis by simp
qed

lemma reached_inv: "reached v0 s \<Longrightarrow> \<exists>ch. inv s ch"
proof (induction rule: reached.induct)
  case start
  show ?case by (rule exI) (rule initial_inv)
next
  case (more s ev s')
  then show ?case using next_refines by (fastforce simp: refines_def)
qed

lemma inv_holds: "inv s ch \<Longrightarrow> holds s (map (r_value s) (ch Ready))"
  using invD(1) unfolding holds_def by blast

text \<open>
  C7. The lock-free stack is a LIFO stack: however the threads interleave, every
  step of every thread either leaves the values on the stack alone or is a push
  of one value on top, a pop of the top value, or a pop that finds the stack
  empty, at one instant; a pop later answers exactly the value it took.  (No
  thread may sleep through \<open>2 ^ 32\<close> updates between its load and its
  compare-and-swap.)
\<close>

theorem ready_stack_lifo:
  assumes "reached v0 s" "in_time s" "next_state s ev s'"
  shows "(\<exists>vs vs'. holds s vs \<and> holds s' vs' \<and> lifo_step vs ev vs') \<and>
    (\<forall>t i v. r_loc s t = Read_Value i v \<longrightarrow> snd (thread_step spurious t s) = go t (Link_Load Free i v) s)"
proof -
  obtain ch where ch: "inv s ch" using reached_inv [OF assms(1)] by blast
  then obtain ch' where "inv s' ch'" "lifo_step (map (r_value s) (ch Ready)) ev (map (r_value s') (ch' Ready))"
    using next_refines [OF ch assms(2,3)] by (auto simp: refines_def)
  moreover have "snd (thread_step spurious t s) = go t (Link_Load Free i v) s" if "r_loc s t = Read_Value i v" for t i v
    using invD(6) [OF ch, of t] that by (simp add: thread_step_def)
  ultimately show ?thesis using inv_holds ch by blast
qed

text \<open>One thread calls \<open>push\<close> on the empty stack.\<close>

lemma ready_stack_lifo_witness:
  "\<exists>vs vs'. holds (initial (0 :: nat)) vs \<and>
     holds (go 3 (Unlink_Load (For_Push 7)) (initial 0)) vs' \<and> lifo_step vs Tau vs'"
proof -
  have "in_time (initial (0 :: nat))" by (simp add: in_time_def initial_def)
  moreover have "next_state (initial 0) Tau (go 3 (Unlink_Load (For_Push 7)) (initial (0 :: nat)))"
    by (rule next_state.call_push) (simp add: initial_def)
  ultimately show ?thesis by (rule ready_stack_lifo [OF reached.start, THEN conjunct1])
qed

section \<open>The node pool\<close>

text \<open>The node the next step of a thread reads or writes, and the one it writes.\<close>

fun touched :: "'v local \<Rightarrow> 32 word option" where
  "touched (Unlink_Got p old g) = (if indexOf old = kNil then None else Some (indexOf old))"
| "touched (Write_Value i v) = Some i"
| "touched (Read_Value i v) = Some i"
| "touched (Link_Got w i v old g) = Some i"
| "touched _ = None"

fun written :: "'v local \<Rightarrow> 32 word option" where
  "written (Write_Value i v) = Some i"
| "written (Link_Got w i v old g) = Some i"
| "written _ = None"

text \<open>
  C8. The pool is safe: a thread never follows an index, however stale, into a
  chunk that is not installed, and a node it writes is in neither list and in
  no other thread's hands.
\<close>

theorem node_access_safe:
  assumes "reached v0 s"
  shows "\<exists>ready free. linked (r_next s) ready (indexOf (r_word s Ready)) \<and>
    linked (r_next s) free (indexOf (r_word s Free)) \<and> distinct (ready @ free) \<and>
    (\<forall>t i. touched (r_loc s t) = Some i \<longrightarrow> chunk_of (unat i) \<in> r_chunks s) \<and>
    (\<forall>t u i. written (r_loc s t) = Some i \<longrightarrow>
       i \<notin> set ready \<and> i \<notin> set free \<and> (t \<noteq> u \<longrightarrow> touched (r_loc s u) = Some i \<longrightarrow> owned (r_loc s u) = None))"
proof -
  obtain ch where ch: "inv s ch" using reached_inv [OF assms] by blast
  have "chunk_of (unat i) \<in> r_chunks s" if "touched (r_loc s t) = Some i" for t i
    using invD(6) [OF ch, of t] that
    by (cases "r_loc s t") (auto simp: usable_def view_ok_def split: if_splits)
  moreover have "owned (r_loc s t) = Some i" if "written (r_loc s t) = Some i" for t i
    using that by (cases "r_loc s t") auto
  moreover have "touched (r_loc s u) = Some i \<Longrightarrow> owned (r_loc s u) = None \<or> owned (r_loc s u) = Some i" for u i
    by (cases "r_loc s u") (auto split: if_splits)
  ultimately have "(\<forall>t i. touched (r_loc s t) = Some i \<longrightarrow> chunk_of (unat i) \<in> r_chunks s) \<and>
    (\<forall>t u i. written (r_loc s t) = Some i \<longrightarrow>
       i \<notin> set (ch Ready) \<and> i \<notin> set (ch Free) \<and> (t \<noteq> u \<longrightarrow> touched (r_loc s u) = Some i \<longrightarrow> owned (r_loc s u) = None))"
    using invD(7) [OF ch] unfolding mine_def by metis
  moreover have "distinct (ch Ready @ ch Free)" using invD(2,5) [OF ch] by auto
  ultimately show ?thesis using invD(1) [OF ch] by blast
qed

lemma node_access_safe_witness:
  "\<exists>ready free. linked (r_next (initial (0 :: nat))) ready (indexOf (r_word (initial (0 :: nat)) Ready)) \<and>
     linked (r_next (initial (0 :: nat))) free (indexOf (r_word (initial (0 :: nat)) Free)) \<and> distinct (ready @ free)"
  using node_access_safe [OF reached.start, of "0 :: nat"] by blast

section \<open>Progress\<close>

definition solo :: "nat \<Rightarrow> 'v ready \<Rightarrow> 'v ready" where
  "solo t s = snd (thread_step False t s)"

text \<open>How many steps a thread needs that nobody disturbs.\<close>

fun steps_left :: "'v ready \<Rightarrow> 'v local \<Rightarrow> nat" where
  "steps_left s Idle = 0"
| "steps_left s (Count w v) = 1"
| "steps_left s (Link_Cas w i v old g) = (if old = r_word s w then 2 else 4)"
| "steps_left s (Link_Got w i v old g) = (if old = r_word s w then 3 else 5)"
| "steps_left s (Link_Load w i v) = 4"
| "steps_left s (Write_Value i v) = 5"
| "steps_left s (Read_Value i v) = 5"
| "steps_left s (Install_Chunk i v) = 6"
| "steps_left s (Take_Fresh v) = 7"
| "steps_left s (Unlink_Cas p old nx g) = (if old = r_word s (source p) then 6 else 9)"
| "steps_left s (Unlink_Got p old g) = (if old = r_word s (source p) then 8 else 10)"
| "steps_left s (Unlink_Load p) = 9"

lemma solo_progress:
  assumes "r_loc s t \<noteq> Idle"
  shows "steps_left (solo t s) (r_loc (solo t s) t) < steps_left s (r_loc s t)"
  using assms
  by (cases "r_loc s t")
    (auto simp: solo_def thread_step_def unlink_load_def unlink_cas_def link_cas_def take_fresh_def Let_def
      split: purpose.split)


end
