(* ===== verification/IntegerDivision.thy ===== *)
theory IntegerDivision
  imports Prelude "HOL-Library.Signed_Division"
begin

text \<open>
  src/primitives/IntegerDivision.h: truncating division of integers of any size.
  The integers of protoCore are \<open>int\<close>; its \<open>divide\<close> and \<open>modulo\<close>, which are
  trusted for divisors below \<open>2 ^ 62\<close> only, are the parameters \<open>pdivide\<close> and
  \<open>pmodulo\<close>.  \<open>sdiv\<close> and \<open>smod\<close> of the library round toward zero.
\<close>

definition fitsDivisorWord :: "int \<Rightarrow> bool" where
  "fitsDivisorWord v \<longleftrightarrow> v < 2 ^ 62 \<and> v > - (2 ^ 62)"

text \<open>The bit length of the dividend, rounded up to whole 32-bit groups.\<close>

function bit_groups :: "int \<Rightarrow> nat" where
  "bit_groups t = (if t > 0 then 32 + bit_groups (t div 2 ^ 32) else 0)"
  by pat_completeness auto
termination
  by (relation "measure nat") (auto simp: nat_less_iff)

declare bit_groups.simps [simp del]

text \<open>The loop from bit \<open>i - 1\<close> down to bit 0.\<close>

primrec long_division :: "int \<Rightarrow> int \<Rightarrow> nat \<Rightarrow> int \<times> int \<Rightarrow> int \<times> int" where
  "long_division x y 0 qr = qr"
| "long_division x y (Suc i) qr =
     (let (q, r) = qr;
          r1 = 2 * r + x div 2 ^ i mod 2;
          q1 = 2 * q
      in long_division x y i (if r1 \<ge> y then (q1 + 1, r1 - y) else (q1, r1)))"

definition truncDivMod :: "(int \<Rightarrow> int \<Rightarrow> int) \<Rightarrow> (int \<Rightarrow> int \<Rightarrow> int) \<Rightarrow> int \<Rightarrow> int \<Rightarrow> int \<times> int" where
  "truncDivMod pdivide pmodulo a b =
     (if fitsDivisorWord b then (pdivide a b, pmodulo a b)
      else
        (let negA = a < 0; negB = b < 0;
             x = (if negA then - a else a); y = (if negB then - b else b);
             (q, r) = long_division x y (bit_groups x) (0, 0)
         in (if negA \<noteq> negB then - q else q, if negA then - r else r)))"

definition integerQuotient :: "(int \<Rightarrow> int \<Rightarrow> int) \<Rightarrow> (int \<Rightarrow> int \<Rightarrow> int) \<Rightarrow> int \<Rightarrow> int \<Rightarrow> int" where
  "integerQuotient pdivide pmodulo a b = fst (truncDivMod pdivide pmodulo a b)"

definition integerRemainder :: "(int \<Rightarrow> int \<Rightarrow> int) \<Rightarrow> (int \<Rightarrow> int \<Rightarrow> int) \<Rightarrow> int \<Rightarrow> int \<Rightarrow> int" where
  "integerRemainder pdivide pmodulo a b = snd (truncDivMod pdivide pmodulo a b)"

section \<open>The long division\<close>

lemma bit_groups_bound: "x < 2 ^ bit_groups x"
proof (induction x rule: bit_groups.induct)
  case (1 t)
  show ?case
  proof (cases "t > 0")
    case True
    with 1 have "t div 2 ^ 32 < 2 ^ bit_groups (t div 2 ^ 32)" by simp
    then have "t div 2 ^ 32 + 1 \<le> 2 ^ bit_groups (t div 2 ^ 32)" by simp
    then have "2 ^ 32 * (t div 2 ^ 32 + 1) \<le> 2 ^ 32 * 2 ^ bit_groups (t div 2 ^ 32)" by simp
    moreover have "t < 2 ^ 32 * (t div 2 ^ 32 + 1)" by simp
    ultimately show ?thesis using True by (subst bit_groups.simps) (simp add: power_add)
  next
    case False
    then show ?thesis by (subst bit_groups.simps) simp
  qed
qed

lemma high_bits: "(x :: int) div 2 ^ i = 2 * (x div 2 ^ Suc i) + x div 2 ^ i mod 2"
proof -
  have "x div 2 ^ Suc i = x div 2 ^ i div 2" by (metis power_Suc2 zdiv_zmult2_eq zero_le_numeral)
  then show ?thesis by presburger
qed

lemma long_division_correct:
  assumes "0 \<le> x" "0 < y" "x div 2 ^ i = y * q + r" "0 \<le> r" "r < y"
  shows "long_division x y i (q, r) = (x div y, x mod y)"
  using assms(3-5)
proof (induction i arbitrary: q r)
  case 0
  then show ?case using div_mult_self4 [of y r q] assms(2)
    by (simp add: div_pos_pos_trivial mod_pos_pos_trivial)
next
  case (Suc i)
  let ?b = "x div 2 ^ i mod 2"
  let ?r = "2 * r + ?b"
  have e: "x div 2 ^ i = y * (2 * q) + ?r"
    using high_bits [of x i] Suc.prems(1) by (simp add: algebra_simps)
  have b: "0 \<le> ?b" "?b < 2" by simp_all
  show ?case
  proof (cases "y \<le> ?r")
    case True
    have "x div 2 ^ i = y * (2 * q + 1) + (?r - y)" using e by (simp add: algebra_simps)
    with True Suc.prems(2,3) b have "long_division x y i (2 * q + 1, ?r - y) = (x div y, x mod y)"
      by (intro Suc.IH) simp_all
    with True show ?thesis by (simp add: Let_def)
  next
    case False
    with e Suc.prems(2) b have "long_division x y i (2 * q, ?r) = (x div y, x mod y)" by (intro Suc.IH) simp_all
    with False show ?thesis by (simp add: Let_def)
  qed
qed

lemma long_division_whole:
  assumes "0 \<le> x" "0 < y"
  shows "long_division x y (bit_groups x) (0, 0) = (x div y, x mod y)"
  using assms bit_groups_bound [of x] by (intro long_division_correct) (simp_all add: div_pos_pos_trivial)

lemma trunc_div_mod_int:
  assumes "\<And>a b. fitsDivisorWord b \<Longrightarrow> b \<noteq> 0 \<Longrightarrow> pdivide a b = a sdiv b \<and> pmodulo a b = a smod b"
    and "b \<noteq> 0"
  shows "truncDivMod pdivide pmodulo a b = (a sdiv b, a smod b)"
proof (cases "fitsDivisorWord b")
  case True
  with assms show ?thesis by (simp add: truncDivMod_def)
next
  case False
  have l: "long_division (if a < 0 then - a else a) (if b < 0 then - b else b)
      (bit_groups (if a < 0 then - a else a)) (0, 0) =
    ((if a < 0 then - a else a) div (if b < 0 then - b else b), (if a < 0 then - a else a) mod (if b < 0 then - b else b))"
    using assms(2) by (intro long_division_whole) auto
  show ?thesis
    unfolding truncDivMod_def Let_def if_not_P [OF False] l prod.case
    by (auto simp: signed_divide_int_def signed_modulo_int_def sgn_if abs_if minus_mult_div_eq_mod [symmetric])
qed

text \<open>
  The division is truncating division for every dividend and every divisor
  but zero, provided that protoCore's own operations are for divisors below
  \<open>2 ^ 62\<close>: the binary long division that takes over beyond that, with its sign
  corrections, gives the same quotient and remainder, however large the numbers.
\<close>

theorem trunc_div_mod_correct:
  assumes "\<And>a b. fitsDivisorWord b \<Longrightarrow> b \<noteq> 0 \<Longrightarrow> pdivide a b = a sdiv b \<and> pmodulo a b = a smod b"
    and "b \<noteq> 0"
  shows "truncDivMod pdivide pmodulo a b = (a sdiv b, a smod b)"
  using assms by (rule trunc_div_mod_int)

lemma trunc_div_mod_correct_witness:
  "truncDivMod (sdiv) (smod) (- (2 ^ 140)) (2 ^ 70) = (- (2 ^ 140) sdiv 2 ^ 70, - (2 ^ 140) smod 2 ^ 70)"
  by (rule trunc_div_mod_correct) simp_all

end
