(* ===== verification/HandlerStack.thy ===== *)
theory HandlerStack
  imports Prelude
begin

text \<open>
  src/runtime/HandlerStack.h and .cpp: the stacks of active \<open>on:do:\<close> handlers, one
  for each thread, with ids drawn from one counter.  The innermost handler is
  the last of the list.  Objects are those of protoCore: their identity, their
  attributes, their parent test and the list an object is are the parameters in
  \<open>heap\<close>; a null pointer is \<open>None\<close>.
\<close>

record 'o heap =
  h_attr :: "'o \<Rightarrow> string \<Rightarrow> 'o option"
  h_none :: 'o
  h_list :: "'o \<Rightarrow> 'o option list option"
  h_parent :: "'o \<Rightarrow> 'o \<Rightarrow> bool"

record 'o handler =
  he_guard :: "'o option"
  he_block :: "'o option"
  he_id :: nat
  he_enabled :: bool

record 'o handlers =
  hs_next :: nat
  hs_stack :: "nat \<Rightarrow> 'o handler list"

definition no_handlers :: "'o handlers" where
  "no_handlers = \<lparr>hs_next = 1, hs_stack = (\<lambda>_. [])\<rparr>"

definition on_stack :: "nat \<Rightarrow> ('o handler list \<Rightarrow> 'o handler list) \<Rightarrow> 'o handlers \<Rightarrow> 'o handlers" where
  "on_stack t f s = s\<lparr>hs_stack := (hs_stack s)(t := f (hs_stack s t))\<rparr>"

section \<open>Pushing and popping\<close>

definition handlerStackPush :: "nat \<Rightarrow> 'o option \<Rightarrow> 'o option \<Rightarrow> 'o handlers \<Rightarrow> nat \<times> 'o handlers" where
  "handlerStackPush t guard block s =
     (hs_next s,
      on_stack t (\<lambda>st. st @ [\<lparr>he_guard = guard, he_block = block, he_id = hs_next s, he_enabled = True\<rparr>])
        (s\<lparr>hs_next := hs_next s + 1\<rparr>))"

text \<open>Searching from the top, the entry with the id is the last one.\<close>

fun erase_id :: "nat \<Rightarrow> 'o handler list \<Rightarrow> 'o handler list" where
  "erase_id i [] = []"
| "erase_id i (e # es) = (if he_id e = i \<and> i \<notin> he_id ` set es then es else e # erase_id i es)"

definition handlerStackPop :: "nat \<Rightarrow> nat \<Rightarrow> 'o handlers \<Rightarrow> 'o handlers" where
  "handlerStackPop t i s = on_stack t (erase_id i) s"

section \<open>Finding a handler\<close>

text \<open>The classes of an ExceptionSet: the list behind its instance variable.\<close>

definition guard_members :: "'o heap \<Rightarrow> 'o \<Rightarrow> 'o option list option" where
  "guard_members h g =
     (case h_attr h g ''_iv_exceptionClasses'' of
        None \<Rightarrow> None
      | Some m \<Rightarrow>
          if m = h_none h then None
          else (case h_attr h m ''__data__'' of
                  None \<Rightarrow> None
                | Some d \<Rightarrow> if d = h_none h then None else h_list h d))"

text \<open>A set may hold sets, itself too: \<open>fuel\<close> bounds the recursion, \<open>None\<close> is running out of it.\<close>

fun any_match :: "('o option \<Rightarrow> bool option) \<Rightarrow> 'o option list \<Rightarrow> bool option" where
  "any_match m [] = Some False"
| "any_match m (g # gs) = (case m g of None \<Rightarrow> None | Some b \<Rightarrow> if b then Some True else any_match m gs)"

fun matchesGuard :: "nat \<Rightarrow> 'o heap \<Rightarrow> 'o option \<Rightarrow> 'o option \<Rightarrow> 'o option \<Rightarrow> bool option" where
  "matchesGuard 0 h exc catch_all guard = None"
| "matchesGuard (Suc n) h exc catch_all guard =
     (case (exc, guard) of
        (Some x, Some g) \<Rightarrow>
          if x = g then Some True
          else if catch_all = Some g then Some True
          else (case guard_members h g of
                  Some ms \<Rightarrow> any_match (matchesGuard n h exc catch_all) ms
                | None \<Rightarrow> Some (h_parent h x g))
      | _ \<Rightarrow> Some False)"

text \<open>From the top down; the first argument tells which entries match.\<close>

fun newest :: "('o handler \<Rightarrow> bool option) \<Rightarrow> 'o handler list \<Rightarrow> 'o handler option option" where
  "newest m [] = Some None"
| "newest m (e # es) =
     (if \<not> he_enabled e then newest m es
      else case m e of None \<Rightarrow> None | Some b \<Rightarrow> if b then Some (Some e) else newest m es)"

text \<open>What is outer to an entry; the whole stack when it is not there.\<close>

fun before_id :: "nat \<Rightarrow> 'o handler list \<Rightarrow> 'o handler list option" where
  "before_id i [] = None"
| "before_id i (e # es) =
     (case before_id i es of
        Some r \<Rightarrow> Some (e # r)
      | None \<Rightarrow> if he_id e = i then Some [] else None)"

definition search_range :: "nat \<Rightarrow> 'o handler list \<Rightarrow> 'o handler list" where
  "search_range below st =
     (if below = 0 then st else case before_id below st of None \<Rightarrow> st | Some r \<Rightarrow> r)"

definition handlerStackFindMatch :: "nat \<Rightarrow> 'o heap \<Rightarrow> nat \<Rightarrow> 'o option \<Rightarrow> nat \<Rightarrow> 'o option \<Rightarrow> 'o handlers \<Rightarrow>
    'o handler option option" where
  "handlerStackFindMatch n h t exc below catch_all s =
     newest (\<lambda>e. matchesGuard n h exc catch_all (he_guard e)) (rev (search_range below (hs_stack s t)))"

definition handlerStackFindById :: "nat \<Rightarrow> nat \<Rightarrow> 'o handlers \<Rightarrow> 'o handler option" where
  "handlerStackFindById t i s = find (\<lambda>e. he_id e = i) (rev (hs_stack s t))"

section \<open>Disabling and restoring\<close>

text \<open>The ids flipped and the stack after; \<open>found\<close> is whether the target has been passed.\<close>

fun disable_from :: "nat \<Rightarrow> bool \<Rightarrow> 'o handler list \<Rightarrow> nat list \<times> 'o handler list" where
  "disable_from i found [] = ([], [])"
| "disable_from i found (e # es) =
     (let found' = (found \<or> he_id e = i); (ids, es') = disable_from i found' es
      in if found' \<and> he_enabled e then (he_id e # ids, e\<lparr>he_enabled := False\<rparr> # es') else (ids, e # es'))"

definition handlerStackDisableFrom :: "nat \<Rightarrow> nat \<Rightarrow> 'o handlers \<Rightarrow> nat list \<times> 'o handlers" where
  "handlerStackDisableFrom t i s =
     (let (ids, st) = disable_from i False (hs_stack s t) in (ids, on_stack t (\<lambda>_. st) s))"

definition handlerStackDisableAll :: "nat \<Rightarrow> 'o handlers \<Rightarrow> nat list \<times> 'o handlers" where
  "handlerStackDisableAll t s =
     (map he_id (filter he_enabled (hs_stack s t)), on_stack t (map (\<lambda>e. e\<lparr>he_enabled := False\<rparr>)) s)"

fun enable_id :: "nat \<Rightarrow> 'o handler list \<Rightarrow> 'o handler list" where
  "enable_id i [] = []"
| "enable_id i (e # es) =
     (if he_id e = i \<and> i \<notin> he_id ` set es then e\<lparr>he_enabled := True\<rparr> # es else e # enable_id i es)"

definition handlerStackRestore :: "nat \<Rightarrow> nat list \<Rightarrow> 'o handlers \<Rightarrow> 'o handlers" where
  "handlerStackRestore t ids s = on_stack t (\<lambda>st. foldl (\<lambda>st i. enable_id i st) st ids) s"

section \<open>Ids are unique\<close>

text \<open>The operations in any order on any threads.\<close>

inductive reaches :: "'o handlers \<Rightarrow> bool" where
  "reaches no_handlers"
| "reaches s \<Longrightarrow> reaches (snd (handlerStackPush t g b s))"
| "reaches s \<Longrightarrow> reaches (handlerStackPop t i s)"
| "reaches s \<Longrightarrow> reaches (snd (handlerStackDisableFrom t i s))"
| "reaches s \<Longrightarrow> reaches (snd (handlerStackDisableAll t s))"
| "reaches s \<Longrightarrow> reaches (handlerStackRestore t ids s)"

definition ids_of :: "'o handlers \<Rightarrow> nat \<Rightarrow> nat list" where
  "ids_of s t = map he_id (hs_stack s t)"

definition unique_ids :: "'o handlers \<Rightarrow> bool" where
  "unique_ids s \<longleftrightarrow> 0 < hs_next s \<and>
     (\<forall>t. sorted_wrt (<) (ids_of s t) \<and> set (ids_of s t) \<subseteq> {0<..<hs_next s}) \<and>
     (\<forall>t u. t \<noteq> u \<longrightarrow> set (ids_of s t) \<inter> set (ids_of s u) = {})"

lemma unique_idsD:
  assumes "unique_ids s"
  shows "0 < hs_next s" "sorted_wrt (<) (ids_of s t)" "set (ids_of s t) \<subseteq> {0<..<hs_next s}"
    "t \<noteq> u \<Longrightarrow> set (ids_of s t) \<inter> set (ids_of s u) = {}"
  using assms unfolding unique_ids_def by blast+

lemma erase_id_sub: "set (map he_id (erase_id i st)) \<subseteq> set (map he_id st)"
  by (induction st) auto

lemma erase_id_sorted: "sorted_wrt (<) (map he_id st) \<Longrightarrow> sorted_wrt (<) (map he_id (erase_id i st))"
proof (induction st)
  case (Cons e st)
  then show ?case using erase_id_sub [of i st] by (auto split: if_splits)
qed simp

lemma enable_id_ids [simp]: "map he_id (enable_id i st) = map he_id st"
  by (induction st) auto

lemma restore_ids [simp]: "map he_id (foldl (\<lambda>st i. enable_id i st) st ids) = map he_id st"
  by (induction ids arbitrary: st) auto

lemma disable_from_ids [simp]: "map he_id (snd (disable_from i f st)) = map he_id st"
  by (induction i f st rule: disable_from.induct) (auto simp: Let_def split_beta)

lemma fewer_ids:
  assumes "unique_ids s" "hs_next s' = hs_next s" "\<And>t. set (ids_of s' t) \<subseteq> set (ids_of s t)"
    and "\<And>t. sorted_wrt (<) (ids_of s' t)"
  shows "unique_ids s'"
  unfolding unique_ids_def
proof (intro conjI allI impI)
  fix t u :: nat
  show "0 < hs_next s'" using unique_idsD(1) [OF assms(1)] assms(2) by simp
  show "sorted_wrt (<) (ids_of s' t)" by (rule assms(4))
  show "set (ids_of s' t) \<subseteq> {0<..<hs_next s'}" using assms(3) [of t] unique_idsD(3) [OF assms(1), of t] assms(2) by simp
  assume "t \<noteq> u"
  from unique_idsD(4) [OF assms(1) this] show "set (ids_of s' t) \<inter> set (ids_of s' u) = {}"
    using assms(3) [of t] assms(3) [of u] by (meson disjoint_iff subsetD)
qed

lemma same_ids:
  assumes "unique_ids s" "\<And>st. map he_id (f st) = map he_id st"
  shows "unique_ids (on_stack t f s)"
proof (rule fewer_ids [OF assms(1)])
  have e: "ids_of (on_stack t f s) u = ids_of s u" for u by (simp add: ids_of_def on_stack_def assms(2))
  show "set (ids_of (on_stack t f s) u) \<subseteq> set (ids_of s u)" for u by (simp add: e)
  show "sorted_wrt (<) (ids_of (on_stack t f s) u)" for u using unique_idsD(2) [OF assms(1)] by (simp add: e)
qed (simp add: on_stack_def)

lemma push_ids:
  assumes "unique_ids s"
  shows "unique_ids (snd (handlerStackPush t g b s))" (is "unique_ids ?s")
proof -
  have e: "ids_of ?s u = ids_of s u @ (if u = t then [hs_next s] else [])" "hs_next ?s = Suc (hs_next s)" for u
    by (simp_all add: ids_of_def handlerStackPush_def on_stack_def)
  note d = unique_idsD [OF assms]
  have new: "hs_next s \<notin> set (ids_of s u)" for u using d(3) [of u] by auto
  show ?thesis
    unfolding unique_ids_def
  proof (intro conjI allI impI)
    fix u v :: nat
    show "sorted_wrt (<) (ids_of ?s u)" using d(2) [of u] d(3) [of u] by (auto simp: e sorted_wrt_append)
    show "set (ids_of ?s u) \<subseteq> {0<..<hs_next ?s}" using d(3) [of u] d(1) by (auto simp: e)
    assume "u \<noteq> v"
    with d(4) [of u v] new show "set (ids_of ?s u) \<inter> set (ids_of ?s v) = {}" by (auto simp: e)
  qed (simp add: e)
qed

lemma pop_ids:
  assumes "unique_ids s"
  shows "unique_ids (handlerStackPop t i s)"
proof (rule fewer_ids [OF assms])
  show "set (ids_of (handlerStackPop t i s) u) \<subseteq> set (ids_of s u)" for u
    using erase_id_sub [of i "hs_stack s t"] by (auto simp: handlerStackPop_def on_stack_def ids_of_def)
  show "sorted_wrt (<) (ids_of (handlerStackPop t i s) u)" for u
    using unique_idsD(2) [OF assms, of u] erase_id_sorted by (auto simp: handlerStackPop_def on_stack_def ids_of_def)
qed (simp add: handlerStackPop_def on_stack_def)

lemma disable_from_unique:
  assumes "unique_ids s"
  shows "unique_ids (snd (handlerStackDisableFrom t i s))"
proof -
  have "on_stack t (\<lambda>_. snd (disable_from i False (hs_stack s t))) s = on_stack t (\<lambda>st. snd (disable_from i False st)) s"
    by (simp add: on_stack_def)
  with same_ids [OF assms, of "\<lambda>st. snd (disable_from i False st)" t] show ?thesis
    by (simp add: handlerStackDisableFrom_def split_beta)
qed

lemma restore_unique: "unique_ids s \<Longrightarrow> unique_ids (handlerStackRestore t ids s)"
  by (simp add: handlerStackRestore_def same_ids)

lemma reaches_unique: "reaches s \<Longrightarrow> unique_ids s"
proof (induction rule: reaches.induct)
  case 1
  show ?case by (simp add: unique_ids_def no_handlers_def ids_of_def)
qed (simp_all add: push_ids pop_ids disable_from_unique restore_unique handlerStackDisableAll_def same_ids comp_def)

lemma unique_distinct: "unique_ids s \<Longrightarrow> distinct (map he_id (hs_stack s t))"
  using unique_idsD(2) [of s t] by (simp add: ids_of_def strict_sorted_iff)

text \<open>
  Handler ids are unique: whatever handlers the threads push, pop, disable
  and restore, in any order, each stack holds its entries in the order they
  were pushed, with ids drawn from the counter, and no two stacks share one.
\<close>

theorem handler_ids_unique:
  assumes "reaches s"
  shows "unique_ids s"
  using assms by (rule reaches_unique)

lemma handler_ids_unique_witness: "unique_ids (snd (handlerStackPush 2 (Some (7 :: nat)) None no_handlers))"
  by (rule handler_ids_unique) (intro reaches.intros)

section \<open>Disabling is undone\<close>

abbreviation off :: "'o handler \<Rightarrow> 'o handler" where
  "off e \<equiv> e\<lparr>he_enabled := False\<rparr>"

lemma enable_id_map:
  "distinct (map he_id st) \<Longrightarrow> enable_id i st = map (\<lambda>e. if he_id e = i then e\<lparr>he_enabled := True\<rparr> else e) st"
proof (induction st)
  case (Cons e st)
  from Cons.prems have ne: "he_id x \<noteq> he_id e" if "x \<in> set st" for x using that by (metis distinct.simps(2) imageI list.map(2) list.set_map)
  have "map (\<lambda>x. if he_id x = he_id e then x\<lparr>he_enabled := True\<rparr> else x) st = st" using ne by (intro map_idI) simp
  with Cons show ?case by auto
qed simp

lemma restore_map:
  "distinct (map he_id st) \<Longrightarrow>
   foldl (\<lambda>st i. enable_id i st) st ids = map (\<lambda>e. if he_id e \<in> set ids then e\<lparr>he_enabled := True\<rparr> else e) st"
proof (induction ids arbitrary: st)
  case (Cons i ids)
  have "distinct (map he_id (enable_id i st))" using Cons.prems by simp
  from Cons.IH [OF this] enable_id_map [OF Cons.prems, of i] show ?case by simp
qed simp

lemma disable_from_map:
  "distinct (map he_id st) \<Longrightarrow>
   snd (disable_from i f st) = map (\<lambda>e. if he_id e \<in> set (fst (disable_from i f st)) then off e else e) st \<and>
   set (fst (disable_from i f st)) \<subseteq> he_id ` {e \<in> set st. he_enabled e}"
proof (induction i f st rule: disable_from.induct)
  case (2 i f e es)
  let ?r = "disable_from i (f \<or> he_id e = i) es"
  have ih: "snd ?r = map (\<lambda>x. if he_id x \<in> set (fst ?r) then off x else x) es" "set (fst ?r) \<subseteq> he_id ` {x \<in> set es. he_enabled x}"
    using 2 by (auto simp: Let_def)
  have new: "he_id e \<notin> set (fst ?r)" using ih(2) 2(2) by auto
  have "map (\<lambda>x. if he_id x = he_id e \<or> he_id x \<in> set (fst ?r) then off x else x) es = snd ?r"
    unfolding ih(1)
  proof (intro map_cong refl)
    fix x assume "x \<in> set es"
    with 2(2) have "he_id x \<noteq> he_id e" by (metis distinct.simps(2) imageI list.map(2) list.set_map)
    then show "(if he_id x = he_id e \<or> he_id x \<in> set (fst ?r) then off x else x) =
        (if he_id x \<in> set (fst ?r) then off x else x)" by simp
  qed
  with ih new show ?case by (auto simp: Let_def split_beta)
qed simp

lemma undo_off:
  assumes "\<And>e. e \<in> set st \<Longrightarrow> he_id e \<in> S \<Longrightarrow> he_enabled e"
  shows "map (\<lambda>e. if he_id e \<in> S then e\<lparr>he_enabled := True\<rparr> else e) (map (\<lambda>e. if he_id e \<in> S then off e else e) st) = st"
  unfolding map_map using assms by (intro map_idI) auto

lemma restore_disable_from:
  assumes "distinct (map he_id st)"
  shows "foldl (\<lambda>st i. enable_id i st) (snd (disable_from i False st)) (fst (disable_from i False st)) = st"
proof -
  let ?S = "set (fst (disable_from i False st))"
  have m: "snd (disable_from i False st) = map (\<lambda>e. if he_id e \<in> ?S then off e else e) st"
    and sub: "?S \<subseteq> he_id ` {e \<in> set st. he_enabled e}" using disable_from_map [OF assms] by blast+
  have en: "he_enabled e" if "e \<in> set st" "he_id e \<in> ?S" for e
  proof -
    from sub that(2) obtain x where "x \<in> set st" "he_enabled x" "he_id x = he_id e" by auto
    then show ?thesis using inj_onD [OF assms [unfolded distinct_map, THEN conjunct2], of x e] that(1) by blast
  qed
  have "distinct (map he_id (snd (disable_from i False st)))" using assms by simp
  from restore_map [OF this] show ?thesis unfolding m using undo_off [OF en] by simp
qed

lemma distinct_ids: "reaches s \<Longrightarrow> distinct (map he_id (hs_stack s t))"
  by (simp add: unique_distinct reaches_unique)

lemma on_stack_twice [simp]: "on_stack t f (on_stack t g s) = on_stack t (f \<circ> g) s"
  by (simp add: on_stack_def)

lemma on_stack_id: "f (hs_stack s t) = hs_stack s t \<Longrightarrow> on_stack t f s = s"
  by (simp add: on_stack_def)

text \<open>
  Restoring undoes disabling: after a handler has run, or another actor's
  message has, the stack of the thread is exactly what it was, with the entries
  that were disabled before still disabled.
\<close>

theorem disable_restore:
  assumes "reaches s"
  shows "handlerStackRestore t (fst (handlerStackDisableFrom t i s)) (snd (handlerStackDisableFrom t i s)) = s \<and>
    handlerStackRestore t (fst (handlerStackDisableAll t s)) (snd (handlerStackDisableAll t s)) = s"
proof
  note d = distinct_ids [OF assms, of t]
  show "handlerStackRestore t (fst (handlerStackDisableFrom t i s)) (snd (handlerStackDisableFrom t i s)) = s"
    using restore_disable_from [OF d]
    by (simp add: handlerStackDisableFrom_def handlerStackRestore_def split_beta on_stack_id)
  let ?st = "hs_stack s t" and ?S = "set (map he_id (filter he_enabled (hs_stack s t)))"
  have en: "he_enabled e" if "e \<in> set ?st" "he_id e \<in> ?S" for e
    using that inj_onD [OF d [unfolded distinct_map, THEN conjunct2]] by fastforce
  have m: "map off ?st = map (\<lambda>e. if he_id e \<in> ?S then off e else e) ?st"
  proof (intro map_cong refl)
    fix e assume "e \<in> set ?st"
    then show "off e = (if he_id e \<in> ?S then off e else e)" by (cases "he_enabled e") (auto intro: handler.equality)
  qed
  have dd: "distinct (map he_id (map off ?st))" using d by (simp add: comp_def)
  have "foldl (\<lambda>st i. enable_id i st) (map off ?st) (map he_id (filter he_enabled ?st)) =
      map (\<lambda>e. if he_id e \<in> ?S then e\<lparr>he_enabled := True\<rparr> else e) (map off ?st)" by (rule restore_map [OF dd])
  also have "\<dots> = ?st" unfolding m by (rule undo_off) (rule en)
  finally have "foldl (\<lambda>st i. enable_id i st) (map off ?st) (map he_id (filter he_enabled ?st)) = ?st" .
  then show "handlerStackRestore t (fst (handlerStackDisableAll t s)) (snd (handlerStackDisableAll t s)) = s"
    by (simp add: handlerStackDisableAll_def handlerStackRestore_def on_stack_id)
qed

lemma disable_restore_witness:
  "let s = snd (handlerStackPush 2 (Some (7 :: nat)) None no_handlers)
   in handlerStackRestore 2 (fst (handlerStackDisableFrom 2 1 s)) (snd (handlerStackDisableFrom 2 1 s)) = s \<and>
      handlerStackRestore 2 (fst (handlerStackDisableAll 2 s)) (snd (handlerStackDisableAll 2 s)) = s"
  unfolding Let_def by (rule disable_restore) (intro reaches.intros)

section \<open>A signal goes to an outer handler\<close>

lemma newest_disabled: "list_all (\<lambda>e. \<not> he_enabled e) xs \<Longrightarrow> newest m (xs @ ys) = newest m ys"
  by (induction xs) auto

lemma disable_from_found: "list_all (\<lambda>e. \<not> he_enabled e) (snd (disable_from i True st))"
  by (induction st) (auto simp: Let_def split_beta)

lemma disable_from_split:
  "before_id i st = Some outer \<Longrightarrow> distinct (map he_id st) \<Longrightarrow>
   \<exists>inner. snd (disable_from i False st) = outer @ inner \<and> list_all (\<lambda>e. \<not> he_enabled e) inner"
proof (induction st arbitrary: outer)
  case (Cons e st)
  show ?case
  proof (cases "he_id e = i")
    case True
    have "before_id i st = None"
    proof (rule ccontr)
      assume "before_id i st \<noteq> None"
      then have "i \<in> he_id ` set st" by (induction st) (auto split: option.splits if_splits)
      with True Cons.prems(2) show False by auto
    qed
    with Cons.prems(1) True have "outer = []" by simp
    with True disable_from_found [of i st] show ?thesis by (auto simp: Let_def split_beta)
  next
    case False
    with Cons.prems obtain r where "before_id i st = Some r" "outer = e # r" by (auto split: option.splits)
    with Cons False show ?thesis by (auto simp: Let_def split_beta)
  qed
qed simp

text \<open>
  A signal raised while a handler runs goes to an outer handler: once the
  entry \<open>i\<close> and those inside it are disabled, the search finds exactly what a
  \<open>pass\<close> from \<open>i\<close> finds on the untouched stack, the newest enabled entry outside
  \<open>i\<close> whose guard matches, and never \<open>i\<close> itself.
\<close>

theorem signal_goes_outer:
  assumes "reaches s" "before_id i (hs_stack s t) = Some outer" "i \<noteq> 0"
  shows "handlerStackFindMatch n h t exc 0 ca (snd (handlerStackDisableFrom t i s)) =
      newest (\<lambda>e. matchesGuard n h exc ca (he_guard e)) (rev outer) \<and>
    handlerStackFindMatch n h t exc i ca s =
      newest (\<lambda>e. matchesGuard n h exc ca (he_guard e)) (rev outer) \<and> i \<notin> he_id ` set outer"
proof -
  obtain inner where i: "snd (disable_from i False (hs_stack s t)) = outer @ inner" "list_all (\<lambda>e. \<not> he_enabled e) inner"
    using disable_from_split [OF assms(2) distinct_ids [OF assms(1)]] by blast
  have "\<exists>e rest. st = out @ e # rest \<and> he_id e = i" if "before_id i st = Some out" for out st
    using that
  proof (induction st arbitrary: out)
    case (Cons e st)
    then show ?case by (auto split: option.splits if_splits)
  qed simp
  from this [OF assms(2)] obtain e rest where "hs_stack s t = outer @ e # rest" "he_id e = i" by blast
  with distinct_ids [OF assms(1), of t] have "i \<notin> he_id ` set outer" by auto
  moreover have "newest m (rev inner @ rev outer) = newest m (rev outer)" for m
    using i(2) by (intro newest_disabled) (auto simp: list_all_iff)
  ultimately show ?thesis using i(1) assms(2,3)
    by (simp add: handlerStackFindMatch_def search_range_def handlerStackDisableFrom_def split_beta on_stack_def)
qed

definition two_handlers :: "nat handlers" where
  "two_handlers = snd (handlerStackPush 0 (Some 8) None (snd (handlerStackPush 0 (Some 7) None no_handlers)))"

definition flat_heap :: "nat heap" where
  "flat_heap = \<lparr>h_attr = (\<lambda>_ _. None), h_none = 0, h_list = (\<lambda>_. None), h_parent = (<)\<rparr>"

lemma signal_goes_outer_witness:
  "handlerStackFindMatch 1 flat_heap 0 (Some 5) 0 None (snd (handlerStackDisableFrom 0 2 two_handlers)) =
     Some (Some \<lparr>he_guard = Some 7, he_block = None, he_id = 1, he_enabled = True\<rparr>)"
proof -
  have "reaches two_handlers" unfolding two_handlers_def by (intro reaches.intros)
  moreover have "before_id 2 (hs_stack two_handlers 0) =
      Some [\<lparr>he_guard = Some 7, he_block = None, he_id = 1, he_enabled = True\<rparr>]"
    by (simp add: two_handlers_def handlerStackPush_def no_handlers_def on_stack_def)
  ultimately have "handlerStackFindMatch 1 flat_heap 0 (Some 5) 0 None (snd (handlerStackDisableFrom 0 2 two_handlers)) =
      newest (\<lambda>e. matchesGuard 1 flat_heap (Some 5) None (he_guard e))
        (rev [\<lparr>he_guard = Some 7, he_block = None, he_id = 1, he_enabled = True\<rparr>])"
    using signal_goes_outer [of two_handlers 2 0 _ 1 flat_heap "Some 5" None] by simp
  then show ?thesis by (simp add: flat_heap_def guard_members_def)
qed

end
