(* ===== verification/BreakpointTable.thy ===== *)
theory BreakpointTable
  imports Prelude "HOL-Library.AList"
begin

text \<open>
  src/debugger/BreakpointTable.h and .cpp.  A \<open>shared_ptr<BreakpointSpec>\<close> is a
  number, and the specs themselves are in \<open>bt_specs\<close>: an entry and whoever holds
  the pointer see the same hit counter.  The hash map is an association list.
  Every operation runs under the table's lock, so it is one step.
\<close>

datatype hit_op = Hit_None | Hit_Eq | Hit_Ge | Hit_Gt | Hit_Lt | Hit_Le | Hit_Mod

record spec =
  bp_condition :: string
  bp_hitOp :: hit_op
  bp_hitN :: int
  bp_isLogpoint :: bool
  bp_logMessage :: string
  bp_hits :: int

definition plain_spec :: spec where
  "plain_spec = \<lparr>bp_condition = [], bp_hitOp = Hit_None, bp_hitN = 0, bp_isLogpoint = False,
     bp_logMessage = [], bp_hits = 0\<rparr>"

definition plain :: "spec \<Rightarrow> bool" where
  "plain b \<longleftrightarrow> bp_condition b = [] \<and> bp_hitOp b = Hit_None \<and> \<not> bp_isLogpoint b"

section \<open>Hit conditions\<close>

text \<open>Whether the hit condition selects the \<open>n\<close>-th hit.\<close>

fun selects :: "hit_op \<Rightarrow> int \<Rightarrow> int \<Rightarrow> bool" where
  "selects Hit_None k n = True"
| "selects Hit_Eq k n = (n = k)"
| "selects Hit_Ge k n = (n \<ge> k)"
| "selects Hit_Gt k n = (n > k)"
| "selects Hit_Lt k n = (n < k)"
| "selects Hit_Le k n = (n \<le> k)"
| "selects Hit_Mod k n = (k > 0 \<and> n mod k = 0)"

definition countHit :: "spec \<Rightarrow> bool \<times> spec" where
  "countHit b = (let n = bp_hits b + 1 in (selects (bp_hitOp b) (bp_hitN b) n, b\<lparr>bp_hits := n\<rparr>))"

definition skip_space :: "string \<Rightarrow> string" where
  "skip_space s = dropWhile isspace s"

text \<open>The operator in front, if any, and what follows it.\<close>

definition take_op :: "string \<Rightarrow> hit_op \<times> string" where
  "take_op s =
     (if take 2 s = ''=='' then (Hit_Eq, drop 2 s)
      else if take 2 s = ''>='' then (Hit_Ge, drop 2 s)
      else if take 2 s = ''<='' then (Hit_Le, drop 2 s)
      else if take 1 s = ''>'' then (Hit_Gt, drop 1 s)
      else if take 1 s = ''<'' then (Hit_Lt, drop 1 s)
      else if take 1 s = ''%'' then (Hit_Mod, drop 1 s)
      else (Hit_Eq, s))"

text \<open>\<open>std::strtol\<close> on a run of digits: it saturates at \<open>LONG_MAX\<close>.\<close>

definition strtol_digits :: "string \<Rightarrow> int" where
  "strtol_digits ds = min (digits_value 10 ds) (2 ^ 63 - 1)"

text \<open>Answers the spec with the condition set, or the error text.\<close>

definition parseHitCondition :: "string \<Rightarrow> spec \<Rightarrow> string + spec" where
  "parseHitCondition text b =
     (let s = skip_space text
      in if s = [] then Inr (b\<lparr>bp_hitOp := Hit_None\<rparr>)
         else
           (let (op, r) = take_op s;
                r1 = skip_space r;
                ds = takeWhile isdigit r1;
                n = (if ds = [] then 0 else strtol_digits ds);
                r2 = skip_space (dropWhile isdigit r1)
            in if ds = [] \<or> r2 \<noteq> [] \<or> (op = Hit_Mod \<and> n = 0)
               then Inl (''invalid hit condition '' @ [SQ] @ text @ [SQ] @
                    '': use N, == N, >= N, > N, < N, <= N or % N (N a positive integer)'')
               else Inr (b\<lparr>bp_hitOp := op, bp_hitN := n\<rparr>)))"

section \<open>The table\<close>

type_synonym 'm place = "'m \<times> nat"

record 'm table =
  bt_entries :: "('m place \<times> nat) list"
  bt_count :: nat
  bt_specs :: "spec list"

definition empty_table :: "'m table" where
  "empty_table = \<lparr>bt_entries = [], bt_count = 0, bt_specs = []\<rparr>"

definition bt_find :: "'m \<Rightarrow> nat \<Rightarrow> 'm table \<Rightarrow> nat option" where
  "bt_find m pc t = (if bt_count t = 0 then None else map_of (bt_entries t) (m, pc))"

definition isSet :: "'m \<Rightarrow> nat \<Rightarrow> 'm table \<Rightarrow> bool" where
  "isSet m pc t \<longleftrightarrow> bt_find m pc t \<noteq> None"

text \<open>\<open>std::make_shared<BreakpointSpec>()\<close>.\<close>

definition new_spec :: "spec \<Rightarrow> 'm table \<Rightarrow> nat \<times> 'm table" where
  "new_spec b t = (length (bt_specs t), t\<lparr>bt_specs := bt_specs t @ [b]\<rparr>)"

definition put_entry :: "'m place \<Rightarrow> nat option \<Rightarrow> 'm table \<Rightarrow> 'm table" where
  "put_entry p sp t =
     (let (i, t1) = (case sp of Some i \<Rightarrow> (i, t) | None \<Rightarrow> new_spec plain_spec t)
      in t1\<lparr>bt_entries := AList.update p i (bt_entries t1)\<rparr>)"

definition recount :: "'m table \<Rightarrow> 'm table" where
  "recount t = t\<lparr>bt_count := length (bt_entries t)\<rparr>"

definition bt_add :: "'m \<Rightarrow> nat \<Rightarrow> nat option \<Rightarrow> 'm table \<Rightarrow> 'm table" where
  "bt_add m pc sp t = recount (put_entry (m, pc) sp t)"

definition bt_remove :: "'m \<Rightarrow> nat \<Rightarrow> 'm table \<Rightarrow> 'm table" where
  "bt_remove m pc t = recount (t\<lparr>bt_entries := AList.delete (m, pc) (bt_entries t)\<rparr>)"

definition bt_clear :: "'m table \<Rightarrow> 'm table" where
  "bt_clear t = t\<lparr>bt_entries := [], bt_count := 0\<rparr>"

definition bt_assign :: "('m place \<times> nat option) list \<Rightarrow> 'm table \<Rightarrow> 'm table" where
  "bt_assign es t = recount (foldl (\<lambda>t (p, sp). put_entry p sp t) (t\<lparr>bt_entries := []\<rparr>) es)"

definition bt_size :: "'m table \<Rightarrow> nat" where
  "bt_size t = length (bt_entries t)"

text \<open>A hit at a breakpoint counts in the shared spec.\<close>

definition hit_at :: "nat \<Rightarrow> 'm table \<Rightarrow> bool \<times> 'm table" where
  "hit_at i t = (let (sel, b) = countHit (bt_specs t ! i) in (sel, t\<lparr>bt_specs := (bt_specs t)[i := b]\<rparr>))"

section \<open>The table is a map\<close>

text \<open>What a client of a table of breakpoints relies on.\<close>

locale breakpoints =
  fixes find' :: "'p \<Rightarrow> 't \<Rightarrow> nat option"
    and add' :: "'p \<Rightarrow> nat \<Rightarrow> 't \<Rightarrow> 't"
    and remove' :: "'p \<Rightarrow> 't \<Rightarrow> 't"
    and clear' :: "'t \<Rightarrow> 't"
    and ok :: "'t \<Rightarrow> bool"
  assumes find_add: "ok t \<Longrightarrow> find' p (add' q i t) = (if p = q then Some i else find' p t)"
    and find_remove: "ok t \<Longrightarrow> find' p (remove' q t) = (if p = q then None else find' p t)"
    and find_clear: "ok t \<Longrightarrow> find' p (clear' t) = None"
    and ok_add: "ok t \<Longrightarrow> ok (add' q i t)"
    and ok_remove: "ok t \<Longrightarrow> ok (remove' q t)"
    and ok_clear: "ok t \<Longrightarrow> ok (clear' t)"
begin

text \<open>Setting a list of breakpoints in order: the last one at a place wins.\<close>

lemma find_all: "ok t \<Longrightarrow> ok (foldl (\<lambda>t (p, i). add' p i t) t es) \<and>
    find' p (foldl (\<lambda>t (p, i). add' p i t) t es) =
      (case map_of (rev es) p of Some i \<Rightarrow> Some i | None \<Rightarrow> find' p t)"
proof (induction es arbitrary: t)
  case (Cons e es)
  obtain q i where e: "e = (q, i)" by (cases e)
  from Cons.IH [OF ok_add [OF Cons.prems, of q i]] Cons.prems show ?case
    by (auto simp: e find_add map_add_def split: option.split)
qed simp

lemma replace_all: "ok t \<Longrightarrow> find' p (foldl (\<lambda>t (p, i). add' p i t) (clear' t) es) = map_of (rev es) p"
  using find_all [OF ok_clear, of t es p] find_clear by (auto split: option.split)

end

definition counted :: "'m table \<Rightarrow> bool" where
  "counted t \<longleftrightarrow> bt_count t = length (bt_entries t) \<and> distinct (map fst (bt_entries t))"

lemma counted_find: "counted t \<Longrightarrow> bt_find m pc t = map_of (bt_entries t) (m, pc)"
  by (auto simp: counted_def bt_find_def)

lemma recount_counted: "distinct (map fst (bt_entries t)) \<Longrightarrow> counted (recount t)"
  by (simp add: counted_def recount_def)

lemma recount_sel [simp]: "bt_entries (recount t) = bt_entries t" "bt_specs (recount t) = bt_specs t"
    "bt_count (recount t) = length (bt_entries t)"
  by (simp_all add: recount_def)

lemma put_entries: "bt_entries (put_entry p sp t) =
    AList.update p (case sp of Some i \<Rightarrow> i | None \<Rightarrow> length (bt_specs t)) (bt_entries t)"
  by (simp add: put_entry_def new_spec_def split: option.split)

lemma table_ops_counted:
  assumes "counted t"
  shows "counted (bt_add m pc sp t)" "counted (bt_remove m pc t)" "counted (bt_clear t)"
  using assms by (auto simp: bt_add_def bt_remove_def put_entries distinct_update distinct_delete counted_def
      bt_clear_def intro!: recount_counted)

interpretation table: breakpoints "\<lambda>p. bt_find (fst p) (snd p)" "\<lambda>p i. bt_add (fst p) (snd p) (Some i)"
  "\<lambda>p. bt_remove (fst p) (snd p)" bt_clear counted
proof unfold_locales
  fix t :: "'a table" and p q :: "'a \<times> nat" and i
  assume t: "counted t"
  note f = counted_find [OF table_ops_counted(1) [OF t]] counted_find [OF table_ops_counted(2) [OF t]] counted_find [OF t]
  show "bt_find (fst p) (snd p) (bt_add (fst q) (snd q) (Some i) t) = (if p = q then Some i else bt_find (fst p) (snd p) t)"
    unfolding f by (simp add: bt_add_def put_entries update_conv)
  show "bt_find (fst p) (snd p) (bt_remove (fst q) (snd q) t) = (if p = q then None else bt_find (fst p) (snd p) t)"
    unfolding f by (simp add: bt_remove_def delete_conv)
  show "bt_find (fst p) (snd p) (bt_clear t) = None" by (simp add: bt_find_def bt_clear_def)
qed (simp_all add: table_ops_counted)

lemma recount_put: "recount (put_entry p sp (recount t)) = recount (put_entry p sp t)"
  by (simp add: recount_def put_entry_def new_spec_def split: option.split)

lemma assign_fold:
  "recount (foldl (\<lambda>t (p, sp). put_entry p sp t) t es) =
   foldl (\<lambda>t (p, sp). bt_add (fst p) (snd p) sp t) (recount t) es"
proof (induction es arbitrary: t)
  case (Cons e es)
  then show ?case by (cases e) (simp add: bt_add_def recount_put)
qed simp

lemma assign_is_adds: "bt_assign es t = foldl (\<lambda>t (p, sp). bt_add (fst p) (snd p) sp t) (bt_clear t) es"
proof -
  have "recount (t\<lparr>bt_entries := []\<rparr>) = bt_clear t" by (simp add: recount_def bt_clear_def)
  then show ?thesis unfolding bt_assign_def assign_fold by simp
qed

text \<open>
  Replacing the whole table is clearing it and adding the new breakpoints
  one by one, done in one step; afterwards each place has the last breakpoint
  listed for it and no other place has any, and the count that lets an empty
  table answer without the lock never hides an entry.
\<close>

theorem assign_replaces:
  assumes "counted t"
  shows "bt_assign es t = foldl (\<lambda>t (p, sp). bt_add (fst p) (snd p) sp t) (bt_clear t) es \<and>
    bt_find m pc (bt_assign (map (apsnd Some) ps) t) = map_of (rev ps) (m, pc) \<and>
    counted (bt_assign (map (apsnd Some) ps) t)"
proof -
  have e: "bt_assign (map (apsnd Some) ps) t = foldl (\<lambda>t (p, i). bt_add (fst p) (snd p) (Some i) t) (bt_clear t) ps"
    unfolding assign_is_adds foldl_map by (rule foldl_cong) (auto split: prod.split)
  show ?thesis
    using assign_is_adds [of es t] table.replace_all [OF assms, of "(m, pc)" ps]
      table.find_all [OF table_ops_counted(3) [OF assms], of ps "(m, pc)"] by (simp add: e)
qed

lemma assign_replaces_witness:
  "bt_find True 4 (bt_assign (map (apsnd Some) [((True, 4), 0), ((True, 4), 1)]) (bt_add True 9 None empty_table)) = Some 1"
proof -
  have "counted (bt_add True 9 None empty_table)"
    by (intro table_ops_counted) (simp add: counted_def empty_table_def)
  from assign_replaces [OF this, of "[]" "True" 4 "[((True, 4), 0), ((True, 4), 1)]"] show ?thesis by simp
qed

section \<open>Hit conditions\<close>

fun op_text :: "hit_op \<Rightarrow> string" where
  "op_text Hit_None = []"
| "op_text Hit_Eq = ''==''"
| "op_text Hit_Ge = ''>=''"
| "op_text Hit_Gt = ''>''"
| "op_text Hit_Lt = ''<''"
| "op_text Hit_Le = ''<=''"
| "op_text Hit_Mod = ''%''"

lemma take_op_text:
  assumes "op \<noteq> Hit_None" "r = [] \<or> hd r \<noteq> CHR ''=''"
  shows "take_op (op_text op @ r) = (op, r)"
  using assms by (cases op; cases r) (auto simp: take_op_def)

lemma skip_space_text: "list_all isspace ws \<Longrightarrow> skip_space (ws @ s) = skip_space s"
  by (induction ws) (auto simp: skip_space_def)

text \<open>
  A hit condition does what it says: the text of an operator and a number,
  with any white space around them, is accepted and read back as that operator
  and number, and from then on the \<open>k\<close>-th hit stops exactly when the operator
  selects it, every hit counted once.
\<close>

theorem hit_condition_works:
  assumes "op \<noteq> Hit_None" "0 \<le> n" "n < 2 ^ 63" "op = Hit_Mod \<longrightarrow> n > 0"
    and "list_all isspace w1" "list_all isspace w2" "list_all isspace w3"
  shows "parseHitCondition (w1 @ op_text op @ w2 @ show_int n @ w3) b = Inr (b\<lparr>bp_hitOp := op, bp_hitN := n\<rparr>) \<and>
    fst (countHit (((snd \<circ> countHit) ^^ k) (b\<lparr>bp_hitOp := op, bp_hitN := n, bp_hits := 0\<rparr>))) = selects op n (int k + 1)"
proof
  have dig: "list_all isdigit (show_int n)" "show_int n \<noteq> []" "digits_value 10 (show_int n) = n"
    using assms(2) by (simp_all add: show_int_def show_pos_digits)
  obtain c cs where c: "show_int n = c # cs" "isdigit c" using dig(1,2) by (cases "show_int n") auto
  have sp3: "takeWhile isdigit w3 = []" "dropWhile isdigit w3 = w3"
    using assms(7) by (cases w3; auto simp: ctype)+
  have s0: "skip_space (op_text op @ w2 @ show_int n @ w3) = op_text op @ w2 @ show_int n @ w3"
    using assms(1) by (cases op) (simp_all add: skip_space_def ctype char_code_def)
  have ne: "op_text op @ w2 @ show_int n @ w3 \<noteq> []" using dig(2) by simp
  have hd': "hd (w2 @ show_int n @ w3) \<noteq> CHR ''=''"
    using assms(6) c by (cases w2) (auto simp: ctype char_code_def)
  have s1: "skip_space (w2 @ show_int n @ w3) = show_int n @ w3"
    using assms(6) c by (simp add: skip_space_text) (simp add: skip_space_def)
  have s2: "takeWhile isdigit (show_int n @ w3) = show_int n" "dropWhile isdigit (show_int n @ w3) = w3"
    using dig(1) sp3 by (auto simp: takeWhile_append dropWhile_append list_all_iff)
  have s3: "skip_space w3 = []" using assms(7) by (simp add: skip_space_def list_all_iff)
  show "parseHitCondition (w1 @ op_text op @ w2 @ show_int n @ w3) b = Inr (b\<lparr>bp_hitOp := op, bp_hitN := n\<rparr>)"
    unfolding parseHitCondition_def Let_def skip_space_text [OF assms(5)] s0
      take_op_text [OF assms(1) disjI2 [OF hd']] prod.case s1 s2 s3
    using dig(2,3) assms(3,4) ne by (auto simp: strtol_digits_def)
  have h: "((snd \<circ> countHit) ^^ k) (b\<lparr>bp_hitOp := op, bp_hitN := n, bp_hits := 0\<rparr>) =
      b\<lparr>bp_hitOp := op, bp_hitN := n, bp_hits := int k\<rparr>"
    by (induction k) (simp_all add: countHit_def Let_def)
  show "fst (countHit (((snd \<circ> countHit) ^^ k) (b\<lparr>bp_hitOp := op, bp_hitN := n, bp_hits := 0\<rparr>))) = selects op n (int k + 1)"
    unfolding h by (simp add: countHit_def Let_def add.commute)
qed

lemma hit_condition_works_witness:
  "parseHitCondition ''% 10'' plain_spec = Inr (plain_spec\<lparr>bp_hitOp := Hit_Mod, bp_hitN := 10\<rparr>) \<and>
   fst (countHit (((snd \<circ> countHit) ^^ 19) (plain_spec\<lparr>bp_hitOp := Hit_Mod, bp_hitN := 10, bp_hits := 0\<rparr>)))"
proof -
  have "show_int 10 = ''10''" by code_simp
  with hit_condition_works [of Hit_Mod 10 "[]" "'' ''" "[]" plain_spec 19] show ?thesis
    by (simp add: ctype char_code_def)
qed

text \<open>
  A hit condition of zero is accepted for every operator but \<open>%\<close>, although
  the message says that the number must be positive; a breakpoint with \<open>0\<close> or
  \<open>== 0\<close> then never stops.
\<close>

theorem zero_hit_condition_accepted:
  "parseHitCondition ''0'' plain_spec = Inr (plain_spec\<lparr>bp_hitOp := Hit_Eq, bp_hitN := 0\<rparr>) \<and>
   \<not> fst (countHit (((snd \<circ> countHit) ^^ k) (plain_spec\<lparr>bp_hitOp := Hit_Eq, bp_hitN := 0\<rparr>)))"
proof -
  have "((snd \<circ> countHit) ^^ k) (plain_spec\<lparr>bp_hitOp := Hit_Eq, bp_hitN := 0\<rparr>) =
      plain_spec\<lparr>bp_hitOp := Hit_Eq, bp_hitN := 0, bp_hits := int k\<rparr>"
    by (induction k) (simp_all add: countHit_def Let_def plain_spec_def)
  then have "\<not> fst (countHit (((snd \<circ> countHit) ^^ k) (plain_spec\<lparr>bp_hitOp := Hit_Eq, bp_hitN := 0\<rparr>)))"
    by (simp add: countHit_def Let_def)
  moreover have "parseHitCondition ''0'' plain_spec = Inr (plain_spec\<lparr>bp_hitOp := Hit_Eq, bp_hitN := 0\<rparr>)" by code_simp
  ultimately show ?thesis by blast
qed

end
