(* ===== verification/Debugger.thy ===== *)
theory Debugger
  imports Bytecode BreakpointTable
begin

text \<open>
  src/debugger/DebuggerRuntime.h and .cpp: what makes a thread stop.  Modules are
  known by a number, \<open>mods\<close> gives their code; a null module is \<open>None\<close>.  The
  evaluation of an expression in a stopped frame runs the whole system and is
  the parameter \<open>eval\<close>; how a value prints is the parameter \<open>show'\<close>.
\<close>

datatype mode = Free | SingleStep | RunToReturn | StepIn | StepOver | StepOut

datatype command = Cmd_Continue | Cmd_Step | Cmd_Next | Cmd_Finish

record thread_state =
  ts_id :: int
  ts_registered :: bool
  ts_baseName :: string
  ts_mode :: mode
  ts_stepDepth :: int
  ts_stepModule :: "nat option"
  ts_stepLine :: int
  ts_pause :: bool
  ts_suppress :: nat

definition new_thread :: "string \<Rightarrow> thread_state" where
  "new_thread name = \<lparr>ts_id = 0, ts_registered = False, ts_baseName = name, ts_mode = Free, ts_stepDepth = 0,
     ts_stepModule = None, ts_stepLine = 0, ts_pause = False, ts_suppress = 0\<rparr>"

text \<open>The debugger: its threads (by the order they met it), ids, breakpoints and exception filters.\<close>

record debugger =
  db_threads :: "nat \<Rightarrow> thread_state"
  db_ids :: "(int \<times> nat) list"
  db_nextId :: int
  db_table :: "nat table"
  db_raised :: bool
  db_uncaught :: bool
  db_raisedCond :: string
  db_uncaughtCond :: string

definition on_thread :: "nat \<Rightarrow> (thread_state \<Rightarrow> thread_state) \<Rightarrow> debugger \<Rightarrow> debugger" where
  "on_thread t f d = d\<lparr>db_threads := (db_threads d)(t := f (db_threads d t))\<rparr>"

section \<open>Threads\<close>

definition registerThread :: "nat \<Rightarrow> debugger \<Rightarrow> debugger" where
  "registerThread t d =
     (let ts = db_threads d t; i = db_nextId d
      in if ts_registered ts then d
         else on_thread t (\<lambda>ts. ts\<lparr>ts_id := i, ts_registered := True,
                ts_baseName := (if ts_baseName ts = [] then ''thread '' @ show_int i else ts_baseName ts)\<rparr>)
                (d\<lparr>db_nextId := i + 1, db_ids := (i, t) # db_ids d\<rparr>))"

definition nameCurrentThread :: "nat \<Rightarrow> string \<Rightarrow> debugger \<Rightarrow> debugger" where
  "nameCurrentThread t name d =
     (let d1 = on_thread t (\<lambda>ts. ts\<lparr>ts_baseName := name\<rparr>) d
      in if ts_registered (db_threads d t) then d1 else registerThread t d1)"

definition threadExited :: "nat \<Rightarrow> debugger \<Rightarrow> debugger" where
  "threadExited t d = d\<lparr>db_ids := filter (\<lambda>(i, u). i \<noteq> ts_id (db_threads d t)) (db_ids d)\<rparr>"

definition requestPause :: "int \<Rightarrow> debugger \<Rightarrow> bool \<times> debugger" where
  "requestPause i d =
     (case map_of (db_ids d) i of
        None \<Rightarrow> (False, d)
      | Some t \<Rightarrow> (True, on_thread t (\<lambda>ts. ts\<lparr>ts_pause := True\<rparr>) d))"

section \<open>Stepping\<close>

definition stepShouldStop :: "(nat \<Rightarrow> core) \<Rightarrow> thread_state \<Rightarrow> nat option \<Rightarrow> nat \<Rightarrow> int \<Rightarrow> bool" where
  "stepShouldStop mods ts m pc depth =
     (if depth < ts_stepDepth ts then True
      else if ts_mode ts = StepOut then False
      else if ts_mode ts = StepOver \<and> depth > ts_stepDepth ts then False
      else
        (let line = (case m of None \<Rightarrow> 0 | Some i \<Rightarrow> lineForPc (mods i) pc)
         in if line \<le> 0 then False
            else if depth > ts_stepDepth ts then True
            else m \<noteq> ts_stepModule ts \<or> line \<noteq> ts_stepLine ts))"

text \<open>The stopped frame, as far as resuming needs it: its call depth, module and line.\<close>

definition applyCommand :: "command \<Rightarrow> nat \<Rightarrow> nat option \<Rightarrow> int \<Rightarrow> thread_state \<Rightarrow> thread_state" where
  "applyCommand cmd depth m line ts =
     ts\<lparr>ts_stepDepth := int depth, ts_stepModule := m, ts_stepLine := line,
        ts_mode := (case cmd of
            Cmd_Continue \<Rightarrow> Free
          | Cmd_Step \<Rightarrow> StepIn
          | Cmd_Next \<Rightarrow> if depth = 0 then StepIn else StepOver
          | Cmd_Finish \<Rightarrow> StepOut)\<rparr>"

section \<open>Conditions and log messages\<close>

datatype 'v outcome = Value 'v | Failure string

text \<open>Whether the condition passes, and the error text (empty: none).\<close>

definition evaluateCondition :: "('v \<Rightarrow> string) \<Rightarrow> 'v \<Rightarrow> 'v \<Rightarrow> (string \<Rightarrow> 'v outcome) \<Rightarrow> string \<Rightarrow> bool \<times> string" where
  "evaluateCondition show' true false eval cond =
     (let failed = ''condition `'' @ cond @ ''` failed: ''
      in case eval cond of
           Failure err \<Rightarrow> (True, failed @ err)
         | Value r \<Rightarrow>
             if r = true then (True, [])
             else if r = false then (False, [])
             else (True, failed @ ''it answered '' @ show' r @ '', not a Boolean''))"

function interpolateLogMessage :: "('v \<Rightarrow> string) \<Rightarrow> (string \<Rightarrow> 'v outcome) \<Rightarrow> string \<Rightarrow> string" where
  "interpolateLogMessage show' eval [] = []"
| "interpolateLogMessage show' eval (c # r) =
     (if c = CHR ''{'' \<and> take 1 r = ''{'' then CHR ''{'' # interpolateLogMessage show' eval (drop 1 r)
      else if c = CHR ''}'' \<and> take 1 r = ''}'' then CHR ''}'' # interpolateLogMessage show' eval (drop 1 r)
      else if c \<noteq> CHR ''{'' then c # interpolateLogMessage show' eval r
      else if CHR ''}'' \<notin> set r then c # r
      else
        (case eval (takeWhile (\<lambda>x. x \<noteq> CHR ''}'') r) of
           Failure err \<Rightarrow> ''<error: '' @ err @ ''>''
         | Value v \<Rightarrow> show' v) @
        interpolateLogMessage show' eval (drop 1 (dropWhile (\<lambda>x. x \<noteq> CHR ''}'') r)))"
  by pat_completeness auto
termination
  by (relation "measure (\<lambda>(s, e, m). length m)")
    (auto simp: less_Suc_eq_le intro: order_trans [OF diff_le_self length_dropWhile_le])

section \<open>Instructions\<close>

text \<open>What an instruction or an exception makes the debugger do.\<close>

record reaction =
  rx_debugger :: debugger
  rx_output :: "(string \<times> string) list"
  rx_stop :: "(string \<times> string) option"

abbreviation silent :: "debugger \<Rightarrow> reaction" where
  "silent d \<equiv> \<lparr>rx_debugger = d, rx_output = [], rx_stop = None\<rparr>"

text \<open>
  A breakpoint with a condition, a hit condition or a log message: whether it
  stops, the error of its condition, the output and the table after.
\<close>

definition decide_breakpoint :: "('v \<Rightarrow> string) \<Rightarrow> ('v \<Rightarrow> string) \<Rightarrow> 'v \<Rightarrow> 'v \<Rightarrow> (string \<Rightarrow> 'v outcome) \<Rightarrow> nat \<Rightarrow>
    nat table \<Rightarrow> bool \<times> string \<times> (string \<times> string) list \<times> nat table" where
  "decide_breakpoint show' text true false eval i tb =
     (let b = bt_specs tb ! i
      in if plain b then (True, [], [], tb)
         else
           (let (pass, err) = (if bp_condition b = [] then (True, [])
                               else evaluateCondition show' true false eval (bp_condition b))
            in if err \<noteq> [] then (True, ''breakpoint '' @ err, [(''stderr'', ''breakpoint '' @ err @ [NL])], tb)
               else if \<not> pass then (False, [], [], tb)
               else
                 (let (sel, tb1) = hit_at i tb
                  in if \<not> sel then (False, [], [], tb1)
                     else if bp_isLogpoint b
                     then (False, [], [(''console'', interpolateLogMessage text eval (bp_logMessage b) @ [NL])], tb1)
                     else (True, [], [], tb1))))"

definition onInstruction :: "('v \<Rightarrow> string) \<Rightarrow> ('v \<Rightarrow> string) \<Rightarrow> 'v \<Rightarrow> 'v \<Rightarrow> (string \<Rightarrow> 'v outcome) \<Rightarrow>
    (nat \<Rightarrow> core) \<Rightarrow> nat \<Rightarrow> nat \<Rightarrow> nat \<Rightarrow> int \<Rightarrow> debugger \<Rightarrow> reaction" where
  "onInstruction show' text true false eval mods t m pc depth d0 =
     (if ts_suppress (db_threads d0 t) > 0 then silent d0
      else
        (let d = registerThread t d0;
             ts = db_threads d t;
             spec = bt_find m pc (db_table d)
         in if spec = None \<and> \<not> ts_pause ts \<and> ts_mode ts = Free then silent d
            else
              (let (bp, err, out, tb) =
                     (case spec of
                        None \<Rightarrow> (False, [], [], db_table d)
                      | Some i \<Rightarrow> decide_breakpoint show' text true false eval i (db_table d));
                   d1 = d\<lparr>db_table := tb\<rparr>;
                   d2 = on_thread t (\<lambda>ts. ts\<lparr>ts_pause := False\<rparr>) d1
               in if \<not> bp \<and> \<not> ts_pause ts \<and> ts_mode ts = Free
                  then \<lparr>rx_debugger = d1, rx_output = out, rx_stop = None\<rparr>
                  else if bp then \<lparr>rx_debugger = d2, rx_output = out, rx_stop = Some (''breakpoint'', err)\<rparr>
                  else if ts_pause ts then \<lparr>rx_debugger = d2, rx_output = out, rx_stop = Some (''pause'', err)\<rparr>
                  else if ts_mode ts = SingleStep \<or> ts_mode ts = RunToReturn \<or>
                          stepShouldStop mods ts (Some m) pc depth
                  then \<lparr>rx_debugger = d2, rx_output = out, rx_stop = Some (''step'', err)\<rparr>
                  else \<lparr>rx_debugger = d1, rx_output = out, rx_stop = None\<rparr>)))"

section \<open>Exceptions\<close>

text \<open>The description an exception stop shows.\<close>

definition stop_description :: "string \<Rightarrow> string \<Rightarrow> bool \<Rightarrow> bool \<Rightarrow> string \<Rightarrow> string" where
  "stop_description cls msg byUncaught fromPrimitive condError =
     cls @ (if msg \<noteq> [] \<and> msg \<noteq> cls then '': '' @ msg else []) @
     (if byUncaught then '' (no handler will catch it)'' else []) @
     (if fromPrimitive then '' -- raised by a primitive; stopped at the calling frame'' else []) @
     (if condError \<noteq> [] then '' ['' @ condError @ '']'' else [])"

text \<open>A filter's condition; the first error of the two conditions is kept.\<close>

definition passes :: "('v \<Rightarrow> string) \<Rightarrow> 'v \<Rightarrow> 'v \<Rightarrow> (string \<Rightarrow> 'v outcome) \<Rightarrow> string \<Rightarrow> string \<Rightarrow> bool \<times> string" where
  "passes show' true false eval cond condError =
     (if cond = [] then (True, condError)
      else
        (let (r, err) = evaluateCondition show' true false eval cond
         in (r, if err \<noteq> [] \<and> condError = [] then ''exception breakpoint '' @ err else condError)))"

definition onException :: "('v \<Rightarrow> string) \<Rightarrow> 'v \<Rightarrow> 'v \<Rightarrow> (string \<Rightarrow> 'v outcome) \<Rightarrow> nat \<Rightarrow> string \<Rightarrow> string \<Rightarrow>
    bool \<Rightarrow> bool \<Rightarrow> debugger \<Rightarrow> reaction" where
  "onException show' true false eval t className message uncaught fromPrimitive d =
     (let byRaised = db_raised d; byUncaught = (db_uncaught d \<and> uncaught)
      in if ts_suppress (db_threads d t) > 0 \<or> \<not> byRaised \<and> \<not> byUncaught then silent d
         else
           (let d1 = registerThread t d;
                (r1, e1) = (if byRaised then passes show' true false eval (db_raisedCond d) [] else (False, []));
                (r2, e2) = (if byUncaught then passes show' true false eval (db_uncaughtCond d) e1 else (False, e1));
                cls = (if className = [] then ''Exception'' else className)
            in if \<not> r1 \<and> \<not> r2 then silent d1
               else \<lparr>rx_debugger = d1,
                     rx_output = (if e2 \<noteq> [] then [(''stderr'', e2 @ [NL])] else []),
                     rx_stop = Some (if r2 then ''unhandled'' else ''always'',
                                     stop_description cls message r2 fromPrimitive e2)\<rparr>))"

section \<open>Variables of a frame\<close>

definition shown :: "string \<Rightarrow> bool" where
  "shown n \<longleftrightarrow> n \<noteq> [] \<and> take 2 n \<noteq> ''__''"

text \<open>
  The captured names bound by the activations up the chain, innermost first;
  \<open>None\<close> is a name bound to a null value.
\<close>

type_synonym 'v captured = "(string \<Rightarrow> 'v option option) list"

definition capturedValue :: "'v captured \<Rightarrow> string \<Rightarrow> 'v option option" where
  "capturedValue chain n = (case find (\<lambda>d. d n \<noteq> None) chain of None \<Rightarrow> None | Some d \<Rightarrow> d n)"

text \<open>The slots in the order they are listed, with the names they have at \<open>pc\<close>.\<close>

definition loops_at :: "core \<Rightarrow> nat \<Rightarrow> nat \<Rightarrow> scoped_local list" where
  "loops_at c pc n = filter (\<lambda>s. sl_slot s < n \<and> sl_from s \<le> pc \<and> pc < sl_to s) (m_scoped c)"

definition slot_names_at :: "core \<Rightarrow> nat \<Rightarrow> nat \<Rightarrow> string list" where
  "slot_names_at c pc n = foldl (\<lambda>ns s. ns[sl_slot s := sl_name s]) (map (localName c) [0..<n]) (loops_at c pc n)"

definition slot_order :: "core \<Rightarrow> nat \<Rightarrow> nat \<Rightarrow> nat list" where
  "slot_order c pc n =
     (let first = map sl_slot (loops_at c pc n) in first @ filter (\<lambda>i. i \<notin> set first) [0..<n])"

text \<open>The variables listed so far, and one more unless it is hidden or there already.\<close>

definition add_variable :: "string \<Rightarrow> 'v option \<Rightarrow> (string \<times> 'v option) list \<Rightarrow> (string \<times> 'v option) list" where
  "add_variable n v vs = (if \<not> shown n \<or> n \<in> fst ` set vs then vs else vs @ [(n, v)])"

definition slot_value :: "'v \<Rightarrow> 'v captured \<Rightarrow> string \<Rightarrow> 'v option \<Rightarrow> 'v option" where
  "slot_value none chain n v =
     (if v = None \<or> v = Some none then (case capturedValue chain n of Some w \<Rightarrow> w | None \<Rightarrow> v) else v)"

definition captured_ops :: "core \<Rightarrow> string list" where
  "captured_ops c =
     map (\<lambda>i. c_sval (m_consts c ! i_arg i))
       (filter (\<lambda>i. op_of (i_op i) \<in> {Some PUSH_CAPTURED, Some STORE_CAPTURED, Some DEFINE_CAPTURED}) (decode c))"

definition frameVariables :: "'v \<Rightarrow> core option \<Rightarrow> nat \<Rightarrow> 'v captured \<Rightarrow> 'v option list \<Rightarrow> 'v option \<Rightarrow>
    (string \<times> 'v) list" where
  "frameVariables none m pc chain locals self =
     (case m of
        None \<Rightarrow> []
      | Some c \<Rightarrow>
          (let n = length locals; names = slot_names_at c pc n;
               vs1 = foldl (\<lambda>vs i. add_variable (names ! i) (slot_value none chain (names ! i) (locals ! i)) vs) []
                       (slot_order c pc n);
               vs2 = foldl (\<lambda>vs x. case capturedValue chain x of None \<Rightarrow> vs | Some v \<Rightarrow> add_variable x v vs) vs1
                       (captured_ops c);
               vs3 = (if ''self'' \<notin> fst ` set vs2 \<and> self \<noteq> None \<and> self \<noteq> Some none
                      then (''self'', self) # vs2 else vs2)
           in map (\<lambda>(x, v). (x, case v of None \<Rightarrow> none | Some w \<Rightarrow> w)) vs3))"

section \<open>Evaluating in a frame\<close>

definition isIdentifier :: "string \<Rightarrow> bool" where
  "isIdentifier s \<longleftrightarrow> s \<noteq> [] \<and> (isalpha (hd s) \<or> hd s = CHR ''_'') \<and>
     list_all (\<lambda>c. isalnum c \<or> c = CHR ''_'') s \<and>
     s \<notin> {''self'', ''super'', ''nil'', ''true'', ''false'', ''thisContext''}"

text \<open>The parameters of the block the expression becomes the body of.\<close>

definition bindings :: "(string \<times> 'v) list \<Rightarrow> (string \<times> 'v) list \<Rightarrow> (string \<times> 'v) list" where
  "bindings extra vars =
     (let add = (\<lambda>ok bs b. if ok bs \<and> isIdentifier (fst b) \<and> fst b \<notin> fst ` set bs then bs @ [b] else bs)
      in foldl (add (\<lambda>bs. length bs < 64)) (foldl (add (\<lambda>_. True)) [] extra) vars)"

definition block_source :: "string list \<Rightarrow> string \<Rightarrow> string" where
  "block_source names expr = ''['' @ concat (map (\<lambda>n. '' :'' @ n) names) @ '' | '' @ expr @ [NL] @ ''].''"

text \<open>
  \<open>compile\<close> parses and compiles a text, \<open>run\<close> runs it and \<open>call\<close> calls the block it
  answers.
\<close>

definition evaluateValue :: "(string \<Rightarrow> string + 'm) \<Rightarrow> ('m \<Rightarrow> 'v outcome) \<Rightarrow> ('v \<Rightarrow> 'v list \<Rightarrow> 'v outcome) \<Rightarrow>
    (string \<times> 'v) list \<Rightarrow> (string \<times> 'v) list \<Rightarrow> string \<Rightarrow> 'v outcome" where
  "evaluateValue compile run call extra vars expr =
     (let bs = bindings extra vars;
          alone = (case compile (expr @ ''.'') of Inl err \<Rightarrow> Failure err | Inr m \<Rightarrow> run m)
      in if bs = [] then alone
         else case compile (block_source (map fst bs) expr) of
                Inl _ \<Rightarrow> alone
              | Inr m \<Rightarrow> (case run m of Failure err \<Rightarrow> Failure err | Value b \<Rightarrow> call b (map snd bs)))"

section \<open>When a thread stops\<close>

text \<open>
  C11. Stepping does what the debugger's client asks: after a stop at line
  \<open>line0\<close> of \<open>m0\<close> at call depth \<open>depth0\<close>, with no breakpoint or pause in the way,
  \<open>continue\<close> never stops and changes nothing; \<open>finish\<close> stops only once the frame
  has returned; \<open>next\<close> stops there or on another line of the same frame, never
  inside a call; \<open>step\<close> stops also on the first line of a called frame; and no
  step stops on code without a line unless the frame has returned.
\<close>

theorem stepping_contract:
  assumes "ts_registered (db_threads d t)" "ts_suppress (db_threads d t) = 0" "\<not> ts_pause (db_threads d t)"
    and "bt_find m pc (db_table d) = None" "0 < depth0"
  shows "let after = (\<lambda>cmd. onInstruction show' text true false eval mods t m pc depth
                    (on_thread t (applyCommand cmd depth0 m0 line0) d));
      line = lineForPc (mods m) pc;
      newline = (line > 0 \<and> (Some m \<noteq> m0 \<or> line \<noteq> line0))
    in after Cmd_Continue = silent (on_thread t (applyCommand Cmd_Continue depth0 m0 line0) d) \<and>
       (rx_stop (after Cmd_Finish) \<noteq> None) = (depth < int depth0) \<and>
       (rx_stop (after Cmd_Next) \<noteq> None) = (depth < int depth0 \<or> depth = int depth0 \<and> newline) \<and>
       (rx_stop (after Cmd_Step) \<noteq> None) =
         (depth < int depth0 \<or> depth = int depth0 \<and> newline \<or> depth > int depth0 \<and> line > 0)"
proof -
  have r: "registerThread t (on_thread t (applyCommand cmd depth0 m0 line0) d) = on_thread t (applyCommand cmd depth0 m0 line0) d"
    for cmd using assms(1) by (simp add: registerThread_def on_thread_def applyCommand_def Let_def)
  show ?thesis
    using assms(2-5) unfolding Let_def onInstruction_def r
    by (auto simp: on_thread_def applyCommand_def stepShouldStop_def Let_def)
qed

definition one_thread :: debugger where
  "one_thread = \<lparr>db_threads = (\<lambda>_. new_thread ''main''\<lparr>ts_registered := True\<rparr>), db_ids = [(1, 0)], db_nextId = 2,
     db_table = empty_table, db_raised = False, db_uncaught = False, db_raisedCond = [], db_uncaughtCond = []\<rparr>"

lemma stepping_contract_witness:
  "rx_stop (onInstruction (\<lambda>_. []) (\<lambda>_. []) True False (\<lambda>_. Failure []) (\<lambda>_. empty_core) 0 5 0 1
     (on_thread 0 (applyCommand Cmd_Finish 2 None 3) one_thread)) \<noteq> None"
proof -
  let ?E = "onInstruction (\<lambda>_. []) (\<lambda>_. []) True False (\<lambda>_. Failure []) (\<lambda>_. empty_core) 0 5 0 1
     (on_thread 0 (applyCommand Cmd_Finish 2 None 3) one_thread)"
  have "(rx_stop ?E \<noteq> None) = ((1 :: int) < int 2)"
    by (rule stepping_contract [unfolded Let_def, THEN conjunct2, THEN conjunct1])
      (simp_all add: one_thread_def new_thread_def bt_find_def empty_table_def)
  then show ?thesis by simp
qed

section \<open>Log messages\<close>

fun escape_braces :: "string \<Rightarrow> string" where
  "escape_braces [] = []"
| "escape_braces (c # cs) = (if c = CHR ''{'' \<or> c = CHR ''}'' then [c, c] else [c]) @ escape_braces cs"

lemma interpolate_escaped: "interpolateLogMessage show' eval (escape_braces s @ r) = s @ interpolateLogMessage show' eval r"
proof (induction s)
  case (Cons c s)
  then show ?case by (cases "c = CHR ''{''"; cases "c = CHR ''}''") auto
qed simp

text \<open>
  A log message means what it says: any text with its braces doubled comes
  out as it was, and an expression in braces between two such texts is replaced
  by its value as text, or by the error of evaluating it, and nothing else is
  evaluated.
\<close>

theorem log_message_text:
  assumes "CHR ''}'' \<notin> set expr" "take 1 expr \<noteq> ''{''"
  shows "interpolateLogMessage show' eval (escape_braces pre @ ''{'' @ expr @ ''}'' @ escape_braces post) =
    pre @ (case eval expr of Failure err \<Rightarrow> ''<error: '' @ err @ ''>'' | Value v \<Rightarrow> show' v) @ post"
proof -
  have t: "takeWhile (\<lambda>x. x \<noteq> CHR ''}'') (expr @ CHR ''}'' # r) = expr"
    "dropWhile (\<lambda>x. x \<noteq> CHR ''}'') (expr @ CHR ''}'' # r) = CHR ''}'' # r" for r
    using assms(1) by (auto simp: takeWhile_append dropWhile_append)
  have h: "take 1 (expr @ CHR ''}'' # r) \<noteq> ''{''" for r using assms(2) by (cases expr) auto
  have "interpolateLogMessage show' eval (escape_braces post) = post" using interpolate_escaped [of show' eval post "[]"] by simp
  then show ?thesis
    using h by (simp add: interpolate_escaped t)
qed

lemma log_message_text_witness:
  "interpolateLogMessage id (\<lambda>e. if e = ''x'' then Value ''42'' else Failure ''no'')
     (escape_braces ''{a}: '' @ ''{'' @ ''x'' @ ''}'' @ escape_braces ''!'') = ''{a}: 42!''"
  by (subst log_message_text) simp_all

section \<open>Names\<close>

lemma add_variable_ok:
  "distinct (map fst vs) \<and> list_all (shown \<circ> fst) vs \<Longrightarrow>
   distinct (map fst (add_variable n v vs)) \<and> list_all (shown \<circ> fst) (add_variable n v vs)"
  by (auto simp: add_variable_def)

lemma with_self_ok:
  assumes "distinct (map fst vs) \<and> list_all (shown \<circ> fst) vs"
  shows "distinct (map fst (map (\<lambda>(x, v). (x, g v)) (if ''self'' \<notin> fst ` set vs \<and> b then (''self'', w) # vs else vs))) \<and>
    list_all (shown \<circ> fst) (map (\<lambda>(x, v). (x, g v)) (if ''self'' \<notin> fst ` set vs \<and> b then (''self'', w) # vs else vs))"
  using assms by (auto simp: shown_def comp_def split_beta list_all_iff)

lemma foldl_ok: "P a \<Longrightarrow> (\<And>a x. P a \<Longrightarrow> P (f a x)) \<Longrightarrow> P (foldl f a xs)"
  by (induction xs arbitrary: a) auto

lemma bind_ok:
  fixes bs :: "(string \<times> 'v) list"
  assumes "distinct (map fst bs) \<and> list_all (isIdentifier \<circ> fst) bs"
  shows "distinct (map fst (foldl (\<lambda>bs b. if ok bs \<and> isIdentifier (fst b) \<and> fst b \<notin> fst ` set bs then bs @ [b] else bs) bs xs)) \<and>
    list_all (isIdentifier \<circ> fst) (foldl (\<lambda>bs b. if ok bs \<and> isIdentifier (fst b) \<and> fst b \<notin> fst ` set bs then bs @ [b] else bs) bs xs)"
  using assms
proof (induction xs arbitrary: bs)
  case (Cons x xs)
  show ?case unfolding foldl_Cons by (rule Cons.IH) (use Cons.prems in simp)
qed simp

text \<open>
  The names of a stopped frame are sound: no name is listed twice, none of
  the compiler's own temporaries is listed, and the names an expression is
  evaluated with are distinct identifiers, so that the block built for it never
  declares a parameter twice.
\<close>

theorem frame_names_distinct:
  "distinct (map fst (frameVariables none m pc chain locals self)) \<and>
   list_all (shown \<circ> fst) (frameVariables none m pc chain locals self) \<and>
   distinct (map fst (bindings extra vars)) \<and> list_all (isIdentifier \<circ> fst) (bindings extra vars)"
proof (intro conjI)
  let ?ok = "\<lambda>vs :: (string \<times> 'a option) list. distinct (map fst vs) \<and> list_all (shown \<circ> fst) vs"
  have "distinct (map fst (frameVariables none m pc chain locals self)) \<and>
      list_all (shown \<circ> fst) (frameVariables none m pc chain locals self)"
  proof (cases m)
    case (Some c)
    let ?n = "length locals" and ?names = "slot_names_at c pc (length locals)"
    let ?v1 = "foldl (\<lambda>vs i. add_variable (?names ! i) (slot_value none chain (?names ! i) (locals ! i)) vs) [] (slot_order c pc ?n)"
    let ?v2 = "foldl (\<lambda>vs x. case capturedValue chain x of None \<Rightarrow> vs | Some v \<Rightarrow> add_variable x v vs) ?v1 (captured_ops c)"
    have "?ok ?v1" by (rule foldl_ok) (simp, erule add_variable_ok)
    then have "?ok ?v2" by (rule foldl_ok) (simp only: add_variable_ok split: option.split, simp)
    from with_self_ok [OF this] show ?thesis unfolding frameVariables_def Some option.case Let_def .
  qed (simp add: frameVariables_def)
  then show "distinct (map fst (frameVariables none m pc chain locals self))"
    "list_all (shown \<circ> fst) (frameVariables none m pc chain locals self)" by blast+
  have "distinct (map fst (bindings extra vars)) \<and> list_all (isIdentifier \<circ> fst) (bindings extra vars)"
    unfolding bindings_def Let_def by (rule bind_ok, rule bind_ok, simp)
  then show "distinct (map fst (bindings extra vars))" "list_all (isIdentifier \<circ> fst) (bindings extra vars)" by blast+
qed

end
