(* ===== verification/DebugConsole.thy ===== *)
theory DebugConsole
  imports Debugger
begin

text \<open>
  The text session of src/debugger/DebuggerRuntime.cpp (\<open>enterSession\<close> with no
  front end): the prompt, its commands and how each of them resumes the thread.
  The input is the list of the lines that are left; \<open>show'\<close> prints a value and
  \<open>print'\<close> is \<open>evaluateExpression\<close> as text.
\<close>

record 'v frame =
  fr_module :: nat
  fr_pc :: nat
  fr_depth :: int
  fr_stack :: "'v list"
  fr_locals :: "'v list"

definition trim_line :: "string \<Rightarrow> string" where
  "trim_line s = rev (dropWhile isspace (rev (dropWhile isspace s)))"

text \<open>\<open>std::stoul\<close>: \<open>None\<close> is either of its exceptions; a minus wraps around.\<close>

definition stoul :: "string \<Rightarrow> nat option" where
  "stoul s =
     (let s1 = dropWhile isspace s;
          (neg, s2) = (case s1 of
                         [] \<Rightarrow> (False, [])
                       | c # cs \<Rightarrow> if c = CHR ''-'' then (True, cs)
                                   else if c = CHR ''+'' then (False, cs) else (False, s1));
          ds = takeWhile isdigit s2;
          v = nat (digits_value 10 ds)
      in if ds = [] \<or> v \<ge> 2 ^ 64 then None
         else Some (if neg then (2 ^ 64 - v) mod 2 ^ 64 else v))"

definition resume_of :: "string \<Rightarrow> (mode \<times> command) option" where
  "resume_of line =
     (if line = ''c'' \<or> line = ''cont'' then Some (Free, Cmd_Continue)
      else if line = ''s'' \<or> line = ''step'' then Some (SingleStep, Cmd_Step)
      else if line = ''n'' \<or> line = ''next'' then Some (SingleStep, Cmd_Next)
      else if line = ''f'' \<or> line = ''finish'' then Some (RunToReturn, Cmd_Finish)
      else None)"

text \<open>The next six instructions, with the operand read as a 32-bit int.\<close>

definition where_text :: "core \<Rightarrow> 'v frame \<Rightarrow> string" where
  "where_text c f =
     ''frame depth: '' @ show_int (fr_depth f) @ [NL] @
     ''pc: '' @ show_nat (fr_pc f) @ '' / '' @ show_nat (length (m_bytes c)) @ [NL] @
     concat (map (\<lambda>i. ''  '' @ show_nat (fr_pc f + 2 * i_word i) @ '': op='' @ show_nat (unat (i_op i)) @
                      '' arg='' @ show_int (sint (word_of_nat (i_arg i) :: 32 word)) @ [NL])
              (take 6 (decode_from 0 (drop (fr_pc f) (m_bytes c)))))"

definition locals_text :: "('v \<Rightarrow> string) \<Rightarrow> 'v frame \<Rightarrow> string" where
  "locals_text show' f =
     concat (map (\<lambda>(k, v). ''  ['' @ show_nat k @ ''] '' @ show' v @ [NL]) (List.enumerate 0 (fr_locals f)))"

definition has_prefix :: "string \<Rightarrow> string \<Rightarrow> bool" where
  "has_prefix p s \<longleftrightarrow> take (length p) s = p"

text \<open>A command that stays in the session: what it prints, and the breakpoints after it.\<close>

definition console_command :: "('v \<Rightarrow> string) \<Rightarrow> (string \<Rightarrow> string) \<Rightarrow> core \<Rightarrow> 'v frame \<Rightarrow> string \<Rightarrow> nat table \<Rightarrow>
    string \<times> nat table" where
  "console_command show' print' c f line tb =
     (let invalid = ''  invalid pc'' @ [NL]
      in if line = ''where'' \<or> line = ''bt'' then (where_text c f, tb)
         else if line = ''locals'' then (locals_text show' f, tb)
         else if has_prefix ''print '' line \<or> has_prefix ''p '' line
         then (''  '' @ print' (tl (dropWhile (\<lambda>x. x \<noteq> CHR '' '') line)) @ [NL], tb)
         else if has_prefix ''break '' line
         then (case stoul (drop 6 line) of
                 None \<Rightarrow> (invalid, tb)
               | Some pc \<Rightarrow> (''  break set at pc='' @ show_nat pc @ [NL], bt_add (fr_module f) pc None tb))
         else if line = ''info breaks'' then (''  '' @ show_nat (bt_size tb) @ '' breakpoints set'' @ [NL], tb)
         else if has_prefix ''clear '' line
         then (case stoul (drop 6 line) of
                 None \<Rightarrow> (invalid, tb)
               | Some pc \<Rightarrow> (''  cleared pc='' @ show_nat pc @ [NL], bt_remove (fr_module f) pc tb))
         else (''?? unknown command: '' @ line @
               '' (try: c, s, n, f, q, where, locals, print, break, clear, info breaks)'' @ [NL], tb))"

datatype session_end = Resumed command | Input_Ended | Exited

record session =
  ss_end :: session_end
  ss_out :: string
  ss_rest :: "string list"
  ss_debugger :: debugger

fun session_loop :: "('v \<Rightarrow> string) \<Rightarrow> (string \<Rightarrow> string) \<Rightarrow> core \<Rightarrow> 'v frame \<Rightarrow> nat \<Rightarrow> string list \<Rightarrow> debugger \<Rightarrow>
    string \<Rightarrow> session" where
  "session_loop show' print' c f t [] d out =
     \<lparr>ss_end = Input_Ended, ss_out = out @ ''(stdbg) '', ss_rest = [], ss_debugger = d\<rparr>"
| "session_loop show' print' c f t (l # ls) d out =
     (let line = trim_line l; out1 = out @ ''(stdbg) ''
      in if line = [] then session_loop show' print' c f t ls d out1
         else case resume_of line of
                Some (md, cmd) \<Rightarrow>
                  \<lparr>ss_end = Resumed cmd, ss_out = out1, ss_rest = ls,
                   ss_debugger = on_thread t (\<lambda>ts. ts\<lparr>ts_mode := md\<rparr>) d\<rparr>
              | None \<Rightarrow>
                  if line = ''q'' \<or> line = ''quit''
                  then \<lparr>ss_end = Exited, ss_out = out1, ss_rest = ls, ss_debugger = d\<rparr>
                  else let (answer, tb) = console_command show' print' c f line (db_table d)
                       in session_loop show' print' c f t ls (d\<lparr>db_table := tb\<rparr>) (out1 @ answer))"

definition text_session :: "('v \<Rightarrow> string) \<Rightarrow> (string \<Rightarrow> string) \<Rightarrow> core \<Rightarrow> 'v frame \<Rightarrow> string \<Rightarrow> nat \<Rightarrow> string list \<Rightarrow>
    debugger \<Rightarrow> session" where
  "text_session show' print' c f reason t input d =
     session_loop show' print' c f t input d
       (''halted: '' @ reason @ [NL] @ ''  pc='' @ show_nat (fr_pc f) @ '' stack='' @ show_nat (length (fr_stack f)) @
        '' locals='' @ show_nat (length (fr_locals f)) @ [NL])"

section \<open>How a session resumes\<close>

definition resumed_mode :: "command \<Rightarrow> mode" where
  "resumed_mode cmd = (case cmd of Cmd_Continue \<Rightarrow> Free | Cmd_Finish \<Rightarrow> RunToReturn | _ \<Rightarrow> SingleStep)"

text \<open>What is left of the threads by a session on thread \<open>t\<close>.\<close>

definition threads_after :: "nat \<Rightarrow> debugger \<Rightarrow> session \<Rightarrow> bool" where
  "threads_after t d s \<longleftrightarrow>
     db_threads (ss_debugger s) =
       (case ss_end s of
          Resumed cmd \<Rightarrow> (db_threads d)(t := db_threads d t\<lparr>ts_mode := resumed_mode cmd\<rparr>)
        | _ \<Rightarrow> db_threads d)"

lemma threads_after_table: "threads_after t (d\<lparr>db_table := tb\<rparr>) s = threads_after t d s"
  by (simp add: threads_after_def cong: session_end.case_cong)

lemma resume_mode: "resume_of line = Some (md, cmd) \<Longrightarrow> md = resumed_mode cmd"
  by (auto simp: resume_of_def resumed_mode_def split: if_splits)

lemma session_threads: "threads_after t d (session_loop show' print' c f t input d out)"
proof (induction input arbitrary: d out)
  case (Cons l ls)
  show ?case
  proof (cases "trim_line l = []")
    case True
    then show ?thesis using Cons.IH by (simp add: Let_def)
  next
    case False
    show ?thesis
    proof (cases "resume_of (trim_line l)")
      case None
      obtain shown' tb where tb: "console_command show' print' c f (trim_line l) (db_table d) = (shown', tb)" by fastforce
      show ?thesis
        using Cons.IH [of "d\<lparr>db_table := tb\<rparr>" "out @ ''(stdbg) '' @ shown'"]
        by (auto simp: Let_def False None tb threads_after_table) (simp_all add: threads_after_def)
    next
      case (Some r)
      then show ?thesis using False resume_mode [of "trim_line l"]
        by (cases r) (simp add: Let_def threads_after_def on_thread_def)
    qed
  qed
qed (simp add: threads_after_def)

lemma registerThread_registered: "ts_registered (db_threads d t) \<Longrightarrow> registerThread t d = d"
  by (simp add: registerThread_def Let_def)

text \<open>
  What a text session does to its thread: it changes no other thread; when
  it ends with c or cont the thread runs on until a breakpoint or a pause; when
  it ends with s, n or f -- step, next and finish alike -- the thread stops again
  before the very next instruction, whatever its call depth.
\<close>

theorem text_session_resumes:
  assumes "ts_registered (db_threads d t)" "ts_suppress (db_threads d t) = 0" "\<not> ts_pause (db_threads d t)"
    and "ss_end (text_session show' print' c f reason t input d) = Resumed cmd"
  shows "let d' = ss_debugger (text_session show' print' c f reason t input d);
             next' = onInstruction show' text true false eval mods t m pc depth d'
         in (\<forall>u. u \<noteq> t \<longrightarrow> db_threads d' u = db_threads d u) \<and>
            (cmd = Cmd_Continue \<longrightarrow> bt_find m pc (db_table d') = None \<longrightarrow> next' = silent d') \<and>
            (cmd \<noteq> Cmd_Continue \<longrightarrow> rx_stop next' \<noteq> None)"
proof -
  let ?s = "text_session show' print' c f reason t input d"
  have th: "db_threads (ss_debugger ?s) = (db_threads d)(t := db_threads d t\<lparr>ts_mode := resumed_mode cmd\<rparr>)"
    using session_threads [of t d show' print' c f input] assms(4) unfolding text_session_def by (simp add: threads_after_def)
  have s: "ts_mode (db_threads (ss_debugger ?s) t) = resumed_mode cmd"
    "ts_suppress (db_threads (ss_debugger ?s) t) = 0" "\<not> ts_pause (db_threads (ss_debugger ?s) t)"
    "ts_registered (db_threads (ss_debugger ?s) t)" "u \<noteq> t \<Longrightarrow> db_threads (ss_debugger ?s) u = db_threads d u" for u
    using assms(1-3) by (simp_all add: th)
  have r: "registerThread t (ss_debugger ?s) = ss_debugger ?s" using s(4) by (rule registerThread_registered)
  show ?thesis using s(1-3) unfolding Let_def onInstruction_def r
    by (auto simp: s(5) resumed_mode_def split: prod.splits command.splits)
qed

definition console_frame :: "bool frame" where
  "console_frame = \<lparr>fr_module = 0, fr_pc = 0, fr_depth = 3, fr_stack = [], fr_locals = []\<rparr>"

lemma text_session_resumes_witness:
  "rx_stop (onInstruction (\<lambda>_. []) (\<lambda>_. []) True False (\<lambda>_. Failure []) (\<lambda>_. empty_core) 0 5 0 7
     (ss_debugger (text_session (\<lambda>_. []) (\<lambda>_. []) empty_core console_frame ''breakpoint'' 0 [''locals'', '' finish''] one_thread))) \<noteq> None"
proof -
  have "ss_end (text_session (\<lambda>_. []) (\<lambda>_. []) empty_core console_frame ''breakpoint'' 0 [''locals'', '' finish''] one_thread) =
      Resumed Cmd_Finish"
    by code_simp
  from text_session_resumes [OF _ _ _ this, of "\<lambda>_. []" True False "\<lambda>_. Failure []" "\<lambda>_. empty_core" 5 0 7]
  show ?thesis by (simp add: one_thread_def new_thread_def Let_def)
qed

end
