(* ===== verification/DapTransport.thy ===== *)
theory DapTransport
  imports Prelude
begin

text \<open>
  src/dap/DapTransport.cpp: DAP messages framed by a Content-Length header.  The
  input stream is the list of the bytes still to come.  The JSON library is not
  part of the repository: \<open>parse\<close> and \<open>dump\<close> are parameters.  \<open>room\<close> is the
  largest string the process can allocate; a longer one throws.
\<close>

datatype 'j received = Message 'j | Closed | Throws

text \<open>A line without its end, and the rest; \<open>None\<close> at the end of the stream.\<close>

fun read_line :: "string \<Rightarrow> string \<Rightarrow> string \<times> string" where
  "read_line acc [] = (acc, [])"
| "read_line acc (c # cs) =
     (if c = NL then (if acc \<noteq> [] \<and> last acc = CHR 0x0D then butlast acc else acc, cs)
      else read_line (acc @ [c]) cs)"

definition readHeaderLine :: "string \<Rightarrow> (string \<times> string) option" where
  "readHeaderLine s = (if s = [] then None else Some (read_line [] s))"

definition iequals :: "string \<Rightarrow> string \<Rightarrow> bool" where
  "iequals a b \<longleftrightarrow> map tolower a = map tolower b"

definition trim :: "string \<Rightarrow> string" where
  "trim s = rev (dropWhile isspace (rev (dropWhile isspace s)))"

text \<open>\<open>std::stoll\<close>: white space, a sign, digits; \<open>None\<close> is its exception.\<close>

definition stoll_text :: "string \<Rightarrow> int option" where
  "stoll_text s =
     (let s1 = dropWhile isspace s;
          (neg, s2) = (case s1 of
                         [] \<Rightarrow> (False, [])
                       | c # cs \<Rightarrow> if c = CHR ''-'' then (True, cs)
                                   else if c = CHR ''+'' then (False, cs) else (False, s1));
          ds = takeWhile isdigit s2;
          v = (if neg then - digits_value 10 ds else digits_value 10 ds)
      in if ds = [] \<or> v < - (2 ^ 63) \<or> v \<ge> 2 ^ 63 then None else Some v)"

lemma read_line_shorter: "length (snd (read_line acc s)) \<le> length s"
  by (induction acc s rule: read_line.induct) auto

text \<open>
  The header block; \<open>len\<close> is the content length so far.  Answers the length, or
  \<open>None\<close> where the message is given up, and the bytes after.
\<close>

function read_headers :: "int \<Rightarrow> string \<Rightarrow> int option \<times> string" where
  "read_headers len s =
     (case readHeaderLine s of
        None \<Rightarrow> (None, [])
      | Some (line, r) \<Rightarrow>
          if line = [] then (Some len, r)
          else if CHR '':'' \<notin> set line then read_headers len r
          else
            (let key = trim (takeWhile (\<lambda>c. c \<noteq> CHR '':'') line);
                 value = trim (tl (dropWhile (\<lambda>c. c \<noteq> CHR '':'') line))
             in if iequals key ''Content-Length''
                then (case stoll_text value of None \<Rightarrow> (None, r) | Some v \<Rightarrow> read_headers v r)
                else read_headers len r))"
  by pat_completeness auto

lemma header_line_shorter: "readHeaderLine s = Some (line, r) \<Longrightarrow> length r < length s"
proof -
  assume "readHeaderLine s = Some (line, r)"
  then obtain c cs where s: "s = c # cs" "read_line [] s = (line, r)" by (cases s) (auto simp: readHeaderLine_def)
  then have "r = snd (read_line [c] cs) \<or> r = cs" by (auto split: if_splits)
  with read_line_shorter [of "[c]" cs] s(1) show ?thesis by auto
qed

termination read_headers
  by (relation "measure (length \<circ> snd)") (auto dest: header_line_shorter)

declare read_headers.simps [simp del]

text \<open>One message and the bytes after it.\<close>

definition readMessage :: "nat \<Rightarrow> (string \<Rightarrow> 'j option) \<Rightarrow> string \<Rightarrow> 'j received \<times> string" where
  "readMessage room parse s =
     (case read_headers (- 1) s of
        (None, r) \<Rightarrow> (Closed, r)
      | (Some len, r) \<Rightarrow>
          if len < 0 then (Closed, r)
          else if len > int room then (Throws, r)
          else if length r < nat len then (Closed, [])
          else (case parse (take (nat len) r) of
                  None \<Rightarrow> Closed
                | Some j \<Rightarrow> Message j, drop (nat len) r))"

definition writeMessage :: "('j \<Rightarrow> string) \<Rightarrow> 'j \<Rightarrow> string" where
  "writeMessage dump j =
     (let body = dump j in ''Content-Length: '' @ show_nat (length body) @ [CHR 0x0D, NL, CHR 0x0D, NL] @ body)"

section \<open>Framing\<close>

lemma read_line_text: "NL \<notin> set l \<Longrightarrow> read_line acc (l @ CHR 0x0D # NL # r) = (acc @ l, r)"
  by (induction l arbitrary: acc) auto

lemma trim_plain: "s \<noteq> [] \<Longrightarrow> \<not> isspace (hd s) \<Longrightarrow> \<not> isspace (last s) \<Longrightarrow> trim s = s"
proof -
  assume a: "s \<noteq> []" "\<not> isspace (hd s)" "\<not> isspace (last s)"
  then have "dropWhile isspace s = s" by (cases s) simp_all
  moreover have "dropWhile isspace (rev s) = rev s" using a by (cases s rule: rev_cases) simp_all
  ultimately show "trim s = s" by (simp add: trim_def)
qed

lemma digits_plain:
  assumes "list_all isdigit ds" "ds \<noteq> []"
  shows "NL \<notin> set ds" "trim (CHR '' '' # ds) = ds" "digits_value 10 ds < 2 ^ 63 \<Longrightarrow> stoll_text ds = Some (digits_value 10 ds)"
proof -
  show "NL \<notin> set ds" using assms(1) not_isspace_chars(4) by (auto simp: list_all_iff)
  have "isdigit (hd ds)" "isdigit (last ds)" using assms by (auto simp: list_all_iff)
  then have "trim ds = ds" using assms(2) by (intro trim_plain) simp_all
  moreover have "trim (CHR '' '' # ds) = trim ds" by (simp add: trim_def ctype char_code_def)
  ultimately show "trim (CHR '' '' # ds) = ds" by simp
  assume small: "digits_value 10 ds < 2 ^ 63"
  obtain c cs where c: "ds = c # cs" "isdigit c" using assms by (cases ds) auto
  then have "c \<noteq> CHR ''-''" "c \<noteq> CHR ''+''" "\<not> isspace c" by (auto simp: ctype char_code_def)
  moreover have "takeWhile isdigit ds = ds" using assms(1) by (rule takeWhile_all_end)
  moreover have "\<not> digits_value 10 ds < - (2 ^ 63)"
  proof -
    have "- (2 ^ 63) \<le> (0 :: int)" by simp
    also have "0 \<le> digits_value 10 ds" by simp
    finally show ?thesis by (simp only: not_less)
  qed
  ultimately show "stoll_text ds = Some (digits_value 10 ds)"
    using small c(1) assms(2) by (simp add: stoll_text_def Let_def)
qed

lemma length_header:
  assumes "list_all isdigit ds" "ds \<noteq> []" "digits_value 10 ds < 2 ^ 63"
  shows "read_headers len (''Content-Length: '' @ ds @ CHR 0x0D # NL # CHR 0x0D # NL # r) = (Some (digits_value 10 ds), r)"
proof -
  let ?line = "''Content-Length: '' @ ds"
  note d = digits_plain [OF assms(1,2)]
  have "readHeaderLine (?line @ CHR 0x0D # NL # CHR 0x0D # NL # r) = Some (?line, CHR 0x0D # NL # r)"
    using d(1) read_line_text [of ?line "[]" "CHR 0x0D # NL # r"] by (simp add: readHeaderLine_def)
  moreover have "readHeaderLine (CHR 0x0D # NL # r) = Some ([], r)" by (simp add: readHeaderLine_def)
  then have "read_headers v (CHR 0x0D # NL # r) = (Some v, r)" for v by (subst read_headers.simps) simp
  moreover have "trim ''Content-Length'' = ''Content-Length''" by code_simp
  ultimately show ?thesis using d(2,3) assms(3)
    by (subst read_headers.simps) (simp add: iequals_def)
qed

lemma read_written:
  assumes "parse (dump j) = Some j" "length (dump j) \<le> room" "length (dump j) < 2 ^ 63"
  shows "readMessage room parse (writeMessage dump j @ r) = (Message j, r)"
proof -
  let ?ds = "show_nat (length (dump j))"
  have "list_all isdigit ?ds" "?ds \<noteq> []" "digits_value 10 ?ds = int (length (dump j))"
    by (simp_all add: show_int_def show_pos_digits)
  with length_header [of ?ds "- 1" "dump j @ r"] assms show ?thesis
    by (simp add: readMessage_def writeMessage_def Let_def)
qed

fun read_many :: "nat \<Rightarrow> (string \<Rightarrow> 'j option) \<Rightarrow> nat \<Rightarrow> string \<Rightarrow> 'j received list \<times> string" where
  "read_many room parse 0 s = ([], s)"
| "read_many room parse (Suc n) s =
     (let (m, r) = readMessage room parse s; (ms, r') = read_many room parse n r in (m # ms, r'))"

text \<open>
  C10. Framing is exact: any messages written one after another are read back
  as the same messages in the same order, and what follows them in the stream
  is left untouched, whatever bytes the bodies hold; the JSON library need only
  read back what it wrote.
\<close>

theorem framing_roundtrip:
  assumes "\<And>j. j \<in> set js \<Longrightarrow> parse (dump j) = Some j \<and> length (dump j) \<le> room \<and> length (dump j) < 2 ^ 63"
  shows "read_many room parse (length js) (concat (map (writeMessage dump) js) @ r) = (map Message js, r)"
  using assms
proof (induction js)
  case (Cons j js)
  then have "readMessage room parse (writeMessage dump j @ concat (map (writeMessage dump) js) @ r) =
      (Message j, concat (map (writeMessage dump) js) @ r)" by (intro read_written) simp_all
  with Cons show ?case by simp
qed simp

lemma framing_roundtrip_witness:
  "read_many 100 (\<lambda>s. Some s) 2 (concat (map (writeMessage (\<lambda>s. s)) [[NL, NL], ''Content-Length: 3'']) @ ''x'') =
     ([Message [NL, NL], Message ''Content-Length: 3''], ''x'')"
  proof -
  have "read_many 100 (\<lambda>s. Some s) (length [[NL, NL], ''Content-Length: 3''])
      (concat (map (writeMessage (\<lambda>s. s)) [[NL, NL], ''Content-Length: 3'']) @ ''x'') =
    (map Message [[NL, NL], ''Content-Length: 3''], ''x'')"
    by (rule framing_roundtrip) auto
  then show ?thesis by (simp add: numeral_2_eq_2 del: read_many.simps)
qed

text \<open>
  A header that claims more bytes than a string can hold makes the reader
  throw, although it is documented never to: the buffer for the body is made
  outside the part that catches errors.
\<close>

theorem oversized_length_throws:
  assumes "room + 1 < 2 ^ 63"
  shows "fst (readMessage room parse (''Content-Length: '' @ show_nat (room + 1) @ [CHR 0x0D, NL, CHR 0x0D, NL])) = Throws"
proof -
  let ?ds = "show_nat (room + 1)"
  have "list_all isdigit ?ds" "?ds \<noteq> []" "digits_value 10 ?ds = int (room + 1)"
    by (simp_all add: show_int_def show_pos_digits)
  with length_header [of ?ds "- 1" "[]"] assms show ?thesis by (simp add: readMessage_def)
qed

lemma oversized_length_throws_witness:
  "fst (readMessage 9 (\<lambda>s. Some s) (''Content-Length: '' @ show_nat (9 + 1) @ [CHR 0x0D, NL, CHR 0x0D, NL])) = Throws"
  by (rule oversized_length_throws) simp

end
