(* ===== verification/Scheduler.thy ===== *)
theory Scheduler
  imports Prelude "HOL-Library.Multiset"
begin

text \<open>
  The actor scheduler of src/runtime/STRuntime.cpp with the settling side of
  src/primitives/future_prims.cpp: \<open>schedule\<close>, \<open>enqueueReady\<close>, \<open>dequeueReady\<close>,
  \<open>drainOne\<close> with its mailbox cursor, \<open>finishDrain\<close>, \<open>settleFuture\<close>,
  \<open>appendFutureWaiter\<close>, the worker loop and the pause of the pool.  Any number of
  threads run at once; each atomic access of the code to shared state is one step.
  Actors and futures are numbers.  The ready stacks and the semaphore appear here
  as what the theories ReadyStack and Semaphore prove of them; protoCore's
  mailbox queue hands over everything pushed so far, in the order of the pushes.
\<close>

section \<open>Shared state\<close>

text \<open>A message: what it says and the future its sender holds.\<close>

type_synonym 'm message = "'m \<times> nat option"

text \<open>
  \<open>__sched__\<close>, the mailbox, \<open>__pending__\<close>, the future of \<open>__waiting_on__\<close> while there is
  a \<open>__suspended_frame__\<close>, \<open>__suspended_future__\<close> and the priority band; \<open>a_sent\<close>
  and \<open>a_taken\<close> record the messages sent and started, for the statements only.
\<close>

record 'm actor =
  a_sched :: int
  a_queue :: "'m message list"
  a_pending :: "'m message list"
  a_snap :: "nat option"
  a_suspFut :: "nat option"
  a_prio :: "int option"
  a_sent :: "'m message list"
  a_taken :: "'m message list"

text \<open>
  The ready stacks by band, what is published of the futures (\<open>__settling__\<close>,
  whether \<open>__state__\<close> is settled, \<open>__waiters__\<close> or \<open>None\<close> once drained), the permits
  of the workers' semaphore, the pause flag and the size of the pool.
\<close>

record 'm sched =
  s_actor :: "nat \<Rightarrow> 'm actor"
  s_ready :: "nat \<Rightarrow> nat list"
  s_claimed :: "nat \<Rightarrow> bool"
  s_settled :: "nat \<Rightarrow> bool"
  s_waiters :: "nat \<Rightarrow> nat list option"
  s_permits :: nat
  s_paused :: bool
  s_workers :: nat

definition kNumPriorityBands :: nat where "kNumPriorityBands = 3"

definition upd_actor :: "nat \<Rightarrow> ('m actor \<Rightarrow> 'm actor) \<Rightarrow> 'm sched \<Rightarrow> 'm sched" where
  "upd_actor a g s = s\<lparr>s_actor := (s_actor s)(a := g (s_actor s a))\<rparr>"

definition set_sched :: "nat \<Rightarrow> int \<Rightarrow> 'm sched \<Rightarrow> 'm sched" where
  "set_sched a v = upd_actor a (\<lambda>x. x\<lparr>a_sched := v\<rparr>)"

section \<open>Where a thread is\<close>

text \<open>The mailbox cursor of a turn: the rest of the batch, \<open>pendingLoaded_\<close> and \<open>pendingDirty_\<close>.\<close>

record 'm cursor =
  c_batch :: "'m message list"
  c_loaded :: bool
  c_dirty :: bool

definition new_cursor :: "'m cursor" where
  "new_cursor = \<lparr>c_batch = [], c_loaded = False, c_dirty = False\<rparr>"

text \<open>
  A thread is a stack of activations, the innermost first.  The first five are the
  places of the worker loop; \<open>Run\<close> is user code of an actor, with the cursor of the
  turn unless it resumes a suspended message.
\<close>

datatype 'm frame =
    Worker
  | Draining
  | Spin
  | Spinning
  | Parked
  | Starting nat
  | Dequeue nat
  | Sched nat
  | Sched_cas nat int
  | Enqueue nat
  | Release
  | Turn nat
  | Next nat "'m cursor"
  | Run nat "'m cursor option" "nat option"
  | Append nat "'m cursor option" "nat option" nat
  | Append_cas nat "'m cursor option" "nat option" nat
  | Susp nat "'m cursor option" "nat option"
  | Spill nat "'m cursor" bool
  | Fin nat bool
  | Fin_cas nat bool
  | Fin_pending nat bool
  | Fin_queue nat bool
  | Fin_release nat bool
  | Fin_stale nat
  | Rel_pending nat
  | Rel_queue nat
  | Rel_claim nat
  | Settle nat
  | Callbacks nat
  | Publish nat
  | Drain nat
  | Wake "nat list"

text \<open>What the program and the scheduling of the threads choose.\<close>

datatype 'm choice =
    Tick
  | Send nat "'m message"
  | Settle_one nat
  | Help
  | Complete
  | Yield nat
  | Rescan
  | Set_priority nat "int option"
  | Stop
  | Start

section \<open>The flag of an actor\<close>

text \<open>\<open>casSchedState\<close>.\<close>

definition cas :: "nat \<Rightarrow> int \<Rightarrow> int \<Rightarrow> 'm sched \<Rightarrow> 'm sched option" where
  "cas a from to' s = (if a_sched (s_actor s a) = from then Some (set_sched a to' s) else None)"

text \<open>\<open>schedule\<close>: read the flag; then, unless a wakeup is marked already, compare and swap.\<close>

definition sched_read :: "nat \<Rightarrow> 'm sched \<Rightarrow> 'm frame list" where
  "sched_read a s = (let v = a_sched (s_actor s a) in if v = 2 then [] else [Sched_cas a v])"

definition sched_cas :: "nat \<Rightarrow> int \<Rightarrow> 'm sched \<Rightarrow> 'm frame list \<times> 'm sched" where
  "sched_cas a v s =
     (if v = 1 then (case cas a 1 2 s of Some s' \<Rightarrow> ([], s') | None \<Rightarrow> ([Sched a], s))
      else (case cas a 0 1 s of Some s' \<Rightarrow> ([Enqueue a], s') | None \<Rightarrow> ([Sched a], s)))"

text \<open>\<open>enqueueReady\<close>: the band of the actor, Medium when it has no valid one.\<close>

definition band_of :: "'m actor \<Rightarrow> nat" where
  "band_of x = (case a_prio x of None \<Rightarrow> 1 | Some v \<Rightarrow> if v \<ge> 0 \<and> v < int kNumPriorityBands then nat v else 1)"

definition enqueueReady :: "nat \<Rightarrow> 'm sched \<Rightarrow> 'm sched" where
  "enqueueReady a s = (let b = band_of (s_actor s a) in s\<lparr>s_ready := (s_ready s)(b := a # s_ready s b)\<rparr>)"

definition release :: "'m sched \<Rightarrow> 'm sched" where
  "release s = (if s_paused s then s else s\<lparr>s_permits := s_permits s + 1\<rparr>)"

section \<open>A turn\<close>

text \<open>
  \<open>drainOne\<close> on the popped actor: resume its suspended message when the future it
  awaits is settled, leave it suspended when it is not, otherwise take messages.
\<close>

definition turn_start :: "nat \<Rightarrow> 'm sched \<Rightarrow> 'm frame list \<times> 'm sched" where
  "turn_start a s =
     (let x = s_actor s a in
      case a_snap x of
        None \<Rightarrow> ([Next a new_cursor], s)
      | Some f \<Rightarrow>
          if s_settled s f then ([Run a None (a_suspFut x)], upd_actor a (\<lambda>x. x\<lparr>a_snap := None, a_suspFut := None\<rparr>) s)
          else ([Fin a True], s))"

text \<open>\<open>MailboxCursor::next\<close>: the batch, then \<open>__pending__\<close>, then all of the queue.\<close>

definition next_message :: "nat \<Rightarrow> 'm cursor \<Rightarrow> 'm sched \<Rightarrow> 'm frame list \<times> 'm sched" where
  "next_message a c s =
     (let x = s_actor s a in
      case c_batch c of
        m # ms \<Rightarrow> ([Run a (Some (c\<lparr>c_batch := ms\<rparr>)) (snd m)], upd_actor a (\<lambda>x. x\<lparr>a_taken := a_taken x @ [m]\<rparr>) s)
      | [] \<Rightarrow>
          if \<not> c_loaded c then
            ([Next a (if a_pending x = [] then c\<lparr>c_loaded := True\<rparr> else c\<lparr>c_loaded := True, c_dirty := True, c_batch := a_pending x\<rparr>)], s)
          else if a_queue x = [] then ([Spill a c False], s)
          else ([Next a (c\<lparr>c_batch := a_queue x\<rparr>)], upd_actor a (\<lambda>x. x\<lparr>a_queue := []\<rparr>) s))"

text \<open>\<open>MailboxCursor::spill\<close>: the messages the turn did not reach.\<close>

definition spill :: "nat \<Rightarrow> 'm cursor \<Rightarrow> 'm sched \<Rightarrow> 'm sched" where
  "spill a c s = (if c_batch c = [] \<and> \<not> c_dirty c then s else upd_actor a (\<lambda>x. x\<lparr>a_pending := c_batch c\<rparr>) s)"

text \<open>
  The method of a message ends: its future is settled and the turn goes on.  Or it
  waits for a future: the actor keeps its activation and joins the waiters of the
  future, or, when these have been drained already, is scheduled again at once.
\<close>

definition settle_mine :: "nat option \<Rightarrow> 'm frame list" where
  "settle_mine mf = (case mf of None \<Rightarrow> [] | Some f \<Rightarrow> [Settle f])"

definition complete :: "nat \<Rightarrow> 'm cursor option \<Rightarrow> nat option \<Rightarrow> 'm frame list" where
  "complete a c mf = settle_mine mf @ [Next a (case c of None \<Rightarrow> new_cursor | Some c \<Rightarrow> c)]"

definition append_cas :: "nat \<Rightarrow> 'm cursor option \<Rightarrow> nat option \<Rightarrow> nat \<Rightarrow> 'm sched \<Rightarrow> 'm frame list \<times> 'm sched" where
  "append_cas a c mf f s =
     (case s_waiters s f of
        None \<Rightarrow> ([Sched a, Susp a c mf], s)
      | Some l \<Rightarrow> ([Susp a c mf], s\<lparr>s_waiters := (s_waiters s)(f := Some (l @ [a]))\<rparr>))"

definition suspend_turn :: "nat \<Rightarrow> 'm cursor option \<Rightarrow> nat option \<Rightarrow> 'm sched \<Rightarrow> 'm frame list \<times> 'm sched" where
  "suspend_turn a c mf s =
     (case c of None \<Rightarrow> [Fin a True] | Some c \<Rightarrow> [Spill a c True],
      case mf of None \<Rightarrow> s | Some f \<Rightarrow> upd_actor a (\<lambda>x. x\<lparr>a_suspFut := Some f\<rparr>) s)"

text \<open>\<open>finishDrain\<close>, step by step; the flag is 1 or 2 when a turn ends.\<close>

definition fin_read :: "nat \<Rightarrow> bool \<Rightarrow> 'm sched \<Rightarrow> 'm frame list" where
  "fin_read a susp s = (if a_sched (s_actor s a) = 2 then [Fin_cas a susp] else [Fin_release a susp])"

definition fin_cas :: "nat \<Rightarrow> bool \<Rightarrow> 'm sched \<Rightarrow> 'm frame list \<times> 'm sched" where
  "fin_cas a susp s = (case cas a 2 1 s of Some s' \<Rightarrow> ([Fin_pending a susp], s') | None \<Rightarrow> ([Fin a susp], s))"

text \<open>A wakeup with nothing left to do for it: the flag is released, without another look.\<close>

definition fin_queue :: "nat \<Rightarrow> bool \<Rightarrow> 'm sched \<Rightarrow> 'm frame list" where
  "fin_queue a susp s = (if a_queue (s_actor s a) \<noteq> [] \<or> susp then [Enqueue a] else [Fin_stale a])"

definition fin_stale :: "nat \<Rightarrow> 'm sched \<Rightarrow> 'm frame list \<times> 'm sched" where
  "fin_stale a s = (case cas a 1 0 s of Some s' \<Rightarrow> ([], s') | None \<Rightarrow> ([Fin a False], s))"

definition fin_release :: "nat \<Rightarrow> bool \<Rightarrow> 'm sched \<Rightarrow> 'm frame list \<times> 'm sched" where
  "fin_release a susp s =
     (case cas a 1 0 s of
        Some s' \<Rightarrow> (if susp then [] else [Rel_pending a], s')
      | None \<Rightarrow> ([Fin a susp], s))"

definition rel_claim :: "nat \<Rightarrow> 'm sched \<Rightarrow> 'm frame list \<times> 'm sched" where
  "rel_claim a s = (case cas a 0 1 s of Some s' \<Rightarrow> ([Enqueue a], s') | None \<Rightarrow> ([], s))"

section \<open>Settling a future\<close>

text \<open>
  \<open>settleFuture\<close>: claim; write the value and run the callbacks, which are user code;
  publish the state; drain the waiters and schedule each.  A callback that suspends
  is not modelled.
\<close>

definition settle_claim :: "nat \<Rightarrow> 'm sched \<Rightarrow> 'm frame list \<times> 'm sched" where
  "settle_claim f s = (if s_claimed s f then ([], s) else ([Callbacks f], s\<lparr>s_claimed := (s_claimed s)(f := True)\<rparr>))"

definition drain_waiters :: "nat \<Rightarrow> 'm sched \<Rightarrow> 'm frame list \<times> 'm sched" where
  "drain_waiters f s =
     (case s_waiters s f of None \<Rightarrow> ([], s) | Some l \<Rightarrow> ([Wake l], s\<lparr>s_waiters := (s_waiters s)(f := None)\<rparr>))"

section \<open>One step of a thread\<close>

text \<open>What user code, of an actor or of a thread outside the pool, can do.\<close>

definition user_step :: "'m choice \<Rightarrow> 'm sched \<Rightarrow> ('m frame list \<times> 'm sched) option" where
  "user_step ch s = (case ch of
       Send b m \<Rightarrow> Some ([Sched b], upd_actor b (\<lambda>x. x\<lparr>a_queue := a_queue x @ [m], a_sent := a_sent x @ [m]\<rparr>) s)
     | Settle_one f \<Rightarrow> Some ([Settle f], s)
     | Help \<Rightarrow> Some ([Dequeue 0], s)
     | Set_priority b p \<Rightarrow> Some ([], upd_actor b (\<lambda>x. x\<lparr>a_prio := p\<rparr>) s)
     | Stop \<Rightarrow> Some ([], s\<lparr>s_paused := True\<rparr>)
     | Start \<Rightarrow> Some ([Starting (s_workers s)], s\<lparr>s_paused := False\<rparr>)
     | _ \<Rightarrow> None)"

text \<open>The innermost activation and what takes its place, the innermost first.\<close>

fun frame_step :: "'m choice \<Rightarrow> 'm frame \<Rightarrow> 'm sched \<Rightarrow> ('m frame list \<times> 'm sched) option" where
  "frame_step ch Worker s = (if s_paused s then None else Some ([Dequeue 0, Draining], s))"
| "frame_step ch Draining s = Some ([Dequeue 0, Draining], s)"
| "frame_step ch Spin s = Some (if ch = Rescan then [Dequeue 0, Spinning] else [Parked], s)"
| "frame_step ch Spinning s = Some ([Spin], s)"
| "frame_step ch Parked s = (if s_permits s = 0 then None else Some ([Worker], s\<lparr>s_permits := s_permits s - 1\<rparr>))"
| "frame_step ch (Starting n) s = (case n of 0 \<Rightarrow> Some ([], s) | Suc k \<Rightarrow> Some ([Starting k], s\<lparr>s_permits := s_permits s + 1\<rparr>))"
| "frame_step ch (Dequeue b) s = None"
| "frame_step ch (Sched a) s = Some (sched_read a s, s)"
| "frame_step ch (Sched_cas a v) s = Some (sched_cas a v s)"
| "frame_step ch (Enqueue a) s = Some ([Release], enqueueReady a s)"
| "frame_step ch Release s = Some ([], release s)"
| "frame_step ch (Turn a) s = Some (turn_start a s)"
| "frame_step ch (Next a c) s = Some (next_message a c s)"
| "frame_step ch (Run a c mf) s =
     (case ch of
        Complete \<Rightarrow> Some (complete a c mf, s)
      | Yield f \<Rightarrow> Some ([Append a c mf f], upd_actor a (\<lambda>x. x\<lparr>a_snap := Some f\<rparr>) s)
      | _ \<Rightarrow> map_option (\<lambda>(new, s'). (new @ [Run a c mf], s')) (user_step ch s))"
| "frame_step ch (Append a c mf f) s = Some (if s_settled s f then [Sched a, Susp a c mf] else [Append_cas a c mf f], s)"
| "frame_step ch (Append_cas a c mf f) s = Some (append_cas a c mf f s)"
| "frame_step ch (Susp a c mf) s = Some (suspend_turn a c mf s)"
| "frame_step ch (Spill a c susp) s = Some ([Fin a susp], spill a c s)"
| "frame_step ch (Fin a susp) s = Some (fin_read a susp s, s)"
| "frame_step ch (Fin_cas a susp) s = Some (fin_cas a susp s)"
| "frame_step ch (Fin_pending a susp) s = Some (if a_pending (s_actor s a) \<noteq> [] then [Enqueue a] else [Fin_queue a susp], s)"
| "frame_step ch (Fin_queue a susp) s = Some (fin_queue a susp s, s)"
| "frame_step ch (Fin_release a susp) s = Some (fin_release a susp s)"
| "frame_step ch (Fin_stale a) s = Some (fin_stale a s)"
| "frame_step ch (Rel_pending a) s = Some (if a_pending (s_actor s a) \<noteq> [] then [Rel_claim a] else [Rel_queue a], s)"
| "frame_step ch (Rel_queue a) s = Some (if a_queue (s_actor s a) \<noteq> [] then [Rel_claim a] else [], s)"
| "frame_step ch (Rel_claim a) s = Some (rel_claim a s)"
| "frame_step ch (Settle f) s = Some (settle_claim f s)"
| "frame_step ch (Callbacks f) s =
     (case ch of
        Complete \<Rightarrow> Some ([Publish f], s)
      | _ \<Rightarrow> map_option (\<lambda>(new, s'). (new @ [Callbacks f], s')) (user_step ch s))"
| "frame_step ch (Publish f) s = Some ([Drain f], s\<lparr>s_settled := (s_settled s)(f := True)\<rparr>)"
| "frame_step ch (Drain f) s = Some (drain_waiters f s)"
| "frame_step ch (Wake l) s = (case l of [] \<Rightarrow> Some ([], s) | a # as \<Rightarrow> Some ([Sched a, Wake as], s))"

text \<open>
  \<open>dequeueReady\<close>: one pop per band, the highest priority first.  The activation
  below learns whether an actor was found: the worker loop drains on, or spins and
  then parks; code that helps while it waits just goes on.
\<close>

fun found :: "'m frame list \<Rightarrow> 'm frame list" where
  "found (Spinning # st) = Worker # st"
| "found st = st"

fun missed :: "'m frame list \<Rightarrow> 'm frame list" where
  "missed (Draining # st) = Spin # st"
| "missed (Spinning # st) = Spin # st"
| "missed st = st"

definition dequeue_step :: "nat \<Rightarrow> 'm frame list \<Rightarrow> 'm sched \<Rightarrow> 'm frame list \<times> 'm sched" where
  "dequeue_step b st s =
     (if b \<ge> kNumPriorityBands then (missed st, s)
      else case s_ready s b of
             [] \<Rightarrow> (Dequeue (Suc b) # st, s)
           | a # as \<Rightarrow> (Turn a # found st, s\<lparr>s_ready := (s_ready s)(b := as)\<rparr>))"

definition thread_step :: "'m choice \<Rightarrow> 'm frame list \<Rightarrow> 'm sched \<Rightarrow> ('m frame list \<times> 'm sched) option" where
  "thread_step ch st s = (case st of
       [] \<Rightarrow> user_step ch s
     | Dequeue b # st \<Rightarrow> Some (dequeue_step b st s)
     | fr # st \<Rightarrow> map_option (\<lambda>(new, s'). (new @ st, s')) (frame_step ch fr s))"

section \<open>All threads together\<close>

definition fresh_actor :: "'m actor" where
  "fresh_actor = \<lparr>a_sched = 0, a_queue = [], a_pending = [], a_snap = None, a_suspFut = None, a_prio = None, a_sent = [], a_taken = []\<rparr>"

definition idle_sched :: "nat \<Rightarrow> 'm sched" where
  "idle_sched n = \<lparr>s_actor = (\<lambda>_. fresh_actor), s_ready = (\<lambda>_. []), s_claimed = (\<lambda>_. False), s_settled = (\<lambda>_. False),
     s_waiters = (\<lambda>_. Some []), s_permits = 0, s_paused = False, s_workers = n\<rparr>"

text \<open>
  A pool of \<open>n\<close> workers and any number \<open>k\<close> of other threads; the multiset holds
  the stacks of the threads, whose identity does not matter.
\<close>

inductive reached :: "nat \<Rightarrow> nat \<Rightarrow> 'm frame list multiset \<Rightarrow> 'm sched \<Rightarrow> bool" where
  start: "reached n k (replicate_mset n [Worker] + replicate_mset k []) (idle_sched n)"
| step: "reached n k (add_mset st T) s \<Longrightarrow> thread_step ch st s = Some (st', s') \<Longrightarrow> reached n k (add_mset st' T) s'"

end
