(* ===== verification/SchedulerInv.thy ===== *)
theory SchedulerInv
  imports Scheduler
begin

text \<open>
  What holds in every reachable state of the scheduler, for any interleaving of any
  number of threads.
\<close>

section \<open>Activations\<close>

text \<open>The activations that matter to an actor; the others only drive the worker loop.\<close>

fun active :: "'m frame \<Rightarrow> bool" where
  "active Worker = False"
| "active Draining = False"
| "active Spin = False"
| "active Spinning = False"
| "active Parked = False"
| "active (Starting n) = False"
| "active (Dequeue b) = False"
| "active Release = False"
| "active fr = True"

definition actives :: "'m frame list \<Rightarrow> 'm frame multiset" where
  "actives st = filter_mset active (mset st)"

definition all_actives :: "'m frame list multiset \<Rightarrow> 'm frame multiset" where
  "all_actives T = \<Sum>\<^sub># (image_mset actives T)"

lemma actives_simps [simp]:
  "actives [] = {#}" "actives (fr # st) = (if active fr then add_mset fr (actives st) else actives st)"
  "actives (xs @ ys) = actives xs + actives ys"
  by (simp_all add: actives_def)

lemma all_actives_simps [simp]:
  "all_actives {#} = {#}" "all_actives (add_mset st T) = actives st + all_actives T" "all_actives (T + U) = all_actives T + all_actives U"
  by (simp_all add: all_actives_def)

text \<open>The actor whose turn (or whose place in the ready stack) an activation is.\<close>

fun holder :: "'m frame \<Rightarrow> nat option" where
  "holder (Enqueue a) = Some a"
| "holder (Turn a) = Some a"
| "holder (Next a c) = Some a"
| "holder (Run a c mf) = Some a"
| "holder (Append a c mf f) = Some a"
| "holder (Append_cas a c mf f) = Some a"
| "holder (Susp a c mf) = Some a"
| "holder (Spill a c susp) = Some a"
| "holder (Fin a susp) = Some a"
| "holder (Fin_cas a susp) = Some a"
| "holder (Fin_pending a susp) = Some a"
| "holder (Fin_queue a susp) = Some a"
| "holder (Fin_release a susp) = Some a"
| "holder (Fin_stale a) = Some a"
| "holder fr = None"

definition held :: "nat \<Rightarrow> 'm frame multiset \<Rightarrow> nat" where
  "held a F = size {#fr \<in># F. holder fr = Some a#}"

lemma held_simps [simp]:
  "held a {#} = 0" "held a (F + G) = held a F + held a G"
  "held a (add_mset fr F) = (if holder fr = Some a then Suc (held a F) else held a F)"
  by (simp_all add: held_def)

definition queued :: "nat \<Rightarrow> 'm sched \<Rightarrow> nat" where
  "queued a s = count_list (s_ready s 0) a + count_list (s_ready s 1) a + count_list (s_ready s 2) a"

definition token_at :: "nat \<Rightarrow> 'm frame multiset \<Rightarrow> 'm sched \<Rightarrow> bool" where
  "token_at a F s \<longleftrightarrow>
     (let v = a_sched (s_actor s a) in v = 0 \<and> held a F + queued a s = 0 \<or> (v = 1 \<or> v = 2) \<and> held a F + queued a s = 1)"

lemma band_of_cases: "band_of x = 0 \<or> band_of x = 1 \<or> band_of x = 2"
  by (auto simp: band_of_def kNumPriorityBands_def split: option.split)

lemma upd_actor_sel [simp]:
  "s_actor (upd_actor a g s) = (s_actor s)(a := g (s_actor s a))" "s_ready (upd_actor a g s) = s_ready s"
  "s_waiters (upd_actor a g s) = s_waiters s" "s_settled (upd_actor a g s) = s_settled s" "s_claimed (upd_actor a g s) = s_claimed s"
  "s_permits (upd_actor a g s) = s_permits s" "s_paused (upd_actor a g s) = s_paused s" "s_workers (upd_actor a g s) = s_workers s"
  by (simp_all add: upd_actor_def)

lemmas step_defs = sched_read_def sched_cas_def cas_def set_sched_def release_def turn_start_def next_message_def
  spill_def complete_def settle_mine_def append_cas_def suspend_turn_def fin_read_def fin_cas_def fin_queue_def fin_stale_def fin_release_def rel_claim_def
  settle_claim_def drain_waiters_def user_step_def

lemma queued_simps [simp]:
  "queued a (upd_actor b g s) = queued a s" "queued a (s\<lparr>s_claimed := cl\<rparr>) = queued a s" "queued a (s\<lparr>s_settled := st\<rparr>) = queued a s"
  "queued a (s\<lparr>s_waiters := wt\<rparr>) = queued a s" "queued a (s\<lparr>s_permits := p\<rparr>) = queued a s" "queued a (s\<lparr>s_paused := pd\<rparr>) = queued a s"
  "queued a (enqueueReady b s) = (if a = b then Suc (queued a s) else queued a s)"
  "s_actor (enqueueReady b s) = s_actor s"
  using band_of_cases [of "s_actor s b"] by (auto simp: queued_def enqueueReady_def Let_def)

text \<open>What user code does to actors: a message to one of them, or a new priority.\<close>

lemma user_cases:
  assumes "user_step ch s = Some (new, s')"
  obtains (send) b m where "ch = Send b m" "new = [Sched b]" "s' = upd_actor b (\<lambda>x. x\<lparr>a_queue := a_queue x @ [m], a_sent := a_sent x @ [m]\<rparr>) s"
    | (priority) b p where "ch = Set_priority b p" "new = []" "s' = upd_actor b (\<lambda>x. x\<lparr>a_prio := p\<rparr>) s"
    | (settle) f where "ch = Settle_one f" "new = [Settle f]" "s' = s"
    | (pool) fr p where "new = fr" "actives fr = {#}" "s' = s\<lparr>s_paused := p\<rparr>"
proof (cases ch)
  case Help
  then show thesis using assms pool [of "[Dequeue 0]" "s_paused s"] by (auto simp: user_step_def)
qed (use assms in \<open>auto simp: user_step_def intro: that\<close>)

lemma run_cases:
  assumes "frame_step ch (Run a c mf) s = Some (new, s')"
  obtains (complete) "new = complete a c mf" "s' = s"
    | (yield) f where "new = [Append a c mf f]" "s' = upd_actor a (\<lambda>x. x\<lparr>a_snap := Some f\<rparr>) s"
    | (user) us where "user_step ch s = Some (us, s')" "new = us @ [Run a c mf]"
  using assms by (cases ch) (auto intro: that)

lemma callback_cases:
  assumes "frame_step ch (Callbacks f) s = Some (new, s')"
  obtains (ended) "new = [Publish f]" "s' = s"
    | (user) us where "user_step ch s = Some (us, s')" "new = us @ [Callbacks f]"
  using assms by (cases ch) (auto intro: that)

text \<open>Most steps change no flag, no ready stack and no holder.\<close>

definition same_tokens :: "nat \<Rightarrow> 'm frame list \<Rightarrow> 'm sched \<Rightarrow> 'm frame list \<Rightarrow> 'm sched \<Rightarrow> bool" where
  "same_tokens a old s new s' \<longleftrightarrow>
     a_sched (s_actor s' a) = a_sched (s_actor s a) \<and> queued a s' = queued a s \<and> held a (actives new) = held a (actives old)"

lemma user_same_tokens: "user_step ch s = Some (new, s') \<Longrightarrow> same_tokens a [] s new s'"
  by (erule user_cases) (auto simp: same_tokens_def)

fun flag_step :: "'m frame \<Rightarrow> bool" where
  "flag_step (Sched_cas a v) = True"
| "flag_step (Enqueue a) = True"
| "flag_step (Fin_cas a susp) = True"
| "flag_step (Fin_release a susp) = True"
| "flag_step (Fin_stale a) = True"
| "flag_step (Rel_claim a) = True"
| "flag_step fr = False"

lemma quiet_same_tokens:
  assumes st: "frame_step ch fr s = Some (new, s')" and q: "\<not> flag_step fr"
  shows "same_tokens a [fr] s new s'"
proof (cases fr)
  case (Run b c mf)
  from st [unfolded Run] show ?thesis
  proof (cases rule: run_cases)
    case (user us)
    then show ?thesis using user_same_tokens [of ch s us s' a] Run by (simp add: same_tokens_def)
  qed (use Run in \<open>simp_all add: same_tokens_def complete_def settle_mine_def split: option.split\<close>)
next
  case (Callbacks f)
  from st [unfolded Callbacks] show ?thesis
  proof (cases rule: callback_cases)
    case (user us)
    then show ?thesis using user_same_tokens [of ch s us s' a] Callbacks by (simp add: same_tokens_def)
  qed (use Callbacks in \<open>simp add: same_tokens_def\<close>)
qed (use assms in \<open>auto simp: same_tokens_def step_defs Let_def split: if_splits option.splits list.splits nat.splits\<close>)

lemma token_same: "same_tokens a old s new s' \<Longrightarrow> token_at a (actives old + R) s \<Longrightarrow> token_at a (actives new + R) s'"
  by (simp add: same_tokens_def token_at_def)

lemma cas_cases:
  assumes "cas a from to' s = r"
  obtains (swapped) "a_sched (s_actor s a) = from" "r = Some (set_sched a to' s)"
    | (changed) "a_sched (s_actor s a) \<noteq> from" "r = None"
  using assms by (auto simp: cas_def split: if_splits)

lemma set_sched_sel [simp]: "a_sched (s_actor (set_sched a v s) b) = (if a = b then v else a_sched (s_actor s b))"
  "queued b (set_sched a v s) = queued b s"
  by (simp_all add: set_sched_def)

lemma token_step:
  assumes ok: "token_at a (actives [fr] + R) s" and st: "frame_step ch fr s = Some (new, s')"
  shows "token_at a (actives new + R) s'"
proof (cases "flag_step fr")
  case False
  from token_same [OF quiet_same_tokens [OF st False] ok] show ?thesis .
next
  case True
  have keep: "token_at a (actives [fr'] + R) s" if "holder fr' = holder fr" "active fr'" "active fr" for fr'
    using ok that by (simp add: token_at_def)
  show ?thesis
  proof (cases fr)
    case (Sched_cas b v)
    define r1 r2 where "r1 = cas b 1 2 s" and "r2 = cas b 0 1 s"
    show ?thesis
    proof (cases "v = 1")
      case True
      from r1_def [symmetric] show ?thesis
        by (cases rule: cas_cases) (use ok st True Sched_cas r1_def in \<open>auto simp: sched_cas_def token_at_def\<close>)
    next
      case False
      from r2_def [symmetric] show ?thesis
        by (cases rule: cas_cases) (use ok st False Sched_cas r2_def in \<open>auto simp: sched_cas_def token_at_def\<close>)
    qed
  next
    case (Enqueue b)
    then show ?thesis using ok st by (auto simp: token_at_def)
  next
    case (Fin_cas b susp)
    define r where "r = cas b 2 1 s"
    from r_def [symmetric] show ?thesis
      by (cases rule: cas_cases) (use ok st Fin_cas r_def in \<open>auto simp: fin_cas_def token_at_def\<close>)
  next
    case (Fin_release b susp)
    define r where "r = cas b 1 0 s"
    from r_def [symmetric] show ?thesis
      by (cases rule: cas_cases) (use ok st Fin_release r_def in \<open>auto simp: fin_release_def token_at_def\<close>)
  next
    case (Fin_stale b)
    define r where "r = cas b 1 0 s"
    from r_def [symmetric] show ?thesis
      by (cases rule: cas_cases) (use ok st Fin_stale r_def in \<open>auto simp: fin_stale_def token_at_def\<close>)
  next
    case (Rel_claim b)
    define r where "r = cas b 0 1 s"
    from r_def [symmetric] show ?thesis
      by (cases rule: cas_cases) (use ok st Rel_claim r_def in \<open>auto simp: rel_claim_def token_at_def\<close>)
  qed (use True in simp_all)
qed

section \<open>From activations to threads\<close>

text \<open>
  A step of a thread is a step of its innermost activation, of user code, or a pop
  of a ready stack; the activations of the worker loop do not count.
\<close>

lemma found_actives [simp]: "actives (found st) = actives st" "actives (missed st) = actives st"
  by (induction st rule: found.induct; simp) (induction st rule: missed.induct; simp)

lemma thread_step_frame:
  "\<nexists>b. fr = Dequeue b \<Longrightarrow> thread_step ch (fr # rest) s = map_option (\<lambda>(new, s'). (new @ rest, s')) (frame_step ch fr s)"
  by (cases fr) (simp_all add: thread_step_def del: frame_step.simps)

lemma thread_step_cases:
  assumes "thread_step ch st s = Some (st', s')"
  obtains (user) new where "st = []" "user_step ch s = Some (new, s')" "st' = new"
    | (frame) fr rest new where "st = fr # rest" "frame_step ch fr s = Some (new, s')" "st' = new @ rest"
    | (popped) b rest a as where "st = Dequeue b # rest" "b < 3" "s_ready s b = a # as" "st' = Turn a # found rest"
        "s' = s\<lparr>s_ready := (s_ready s)(b := as)\<rparr>"
    | (empty) b rest where "st = Dequeue b # rest" "b < 3" "s_ready s b = []" "st' = Dequeue (Suc b) # rest" "s' = s"
    | (none) b rest where "st = Dequeue b # rest" "b \<ge> 3" "st' = missed rest" "s' = s"
proof (cases st)
  case Nil
  then show thesis using assms user by (simp add: thread_step_def)
next
  case (Cons fr rest)
  show thesis
  proof (cases "\<exists>b. fr = Dequeue b")
    case True
    then obtain b where b: "fr = Dequeue b" by blast
    then have "dequeue_step b rest s = (st', s')" using assms Cons by (simp add: thread_step_def)
    show thesis
    proof (cases "b < 3")
      case False
      then have "st' = missed rest" "s' = s"
        using \<open>dequeue_step b rest s = (st', s')\<close> by (simp_all add: dequeue_step_def kNumPriorityBands_def)
      then show thesis using none [of b rest] Cons b False by simp
    next
      case True
      show thesis
      proof (cases "s_ready s b")
        case Nil
        then have "st' = Dequeue (Suc b) # rest" "s' = s"
          using \<open>dequeue_step b rest s = (st', s')\<close> True by (simp_all add: dequeue_step_def kNumPriorityBands_def)
        then show thesis using empty [of b rest] Cons b True Nil by simp
      next
        case popd: (Cons a as)
        then have "st' = Turn a # found rest" "s' = s\<lparr>s_ready := (s_ready s)(b := as)\<rparr>"
          using \<open>dequeue_step b rest s = (st', s')\<close> True by (simp_all add: dequeue_step_def kNumPriorityBands_def)
        then show thesis using popped [of b rest a as] Cons b True popd by simp
      qed
    qed
  next
    case False
    then have "map_option (\<lambda>(new, s'). (new @ rest, s')) (frame_step ch fr s) = Some (st', s')"
      using assms Cons by (simp add: thread_step_frame)
    then show thesis using frame [OF Cons] by auto
  qed
qed

lemma idle_actives [simp]: "all_actives (replicate_mset n [Worker]) = {#}" "all_actives (replicate_mset n []) = {#}"
  by (induction n; simp)+

lemma token_popped:
  "token_at c F s \<Longrightarrow> b < 3 \<Longrightarrow> s_ready s b = a # as \<Longrightarrow> token_at c (add_mset (Turn a) F) (s\<lparr>s_ready := (s_ready s)(b := as)\<rparr>)"
proof -
  assume assms: "token_at c F s" "b < 3" "s_ready s b = a # as"
  then have "b = 0 \<or> b = 1 \<or> b = 2" by auto
  then show ?thesis using assms by (auto simp: token_at_def queued_def)
qed

lemma token_reached: "reached n k T s \<Longrightarrow> token_at a (all_actives T) s"
proof (induction rule: reached.induct)
  case (start n k)
  then show ?case by (simp add: token_at_def queued_def idle_sched_def fresh_actor_def)
next
  case (step n k st T s ch st' s')
  have IH: "token_at a (actives st + all_actives T) s" using step.IH by simp
  from step.hyps(2) show ?case
  proof (cases rule: thread_step_cases)
    case user
    then show ?thesis using IH token_same [OF user_same_tokens [OF user(2)], of a "all_actives T"] by simp
  next
    case (frame fr rest new)
    have "token_at a (actives [fr] + (actives rest + all_actives T)) s"
      using IH frame(1) by (cases "active fr") (simp_all add: add.assoc)
    from token_step [OF this frame(2)] show ?thesis by (simp add: frame(3) add.assoc)
  next
    case (popped b rest x as)
    then show ?thesis using IH token_popped [of a "actives rest + all_actives T" s b x as] by simp
  qed (use IH in simp_all)
qed

text \<open>
  C17. At most one thread runs a turn of an actor, and an actor is never in the ready
  stacks while it runs or twice at once; its flag is 0 exactly when it is nowhere.
\<close>

theorem one_turn_at_a_time:
  assumes "reached n k T s"
  shows "held a (all_actives T) + queued a s \<le> 1 \<and> (held a (all_actives T) + queued a s = 0 \<longleftrightarrow> a_sched (s_actor s a) = 0)"
  using token_reached [OF assms, of a] by (auto simp: token_at_def Let_def)

section \<open>A run\<close>

text \<open>A thread outside the pool sends actor 0 a message and puts it into its ready stack.\<close>

definition sent_sched :: "nat sched" where
  "sent_sched = upd_actor 0 (\<lambda>x. x\<lparr>a_queue := [(7, None)], a_sent := [(7, None)]\<rparr>) (idle_sched 1)"

lemma idle_one: "reached 1 1 {#[], [Worker]#} (idle_sched 1)"
  using reached.start [of 1 1] by (simp add: add_mset_commute)

lemma sent_run: "reached 1 1 {#[Sched 0], [Worker]#} sent_sched"
  by (rule reached.step [OF idle_one, where ch = "Send 0 (7, None)"])
    (simp add: thread_step_def user_step_def sent_sched_def upd_actor_def idle_sched_def fresh_actor_def)

lemma scheduled_run: "reached 1 1 {#[Enqueue 0], [Worker]#} (set_sched 0 1 sent_sched)"
proof -
  have "thread_step Tick [Sched 0] sent_sched = Some ([Sched_cas 0 0], sent_sched)"
    by (simp add: thread_step_def sched_read_def sent_sched_def idle_sched_def fresh_actor_def)
  from reached.step [OF sent_run this] have "reached 1 1 {#[Sched_cas 0 0], [Worker]#} sent_sched" .
  moreover have "thread_step Tick [Sched_cas 0 0] sent_sched = Some ([Enqueue 0], set_sched 0 1 sent_sched)"
    by (simp add: thread_step_def sched_cas_def cas_def sent_sched_def idle_sched_def fresh_actor_def)
  ultimately show ?thesis by (rule reached.step)
qed

theorem one_turn_at_a_time_witness:
  "held 0 (all_actives {#[Enqueue 0], [Worker]#}) + queued 0 (set_sched 0 1 sent_sched) \<le> 1 \<and> held 0 {#Enqueue (0::nat) :: nat frame#} = 1"
  using one_turn_at_a_time [OF scheduled_run, of 0] by simp

end
