(* ===== verification/SchedulerWake.thy ===== *)
theory SchedulerWake
  imports SchedulerInv
begin

text \<open>
  No wakeup is lost and no message is lost, repeated or overtaken: what the steps of
  the other threads may do to an actor (the rely condition of its holder), what its
  holder must have established when it gives the actor up, and the invariant these
  make up.
\<close>

section \<open>What is announced of an actor\<close>

text \<open>A call of \<open>schedule\<close> for the actor that has not reached its compare-and-swap.\<close>

fun waker :: "nat \<Rightarrow> 'm frame \<Rightarrow> bool" where
  "waker a (Sched b) = (a = b)"
| "waker a (Sched_cas b v) = (a = b)"
| "waker a (Wake l) = (a \<in> set l)"
| "waker a fr = False"

definition wake :: "nat \<Rightarrow> 'm frame multiset \<Rightarrow> bool" where
  "wake a F \<longleftrightarrow> (\<exists>fr \<in># F. waker a fr)"

lemma wake_simps [simp]:
  "wake a {#} = False" "wake a (add_mset fr F) = (waker a fr \<or> wake a F)" "wake a (F + G) = (wake a F \<or> wake a G)"
  by (auto simp: wake_def)

definition registered :: "nat \<Rightarrow> nat \<Rightarrow> 'm sched \<Rightarrow> bool" where
  "registered f a s \<longleftrightarrow> (\<exists>l. s_waiters s f = Some l \<and> a \<in> set l)"

text \<open>Either nothing is in the queue, or a wakeup for it is under way or marked in the flag.\<close>

definition unread :: "nat \<Rightarrow> 'm frame multiset \<Rightarrow> 'm sched \<Rightarrow> bool" where
  "unread a F s \<longleftrightarrow> a_queue (s_actor s a) = [] \<or> wake a F \<or> a_sched (s_actor s a) = 2"

text \<open>The settling of \<open>f\<close> will wake the actor, or is doing it, or has marked it.\<close>

definition due :: "nat \<Rightarrow> nat \<Rightarrow> 'm frame multiset \<Rightarrow> 'm sched \<Rightarrow> bool" where
  "due f a F s \<longleftrightarrow> registered f a s \<or> wake a F \<or> a_sched (s_actor s a) = 2"

section \<open>What other threads do to an actor\<close>

definition rely :: "nat \<Rightarrow> 'm frame multiset \<Rightarrow> 'm sched \<Rightarrow> 'm frame multiset \<Rightarrow> 'm sched \<Rightarrow> bool" where
  "rely a F s F' s' \<longleftrightarrow>
     (let x = s_actor s a; y = s_actor s' a in
        a_snap y = a_snap x \<and> a_pending y = a_pending x \<and> a_taken y = a_taken x \<and>
        (\<exists>ms. a_queue y = a_queue x @ ms \<and> a_sent y = a_sent x @ ms) \<and>
        (a_sched x \<noteq> 0 \<longrightarrow> a_sched y \<noteq> 0) \<and>
        (\<forall>f. s_settled s f \<longrightarrow> s_settled s' f) \<and>
        (\<forall>f. registered f a s \<longrightarrow> registered f a s' \<or> Drain f \<in># F) \<and>
        (a_sched x \<noteq> 0 \<or> a_sched y = 0 \<longrightarrow> (unread a F s \<longrightarrow> unread a F' s') \<and> (\<forall>f. due f a F s \<longrightarrow> due f a F' s')))"

text \<open>Most steps leave the actor as it is, and drop no call of \<open>schedule\<close> for it.\<close>

lemma rely_same:
  assumes "s_actor s' a = s_actor s a" "\<And>f. s_settled s f \<Longrightarrow> s_settled s' f" "\<And>f. registered f a s \<Longrightarrow> registered f a s'"
    "wake a (actives old) \<Longrightarrow> wake a (actives new)"
  shows "rely a (actives old + R) s (actives new + R) s'"
  using assms by (auto simp: rely_def unread_def due_def Let_def)

lemma registered_simps [simp]:
  "registered f a (upd_actor b g s) = registered f a s" "registered f a (set_sched b v s) = registered f a s"
  "registered f a (s\<lparr>s_claimed := cl\<rparr>) = registered f a s" "registered f a (s\<lparr>s_settled := st\<rparr>) = registered f a s"
  "registered f a (s\<lparr>s_permits := p\<rparr>) = registered f a s" "registered f a (s\<lparr>s_paused := pd\<rparr>) = registered f a s"
  "registered f a (enqueueReady b s) = registered f a s" "registered f a (s\<lparr>s_ready := rd\<rparr>) = registered f a s"
  by (simp_all add: registered_def set_sched_def enqueueReady_def Let_def)

lemma registered_drained:
  "registered g a (s\<lparr>s_waiters := (s_waiters s)(f := None)\<rparr>) = (g \<noteq> f \<and> registered g a s)"
  by (simp add: registered_def)

lemma set_sched_sels [simp]:
  "s_actor (set_sched b v s) a = (if a = b then (s_actor s a)\<lparr>a_sched := v\<rparr> else s_actor s a)"
  "s_settled (set_sched b v s) = s_settled s" "s_waiters (set_sched b v s) = s_waiters s" "s_ready (set_sched b v s) = s_ready s"
  by (simp_all add: set_sched_def)

lemma user_rely:
  assumes "user_step ch s = Some (new, s')"
  shows "rely a R s (actives new + R) s'"
  using assms
proof (cases rule: user_cases)
  case (send b m)
  then show ?thesis by (auto simp: rely_def unread_def due_def Let_def)
next
  case (priority b p)
  then show ?thesis by (auto simp: rely_def unread_def due_def Let_def)
qed (use rely_same [of s' a s "[]" new R] in simp_all)

text \<open>The steps that change a flag, the waiters or a call of \<open>schedule\<close>.\<close>

fun wake_step :: "'m frame \<Rightarrow> bool" where
  "wake_step (Sched a) = True"
| "wake_step (Sched_cas a v) = True"
| "wake_step (Rel_claim a) = True"
| "wake_step (Drain f) = True"
| "wake_step (Wake l) = True"
| "wake_step fr = False"

lemma enqueueReady_sel [simp]: "s_settled (enqueueReady a s) = s_settled s" "s_waiters (enqueueReady a s) = s_waiters s"
  by (simp_all add: enqueueReady_def Let_def)

lemma rely_wake_step:
  assumes st: "frame_step ch fr s = Some (new, s')" and w: "wake_step fr"
  shows "rely a (actives [fr] + R) s (actives new + R) s'"
proof (cases fr)
  case (Sched b)
  then show ?thesis using st by (auto simp: sched_read_def rely_def unread_def due_def Let_def split: if_splits)
next
  case (Sched_cas b v)
  define r1 r2 where "r1 = cas b 1 2 s" and "r2 = cas b 0 1 s"
  show ?thesis
  proof (cases "v = 1")
    case True
    from r1_def [symmetric] show ?thesis
      by (cases rule: cas_cases)
        (use st True Sched_cas r1_def in \<open>auto simp: sched_cas_def rely_def unread_def due_def Let_def split: if_splits\<close>)
  next
    case False
    from r2_def [symmetric] show ?thesis
      by (cases rule: cas_cases)
        (use st False Sched_cas r2_def in \<open>auto simp: sched_cas_def rely_def unread_def due_def Let_def split: if_splits\<close>)
  qed
next
  case (Rel_claim b)
  define r where "r = cas b 0 1 s"
  from r_def [symmetric] show ?thesis
    by (cases rule: cas_cases) (use st Rel_claim r_def in \<open>auto simp: rel_claim_def rely_def unread_def due_def Let_def split: if_splits\<close>)
next
  case (Drain f)
  show ?thesis
  proof (cases "s_waiters s f")
    case None
    then show ?thesis using st Drain by (simp add: drain_waiters_def rely_def unread_def due_def Let_def)
  next
    case (Some l)
    then have "registered f a s = (a \<in> set l)" by (simp add: registered_def)
    with Some show ?thesis using st Drain
      by (auto simp: drain_waiters_def rely_def unread_def due_def Let_def registered_drained)
  qed
next
  case (Wake l)
  then show ?thesis using st by (cases l) (auto simp: rely_def unread_def due_def Let_def)
qed (use w in simp_all)

text \<open>The remaining steps of another holder leave the actor as it is.\<close>

definition leaves :: "nat \<Rightarrow> 'm sched \<Rightarrow> 'm sched \<Rightarrow> bool" where
  "leaves a s s' \<longleftrightarrow> s_actor s' a = s_actor s a \<and> (\<forall>f. s_settled s f \<longrightarrow> s_settled s' f) \<and> (\<forall>f. registered f a s \<longrightarrow> registered f a s')"

lemma leaves_refl [simp]: "leaves a s s"
  by (simp add: leaves_def)

lemma leaves_upd [simp]:
  "b \<noteq> a \<Longrightarrow> leaves a s (upd_actor b g s)" "b \<noteq> a \<Longrightarrow> leaves a s (set_sched b v s)" "leaves a s (enqueueReady b s)"
  "leaves a s (s\<lparr>s_claimed := cl\<rparr>)" "leaves a s (s\<lparr>s_permits := p\<rparr>)" "leaves a s (s\<lparr>s_settled := (s_settled s)(f := True)\<rparr>)"
  by (simp_all add: leaves_def)

lemma leaves_append: "s_waiters s f = Some l \<Longrightarrow> leaves a s (s\<lparr>s_waiters := (s_waiters s)(f := Some (l @ xs))\<rparr>)"
  by (auto simp: leaves_def registered_def)

lemma rely_leaves: "leaves a s s' \<Longrightarrow> \<not> wake a (actives old) \<Longrightarrow> rely a (actives old + R) s (actives new + R) s'"
  by (rule rely_same) (simp_all add: leaves_def)

lemma quiet_leaves:
  assumes st: "frame_step ch fr s = Some (new, s')" and h: "holder fr \<noteq> Some a" and w: "\<not> wake_step fr"
    and n: "\<nexists>b c mf. fr = Run b c mf" "\<nexists>f. fr = Callbacks f"
  shows "leaves a s s'"
  using assms by (cases fr) (auto simp: step_defs Let_def leaves_append split: if_splits option.splits list.splits nat.splits)

lemma rely_step:
  assumes st: "frame_step ch fr s = Some (new, s')" and h: "holder fr \<noteq> Some a"
  shows "rely a (actives [fr] + R) s (actives new + R) s'"
proof (cases "wake_step fr")
  case True
  from rely_wake_step [OF st True] show ?thesis .
next
  case False
  then have nw: "\<not> wake a (actives [fr])" by (cases fr) simp_all
  show ?thesis
  proof (cases fr)
    case (Run b c mf)
    from st [unfolded Run] show ?thesis
    proof (cases rule: run_cases)
      case (user us)
      then show ?thesis using user_rely [of ch s us s' a "add_mset fr R"] Run by simp
    next
      case (yield g)
      then show ?thesis using Run h rely_leaves [OF _ nw, of s s' R new] by simp
    qed (use nw rely_leaves [OF _ nw, of s s'] in simp)
  next
    case (Callbacks f)
    from st [unfolded Callbacks] show ?thesis
    proof (cases rule: callback_cases)
      case (user us)
      then show ?thesis using user_rely [of ch s us s' a "add_mset fr R"] Callbacks by simp
    next
      case ended
      then show ?thesis using rely_leaves [OF _ nw, of s s' R new] Callbacks by simp
    qed
  qed (rule rely_leaves [OF quiet_leaves [OF st h False] nw]; simp)+
qed

section \<open>What the holder has established\<close>

text \<open>The messages the turn has still to take: its batch, or what an earlier turn left.\<close>

definition left_of :: "'m cursor option \<Rightarrow> 'm actor \<Rightarrow> 'm message list" where
  "left_of c x = (case c of None \<Rightarrow> a_pending x | Some c \<Rightarrow> if c_loaded c then c_batch c else a_pending x)"

definition cursor_ok :: "'m cursor option \<Rightarrow> 'm actor \<Rightarrow> bool" where
  "cursor_ok c x \<longleftrightarrow> (case c of None \<Rightarrow> True
     | Some c \<Rightarrow> if c_loaded c then c_dirty c \<or> a_pending x = [] else c_batch c = [] \<and> \<not> c_dirty c)"

text \<open>Every message sent has been started, or is still to take, in the order of the sends.\<close>

definition conserved :: "'m message list \<Rightarrow> 'm actor \<Rightarrow> bool" where
  "conserved rest x \<longleftrightarrow> a_sent x = a_taken x @ rest @ a_queue x"

definition carries :: "nat \<Rightarrow> 'm cursor option \<Rightarrow> 'm sched \<Rightarrow> bool" where
  "carries a c s \<longleftrightarrow> cursor_ok c (s_actor s a) \<and> conserved (left_of c (s_actor s a)) (s_actor s a)"

text \<open>A turn that ends with its message suspended, or with the mailbox taken.\<close>

definition parked :: "nat \<Rightarrow> 'm frame multiset \<Rightarrow> 'm sched \<Rightarrow> bool" where
  "parked a F s \<longleftrightarrow> (\<exists>f. a_snap (s_actor s a) = Some f \<and> due f a F s)"

definition emptied :: "nat \<Rightarrow> 'm frame multiset \<Rightarrow> 'm sched \<Rightarrow> bool" where
  "emptied a F s \<longleftrightarrow> a_snap (s_actor s a) = None \<and> a_pending (s_actor s a) = [] \<and> unread a F s"

definition ended :: "nat \<Rightarrow> bool \<Rightarrow> 'm frame multiset \<Rightarrow> 'm sched \<Rightarrow> bool" where
  "ended a susp F s \<longleftrightarrow> carries a None s \<and> (if susp then parked a F s else emptied a F s)"

definition rescanned :: "nat \<Rightarrow> bool \<Rightarrow> 'm sched \<Rightarrow> bool" where
  "rescanned a susp s \<longleftrightarrow> carries a None s \<and>
     (if susp then a_snap (s_actor s a) \<noteq> None else a_snap (s_actor s a) = None \<and> a_pending (s_actor s a) = [])"

fun frame_ok :: "'m frame \<Rightarrow> 'm frame multiset \<Rightarrow> 'm sched \<Rightarrow> bool" where
  "frame_ok (Enqueue a) F s = carries a None s"
| "frame_ok (Turn a) F s = carries a None s"
| "frame_ok (Next a c) F s = (a_snap (s_actor s a) = None \<and> carries a (Some c) s)"
| "frame_ok (Run a c mf) F s = (a_snap (s_actor s a) = None \<and> carries a c s)"
| "frame_ok (Append a c mf f) F s = (a_snap (s_actor s a) = Some f \<and> carries a c s)"
| "frame_ok (Append_cas a c mf f) F s = (a_snap (s_actor s a) = Some f \<and> carries a c s)"
| "frame_ok (Susp a c mf) F s = (parked a F s \<and> carries a c s)"
| "frame_ok (Spill a c susp) F s =
     (carries a (Some c) s \<and>
      (if susp then parked a F s else a_snap (s_actor s a) = None \<and> unread a F s \<and> c_batch c = [] \<and> c_loaded c))"
| "frame_ok (Fin a susp) F s = ended a susp F s"
| "frame_ok (Fin_cas a susp) F s = ended a susp F s"
| "frame_ok (Fin_release a susp) F s = ended a susp F s"
| "frame_ok (Fin_stale a) F s = ended a False F s"
| "frame_ok (Fin_pending a susp) F s = rescanned a susp s"
| "frame_ok (Fin_queue a susp) F s = rescanned a susp s"
| "frame_ok fr F s = True"

lemma rely_carries: "rely a F s F' s' \<Longrightarrow> carries a c s \<Longrightarrow> carries a c s'"
  by (cases c) (auto simp: rely_def Let_def carries_def cursor_ok_def left_of_def conserved_def)

lemma rely_rests:
  assumes "rely a F s F' s'" "a_sched (s_actor s a) \<noteq> 0 \<or> a_sched (s_actor s' a) = 0"
  shows "parked a F s \<Longrightarrow> parked a F' s'" "emptied a F s \<Longrightarrow> emptied a F' s'" "unread a F s \<Longrightarrow> unread a F' s'"
    "a_snap (s_actor s' a) = a_snap (s_actor s a)" "a_pending (s_actor s' a) = a_pending (s_actor s a)"
  using assms by (auto simp: rely_def Let_def parked_def emptied_def)

lemma rely_frame_ok:
  assumes r: "rely a F s F' s'" and v: "a_sched (s_actor s a) \<noteq> 0" and h: "holder fr = Some a" and ok: "frame_ok fr F s"
  shows "frame_ok fr F' s'"
  using h ok rely_rests [OF r] rely_carries [OF r] v
  by (cases fr) (simp_all add: ended_def rescanned_def split: if_splits)

section \<open>The invariant\<close>

fun appends :: "nat \<Rightarrow> nat \<Rightarrow> 'm frame \<Rightarrow> bool" where
  "appends a f (Append b c mf g) = (a = b \<and> f = g)"
| "appends a f (Append_cas b c mf g) = (a = b \<and> f = g)"
| "appends a f fr = False"

text \<open>
  At rest, an actor has an empty mailbox or is due to be woken by the future it
  awaits; a suspended actor's future has settled, knows the actor, or is being told.
\<close>

definition actor_ok :: "nat \<Rightarrow> 'm frame multiset \<Rightarrow> 'm sched \<Rightarrow> bool" where
  "actor_ok a F s \<longleftrightarrow>
     (a_sched (s_actor s a) = 0 \<longrightarrow> parked a F s \<or> emptied a F s) \<and>
     (\<forall>f. a_snap (s_actor s a) = Some f \<longrightarrow> s_settled s f \<or> registered f a s \<or> (\<exists>fr \<in># F. appends a f fr)) \<and>
     (held a F = 0 \<longrightarrow> carries a None s)"

definition future_ok :: "nat \<Rightarrow> 'm frame multiset \<Rightarrow> 'm sched \<Rightarrow> bool" where
  "future_ok f F s \<longleftrightarrow> (s_waiters s f = None \<or> Drain f \<in># F \<longrightarrow> s_settled s f) \<and> (s_settled s f \<and> s_waiters s f \<noteq> None \<longrightarrow> Drain f \<in># F)"

definition sched_ok :: "'m frame multiset \<Rightarrow> 'm sched \<Rightarrow> bool" where
  "sched_ok F s \<longleftrightarrow> (\<forall>a. token_at a F s \<and> actor_ok a F s) \<and> (\<forall>f. future_ok f F s) \<and> (\<forall>fr \<in># F. frame_ok fr F s)"

lemma rely_actor_ok:
  assumes r: "rely a F s F' s'" and ok: "actor_ok a F s" "\<And>f. future_ok f F s"
    and ap: "\<And>f fr. fr \<in># F \<Longrightarrow> appends a f fr \<Longrightarrow> fr \<in># F'" and h: "held a F' = 0 \<Longrightarrow> held a F = 0"
  shows "actor_ok a F' s'"
  unfolding actor_ok_def
proof (intro conjI impI allI)
  have v: "a_sched (s_actor s a) = 0" if "a_sched (s_actor s' a) = 0" using r that by (auto simp: rely_def Let_def)
  show "parked a F' s' \<or> emptied a F' s'" if "a_sched (s_actor s' a) = 0"
    using v [OF that] that rely_rests(1,2) [OF r] ok(1) by (auto simp: actor_ok_def)
  fix f
  assume "a_snap (s_actor s' a) = Some f"
  then have "a_snap (s_actor s a) = Some f" using r by (simp add: rely_def Let_def)
  with ok(1) consider "s_settled s f" | "registered f a s" | fr where "fr \<in># F" "appends a f fr"
    by (auto simp: actor_ok_def)
  then show "s_settled s' f \<or> registered f a s' \<or> (\<exists>fr \<in># F'. appends a f fr)"
  proof cases
    case 2
    then have "registered f a s' \<or> Drain f \<in># F" using r by (simp add: rely_def Let_def)
    then show ?thesis using ok(2) [of f] r by (auto simp: future_ok_def rely_def Let_def)
  qed (use r ap in \<open>auto simp: rely_def Let_def\<close>)
next
  show "carries a None s'" if "held a F' = 0"
    using h [OF that] ok(1) rely_carries [OF r] by (simp add: actor_ok_def)
qed

section \<open>The steps of the holder\<close>

text \<open>
  The holder alone changes the rest of the actor; \<open>R\<close> are the other activations, none
  of which holds it.
\<close>

definition taken_over :: "nat \<Rightarrow> 'm frame list \<Rightarrow> 'm frame multiset \<Rightarrow> 'm sched \<Rightarrow> bool" where
  "taken_over a new R s \<longleftrightarrow> (\<forall>fr \<in> set new. frame_ok fr (actives new + R) s) \<and> actor_ok a (actives new + R) s"

lemmas holder_defs = taken_over_def actor_ok_def ended_def rescanned_def parked_def emptied_def unread_def due_def

lemma carries_new [simp]:
  "carries a (Some new_cursor) s = carries a None s" "carries a None (enqueueReady a s) = carries a None s"
  "carries a c (upd_actor a (a_snap_update g) s) = carries a c s" "carries a c (upd_actor a (a_suspFut_update h) s) = carries a c s"
  "carries a c (set_sched a v s) = carries a c s"
  by (auto simp: carries_def cursor_ok_def left_of_def new_cursor_def conserved_def set_sched_def split: option.split)

lemma carries_waiters [simp]: "carries a c (s\<lparr>s_waiters := w\<rparr>) = carries a c s"
  by (simp add: carries_def)

lemma holder_start:
  assumes st: "frame_step ch (Turn a) s = Some (new, s')" and ok: "frame_ok (Turn a) (add_mset (Turn a) R) s" "actor_ok a (add_mset (Turn a) R) s"
    and h: "held a R = 0" and v: "a_sched (s_actor s a) = 1 \<or> a_sched (s_actor s a) = 2"
  shows "taken_over a new R s'"
proof (cases "a_snap (s_actor s a)")
  case None
  then show ?thesis using assms by (auto simp: turn_start_def Let_def holder_defs)
next
  case (Some f)
  have na: "\<not> appends a f fr" if "fr \<in># R" for fr
    using h that by (cases fr) (auto simp: held_def)
  show ?thesis
  proof (cases "s_settled s f")
    case True
    then have n: "new = [Run a None (a_suspFut (s_actor s a))]" and s': "s' = upd_actor a (\<lambda>x. x\<lparr>a_snap := None, a_suspFut := None\<rparr>) s"
      using st Some by (simp_all add: turn_start_def Let_def)
    have "carries a None s'" using ok(1) by (simp add: s' carries_def cursor_ok_def left_of_def conserved_def)
    then show ?thesis using v by (auto simp: n s' holder_defs)
  next
    case False
    then show ?thesis using assms Some na by (auto simp: turn_start_def Let_def holder_defs)
  qed
qed

lemma holder_next:
  assumes st: "frame_step ch (Next a c) s = Some (new, s')" and ok: "frame_ok (Next a c) (add_mset (Next a c) R) s"
    and v: "a_sched (s_actor s a) = 1 \<or> a_sched (s_actor s a) = 2"
  shows "taken_over a new R s'"
proof -
  have k: "cursor_ok (Some c) (s_actor s a)" "conserved (left_of (Some c) (s_actor s a)) (s_actor s a)" "a_snap (s_actor s a) = None"
    using ok by (simp_all add: carries_def)
  show ?thesis
  proof (cases "c_batch c")
    case (Cons m ms)
    then have "c_loaded c" using k(1) by (auto simp: cursor_ok_def split: if_splits)
    then show ?thesis using st k v Cons
      by (auto simp: next_message_def Let_def holder_defs carries_def cursor_ok_def left_of_def conserved_def)
  next
    case Nil
    then show ?thesis using st k v
      by (auto simp: next_message_def Let_def holder_defs carries_def cursor_ok_def left_of_def conserved_def split: if_splits)
  qed
qed

lemma holder_ends_run:
  assumes ok: "frame_ok (Run a c mf) (add_mset (Run a c mf) R) s" and v: "a_sched (s_actor s a) = 1 \<or> a_sched (s_actor s a) = 2"
  shows "taken_over a (complete a c mf) R s"
    "taken_over a [Append a c mf f] R (upd_actor a (\<lambda>x. x\<lparr>a_snap := Some f\<rparr>) s)"
  using assms by (auto simp: complete_def settle_mine_def holder_defs split: option.split)

lemma holder_append:
  assumes st: "frame_step ch fr s = Some (new, s')" and fr: "fr = Append a c mf f \<or> fr = Append_cas a c mf f"
    and ok: "frame_ok fr (add_mset fr R) s" "future_ok f F s"
    and v: "a_sched (s_actor s a) = 1 \<or> a_sched (s_actor s a) = 2"
  shows "taken_over a new R s'"
  using fr
proof
  assume fr: "fr = Append a c mf f"
  show ?thesis using st ok v by (auto simp: fr holder_defs split: if_splits)
next
  assume fr: "fr = Append_cas a c mf f"
  show ?thesis
  proof (cases "s_waiters s f")
    case None
    then show ?thesis using st ok v by (auto simp: fr append_cas_def holder_defs future_ok_def)
  next
    case (Some l)
    then have "registered f a s'" using st by (auto simp: fr append_cas_def registered_def)
    then show ?thesis using st ok v Some by (auto simp: fr append_cas_def holder_defs)
  qed
qed

text \<open>What is left to show when the actor keeps its future and stays held.\<close>

lemma hands_on:
  assumes ok: "actor_ok a (add_mset fr R) s" and n: "\<And>f. \<not> appends a f fr" and h: "holder fr' = Some a" "active fr'"
    and fr': "frame_ok fr' (add_mset fr' R) s'"
    and s': "a_snap (s_actor s' a) = a_snap (s_actor s a)" "s_settled s' = s_settled s" "s_waiters s' = s_waiters s"
    and v: "a_sched (s_actor s' a) \<noteq> 0"
  shows "taken_over a [fr'] R s'"
  using ok n h fr' s' v by (auto simp: taken_over_def actor_ok_def registered_def)

lemma holder_parks:
  assumes st: "frame_step ch fr s = Some (new, s')" and fr: "fr = Susp a c mf \<or> fr = Spill a d susp"
    and ok: "frame_ok fr (add_mset fr R) s" "actor_ok a (add_mset fr R) s"
    and v: "a_sched (s_actor s a) \<noteq> 0"
  shows "taken_over a new R s'"
  using fr
proof
  assume fr: "fr = Susp a c mf"
  define s1 where "s1 = (case mf of None \<Rightarrow> s | Some f \<Rightarrow> upd_actor a (\<lambda>x. x\<lparr>a_suspFut := Some f\<rparr>) s)"
  have s': "s' = s1" using st by (simp add: fr suspend_turn_def s1_def)
  have p: "parked a (add_mset fr' R) s1" if "\<not> waker a fr'" for fr'
    using ok(1) that by (auto simp: fr s1_def parked_def due_def split: option.split)
  have k: "carries a c s1" using ok(1) by (simp add: fr s1_def split: option.split)
  have e: "a_snap (s_actor s1 a) = a_snap (s_actor s a)" "s_settled s1 = s_settled s" "s_waiters s1 = s_waiters s" "a_sched (s_actor s1 a) \<noteq> 0"
    using v by (simp_all add: s1_def split: option.split)
  show ?thesis
  proof (cases c)
    case None
    have "taken_over a [Fin a True] R s1"
      by (rule hands_on [OF ok(2)]) (use None p k e in \<open>simp_all add: fr ended_def\<close>)
    then show ?thesis using st None by (simp add: fr suspend_turn_def s1_def)
  next
    case (Some d)
    have "taken_over a [Spill a d True] R s1"
      by (rule hands_on [OF ok(2)]) (use Some p k e in \<open>simp_all add: fr\<close>)
    then show ?thesis using st Some by (simp add: fr suspend_turn_def s1_def)
  qed
next
  assume fr: "fr = Spill a d susp"
  have s': "new = [Fin a susp]" "s' = spill a d s" using st by (simp_all add: fr)
  have k: "carries a None (spill a d s)" using ok(1)
    by (auto simp: fr spill_def carries_def cursor_ok_def left_of_def conserved_def split: if_splits)
  have e: "a_snap (s_actor (spill a d s) a) = a_snap (s_actor s a)" "a_queue (s_actor (spill a d s) a) = a_queue (s_actor s a)"
    "a_sched (s_actor (spill a d s) a) = a_sched (s_actor s a)" "s_settled (spill a d s) = s_settled s" "s_waiters (spill a d s) = s_waiters s"
    by (simp_all add: spill_def)
  have "ended a susp (add_mset (Fin a susp) R) (spill a d s)"
  proof (cases susp)
    case True
    then show ?thesis using ok(1) k e by (auto simp: fr ended_def parked_def due_def registered_def)
  next
    case False
    have "a_pending (s_actor (spill a d s) a) = []"
      using ok(1) False by (auto simp: fr spill_def carries_def cursor_ok_def)
    then show ?thesis using ok(1) k e False by (simp add: fr ended_def emptied_def unread_def)
  qed
  then show ?thesis unfolding s' by (intro hands_on [OF ok(2)]) (use v e in \<open>simp_all add: fr\<close>)
qed

lemma ended_cong:
  "ended a susp (add_mset fr R) s \<Longrightarrow> \<not> waker a fr \<Longrightarrow> ended a susp (add_mset fr' R) s"
  by (auto simp: ended_def parked_def emptied_def due_def unread_def)

lemma ended_rescanned: "ended a susp F s \<Longrightarrow> rescanned a susp (set_sched a v s)"
  by (auto simp: ended_def rescanned_def parked_def emptied_def)

lemma holder_finishes:
  assumes st: "frame_step ch fr s = Some (new, s')"
    and fr: "fr = Fin a susp \<or> fr = Fin_cas a susp \<or> fr = Fin_pending a susp \<or> fr = Fin_queue a susp"
    and ok: "frame_ok fr (add_mset fr R) s" "actor_ok a (add_mset fr R) s" and v: "a_sched (s_actor s a) \<noteq> 0"
  shows "taken_over a new R s'"
  using fr
proof (elim disjE)
  assume fr: "fr = Fin a susp"
  have e: "ended a susp (add_mset fr' R) s" for fr' by (rule ended_cong [of a susp fr R s]) (use ok(1) in \<open>simp_all add: fr\<close>)
  have "new = [Fin_cas a susp] \<or> new = [Fin_release a susp]" "s' = s"
    using st by (cases "a_sched (s_actor s a) = 2"; simp add: fr fin_read_def)+
  then show ?thesis using v e by (auto simp: fr intro!: hands_on [OF ok(2)] split: if_splits)
next
  assume fr: "fr = Fin_cas a susp"
  define r where "r = cas a 2 1 s"
  have e: "ended a susp (add_mset fr' R) s" for fr' by (rule ended_cong [of a susp fr R s]) (use ok(1) in \<open>simp_all add: fr\<close>)
  from r_def [symmetric] show ?thesis
  proof (cases rule: cas_cases)
    case swapped
    then have n: "new = [Fin_pending a susp]" "s' = set_sched a 1 s" using st by (simp_all add: fr fin_cas_def r_def)
    show ?thesis unfolding n
      by (rule hands_on [OF ok(2)]) (use ended_rescanned [OF e] in \<open>simp_all add: fr\<close>)
  next
    case changed
    then have n: "new = [Fin a susp]" "s' = s" using st by (simp_all add: fr fin_cas_def r_def)
    show ?thesis unfolding n by (rule hands_on [OF ok(2)]) (use v e in \<open>simp_all add: fr\<close>)
  qed
next
  assume fr: "fr = Fin_pending a susp"
  have k: "rescanned a susp s" using ok(1) by (simp add: fr)
  have "new = [Enqueue a] \<or> new = [Fin_queue a susp]" "s' = s"
    using st by (auto simp: fr)
  then show ?thesis using v k by (auto simp: fr rescanned_def intro!: hands_on [OF ok(2)])
next
  assume fr: "fr = Fin_queue a susp"
  have k: "rescanned a susp s" using ok(1) by (simp add: fr)
  have "new = [Enqueue a] \<or> new = [Fin_stale a] \<and> \<not> susp \<and> a_queue (s_actor s a) = []" "s' = s"
    using st by (cases "a_queue (s_actor s a) \<noteq> [] \<or> susp"; auto simp: fr fin_queue_def)+
  then show ?thesis using v k
    by (auto simp: fr rescanned_def ended_def emptied_def unread_def intro!: hands_on [OF ok(2)])
qed

text \<open>The actor is given up, or found to have been marked again.\<close>

lemma release_taken:
  assumes ok: "ended a susp (add_mset fr R) s" "actor_ok a (add_mset fr R) s" and n: "\<not> waker a fr" "\<And>f. \<not> appends a f fr"
    and new: "\<And>x. x \<in> set new \<Longrightarrow> holder x = None"
  shows "a_sched (s_actor s a) = 1 \<Longrightarrow> taken_over a new R (set_sched a 0 s)"
proof -
  assume v: "a_sched (s_actor s a) = 1"
  have "parked a (actives new + R) (set_sched a 0 s) \<or> emptied a (actives new + R) (set_sched a 0 s)"
    using ok(1) n(1) v by (cases susp) (auto simp: ended_def parked_def emptied_def due_def unread_def)
  moreover have "frame_ok x F (set_sched a 0 s)" if "x \<in> set new" for x F
    using new [OF that] by (cases x) simp_all
  ultimately show ?thesis using ok n by (auto simp: taken_over_def actor_ok_def ended_def)
qed

lemma holder_releases:
  assumes st: "frame_step ch fr s = Some (new, s')" and fr: "fr = Fin_release a susp \<or> fr = Fin_stale a \<and> \<not> susp"
    and ok: "frame_ok fr (add_mset fr R) s" "actor_ok a (add_mset fr R) s"
    and v: "a_sched (s_actor s a) \<noteq> 0"
  shows "taken_over a new R s'"
proof -
  define r where "r = cas a 1 0 s"
  have e: "ended a susp (add_mset fr R) s" using ok(1) fr by auto
  have e': "ended a susp (add_mset fr' R) s" for fr'
    by (rule ended_cong [of a susp fr R s]) (use e fr in auto)
  from r_def [symmetric] show ?thesis
  proof (cases rule: cas_cases)
    case swapped
    then have "s' = set_sched a 0 s" "\<And>x. x \<in> set new \<Longrightarrow> holder x = None"
      using st fr by (auto simp: fin_release_def fin_stale_def r_def split: if_splits)
    then show ?thesis using release_taken [OF e ok(2)] fr swapped(1) by auto
  next
    case changed
    then have n: "new = [Fin a susp]" "s' = s" using st fr by (auto simp: fin_release_def fin_stale_def r_def)
    show ?thesis unfolding n by (rule hands_on [OF ok(2)]) (use v e' fr in auto)
  qed
qed

lemma holder_enqueues:
  assumes st: "frame_step ch (Enqueue a) s = Some (new, s')" and ok: "frame_ok (Enqueue a) (add_mset (Enqueue a) R) s" "actor_ok a (add_mset (Enqueue a) R) s"
    and v: "a_sched (s_actor s a) \<noteq> 0"
  shows "taken_over a new R s'"
  using assms by (auto simp: taken_over_def actor_ok_def)

text \<open>Every step of the holder but user code that does not concern its own actor.\<close>

lemma holder_step:
  assumes st: "frame_step ch fr s = Some (new, s')" and h: "holder fr = Some a"
    and ok: "frame_ok fr (add_mset fr R) s" "actor_ok a (add_mset fr R) s" "\<And>f. future_ok f (add_mset fr R) s"
    and v: "a_sched (s_actor s a) = 1 \<or> a_sched (s_actor s a) = 2" and r: "held a R = 0"
  shows "taken_over a new R s' \<or> (\<exists>us. user_step ch s = Some (us, s') \<and> new = us @ [fr])"
proof -
  have v0: "a_sched (s_actor s a) \<noteq> 0" using v by auto
  show ?thesis
  proof (cases fr)
    case (Turn b)
    then show ?thesis using holder_start [of ch a s new s' R] assms by simp
  next
    case (Next b c)
    then show ?thesis using holder_next [of ch a c s new s' R] assms by simp
  next
    case (Run b c mf)
    then have b: "b = a" using h by simp
    from st [unfolded Run] show ?thesis
      by (cases rule: run_cases) (use holder_ends_run [OF ok(1) [unfolded Run b] v] Run b in auto)
  next
    case (Append b c mf f)
    then show ?thesis using holder_append [OF st _ ok(1) ok(3) v, of c mf f] h by simp
  next
    case (Append_cas b c mf f)
    then show ?thesis using holder_append [OF st _ ok(1) ok(3) v, of c mf f] h by simp
  next
    case (Susp b c mf)
    then show ?thesis using holder_parks [OF st _ ok(1,2) v0] h by simp
  next
    case (Spill b c susp)
    then show ?thesis using holder_parks [OF st _ ok(1,2) v0] h by simp
  next
    case (Fin_release b susp)
    then show ?thesis using holder_releases [OF st _ ok(1,2) v0, of susp] h by simp
  next
    case (Fin_stale b)
    then show ?thesis using holder_releases [OF st _ ok(1,2) v0, of False] h by simp
  next
    case (Enqueue b)
    then show ?thesis using holder_enqueues [of ch a s new s' R] st ok(1,2) v0 h by simp
  qed (use holder_finishes [OF st _ ok(1,2) v0] h in simp_all)
qed

text \<open>Everyone else: what they add to the actor is at most a place in the ready stack.\<close>

lemma user_holders: "user_step ch s = Some (new, s') \<Longrightarrow> x \<in> set new \<Longrightarrow> holder x = None"
  by (cases ch) (auto simp: user_step_def)

lemma new_holders:
  assumes st: "frame_step ch fr s = Some (new, s')" and h: "holder fr \<noteq> Some a" and x: "x \<in> set new" "holder x = Some a"
  shows "x = Enqueue a \<and> a_sched (s_actor s a) = 0"
proof (cases fr)
  case (Run b c mf)
  from st [unfolded Run] show ?thesis
  proof (cases rule: run_cases)
    case (user us)
    then show ?thesis using user_holders [OF user(1)] x h Run by auto
  qed (use Run h x in \<open>auto simp: complete_def settle_mine_def split: option.splits\<close>)
next
  case (Callbacks f)
  from st [unfolded Callbacks] show ?thesis
  proof (cases rule: callback_cases)
    case (user us)
    then show ?thesis using user_holders [OF user(1)] x h Callbacks by auto
  qed (use x in auto)
next
  case (Sched_cas b v)
  then show ?thesis using st x by (auto simp: sched_cas_def cas_def split: if_splits)
next
  case (Rel_claim b)
  then show ?thesis using st x by (auto simp: rel_claim_def cas_def split: if_splits)
qed (use assms in \<open>auto simp: step_defs Let_def split: if_splits option.splits list.splits nat.splits\<close>)

section \<open>Every reachable state\<close>

lemma in_actives [simp]: "x \<in># actives st \<longleftrightarrow> x \<in> set st \<and> active x"
  by (auto simp: actives_def)

lemma future_step:
  assumes st: "frame_step ch fr s = Some (new, s')" and ok: "\<And>g. future_ok g (actives [fr] + R) s"
  shows "future_ok f (actives new + R) s'"
proof -
  have same: ?thesis if "s_settled s' = s_settled s" "s_waiters s' = s_waiters s" "\<nexists>g. fr = Drain g" "\<nexists>g. Drain g \<in> set new"
    using ok [of f] that by (auto simp: future_ok_def simp del: actives_simps)
  show ?thesis
  proof (cases fr)
    case (Run b c mf)
    from st [unfolded Run] show ?thesis
    proof (cases rule: run_cases)
      case (user us)
      from user(1) show ?thesis by (cases rule: user_cases) (use ok [of f] user Run in \<open>auto simp: future_ok_def\<close>)
    qed (use Run ok [of f] in \<open>auto simp: complete_def settle_mine_def future_ok_def split: option.splits\<close>)
  next
    case (Callbacks g)
    from st [unfolded Callbacks] show ?thesis
    proof (cases rule: callback_cases)
      case (user us)
      from user(1) show ?thesis by (cases rule: user_cases) (use ok [of f] user Callbacks in \<open>auto simp: future_ok_def\<close>)
    qed (use Callbacks ok [of f] in \<open>auto simp: future_ok_def\<close>)
  next
    case (Append_cas b c mf g)
    then show ?thesis using st ok [of f] by (cases "f = g") (auto simp: append_cas_def future_ok_def split: option.splits)
  next
    case (Drain g)
    then show ?thesis using st ok [of f] by (auto simp: drain_waiters_def future_ok_def split: option.splits if_splits)
  next
    case (Publish g)
    then show ?thesis using st ok [of f] by (cases "f = g") (auto simp: future_ok_def)
  qed (rule same; use st in \<open>auto simp: step_defs enqueueReady_def Let_def split: if_splits option.splits list.splits nat.splits\<close>)+
qed

lemma held_zero: "held a F = 0 \<longleftrightarrow> (\<forall>x \<in># F. holder x \<noteq> Some a)"
  by (induction F) auto

text \<open>The actor keeps its invariant under a step of somebody else.\<close>

lemma rely_actor_step:
  assumes ok: "sched_ok F s" and r: "rely a F s F' s'"
    and new: "\<And>x. x \<in># F' \<Longrightarrow> holder x = Some a \<Longrightarrow> x \<in># F \<or> (x = Enqueue a \<or> x = Turn a) \<and> held a F = 0"
    and ap: "\<And>x. x \<in># F \<Longrightarrow> holder x = Some a \<Longrightarrow> x \<in># F'" and h: "held a F' = 0 \<Longrightarrow> held a F = 0"
  shows "actor_ok a F' s' \<and> (\<forall>x \<in># F'. holder x = Some a \<longrightarrow> frame_ok x F' s')"
proof
  have app: "holder x = Some a" if "appends a f x" for f x using that by (cases x) simp_all
  show "actor_ok a F' s'"
    by (rule rely_actor_ok [OF r]) (use ok ap app h in \<open>auto simp: sched_ok_def\<close>)
  have "frame_ok x F' s'" if x: "x \<in># F'" "holder x = Some a" for x
    using new [OF x]
  proof
    assume F: "x \<in># F"
    then have "held a F \<noteq> 0" using x by (auto simp: held_zero)
    moreover have "token_at a F s" using ok by (simp add: sched_ok_def)
    ultimately have "a_sched (s_actor s a) \<noteq> 0" by (auto simp: token_at_def Let_def)
    then show ?thesis by (rule rely_frame_ok [OF r _ x(2)]) (use ok F in \<open>simp add: sched_ok_def\<close>)
  next
    assume n: "(x = Enqueue a \<or> x = Turn a) \<and> held a F = 0"
    then have "carries a None s'" using ok rely_carries [OF r] by (auto simp: sched_ok_def actor_ok_def)
    then show ?thesis using n by auto
  qed
  then show "\<forall>x \<in># F'. holder x = Some a \<longrightarrow> frame_ok x F' s'" by blast
qed

lemma holder_active: "holder x = Some a \<Longrightarrow> active x"
  by (cases x) simp_all

lemma sched_okI:
  assumes "\<And>a. token_at a F s" "\<And>f. future_ok f F s"
    and "\<And>a. actor_ok a F s \<and> (\<forall>x \<in># F. holder x = Some a \<longrightarrow> frame_ok x F s)"
  shows "sched_ok F s"
proof -
  have "frame_ok x F s" if "x \<in># F" for x
  proof (cases "holder x")
    case None
    then show ?thesis by (cases x) simp_all
  qed (use assms(3) that in blast)
  then show ?thesis using assms by (simp add: sched_ok_def)
qed

lemma sched_ok_frame:
  assumes ok: "sched_ok (actives [fr] + R) s" and st: "frame_step ch fr s = Some (new, s')"
  shows "sched_ok (actives new + R) s'"
proof (rule sched_okI)
  show "token_at a (actives new + R) s'" for a
    using token_step [OF _ st] ok by (simp add: sched_ok_def)
  show "future_ok f (actives new + R) s'" for f
    using future_step [OF st] ok by (simp add: sched_ok_def)
  fix a
  show "actor_ok a (actives new + R) s' \<and> (\<forall>x \<in># actives new + R. holder x = Some a \<longrightarrow> frame_ok x (actives new + R) s')"
  proof (cases "holder fr = Some a")
    case True
    then have F: "actives [fr] + R = add_mset fr R" using holder_active [of fr a] by simp
    have ok': "sched_ok (add_mset fr R) s" using ok F by metis
    then have "token_at a (add_mset fr R) s" by (simp add: sched_ok_def)
    then have v: "a_sched (s_actor s a) = 1 \<or> a_sched (s_actor s a) = 2" and R: "held a R = 0"
      using True by (auto simp: token_at_def Let_def)
    from holder_step [OF st True _ _ _ v R] ok'
    consider "taken_over a new R s'" | us where "user_step ch s = Some (us, s')" "new = us @ [fr]"
      by (auto simp: sched_ok_def)
    then show ?thesis
    proof cases
      case 1
      then show ?thesis using R by (auto simp: taken_over_def held_zero)
    next
      case (2 us)
      have r: "rely a (add_mset fr R) s (actives new + R) s'"
        using user_rely [OF 2(1), of a "add_mset fr R"] 2(2) holder_active [OF True] by simp
      show ?thesis
        by (rule rely_actor_step [OF ok' r])
          (use 2 user_holders [OF 2(1)] True holder_active [OF True] in \<open>auto simp: held_zero\<close>)
    qed
  next
    case False
    have z: "held a (actives [fr] + R) = 0" if "a_sched (s_actor s a) = 0"
    proof -
      have "token_at a (actives [fr] + R) s" using ok by (simp only: sched_ok_def)
      then show ?thesis using that by (simp add: token_at_def Let_def)
    qed
    show ?thesis
      by (rule rely_actor_step [OF ok rely_step [OF st False]])
        (use False new_holders [OF st False] z in \<open>auto simp: held_zero simp del: actives_simps\<close>)
  qed
qed

lemma sched_ok_user:
  assumes ok: "sched_ok R s" and st: "user_step ch s = Some (new, s')"
  shows "sched_ok (actives new + R) s'"
proof (rule sched_okI)
  show "token_at a (actives new + R) s'" for a
    using token_same [OF user_same_tokens [OF st], of a R] ok by (simp add: sched_ok_def)
  show "future_ok f (actives new + R) s'" for f
    using st ok by (cases rule: user_cases) (auto simp: sched_ok_def future_ok_def)
  show "actor_ok a (actives new + R) s' \<and> (\<forall>x \<in># actives new + R. holder x = Some a \<longrightarrow> frame_ok x (actives new + R) s')" for a
    by (rule rely_actor_step [OF ok user_rely [OF st]]) (use user_holders [OF st] in \<open>auto simp: held_zero\<close>)
qed

text \<open>A thread takes an actor from a ready stack.\<close>

lemma sched_ok_pop:
  assumes ok: "sched_ok F s" and pop: "b < 3" "s_ready s b = a # as"
  shows "sched_ok (add_mset (Turn a) F) (s\<lparr>s_ready := (s_ready s)(b := as)\<rparr>)"
proof (rule sched_okI)
  let ?s = "s\<lparr>s_ready := (s_ready s)(b := as)\<rparr>"
  have b: "b = 0 \<or> b = 1 \<or> b = 2" using pop(1) by auto
  have tok: "token_at c F s" for c using ok by (simp add: sched_ok_def)
  then show "token_at c (add_mset (Turn a) F) ?s" for c
    using token_popped [OF _ pop, of c F] by simp
  show "future_ok f (add_mset (Turn a) F) ?s" for f
    using ok by (simp add: sched_ok_def future_ok_def)
  have z: "held a F = 0" using b pop(2) tok [of a] by (auto simp: token_at_def queued_def Let_def)
  have r: "rely c (actives [] + F) s (actives [Turn a] + F) ?s" for c by (rule rely_same) simp_all
  show "actor_ok c (add_mset (Turn a) F) ?s \<and> (\<forall>x \<in># add_mset (Turn a) F. holder x = Some c \<longrightarrow> frame_ok x (add_mset (Turn a) F) ?s)" for c
    by (rule rely_actor_step [OF ok]) (use r [of c] z in \<open>auto simp: held_zero\<close>)
qed

lemma sched_ok_reached: "reached n k T s \<Longrightarrow> sched_ok (all_actives T) s"
proof (induction rule: reached.induct)
  case (start n k)
  then show ?case
    by (simp add: sched_ok_def token_at_def queued_def idle_sched_def fresh_actor_def actor_ok_def emptied_def unread_def
        carries_def cursor_ok_def left_of_def conserved_def future_ok_def)
next
  case (step n k st T s ch st' s')
  have IH: "sched_ok (actives st + all_actives T) s" using step.IH by simp
  from step.hyps(2) show ?case
  proof (cases rule: thread_step_cases)
    case user
    then show ?thesis using IH sched_ok_user [OF _ user(2), of "all_actives T"] by simp
  next
    case (frame fr rest new)
    have "sched_ok (actives [fr] + (actives rest + all_actives T)) s"
      using IH frame(1) by (cases "active fr") (simp_all add: add.assoc)
    from sched_ok_frame [OF this frame(2)] show ?thesis by (simp add: frame(3) add.assoc)
  next
    case (popped b rest a as)
    then show ?thesis using IH sched_ok_pop [of "actives rest + all_actives T" s b a as] by simp
  qed (use IH in simp_all)
qed

section \<open>What this gives\<close>

text \<open>An actor has work: mail it can read, or the result of the future it waits for.\<close>

definition has_work :: "nat \<Rightarrow> 'm sched \<Rightarrow> bool" where
  "has_work a s \<longleftrightarrow> (case a_snap (s_actor s a) of
      None \<Rightarrow> a_pending (s_actor s a) \<noteq> [] \<or> a_queue (s_actor s a) \<noteq> [] | Some f \<Rightarrow> s_settled s f)"

text \<open>Somebody will see to it: a holder, its place in a ready stack, a call of \<open>schedule\<close>, or the draining of its future.\<close>

definition attended :: "nat \<Rightarrow> 'm frame multiset \<Rightarrow> 'm sched \<Rightarrow> bool" where
  "attended a F s \<longleftrightarrow> held a F + queued a s > 0 \<or> wake a F \<or>
     (case a_snap (s_actor s a) of None \<Rightarrow> False | Some f \<Rightarrow> Drain f \<in># F)"

lemma work_attended:
  assumes ok: "sched_ok F s" and w: "has_work a s"
  shows "attended a F s"
proof (rule ccontr)
  assume n: "\<not> attended a F s"
  have "token_at a F s" "actor_ok a F s" and fut: "\<And>f. future_ok f F s" using ok by (simp_all add: sched_ok_def)
  with n have "a_sched (s_actor s a) = 0" "parked a F s \<or> emptied a F s"
    by (auto simp: attended_def token_at_def actor_ok_def Let_def)
  with n w fut show False
    by (auto simp: attended_def has_work_def parked_def emptied_def unread_def due_def registered_def future_ok_def split: option.splits)
qed

lemma holder_conserved:
  assumes "frame_ok fr F s" "holder fr = Some a"
  shows "\<exists>rest. conserved rest (s_actor s a)"
  using assms by (cases fr) (auto simp: carries_def ended_def rescanned_def split: if_splits)

lemma sched_conserved:
  assumes ok: "sched_ok F s"
  shows "\<exists>rest. conserved rest (s_actor s a) \<and> (held a F = 0 \<longrightarrow> rest = a_pending (s_actor s a))"
proof (cases "held a F = 0")
  case True
  then show ?thesis using ok by (auto simp: sched_ok_def actor_ok_def carries_def left_of_def)
next
  case False
  then obtain fr where "fr \<in># F" "holder fr = Some a" by (auto simp: held_zero)
  then show ?thesis using holder_conserved [of fr F s a] ok False by (auto simp: sched_ok_def)
qed

text \<open>
  C18. No wakeup is lost: whenever an actor has mail it can read, or the future it waits
  for has settled, it is running, in a ready stack, or some thread is about to schedule
  it.
\<close>

theorem no_lost_wakeup:
  assumes "reached n k T s" "has_work a s"
  shows "attended a (all_actives T) s"
  by (rule work_attended [OF sched_ok_reached [OF assms(1)] assms(2)])

theorem no_lost_wakeup_witness: "attended 0 (all_actives {#[Sched 0], [Worker]#}) sent_sched \<and> has_work 0 sent_sched"
proof
  show w: "has_work 0 sent_sched" by (simp add: has_work_def sent_sched_def idle_sched_def fresh_actor_def)
  show "attended 0 (all_actives {#[Sched 0], [Worker]#}) sent_sched" by (rule no_lost_wakeup [OF sent_run w])
qed

text \<open>
  C19. An actor takes its messages in the order they were sent, each exactly once: what
  was sent is what was taken, then what the turn or an earlier one kept, then the queue.
\<close>

theorem mailbox_fifo:
  assumes "reached n k T s"
  shows "\<exists>rest. a_sent (s_actor s a) = a_taken (s_actor s a) @ rest @ a_queue (s_actor s a) \<and>
     (held a (all_actives T) = 0 \<longrightarrow> rest = a_pending (s_actor s a))"
  using sched_conserved [OF sched_ok_reached [OF assms], of a] by (simp add: conserved_def)

theorem mailbox_fifo_witness: "\<exists>rest. a_sent (s_actor sent_sched 0) = a_taken (s_actor sent_sched 0) @ rest @ a_queue (s_actor sent_sched 0)"
  using mailbox_fifo [OF sent_run, of 0] by blast

text \<open>
  When no thread does anything and the ready stacks are empty, every actor has
  taken all the messages it was sent or waits for a future that has not settled.
\<close>

theorem quiet_means_done:
  assumes "reached n k T s" "all_actives T = {#}" "queued a s = 0"
  shows "a_taken (s_actor s a) = a_sent (s_actor s a) \<or> (\<exists>f. a_snap (s_actor s a) = Some f \<and> \<not> s_settled s f)"
proof -
  have ok: "sched_ok (all_actives T) s" by (rule sched_ok_reached [OF assms(1)])
  have "\<not> has_work a s"
    using work_attended [OF ok, of a] assms(2,3) by (cases "a_snap (s_actor s a)") (auto simp: attended_def)
  moreover obtain rest where "conserved rest (s_actor s a)" "rest = a_pending (s_actor s a)"
    using sched_conserved [OF ok, of a] assms(2) by auto
  ultimately show ?thesis by (auto simp: has_work_def conserved_def split: option.splits)
qed

theorem quiet_means_done_witness: "a_taken (s_actor (idle_sched 1 :: nat sched) 0) = a_sent (s_actor (idle_sched 1 :: nat sched) 0)"
  using quiet_means_done [OF idle_one, of 0] by (simp add: queued_def idle_sched_def fresh_actor_def)

end
