(* ===== verification/SchedulerPool.thy ===== *)
theory SchedulerPool
  imports SchedulerInv
begin

text \<open>
  The pool of workers does not sleep while an actor is ready: whoever puts an actor
  into a ready stack releases a permit afterwards, and a worker looks through all
  bands between taking a permit and parking.
\<close>

fun worker_frame :: "'m frame \<Rightarrow> bool" where
  "worker_frame Worker = True"
| "worker_frame Draining = True"
| "worker_frame Spin = True"
| "worker_frame Spinning = True"
| "worker_frame Parked = True"
| "worker_frame fr = False"

definition worker :: "'m frame list \<Rightarrow> bool" where
  "worker st \<longleftrightarrow> st \<noteq> [] \<and> worker_frame (last st)"

text \<open>A worker that has still to look at band \<open>b\<close> before it can park.\<close>

definition covers :: "nat \<Rightarrow> 'm frame list \<Rightarrow> bool" where
  "covers b st \<longleftrightarrow> st \<noteq> [] \<and>
     (last st = Worker \<or> last st = Draining \<and> \<not> (\<exists>c > b. st = [Dequeue c, Draining]) \<or> (\<exists>c \<le> b. st = [Dequeue c, Spinning]))"

text \<open>A permit about to be released.\<close>

definition offers :: "'m frame list \<Rightarrow> bool" where
  "offers st \<longleftrightarrow> Release \<in> set st \<or> (\<exists>k. Starting (Suc k) \<in> set st)"

text \<open>A scan of the bands is innermost, a place of the worker loop outermost.\<close>

definition shaped :: "'m frame list \<Rightarrow> bool" where
  "shaped st \<longleftrightarrow> (\<forall>c. Dequeue c \<notin> set (tl st)) \<and> (\<forall>x \<in> set (butlast st). \<not> worker_frame x)"

definition watched :: "nat \<Rightarrow> 'm frame list multiset \<Rightarrow> 'm sched \<Rightarrow> bool" where
  "watched b T s \<longleftrightarrow> s_paused s \<or> s_permits s > 0 \<or> (\<exists>st \<in># T. offers st \<or> covers b st)"

definition pool_ok :: "nat \<Rightarrow> 'm frame list multiset \<Rightarrow> 'm sched \<Rightarrow> bool" where
  "pool_ok n T s \<longleftrightarrow> size (filter_mset worker T) = n \<and> s_workers s = n \<and> (\<forall>st \<in># T. shaped st) \<and>
     (\<forall>b < 3. s_ready s b \<noteq> [] \<longrightarrow> watched b T s)"

section \<open>One step\<close>

text \<open>What a step has to keep for the thread that takes it.\<close>

definition keeps :: "'m frame list \<Rightarrow> 'm sched \<Rightarrow> 'm frame list \<Rightarrow> 'm sched \<Rightarrow> bool" where
  "keeps st s st' s' \<longleftrightarrow>
     worker st' = worker st \<and> s_workers s' = s_workers s \<and> shaped st' \<and>
     (s_paused s \<longrightarrow> s_paused s' \<or> offers st') \<and>
     (s_permits s > 0 \<longrightarrow> s_permits s' > 0 \<or> last st' = Worker \<and> st' \<noteq> []) \<and>
     (offers st \<longrightarrow> offers st' \<or> s_permits s' > 0 \<or> s_paused s') \<and>
     (\<forall>b < 3. s_ready s' b \<noteq> [] \<longrightarrow> offers st' \<or> s_ready s b \<noteq> [] \<and> (covers b st \<longrightarrow> covers b st'))"

lemma keeps_pool:
  assumes ok: "pool_ok n (add_mset st T) s" and k: "keeps st s st' s'"
  shows "pool_ok n (add_mset st' T) s'"
  unfolding pool_ok_def
proof (intro conjI allI impI)
  fix b :: nat
  assume b: "b < 3" "s_ready s' b \<noteq> []"
  from k b consider "offers st'" | "s_ready s b \<noteq> []" "covers b st \<longrightarrow> covers b st'"
    by (auto simp: keeps_def)
  then show "watched b (add_mset st' T) s'"
  proof cases
    case 2
    then have "watched b (add_mset st T) s" using ok b by (simp add: pool_ok_def)
    then show ?thesis using k 2 by (auto simp: watched_def keeps_def covers_def)
  qed (simp add: watched_def)
qed (use ok k in \<open>auto simp: pool_ok_def keeps_def\<close>)

text \<open>Activations above the bottom of a thread come and go without a trace here.\<close>

definition light :: "'m frame \<Rightarrow> 'm frame list \<Rightarrow> 'm sched \<Rightarrow> 'm sched \<Rightarrow> bool" where
  "light fr new s s' \<longleftrightarrow>
     \<not> worker_frame fr \<and> (\<forall>c. Dequeue c \<notin> set (tl new)) \<and> (\<forall>c. Dequeue c \<in> set new \<longrightarrow> length new > 1) \<and> (\<forall>x \<in> set new. \<not> worker_frame x) \<and>
     s_workers s' = s_workers s \<and> s_permits s' = s_permits s \<and>
     (s_paused s \<longrightarrow> s_paused s' \<or> offers new) \<and> \<not> offers [fr] \<and>
     (\<forall>b. s_ready s' b = s_ready s b \<or> offers new)"

lemma light_keeps:
  assumes l: "light fr new s s'" and t: "shaped (fr # rest)" and nd: "\<nexists>c. fr = Dequeue c"
  shows "keeps (fr # rest) s (new @ rest) s'"
proof -
  have w: "worker (new @ rest) = worker (fr # rest)"
    using l by (cases "rest = []"; cases new rule: rev_cases) (auto simp: worker_def light_def)
  have sc: "shaped (new @ rest)"
    using l t by (cases new; cases rest) (auto simp: shaped_def light_def butlast_append split: if_splits dest: in_set_butlastD)
  have c: "covers b (new @ rest)" if "covers b (fr # rest)" for b
  proof -
    have r: "rest \<noteq> []" "last rest = Worker \<or> last rest = Draining"
      using that l nd by (auto simp: covers_def light_def split: if_splits)
    have "new @ rest \<noteq> [Dequeue c, Draining]" for c
      using l t r by (cases new) (auto simp: light_def shaped_def append_eq_Cons_conv)
    then show ?thesis using r by (auto simp: covers_def)
  qed
  have o: "offers (new @ rest)" if "offers (fr # rest) \<or> offers new"
    using that l by (auto simp: offers_def light_def)
  show ?thesis using l w sc c o by (auto simp: keeps_def light_def)
qed

lemma enqueueReady_pool [simp]:
  "s_workers (enqueueReady a s) = s_workers s" "s_permits (enqueueReady a s) = s_permits s" "s_paused (enqueueReady a s) = s_paused s"
  by (simp_all add: enqueueReady_def Let_def)

lemma user_light:
  assumes "user_step ch s = Some (us, s')" "s_workers s > 0"
  shows "s_workers s' = s_workers s \<and> s_permits s' = s_permits s \<and> (s_paused s \<longrightarrow> s_paused s' \<or> offers us) \<and>
     s_ready s' = s_ready s \<and> (\<forall>x \<in> set us. \<not> worker_frame x) \<and> length us \<le> 1"
proof (cases ch)
  case Start
  then show ?thesis using assms by (cases "s_workers s") (auto simp: user_step_def offers_def)
qed (use assms in \<open>auto simp: user_step_def\<close>)

lemma user_light_run:
  assumes "user_step ch s = Some (us, s')" "s_workers s > 0" "\<not> worker_frame fr" "\<not> offers [fr]" "\<nexists>c. fr = Dequeue c"
  shows "light fr (us @ [fr]) s s'"
  using user_light [OF assms(1,2)] assms(3-) by (cases us) (auto simp: light_def offers_def)

fun pool_frame :: "'m frame \<Rightarrow> bool" where
  "pool_frame Worker = True"
| "pool_frame Draining = True"
| "pool_frame Spin = True"
| "pool_frame Spinning = True"
| "pool_frame Parked = True"
| "pool_frame (Starting n) = True"
| "pool_frame Release = True"
| "pool_frame fr = False"

lemma frame_light:
  assumes st: "frame_step ch fr s = Some (new, s')" and w: "s_workers s > 0" and np: "\<not> pool_frame fr" "\<nexists>c. fr = Dequeue c"
  shows "light fr new s s'"
proof (cases fr)
  case (Run b c mf)
  from st [unfolded Run] show ?thesis
  proof (cases rule: run_cases)
    case (user us)
    then show ?thesis using user_light_run [OF user(1) w, of fr] Run by (simp add: offers_def)
  qed (use Run in \<open>auto simp: complete_def settle_mine_def light_def offers_def split: option.split\<close>)
next
  case (Callbacks f)
  from st [unfolded Callbacks] show ?thesis
  proof (cases rule: callback_cases)
    case (user us)
    then show ?thesis using user_light_run [OF user(1) w, of fr] Callbacks by (simp add: offers_def)
  qed (use Callbacks in \<open>auto simp: light_def offers_def\<close>)
next
  case (Enqueue a)
  then show ?thesis using st by (auto simp: light_def offers_def)
qed (use st np in \<open>auto simp: light_def offers_def step_defs Let_def split: if_splits option.splits list.splits nat.splits\<close>)

lemma pool_frame_keeps:
  assumes st: "frame_step ch fr s = Some (new, s')" and t: "shaped (fr # rest)" and p: "pool_frame fr"
  shows "keeps (fr # rest) s (new @ rest) s'"
proof (cases "worker_frame fr")
  case True
  then have r: "rest = []" using t by (cases rest) (auto simp: shaped_def)
  show ?thesis using st True t
    by (cases fr) (auto simp: r keeps_def worker_def shaped_def covers_def offers_def split: if_splits)
next
  case False
  then consider "fr = Release" | n where "fr = Starting n" using p by (cases fr) auto
  then show ?thesis
  proof cases
    case 1
    then show ?thesis using st t
      by (cases rest) (auto simp: release_def keeps_def worker_def shaped_def covers_def offers_def split: if_splits)
  next
    case 2
    then show ?thesis using st t
      by (cases rest; cases n) (auto simp: keeps_def worker_def shaped_def covers_def offers_def split: if_splits)
  qed
qed

lemma shaped_tl: "shaped (x # st) \<Longrightarrow> shaped st"
  by (cases st) (auto simp: shaped_def)

lemma found_shape [simp]:
  "(found st = []) = (st = [])" "worker (found st) = worker st" "(Dequeue c \<in> set (found st)) = (Dequeue c \<in> set st)" "offers (found st) = offers st"
  "(missed st = []) = (st = [])" "worker (missed st) = worker st" "(Dequeue c \<in> set (missed st)) = (Dequeue c \<in> set st)" "offers (missed st) = offers st"
  by (induction st rule: found.induct; simp add: worker_def offers_def) (induction st rule: missed.induct; simp add: worker_def offers_def)+

text \<open>What a scan can leave: another turn, the next band, or the end of the scan.\<close>

lemma dequeue_worker [simp]: "worker (Dequeue b # rest) = worker rest" "worker (Turn a # rest) = worker rest"
  "offers (Dequeue b # rest) = offers rest" "offers (Turn a # rest) = offers rest"
  by (simp_all add: worker_def offers_def)

lemma shaped_Cons:
  "shaped (x # st) \<longleftrightarrow> (\<forall>c. Dequeue c \<notin> set st) \<and> (st \<noteq> [] \<longrightarrow> \<not> worker_frame x) \<and> (\<forall>y \<in> set (butlast st). \<not> worker_frame y)"
  by (auto simp: shaped_def)

lemma shaped_dequeue:
  assumes "shaped (Dequeue b # rest)"
  shows "shaped (Turn a # found rest)" "shaped (Dequeue c # rest)" "shaped (missed rest)"
proof -
  have nd: "Dequeue c \<notin> set rest" for c using assms by (simp add: shaped_Cons)
  have w: "\<forall>y \<in> set (butlast rest). \<not> worker_frame y" using assms by (simp add: shaped_Cons)
  show "shaped (Turn a # found rest)"
    using nd w by (cases rest rule: found.cases) (simp_all add: shaped_Cons split: if_splits)
  show "shaped (Dequeue c # rest)" using nd w by (simp add: shaped_Cons)
  show "shaped (missed rest)"
  proof (cases rest)
    case (Cons x st)
    then show ?thesis using nd w by (cases x) (auto simp: shaped_Cons split: if_splits dest: in_set_butlastD)
  qed (simp add: shaped_def)
qed

lemma covers_dequeue:
  assumes "covers d (Dequeue b # rest)" "shaped (Dequeue b # rest)"
  shows "covers d (Turn a # found rest)" "d \<noteq> b \<Longrightarrow> covers d (Dequeue (Suc b) # rest)" "d < b \<Longrightarrow> covers d (missed rest)"
proof -
  show "covers d (Turn a # found rest)"
    using assms by (cases rest rule: found.cases) (auto simp: covers_def shaped_def split: if_splits)
  show "covers d (Dequeue (Suc b) # rest)" if "d \<noteq> b"
    using assms that by (auto simp: covers_def split: if_splits)
  show "covers d (missed rest)" if "d < b"
    using assms that by (cases rest rule: missed.cases) (auto simp: covers_def shaped_def split: if_splits)
qed

lemma dequeue_keeps:
  assumes t: "shaped (Dequeue b # rest)" and st: "dequeue_step b rest s = (st', s')"
  shows "keeps (Dequeue b # rest) s st' s'"
proof (cases "b < 3")
  case False
  then have n: "st' = missed rest" "s' = s" using st by (simp_all add: dequeue_step_def kNumPriorityBands_def)
  show ?thesis unfolding n keeps_def
    using False shaped_dequeue(3) [OF t] covers_dequeue(3) [OF _ t] by auto
next
  case True
  show ?thesis
  proof (cases "s_ready s b")
    case Nil
    then have n: "st' = Dequeue (Suc b) # rest" "s' = s" using st True by (simp_all add: dequeue_step_def kNumPriorityBands_def)
    show ?thesis unfolding n keeps_def
      using Nil shaped_dequeue(2) [OF t] covers_dequeue(2) [OF _ t] by auto
  next
    case (Cons a as)
    then have n: "st' = Turn a # found rest" "s' = s\<lparr>s_ready := (s_ready s)(b := as)\<rparr>"
      using st True by (simp_all add: dequeue_step_def kNumPriorityBands_def)
    show ?thesis unfolding n keeps_def
      using Cons shaped_dequeue(1) [OF t] covers_dequeue(1) [OF _ t] by auto
  qed
qed

lemma pool_reached: "reached n k T s \<Longrightarrow> n > 0 \<Longrightarrow> pool_ok n T s"
proof (induction rule: reached.induct)
  case (start n k)
  have "filter_mset worker (replicate_mset n [Worker] + replicate_mset k []) = replicate_mset n [Worker :: 'a frame]"
    by (induction n; induction k) (simp_all add: worker_def)
  then show ?case by (auto simp: pool_ok_def shaped_def idle_sched_def)
next
  case (step n k st T s ch st' s')
  then have IH: "pool_ok n (add_mset st T) s" by simp
  then have sh: "shaped st" and w: "s_workers s > 0" using step.prems by (simp_all add: pool_ok_def)
  from step.hyps(2) have "keeps st s st' s'"
  proof (cases rule: thread_step_cases)
    case user
    then show ?thesis using user_light [OF user(2) w] by (cases st') (auto simp: keeps_def worker_def shaped_def offers_def covers_def)
  next
    case (frame fr rest new)
    then have "\<nexists>c. fr = Dequeue c" by auto
    then show ?thesis using frame sh light_keeps [OF frame_light [OF frame(2) w]] pool_frame_keeps [OF frame(2)]
      by (cases "pool_frame fr") auto
  next
    case (popped b rest a as)
    then show ?thesis using dequeue_keeps [of b rest s st' s'] sh by (simp add: dequeue_step_def kNumPriorityBands_def)
  next
    case (empty b rest)
    then show ?thesis using dequeue_keeps [of b rest s st' s'] sh by (simp add: dequeue_step_def kNumPriorityBands_def)
  next
    case (none b rest)
    then show ?thesis using dequeue_keeps [of b rest s st' s'] sh by (simp add: dequeue_step_def kNumPriorityBands_def)
  qed
  then show ?case by (rule keeps_pool [OF IH])
qed

section \<open>No ready actor is left waiting\<close>

lemma can_step:
  assumes "st \<noteq> []" "\<not> s_paused s" "hd st = Parked \<Longrightarrow> s_permits s > 0"
  shows "thread_step Complete st s \<noteq> None"
proof (cases st)
  case (Cons fr rest)
  then show ?thesis
  proof (cases "\<exists>b. fr = Dequeue b")
    case False
    then have "frame_step Complete fr s \<noteq> None" using assms Cons by (cases fr) (auto split: nat.split list.split)
    then show ?thesis using False Cons by (auto simp: thread_step_frame)
  qed (auto simp: thread_step_def Cons)
qed (use assms in simp)

text \<open>
  C20. While an actor is in a ready stack and the pool is not paused, some thread can
  take a step that leads to it: it is about to release a permit, it is a worker that
  has still to look at the band before it parks, or there is a permit for a worker.
\<close>

theorem no_idle_pool:
  assumes "reached n k T s" "n > 0" "b < 3" "s_ready s b \<noteq> []" "\<not> s_paused s"
  shows "\<exists>st \<in># T. (offers st \<or> covers b st \<or> worker st \<and> s_permits s > 0) \<and> thread_step Complete st s \<noteq> None"
proof -
  have ok: "pool_ok n T s" by (rule pool_reached [OF assms(1,2)])
  have sh: "shaped st" if "st \<in># T" for st using ok that by (simp add: pool_ok_def)
  consider (one) st where "st \<in># T" "offers st \<or> covers b st" | (permit) "s_permits s > 0"
    using ok assms(3-5) by (auto simp: pool_ok_def watched_def)
  then show ?thesis
  proof cases
    case one
    then have "hd st \<noteq> Parked" "st \<noteq> []"
      using sh [OF one(1)] by (cases st; auto simp: shaped_Cons offers_def covers_def split: if_splits)+
    then show ?thesis using one can_step [of st s] assms(5) by blast
  next
    case permit
    have "size (filter_mset worker T) = n" using ok by (simp add: pool_ok_def)
    then obtain st where "st \<in># filter_mset worker T" using assms(2) by (metis multiset_nonemptyE size_empty less_irrefl)
    then have "st \<in># T" "worker st" by simp_all
    moreover from this(2) have "st \<noteq> []" by (simp add: worker_def)
    ultimately show ?thesis using permit can_step [of st s] assms(5) by blast
  qed
qed

lemma enqueued_run: "reached 1 1 {#[Release], [Worker]#} (enqueueReady 0 (set_sched 0 1 sent_sched))"
  by (rule reached.step [OF scheduled_run, where ch = Tick]) (simp add: thread_step_def)

theorem no_idle_pool_witness:
  "\<exists>st \<in># {#[Release], [Worker]#}. thread_step Complete st (enqueueReady 0 (set_sched 0 1 sent_sched)) \<noteq> None"
proof -
  have r: "s_ready (enqueueReady 0 (set_sched 0 1 sent_sched)) 1 \<noteq> []" "\<not> s_paused (enqueueReady 0 (set_sched 0 1 sent_sched))"
    by (simp_all add: enqueueReady_def band_of_def set_sched_def sent_sched_def idle_sched_def fresh_actor_def Let_def)
  from no_idle_pool [OF enqueued_run _ _ r] show ?thesis by auto
qed

end
