(* ===== verification/ProtoObjects.thy ===== *)
theory ProtoObjects
  imports Effects
begin

text \<open>
  What the primitives (src/primitives) use of protoCore and of the engine.  Objects
  are opaque: their attributes, prototypes, lists, texts and numbers are the
  parameters in \<open>proto\<close>, as are the runs of a block and of a method, which are user
  code and may change anything.  A null pointer is \<open>None\<close>.
\<close>

text \<open>The C++ exceptions a primitive raises itself, those of the code it calls, and undefined behaviour.\<close>

datatype 'e failure =
    Std_error string
  | Classed_error string string
  | Thrown 'e
  | Undefined_behaviour

type_synonym ('s, 'e, 'a) run = "'s \<Rightarrow> ('e failure + 'a) \<times> 's"

text \<open>
  \<open>px_chain\<close> lists an object, its prototype, the prototype of that and so on, up to
  a null, nil or self-referential one.  \<open>px_send\<close> is \<open>sendDynamic\<close>: \<open>None\<close> when the
  receiver does not understand the selector.
\<close>

record ('v, 's, 'e) proto =
  px_none :: 'v
  px_true :: 'v
  px_false :: 'v
  px_get :: "'v \<Rightarrow> string \<Rightarrow> 's \<Rightarrow> 'v option"
  px_own :: "'v \<Rightarrow> string \<Rightarrow> 's \<Rightarrow> 'v option"
  px_set :: "'v \<Rightarrow> string \<Rightarrow> 'v \<Rightarrow> 's \<Rightarrow> 's"
  px_attrs :: "'v \<Rightarrow> 's \<Rightarrow> (string \<times> 'v) list"
  px_child :: "'v \<Rightarrow> 's \<Rightarrow> 'v \<times> 's"
  px_chain :: "'v \<Rightarrow> 's \<Rightarrow> 'v list"
  px_long :: "'v \<Rightarrow> int"
  px_fromLong :: "int \<Rightarrow> 'v"
  px_isInteger :: "'v \<Rightarrow> bool"
  px_isDouble :: "'v \<Rightarrow> bool"
  px_text :: "'v \<Rightarrow> string option"
  px_fromText :: "string \<Rightarrow> 'v"
  px_isCharacter :: "'v \<Rightarrow> bool"
  px_list :: "'v \<Rightarrow> 'v list option"
  px_fromList :: "'v list \<Rightarrow> 'v"
  px_same :: "'v \<Rightarrow> 'v \<Rightarrow> bool"
  px_invoke :: "'v \<Rightarrow> 'v list \<Rightarrow> ('s, 'e, 'v option) run"
  px_send :: "'v \<Rightarrow> string \<Rightarrow> 'v list \<Rightarrow> ('s, 'e, 'v option option) run"

definition or_nil :: "('v, 's, 'e, 'z) proto_scheme \<Rightarrow> 'v option \<Rightarrow> 'v" where
  "or_nil C v = (case v of None \<Rightarrow> px_none C | Some x \<Rightarrow> x)"

definition bool_obj :: "('v, 's, 'e, 'z) proto_scheme \<Rightarrow> bool \<Rightarrow> 'v" where
  "bool_obj C b = (if b then px_true C else px_false C)"

text \<open>An attribute that is neither absent nor nil.\<close>

definition present :: "('v, 's, 'e, 'z) proto_scheme \<Rightarrow> 'v option \<Rightarrow> 'v option" where
  "present C v = (case v of None \<Rightarrow> None | Some x \<Rightarrow> if x = px_none C then None else Some x)"

definition invokeBlock :: "('v, 's, 'e, 'z) proto_scheme \<Rightarrow> 'v \<Rightarrow> 'v list \<Rightarrow> ('s, 'e, 'v) run" where
  "invokeBlock C block args = andThen (px_invoke C block args) (\<lambda>r. ret (or_nil C r))"

text \<open>A \<open>long long\<close>; outside its range the C++ arithmetic is undefined.\<close>

definition fits64 :: "int \<Rightarrow> bool" where
  "fits64 n \<longleftrightarrow> - (2 ^ 63) \<le> n \<and> n < 2 ^ 63"

definition ll :: "int \<Rightarrow> ('s, 'e, int) run" where
  "ll n = (if fits64 n then ret n else throw Undefined_behaviour)"

lemma ll_fits [simp]: "fits64 n \<Longrightarrow> ll n = ret n"
  by (simp add: ll_def)

end
