(* ===== verification/Collections.thy ===== *)
theory Collections
  imports ProtoObjects
begin

text \<open>
  src/primitives/collection_prims.cpp: Array, OrderedCollection, Bag, Set, Dictionary,
  Association and Interval, the derived iteration protocol of Collection and the
  counting loops of Number.  protoCore's immutable map with its hashed-collection
  helper is the parameter \<open>'m\<close> with the \<open>hx\<close> operations.  The \<open>=\<close> and \<open>hash\<close> of user
  classes that the helper calls are \<open>cx_ask\<close>: they are taken to change nothing.
\<close>

section \<open>Parameters\<close>

record 'v key_semantics =
  ks_hash :: "'v \<Rightarrow> nat"
  ks_equals :: "'v \<Rightarrow> 'v \<Rightarrow> bool"

record ('v, 's, 'e, 'm) collections = "('v, 's, 'e) proto" +
  cx_objectProto :: 'v
  cx_arrayProto :: 'v
  cx_orderedCollectionProto :: 'v
  cx_setProto :: 'v
  cx_bagProto :: 'v
  cx_dictionaryProto :: 'v
  cx_intervalProto :: 'v
  cx_associationProto :: 'v
  cx_ask :: "'v \<Rightarrow> string \<Rightarrow> 'v list \<Rightarrow> 's \<Rightarrow> 'v option option"
  cx_value :: "'v \<Rightarrow> int"
  cx_integral :: "'v \<Rightarrow> int option"
  cx_hashText :: "string \<Rightarrow> int"
  cx_hashDouble :: "'v \<Rightarrow> int"
  cx_numberKeyHash_half :: nat
  cx_symbol :: "string \<Rightarrow> nat"
  cx_getHash :: "'v \<Rightarrow> nat"
  hx_map :: "'v \<Rightarrow> 'm option"
  hx_fromMap :: "'m \<Rightarrow> 'v"
  hx_empty :: 'm
  hx_get :: "'v key_semantics \<Rightarrow> 'm \<Rightarrow> 'v \<Rightarrow> 'v option"
  hx_put :: "'v key_semantics \<Rightarrow> 'm \<Rightarrow> 'v \<Rightarrow> 'v \<Rightarrow> 'm"
  hx_remove :: "'v key_semantics \<Rightarrow> 'm \<Rightarrow> 'v \<Rightarrow> 'm"
  hx_entries :: "'m \<Rightarrow> ('v \<times> 'v) list"

section \<open>Equality and hash of keys\<close>

text \<open>A heap object whose class may define \<open>=\<close> and \<open>hash\<close>.\<close>

definition runtimeForUserEquality :: "('v, 's, 'e, 'm) collections \<Rightarrow> 'v \<Rightarrow> bool" where
  "runtimeForUserEquality C v \<longleftrightarrow>
     v \<noteq> px_none C \<and> v \<noteq> px_true C \<and> v \<noteq> px_false C \<and> \<not> px_isInteger C v \<and> \<not> px_isDouble C v \<and> px_text C v = None \<and>
     \<not> px_isCharacter C v"

definition stKeyEquals :: "('v, 's, 'e, 'm) collections \<Rightarrow> 's \<Rightarrow> 'v \<Rightarrow> 'v \<Rightarrow> bool" where
  "stKeyEquals C s a b =
     (if a = b then True
      else case (if runtimeForUserEquality C a then cx_ask C a ''='' [b] s else None) of
        Some r \<Rightarrow> r = Some (px_true C)
      | None \<Rightarrow>
          case (if runtimeForUserEquality C b then cx_ask C b ''='' [a] s else None) of
            Some r \<Rightarrow> r = Some (px_true C)
          | None \<Rightarrow> px_same C a b)"

text \<open>\<open>numericHash\<close> of object_prims.cpp: equal numbers of different kinds hash alike.\<close>

definition numericHash :: "('v, 's, 'e, 'm) collections \<Rightarrow> 'v \<Rightarrow> int" where
  "numericHash C v =
     (let big = (\<lambda>i. if \<bar>i\<bar> < 2 ^ 53 then i mod 2 ^ 53 else cx_hashText C (show_int i) mod 2 ^ 53) in
      if px_isDouble C v then
        (case cx_integral C v of Some i \<Rightarrow> big i | None \<Rightarrow> cx_hashDouble C v mod 2 ^ 53)
      else big (cx_value C v))"

definition stKeyHash :: "('v, 's, 'e, 'm) collections \<Rightarrow> 's \<Rightarrow> 'v \<Rightarrow> nat" where
  "stKeyHash C s v =
     (if v = px_none C then 0
      else case px_text C v of
        Some t \<Rightarrow> cx_symbol C t
      | None \<Rightarrow>
          if px_isInteger C v \<or> px_isDouble C v then nat (numericHash C v)
          else case (if runtimeForUserEquality C v then cx_ask C v ''hash'' [] s else None) of
            Some (Some h) \<Rightarrow>
              (if px_isInteger C h
               then (if 0 \<le> cx_value C h \<and> cx_value C h < 2 ^ 53 then nat (px_long C h) else cx_numberKeyHash_half C)
               else cx_getHash C v)
          | _ \<Rightarrow> cx_getHash C v)"

definition stKeySemantics :: "('v, 's, 'e, 'm) collections \<Rightarrow> 's \<Rightarrow> 'v key_semantics" where
  "stKeySemantics C s = \<lparr>ks_hash = stKeyHash C s, ks_equals = stKeyEquals C s\<rparr>"

section \<open>The backing store\<close>

definition arrayData :: "('v, 's, 'e, 'm) collections \<Rightarrow> 'v \<Rightarrow> 's \<Rightarrow> 'v list" where
  "arrayData C arr s =
     (case present C (px_get C arr ''__data__'' s) of
        None \<Rightarrow> []
      | Some d \<Rightarrow> (case px_list C d of None \<Rightarrow> [] | Some l \<Rightarrow> l))"

definition listData :: "('v, 's, 'e, 'm) collections \<Rightarrow> 'v \<Rightarrow> 's \<Rightarrow> 'v list" where
  "listData = arrayData"

definition mapData :: "('v, 's, 'e, 'm) collections \<Rightarrow> 'v \<Rightarrow> 's \<Rightarrow> 'm" where
  "mapData C coll s =
     (case present C (px_get C coll ''__data__'' s) of
        None \<Rightarrow> hx_empty C
      | Some d \<Rightarrow> (case hx_map C d of None \<Rightarrow> hx_empty C | Some m \<Rightarrow> m))"

definition hashedSize :: "('v, 's, 'e, 'm) collections \<Rightarrow> 'v \<Rightarrow> 's \<Rightarrow> int" where
  "hashedSize C coll s = (case present C (px_get C coll ''__size__'' s) of None \<Rightarrow> 0 | Some n \<Rightarrow> px_long C n)"

definition setHashedData :: "('v, 's, 'e, 'm) collections \<Rightarrow> 'v \<Rightarrow> 'm \<Rightarrow> int \<Rightarrow> 's \<Rightarrow> 's" where
  "setHashedData C coll updated n s =
     px_set C coll ''__size__'' (px_fromLong C n) (px_set C coll ''__data__'' (hx_fromMap C updated) s)"

definition setData :: "('v, 's, 'e, 'm) collections \<Rightarrow> 'v \<Rightarrow> 'v list \<Rightarrow> 's \<Rightarrow> 's" where
  "setData C coll updated s = px_set C coll ''__data__'' (px_fromList C updated) s"

text \<open>A walk up the prototypes; it ends at the Object of protoST.\<close>

fun scan_chain :: "('v \<Rightarrow> 'a option) \<Rightarrow> 'v \<Rightarrow> 'v list \<Rightarrow> 'a option" where
  "scan_chain f root [] = None"
| "scan_chain f root (p # ps) = (case f p of Some a \<Rightarrow> Some a | None \<Rightarrow> if p = root then None else scan_chain f root ps)"

definition descendsFrom :: "('v, 's, 'e, 'm) collections \<Rightarrow> 'v \<Rightarrow> 'v \<Rightarrow> 's \<Rightarrow> bool" where
  "descendsFrom C obj target s =
     (scan_chain (\<lambda>p. if p = target then Some () else None) (cx_objectProto C) (px_chain C obj s) \<noteq> None)"

definition isSetBacked :: "('v, 's, 'e, 'm) collections \<Rightarrow> 'v \<Rightarrow> 's \<Rightarrow> bool" where
  "isSetBacked C obj s = descendsFrom C obj (cx_setProto C) s"

definition isDictBacked :: "('v, 's, 'e, 'm) collections \<Rightarrow> 'v \<Rightarrow> 's \<Rightarrow> bool" where
  "isDictBacked C obj s = descendsFrom C obj (cx_dictionaryProto C) s"

definition isIntervalBacked :: "('v, 's, 'e, 'm) collections \<Rightarrow> 'v \<Rightarrow> 's \<Rightarrow> bool" where
  "isIntervalBacked C obj s = descendsFrom C obj (cx_intervalProto C) s"

definition isListBacked :: "('v, 's, 'e, 'm) collections \<Rightarrow> 'v \<Rightarrow> 's \<Rightarrow> bool" where
  "isListBacked C obj s =
     (case present C (px_get C obj ''__data__'' s) of None \<Rightarrow> False | Some d \<Rightarrow> px_list C d \<noteq> None)"

definition hashedEntries :: "('v, 's, 'e, 'm) collections \<Rightarrow> 'v \<Rightarrow> 's \<Rightarrow> ('v \<times> 'v) list" where
  "hashedEntries C coll s = hx_entries C (mapData C coll s)"

definition speciesProtoOf :: "('v, 's, 'e, 'm) collections \<Rightarrow> 'v \<Rightarrow> 's \<Rightarrow> 'v" where
  "speciesProtoOf C r s =
     (case scan_chain
             (\<lambda>p. if p = cx_orderedCollectionProto C then Some (cx_orderedCollectionProto C)
                  else if p = cx_arrayProto C then Some (cx_arrayProto C)
                  else if p = cx_setProto C then Some (cx_setProto C)
                  else if p = cx_bagProto C then Some (cx_bagProto C)
                  else if p = cx_dictionaryProto C then Some (cx_arrayProto C) else None)
             (cx_objectProto C) (px_chain C r s) of
        Some p \<Rightarrow> p | None \<Rightarrow> cx_arrayProto C)"

section \<open>Intervals\<close>

definition intervalAttr :: "('v, 's, 'e, 'm) collections \<Rightarrow> 'v \<Rightarrow> string \<Rightarrow> int \<Rightarrow> 's \<Rightarrow> int" where
  "intervalAttr C iv key dflt s = (case present C (px_get C iv key s) of None \<Rightarrow> dflt | Some v \<Rightarrow> px_long C v)"

definition intervalSize :: "int \<Rightarrow> int \<Rightarrow> int \<Rightarrow> ('s, 'e, int) run" where
  "intervalSize start stop step =
     (if step = 0 then ret 0
      else if step > 0 then
        (if stop < start then ret 0
         else andThen (ll (stop - start)) (\<lambda>d. ll (d div step + 1)))
      else if stop > start then ret 0
      else andThen (ll (start - stop)) (\<lambda>d. andThen (ll (- step)) (\<lambda>k. ll (d div k + 1))))"

definition interval_bounds :: "('v, 's, 'e, 'm) collections \<Rightarrow> 'v \<Rightarrow> 's \<Rightarrow> int \<times> int \<times> int" where
  "interval_bounds C r s =
     (intervalAttr C r ''__interval_start__'' 1 s, intervalAttr C r ''__interval_stop__'' 0 s,
      intervalAttr C r ''__interval_step__'' 1 s)"

definition interval_size :: "('v, 's, 'e, 'm) collections \<Rightarrow> 'v \<Rightarrow> ('s, 'e, int) run" where
  "interval_size C r = andThen (reads (interval_bounds C r)) (\<lambda>(start, stop, step). intervalSize start stop step)"

definition makeIntervalInstance :: "('v, 's, 'e, 'm) collections \<Rightarrow> int \<Rightarrow> int \<Rightarrow> int \<Rightarrow> ('s, 'e, 'v) run" where
  "makeIntervalInstance C start stop step s =
     (case px_child C (cx_intervalProto C) s of
        (iv, s1) \<Rightarrow>
          (Inr iv, px_set C iv ''__interval_step__'' (px_fromLong C step)
                     (px_set C iv ''__interval_stop__'' (px_fromLong C stop)
                       (px_set C iv ''__interval_start__'' (px_fromLong C start) s1))))"

text \<open>\<open>n\<close> elements from \<open>cur\<close>; the last addition too is made in a \<open>long long\<close>.\<close>

primrec stride :: "('v, 's, 'e, 'm) collections \<Rightarrow> ('v \<Rightarrow> 'a \<Rightarrow> ('s, 'e, bool \<times> 'a) run) \<Rightarrow> nat \<Rightarrow> int \<Rightarrow> int \<Rightarrow> 'a \<Rightarrow> ('s, 'e, 'a) run" where
  "stride C f 0 cur step acc = ret acc"
| "stride C f (Suc n) cur step acc =
     andThen (f (px_fromLong C cur) acc) (\<lambda>(go, acc').
       if go then andThen (ll (cur + step)) (\<lambda>next. stride C f n next step acc') else ret acc')"

section \<open>Iteration\<close>

definition forEachElement :: "('v, 's, 'e, 'm) collections \<Rightarrow> 'v \<Rightarrow> ('v \<Rightarrow> 'a \<Rightarrow> ('s, 'e, bool \<times> 'a) run) \<Rightarrow> 'a \<Rightarrow> ('s, 'e, 'a) run" where
  "forEachElement C coll f acc s =
     (if isIntervalBacked C coll s then
        (case interval_bounds C coll s of
           (start, stop, step) \<Rightarrow> andThen (intervalSize start stop step) (\<lambda>n. stride C f (nat n) start step acc) s)
      else if isListBacked C coll s then walk f (arrayData C coll s) acc s
      else if isSetBacked C coll s then walk f (map fst (hashedEntries C coll s)) acc s
      else if isDictBacked C coll s then walk f (map snd (hashedEntries C coll s)) acc s
      else andThen (px_send C coll ''__elementsForIteration'' [])
        (\<lambda>r s1. case r of
             Some (Some elements) \<Rightarrow>
               (if isListBacked C elements s1 then walk f (arrayData C elements s1) acc s1
                else (Inl (Std_error ''collection does not understand iteration''), s1))
           | _ \<Rightarrow> (Inl (Std_error ''collection does not understand iteration''), s1)) s)"

text \<open>The loops whose body never stops: one that collects, and one that runs a block for its effects.\<close>

definition gather :: "('v, 's, 'e, 'm) collections \<Rightarrow> 'v \<Rightarrow> 'v list \<Rightarrow> ('s, 'e, 'v list) run" where
  "gather C coll out = forEachElement C coll (\<lambda>e out. ret (True, out @ [e])) out"

definition run_each :: "('v, 's, 'e, 'm) collections \<Rightarrow> 'v \<Rightarrow> 'v \<Rightarrow> ('s, 'e, 'v) run" where
  "run_each C r block =
     andThen (forEachElement C r (\<lambda>e _. andThen (invokeBlock C block [e]) (\<lambda>_. ret (True, ()))) ()) (\<lambda>_. ret r)"

end
