(* ===== verification/CollectionPrims.thy ===== *)
theory CollectionPrims
  imports Collections
begin

text \<open>
  The primitives of src/primitives/collection_prims.cpp, each from the receiver and
  the list of its arguments.  A primitive whose selector fixes the number of its
  arguments still checks it.
\<close>

abbreviation (input) fail :: "string \<Rightarrow> ('s, 'e, 'a) run" where
  "fail msg \<equiv> throw (Std_error msg)"

definition arg1 :: "string \<Rightarrow> 'v list \<Rightarrow> ('v \<Rightarrow> ('s, 'e, 'a) run) \<Rightarrow> ('s, 'e, 'a) run" where
  "arg1 msg a k = (case a of [x] \<Rightarrow> k x | _ \<Rightarrow> fail msg)"

definition arg2 :: "string \<Rightarrow> 'v list \<Rightarrow> ('v \<Rightarrow> 'v \<Rightarrow> ('s, 'e, 'a) run) \<Rightarrow> ('s, 'e, 'a) run" where
  "arg2 msg a k = (case a of [x, y] \<Rightarrow> k x y | _ \<Rightarrow> fail msg)"

lemma arg1_simp [simp]: "arg1 msg [x] k = k x"
  by (simp add: arg1_def)

lemma arg2_simp [simp]: "arg2 msg [x, y] k = k x y"
  by (simp add: arg2_def)

definition update :: "('s \<Rightarrow> 's) \<Rightarrow> 'a \<Rightarrow> ('s, 'e, 'a) run" where
  "update f a s = (Inr a, f s)"

lemma update_simp [simp]: "update f a s = (Inr a, f s)"
  by (simp add: update_def)

section \<open>Indexing\<close>

definition out_of_range :: "string \<Rightarrow> int \<Rightarrow> int \<Rightarrow> ('s, 'e, 'a) run" where
  "out_of_range sel idx1 n =
     throw (Classed_error ''SubscriptOutOfBounds'' (sel @ '' index '' @ show_int idx1 @ '' out of range 1..'' @ show_int n))"

definition list_at :: "string \<Rightarrow> ('v, 's, 'e, 'm) collections \<Rightarrow> 'v \<Rightarrow> 'v list \<Rightarrow> ('s, 'e, 'v) run" where
  "list_at sel C r a = arg1 ''at: expects 1 arg (index)'' a (\<lambda>i. andThen (reads (arrayData C r)) (\<lambda>data.
     let idx1 = px_long C i; n = int (length data)
     in if idx1 < 1 \<or> idx1 > n then out_of_range sel idx1 n else ret (data ! nat (idx1 - 1))))"

definition list_at_put :: "string \<Rightarrow> ('v, 's, 'e, 'm) collections \<Rightarrow> 'v \<Rightarrow> 'v list \<Rightarrow> ('s, 'e, 'v) run" where
  "list_at_put sel C r a = arg2 ''at:put: expects 2 args (index, value)'' a (\<lambda>i value. andThen (reads (arrayData C r)) (\<lambda>data.
     let idx1 = px_long C i; n = int (length data)
     in if idx1 < 1 \<or> idx1 > n then out_of_range sel idx1 n
        else update (setData C r (data[nat (idx1 - 1) := value])) value))"

section \<open>Array\<close>

text \<open>
  A constructor of a built-in class also serves its user subclasses: the instance is
  made again as a child of the subclass and receives \<open>initialize\<close>.
\<close>

definition instantiateAs :: "('v, 's, 'e, 'm) collections \<Rightarrow> string \<Rightarrow> 'v \<Rightarrow> 'v \<Rightarrow> 'v \<Rightarrow> ('s, 'e, 'v) run" where
  "instantiateAs C className cls base inst s =
     (if cls = base \<or> cls = px_none C \<or> present C (px_own C cls className s) = None then (Inr inst, s)
      else case px_child C cls s of
        (out, s1) \<Rightarrow>
          andThen (px_send C out ''initialize'' []) (\<lambda>_. ret out)
            (foldl (\<lambda>s (key, value). px_set C out key value s) s1 (px_attrs C inst s1)))"

abbreviation (input) kClassName :: string where "kClassName \<equiv> ''__class_name__''"

definition makeArrayInstance :: "('v, 's, 'e, 'm) collections \<Rightarrow> 'v list \<Rightarrow> ('s, 'e, 'v) run" where
  "makeArrayInstance C data s =
     (case px_child C (cx_arrayProto C) s of (arr, s1) \<Rightarrow> (Inr arr, setData C arr data s1))"

text \<open>The distinct elements of a list, in a fresh map, with their number.\<close>

fun add_distinct :: "('v, 's, 'e, 'm) collections \<Rightarrow> 's \<Rightarrow> 'v \<Rightarrow> 'm \<times> int \<Rightarrow> 'm \<times> int" where
  "add_distinct C s e (m, n) =
     (if hx_get C (stKeySemantics C s) m e \<noteq> None then (m, n) else (hx_put C (stKeySemantics C s) m e e, n + 1))"

definition makeInstanceOfSpecies :: "('v, 's, 'e, 'm) collections \<Rightarrow> 'v \<Rightarrow> 'v list \<Rightarrow> ('s, 'e, 'v) run" where
  "makeInstanceOfSpecies C classProto data s =
     (case px_child C classProto s of
        (inst, s1) \<Rightarrow>
          (if classProto = cx_setProto C
           then (case foldl (\<lambda>mn e. add_distinct C s1 e mn) (hx_empty C, 0) data of
                   (m, n) \<Rightarrow> (Inr inst, setHashedData C inst m n s1))
           else (Inr inst, setData C inst data s1)))"

definition of_species :: "('v, 's, 'e, 'm) collections \<Rightarrow> 'v \<Rightarrow> 'v list \<Rightarrow> ('s, 'e, 'v) run" where
  "of_species C r out = andThen (reads (speciesProtoOf C r)) (\<lambda>cls. makeInstanceOfSpecies C cls out)"

definition prim_Array_size :: "('v, 's, 'e, 'm) collections \<Rightarrow> 'v \<Rightarrow> 'v list \<Rightarrow> ('s, 'e, 'v) run" where
  "prim_Array_size C r a = reads (\<lambda>s. px_fromLong C (int (length (arrayData C r s))))"

definition prim_Array_isEmpty :: "('v, 's, 'e, 'm) collections \<Rightarrow> 'v \<Rightarrow> 'v list \<Rightarrow> ('s, 'e, 'v) run" where
  "prim_Array_isEmpty C r a = reads (\<lambda>s. bool_obj C (arrayData C r s = []))"

definition prim_Array_notEmpty :: "('v, 's, 'e, 'm) collections \<Rightarrow> 'v \<Rightarrow> 'v list \<Rightarrow> ('s, 'e, 'v) run" where
  "prim_Array_notEmpty C r a = reads (\<lambda>s. bool_obj C (arrayData C r s \<noteq> []))"

definition prim_Array_at :: "('v, 's, 'e, 'm) collections \<Rightarrow> 'v \<Rightarrow> 'v list \<Rightarrow> ('s, 'e, 'v) run" where
  "prim_Array_at = list_at ''Array>>at:''"

definition prim_Array_atPut :: "('v, 's, 'e, 'm) collections \<Rightarrow> 'v \<Rightarrow> 'v list \<Rightarrow> ('s, 'e, 'v) run" where
  "prim_Array_atPut = list_at_put ''Array>>at:put:''"

definition prim_Array_do :: "('v, 's, 'e, 'm) collections \<Rightarrow> 'v \<Rightarrow> 'v list \<Rightarrow> ('s, 'e, 'v) run" where
  "prim_Array_do C r a = arg1 ''do: expects 1 arg (block)'' a (run_each C r)"

definition prim_Array_classNew :: "('v, 's, 'e, 'm) collections \<Rightarrow> 'v \<Rightarrow> 'v list \<Rightarrow> ('s, 'e, 'v) run" where
  "prim_Array_classNew C cls a = arg1 ''new: expects 1 arg (size)'' a (\<lambda>x.
     let n = px_long C x
     in if n < 0 then fail ''Array new: negative size''
        else andThen (makeArrayInstance C (replicate (nat n) (px_none C))) (instantiateAs C kClassName cls (cx_arrayProto C)))"

definition prim_Array_classWithAll :: "('v, 's, 'e, 'm) collections \<Rightarrow> 'v \<Rightarrow> 'v list \<Rightarrow> ('s, 'e, 'v) run" where
  "prim_Array_classWithAll C cls a = arg1 ''withAll: expects 1 arg (collection)'' a (\<lambda>x.
     andThen (gather C x []) (\<lambda>data. andThen (makeArrayInstance C data) (instantiateAs C kClassName cls (cx_arrayProto C))))"

definition prim_Array_classWith :: "('v, 's, 'e, 'm) collections \<Rightarrow> 'v \<Rightarrow> 'v list \<Rightarrow> ('s, 'e, 'v) run" where
  "prim_Array_classWith C cls a = andThen (makeArrayInstance C a) (instantiateAs C kClassName cls (cx_arrayProto C))"

section \<open>OrderedCollection\<close>

definition prim_OC_size :: "('v, 's, 'e, 'm) collections \<Rightarrow> 'v \<Rightarrow> 'v list \<Rightarrow> ('s, 'e, 'v) run" where
  "prim_OC_size C r a = reads (\<lambda>s. px_fromLong C (int (length (listData C r s))))"

definition prim_OC_isEmpty :: "('v, 's, 'e, 'm) collections \<Rightarrow> 'v \<Rightarrow> 'v list \<Rightarrow> ('s, 'e, 'v) run" where
  "prim_OC_isEmpty C r a = reads (\<lambda>s. bool_obj C (listData C r s = []))"

definition prim_OC_notEmpty :: "('v, 's, 'e, 'm) collections \<Rightarrow> 'v \<Rightarrow> 'v list \<Rightarrow> ('s, 'e, 'v) run" where
  "prim_OC_notEmpty C r a = reads (\<lambda>s. bool_obj C (listData C r s \<noteq> []))"

definition prim_OC_at :: "('v, 's, 'e, 'm) collections \<Rightarrow> 'v \<Rightarrow> 'v list \<Rightarrow> ('s, 'e, 'v) run" where
  "prim_OC_at = list_at ''OrderedCollection>>at:''"

definition prim_OC_atPut :: "('v, 's, 'e, 'm) collections \<Rightarrow> 'v \<Rightarrow> 'v list \<Rightarrow> ('s, 'e, 'v) run" where
  "prim_OC_atPut = list_at_put ''OrderedCollection>>at:put:''"

text \<open>Operations that replace the list by one computed from it.\<close>

definition on_list :: "('v, 's, 'e, 'm) collections \<Rightarrow> 'v \<Rightarrow> ('v list \<Rightarrow> 'v list) \<Rightarrow> 'v \<Rightarrow> ('s, 'e, 'v) run" where
  "on_list C r f answer = update (\<lambda>s. setData C r (f (listData C r s)) s) answer"

definition prim_OC_add :: "('v, 's, 'e, 'm) collections \<Rightarrow> 'v \<Rightarrow> 'v list \<Rightarrow> ('s, 'e, 'v) run" where
  "prim_OC_add C r a = arg1 ''add: expects 1 arg (element)'' a (\<lambda>e. on_list C r (\<lambda>l. l @ [e]) e)"

definition prim_OC_addFirst :: "('v, 's, 'e, 'm) collections \<Rightarrow> 'v \<Rightarrow> 'v list \<Rightarrow> ('s, 'e, 'v) run" where
  "prim_OC_addFirst C r a = arg1 ''addFirst: expects 1 arg (element)'' a (\<lambda>e. on_list C r (\<lambda>l. e # l) e)"

definition prim_OC_addAll :: "('v, 's, 'e, 'm) collections \<Rightarrow> 'v \<Rightarrow> 'v list \<Rightarrow> ('s, 'e, 'v) run" where
  "prim_OC_addAll C r a = arg1 ''addAll: expects 1 arg (collection)'' a (\<lambda>x.
     andThen (reads (listData C r)) (\<lambda>data. andThen (gather C x data) (\<lambda>data'. update (setData C r data') x)))"

definition prim_OC_removeFirst :: "('v, 's, 'e, 'm) collections \<Rightarrow> 'v \<Rightarrow> 'v list \<Rightarrow> ('s, 'e, 'v) run" where
  "prim_OC_removeFirst C r a = andThen (reads (listData C r)) (\<lambda>data.
     if data = [] then fail ''OrderedCollection>>removeFirst: collection is empty''
     else update (setData C r (tl data)) (hd data))"

definition prim_OC_removeLast :: "('v, 's, 'e, 'm) collections \<Rightarrow> 'v \<Rightarrow> 'v list \<Rightarrow> ('s, 'e, 'v) run" where
  "prim_OC_removeLast C r a = andThen (reads (listData C r)) (\<lambda>data.
     if data = [] then fail ''OrderedCollection>>removeLast: collection is empty''
     else update (setData C r (butlast data)) (last data))"

text \<open>\<open>indexOfEqual\<close> compares with protoCore's comparison, not with the \<open>=\<close> of a class; \<open>None\<close> is -1.\<close>

definition list_equal :: "('v, 's, 'e, 'm) collections \<Rightarrow> 'v \<Rightarrow> 'v \<Rightarrow> bool" where
  "list_equal C e value \<longleftrightarrow> e = value \<or> px_same C e value"

fun indexOfEqual :: "('v, 's, 'e, 'm) collections \<Rightarrow> 'v list \<Rightarrow> 'v \<Rightarrow> nat option" where
  "indexOfEqual C [] value = None"
| "indexOfEqual C (e # es) value = (if list_equal C e value then Some 0 else map_option Suc (indexOfEqual C es value))"

definition removeAt :: "nat \<Rightarrow> 'v list \<Rightarrow> 'v list" where
  "removeAt i l = take i l @ drop (Suc i) l"

definition list_remove :: "('v, 's, 'e, 'm) collections \<Rightarrow> 'v \<Rightarrow> 'v \<Rightarrow> ('s, 'e, 'v) run \<Rightarrow> ('s, 'e, 'v) run" where
  "list_remove C r value absent = andThen (reads (listData C r)) (\<lambda>data.
     case indexOfEqual C data value of None \<Rightarrow> absent | Some i \<Rightarrow> update (setData C r (removeAt i data)) value)"

definition prim_OC_remove :: "('v, 's, 'e, 'm) collections \<Rightarrow> 'v \<Rightarrow> 'v list \<Rightarrow> ('s, 'e, 'v) run" where
  "prim_OC_remove C r a = arg1 ''remove: expects 1 arg (element)'' a (\<lambda>e.
     list_remove C r e (throw (Classed_error ''NotFound'' ''OrderedCollection>>remove: element not found'')))"

definition prim_OC_removeIfAbsent :: "('v, 's, 'e, 'm) collections \<Rightarrow> 'v \<Rightarrow> 'v list \<Rightarrow> ('s, 'e, 'v) run" where
  "prim_OC_removeIfAbsent C r a = arg2 ''remove:ifAbsent: expects 2 args (element, block)'' a (\<lambda>e block.
     list_remove C r e (invokeBlock C block []))"

definition prim_OC_first :: "('v, 's, 'e, 'm) collections \<Rightarrow> 'v \<Rightarrow> 'v list \<Rightarrow> ('s, 'e, 'v) run" where
  "prim_OC_first C r a = andThen (reads (listData C r)) (\<lambda>data.
     if data = [] then fail ''OrderedCollection>>first: collection is empty'' else ret (hd data))"

definition prim_OC_last :: "('v, 's, 'e, 'm) collections \<Rightarrow> 'v \<Rightarrow> 'v list \<Rightarrow> ('s, 'e, 'v) run" where
  "prim_OC_last C r a = andThen (reads (listData C r)) (\<lambda>data.
     if data = [] then fail ''OrderedCollection>>last: collection is empty'' else ret (last data))"

definition prim_OC_do :: "('v, 's, 'e, 'm) collections \<Rightarrow> 'v \<Rightarrow> 'v list \<Rightarrow> ('s, 'e, 'v) run" where
  "prim_OC_do C r a = arg1 ''do: expects 1 arg (block)'' a (run_each C r)"

definition prim_OC_classNew :: "('v, 's, 'e, 'm) collections \<Rightarrow> 'v \<Rightarrow> 'v list \<Rightarrow> ('s, 'e, 'v) run" where
  "prim_OC_classNew C cls a =
     andThen (makeInstanceOfSpecies C (cx_orderedCollectionProto C) []) (instantiateAs C kClassName cls (cx_orderedCollectionProto C))"

definition prim_OC_classWithAll :: "('v, 's, 'e, 'm) collections \<Rightarrow> 'v \<Rightarrow> 'v list \<Rightarrow> ('s, 'e, 'v) run" where
  "prim_OC_classWithAll C cls a = arg1 ''withAll: expects 1 arg (collection)'' a (\<lambda>x.
     andThen (gather C x []) (\<lambda>data.
     andThen (makeInstanceOfSpecies C (cx_orderedCollectionProto C) data)
       (instantiateAs C kClassName cls (cx_orderedCollectionProto C))))"

end
