(* ===== verification/HashedPrims.thy ===== *)
theory HashedPrims
  imports CollectionPrims
begin

text \<open>
  The rest of src/primitives/collection_prims.cpp: Set, Bag, Association, Dictionary,
  the protocol every collection inherits, Interval and the loops of Number.
\<close>

section \<open>Set\<close>

definition makeSetInstance :: "('v, 's, 'e, 'm) collections \<Rightarrow> 'm \<Rightarrow> int \<Rightarrow> ('s, 'e, 'v) run" where
  "makeSetInstance C data n s = (case px_child C (cx_setProto C) s of (x, s1) \<Rightarrow> (Inr x, setHashedData C x data n s1))"

definition prim_Set_add :: "('v, 's, 'e, 'm) collections \<Rightarrow> 'v \<Rightarrow> 'v list \<Rightarrow> ('s, 'e, 'v) run" where
  "prim_Set_add C r a = arg1 ''add: expects 1 arg (element)'' a (\<lambda>e s.
     (let data = mapData C r s
      in if hx_get C (stKeySemantics C s) data e = None
         then (Inr e, setHashedData C r (hx_put C (stKeySemantics C s) data e e) (hashedSize C r s + 1) s)
         else (Inr e, s)))"

definition set_remove :: "('v, 's, 'e, 'm) collections \<Rightarrow> 'v \<Rightarrow> 'v \<Rightarrow> ('s, 'e, 'v) run \<Rightarrow> ('s, 'e, 'v) run" where
  "set_remove C r e absent s =
     (let data = mapData C r s
      in if hx_get C (stKeySemantics C s) data e = None then absent s
         else (Inr e, setHashedData C r (hx_remove C (stKeySemantics C s) data e) (hashedSize C r s - 1) s))"

definition prim_Set_remove :: "('v, 's, 'e, 'm) collections \<Rightarrow> 'v \<Rightarrow> 'v list \<Rightarrow> ('s, 'e, 'v) run" where
  "prim_Set_remove C r a = arg1 ''remove: expects 1 arg (element)'' a (\<lambda>e.
     set_remove C r e (throw (Classed_error ''NotFound'' ''Set>>remove: element not found'')))"

definition prim_Set_removeIfAbsent :: "('v, 's, 'e, 'm) collections \<Rightarrow> 'v \<Rightarrow> 'v list \<Rightarrow> ('s, 'e, 'v) run" where
  "prim_Set_removeIfAbsent C r a = arg2 ''remove:ifAbsent: expects 2 args (element, block)'' a (\<lambda>e block.
     set_remove C r e (invokeBlock C block []))"

definition prim_Set_includes :: "('v, 's, 'e, 'm) collections \<Rightarrow> 'v \<Rightarrow> 'v list \<Rightarrow> ('s, 'e, 'v) run" where
  "prim_Set_includes C r a = arg1 ''includes: expects 1 arg (element)'' a (\<lambda>e.
     reads (\<lambda>s. bool_obj C (hx_get C (stKeySemantics C s) (mapData C r s) e \<noteq> None)))"

definition prim_Set_size :: "('v, 's, 'e, 'm) collections \<Rightarrow> 'v \<Rightarrow> 'v list \<Rightarrow> ('s, 'e, 'v) run" where
  "prim_Set_size C r a = reads (\<lambda>s. px_fromLong C (hashedSize C r s))"

definition prim_Set_isEmpty :: "('v, 's, 'e, 'm) collections \<Rightarrow> 'v \<Rightarrow> 'v list \<Rightarrow> ('s, 'e, 'v) run" where
  "prim_Set_isEmpty C r a = reads (\<lambda>s. bool_obj C (hashedSize C r s = 0))"

definition prim_Set_notEmpty :: "('v, 's, 'e, 'm) collections \<Rightarrow> 'v \<Rightarrow> 'v list \<Rightarrow> ('s, 'e, 'v) run" where
  "prim_Set_notEmpty C r a = reads (\<lambda>s. bool_obj C (hashedSize C r s \<noteq> 0))"

definition prim_Set_do :: "('v, 's, 'e, 'm) collections \<Rightarrow> 'v \<Rightarrow> 'v list \<Rightarrow> ('s, 'e, 'v) run" where
  "prim_Set_do C r a = arg1 ''do: expects 1 arg (block)'' a (run_each C r)"

definition prim_Set_classNew :: "('v, 's, 'e, 'm) collections \<Rightarrow> 'v \<Rightarrow> 'v list \<Rightarrow> ('s, 'e, 'v) run" where
  "prim_Set_classNew C cls a = andThen (makeSetInstance C (hx_empty C) 0) (instantiateAs C kClassName cls (cx_setProto C))"

definition prim_Set_classWithAll :: "('v, 's, 'e, 'm) collections \<Rightarrow> 'v \<Rightarrow> 'v list \<Rightarrow> ('s, 'e, 'v) run" where
  "prim_Set_classWithAll C cls a = arg1 ''withAll: expects 1 arg (collection)'' a (\<lambda>x.
     andThen (forEachElement C x (\<lambda>e mn s. (Inr (True, add_distinct C s e mn), s)) (hx_empty C, 0)) (\<lambda>(m, n).
     andThen (makeSetInstance C m n) (instantiateAs C kClassName cls (cx_setProto C))))"

section \<open>Bag\<close>

definition makeBagInstance :: "('v, 's, 'e, 'm) collections \<Rightarrow> 'v list \<Rightarrow> ('s, 'e, 'v) run" where
  "makeBagInstance C data = makeInstanceOfSpecies C (cx_bagProto C) data"

definition prim_Bag_add :: "('v, 's, 'e, 'm) collections \<Rightarrow> 'v \<Rightarrow> 'v list \<Rightarrow> ('s, 'e, 'v) run" where
  "prim_Bag_add C r a = arg1 ''add: expects 1 arg (element)'' a (\<lambda>e. on_list C r (\<lambda>l. l @ [e]) e)"

definition prim_Bag_addWithOccurrences :: "('v, 's, 'e, 'm) collections \<Rightarrow> 'v \<Rightarrow> 'v list \<Rightarrow> ('s, 'e, 'v) run" where
  "prim_Bag_addWithOccurrences C r a = arg2 ''add:withOccurrences: expects 2 args (element, count)'' a (\<lambda>e k.
     let n = px_long C k
     in if n < 0 then fail ''Bag>>add:withOccurrences: negative count''
        else on_list C r (\<lambda>l. l @ replicate (nat n) e) e)"

definition prim_Bag_remove :: "('v, 's, 'e, 'm) collections \<Rightarrow> 'v \<Rightarrow> 'v list \<Rightarrow> ('s, 'e, 'v) run" where
  "prim_Bag_remove C r a = arg1 ''remove: expects 1 arg (element)'' a (\<lambda>e.
     list_remove C r e (throw (Classed_error ''NotFound'' ''Bag>>remove: element not found'')))"

definition prim_Bag_removeIfAbsent :: "('v, 's, 'e, 'm) collections \<Rightarrow> 'v \<Rightarrow> 'v list \<Rightarrow> ('s, 'e, 'v) run" where
  "prim_Bag_removeIfAbsent C r a = arg2 ''remove:ifAbsent: expects 2 args (element, block)'' a (\<lambda>e block.
     list_remove C r e (invokeBlock C block []))"

definition countEqual :: "('v, 's, 'e, 'm) collections \<Rightarrow> 'v list \<Rightarrow> 'v \<Rightarrow> int" where
  "countEqual C data value = foldl (\<lambda>n e. if list_equal C e value then n + 1 else n) 0 data"

definition prim_Bag_includes :: "('v, 's, 'e, 'm) collections \<Rightarrow> 'v \<Rightarrow> 'v list \<Rightarrow> ('s, 'e, 'v) run" where
  "prim_Bag_includes C r a = arg1 ''includes: expects 1 arg (element)'' a (\<lambda>e.
     reads (\<lambda>s. bool_obj C (indexOfEqual C (listData C r s) e \<noteq> None)))"

definition prim_Bag_occurrencesOf :: "('v, 's, 'e, 'm) collections \<Rightarrow> 'v \<Rightarrow> 'v list \<Rightarrow> ('s, 'e, 'v) run" where
  "prim_Bag_occurrencesOf C r a = arg1 ''occurrencesOf: expects 1 arg (element)'' a (\<lambda>e.
     reads (\<lambda>s. px_fromLong C (countEqual C (listData C r s) e)))"

definition prim_Bag_size :: "('v, 's, 'e, 'm) collections \<Rightarrow> 'v \<Rightarrow> 'v list \<Rightarrow> ('s, 'e, 'v) run" where
  "prim_Bag_size C r a = reads (\<lambda>s. px_fromLong C (int (length (listData C r s))))"

definition prim_Bag_isEmpty :: "('v, 's, 'e, 'm) collections \<Rightarrow> 'v \<Rightarrow> 'v list \<Rightarrow> ('s, 'e, 'v) run" where
  "prim_Bag_isEmpty C r a = reads (\<lambda>s. bool_obj C (listData C r s = []))"

definition prim_Bag_notEmpty :: "('v, 's, 'e, 'm) collections \<Rightarrow> 'v \<Rightarrow> 'v list \<Rightarrow> ('s, 'e, 'v) run" where
  "prim_Bag_notEmpty C r a = reads (\<lambda>s. bool_obj C (listData C r s \<noteq> []))"

definition prim_Bag_do :: "('v, 's, 'e, 'm) collections \<Rightarrow> 'v \<Rightarrow> 'v list \<Rightarrow> ('s, 'e, 'v) run" where
  "prim_Bag_do C r a = arg1 ''do: expects 1 arg (block)'' a (run_each C r)"

definition prim_Bag_classNew :: "('v, 's, 'e, 'm) collections \<Rightarrow> 'v \<Rightarrow> 'v list \<Rightarrow> ('s, 'e, 'v) run" where
  "prim_Bag_classNew C cls a = andThen (makeBagInstance C []) (instantiateAs C kClassName cls (cx_bagProto C))"

definition prim_Bag_classWithAll :: "('v, 's, 'e, 'm) collections \<Rightarrow> 'v \<Rightarrow> 'v list \<Rightarrow> ('s, 'e, 'v) run" where
  "prim_Bag_classWithAll C cls a = arg1 ''withAll: expects 1 arg (collection)'' a (\<lambda>x.
     andThen (gather C x []) (\<lambda>data. andThen (makeBagInstance C data) (instantiateAs C kClassName cls (cx_bagProto C))))"

section \<open>Association\<close>

definition makeAssociation :: "('v, 's, 'e, 'm) collections \<Rightarrow> 'v \<Rightarrow> 'v \<Rightarrow> ('s, 'e, 'v) run" where
  "makeAssociation C key value s =
     (case px_child C (cx_associationProto C) s of
        (x, s1) \<Rightarrow> (Inr x, px_set C x ''__assoc_value__'' value (px_set C x ''__assoc_key__'' key s1)))"

definition prim_Object_arrow :: "('v, 's, 'e, 'm) collections \<Rightarrow> 'v \<Rightarrow> 'v list \<Rightarrow> ('s, 'e, 'v) run" where
  "prim_Object_arrow C r a = arg1 ''-> expects 1 arg (value)'' a (makeAssociation C r)"

definition prim_Assoc_key :: "('v, 's, 'e, 'm) collections \<Rightarrow> 'v \<Rightarrow> 'v list \<Rightarrow> ('s, 'e, 'v) run" where
  "prim_Assoc_key C r a = reads (\<lambda>s. or_nil C (px_get C r ''__assoc_key__'' s))"

definition prim_Assoc_value :: "('v, 's, 'e, 'm) collections \<Rightarrow> 'v \<Rightarrow> 'v list \<Rightarrow> ('s, 'e, 'v) run" where
  "prim_Assoc_value C r a = reads (\<lambda>s. or_nil C (px_get C r ''__assoc_value__'' s))"

definition prim_Assoc_keyPut :: "('v, 's, 'e, 'm) collections \<Rightarrow> 'v \<Rightarrow> 'v list \<Rightarrow> ('s, 'e, 'v) run" where
  "prim_Assoc_keyPut C r a = arg1 ''key: expects 1 arg'' a (\<lambda>k. update (px_set C r ''__assoc_key__'' k) r)"

definition prim_Assoc_valuePut :: "('v, 's, 'e, 'm) collections \<Rightarrow> 'v \<Rightarrow> 'v list \<Rightarrow> ('s, 'e, 'v) run" where
  "prim_Assoc_valuePut C r a = arg1 ''value: expects 1 arg'' a (\<lambda>v. update (px_set C r ''__assoc_value__'' v) r)"

section \<open>Dictionary\<close>

definition dictLookup :: "('v, 's, 'e, 'm) collections \<Rightarrow> 'v \<Rightarrow> 'v \<Rightarrow> 's \<Rightarrow> 'v option" where
  "dictLookup C r key s = hx_get C (stKeySemantics C s) (mapData C r s) key"

definition makeDictInstance :: "('v, 's, 'e, 'm) collections \<Rightarrow> 'm \<Rightarrow> int \<Rightarrow> ('s, 'e, 'v) run" where
  "makeDictInstance C data n s = (case px_child C (cx_dictionaryProto C) s of (x, s1) \<Rightarrow> (Inr x, setHashedData C x data n s1))"

definition dictStore :: "('v, 's, 'e, 'm) collections \<Rightarrow> 'v \<Rightarrow> 'v \<Rightarrow> 'v \<Rightarrow> 's \<Rightarrow> 's" where
  "dictStore C coll key value s =
     (let data = mapData C coll s; fresh = (hx_get C (stKeySemantics C s) data key = None)
      in setHashedData C coll (hx_put C (stKeySemantics C s) data key value) (hashedSize C coll s + (if fresh then 1 else 0)) s)"

definition dictRemove :: "('v, 's, 'e, 'm) collections \<Rightarrow> 'v \<Rightarrow> 'v \<Rightarrow> ('s, 'e, 'v option) run" where
  "dictRemove C coll key s =
     (let data = mapData C coll s
      in case hx_get C (stKeySemantics C s) data key of
           None \<Rightarrow> (Inr None, s)
         | Some v \<Rightarrow> (Inr (Some v), setHashedData C coll (hx_remove C (stKeySemantics C s) data key) (hashedSize C coll s - 1) s))"

definition prim_Dict_at :: "('v, 's, 'e, 'm) collections \<Rightarrow> 'v \<Rightarrow> 'v list \<Rightarrow> ('s, 'e, 'v) run" where
  "prim_Dict_at C r a = arg1 ''at: expects 1 arg (key)'' a (\<lambda>k. andThen (reads (dictLookup C r k)) (\<lambda>v.
     case v of None \<Rightarrow> throw (Classed_error ''KeyNotFound'' ''Dictionary>>at: key not found'') | Some v \<Rightarrow> ret v))"

definition prim_Dict_atIfAbsent :: "('v, 's, 'e, 'm) collections \<Rightarrow> 'v \<Rightarrow> 'v list \<Rightarrow> ('s, 'e, 'v) run" where
  "prim_Dict_atIfAbsent C r a = arg2 ''at:ifAbsent: expects 2 args (key, block)'' a (\<lambda>k block.
     andThen (reads (dictLookup C r k)) (\<lambda>v. case v of None \<Rightarrow> invokeBlock C block [] | Some v \<Rightarrow> ret v))"

definition prim_Dict_atIfAbsentPut :: "('v, 's, 'e, 'm) collections \<Rightarrow> 'v \<Rightarrow> 'v list \<Rightarrow> ('s, 'e, 'v) run" where
  "prim_Dict_atIfAbsentPut C r a = arg2 ''at:ifAbsentPut: expects 2 args (key, block)'' a (\<lambda>k block.
     andThen (reads (dictLookup C r k)) (\<lambda>v.
       case v of Some v \<Rightarrow> ret v
       | None \<Rightarrow> andThen (invokeBlock C block []) (\<lambda>fresh. update (dictStore C r k fresh) fresh)))"

definition prim_Dict_atPut :: "('v, 's, 'e, 'm) collections \<Rightarrow> 'v \<Rightarrow> 'v list \<Rightarrow> ('s, 'e, 'v) run" where
  "prim_Dict_atPut C r a = arg2 ''at:put: expects 2 args (key, value)'' a (\<lambda>k v. update (dictStore C r k v) v)"

definition prim_Dict_removeKey :: "('v, 's, 'e, 'm) collections \<Rightarrow> 'v \<Rightarrow> 'v list \<Rightarrow> ('s, 'e, 'v) run" where
  "prim_Dict_removeKey C r a = arg1 ''removeKey: expects 1 arg (key)'' a (\<lambda>k. andThen (dictRemove C r k) (\<lambda>v.
     case v of None \<Rightarrow> throw (Classed_error ''KeyNotFound'' ''Dictionary>>removeKey: key not found'') | Some v \<Rightarrow> ret v))"

definition prim_Dict_removeKeyIfAbsent :: "('v, 's, 'e, 'm) collections \<Rightarrow> 'v \<Rightarrow> 'v list \<Rightarrow> ('s, 'e, 'v) run" where
  "prim_Dict_removeKeyIfAbsent C r a = arg2 ''removeKey:ifAbsent: expects 2 args (key, block)'' a (\<lambda>k block.
     andThen (dictRemove C r k) (\<lambda>v. case v of None \<Rightarrow> invokeBlock C block [] | Some v \<Rightarrow> ret v))"

definition prim_Dict_includesKey :: "('v, 's, 'e, 'm) collections \<Rightarrow> 'v \<Rightarrow> 'v list \<Rightarrow> ('s, 'e, 'v) run" where
  "prim_Dict_includesKey C r a = arg1 ''includesKey: expects 1 arg (key)'' a (\<lambda>k.
     reads (\<lambda>s. bool_obj C (dictLookup C r k s \<noteq> None)))"

definition prim_Dict_includes :: "('v, 's, 'e, 'm) collections \<Rightarrow> 'v \<Rightarrow> 'v list \<Rightarrow> ('s, 'e, 'v) run" where
  "prim_Dict_includes C r a = arg1 ''includes: expects 1 arg (value)'' a (\<lambda>x.
     andThen (forEachElement C r (\<lambda>v hit. ret (if list_equal C v x then (False, True) else (True, hit))) False) (\<lambda>hit.
     ret (bool_obj C hit)))"

definition prim_Dict_size :: "('v, 's, 'e, 'm) collections \<Rightarrow> 'v \<Rightarrow> 'v list \<Rightarrow> ('s, 'e, 'v) run" where
  "prim_Dict_size C r a = reads (\<lambda>s. px_fromLong C (hashedSize C r s))"

definition prim_Dict_isEmpty :: "('v, 's, 'e, 'm) collections \<Rightarrow> 'v \<Rightarrow> 'v list \<Rightarrow> ('s, 'e, 'v) run" where
  "prim_Dict_isEmpty C r a = reads (\<lambda>s. bool_obj C (hashedSize C r s = 0))"

definition prim_Dict_notEmpty :: "('v, 's, 'e, 'm) collections \<Rightarrow> 'v \<Rightarrow> 'v list \<Rightarrow> ('s, 'e, 'v) run" where
  "prim_Dict_notEmpty C r a = reads (\<lambda>s. bool_obj C (hashedSize C r s \<noteq> 0))"

definition dictForEachEntry :: "('v, 's, 'e, 'm) collections \<Rightarrow> 'v \<Rightarrow> ('v \<times> 'v \<Rightarrow> 'a \<Rightarrow> ('s, 'e, bool \<times> 'a) run) \<Rightarrow> 'a \<Rightarrow> ('s, 'e, 'a) run" where
  "dictForEachEntry C r f acc = andThen (reads (hashedEntries C r)) (\<lambda>entries. walk f entries acc)"

definition for_entries :: "('v, 's, 'e, 'm) collections \<Rightarrow> 'v \<Rightarrow> ('v \<times> 'v \<Rightarrow> ('s, 'e, 'v) run) \<Rightarrow> ('s, 'e, 'v) run" where
  "for_entries C r f = andThen (dictForEachEntry C r (\<lambda>kv _. andThen (f kv) (\<lambda>_. ret (True, ()))) ()) (\<lambda>_. ret r)"

definition prim_Dict_keysDo :: "('v, 's, 'e, 'm) collections \<Rightarrow> 'v \<Rightarrow> 'v list \<Rightarrow> ('s, 'e, 'v) run" where
  "prim_Dict_keysDo C r a = arg1 ''keysDo: expects 1 arg (block)'' a (\<lambda>block. for_entries C r (\<lambda>(k, v). invokeBlock C block [k]))"

definition prim_Dict_valuesDo :: "('v, 's, 'e, 'm) collections \<Rightarrow> 'v \<Rightarrow> 'v list \<Rightarrow> ('s, 'e, 'v) run" where
  "prim_Dict_valuesDo C r a = arg1 ''valuesDo: expects 1 arg (block)'' a (\<lambda>block. for_entries C r (\<lambda>(k, v). invokeBlock C block [v]))"

definition prim_Dict_do :: "('v, 's, 'e, 'm) collections \<Rightarrow> 'v \<Rightarrow> 'v list \<Rightarrow> ('s, 'e, 'v) run" where
  "prim_Dict_do = prim_Dict_valuesDo"

definition prim_Dict_keysAndValuesDo :: "('v, 's, 'e, 'm) collections \<Rightarrow> 'v \<Rightarrow> 'v list \<Rightarrow> ('s, 'e, 'v) run" where
  "prim_Dict_keysAndValuesDo C r a = arg1 ''keysAndValuesDo: expects 1 arg (block)'' a (\<lambda>block.
     for_entries C r (\<lambda>(k, v). invokeBlock C block [k, v]))"

definition prim_Dict_associationsDo :: "('v, 's, 'e, 'm) collections \<Rightarrow> 'v \<Rightarrow> 'v list \<Rightarrow> ('s, 'e, 'v) run" where
  "prim_Dict_associationsDo C r a = arg1 ''associationsDo: expects 1 arg (block)'' a (\<lambda>block.
     for_entries C r (\<lambda>(k, v). andThen (makeAssociation C k v) (\<lambda>x. invokeBlock C block [x])))"

definition prim_Dict_keys :: "('v, 's, 'e, 'm) collections \<Rightarrow> 'v \<Rightarrow> 'v list \<Rightarrow> ('s, 'e, 'v) run" where
  "prim_Dict_keys C r a =
     andThen (dictForEachEntry C r (\<lambda>(k, v) (m, n) s. (Inr (True, hx_put C (stKeySemantics C s) m k k, n + 1), s)) (hx_empty C, 0)) (\<lambda>(m, n).
     makeSetInstance C m n)"

definition prim_Dict_values :: "('v, 's, 'e, 'm) collections \<Rightarrow> 'v \<Rightarrow> 'v list \<Rightarrow> ('s, 'e, 'v) run" where
  "prim_Dict_values C r a = andThen (dictForEachEntry C r (\<lambda>(k, v) out. ret (True, out @ [v])) []) (makeArrayInstance C)"

definition prim_Dict_associations :: "('v, 's, 'e, 'm) collections \<Rightarrow> 'v \<Rightarrow> 'v list \<Rightarrow> ('s, 'e, 'v) run" where
  "prim_Dict_associations C r a =
     andThen (dictForEachEntry C r (\<lambda>(k, v) out. andThen (makeAssociation C k v) (\<lambda>x. ret (True, out @ [x]))) []) (makeArrayInstance C)"

definition prim_Dict_classNew :: "('v, 's, 'e, 'm) collections \<Rightarrow> 'v \<Rightarrow> 'v list \<Rightarrow> ('s, 'e, 'v) run" where
  "prim_Dict_classNew C cls a = andThen (makeDictInstance C (hx_empty C) 0) (instantiateAs C kClassName cls (cx_dictionaryProto C))"

end
