(* ===== verification/DerivedPrims.thy ===== *)
theory DerivedPrims
  imports HashedPrims
begin

text \<open>
  The last part of src/primitives/collection_prims.cpp: the protocol every collection
  inherits, Interval, the counting loops of Number, and the table that binds each
  selector to its primitive.
\<close>

section \<open>The protocol of Collection\<close>

definition prim_Collection_species :: "('v, 's, 'e, 'm) collections \<Rightarrow> 'v \<Rightarrow> 'v list \<Rightarrow> ('s, 'e, 'v) run" where
  "prim_Collection_species C r a = reads (speciesProtoOf C r)"

definition prim_Collection_size :: "('v, 's, 'e, 'm) collections \<Rightarrow> 'v \<Rightarrow> 'v list \<Rightarrow> ('s, 'e, 'v) run" where
  "prim_Collection_size C r a = andThen (forEachElement C r (\<lambda>e n. ret (True, n + 1)) 0) (\<lambda>n. ret (px_fromLong C n))"

definition no_element :: "('v, 's, 'e, 'm) collections \<Rightarrow> 'v \<Rightarrow> ('s, 'e, bool) run" where
  "no_element C r = forEachElement C r (\<lambda>e empty. ret (False, False)) True"

definition prim_Collection_isEmpty :: "('v, 's, 'e, 'm) collections \<Rightarrow> 'v \<Rightarrow> 'v list \<Rightarrow> ('s, 'e, 'v) run" where
  "prim_Collection_isEmpty C r a = andThen (no_element C r) (\<lambda>empty. ret (bool_obj C empty))"

definition prim_Collection_notEmpty :: "('v, 's, 'e, 'm) collections \<Rightarrow> 'v \<Rightarrow> 'v list \<Rightarrow> ('s, 'e, 'v) run" where
  "prim_Collection_notEmpty C r a = andThen (no_element C r) (\<lambda>empty. ret (bool_obj C (\<not> empty)))"

definition prim_Collection_collect :: "('v, 's, 'e, 'm) collections \<Rightarrow> 'v \<Rightarrow> 'v list \<Rightarrow> ('s, 'e, 'v) run" where
  "prim_Collection_collect C r a = arg1 ''collect: expects 1 arg (block)'' a (\<lambda>block.
     andThen (forEachElement C r (\<lambda>e out. andThen (invokeBlock C block [e]) (\<lambda>x. ret (True, out @ [x]))) []) (of_species C r))"

definition selectReject :: "('v, 's, 'e, 'm) collections \<Rightarrow> 'v \<Rightarrow> 'v list \<Rightarrow> bool \<Rightarrow> string \<Rightarrow> ('s, 'e, 'v) run" where
  "selectReject C r a keepWhenTrue sel = arg1 (sel @ '' expects 1 arg (block)'') a (\<lambda>block.
     andThen (forEachElement C r (\<lambda>e out. andThen (invokeBlock C block [e]) (\<lambda>keep.
         ret (True, if (keep = px_true C) = keepWhenTrue then out @ [e] else out))) []) (of_species C r))"

definition prim_Collection_select :: "('v, 's, 'e, 'm) collections \<Rightarrow> 'v \<Rightarrow> 'v list \<Rightarrow> ('s, 'e, 'v) run" where
  "prim_Collection_select C r a = selectReject C r a True ''select:''"

definition prim_Collection_reject :: "('v, 's, 'e, 'm) collections \<Rightarrow> 'v \<Rightarrow> 'v list \<Rightarrow> ('s, 'e, 'v) run" where
  "prim_Collection_reject C r a = selectReject C r a False ''reject:''"

text \<open>The first element a block answers true for.\<close>

definition first_such :: "('v, 's, 'e, 'm) collections \<Rightarrow> 'v \<Rightarrow> 'v \<Rightarrow> ('s, 'e, 'v option) run" where
  "first_such C r block = forEachElement C r (\<lambda>e found. andThen (invokeBlock C block [e]) (\<lambda>x.
     ret (if x = px_true C then (False, Some e) else (True, found)))) None"

definition prim_Collection_detect :: "('v, 's, 'e, 'm) collections \<Rightarrow> 'v \<Rightarrow> 'v list \<Rightarrow> ('s, 'e, 'v) run" where
  "prim_Collection_detect C r a = arg1 ''detect: expects 1 arg (block)'' a (\<lambda>block.
     andThen (first_such C r block) (\<lambda>found.
       case found of None \<Rightarrow> throw (Classed_error ''NotFound'' ''detect: no element satisfies the block'') | Some e \<Rightarrow> ret e))"

definition prim_Collection_detectIfNone :: "('v, 's, 'e, 'm) collections \<Rightarrow> 'v \<Rightarrow> 'v list \<Rightarrow> ('s, 'e, 'v) run" where
  "prim_Collection_detectIfNone C r a = arg2 ''detect:ifNone: expects 2 args (block, none-block)'' a (\<lambda>block noneBlock.
     andThen (first_such C r block) (\<lambda>found. case found of None \<Rightarrow> invokeBlock C noneBlock [] | Some e \<Rightarrow> ret e))"

definition prim_Collection_injectInto :: "('v, 's, 'e, 'm) collections \<Rightarrow> 'v \<Rightarrow> 'v list \<Rightarrow> ('s, 'e, 'v) run" where
  "prim_Collection_injectInto C r a = arg2 ''inject:into: expects 2 args (start, block)'' a (\<lambda>start block.
     forEachElement C r (\<lambda>e acc. andThen (invokeBlock C block [acc, e]) (\<lambda>next. ret (True, next))) start)"

text \<open>
  \<open>std::stable_sort\<close>.  Which pairs it compares is not specified; here each element
  is inserted behind the last one it may not precede, over the reversed prefix.
\<close>

primrec insert_back :: "('v \<Rightarrow> 'v \<Rightarrow> ('s, 'e, bool) run) \<Rightarrow> 'v \<Rightarrow> 'v list \<Rightarrow> ('s, 'e, 'v list) run" where
  "insert_back lt x [] = ret [x]"
| "insert_back lt x (y # ys) =
     andThen (lt x y) (\<lambda>b. if b then andThen (insert_back lt x ys) (\<lambda>r. ret (y # r)) else ret (x # y # ys))"

definition stable_sort :: "('v \<Rightarrow> 'v \<Rightarrow> ('s, 'e, bool) run) \<Rightarrow> 'v list \<Rightarrow> ('s, 'e, 'v list) run" where
  "stable_sort lt xs =
     andThen (walk (\<lambda>x acc. andThen (insert_back lt x acc) (\<lambda>acc'. ret (True, acc'))) xs []) (\<lambda>r. ret (rev r))"

definition sendDynamicForSort :: "('v, 's, 'e, 'm) collections \<Rightarrow> 'v \<Rightarrow> 'v \<Rightarrow> ('s, 'e, 'v option) run" where
  "sendDynamicForSort C recv arg = andThen (px_send C recv ''<='' [arg]) (\<lambda>r.
     case r of None \<Rightarrow> fail ''sort: elements do not understand <='' | Some x \<Rightarrow> ret x)"

definition mayPrecede :: "('v, 's, 'e, 'm) collections \<Rightarrow> 'v option \<Rightarrow> 'v \<Rightarrow> 'v \<Rightarrow> ('s, 'e, bool) run" where
  "mayPrecede C block x y =
     (case block of
        Some b \<Rightarrow> andThen (invokeBlock C b [x, y]) (\<lambda>r. ret (r = px_true C))
      | None \<Rightarrow> andThen (sendDynamicForSort C x y) (\<lambda>r. ret (r = Some (px_true C))))"

definition prim_Seq_sort :: "('v, 's, 'e, 'm) collections \<Rightarrow> 'v \<Rightarrow> 'v list \<Rightarrow> ('s, 'e, 'v) run" where
  "prim_Seq_sort C r a =
     andThen (reads (isListBacked C r)) (\<lambda>ok.
     if \<not> ok then fail ''sort: needs an Array or an OrderedCollection (use sorted)''
     else andThen (reads (arrayData C r)) (\<lambda>elems.
          let block = (case a of b # _ \<Rightarrow> present C (Some b) | [] \<Rightarrow> None)
          in andThen (stable_sort (\<lambda>x y. andThen (mayPrecede C block y x) (\<lambda>b. ret (\<not> b))) elems) (\<lambda>sorted.
             update (setData C r sorted) r)))"

definition prim_Collection_doSeparatedBy :: "('v, 's, 'e, 'm) collections \<Rightarrow> 'v \<Rightarrow> 'v list \<Rightarrow> ('s, 'e, 'v) run" where
  "prim_Collection_doSeparatedBy C r a = arg2 ''do:separatedBy: expects 2 args (block, sep-block)'' a (\<lambda>block sepBlock.
     andThen (forEachElement C r (\<lambda>e first. andThen (if first then ret (px_none C) else invokeBlock C sepBlock []) (\<lambda>_.
       andThen (invokeBlock C block [e]) (\<lambda>_. ret (True, False)))) True) (\<lambda>_. ret r))"

definition prim_Collection_count :: "('v, 's, 'e, 'm) collections \<Rightarrow> 'v \<Rightarrow> 'v list \<Rightarrow> ('s, 'e, 'v) run" where
  "prim_Collection_count C r a = arg1 ''count: expects 1 arg (block)'' a (\<lambda>block.
     andThen (forEachElement C r (\<lambda>e n. andThen (invokeBlock C block [e]) (\<lambda>x. ret (True, if x = px_true C then n + 1 else n))) 0) (\<lambda>n.
     ret (px_fromLong C n)))"

definition prim_Collection_anySatisfy :: "('v, 's, 'e, 'm) collections \<Rightarrow> 'v \<Rightarrow> 'v list \<Rightarrow> ('s, 'e, 'v) run" where
  "prim_Collection_anySatisfy C r a = arg1 ''anySatisfy: expects 1 arg (block)'' a (\<lambda>block.
     andThen (forEachElement C r (\<lambda>e any. andThen (invokeBlock C block [e]) (\<lambda>x.
       ret (if x = px_true C then (False, True) else (True, any)))) False) (\<lambda>any. ret (bool_obj C any)))"

definition prim_Collection_allSatisfy :: "('v, 's, 'e, 'm) collections \<Rightarrow> 'v \<Rightarrow> 'v list \<Rightarrow> ('s, 'e, 'v) run" where
  "prim_Collection_allSatisfy C r a = arg1 ''allSatisfy: expects 1 arg (block)'' a (\<lambda>block.
     andThen (forEachElement C r (\<lambda>e all. andThen (invokeBlock C block [e]) (\<lambda>x.
       ret (if x \<noteq> px_true C then (False, False) else (True, all)))) True) (\<lambda>all. ret (bool_obj C all)))"

definition prim_Collection_concat :: "('v, 's, 'e, 'm) collections \<Rightarrow> 'v \<Rightarrow> 'v list \<Rightarrow> ('s, 'e, 'v) run" where
  "prim_Collection_concat C r a = arg1 '', expects 1 arg (collection)'' a (\<lambda>x.
     andThen (gather C r []) (\<lambda>out. andThen (gather C x out) (of_species C r)))"

definition prim_Collection_asArray :: "('v, 's, 'e, 'm) collections \<Rightarrow> 'v \<Rightarrow> 'v list \<Rightarrow> ('s, 'e, 'v) run" where
  "prim_Collection_asArray C r a = andThen (gather C r []) (makeArrayInstance C)"

section \<open>Interval\<close>

definition prim_Interval_size :: "('v, 's, 'e, 'm) collections \<Rightarrow> 'v \<Rightarrow> 'v list \<Rightarrow> ('s, 'e, 'v) run" where
  "prim_Interval_size C r a = andThen (interval_size C r) (\<lambda>n. ret (px_fromLong C n))"

definition prim_Interval_isEmpty :: "('v, 's, 'e, 'm) collections \<Rightarrow> 'v \<Rightarrow> 'v list \<Rightarrow> ('s, 'e, 'v) run" where
  "prim_Interval_isEmpty C r a = andThen (interval_size C r) (\<lambda>n. ret (bool_obj C (n = 0)))"

definition prim_Interval_notEmpty :: "('v, 's, 'e, 'm) collections \<Rightarrow> 'v \<Rightarrow> 'v list \<Rightarrow> ('s, 'e, 'v) run" where
  "prim_Interval_notEmpty C r a = andThen (interval_size C r) (\<lambda>n. ret (bool_obj C (n \<noteq> 0)))"

text \<open>Element number \<open>k\<close> from 0, in \<open>long long\<close>.\<close>

definition nth_of :: "int \<Rightarrow> int \<Rightarrow> int \<Rightarrow> ('s, 'e, int) run" where
  "nth_of start step k = andThen (ll (k * step)) (\<lambda>d. ll (start + d))"

definition prim_Interval_at :: "('v, 's, 'e, 'm) collections \<Rightarrow> 'v \<Rightarrow> 'v list \<Rightarrow> ('s, 'e, 'v) run" where
  "prim_Interval_at C r a = arg1 ''at: expects 1 arg (index)'' a (\<lambda>i.
     andThen (reads (interval_bounds C r)) (\<lambda>(start, stop, step).
     andThen (intervalSize start stop step) (\<lambda>n.
     let idx1 = px_long C i
     in if idx1 < 1 \<or> idx1 > n then out_of_range ''Interval>>at:'' idx1 n
        else andThen (nth_of start step (idx1 - 1)) (\<lambda>x. ret (px_fromLong C x)))))"

definition prim_Interval_first :: "('v, 's, 'e, 'm) collections \<Rightarrow> 'v \<Rightarrow> 'v list \<Rightarrow> ('s, 'e, 'v) run" where
  "prim_Interval_first C r a =
     andThen (reads (interval_bounds C r)) (\<lambda>(start, stop, step).
     andThen (intervalSize start stop step) (\<lambda>n.
     if n = 0 then fail ''Interval>>first: interval is empty'' else ret (px_fromLong C start)))"

definition prim_Interval_last :: "('v, 's, 'e, 'm) collections \<Rightarrow> 'v \<Rightarrow> 'v list \<Rightarrow> ('s, 'e, 'v) run" where
  "prim_Interval_last C r a =
     andThen (reads (interval_bounds C r)) (\<lambda>(start, stop, step).
     andThen (intervalSize start stop step) (\<lambda>n.
     if n = 0 then fail ''Interval>>last: interval is empty''
     else andThen (nth_of start step (n - 1)) (\<lambda>x. ret (px_fromLong C x))))"

definition prim_Interval_do :: "('v, 's, 'e, 'm) collections \<Rightarrow> 'v \<Rightarrow> 'v list \<Rightarrow> ('s, 'e, 'v) run" where
  "prim_Interval_do C r a = arg1 ''do: expects 1 arg (block)'' a (run_each C r)"

section \<open>The loops of Number\<close>

definition prim_Number_to :: "('v, 's, 'e, 'm) collections \<Rightarrow> 'v \<Rightarrow> 'v list \<Rightarrow> ('s, 'e, 'v) run" where
  "prim_Number_to C r a = arg1 ''to: expects 1 arg (stop)'' a (\<lambda>stop. makeIntervalInstance C (px_long C r) (px_long C stop) 1)"

definition prim_Number_toBy :: "('v, 's, 'e, 'm) collections \<Rightarrow> 'v \<Rightarrow> 'v list \<Rightarrow> ('s, 'e, 'v) run" where
  "prim_Number_toBy C r a = arg2 ''to:by: expects 2 args (stop, step)'' a (\<lambda>stop step.
     makeIntervalInstance C (px_long C r) (px_long C stop) (px_long C step))"

text \<open>
  \<open>for (i = start; i is within stop; i += step)\<close>.  Every round moves \<open>i\<close> by at least
  one toward \<open>stop\<close>, so the rounds given, one more than the distance, are enough.
\<close>

primrec for_loop :: "('v, 's, 'e, 'm) collections \<Rightarrow> 'v \<Rightarrow> (int \<Rightarrow> bool) \<Rightarrow> int \<Rightarrow> nat \<Rightarrow> int \<Rightarrow> ('s, 'e, unit) run" where
  "for_loop C block within step 0 i = ret ()"
| "for_loop C block within step (Suc n) i =
     (if within i then andThen (invokeBlock C block [px_fromLong C i]) (\<lambda>_. andThen (ll (i + step)) (for_loop C block within step n))
      else ret ())"

definition prim_Number_toDo :: "('v, 's, 'e, 'm) collections \<Rightarrow> 'v \<Rightarrow> 'v list \<Rightarrow> ('s, 'e, 'v) run" where
  "prim_Number_toDo C r a = arg2 ''to:do: expects 2 args (stop, block)'' a (\<lambda>x block.
     let start = px_long C r; stop = px_long C x
     in andThen (for_loop C block (\<lambda>i. i \<le> stop) 1 (nat \<bar>stop - start\<bar> + 1) start) (\<lambda>_. ret r))"

definition prim_Number_toByDo :: "('v, 's, 'e, 'm) collections \<Rightarrow> 'v \<Rightarrow> 'v list \<Rightarrow> ('s, 'e, 'v) run" where
  "prim_Number_toByDo C r a =
     (case a of
        [x, y, block] \<Rightarrow>
          (let start = px_long C r; stop = px_long C x; step = px_long C y; rounds = nat \<bar>stop - start\<bar> + 1
           in if step = 0 then fail ''to:by:do: step must be non-zero''
              else andThen (for_loop C block (if step > 0 then (\<lambda>i. i \<le> stop) else (\<lambda>i. i \<ge> stop)) step rounds start) (\<lambda>_. ret r))
      | _ \<Rightarrow> fail ''to:by:do: expects 3 args (stop, step, block)'')"

section \<open>The table\<close>

text \<open>Which primitive \<open>installCollectionPrimitives\<close> binds to a selector of a prototype.\<close>

definition installCollectionPrimitives :: "(string \<times> string \<times> (('v, 's, 'e, 'm) collections \<Rightarrow> 'v \<Rightarrow> 'v list \<Rightarrow> ('s, 'e, 'v) run)) list" where
  "installCollectionPrimitives =
     [(''arrayProto'', ''size'', prim_Array_size), (''arrayProto'', ''isEmpty'', prim_Array_isEmpty),
      (''arrayProto'', ''notEmpty'', prim_Array_notEmpty), (''arrayProto'', ''at:'', prim_Array_at),
      (''arrayProto'', ''at:put:'', prim_Array_atPut), (''arrayProto'', ''do:'', prim_Array_do),
      (''arrayProto'', ''new:'', prim_Array_classNew), (''arrayProto'', ''withAll:'', prim_Array_classWithAll),
      (''arrayProto'', ''with:'', prim_Array_classWith), (''arrayProto'', ''with:with:'', prim_Array_classWith),
      (''arrayProto'', ''with:with:with:'', prim_Array_classWith), (''arrayProto'', ''with:with:with:with:'', prim_Array_classWith),
      (''orderedCollectionProto'', ''size'', prim_OC_size), (''orderedCollectionProto'', ''isEmpty'', prim_OC_isEmpty),
      (''orderedCollectionProto'', ''notEmpty'', prim_OC_notEmpty), (''orderedCollectionProto'', ''at:'', prim_OC_at),
      (''orderedCollectionProto'', ''at:put:'', prim_OC_atPut), (''orderedCollectionProto'', ''do:'', prim_OC_do),
      (''orderedCollectionProto'', ''add:'', prim_OC_add), (''orderedCollectionProto'', ''addLast:'', prim_OC_add),
      (''orderedCollectionProto'', ''addFirst:'', prim_OC_addFirst), (''orderedCollectionProto'', ''addAll:'', prim_OC_addAll),
      (''orderedCollectionProto'', ''removeFirst'', prim_OC_removeFirst), (''orderedCollectionProto'', ''removeLast'', prim_OC_removeLast),
      (''orderedCollectionProto'', ''remove:'', prim_OC_remove), (''orderedCollectionProto'', ''remove:ifAbsent:'', prim_OC_removeIfAbsent),
      (''orderedCollectionProto'', ''first'', prim_OC_first), (''orderedCollectionProto'', ''last'', prim_OC_last),
      (''orderedCollectionProto'', ''new'', prim_OC_classNew), (''orderedCollectionProto'', ''withAll:'', prim_OC_classWithAll),
      (''intervalProto'', ''size'', prim_Interval_size), (''intervalProto'', ''isEmpty'', prim_Interval_isEmpty),
      (''intervalProto'', ''notEmpty'', prim_Interval_notEmpty), (''intervalProto'', ''at:'', prim_Interval_at),
      (''intervalProto'', ''first'', prim_Interval_first), (''intervalProto'', ''last'', prim_Interval_last),
      (''intervalProto'', ''do:'', prim_Interval_do), (''numberProto'', ''to:'', prim_Number_to),
      (''numberProto'', ''to:by:'', prim_Number_toBy), (''numberProto'', ''to:do:'', prim_Number_toDo),
      (''numberProto'', ''to:by:do:'', prim_Number_toByDo), (''setProto'', ''add:'', prim_Set_add),
      (''setProto'', ''remove:'', prim_Set_remove), (''setProto'', ''remove:ifAbsent:'', prim_Set_removeIfAbsent),
      (''setProto'', ''includes:'', prim_Set_includes), (''setProto'', ''size'', prim_Set_size),
      (''setProto'', ''isEmpty'', prim_Set_isEmpty), (''setProto'', ''notEmpty'', prim_Set_notEmpty),
      (''setProto'', ''do:'', prim_Set_do), (''setProto'', ''new'', prim_Set_classNew),
      (''setProto'', ''withAll:'', prim_Set_classWithAll), (''bagProto'', ''add:'', prim_Bag_add),
      (''bagProto'', ''add:withOccurrences:'', prim_Bag_addWithOccurrences), (''bagProto'', ''remove:'', prim_Bag_remove),
      (''bagProto'', ''remove:ifAbsent:'', prim_Bag_removeIfAbsent), (''bagProto'', ''includes:'', prim_Bag_includes),
      (''bagProto'', ''occurrencesOf:'', prim_Bag_occurrencesOf), (''bagProto'', ''size'', prim_Bag_size),
      (''bagProto'', ''isEmpty'', prim_Bag_isEmpty), (''bagProto'', ''notEmpty'', prim_Bag_notEmpty),
      (''bagProto'', ''do:'', prim_Bag_do), (''bagProto'', ''new'', prim_Bag_classNew),
      (''bagProto'', ''withAll:'', prim_Bag_classWithAll), (''dictionaryProto'', ''at:'', prim_Dict_at),
      (''dictionaryProto'', ''at:ifAbsent:'', prim_Dict_atIfAbsent), (''dictionaryProto'', ''at:ifAbsentPut:'', prim_Dict_atIfAbsentPut),
      (''dictionaryProto'', ''at:put:'', prim_Dict_atPut), (''dictionaryProto'', ''removeKey:'', prim_Dict_removeKey),
      (''dictionaryProto'', ''removeKey:ifAbsent:'', prim_Dict_removeKeyIfAbsent), (''dictionaryProto'', ''includesKey:'', prim_Dict_includesKey),
      (''dictionaryProto'', ''includes:'', prim_Dict_includes), (''dictionaryProto'', ''size'', prim_Dict_size),
      (''dictionaryProto'', ''isEmpty'', prim_Dict_isEmpty), (''dictionaryProto'', ''notEmpty'', prim_Dict_notEmpty),
      (''dictionaryProto'', ''do:'', prim_Dict_do), (''dictionaryProto'', ''keysDo:'', prim_Dict_keysDo),
      (''dictionaryProto'', ''valuesDo:'', prim_Dict_valuesDo), (''dictionaryProto'', ''keysAndValuesDo:'', prim_Dict_keysAndValuesDo),
      (''dictionaryProto'', ''associationsDo:'', prim_Dict_associationsDo), (''dictionaryProto'', ''keys'', prim_Dict_keys),
      (''dictionaryProto'', ''values'', prim_Dict_values), (''dictionaryProto'', ''associations'', prim_Dict_associations),
      (''dictionaryProto'', ''new'', prim_Dict_classNew), (''associationProto'', ''key'', prim_Assoc_key),
      (''associationProto'', ''value'', prim_Assoc_value), (''associationProto'', ''key:'', prim_Assoc_keyPut),
      (''associationProto'', ''value:'', prim_Assoc_valuePut), (''objectProto'', ''->'', prim_Object_arrow),
      (''collectionProto'', ''species'', prim_Collection_species), (''collectionProto'', ''size'', prim_Collection_size),
      (''collectionProto'', ''isEmpty'', prim_Collection_isEmpty), (''collectionProto'', ''notEmpty'', prim_Collection_notEmpty),
      (''collectionProto'', ''collect:'', prim_Collection_collect), (''collectionProto'', ''select:'', prim_Collection_select),
      (''collectionProto'', ''reject:'', prim_Collection_reject), (''collectionProto'', ''detect:'', prim_Collection_detect),
      (''collectionProto'', ''detect:ifNone:'', prim_Collection_detectIfNone), (''collectionProto'', ''inject:into:'', prim_Collection_injectInto),
      (''collectionProto'', ''do:separatedBy:'', prim_Collection_doSeparatedBy), (''collectionProto'', ''count:'', prim_Collection_count),
      (''collectionProto'', ''anySatisfy:'', prim_Collection_anySatisfy), (''collectionProto'', ''allSatisfy:'', prim_Collection_allSatisfy),
      (''collectionProto'', '','', prim_Collection_concat), (''sequenceableCollectionProto'', ''sort:'', prim_Seq_sort),
      (''sequenceableCollectionProto'', ''sort'', prim_Seq_sort), (''collectionProto'', ''asArray'', prim_Collection_asArray)]"

end
