(* ===== verification/CollectionDemo.thy ===== *)
theory CollectionDemo
  imports DerivedPrims
begin

text \<open>
  A small heap of objects that gives the parameters of the primitives concrete
  values: objects are numbers, the first eight the prototypes; the hashed helper is
  an association list; every block answers whether its first argument is at most its
  second, or odd.
\<close>

datatype dv = DNil | DTrue | DFalse | DInt int | DText string | DObj nat | DList "dv list" | DMap "(dv \<times> dv) list"

record dheap =
  d_next :: nat
  d_attr :: "nat \<Rightarrow> string \<Rightarrow> dv option"
  d_parent :: "nat \<Rightarrow> nat"

definition d_lookup :: "dv \<Rightarrow> string \<Rightarrow> dheap \<Rightarrow> dv option" where
  "d_lookup v k s = (case v of DObj o' \<Rightarrow> d_attr s o' k | _ \<Rightarrow> None)"

definition d_store :: "dv \<Rightarrow> string \<Rightarrow> dv \<Rightarrow> dheap \<Rightarrow> dheap" where
  "d_store v k x s = (case v of DObj o' \<Rightarrow> s\<lparr>d_attr := (d_attr s)(o' := (d_attr s o')(k \<mapsto> x))\<rparr> | _ \<Rightarrow> s)"

definition d_new :: "dv \<Rightarrow> dheap \<Rightarrow> dv \<times> dheap" where
  "d_new v s =
     (DObj (d_next s),
      s\<lparr>d_next := d_next s + 1, d_attr := (d_attr s)(d_next s := Map.empty),
        d_parent := (d_parent s)(d_next s := (case v of DObj p \<Rightarrow> p | _ \<Rightarrow> 0))\<rparr>)"

fun d_key :: "dv \<Rightarrow> int" where
  "d_key (DInt i) = i"
| "d_key v = 0"

fun d_block :: "dv list \<Rightarrow> dv" where
  "d_block [x] = (if odd (d_key x) then DTrue else DFalse)"
| "d_block [x, y] = (if d_key x \<le> d_key y then DTrue else DFalse)"
| "d_block args = DNil"

definition entry_for :: "'v key_semantics \<Rightarrow> ('v \<times> 'v) list \<Rightarrow> 'v \<Rightarrow> ('v \<times> 'v) option" where
  "entry_for K m k = find (\<lambda>(k', v). ks_equals K k' k) m"

definition stored :: "'v key_semantics \<Rightarrow> ('v \<times> 'v) list \<Rightarrow> 'v \<Rightarrow> 'v \<Rightarrow> ('v \<times> 'v) list" where
  "stored K m k v =
     (if entry_for K m k = None then m @ [(k, v)] else map (\<lambda>(k', v'). (k', if ks_equals K k' k then v else v')) m)"

definition removed :: "'v key_semantics \<Rightarrow> ('v \<times> 'v) list \<Rightarrow> 'v \<Rightarrow> ('v \<times> 'v) list" where
  "removed K m k = filter (\<lambda>(k', v). \<not> ks_equals K k' k) m"

definition d_entries :: "(dv \<times> dv) list \<Rightarrow> (dv \<times> dv) list" where
  "d_entries m = map (\<lambda>k. (k, the (map_of m k))) (remdups (map fst m))"

definition demo :: "(dv, dheap, unit, (dv \<times> dv) list) collections" where
  "demo = \<lparr>px_none = DNil, px_true = DTrue, px_false = DFalse, px_get = d_lookup, px_own = d_lookup, px_set = d_store,
     px_attrs = (\<lambda>_ _. []), px_child = d_new,
     px_chain = (\<lambda>v s. case v of DObj o' \<Rightarrow> [v, DObj (d_parent s o'), DObj 0] | _ \<Rightarrow> [v]),
     px_long = d_key, px_fromLong = DInt, px_isInteger = (\<lambda>v. case v of DInt i \<Rightarrow> True | _ \<Rightarrow> False), px_isDouble = (\<lambda>_. False),
     px_text = (\<lambda>v. case v of DText t \<Rightarrow> Some t | _ \<Rightarrow> None), px_fromText = DText, px_isCharacter = (\<lambda>_. False),
     px_list = (\<lambda>v. case v of DList l \<Rightarrow> Some l | _ \<Rightarrow> None), px_fromList = DList, px_same = (=),
     px_invoke = (\<lambda>b args s. (Inr (Some (d_block args)), s)), px_send = (\<lambda>v sel args s. (Inr None, s)),
     cx_objectProto = DObj 0, cx_arrayProto = DObj 1, cx_orderedCollectionProto = DObj 2, cx_setProto = DObj 3, cx_bagProto = DObj 4,
     cx_dictionaryProto = DObj 5, cx_intervalProto = DObj 6, cx_associationProto = DObj 7,
     cx_ask = (\<lambda>v sel args s. None), cx_value = d_key, cx_integral = (\<lambda>_. None), cx_hashText = (\<lambda>_. 0), cx_hashDouble = (\<lambda>_. 0),
     cx_numberKeyHash_half = 0, cx_symbol = (\<lambda>_. 0), cx_getHash = (\<lambda>_. 0),
     hx_map = (\<lambda>v. case v of DMap m \<Rightarrow> Some m | _ \<Rightarrow> None), hx_fromMap = DMap, hx_empty = [],
     hx_get = (\<lambda>K m k. map_option snd (entry_for K m k)), hx_put = stored, hx_remove = removed, hx_entries = d_entries\<rparr>"

lemma demo_simps [simp]:
  "px_none demo = DNil" "px_true demo = DTrue" "px_false demo = DFalse" "px_long demo = d_key" "px_fromLong demo = DInt"
  "px_get demo = d_lookup" "px_set demo = d_store" "px_child demo = d_new" "px_same demo = (=)" "cx_ask demo v sel args s = None"
  "hx_map demo (DMap m) = Some m" "hx_fromMap demo = DMap" "hx_empty demo = []"
  "hx_get demo K m k = map_option snd (entry_for K m k)" "hx_put demo = stored" "hx_remove demo = removed" "hx_entries demo = d_entries"
  by (simp_all add: demo_def)

text \<open>An Array of three numbers, an Interval from 1 to 5, and an empty Dictionary.\<close>

definition demo_heap :: dheap where
  "demo_heap = \<lparr>d_next = 11,
     d_attr = (\<lambda>o'. if o' = 8 then [''__data__'' \<mapsto> DList [DInt 3, DInt 1, DInt 2]]
                 else if o' = 9 then [''__interval_start__'' \<mapsto> DInt 1, ''__interval_stop__'' \<mapsto> DInt 5, ''__interval_step__'' \<mapsto> DInt 2]
                 else if o' = 10 then [''__data__'' \<mapsto> DMap [], ''__size__'' \<mapsto> DInt 0] else Map.empty),
     d_parent = (\<lambda>o'. if o' = 8 then 1 else if o' = 9 then 6 else if o' = 10 then 5 else 0)\<rparr>"

end
