(* ===== verification/CollectionLaws.thy ===== *)
theory CollectionLaws
  imports CollectionDemo "HOL-Library.Multiset"
begin

text \<open>
  What the iteration protocol, \<open>sort:\<close> and the counting loops compute.
\<close>

section \<open>Iteration\<close>

text \<open>The elements of a built-in collection, and when the arithmetic of an Interval stays in range.\<close>

definition within64 :: "int \<Rightarrow> int \<Rightarrow> int \<Rightarrow> bool" where
  "within64 start stop step \<longleftrightarrow>
     (\<forall>x \<in> {start, stop, step}. - (2 ^ 60) \<le> x \<and> x \<le> 2 ^ 60)"

definition count_of :: "int \<Rightarrow> int \<Rightarrow> int \<Rightarrow> nat" where
  "count_of start stop step =
     (if step = 0 then 0 else if step > 0 then nat ((stop - start) div step + 1) else nat ((start - stop) div (- step) + 1))"

definition numbers :: "int \<Rightarrow> int \<Rightarrow> int \<Rightarrow> int list" where
  "numbers start stop step = map (\<lambda>k. start + int k * step) [0..<count_of start stop step]"

definition elements :: "('v, 's, 'e, 'm) collections \<Rightarrow> 'v \<Rightarrow> 's \<Rightarrow> 'v list" where
  "elements C r s =
     (if isIntervalBacked C r s then (case interval_bounds C r s of (start, stop, step) \<Rightarrow> map (px_fromLong C) (numbers start stop step))
      else if isListBacked C r s then arrayData C r s
      else if isSetBacked C r s then map fst (hashedEntries C r s)
      else map snd (hashedEntries C r s))"

definition builtin :: "('v, 's, 'e, 'm) collections \<Rightarrow> 'v \<Rightarrow> 's \<Rightarrow> bool" where
  "builtin C r s \<longleftrightarrow>
     (if isIntervalBacked C r s then (case interval_bounds C r s of (start, stop, step) \<Rightarrow> within64 start stop step)
      else isListBacked C r s \<or> isSetBacked C r s \<or> isDictBacked C r s)"

lemma fits64_bound: "\<bar>n\<bar> \<le> 2 ^ 62 \<Longrightarrow> fits64 n"
  by (auto simp: fits64_def abs_le_iff)

lemma within64D:
  assumes "within64 start stop step"
  shows "\<bar>start\<bar> \<le> 2 ^ 60" "\<bar>stop\<bar> \<le> 2 ^ 60" "\<bar>step\<bar> \<le> 2 ^ 60"
  using assms by (auto simp: within64_def)

lemma intervalSize_count:
  assumes w: "within64 start stop step"
  shows "intervalSize start stop step s = (Inr (int (count_of start stop step)), s)"
proof -
  note b = within64D [OF w]
  have d: "\<bar>x div y + 1\<bar> \<le> 2 ^ 62" if "0 \<le> x" "x \<le> 2 ^ 61" "y > 0" for x y :: int
  proof -
    have "x div y \<le> x" "0 \<le> x div y" using that zdiv_mono2 [of x 1 y] by (simp_all add: pos_imp_zdiv_nonneg_iff)
    then show ?thesis using that by simp
  qed
  consider "step = 0" | "step > 0" "stop < start" | "step > 0" "start \<le> stop" | "step < 0" "stop > start" | "step < 0" "stop \<le> start"
    by linarith
  then show ?thesis
  proof cases
    case 2
    then have "(stop - start) div step + 1 \<le> 0" using div_neg_pos_less0 [of "stop - start" step] by linarith
    then show ?thesis using 2 by (simp add: intervalSize_def count_of_def)
  next
    case 3
    then have "fits64 (stop - start)" "fits64 ((stop - start) div step + 1)"
      using b d [of "stop - start" step] by (auto intro!: fits64_bound)
    then show ?thesis using 3 by (simp add: intervalSize_def count_of_def pos_imp_zdiv_nonneg_iff)
  next
    case 4
    then have "(start - stop) div (- step) + 1 \<le> 0" using div_neg_pos_less0 [of "start - stop" "- step"] by linarith
    then show ?thesis using 4 by (simp add: intervalSize_def count_of_def)
  next
    case 5
    then have "fits64 (start - stop)" "fits64 (- step)" "fits64 ((start - stop) div (- step) + 1)"
      using b d [of "start - stop" "- step"] by (auto intro!: fits64_bound)
    moreover have "(start - stop) div (- step) \<ge> 0" using 5 by (simp add: pos_imp_zdiv_nonneg_iff)
    ultimately show ?thesis using 5 by (simp add: intervalSize_def count_of_def)
  qed (simp add: intervalSize_def count_of_def)
qed

text \<open>The last addition of a stride: one step past the end.\<close>

lemma div_times_le: "step > 0 \<Longrightarrow> (x :: int) div step * step \<le> x"
  by (simp add: minus_mod_eq_div_mult [symmetric])

lemma count_of_last:
  assumes w: "within64 start stop step" and k: "k \<le> count_of start stop step"
  shows "\<bar>start + int k * step\<bar> \<le> 2 ^ 62"
proof -
  note b = within64D [OF w]
  consider "k = 0" | "step > 0" "int k \<le> (stop - start) div step + 1" "k > 0" | "step < 0" "int k \<le> (start - stop) div (- step) + 1" "k > 0"
    using k by (cases "k = 0"; cases "step > 0"; cases "step = 0") (auto simp: count_of_def le_nat_iff split: if_splits)
  then show ?thesis
  proof cases
    case 1
    then show ?thesis using b by simp
  next
    case 2
    then have "int k * step \<le> ((stop - start) div step + 1) * step" by (simp add: mult_right_mono)
    also have "\<dots> \<le> stop - start + step" using 2 div_times_le [of step "stop - start"] by (simp add: algebra_simps)
    finally have "int k * step \<le> stop - start + step" .
    moreover have "0 \<le> int k * step" using 2 by simp
    ultimately show ?thesis using b by (simp add: abs_le_iff)
  next
    case 3
    then have "int k * - step \<le> ((start - stop) div (- step) + 1) * - step" by (intro mult_right_mono) simp_all
    also have "\<dots> \<le> start - stop - step" using 3 div_times_le [of "- step" "start - stop"] by (simp add: algebra_simps)
    finally have "int k * step \<ge> stop - start + step" by simp
    moreover have "int k * step \<le> 0" using 3 by (simp add: mult_nonneg_nonpos)
    ultimately show ?thesis using b by (simp add: abs_le_iff)
  qed
qed

lemma stride_walk:
  assumes "\<And>j. j \<le> n \<Longrightarrow> fits64 (cur + int j * step)"
  shows "stride C f n cur step acc s = walk f (map (\<lambda>j. px_fromLong C (cur + int j * step)) [0..<n]) acc s"
  using assms
proof (induction n arbitrary: cur acc s)
  case (Suc n)
  have l: "fits64 (cur + step)" using Suc.prems [of 1] by simp
  have m: "map (\<lambda>j. px_fromLong C (cur + int j * step)) [0..<Suc n] =
      px_fromLong C cur # map (\<lambda>j. px_fromLong C (cur + step + int j * step)) [0..<n]"
    by (simp add: map_upt_Suc algebra_simps del: upt_Suc)
  have "fits64 (cur + step + int j * step)" if "j \<le> n" for j
    using Suc.prems [of "Suc j"] that by (simp add: algebra_simps)
  note IH = Suc.IH [OF this]
  show ?case
  proof (cases "f (px_fromLong C cur) acc s")
    case (Pair r s1)
    then show ?thesis unfolding m using l IH by (cases r) (auto split: prod.split)
  qed
qed simp

text \<open>
  Whatever the body does, also to the collection itself, the loop visits the elements
  the collection had when it began.
\<close>

lemma forEach_walk:
  assumes b: "builtin C r s"
  shows "forEachElement C r f acc s = walk f (elements C r s) acc s"
proof (cases "isIntervalBacked C r s")
  case True
  obtain start stop step where bd: "interval_bounds C r s = (start, stop, step)" by (cases "interval_bounds C r s")
  then have w: "within64 start stop step" using b True by (simp add: builtin_def)
  have "fits64 (start + int k * step)" if "k \<le> count_of start stop step" for k
    using fits64_bound [OF count_of_last [OF w that]] .
  then show ?thesis
    using True bd by (simp add: forEachElement_def elements_def intervalSize_count [OF w] stride_walk numbers_def comp_def)
next
  case False
  then show ?thesis using b by (auto simp: forEachElement_def elements_def builtin_def)
qed

section \<open>Blocks that only compute\<close>

text \<open>A block that answers \<open>f args\<close> and leaves the state alone.\<close>

definition computes :: "('v, 's, 'e, 'm) collections \<Rightarrow> 'v \<Rightarrow> ('v list \<Rightarrow> 'v) \<Rightarrow> 's \<Rightarrow> bool" where
  "computes C block f s \<longleftrightarrow> (\<forall>args. px_invoke C block args s = (Inr (Some (f args)), s))"

lemma computes_invoke [simp]: "computes C block f s \<Longrightarrow> invokeBlock C block args s = (Inr (f args), s)"
  by (simp add: computes_def invokeBlock_def or_nil_def)

lemma foldl_append: "foldl (\<lambda>out e. out @ [g e]) xs es = xs @ map g es"
  by (induction es arbitrary: xs) simp_all

lemma foldl_filter: "foldl (\<lambda>out e. if P e then out @ [e] else out) xs es = xs @ filter P es"
  by (induction es arbitrary: xs) simp_all

lemma foldl_count: "foldl (\<lambda>n e. if P e then n + 1 else n) k es = k + int (length (filter P es))"
  by (induction es arbitrary: k) simp_all

lemma foldl_length: "foldl (\<lambda>n e. n + 1) k es = k + int (length es)"
  by (induction es arbitrary: k) simp_all

lemma found_ex: "(case find P xs of None \<Rightarrow> False | Some x \<Rightarrow> True) = list_ex P xs"
  by (induction xs) simp_all

lemma found_all: "(case find (\<lambda>e. \<not> P e) xs of None \<Rightarrow> True | Some x \<Rightarrow> False) = list_all P xs"
  by (induction xs) simp_all


lemma demo_computes: "computes demo block d_block s"
  by (simp add: computes_def demo_def)

lemma demo_array: "isListBacked demo (DObj 8) demo_heap" "arrayData demo (DObj 8) demo_heap = [DInt 3, DInt 1, DInt 2]"
  "\<not> isIntervalBacked demo (DObj 8) demo_heap"
  by (simp_all add: isListBacked_def arrayData_def isIntervalBacked_def descendsFrom_def present_def demo_def demo_heap_def d_lookup_def)


section \<open>Sorting\<close>

definition below :: "('v \<Rightarrow> 'v \<Rightarrow> bool) \<Rightarrow> 'v \<Rightarrow> 'v list \<Rightarrow> 'v list" where
  "below le x ys = (takeWhile (\<lambda>y. \<not> le y x) ys) @ x # dropWhile (\<lambda>y. \<not> le y x) ys"

lemma insert_back_pure:
  assumes "\<And>x y. lt x y s = (Inr (\<not> le y x), s)"
  shows "insert_back lt x ys s = (Inr (below le x ys), s)"
  by (induction ys) (simp_all add: assms below_def)

lemma mset_below [simp]: "mset (below le x ys) = add_mset x (mset ys)"
  by (simp add: below_def) (metis mset_append takeWhile_dropWhile_id union_commute)

lemma below_sorted:
  assumes total: "\<And>x y. le x y \<or> le y x" and trans: "\<And>x y z. le x y \<Longrightarrow> le y z \<Longrightarrow> le x z"
    and s: "sorted_wrt (\<lambda>a b. le b a) ys"
  shows "sorted_wrt (\<lambda>a b. le b a) (below le x ys)"
  using s
proof (induction ys)
  case (Cons y ys)
  show ?case
  proof (cases "le y x")
    case True
    then show ?thesis using Cons.prems trans by (auto simp: below_def)
  next
    case False
    then have "le x y" using total by blast
    moreover have "set (below le x ys) = insert x (set ys)" by (metis mset_below set_mset_add_mset_insert set_mset_mset)
    ultimately show ?thesis using Cons False by (simp add: below_def)
  qed
qed (simp add: below_def)

text \<open>The new element goes behind its equals: in front of them in the reversed prefix.\<close>

lemma below_stable:
  assumes total: "\<And>x y. le x y \<or> le y x" and trans: "\<And>x y z. le x y \<Longrightarrow> le y z \<Longrightarrow> le x z"
    and s: "sorted_wrt (\<lambda>a b. le b a) ys"
  defines "like \<equiv> \<lambda>z y. le z y \<and> le y z"
  shows "filter (like z) (below le x ys) = filter (like z) (x # ys)"
  using s
proof (induction ys)
  case (Cons y ys)
  show ?case
  proof (cases "le y x")
    case False
    then have "\<not> (like z x \<and> like z y)" using trans by (auto simp: like_def)
    moreover have "filter (like z) (below le x (y # ys)) = filter (like z) (y # below le x ys)" using False by (simp add: below_def)
    ultimately show ?thesis using Cons by auto
  qed (simp add: below_def)
qed (simp add: below_def)

lemma walk_insert:
  assumes pure: "\<And>x y. lt x y s = (Inr (\<not> le y x), s)"
  shows "walk (\<lambda>x acc. andThen (insert_back lt x acc) (\<lambda>acc'. ret (True, acc'))) xs acc s = (Inr (foldl (\<lambda>acc x. below le x acc) acc xs), s)"
  by (rule walk_pure) (simp add: insert_back_pure [where lt = lt and le = le, OF pure])

lemma fold_below:
  assumes total: "\<And>x y. le x y \<or> le y x" and trans: "\<And>x y z. le x y \<Longrightarrow> le y z \<Longrightarrow> le x z"
    and s: "sorted_wrt (\<lambda>a b. le b a) acc"
  shows "sorted_wrt (\<lambda>a b. le b a) (foldl (\<lambda>acc x. below le x acc) acc xs) \<and>
    mset (foldl (\<lambda>acc x. below le x acc) acc xs) = mset acc + mset xs \<and>
    filter (\<lambda>y. le z y \<and> le y z) (foldl (\<lambda>acc x. below le x acc) acc xs) =
       rev (filter (\<lambda>y. le z y \<and> le y z) xs) @ filter (\<lambda>y. le z y \<and> le y z) acc"
  using s
proof (induction xs arbitrary: acc)
  case (Cons x xs)
  have b: "sorted_wrt (\<lambda>a b. le b a) (below le x acc)" by (rule below_sorted [where le = le, OF total trans Cons.prems])
  show ?case using Cons.IH [OF b] below_stable [where le = le and z = z and x = x, OF total trans Cons.prems] by simp
qed simp

text \<open>
  C24. \<open>sort:\<close> with a block that is a total preorder puts the elements of the receiver
  in its order, keeps each of them, and keeps the order of those it does not tell apart.
\<close>

theorem sort_is_stable:
  assumes l: "isListBacked C r s" and f: "computes C block f s" and b: "block \<noteq> px_none C" and tf: "px_true C \<noteq> px_false C"
    and le: "\<And>x y. f [x, y] = bool_obj C (le x y)"
    and total: "\<And>x y. le x y \<or> le y x" and trans: "\<And>x y z. le x y \<Longrightarrow> le y z \<Longrightarrow> le x z"
  shows "\<exists>ys. prim_Seq_sort C r [block] s = (Inr r, setData C r ys s) \<and> sorted_wrt le ys \<and>
    mset ys = mset (arrayData C r s) \<and>
    (\<forall>x. filter (\<lambda>y. le x y \<and> le y x) ys = filter (\<lambda>y. le x y \<and> le y x) (arrayData C r s))"
proof -
  define lt where "lt = (\<lambda>x y. andThen (mayPrecede C (Some block) y x) (\<lambda>b. ret (\<not> b)))"
  define ys where "ys = rev (foldl (\<lambda>acc x. below le x acc) [] (arrayData C r s))"
  have may: "mayPrecede C (Some block) y x s = (Inr (le y x), s)" for x y
    using f tf by (simp add: mayPrecede_def le bool_obj_def)
  then have pure: "lt x y s = (Inr (\<not> le y x), s)" for x y by (simp add: lt_def)
  have "stable_sort lt (arrayData C r s) s = (Inr ys, s)"
    unfolding stable_sort_def by (simp add: walk_insert [where lt = lt and le = le, OF pure] ys_def)
  then have "prim_Seq_sort C r [block] s = (Inr r, setData C r ys s)"
    using l b by (simp add: prim_Seq_sort_def present_def lt_def)
  moreover have "sorted_wrt (\<lambda>a b. le b a) (rev ys) \<and> mset (rev ys) = mset [] + mset (arrayData C r s) \<and>
      filter (\<lambda>y. le x y \<and> le y x) (rev ys) = rev (filter (\<lambda>y. le x y \<and> le y x) (arrayData C r s)) @ filter (\<lambda>y. le x y \<and> le y x) []" for x
    unfolding ys_def rev_rev_ident
  proof (rule fold_below)
    show "le a b \<or> le b a" for a b by (rule total)
    show "le a c" if "le a b" "le b c" for a b c by (rule trans [OF that])
  qed simp
  ultimately show ?thesis by (auto simp: sorted_wrt_rev rev_filter [symmetric])
qed

lemma sort_is_stable_witness:
  "\<exists>ys. prim_Seq_sort demo (DObj 8) [DTrue] demo_heap = (Inr (DObj 8), setData demo (DObj 8) ys demo_heap) \<and>
    sorted_wrt (\<lambda>x y. d_key x \<le> d_key y) ys \<and> mset ys = mset [DInt 3, DInt 1, DInt 2]"
proof -
  have "\<exists>ys. prim_Seq_sort demo (DObj 8) [DTrue] demo_heap = (Inr (DObj 8), setData demo (DObj 8) ys demo_heap) \<and>
    sorted_wrt (\<lambda>x y. d_key x \<le> d_key y) ys \<and> mset ys = mset (arrayData demo (DObj 8) demo_heap) \<and>
    (\<forall>x. filter (\<lambda>y. d_key x \<le> d_key y \<and> d_key y \<le> d_key x) ys =
       filter (\<lambda>y. d_key x \<le> d_key y \<and> d_key y \<le> d_key x) (arrayData demo (DObj 8) demo_heap))"
    by (rule sort_is_stable [where f = d_block]) (auto simp: demo_computes demo_array bool_obj_def)
  then show ?thesis unfolding demo_array by blast
qed

section \<open>Counting\<close>

abbreviation (input) body :: "('v, 's, 'e, 'm) collections \<Rightarrow> 'v \<Rightarrow> 'v \<Rightarrow> unit \<Rightarrow> ('s, 'e, bool \<times> unit) run" where
  "body C block \<equiv> \<lambda>e _. andThen (invokeBlock C block [e]) (\<lambda>_. ret (True, ()))"

lemma ret_eq: "ret a = Pair (Inr a)"
  by (rule ext) simp

lemma for_loop_walk:
  assumes "\<And>j. j < cnt \<Longrightarrow> within (i + int j * step)" "\<not> within (i + int cnt * step)"
    "\<And>j. j \<le> cnt \<Longrightarrow> fits64 (i + int j * step)" "cnt \<le> n"
  shows "for_loop C block within step n i s = walk (body C block) (map (\<lambda>j. px_fromLong C (i + int j * step)) [0..<cnt]) () s"
  using assms
proof (induction cnt arbitrary: i n s)
  case 0
  then show ?case by (cases n) simp_all
next
  case (Suc cnt)
  then obtain m where n: "n = Suc m" "cnt \<le> m" by (cases n) auto
  have w: "within i" "fits64 (i + step)" using Suc.prems(1) [of 0] Suc.prems(3) [of 1] by simp_all
  have l: "map (\<lambda>j. px_fromLong C (i + int j * step)) [0..<Suc cnt] =
      px_fromLong C i # map (\<lambda>j. px_fromLong C (i + step + int j * step)) [0..<cnt]"
    by (simp add: map_upt_Suc algebra_simps del: upt_Suc)
  have IH: "for_loop C block within step m (i + step) s1 = walk (body C block) (map (\<lambda>j. px_fromLong C (i + step + int j * step)) [0..<cnt]) () s1" for s1
  proof (rule Suc.IH)
    show "within (i + step + int j * step)" if "j < cnt" for j using Suc.prems(1) [of "Suc j"] that by (simp add: algebra_simps)
    show "\<not> within (i + step + int cnt * step)" using Suc.prems(2) by (simp add: algebra_simps)
    show "fits64 (i + step + int j * step)" if "j \<le> cnt" for j using Suc.prems(3) [of "Suc j"] that by (simp add: algebra_simps)
  qed (rule n(2))
  show ?case
  proof (cases "invokeBlock C block [px_fromLong C i] s")
    case (Pair r s1)
    then show ?thesis unfolding l n(1) using w by (cases r) (simp_all add: IH ret_eq)
  qed
qed

lemma le_div_iff_mult:
  assumes "0 < c"
  shows "(a :: int) \<le> b div c \<longleftrightarrow> a * c \<le> b"
proof
  assume "a \<le> b div c"
  then have "a * c \<le> b div c * c" using assms by (simp add: mult_right_mono)
  also have "\<dots> \<le> b" using assms by (rule div_times_le)
  finally show "a * c \<le> b" .
next
  assume "a * c \<le> b"
  then have "a * c div c \<le> b div c" using assms by (rule zdiv_mono1)
  then show "a \<le> b div c" using assms by simp
qed

lemma number_of:
  assumes "step \<noteq> 0"
  shows "k < count_of start stop step \<longleftrightarrow> (if step > 0 then start + int k * step \<le> stop else start + int k * step \<ge> stop)"
proof (cases "step > 0")
  case True
  have "k < count_of start stop step \<longleftrightarrow> int k \<le> (stop - start) div step"
    using True by (simp add: count_of_def) linarith
  also have "\<dots> \<longleftrightarrow> int k * step \<le> stop - start" using True by (simp add: le_div_iff_mult)
  finally show ?thesis using True by (simp add: algebra_simps)
next
  case False
  then have n: "- step > 0" using assms by simp
  have "k < count_of start stop step \<longleftrightarrow> int k \<le> (start - stop) div (- step)"
    using False assms by (simp add: count_of_def) linarith
  also have "\<dots> \<longleftrightarrow> int k * - step \<le> start - stop" using n by (simp only: le_div_iff_mult)
  finally show ?thesis using False by (simp add: algebra_simps)
qed

lemma numbers_nth: "k < count_of start stop step \<Longrightarrow> numbers start stop step ! k = start + int k * step"
  by (simp add: numbers_def)

lemma in_numbers:
  assumes "step \<noteq> 0"
  shows "m \<in> set (numbers start stop step) \<longleftrightarrow> (\<exists>k. m = start + int k * step \<and> (if step > 0 then m \<le> stop else m \<ge> stop))"
proof -
  have "m \<in> set (numbers start stop step) \<longleftrightarrow> (\<exists>k. m = start + int k * step \<and> k < count_of start stop step)"
    by (auto simp: numbers_def)
  then show ?thesis using number_of [OF assms, of _ start stop] by metis
qed

lemma nth_of_fits:
  assumes w: "within64 start stop step" and k: "int k < int (count_of start stop step)"
  shows "nth_of start step (int k) s = (Inr (numbers start stop step ! k), s)"
proof -
  have "\<bar>start + int k * step\<bar> \<le> 2 ^ 62" using count_of_last [OF w, of k] k by simp
  moreover have "\<bar>start\<bar> \<le> 2 ^ 60" by (rule within64D [OF w])
  ultimately have "fits64 (int k * step)" "fits64 (start + int k * step)" by (auto simp: fits64_def abs_le_iff)
  then show ?thesis using k by (simp add: nth_of_def numbers_nth)
qed

lemma div_le_of_abs:
  assumes "(c :: int) > 0"
  shows "x div c \<le> \<bar>x\<bar>"
proof -
  have "x div c \<le> \<bar>x\<bar> div c" using assms by (intro zdiv_mono1) simp_all
  also have "\<dots> \<le> \<bar>x\<bar> div 1" using assms by (intro zdiv_mono2) simp_all
  finally show ?thesis by simp
qed

lemma to_by_do_numbers:
  assumes w: "within64 start stop step" and z: "step \<noteq> 0" and v: "px_long C r = start" "px_long C x = stop" "px_long C y = step"
  shows "prim_Number_toByDo C r [x, y, block] s =
    andThen (walk (body C block) (map (px_fromLong C) (numbers start stop step)) ()) (\<lambda>_. ret r) s"
proof -
  let ?in = "if step > 0 then (\<lambda>i. i \<le> stop) else (\<lambda>i. i \<ge> stop)"
  let ?n = "count_of start stop step"
  have "?in (start + int j * step)" if "j < ?n" for j
    using number_of [OF z, of j start stop] that by (cases "step > 0") simp_all
  moreover have "\<not> ?in (start + int ?n * step)"
    using number_of [OF z, of ?n start stop] by (cases "step > 0") simp_all
  moreover have "fits64 (start + int j * step)" if "j \<le> ?n" for j by (rule fits64_bound [OF count_of_last [OF w that]])
  moreover have "?n \<le> nat \<bar>stop - start\<bar> + 1"
  proof (cases "step > 0")
    case True
    have "(stop - start) div step \<le> \<bar>stop - start\<bar>"
      using True by (intro div_le_of_abs)
    then show ?thesis using True by (simp add: count_of_def)
  next
    case False
    then have n: "- step > 0" using z by simp
    have "(start - stop) div (- step) \<le> \<bar>stop - start\<bar>"
      using div_le_of_abs [OF n, of "start - stop"] by simp
    then show ?thesis using False z by (simp add: count_of_def)
  qed
  ultimately have "for_loop C block ?in step (nat \<bar>stop - start\<bar> + 1) start s = walk (body C block) (map (\<lambda>j. px_fromLong C (start + int j * step)) [0..<?n]) () s" for s
    by (rule for_loop_walk)
  then have "for_loop C block ?in step (nat \<bar>stop - start\<bar> + 1) start = walk (body C block) (map (px_fromLong C) (numbers start stop step)) ()"
    by (intro ext) (simp add: numbers_def comp_def)
  then show ?thesis using z v by (simp add: prim_Number_toByDo_def Let_def)
qed

text \<open>
  An Interval is its list of numbers: those from \<open>start\<close> by \<open>step\<close> that are not past
  \<open>stop\<close>.  \<open>size\<close>, \<open>at:\<close> and \<open>last\<close> read that list, \<open>to:by:do:\<close> runs its block on exactly
  its elements, and no \<open>long long\<close> operation overflows.
\<close>

theorem interval_protocol:
  assumes bd: "interval_bounds C r s = (start, stop, step)" and w: "within64 start stop step" and z: "step \<noteq> 0"
    and v: "px_long C n = start" "px_long C x = stop" "px_long C y = step"
  defines "ns \<equiv> numbers start stop step"
  shows "(\<forall>m. m \<in> set ns \<longleftrightarrow> (\<exists>k. m = start + int k * step \<and> (if step > 0 then m \<le> stop else m \<ge> stop))) \<and>
    prim_Interval_size C r [] s = (Inr (px_fromLong C (int (length ns))), s) \<and>
    prim_Interval_at C r [i] s =
      (if 1 \<le> px_long C i \<and> px_long C i \<le> int (length ns) then (Inr (px_fromLong C (ns ! nat (px_long C i - 1))), s)
       else out_of_range ''Interval>>at:'' (px_long C i) (int (length ns)) s) \<and>
    prim_Interval_last C r [] s =
      (if ns = [] then Inl (Std_error ''Interval>>last: interval is empty'') else Inr (px_fromLong C (last ns)), s) \<and>
    prim_Number_toByDo C n [x, y, block] s = andThen (walk (body C block) (map (px_fromLong C) ns) ()) (\<lambda>_. ret n) s"
proof (intro conjI allI)
  note size = intervalSize_count [OF w]
  have len: "length ns = count_of start stop step" by (simp add: ns_def numbers_def)
  show "m \<in> set ns \<longleftrightarrow> (\<exists>k. m = start + int k * step \<and> (if step > 0 then m \<le> stop else m \<ge> stop))" for m
    unfolding ns_def by (rule in_numbers [OF z])
  show "prim_Interval_size C r [] s = (Inr (px_fromLong C (int (length ns))), s)"
    by (simp add: prim_Interval_size_def interval_size_def bd size len)
  show "prim_Interval_at C r [i] s =
      (if 1 \<le> px_long C i \<and> px_long C i \<le> int (length ns) then (Inr (px_fromLong C (ns ! nat (px_long C i - 1))), s)
       else out_of_range ''Interval>>at:'' (px_long C i) (int (length ns)) s)"
  proof (cases "1 \<le> px_long C i \<and> px_long C i \<le> int (length ns)")
    case True
    define k where "k = nat (px_long C i - 1)"
    then have k: "px_long C i = int k + 1" "k < length ns" using True by linarith+
    have c: "int k < int (count_of start stop step)" using k len by simp
    show ?thesis using k by (simp add: prim_Interval_at_def bd size len [symmetric] andThen_simps(2) [where m = "nth_of _ _ _", OF nth_of_fits [OF w c]] ns_def)
  next
    case False
    then show ?thesis by (auto simp: prim_Interval_at_def bd size len [symmetric])
  qed
  show "prim_Interval_last C r [] s =
      (if ns = [] then Inl (Std_error ''Interval>>last: interval is empty'') else Inr (px_fromLong C (last ns)), s)"
  proof (cases "ns = []")
    case True
    then show ?thesis using len by (simp add: prim_Interval_last_def bd size)
  next
    case False
    define k where "k = length ns - 1"
    have k: "length ns = k + 1" using False unfolding k_def by (cases ns) simp_all
    then have c: "int k < int (count_of start stop step)" using len by simp
    show ?thesis
      using False k by (simp add: prim_Interval_last_def bd size len [symmetric] last_conv_nth
          andThen_simps(2) [where m = "nth_of _ _ _", OF nth_of_fits [OF w c]] flip: ns_def)
  qed
  show "prim_Number_toByDo C n [x, y, block] s = andThen (walk (body C block) (map (px_fromLong C) ns) ()) (\<lambda>_. ret n) s"
    unfolding ns_def by (rule to_by_do_numbers [OF w z v])
qed

lemma interval_protocol_witness:
  "prim_Interval_size demo (DObj 9) [] demo_heap = (Inr (DInt 3), demo_heap) \<and>
   prim_Interval_last demo (DObj 9) [] demo_heap = (Inr (DInt 5), demo_heap)"
proof -
  have "interval_bounds demo (DObj 9) demo_heap = (1, 5, 2)"
    by (simp add: interval_bounds_def intervalAttr_def present_def demo_def demo_heap_def d_lookup_def)
  moreover have "numbers 1 5 2 = [1, 3, 5]" by (simp add: numbers_def count_of_def upt_rec)
  ultimately show ?thesis
    using interval_protocol [of demo "DObj 9" demo_heap 1 5 2 "DInt 1" "DInt 5" "DInt 2"]
    by (simp add: within64_def)
qed

end
