(* ===== verification/HashedLaws.thy ===== *)
theory HashedLaws
  imports CollectionLaws
begin

text \<open>
  Dictionary and Set as finite maps and sets modulo the equality of keys, and the
  agreement of the hash of keys with that equality.
\<close>

section \<open>What the primitives rely on\<close>

text \<open>
  An attribute of an object reads back as it was stored, apart from the other
  attributes; numbers and maps survive their boxing; storing into a collection does
  not change what the classes of its keys call equal.
\<close>

definition store_laws :: "('v, 's, 'e, 'm) collections \<Rightarrow> 'v \<Rightarrow> bool" where
  "store_laws C r \<longleftrightarrow>
     (\<forall>s k x k'. px_get C r k' (px_set C r k x s) = (if k' = k then Some x else px_get C r k' s)) \<and>
     (\<forall>n. px_long C (px_fromLong C n) = n \<and> px_fromLong C n \<noteq> px_none C) \<and>
     (\<forall>m. hx_map C (hx_fromMap C m) = Some m \<and> hx_fromMap C m \<noteq> px_none C) \<and>
     (\<forall>s k x. stKeySemantics C (px_set C r k x s) = stKeySemantics C s)"

text \<open>The hashed-collection helper of protoCore: a map modulo an equality of keys.\<close>

definition helper_laws :: "('v, 's, 'e, 'm) collections \<Rightarrow> 'v key_semantics \<Rightarrow> bool" where
  "helper_laws C K \<longleftrightarrow>
     (\<forall>m k v k'. hx_get C K (hx_put C K m k v) k' = (if ks_equals K k k' then Some v else hx_get C K m k')) \<and>
     (\<forall>m k k'. hx_get C K (hx_remove C K m k) k' = (if ks_equals K k k' then None else hx_get C K m k')) \<and>
     (\<forall>m k v. length (hx_entries C (hx_put C K m k v)) = length (hx_entries C m) + (if hx_get C K m k = None then 1 else 0)) \<and>
     (\<forall>m k v. hx_get C K m k = Some v \<longrightarrow> Suc (length (hx_entries C (hx_remove C K m k))) = length (hx_entries C m))"

lemma helper_simps [simp]:
  assumes "helper_laws C K"
  shows "hx_get C K (hx_put C K m k v) k' = (if ks_equals K k k' then Some v else hx_get C K m k')"
    "hx_get C K (hx_remove C K m k) k' = (if ks_equals K k k' then None else hx_get C K m k')"
    "length (hx_entries C (hx_put C K m k v)) = length (hx_entries C m) + (if hx_get C K m k = None then 1 else 0)"
    "hx_get C K m k = Some w \<Longrightarrow> int (length (hx_entries C (hx_remove C K m k))) = int (length (hx_entries C m)) - 1"
  using assms by (auto simp: helper_laws_def) (metis of_nat_Suc add_diff_cancel_left')

lemma boxed [simp]:
  assumes "store_laws C r"
  shows "mapData C r (setHashedData C r m n s) = m" "hashedSize C r (setHashedData C r m n s) = n"
    "stKeySemantics C (setHashedData C r m n s) = stKeySemantics C s"
  using assms by (simp_all add: store_laws_def mapData_def hashedSize_def setHashedData_def present_def)

section \<open>Dictionary\<close>

text \<open>A Dictionary promises a partial map that knows how many keys it has.\<close>

datatype 'v dict_op = At_put 'v 'v | At_if_absent_put 'v 'v | Remove_key 'v | At 'v | Includes_key 'v | Count

fun dict_prim :: "('v, 's, 'e, 'm) collections \<Rightarrow> 'v \<Rightarrow> 'v dict_op \<Rightarrow> ('s, 'e, 'v) run" where
  "dict_prim C r (At_put k v) = prim_Dict_atPut C r [k, v]"
| "dict_prim C r (At_if_absent_put k block) = prim_Dict_atIfAbsentPut C r [k, block]"
| "dict_prim C r (Remove_key k) = prim_Dict_removeKey C r [k]"
| "dict_prim C r (At k) = prim_Dict_at C r [k]"
| "dict_prim C r (Includes_key k) = prim_Dict_includesKey C r [k]"
| "dict_prim C r Count = prim_Dict_size C r []"

abbreviation (input) missing :: "string \<Rightarrow> 'e failure + 'v" where
  "missing sel \<equiv> Inl (Classed_error ''KeyNotFound'' (''Dictionary>>'' @ sel @ '' key not found''))"

fun dict_spec :: "('v, 's, 'e, 'm) collections \<Rightarrow> ('v \<Rightarrow> 'v \<Rightarrow> bool) \<Rightarrow> ('v \<Rightarrow> 'v) \<Rightarrow> 'v dict_op \<Rightarrow> ('v \<Rightarrow> 'v option) \<times> int \<Rightarrow>
    ('e failure + 'v) \<times> ('v \<Rightarrow> 'v option) \<times> int" where
  "dict_spec C eq val (At_put k v) (M, n) = (Inr v, (\<lambda>k'. if eq k k' then Some v else M k'), n + (if M k = None then 1 else 0))"
| "dict_spec C eq val (At_if_absent_put k block) (M, n) =
     (case M k of Some v \<Rightarrow> (Inr v, M, n) | None \<Rightarrow> (Inr (val block), (\<lambda>k'. if eq k k' then Some (val block) else M k'), n + 1))"
| "dict_spec C eq val (Remove_key k) (M, n) =
     (case M k of Some v \<Rightarrow> (Inr v, (\<lambda>k'. if eq k k' then None else M k'), n - 1) | None \<Rightarrow> (missing ''removeKey:'', M, n))"
| "dict_spec C eq val (At k) (M, n) = (case M k of Some v \<Rightarrow> Inr v | None \<Rightarrow> missing ''at:'', M, n)"
| "dict_spec C eq val (Includes_key k) (M, n) = (Inr (bool_obj C (M k \<noteq> None)), M, n)"
| "dict_spec C eq val Count (M, n) = (Inr (px_fromLong C n), M, n)"

text \<open>Several operations, each run from the state the last one left, also when it failed.\<close>

fun run_all :: "('o \<Rightarrow> 's \<Rightarrow> 'a \<times> 's) \<Rightarrow> 'o list \<Rightarrow> 's \<Rightarrow> 'a list \<times> 's" where
  "run_all f [] s = ([], s)"
| "run_all f (x # xs) s = (case f x s of (a, s1) \<Rightarrow> (case run_all f xs s1 of (as, s2) \<Rightarrow> (a # as, s2)))"

text \<open>A simulation of single operations carries over to sequences.\<close>

lemma run_all_refines:
  assumes step: "\<And>x s a s1. R s \<Longrightarrow> P x \<Longrightarrow> f x s = (a, s1) \<Longrightarrow> R s1 \<and> g x (abst s) = (a, abst s1)"
    and "R s" "list_all P xs" "run_all f xs s = (as, s1)"
  shows "R s1 \<and> run_all g xs (abst s) = (as, abst s1)"
  using assms(2-)
proof (induction xs arbitrary: s as)
  case (Cons x xs)
  obtain a s0 where a: "f x s = (a, s0)" by (cases "f x s")
  obtain bs s2 where b: "run_all f xs s0 = (bs, s2)" by (cases "run_all f xs s0")
  have p: "P x" "list_all P xs" using Cons.prems(2) by simp_all
  have eqs: "as = a # bs" "s1 = s2" using Cons.prems(3) a b by simp_all
  have st: "R s0" "g x (abst s) = (a, abst s0)" using step [OF Cons.prems(1) p(1) a] by simp_all
  show ?case using Cons.IH [OF st(1) p(2), of bs] b st(2) eqs by simp
qed simp

definition dict_view :: "('v, 's, 'e, 'm) collections \<Rightarrow> 'v \<Rightarrow> 's \<Rightarrow> ('v \<Rightarrow> 'v option) \<times> int" where
  "dict_view C r s = (\<lambda>k. dictLookup C r k s, hashedSize C r s)"

definition size_ok :: "('v, 's, 'e, 'm) collections \<Rightarrow> 'v \<Rightarrow> 's \<Rightarrow> bool" where
  "size_ok C r s \<longleftrightarrow> hashedSize C r s = int (length (hashedEntries C r s))"

text \<open>The block of \<open>at:ifAbsentPut:\<close> only computes.\<close>

fun op_ok :: "('v, 's, 'e, 'm) collections \<Rightarrow> ('v \<Rightarrow> 'v) \<Rightarrow> 'v dict_op \<Rightarrow> bool" where
  "op_ok C val (At_if_absent_put k block) = (\<forall>s. computes C block (\<lambda>_. val block) s)"
| "op_ok C val _ = True"

lemma dict_step:
  assumes C: "store_laws C r" and K: "helper_laws C K" "stKeySemantics C s = K" and ok: "op_ok C val x" and sz: "size_ok C r s"
    and run: "dict_prim C r x s = (a, s1)"
  shows "size_ok C r s1 \<and> stKeySemantics C s1 = K \<and> dict_spec C (ks_equals K) val x (dict_view C r s) = (a, dict_view C r s1)"
proof -
  have out: "a = fst (dict_prim C r x s)" "s1 = snd (dict_prim C r x s)" using run by simp_all
  note [simp] = C K dict_view_def dictLookup_def size_ok_def hashedEntries_def dictStore_def dictRemove_def Let_def
  show ?thesis
  proof (cases x)
    case (At_put k v)
    then show ?thesis using sz by (simp add: out prim_Dict_atPut_def)
  next
    case (At_if_absent_put k block)
    then have "invokeBlock C block [] s = (Inr (val block), s)"
      using ok computes_invoke [of C block "\<lambda>_. val block" s] by simp
    then show ?thesis using At_if_absent_put sz
      by (cases "hx_get C K (mapData C r s) k") (simp_all add: out prim_Dict_atIfAbsentPut_def)
  next
    case (Remove_key k)
    then show ?thesis using sz
      by (cases "hx_get C K (mapData C r s) k") (simp_all add: out prim_Dict_removeKey_def)
  next
    case (At k)
    then show ?thesis using sz
      by (cases "hx_get C K (mapData C r s) k") (simp_all add: out prim_Dict_at_def)
  next
    case (Includes_key k)
    then show ?thesis using sz by (simp add: out prim_Dict_includesKey_def)
  next
    case Count
    then show ?thesis using sz by (simp add: out prim_Dict_size_def)
  qed
qed


section \<open>Set\<close>

text \<open>A Set promises a set modulo the equality of keys that knows its size.\<close>

datatype 'v set_op = Add_it 'v | Remove_it 'v | Has 'v | Card

fun set_prim :: "('v, 's, 'e, 'm) collections \<Rightarrow> 'v \<Rightarrow> 'v set_op \<Rightarrow> ('s, 'e, 'v) run" where
  "set_prim C r (Add_it e) = prim_Set_add C r [e]"
| "set_prim C r (Remove_it e) = prim_Set_remove C r [e]"
| "set_prim C r (Has e) = prim_Set_includes C r [e]"
| "set_prim C r Card = prim_Set_size C r []"

fun set_spec :: "('v, 's, 'e, 'm) collections \<Rightarrow> ('v \<Rightarrow> 'v \<Rightarrow> bool) \<Rightarrow> 'v set_op \<Rightarrow> ('v \<Rightarrow> bool) \<times> int \<Rightarrow>
    ('e failure + 'v) \<times> ('v \<Rightarrow> bool) \<times> int" where
  "set_spec C eq (Add_it e) (S, n) = (if S e then (Inr e, S, n) else (Inr e, (\<lambda>x. eq e x \<or> S x), n + 1))"
| "set_spec C eq (Remove_it e) (S, n) =
     (if S e then (Inr e, (\<lambda>x. \<not> eq e x \<and> S x), n - 1) else (Inl (Classed_error ''NotFound'' ''Set>>remove: element not found''), S, n))"
| "set_spec C eq (Has e) (S, n) = (Inr (bool_obj C (S e)), S, n)"
| "set_spec C eq Card (S, n) = (Inr (px_fromLong C n), S, n)"

definition set_view :: "('v, 's, 'e, 'm) collections \<Rightarrow> 'v \<Rightarrow> 's \<Rightarrow> ('v \<Rightarrow> bool) \<times> int" where
  "set_view C r s = (\<lambda>e. hx_get C (stKeySemantics C s) (mapData C r s) e \<noteq> None, hashedSize C r s)"

lemma set_step:
  assumes C: "store_laws C r" and K: "helper_laws C K" "stKeySemantics C s = K" and sz: "size_ok C r s"
    and run: "set_prim C r x s = (a, s1)"
  shows "size_ok C r s1 \<and> stKeySemantics C s1 = K \<and> set_spec C (ks_equals K) x (set_view C r s) = (a, set_view C r s1)"
proof -
  have out: "a = fst (set_prim C r x s)" "s1 = snd (set_prim C r x s)" using run by simp_all
  note [simp] = C K set_view_def size_ok_def hashedEntries_def Let_def
  show ?thesis
  proof (cases x)
    case (Add_it e)
    then show ?thesis using sz by (cases "hx_get C K (mapData C r s) e") (simp_all add: out prim_Set_add_def fun_eq_iff)
  next
    case (Remove_it e)
    then show ?thesis using sz
      by (cases "hx_get C K (mapData C r s) e") (simp_all add: out prim_Set_remove_def set_remove_def fun_eq_iff)
  next
    case (Has e)
    then show ?thesis using sz by (simp add: out prim_Set_includes_def)
  next
    case Card
    then show ?thesis using sz by (simp add: out prim_Set_size_def)
  qed
qed


section \<open>Equality and hash\<close>

text \<open>
  What protoCore's comparison answers 0 for: the same text, the same number (also of
  two kinds), or, of anything else, the same stored value.
\<close>

definition number :: "('v, 's, 'e, 'm) collections \<Rightarrow> 'v \<Rightarrow> int + int" where
  "number C v = (if px_isDouble C v then (case cx_integral C v of Some i \<Rightarrow> Inl i | None \<Rightarrow> Inr (cx_hashDouble C v)) else Inl (cx_value C v))"

definition comparison_laws :: "('v, 's, 'e, 'm) collections \<Rightarrow> bool" where
  "comparison_laws C \<longleftrightarrow>
     (\<forall>a b. px_same C a b \<longrightarrow>
        (a = px_none C \<longleftrightarrow> b = px_none C) \<and> px_text C a = px_text C b \<and>
        (px_isInteger C a \<or> px_isDouble C a \<longleftrightarrow> px_isInteger C b \<or> px_isDouble C b) \<and>
        (if px_isInteger C a \<or> px_isDouble C a then number C a = number C b
         else px_text C a = None \<longrightarrow> cx_getHash C a = cx_getHash C b))"

lemma numericHash_number:
  "numericHash C v = (case number C v of Inl i \<Rightarrow> (if \<bar>i\<bar> < 2 ^ 53 then i mod 2 ^ 53 else cx_hashText C (show_int i) mod 2 ^ 53)
     | Inr h \<Rightarrow> h mod 2 ^ 53)"
  by (simp add: numericHash_def number_def Let_def split: option.split)

text \<open>
  Two keys that are equal have the same hash, so the map finds either by the
  other: numbers across SmallInteger, LargeInteger and Float, texts by content.
\<close>

theorem equal_keys_hash_alike:
  assumes "comparison_laws C" "\<not> runtimeForUserEquality C a" "\<not> runtimeForUserEquality C b" "ks_equals (stKeySemantics C s) a b"
  shows "ks_hash (stKeySemantics C s) a = ks_hash (stKeySemantics C s) b"
proof (cases "a = b")
  case False
  then have "px_same C a b" using assms(2-) by (simp add: stKeySemantics_def stKeyEquals_def)
  then show ?thesis using assms(1-3)
    by (auto simp: comparison_laws_def stKeySemantics_def stKeyHash_def numericHash_number split: option.split if_splits)
qed simp

text \<open>
  A Bag and an OrderedCollection do not use the equality of the hashed collections:
  an object whose class says that it equals an element is in a Set of that element and
  not in a Bag of it.
\<close>

theorem bag_ignores_class_equality:
  assumes "runtimeForUserEquality C e" "cx_ask C e ''='' [v] s = Some (Some (px_true C))" "e \<noteq> v" "\<not> px_same C e v" "listData C r s = [e]"
  shows "stKeyEquals C s e v \<and> prim_Bag_includes C r [v] s = (Inr (px_false C), s) \<and>
    prim_Bag_occurrencesOf C r [v] s = (Inr (px_fromLong C 0), s)"
  using assms
  by (simp add: stKeyEquals_def prim_Bag_includes_def prim_Bag_occurrencesOf_def countEqual_def list_equal_def bool_obj_def)

text \<open>The heap of the demonstration keeps the laws.\<close>

lemma demo_semantics: "ks_equals (stKeySemantics demo s) = (=)"
  by (auto simp: stKeySemantics_def stKeyEquals_def fun_eq_iff)

lemma demo_store: "store_laws demo (DObj o')"
proof -
  have "stKeySemantics demo s = stKeySemantics demo t" for s t
    by (simp add: stKeySemantics_def fun_eq_iff stKeyEquals_def stKeyHash_def split: option.split)
  then show ?thesis by (simp add: store_laws_def d_lookup_def d_store_def)
qed

lemma find_key: "find (\<lambda>(k', v). k' = k) m = map_option (Pair k) (map_of m k)"
  by (induction m) auto

lemma map_of_replace: "map_of (map (\<lambda>(k', v'). (k', if k' = k then v else v')) m) k' = (if k' = k \<and> map_of m k \<noteq> None then Some v else map_of m k')"
  by (induction m) auto

lemma map_of_filter_key: "map_of (filter (\<lambda>(k', v). k' \<noteq> k) m) k' = (if k' = k then None else map_of m k')"
  by (induction m) auto

lemma demo_helper: "helper_laws demo (stKeySemantics demo s)"
proof -
  have n: "length (d_entries m) = card (fst ` set m)" for m
    by (simp add: d_entries_def length_remdups_card_conv)
  have e: "entry_for (stKeySemantics demo s) m k = map_option (Pair k) (map_of m k)" for m k
    by (simp add: entry_for_def demo_semantics find_key)
  have stored_keys: "fst ` set (stored (stKeySemantics demo s) m k v) = insert k (fst ` set m)" for m k v
  proof (cases "map_of m k")
    case None
    then show ?thesis by (auto simp: stored_def e)
  next
    case (Some w)
    then have "(k, w) \<in> set m" by (rule map_of_SomeD)
    then show ?thesis using Some by (force simp: stored_def e demo_semantics)
  qed
  have removed_keys: "fst ` set (removed (stKeySemantics demo s) m k) = fst ` set m - {k}" for m k
    by (force simp: removed_def demo_semantics)
  have put: "map_of (stored (stKeySemantics demo s) m k v) k' = (if k = k' then Some v else map_of m k')" for m k v k'
    by (auto simp: stored_def e demo_semantics map_of_replace map_add_def split: option.split)
  have rem: "map_of (removed (stKeySemantics demo s) m k) k' = (if k = k' then None else map_of m k')" for m k k'
    by (simp add: removed_def demo_semantics map_of_filter_key)
  have "Suc (card (fst ` set m - {k})) = card (fst ` set m)" if "map_of m k = Some v" for m :: "(dv \<times> dv) list" and k v
  proof (rule card.remove [symmetric])
    show "k \<in> fst ` set m" using map_of_SomeD [OF that] by force
  qed simp
  then show ?thesis
    by (auto simp: helper_laws_def e option.map_comp comp_def option.map_ident put rem n stored_keys removed_keys demo_semantics card_insert_if map_of_eq_None_iff)
qed

lemma demo_empty: "mapData demo (DObj 10) demo_heap = []" "hashedSize demo (DObj 10) demo_heap = 0"
  by (simp_all add: mapData_def hashedSize_def present_def demo_heap_def d_lookup_def)



text \<open>The demonstration with a Float, 7.0.\<close>

abbreviation (input) seven :: dv where "seven \<equiv> DObj 99"

definition demo_float :: "(dv, dheap, unit, (dv \<times> dv) list) collections" where
  "demo_float = demo\<lparr>px_isDouble := (\<lambda>v. v = seven), cx_integral := (\<lambda>v. if v = seven then Some 7 else None),
     px_same := (\<lambda>a b. a = b \<or> a = seven \<and> b = DInt 7 \<or> a = DInt 7 \<and> b = seven)\<rparr>"

lemma equal_keys_hash_alike_witness:
  "ks_hash (stKeySemantics demo_float demo_heap) seven = ks_hash (stKeySemantics demo_float demo_heap) (DInt 7)"
  by (rule equal_keys_hash_alike)
    (auto simp: comparison_laws_def runtimeForUserEquality_def stKeySemantics_def stKeyEquals_def demo_float_def demo_def number_def)

text \<open>The demonstration with a class whose instances all equal one another.\<close>

definition demo_eq :: "(dv, dheap, unit, (dv \<times> dv) list) collections" where
  "demo_eq = demo\<lparr>cx_ask := (\<lambda>v sel args s. if sel = ''='' then Some (Some DTrue) else None)\<rparr>"

lemma bag_ignores_class_equality_witness:
  "stKeyEquals demo_eq (setData demo_eq (DObj 8) [DObj 3] demo_heap) (DObj 3) (DObj 4) \<and>
   prim_Bag_includes demo_eq (DObj 8) [DObj 4] (setData demo_eq (DObj 8) [DObj 3] demo_heap) =
     (Inr DFalse, setData demo_eq (DObj 8) [DObj 3] demo_heap)"
  using bag_ignores_class_equality [of demo_eq "DObj 3" "DObj 4" "setData demo_eq (DObj 8) [DObj 3] demo_heap" "DObj 8"]
  by (simp add: demo_eq_def demo_def runtimeForUserEquality_def listData_def arrayData_def present_def setData_def d_store_def d_lookup_def)

end
