(* ===== verification/Futures.thy ===== *)
theory Futures
  imports Prelude
begin

text \<open>
  src/primitives/future_prims.cpp: how one Future is settled, listened to and waited
  for.  Any number of threads run \<open>resolve:\<close>, \<open>rejectWith:\<close>, \<open>thenDo:\<close>, \<open>catch:\<close> and
  \<open>wait\<close> on it at once; each atomic access to an attribute is one step.  The waiting
  actors (\<open>__waiters__\<close>) are part of the theory Scheduler.
\<close>

section \<open>The attributes\<close>

text \<open>
  A list of callbacks under a key: absent, a list, or the sentinel left by the drain.
  A callback is known by the thread that registers it.
\<close>

datatype cbs = Absent | Listed "nat list" | Drained

text \<open>
  \<open>__settling__\<close> is absent or set; who set it, and to settle how, is kept for the
  statements, as are the calls of callbacks in \<open>ft_log\<close>.  A kind is True for a
  rejection.  The last fields are \<open>mainWaitingOn = this future\<close> and the permits of
  \<open>mainWaitSem\<close>.
\<close>

record 'v future =
  ft_claimed :: "(nat \<times> bool \<times> 'v) option"
  ft_state :: nat
  ft_result :: "bool \<Rightarrow> 'v option"
  ft_cbs :: "bool \<Rightarrow> cbs"
  ft_mainWaiting :: bool
  ft_sem :: nat
  ft_log :: "(nat \<times> bool \<times> 'v option) list"

definition new_future :: "'v future" where
  "new_future = \<lparr>ft_claimed = None, ft_state = 0, ft_result = (\<lambda>_. None), ft_cbs = (\<lambda>_. Absent), ft_mainWaiting = False,
     ft_sem = 0, ft_log = []\<rparr>"

definition state_code :: "bool \<Rightarrow> nat" where
  "state_code reject = (if reject then 2 else 1)"

section \<open>Where a thread is\<close>

datatype 'v pc =
    Claim bool 'v
  | Write bool 'v
  | Drain_read bool 'v
  | Drain_cas bool 'v cbs
  | Fire bool 'v "nat list"
  | Publish bool 'v
  | Notify bool 'v
  | Reg_state bool
  | Reg_value bool
  | Reg_read bool
  | Reg_cas bool cbs
  | Reg_fire bool "'v option"
  | Mark
  | Poll
  | Acquire
  | Unmark
  | Outcome
  | Got nat "'v option"
  | Finished

section \<open>Settling\<close>

definition settle_claim :: "nat \<Rightarrow> bool \<Rightarrow> 'v \<Rightarrow> 'v future \<Rightarrow> 'v pc \<times> 'v future" where
  "settle_claim t reject payload f =
     (if ft_claimed f \<noteq> None then (Finished, f) else (Write reject payload, f\<lparr>ft_claimed := Some (t, reject, payload)\<rparr>))"

definition settle_write :: "bool \<Rightarrow> 'v \<Rightarrow> 'v future \<Rightarrow> 'v pc \<times> 'v future" where
  "settle_write reject payload f = (Drain_read reject payload, f\<lparr>ft_result := (ft_result f)(reject := Some payload)\<rparr>)"

definition set_cbs :: "bool \<Rightarrow> cbs \<Rightarrow> 'v future \<Rightarrow> 'v future" where
  "set_cbs k c f = f\<lparr>ft_cbs := (ft_cbs f)(k := c)\<rparr>"

definition listed :: "cbs \<Rightarrow> nat list" where
  "listed c = (case c of Listed l \<Rightarrow> l | _ \<Rightarrow> [])"

text \<open>\<open>drainList\<close>.\<close>

definition drain_read :: "bool \<Rightarrow> 'v \<Rightarrow> 'v future \<Rightarrow> 'v pc" where
  "drain_read k v f = (if ft_cbs f k = Drained then Publish k v else Drain_cas k v (ft_cbs f k))"

definition drain_cas :: "bool \<Rightarrow> 'v \<Rightarrow> cbs \<Rightarrow> 'v future \<Rightarrow> 'v pc \<times> 'v future" where
  "drain_cas k v cur f = (if ft_cbs f k = cur then (Fire k v (listed cur), set_cbs k Drained f) else (Drain_read k v, f))"

definition call :: "nat \<Rightarrow> bool \<Rightarrow> 'v option \<Rightarrow> 'v future \<Rightarrow> 'v future" where
  "call t k arg f = f\<lparr>ft_log := ft_log f @ [(t, k, arg)]\<rparr>"

definition fire :: "bool \<Rightarrow> 'v \<Rightarrow> nat list \<Rightarrow> 'v future \<Rightarrow> 'v pc \<times> 'v future" where
  "fire k v l f = (case l of [] \<Rightarrow> (Publish k v, f) | t # ts \<Rightarrow> (Fire k v ts, call t k (Some v) f))"

definition publish :: "bool \<Rightarrow> 'v \<Rightarrow> 'v future \<Rightarrow> 'v pc \<times> 'v future" where
  "publish k v f = (Notify k v, f\<lparr>ft_state := state_code k\<rparr>)"

definition notifyMainWaiterIfFor :: "'v future \<Rightarrow> 'v future" where
  "notifyMainWaiterIfFor f = (if ft_mainWaiting f then f\<lparr>ft_sem := ft_sem f + 1\<rparr> else f)"

section \<open>Listening\<close>

text \<open>\<open>thenDo:\<close> (False) and \<open>catch:\<close> (True), on a future settled one way or the other, or pending.\<close>

definition reg_state :: "bool \<Rightarrow> 'v future \<Rightarrow> 'v pc" where
  "reg_state k f =
     (if ft_state f = state_code (\<not> k) then Finished else if ft_state f = state_code k then Reg_value k else Reg_read k)"

text \<open>\<open>appendOrDrained\<close>.\<close>

definition reg_read :: "bool \<Rightarrow> 'v future \<Rightarrow> 'v pc" where
  "reg_read k f = (if ft_cbs f k = Drained then Reg_value k else Reg_cas k (ft_cbs f k))"

definition reg_cas :: "nat \<Rightarrow> bool \<Rightarrow> cbs \<Rightarrow> 'v future \<Rightarrow> 'v pc \<times> 'v future" where
  "reg_cas t k cur f =
     (if ft_cbs f k = cur then (Finished, set_cbs k (Listed (listed cur @ [t])) f) else (Reg_read k, f))"

section \<open>Waiting in the main thread\<close>

definition poll :: "'v future \<Rightarrow> 'v pc" where
  "poll f = (if ft_state f = 0 then Acquire else Unmark)"

definition acquireMainWait :: "'v future \<Rightarrow> ('v pc \<times> 'v future) option" where
  "acquireMainWait f = (if ft_sem f = 0 then None else Some (Poll, f\<lparr>ft_sem := ft_sem f - 1\<rparr>))"

definition outcome :: "'v future \<Rightarrow> 'v pc" where
  "outcome f = Got (ft_state f) (ft_result f (ft_state f = 2))"

section \<open>One step of a thread\<close>

fun pc_step :: "nat \<Rightarrow> 'v pc \<Rightarrow> 'v future \<Rightarrow> ('v pc \<times> 'v future) option" where
  "pc_step t (Claim k v) f = Some (settle_claim t k v f)"
| "pc_step t (Write k v) f = Some (settle_write k v f)"
| "pc_step t (Drain_read k v) f = Some (drain_read k v f, f)"
| "pc_step t (Drain_cas k v cur) f = Some (drain_cas k v cur f)"
| "pc_step t (Fire k v l) f = Some (fire k v l f)"
| "pc_step t (Publish k v) f = Some (publish k v f)"
| "pc_step t (Notify k v) f = Some (Finished, notifyMainWaiterIfFor f)"
| "pc_step t (Reg_state k) f = Some (reg_state k f, f)"
| "pc_step t (Reg_value k) f = Some (Reg_fire k (ft_result f k), f)"
| "pc_step t (Reg_read k) f = Some (reg_read k f, f)"
| "pc_step t (Reg_cas k cur) f = Some (reg_cas t k cur f)"
| "pc_step t (Reg_fire k arg) f = Some (Finished, call t k arg f)"
| "pc_step t Mark f = Some (Poll, f\<lparr>ft_mainWaiting := True\<rparr>)"
| "pc_step t Poll f = Some (poll f, f)"
| "pc_step t Acquire f = acquireMainWait f"
| "pc_step t Unmark f = Some (Outcome, f\<lparr>ft_mainWaiting := False\<rparr>)"
| "pc_step t Outcome f = Some (outcome f, f)"
| "pc_step t (Got n v) f = None"
| "pc_step t Finished f = None"

text \<open>
  What the threads begin with: to settle, to listen, or to wait.  Only one thread,
  the main one, waits.
\<close>

definition starts :: "nat \<Rightarrow> (nat \<Rightarrow> 'v pc) \<Rightarrow> bool" where
  "starts m init \<longleftrightarrow> (\<forall>t. (\<exists>k v. init t = Claim k v) \<or> (\<exists>k. init t = Reg_state k) \<or> init t = Mark \<and> t = m \<or> init t = Finished)"

inductive future_reached :: "(nat \<Rightarrow> 'v pc) \<Rightarrow> (nat \<Rightarrow> 'v pc) \<Rightarrow> 'v future \<Rightarrow> bool" for init where
  start: "future_reached init init new_future"
| step: "future_reached init pcs f \<Longrightarrow> pc_step t (pcs t) f = Some (pc, f') \<Longrightarrow> future_reached init (pcs(t := pc)) f'"

end
