(* ===== verification/FuturesInv.thy ===== *)
theory FuturesInv
  imports Futures "HOL-Library.Multiset"
begin

text \<open>
  Under every interleaving a Future is settled once, each callback of the right kind
  runs exactly once with the settled value, before the settled state can be seen,
  and the waiting main thread is woken.
\<close>

section \<open>The invariant\<close>

text \<open>How far a settler has come: the result written, the callbacks drained, all of them run, the state published.\<close>

fun stage :: "'v pc \<Rightarrow> nat" where
  "stage (Write k v) = 1"
| "stage (Drain_read k v) = 2"
| "stage (Drain_cas k v c) = 2"
| "stage (Fire k v l) = 3"
| "stage (Publish k v) = 4"
| "stage (Notify k v) = 5"
| "stage Finished = 6"
| "stage _ = 0"

fun settling :: "'v pc \<Rightarrow> (bool \<times> 'v) option" where
  "settling (Write k v) = Some (k, v)"
| "settling (Drain_read k v) = Some (k, v)"
| "settling (Drain_cas k v c) = Some (k, v)"
| "settling (Fire k v l) = Some (k, v)"
| "settling (Publish k v) = Some (k, v)"
| "settling (Notify k v) = Some (k, v)"
| "settling _ = None"

text \<open>The callbacks a settler still has to run, of those it drained.\<close>

fun to_fire :: "'v pc \<Rightarrow> nat list" where
  "to_fire (Fire k v l) = l"
| "to_fire _ = []"

text \<open>A thread that has seen the callbacks of its kind drained, or the state, and runs its own.\<close>

fun calling :: "bool \<Rightarrow> 'v pc \<Rightarrow> bool" where
  "calling k (Reg_value k') = (k' = k)"
| "calling k (Reg_fire k' a) = (k' = k)"
| "calling k _ = False"

definition claim_inv :: "(nat \<Rightarrow> 'v pc) \<Rightarrow> 'v future \<Rightarrow> bool" where
  "claim_inv pcs f \<longleftrightarrow>
     (\<forall>t k. pcs t \<noteq> Reg_cas k Drained) \<and>
     (case ft_claimed f of
        None \<Rightarrow> (\<forall>t. settling (pcs t) = None) \<and> (\<forall>t k. \<not> calling k (pcs t)) \<and>
          ft_state f = 0 \<and> ft_result f = (\<lambda>_. None) \<and> (\<forall>k. ft_cbs f k \<noteq> Drained) \<and> ft_log f = []
      | Some (w, k, v) \<Rightarrow>
          (\<forall>t. t \<noteq> w \<longrightarrow> settling (pcs t) = None) \<and>
          (\<forall>t k'. calling k' (pcs t) \<longrightarrow> k' = k \<and> stage (pcs w) \<ge> 3) \<and>
          (\<forall>t k' a. pcs t = Reg_fire k' a \<longrightarrow> a = Some v) \<and>
          stage (pcs w) > 0 \<and> (stage (pcs w) < 6 \<longrightarrow> settling (pcs w) = Some (k, v)) \<and>
          ft_result f = (\<lambda>_. None)(k := if stage (pcs w) \<ge> 2 then Some v else None) \<and>
          (ft_cbs f k = Drained \<longleftrightarrow> stage (pcs w) \<ge> 3) \<and> ft_cbs f (\<not> k) \<noteq> Drained \<and>
          ft_state f = (if stage (pcs w) \<ge> 5 then state_code k else 0) \<and>
          (stage (pcs w) < 3 \<longrightarrow> ft_log f = []) \<and> (\<forall>e \<in> set (ft_log f). snd e = (k, Some v)))"

lemmas step_defs = settle_claim_def settle_write_def set_cbs_def drain_read_def drain_cas_def call_def fire_def publish_def
  notifyMainWaiterIfFor_def reg_state_def reg_read_def reg_cas_def poll_def acquireMainWait_def outcome_def

lemma claim_noneD:
  assumes "claim_inv pcs f" "ft_claimed f = None"
  shows "settling (pcs t) = None" "\<not> calling k (pcs t)" "ft_state f = 0" "ft_result f = (\<lambda>_. None)" "ft_cbs f k \<noteq> Drained" "ft_log f = []"
  using assms by (simp_all add: claim_inv_def)

lemma claim_someD:
  assumes "claim_inv pcs f" "ft_claimed f = Some (w, k, v)"
  shows "t \<noteq> w \<Longrightarrow> settling (pcs t) = None" "calling k' (pcs t) \<Longrightarrow> k' = k \<and> stage (pcs w) \<ge> 3" "pcs t = Reg_fire k' a \<Longrightarrow> a = Some v"
    "stage (pcs w) > 0" "stage (pcs w) < 6 \<Longrightarrow> settling (pcs w) = Some (k, v)"
    "ft_result f = (\<lambda>_. None)(k := if stage (pcs w) \<ge> 2 then Some v else None)"
    "ft_cbs f k = Drained \<longleftrightarrow> stage (pcs w) \<ge> 3" "ft_cbs f (\<not> k) \<noteq> Drained"
    "ft_state f = (if stage (pcs w) \<ge> 5 then state_code k else 0)"
    "stage (pcs w) < 3 \<Longrightarrow> ft_log f = []" "e \<in> set (ft_log f) \<Longrightarrow> snd e = (k, Some v)"
  using assms by (simp_all add: claim_inv_def)

lemma state_code_simps [simp]: "state_code k \<noteq> 0" "state_code k = state_code k' \<longleftrightarrow> k = k'" "state_code (\<not> k) \<noteq> state_code k"
  by (simp_all add: state_code_def)

lemma claim_step_none:
  assumes I: "claim_inv pcs f" and N: "ft_claimed f = None" and st: "pc_step t (pcs t) f = Some (pc, f')"
  shows "claim_inv (pcs(t := pc)) f'"
proof -
  have "pcs u \<noteq> Reg_fire k a" for u k a using claim_noneD(2) [OF I N] calling.simps(2) by metis
  moreover have "settling (pcs t) = None" "\<forall>k. \<not> calling k (pcs t)" using claim_noneD [OF I N] by simp_all
  ultimately show ?thesis using st I N
    by (cases "pcs t") (auto simp: step_defs claim_inv_def split: if_splits)
qed

lemma claim_step_settler:
  assumes I: "claim_inv pcs f" and S: "ft_claimed f = Some (w, k, v)" and st: "pc_step w (pcs w) f = Some (pc, f')"
  shows "claim_inv (pcs(w := pc)) f'"
proof -
  note D = claim_someD [OF I S]
  have "stage (pcs w) \<noteq> 6" using st by (cases "pcs w") simp_all
  then have "settling (pcs w) = Some (k, v)" using D(4,5) by (cases "pcs w") simp_all
  then show ?thesis using st S I
    by (cases "pcs w") (auto simp: step_defs claim_inv_def split: if_splits list.splits)
qed

text \<open>What the other threads may do: move on, and add to a list that is not drained.\<close>

lemma claim_rely:
  assumes I: "claim_inv pcs f" and S: "ft_claimed f = Some (w, k, v)" and t: "t \<noteq> w"
    and pc: "settling pc = None" "\<And>k'. \<not> calling k' pc" "\<And>k'. pc \<noteq> Reg_cas k' Drained"
    and f: "ft_claimed f' = ft_claimed f" "ft_state f' = ft_state f" "ft_result f' = ft_result f" "ft_log f' = ft_log f"
      "\<And>k'. ft_cbs f' k' = Drained \<longleftrightarrow> ft_cbs f k' = Drained"
  shows "claim_inv (pcs(t := pc)) f'"
proof -
  have "pc \<noteq> Reg_fire k' a" for k' a using pc(2) [of k'] by auto
  then show ?thesis using I S t pc f by (simp add: claim_inv_def)
qed

lemma claim_step_other:
  assumes I: "claim_inv pcs f" and S: "ft_claimed f = Some (w, k, v)" and t: "t \<noteq> w" and st: "pc_step t (pcs t) f = Some (pc, f')"
  shows "claim_inv (pcs(t := pc)) f'"
proof -
  note D = claim_someD [OF I S]
  have no: "settling (pcs t) = None" using D(1) t by simp
  have I': "claim_inv pcs f" "calling k' (pcs t) \<longrightarrow> k' = k \<and> stage (pcs w) \<ge> 3" "pcs t = Reg_fire k' a \<longrightarrow> a = Some v" for k' a
    using I D(2,3) by blast+
  show ?thesis
  proof (cases "pcs t")
    case (Reg_state k')
    then show ?thesis using st t I S D(9) by (auto simp: step_defs claim_inv_def split: if_splits)
  next
    case (Reg_read k')
    then show ?thesis using st t I S by (cases "k' = k") (auto simp: step_defs claim_inv_def split: if_splits)
  next
    case (Reg_cas k' c)
    then have "c \<noteq> Drained" using I by (auto simp: claim_inv_def)
    then have "ft_cbs f' k'' = Drained \<longleftrightarrow> ft_cbs f k'' = Drained" for k''
      using Reg_cas st by (cases k''; cases k') (auto simp: step_defs split: if_splits)
    then show ?thesis using Reg_cas st by (intro claim_rely [OF I S t]) (auto simp: step_defs split: if_splits)
  next
    case (Reg_value k')
    then show ?thesis using st t I S I'(2) [of k'] by (auto simp: step_defs claim_inv_def split: if_splits)
  next
    case (Reg_fire k' a)
    then have k: "k' = k" "3 \<le> stage (pcs w)" "a = Some v" using I'(2) [of k'] I'(3) [of k' a] by simp_all
    then have "pc = Finished" "f' = f\<lparr>ft_log := ft_log f @ [(t, k, Some v)]\<rparr>" using Reg_fire st by (simp_all add: step_defs)
    then show ?thesis using t I S k(2) by (simp add: claim_inv_def)
  qed (use st t I S no in \<open>auto simp: step_defs claim_inv_def split: if_splits\<close>)
qed

lemma claim_step:
  assumes "claim_inv pcs f" "pc_step t (pcs t) f = Some (pc, f')"
  shows "claim_inv (pcs(t := pc)) f'"
proof (cases "ft_claimed f")
  case None
  then show ?thesis using claim_step_none assms by blast
next
  case (Some c)
  then obtain w k v where "ft_claimed f = Some (w, k, v)" by (cases c) auto
  then show ?thesis using claim_step_settler [OF assms(1), of w k v pc f'] claim_step_other [OF assms(1), of w k v t pc f'] assms(2)
    by (cases "t = w") simp_all
qed

section \<open>Where a callback is\<close>

text \<open>Registered, taken by the settler, or called.\<close>

definition in_flight :: "(nat \<Rightarrow> 'v pc) \<Rightarrow> 'v future \<Rightarrow> bool \<Rightarrow> nat list" where
  "in_flight pcs f k = (case ft_claimed f of Some (w, k', v) \<Rightarrow> if k' = k then to_fire (pcs w) else [] | None \<Rightarrow> [])"

definition called :: "'v future \<Rightarrow> bool \<Rightarrow> nat list" where
  "called f k = map fst (filter (\<lambda>e. fst (snd e) = k) (ft_log f))"

definition pool :: "(nat \<Rightarrow> 'v pc) \<Rightarrow> 'v future \<Rightarrow> bool \<Rightarrow> nat multiset" where
  "pool pcs f k = mset (listed (ft_cbs f k)) + mset (in_flight pcs f k) + mset (called f k)"

fun registering :: "bool \<Rightarrow> 'v pc \<Rightarrow> bool" where
  "registering k (Reg_state k') = (k' = k)"
| "registering k (Reg_value k') = (k' = k)"
| "registering k (Reg_read k') = (k' = k)"
| "registering k (Reg_cas k' c) = (k' = k)"
| "registering k (Reg_fire k' a) = (k' = k)"
| "registering k _ = False"

text \<open>A step enters the callback of its own thread, or none; the settler only moves them on.\<close>

lemma pool_step:
  assumes I: "claim_inv pcs f" and st: "pc_step t (pcs t) f = Some (pc, f')"
  shows "pool (pcs(t := pc)) f' k =
    (if registering k (pcs t) \<and> pc = Finished \<and> pcs t \<noteq> Reg_state k then add_mset t (pool pcs f k) else pool pcs f k)"
proof (cases "ft_claimed f")
  case None
  then have "settling (pcs t) = None" using claim_noneD [OF I] by blast
  then show ?thesis using st None
    by (cases "pcs t") (auto simp: step_defs pool_def in_flight_def called_def listed_def split: if_splits cbs.splits)
next
  case (Some c)
  then obtain w k' v where S: "ft_claimed f = Some (w, k', v)" by (cases c) auto
  show ?thesis
  proof (cases "t = w")
    case True
    have "stage (pcs w) \<noteq> 6" using st True by (cases "pcs w") simp_all
    then have "settling (pcs w) = Some (k', v)" using claim_someD(4,5) [OF I S] by (cases "pcs w") simp_all
    then show ?thesis using st S True
      by (cases "pcs w") (auto simp: step_defs pool_def in_flight_def called_def listed_def split: if_splits cbs.splits list.splits)
  next
    case False
    then have "settling (pcs t) = None" using claim_someD(1) [OF I S] by blast
    then show ?thesis using st S False
      by (cases "pcs t") (auto simp: step_defs pool_def in_flight_def called_def listed_def split: if_splits cbs.splits)
  qed
qed

definition callback_inv :: "(nat \<Rightarrow> 'v pc) \<Rightarrow> (nat \<Rightarrow> 'v pc) \<Rightarrow> 'v future \<Rightarrow> bool" where
  "callback_inv init pcs f \<longleftrightarrow>
     (\<forall>t k. registering k (pcs t) \<longrightarrow> init t = Reg_state k) \<and>
     (\<forall>t k. init t = Reg_state k \<longrightarrow> registering k (pcs t) \<and> count (pool pcs f k) t = 0 \<or>
        pcs t = Finished \<and> (count (pool pcs f k) t = 1 \<or> count (pool pcs f k) t = 0 \<and> (\<exists>w v. ft_claimed f = Some (w, \<not> k, v)))) \<and>
     (\<forall>t k. init t \<noteq> Reg_state k \<longrightarrow> count (pool pcs f k) t = 0)"

lemma claimed_stays:
  "pc_step t pc0 f = Some (pc, f') \<Longrightarrow> ft_claimed f = Some c \<Longrightarrow> ft_claimed f' = Some c"
  by (cases pc0) (auto simp: step_defs split: if_splits list.splits)

lemma registering_step:
  assumes "registering k pc0" "pc_step t pc0 f = Some (pc, f')"
  shows "registering k pc \<or> pc = Finished"
  using assms by (cases pc0) (auto simp: step_defs split: if_splits)

lemma registering_back:
  assumes "registering k pc" "pc_step t pc0 f = Some (pc, f')"
  shows "registering k pc0"
  using assms by (cases pc0) (auto simp: step_defs split: if_splits list.splits)

lemma ignored:
  assumes "claim_inv pcs f" "pc_step t (Reg_state k) f = Some (Finished, f')"
  shows "\<exists>w v. ft_claimed f = Some (w, \<not> k, v)"
proof -
  have "ft_state f = state_code (\<not> k)" using assms(2) by (auto simp: step_defs split: if_splits)
  then show ?thesis using claim_noneD(3) [OF assms(1)] claim_someD(9) [OF assms(1)]
    by (cases "ft_claimed f") (auto split: if_splits)
qed

lemma callback_step:
  assumes I: "claim_inv pcs f" and J: "callback_inv init pcs f" and st: "pc_step t (pcs t) f = Some (pc, f')"
  shows "callback_inv init (pcs(t := pc)) f'"
proof -
  have own: "init t = Reg_state k" if "registering k (pcs t)" for k using J that by (simp add: callback_inv_def)
  have rest: "count (pool (pcs(t := pc)) f' k) u = count (pool pcs f k) u" if "u \<noteq> t" for u k
    using that by (simp add: pool_step [OF I st])
  have 1: "init u = Reg_state k" if "registering k ((pcs(t := pc)) u)" for u k
    using that J own registering_back [OF _ st] by (cases "u = t") (auto simp: callback_inv_def)
  have 2: "registering k ((pcs(t := pc)) u) \<and> count (pool (pcs(t := pc)) f' k) u = 0 \<or>
      (pcs(t := pc)) u = Finished \<and> (count (pool (pcs(t := pc)) f' k) u = 1 \<or>
        count (pool (pcs(t := pc)) f' k) u = 0 \<and> (\<exists>w v. ft_claimed f' = Some (w, \<not> k, v)))" if i: "init u = Reg_state k" for u k
  proof (cases "u = t")
    case False
    have "registering k (pcs u) \<and> count (pool pcs f k) u = 0 \<or>
        pcs u = Finished \<and> (count (pool pcs f k) u = 1 \<or> count (pool pcs f k) u = 0 \<and> (\<exists>w v. ft_claimed f = Some (w, \<not> k, v)))"
      using J i by (simp add: callback_inv_def)
    then show ?thesis unfolding rest [OF False] using False claimed_stays [OF st] by auto
  next
    case True
    have "pcs t \<noteq> Finished" using st by auto
    then have r: "registering k (pcs t)" "count (pool pcs f k) t = 0" using J i True by (auto simp: callback_inv_def)
    show ?thesis
    proof (cases "pc = Finished")
      case F: True
      show ?thesis
      proof (cases "pcs t = Reg_state k")
        case True
        then obtain w v where "ft_claimed f = Some (w, \<not> k, v)" using ignored [OF I, of t k f'] st F by auto
        then have "\<exists>w v. ft_claimed f' = Some (w, \<not> k, v)" using claimed_stays [OF st] by blast
        moreover have "count (pool (pcs(t := pc)) f' k) t = 0" using r(2) True by (subst pool_step [OF I st]) simp
        ultimately show ?thesis using F \<open>u = t\<close> by simp
      next
        case False
        then have "count (pool (pcs(t := pc)) f' k) t = 1" using F r by (subst pool_step [OF I st]) simp
        then show ?thesis using F \<open>u = t\<close> by simp
      qed
    next
      case F: False
      then show ?thesis using registering_step [OF r(1) st] r True by (simp add: pool_step [OF I st])
    qed
  qed
  have 3: "count (pool (pcs(t := pc)) f' k) u = 0" if "init u \<noteq> Reg_state k" for u k
  proof -
    have "count (pool pcs f k) u = 0" using J that by (simp add: callback_inv_def)
    then show ?thesis using that own [of k] by (cases "u = t") (auto simp: pool_step [OF I st])
  qed
  show ?thesis unfolding callback_inv_def using 1 2 3 by blast
qed

section \<open>The main thread\<close>

fun waiting :: "'v pc \<Rightarrow> bool" where
  "waiting Mark = True"
| "waiting Poll = True"
| "waiting Acquire = True"
| "waiting Unmark = True"
| "waiting Outcome = True"
| "waiting (Got n v) = True"
| "waiting _ = False"

definition main_inv :: "nat \<Rightarrow> (nat \<Rightarrow> 'v pc) \<Rightarrow> 'v future \<Rightarrow> bool" where
  "main_inv m pcs f \<longleftrightarrow>
     (\<forall>t. waiting (pcs t) \<longrightarrow> t = m) \<and>
     (ft_mainWaiting f \<longleftrightarrow> pcs m \<in> {Poll, Acquire, Unmark}) \<and>
     (pcs m = Acquire \<and> ft_sem f = 0 \<and> ft_state f \<noteq> 0 \<longrightarrow> (\<exists>w k v. pcs w = Notify k v)) \<and>
     (pcs m \<in> {Unmark, Outcome} \<longrightarrow> ft_state f \<noteq> 0) \<and>
     (\<forall>n r. pcs m = Got n r \<longrightarrow> ft_state f = n \<and> n \<noteq> 0 \<and> r = ft_result f (n = 2))"

lemma waiting_back: "waiting pc \<Longrightarrow> pc_step t pc0 f = Some (pc, f') \<Longrightarrow> waiting pc0"
  by (cases pc0) (auto simp: step_defs split: if_splits list.splits)

lemma quiet_fields:
  assumes "pc_step t pc0 f = Some (pc, f')" "\<not> waiting pc0" "\<And>k v. pc0 \<noteq> Notify k v"
  shows "ft_mainWaiting f' = ft_mainWaiting f" "ft_sem f' = ft_sem f"
  using assms by (cases pc0; auto simp: step_defs split: if_splits list.splits)+

lemma settled_stays:
  assumes "claim_inv pcs f" "pc_step t (pcs t) f = Some (pc, f')" "ft_state f \<noteq> 0"
  shows "ft_state f' = ft_state f" "ft_result f' = ft_result f"
proof -
  obtain w k v where S: "ft_claimed f = Some (w, k, v)" using claim_noneD(3) [OF assms(1)] assms(3) by (cases "ft_claimed f") auto
  have n: "stage (pcs w) \<ge> 5" using claim_someD(9) [OF assms(1) S] assms(3) by (auto split: if_splits)
  have "stage (pcs t) \<ge> 5 \<or> settling (pcs t) = None" using n claim_someD(1) [OF assms(1) S, of t] by (cases "t = w") auto
  then show "ft_state f' = ft_state f" "ft_result f' = ft_result f" using assms(2) S
    by (cases "pcs t"; auto simp: step_defs split: if_splits list.splits)+
qed

lemma publishes:
  assumes "pc_step t pc0 f = Some (pc, f')" "ft_state f = 0" "ft_state f' \<noteq> 0"
  shows "\<exists>k v. pc = Notify k v"
  using assms by (cases pc0) (auto simp: step_defs split: if_splits list.splits)

lemma main_step:
  assumes I: "claim_inv pcs f" and J: "main_inv m pcs f" and st: "pc_step t (pcs t) f = Some (pc, f')"
  shows "main_inv m (pcs(t := pc)) f'"
proof (cases "waiting (pcs t)")
  case True
  then have t: "t = m" using J by (simp add: main_inv_def)
  show ?thesis using True J st unfolding t
    by (cases "pcs m") (auto simp: step_defs main_inv_def split: if_splits)
next
  case False
  then have pc: "\<not> waiting pc" using waiting_back [OF _ st] by blast
  have m: "(pcs(t := pc)) m = pcs m" if "waiting (pcs m)" using that False by auto
  have m': "waiting (pcs m)" if "waiting ((pcs(t := pc)) m)" using that pc by (cases "m = t") simp_all
  have J1: "waiting (pcs u) \<Longrightarrow> u = m" "ft_mainWaiting f \<longleftrightarrow> pcs m \<in> {Poll, Acquire, Unmark}"
    "pcs m = Acquire \<Longrightarrow> ft_sem f = 0 \<Longrightarrow> ft_state f \<noteq> 0 \<Longrightarrow> \<exists>w k v. pcs w = Notify k v"
    "pcs m \<in> {Unmark, Outcome} \<Longrightarrow> ft_state f \<noteq> 0"
    "pcs m = Got n r \<Longrightarrow> ft_state f = n \<and> n \<noteq> 0 \<and> r = ft_result f (n = 2)" for u n r
    using J unfolding main_inv_def by blast+
  have 1: "waiting ((pcs(t := pc)) u) \<Longrightarrow> u = m" for u using J1(1) pc by (cases "u = t") simp_all
  have 2: "ft_mainWaiting f' \<longleftrightarrow> (pcs(t := pc)) m \<in> {Poll, Acquire, Unmark}"
  proof -
    have "ft_mainWaiting f' = ft_mainWaiting f"
      using st False by (cases "pcs t") (auto simp: step_defs split: if_splits list.splits)
    moreover have "(pcs(t := pc)) m \<in> {Poll, Acquire, Unmark} \<longleftrightarrow> pcs m \<in> {Poll, Acquire, Unmark}"
      using pc False by (cases "m = t") auto
    ultimately show ?thesis using J1(2) by simp
  qed
  have 3: "\<exists>w k v. (pcs(t := pc)) w = Notify k v" if a: "(pcs(t := pc)) m = Acquire" and z: "ft_sem f' = 0" "ft_state f' \<noteq> 0"
  proof -
    have a: "pcs m = Acquire" using m m' a by fastforce
    show ?thesis
    proof (cases "\<exists>k v. pcs t = Notify k v")
      case True
      then show ?thesis using st z(1) J1(2) a by (auto simp: step_defs)
    next
      case N: False
      show ?thesis
      proof (cases "ft_state f = 0")
        case True
        then show ?thesis using publishes [OF st True z(2)] by (metis fun_upd_same)
      next
        case S: False
        then obtain w k v where "pcs w = Notify k v" using J1(3) a z quiet_fields [OF st False] N by metis
        then show ?thesis using N by (metis fun_upd_other)
      qed
    qed
  qed
  have 4: "ft_state f' \<noteq> 0" if "(pcs(t := pc)) m \<in> {Unmark, Outcome}"
    using that m m' J1(4) settled_stays [OF I st] by fastforce
  have 5: "ft_state f' = n \<and> n \<noteq> 0 \<and> r = ft_result f' (n = 2)" if "(pcs(t := pc)) m = Got n r" for n r
    using that m m' J1(5) [of n r] settled_stays [OF I st] by fastforce
  show ?thesis unfolding main_inv_def using 1 2 3 4 5 by blast
qed

section \<open>What holds whatever the threads do\<close>

lemma start_inv:
  assumes "starts m init"
  shows "claim_inv init new_future" "callback_inv init init new_future" "main_inv m init new_future"
proof -
  have s: "(\<exists>k v. init t = Claim k v) \<or> (\<exists>k. init t = Reg_state k) \<or> init t = Mark \<and> t = m \<or> init t = Finished" for t
    using assms by (simp add: starts_def)
  have "settling (init t) = None \<and> \<not> calling k (init t) \<and> init t \<noteq> Reg_cas k Drained" for t k using s [of t] by auto
  then show "claim_inv init new_future" by (simp add: claim_inv_def new_future_def)
  have "registering k (init t) \<longleftrightarrow> init t = Reg_state k" for t k using s [of t] by auto
  then show "callback_inv init init new_future"
    by (simp add: callback_inv_def new_future_def pool_def in_flight_def called_def listed_def)
  have "waiting (init t) \<Longrightarrow> t = m" "init m \<notin> {Poll, Acquire, Unmark, Outcome}" "init m \<noteq> Got n r" for t n r using s [of t] s [of m] by auto
  then show "main_inv m init new_future" by (simp add: main_inv_def new_future_def)
qed

lemma future_reached_inv:
  assumes "starts m init" "future_reached init pcs f"
  shows "claim_inv pcs f \<and> callback_inv init pcs f \<and> main_inv m pcs f"
  using assms(2)
proof (induction rule: future_reached.induct)
  case start
  then show ?case using start_inv [OF assms(1)] by blast
next
  case (step pcs f t pc f')
  then show ?case using claim_step callback_step main_step by blast
qed

lemma filter_fst: "\<forall>e \<in> set xs. snd e = c \<Longrightarrow> filter (\<lambda>e. fst e = t) xs = replicate (count (mset (map fst xs)) t) (t, c)"
  by (induction xs) auto

text \<open>A Future that shows its state has run all its callbacks and keeps their kind and value.\<close>

lemma settled_pool:
  assumes I: "claim_inv pcs f" and st: "ft_state f = state_code k"
  shows "\<exists>w v. ft_claimed f = Some (w, k, v) \<and> stage (pcs w) \<ge> 5 \<and> pool pcs f k = mset (map fst (ft_log f)) \<and>
    ft_result f = (\<lambda>_. None)(k := Some v) \<and> (\<forall>e \<in> set (ft_log f). snd e = (k, Some v))"
proof -
  obtain w k' v where S: "ft_claimed f = Some (w, k', v)"
    using claim_noneD(3) [OF I] st by (cases "ft_claimed f") auto
  have k: "k' = k" "stage (pcs w) \<ge> 5" using claim_someD(9) [OF I S] st by (auto split: if_splits)
  have all: "\<forall>e \<in> set (ft_log f). snd e = (k, Some v)" using claim_someD(11) [OF I S] k by blast
  then have "called f k = map fst (ft_log f)" by (simp add: called_def)
  moreover have "ft_cbs f k = Drained" using claim_someD(7) [OF I S] k by simp
  moreover have "to_fire (pcs w) = []" using k(2) by (cases "pcs w") simp_all
  ultimately have "pool pcs f k = mset (map fst (ft_log f))" using S k(1) by (simp add: pool_def in_flight_def listed_def)
  then show ?thesis using S k all claim_someD(6) [OF I S] by auto
qed

text \<open>
  C25. Under every interleaving of settlers and listeners, a callback whose
  registration has returned is called exactly once, with the settled value, if the
  Future is settled its way, and never if it is settled the other way; before the
  settled state can be seen, every such callback has been called.
\<close>

theorem callbacks_exactly_once:
  assumes "starts m init" "future_reached init pcs f" and t: "init t = Reg_state k" "pcs t = Finished"
  shows "(ft_state f = state_code k \<longrightarrow>
      (\<exists>w v. ft_claimed f = Some (w, k, v) \<and> filter (\<lambda>e. fst e = t) (ft_log f) = [(t, k, Some v)])) \<and>
    (ft_state f = state_code (\<not> k) \<longrightarrow> t \<notin> fst ` set (ft_log f)) \<and>
    (\<forall>e \<in> set (ft_log f). \<exists>w k' v. ft_claimed f = Some (w, k', v) \<and> snd e = (k', Some v))"
proof (intro conjI impI)
  have I: "claim_inv pcs f" and J: "callback_inv init pcs f" using future_reached_inv [OF assms(1,2)] by blast+
  show "\<exists>w v. ft_claimed f = Some (w, k, v) \<and> filter (\<lambda>e. fst e = t) (ft_log f) = [(t, k, Some v)]" if st: "ft_state f = state_code k"
  proof -
    obtain w v where S: "ft_claimed f = Some (w, k, v)" "pool pcs f k = mset (map fst (ft_log f))" "\<forall>e \<in> set (ft_log f). snd e = (k, Some v)"
      using settled_pool [OF I st] by blast
    have "registering k (pcs t) \<and> count (pool pcs f k) t = 0 \<or> pcs t = Finished \<and> (count (pool pcs f k) t = 1 \<or>
        count (pool pcs f k) t = 0 \<and> (\<exists>w v. ft_claimed f = Some (w, \<not> k, v)))"
      using J t(1) unfolding callback_inv_def by blast
    then have "count (pool pcs f k) t = 1" using t(2) S(1) by simp
    then show ?thesis using filter_fst [OF S(3), of t] S(1,2) by simp
  qed
  show "t \<notin> fst ` set (ft_log f)" if st: "ft_state f = state_code (\<not> k)"
  proof -
    have "count (pool pcs f (\<not> k)) t = 0" using J t(1) unfolding callback_inv_def by simp
    then have "t \<notin># mset (map fst (ft_log f))" using settled_pool [OF I st] by (metis count_eq_zero_iff)
    then show ?thesis by simp
  qed
  show "\<forall>e \<in> set (ft_log f). \<exists>w k' v. ft_claimed f = Some (w, k', v) \<and> snd e = (k', Some v)"
  proof (cases "ft_claimed f")
    case None
    then show ?thesis using claim_noneD(6) [OF I] by simp
  next
    case (Some c)
    then obtain w k' v where "ft_claimed f = Some (w, k', v)" by (cases c) auto
    then show ?thesis using claim_someD(11) [OF I] by blast
  qed
qed


text \<open>One thread resolves with 7, one listens, the main thread waits; the listener is first.\<close>

definition demo_threads :: "nat \<Rightarrow> int pc" where
  "demo_threads = (\<lambda>_. Finished)(0 := Mark, 1 := Claim False 7, 2 := Reg_state False)"

lemma demo_starts: "starts 0 demo_threads"
  by (auto simp: starts_def demo_threads_def)

primrec run_threads :: "nat list \<Rightarrow> (nat \<Rightarrow> 'v pc) \<times> 'v future \<Rightarrow> (nat \<Rightarrow> 'v pc) \<times> 'v future" where
  "run_threads [] c = c"
| "run_threads (t # ts) c =
     run_threads ts (case pc_step t (fst c t) (snd c) of None \<Rightarrow> c | Some (pc, f) \<Rightarrow> ((fst c)(t := pc), f))"

lemma run_reached: "future_reached init pcs f \<Longrightarrow> run_threads ts (pcs, f) = (pcs', f') \<Longrightarrow> future_reached init pcs' f'"
proof (induction ts arbitrary: pcs f)
  case (Cons t ts)
  then show ?case
    by (cases "pc_step t (pcs t) f") (auto dest: future_reached.step)
qed simp

definition demo_end :: "(nat \<Rightarrow> int pc) \<times> int future" where
  "demo_end = run_threads [0, 2, 2, 2, 0, 1, 1, 1, 1, 1, 1, 1, 1, 0, 0, 0, 0] (demo_threads, new_future)"

lemma demo_reached: "future_reached demo_threads (fst demo_end) (snd demo_end)"
  by (rule run_reached [OF future_reached.start]) (simp only: demo_end_def prod.collapse)

lemma demo_end: "fst demo_end 2 = Finished" "fst demo_end 0 = Got 1 (Some 7)" "ft_state (snd demo_end) = 1"
    "ft_claimed (snd demo_end) = Some (1, False, 7)"
  by (simp_all add: demo_end_def demo_threads_def new_future_def step_defs state_code_def listed_def)

lemma callbacks_exactly_once_witness: "filter (\<lambda>e. fst e = 2) (ft_log (snd demo_end)) = [(2, False, Some 7)]"
proof -
  have "\<exists>w v. ft_claimed (snd demo_end) = Some (w, False, v) \<and> filter (\<lambda>e. fst e = 2) (ft_log (snd demo_end)) = [(2, False, Some v)]"
    using callbacks_exactly_once [OF demo_starts demo_reached, of 2 False] demo_end by (simp add: demo_threads_def state_code_def)
  then show ?thesis using demo_end(4) by simp
qed


end
