(* ===== verification/FutureWaits.thy ===== *)
theory FutureWaits
  imports Effects
begin

text \<open>
  src/primitives/future_prims.cpp, the rest: the search for a cycle of waiting actors
  (\<open>detectWaitCycle\<close>), what \<open>Future>>wait\<close> does in an actor, and the record of rejections
  nobody looked at.  Actors and futures are numbers.
\<close>

section \<open>A cycle of waiting actors\<close>

text \<open>\<open>__state__\<close> and \<open>__target_actor__\<close> of the futures and \<open>__waiting_on__\<close> of the actors.\<close>

record waits =
  wt_state :: "nat \<Rightarrow> nat"
  wt_target :: "nat \<Rightarrow> nat option"
  wt_waiting :: "nat \<Rightarrow> nat option"

primrec follow :: "waits \<Rightarrow> nat set \<Rightarrow> nat \<Rightarrow> nat option \<Rightarrow> bool" where
  "follow W stuck 0 fut = False"
| "follow W stuck (Suc n) fut =
     (case fut of None \<Rightarrow> False
      | Some f \<Rightarrow>
          if wt_state W f \<noteq> 0 then False
          else case wt_target W f of None \<Rightarrow> False
               | Some a \<Rightarrow> a \<in> stuck \<or> follow W stuck n (wt_waiting W a))"

definition set_waiting :: "nat \<Rightarrow> nat option \<Rightarrow> waits \<Rightarrow> waits" where
  "set_waiting a f W = W\<lparr>wt_waiting := (wt_waiting W)(a := f)\<rparr>"

text \<open>The step after the record is made; an actor buried on this thread's stack cannot go on either.\<close>

definition walk_chain :: "nat list \<Rightarrow> nat \<Rightarrow> nat \<Rightarrow> waits \<Rightarrow> bool \<times> waits" where
  "walk_chain buried self awaited W =
     (if follow W (insert self (set buried)) 256 (Some awaited) then (True, set_waiting self None W) else (False, W))"

definition detectWaitCycle :: "nat list \<Rightarrow> nat \<Rightarrow> nat \<Rightarrow> waits \<Rightarrow> (string + unit) \<times> waits" where
  "detectWaitCycle buried self awaited W =
     (case walk_chain buried self awaited (set_waiting self (Some awaited) W) of
        (True, W1) \<Rightarrow> (Inl ''deadlock'', W1)
      | (False, W1) \<Rightarrow> (Inr (), W1))"

text \<open>The actor that has to settle a pending future, and, one after another, the actors a wait depends on.\<close>

definition settler :: "waits \<Rightarrow> nat \<Rightarrow> nat option" where
  "settler W f = (if wt_state W f = 0 then wt_target W f else None)"

primrec depends :: "waits \<Rightarrow> nat \<Rightarrow> nat \<Rightarrow> nat option" where
  "depends W f 0 = settler W f"
| "depends W f (Suc k) = Option.bind (depends W f k) (\<lambda>a. Option.bind (wt_waiting W a) (settler W))"

lemma depends_later: "depends W f (Suc k) = Option.bind (settler W f) (\<lambda>a. Option.bind (wt_waiting W a) (\<lambda>g. depends W g k))"
proof (induction k)
  case 0
  then show ?case by simp
next
  case (Suc k)
  then show ?case by (cases "settler W f"; cases "wt_waiting W (the (settler W f))") simp_all
qed

lemma follow_depends: "follow W stuck n (Some f) \<longleftrightarrow> (\<exists>k<n. \<exists>a \<in> stuck. depends W f k = Some a)"
proof (induction n arbitrary: f)
  case (Suc n)
  show ?case
  proof (cases "settler W f")
    case None
    then have "depends W f k = None" for k by (cases k) (simp, simp only: depends_later, simp)
    then show ?thesis using None by (auto simp: settler_def split: if_splits)
  next
    case (Some a)
    then have pend: "wt_state W f = 0" "wt_target W f = Some a" by (simp_all add: settler_def split: if_splits)
    show ?thesis
    proof (cases "wt_waiting W a")
      case None
      then have "depends W f (Suc k) = None" for k using Some by (simp only: depends_later) simp
      then show ?thesis using pend Some None by (cases n) (auto simp: less_Suc_eq_0_disj)
    next
      case W: (Some g)
      then have "depends W f (Suc k) = depends W g k" for k using Some by (simp only: depends_later) simp
      then show ?thesis using pend Some W Suc.IH [of g] by (auto simp: less_Suc_eq_0_disj)
    qed
  qed
qed simp

text \<open>
  A wait is refused exactly when one of the first 256 actors it depends on is the
  waiting actor itself or one buried below it; it then leaves no record behind, and
  otherwise the record of what the actor waits for stays.
\<close>

theorem wait_cycle_reported:
  "detectWaitCycle buried self awaited W =
    (let W1 = set_waiting self (Some awaited) W in
     if \<exists>k<256. \<exists>a \<in> insert self (set buried). depends W1 awaited k = Some a
     then (Inl ''deadlock'', set_waiting self None W1) else (Inr (), W1))"
  by (simp only: detectWaitCycle_def walk_chain_def follow_depends Let_def) simp

text \<open>Two actors that reach their waits at once: each records what it awaits, then walks.\<close>

lemma set_waiting_simps [simp]: "settler (set_waiting x v W) = settler W" "wt_waiting (set_waiting x v W) = (wt_waiting W)(x := v)"
  by (simp_all add: set_waiting_def settler_def fun_eq_iff)

datatype wait_step = Record nat nat | Walk nat nat

fun wait_event :: "wait_step \<Rightarrow> waits \<times> nat list \<Rightarrow> waits \<times> nat list" where
  "wait_event (Record a f) (W, refused) = (set_waiting a (Some f) W, refused)"
| "wait_event (Walk a f) (W, refused) = (case walk_chain [] a f W of (b, W1) \<Rightarrow> (W1, if b then a # refused else refused))"

definition wait_events :: "wait_step list \<Rightarrow> waits \<Rightarrow> waits \<times> nat list" where
  "wait_events evs W = foldl (\<lambda>s e. wait_event e s) (W, []) evs"

text \<open>
  When two actors wait for each other's replies, at least one of them is told,
  in whatever order the two make their records and walk the chain.
\<close>

theorem mutual_wait_reported:
  assumes "a \<noteq> b" "settler W f = Some b" "settler W g = Some a"
    and "evs \<in> shuffles [Record a f, Walk a f] [Record b g, Walk b g]"
  shows "snd (wait_events evs W) \<noteq> []"
proof -
  have told: "follow U {x} 256 (Some u)" if "settler U u = Some y" "wt_waiting U y = Some v" "settler U v = Some x" for U x y u v
    unfolding follow_depends using that by (intro exI [of _ 1]) simp
  note [simp] = wait_events_def walk_chain_def told [where y = b and v = g] told [where y = a and v = f]
  have "evs \<in> {[Record a f, Walk a f, Record b g, Walk b g], [Record a f, Record b g, Walk a f, Walk b g],
      [Record a f, Record b g, Walk b g, Walk a f], [Record b g, Record a f, Walk a f, Walk b g],
      [Record b g, Record a f, Walk b g, Walk a f], [Record b g, Walk b g, Record a f, Walk a f]}"
    using assms(4) by auto
  then show ?thesis using assms(1-3) by (elim insertE) simp_all
qed

lemma mutual_wait_reported_witness:
  "snd (wait_events [Record 10 1, Walk 10 1, Record 20 2, Walk 20 2]
     \<lparr>wt_state = (\<lambda>_. 0), wt_target = [1 \<mapsto> 20, 2 \<mapsto> 10], wt_waiting = Map.empty\<rparr>) \<noteq> []"
  by (rule mutual_wait_reported [of 10 20 _ 1 2]) (simp_all add: settler_def)

section \<open>Rejections nobody looked at\<close>

text \<open>\<open>markFutureObserved\<close> and \<open>rejectFutureFromDrain\<close>: the stamp on the future and the table entry.\<close>

record rejection =
  rj_observed :: bool
  rj_recorded :: bool

datatype rejection_step = Stamp | Erase | Check | Insert

fun reject_step :: "rejection_step \<Rightarrow> rejection \<times> bool \<Rightarrow> rejection \<times> bool" where
  "reject_step Stamp (r, unseen) = (r\<lparr>rj_observed := True\<rparr>, unseen)"
| "reject_step Erase (r, unseen) = (r\<lparr>rj_recorded := False\<rparr>, unseen)"
| "reject_step Check (r, unseen) = (r, \<not> rj_observed r)"
| "reject_step Insert (r, unseen) = (if unseen then r\<lparr>rj_recorded := True\<rparr> else r, unseen)"

definition reject_and_observe :: "rejection_step list \<Rightarrow> rejection" where
  "reject_and_observe evs = fst (foldl (\<lambda>s e. reject_step e s) (\<lparr>rj_observed = False, rj_recorded = False\<rparr>, False) evs)"

text \<open>
  C27. Of all the orders in which a rejection and its first observer can run, exactly
  one ends with the observed rejection in the table that is reported at the end: the
  observer stamps and erases between the check and the entry of the rejecting thread.
\<close>

theorem observed_rejection_reported:
  assumes "evs \<in> shuffles [Stamp, Erase] [Check, Insert]"
  shows "rj_observed (reject_and_observe evs) \<and>
    (rj_recorded (reject_and_observe evs) \<longleftrightarrow> evs = [Check, Stamp, Erase, Insert])"
proof -
  have "evs \<in> {[Stamp, Erase, Check, Insert], [Stamp, Check, Erase, Insert], [Stamp, Check, Insert, Erase],
      [Check, Stamp, Erase, Insert], [Check, Stamp, Insert, Erase], [Check, Insert, Stamp, Erase]}"
    using assms by auto
  then show ?thesis by (elim insertE) (simp_all add: reject_and_observe_def)
qed

lemma observed_rejection_reported_witness: "rj_recorded (reject_and_observe [Check, Stamp, Erase, Insert])"
  using observed_rejection_reported [of "[Check, Stamp, Erase, Insert]"] by simp

section \<open>\<open>wait\<close> in an actor\<close>

datatype 'v waited =
    Value 'v
  | Rejected 'v
  | Suspended nat
  | Helping nat
  | Refused string

text \<open>\<open>engines\<close> counts the engines below on this thread: with more than one the actor cannot be suspended.\<close>

definition wait_in_actor :: "nat list \<Rightarrow> nat \<Rightarrow> nat \<Rightarrow> (nat \<Rightarrow> 'v) \<Rightarrow> (nat \<Rightarrow> 'v) \<Rightarrow> nat \<Rightarrow> waits \<Rightarrow> 'v waited \<times> waits" where
  "wait_in_actor buried self engines value error f W =
     (if wt_state W f = 0 then
        (case detectWaitCycle buried self f W of
           (Inl msg, W1) \<Rightarrow> (Refused msg, W1)
         | (Inr _, W1) \<Rightarrow> (if engines > 1 then Helping f else Suspended f, W1))
      else (if wt_state W f = 1 then Value (value f) else Rejected (error f), W))"

end
