(* ===== verification/Exceptions.thy ===== *)
theory Exceptions
  imports ProtoObjects HandlerStack
begin

text \<open>
  src/primitives/exception_prims.cpp: signalling, the actions of a handler, protected
  blocks and cleanup blocks, on top of the handler stack of \<open>HandlerStack\<close>.  The C++
  exceptions that carry protoST's control flow (UnwindToHandler.h, ResumeSignal.h,
  RetrySignal.h, PassSignal.h, NestingLimitUnwind.h, FutureYield.h,
  UnhandledSTException.h) are the constructors of \<open>signal\<close>.
\<close>

section \<open>What is thrown, and the state\<close>

text \<open>
  \<open>Beyond\<close> is any other exception, a non-local return among them.  \<open>Unfinished\<close> is
  none: a loop of this file that has not ended within the rounds given to it.
\<close>

datatype ('v, 'x) signal =
    Unwind_to nat 'v
  | Resume_with nat 'v
  | Retry_from nat
  | Pass_on nat
  | Nesting_limit nat
  | Yielded nat
  | Unhandled 'v string bool "'x option"
  | Beyond 'x
  | Unfinished

text \<open>\<open>ActiveSignal\<close>: a handler that runs, the exception it handles, and whether that is foreign.\<close>

record 'v active =
  ac_exception :: 'v
  ac_handlerId :: nat
  ac_foreign :: bool

text \<open>
  The handler stacks, the active signals of this thread (the innermost last),
  \<open>t_signalFromPrimitive\<close>, what was written to stderr, and everything else.
\<close>

record ('v, 'w) xstate =
  xs_handlers :: "'v handlers"
  xs_active :: "'v active list"
  xs_fromPrimitive :: bool
  xs_stderr :: "string list"
  xs_world :: 'w

type_synonym ('v, 'w, 'x, 'a) xrun = "(('v, 'w) xstate, ('v, 'x) signal, 'a) run"

text \<open>
  Parameters: the thread, the prototypes, protoCore's tests, and the engine's answers.
  \<open>ee_depth\<close> bounds the recursion of a guard set in itself, \<open>ee_rounds\<close> the turns of
  a loop; \<open>ee_debug\<close> is the debugger's stop at an exception.
\<close>

record ('v, 'w, 'x) exc_env = "('v, ('v, 'w) xstate, ('v, 'x) signal) proto" +
  ee_thread :: nat
  ee_depth :: nat
  ee_rounds :: nat
  ee_exceptionProto :: 'v
  ee_errorProto :: 'v
  ee_zeroDivideProto :: 'v
  ee_arithmeticErrorProto :: 'v
  ee_mnuProto :: 'v
  ee_messageProto :: 'v
  ee_arrayProto :: 'v
  ee_hasParent :: "'v \<Rightarrow> 'v \<Rightarrow> ('v, 'w) xstate \<Rightarrow> bool"
  ee_isCell :: "'v \<Rightarrow> bool"
  ee_global :: "string \<Rightarrow> ('v, 'w) xstate \<Rightarrow> 'v option"
  ee_blockArgCount :: "'v \<Rightarrow> ('v, 'w) xstate \<Rightarrow> nat"
  ee_canStartNestedEngine :: "('v, 'w) xstate \<Rightarrow> bool"
  ee_onActor :: "('v, 'w) xstate \<Rightarrow> bool"
  ee_debug :: "'v \<Rightarrow> bool \<Rightarrow> bool \<Rightarrow> ('v, 'w) xstate \<Rightarrow> ('v, 'w) xstate"

definition kNestingLimitMessage :: string where
  "kNestingLimitMessage = ''stack depth exceeded (nested block evaluation)''"

section \<open>Reading an exception\<close>

definition findActiveSignal :: "'v \<Rightarrow> ('v, 'w) xstate \<Rightarrow> 'v active option" where
  "findActiveSignal exc s = find (\<lambda>a. ac_exception a = exc) (rev (xs_active s))"

definition activeHandlerIdOf :: "'v \<Rightarrow> ('v, 'w) xstate \<Rightarrow> nat" where
  "activeHandlerIdOf exc s = (case findActiveSignal exc s of None \<Rightarrow> 0 | Some a \<Rightarrow> ac_handlerId a)"

definition isResumable :: "('v, 'w, 'x) exc_env \<Rightarrow> 'v \<Rightarrow> ('v, 'w) xstate \<Rightarrow> bool" where
  "isResumable C exc s =
     (if (case findActiveSignal exc s of None \<Rightarrow> False | Some a \<Rightarrow> ac_foreign a) then False
      else case present C (px_get C exc ''__resumable__'' s) of None \<Rightarrow> True | Some m \<Rightarrow> m = px_true C)"

definition stringAttribute :: "('v, 'w, 'x) exc_env \<Rightarrow> 'v \<Rightarrow> string \<Rightarrow> ('v, 'w) xstate \<Rightarrow> string" where
  "stringAttribute C v name s =
     (if v = px_none C \<or> \<not> ee_isCell C v \<or> px_text C v \<noteq> None then ''''
      else case present C (px_get C v name s) of None \<Rightarrow> ''''
           | Some a \<Rightarrow> (case px_text C a of None \<Rightarrow> '''' | Some t \<Rightarrow> t))"

definition isClassObject :: "('v, 'w, 'x) exc_env \<Rightarrow> 'v \<Rightarrow> ('v, 'w) xstate \<Rightarrow> bool" where
  "isClassObject C obj s = (present C (px_own C obj ''__class_name__'' s) \<noteq> None)"

text \<open>The text an attribute holds, empty when there is none.\<close>

definition text_of :: "('v, 'w, 'x) exc_env \<Rightarrow> 'v \<Rightarrow> string \<Rightarrow> ('v, 'w) xstate \<Rightarrow> string" where
  "text_of C v key s =
     (case present C (px_get C v key s) of None \<Rightarrow> '''' | Some m \<Rightarrow> (case px_text C m of None \<Rightarrow> '''' | Some t \<Rightarrow> t))"

definition messageTextOf :: "('v, 'w, 'x) exc_env \<Rightarrow> 'v \<Rightarrow> ('v, 'w) xstate \<Rightarrow> string" where
  "messageTextOf C exc s = text_of C exc ''__message_text__'' s"

definition isExceptionInstance :: "('v, 'w, 'x) exc_env \<Rightarrow> 'v \<Rightarrow> ('v, 'w) xstate \<Rightarrow> bool" where
  "isExceptionInstance C v s \<longleftrightarrow>
     v \<noteq> px_none C \<and> \<not> px_isInteger C v \<and> px_text C v = None \<and> ee_hasParent C v (ee_exceptionProto C) s"

definition isExceptionClassObject :: "('v, 'w, 'x) exc_env \<Rightarrow> 'v \<Rightarrow> ('v, 'w) xstate \<Rightarrow> bool" where
  "isExceptionClassObject C v s \<longleftrightarrow>
     v \<noteq> px_none C \<and> \<not> px_isInteger C v \<and> px_text C v = None \<and>
     (v = ee_errorProto C \<or> ee_hasParent C v (ee_errorProto C) s)"

definition starts_with :: "string \<Rightarrow> string \<Rightarrow> bool" where
  "starts_with p t \<longleftrightarrow> take (length p) t = p"

text \<open>The text reported: \<open>messageText\<close> may be overridden and may fail.\<close>

definition defaultActionMessage :: "('v, 'w, 'x) exc_env \<Rightarrow> 'v \<Rightarrow> ('v, 'w) xstate \<Rightarrow> string \<times> ('v, 'w) xstate" where
  "defaultActionMessage C exc s =
     (let className = text_of C exc ''__class_name__'' s; (r, s1) = px_send C exc ''messageText'' [] s;
          answer = (case r of
              Inr (Some m) \<Rightarrow> (case present C m of None \<Rightarrow> '''' | Some m \<Rightarrow> (case px_text C m of None \<Rightarrow> '''' | Some t \<Rightarrow> t))
            | _ \<Rightarrow> '''');
          text = (if answer = '''' then messageTextOf C exc s1 else answer)
      in (if text = '''' then if className = '''' then ''unhandled exception'' else className
          else if className = '''' \<or> className = ''Error'' \<or> className = ''MessageNotUnderstood'' \<or> text = className \<or>
            starts_with (className @ '':'') text then text
          else className @ '': '' @ text, s1))"

definition describeForeignValue :: "('v, 'w, 'x) exc_env \<Rightarrow> 'v \<Rightarrow> ('v, 'w) xstate \<Rightarrow> string" where
  "describeForeignValue C v s =
     (let name = stringAttribute C v ''name'' s; message = stringAttribute C v ''message'' s
      in if name \<noteq> '''' \<and> message \<noteq> '''' then name @ '': '' @ message
         else if message \<noteq> '''' then message else if name \<noteq> '''' then name else ''a foreign exception'')"

section \<open>Signalling\<close>

text \<open>No handler: an Error ends the activation, a resumable exception goes on with nil.\<close>

definition defaultAction :: "('v, 'w, 'x) exc_env \<Rightarrow> 'v \<Rightarrow> ('v, 'w, 'x, 'v) xrun" where
  "defaultAction C exc s =
     (if px_get C exc ''__unhandled_is_error__'' s = Some (px_true C) \<or> \<not> isResumable C exc s then
        (case defaultActionMessage C exc s of (m, s1) \<Rightarrow> (Inl (Thrown (Unhandled exc m (ee_onActor C s) None)), s1))
      else
        (let m = messageTextOf C exc s; cn = present C (px_get C exc ''__class_name__'' s);
             label = (case cn of None \<Rightarrow> ''Exception'' | Some n \<Rightarrow> (case px_text C n of None \<Rightarrow> ''Exception'' | Some t \<Rightarrow> t))
         in (Inr (px_none C), if m = '''' then s else s\<lparr>xs_stderr := xs_stderr s @ [label @ '': '' @ m]\<rparr>)))"

definition foreignDefaultAction :: "('v, 'w, 'x) exc_env \<Rightarrow> 'v \<Rightarrow> 'x option \<Rightarrow> ('v, 'w, 'x, 'v) xrun" where
  "foreignDefaultAction C exc origin s =
     (Inl (Thrown (Unhandled exc (describeForeignValue C exc s) (ee_onActor C s) origin)), s)"

definition newNestingLimitError :: "('v, 'w, 'x) exc_env \<Rightarrow> ('v, 'w) xstate \<Rightarrow> 'v \<times> ('v, 'w) xstate" where
  "newNestingLimitError C s =
     (case px_child C (ee_errorProto C) s of
        (exc, s1) \<Rightarrow> (exc, px_set C exc ''__resumable__'' (px_false C)
           (px_set C exc ''__message_text__'' (px_fromText C kNestingLimitMessage) s1)))"

text \<open>What the handler stack reads of protoCore's objects now.\<close>

definition heap_of :: "('v, 'w, 'x) exc_env \<Rightarrow> ('v, 'w) xstate \<Rightarrow> 'v heap" where
  "heap_of C s = \<lparr>h_attr = (\<lambda>v k. px_get C v k s), h_none = px_none C, h_list = (\<lambda>v. map_option (map Some) (px_list C v)),
     h_parent = (\<lambda>x g. ee_hasParent C x g s)\<rparr>"

definition find_match :: "('v, 'w, 'x) exc_env \<Rightarrow> 'v \<Rightarrow> nat \<Rightarrow> bool \<Rightarrow> ('v, 'w) xstate \<Rightarrow> 'v handler option option" where
  "find_match C exc below foreign s =
     handlerStackFindMatch (ee_depth C) (heap_of C s) (ee_thread C) (Some exc) below
       (if foreign then Some (ee_exceptionProto C) else None) (xs_handlers s)"

definition raiseNestingLimitError :: "('v, 'w, 'x) exc_env \<Rightarrow> nat \<Rightarrow> ('v, 'w, 'x, 'v) xrun" where
  "raiseNestingLimitError C below s =
     (case newNestingLimitError C s of
        (exc, s1) \<Rightarrow>
          (case find_match C exc below False s1 of
             None \<Rightarrow> (Inl (Thrown Unfinished), s1)
           | Some (Some e) \<Rightarrow> (Inl (Thrown (Nesting_limit (he_id e))), s1)
           | Some None \<Rightarrow> andThen (defaultAction C exc) (\<lambda>_. throw (Std_error ''the default action of an Error returned'')) s1))"

text \<open>A handler runs with its entry and the inner ones disabled, and as the innermost active signal.\<close>

definition set_handlers :: "'v handlers \<Rightarrow> ('v, 'w) xstate \<Rightarrow> ('v, 'w) xstate" where
  "set_handlers H s = s\<lparr>xs_handlers := H\<rparr>"

definition run_handler :: "('v, 'w, 'x) exc_env \<Rightarrow> 'v \<Rightarrow> bool \<Rightarrow> 'v handler \<Rightarrow> ('v, 'w, 'x, 'v) xrun" where
  "run_handler C exc foreign e s =
     (case handlerStackDisableFrom (ee_thread C) (he_id e) (xs_handlers s) of
        (ids, H) \<Rightarrow>
          (let s1 = (set_handlers H s)\<lparr>xs_active := xs_active s @ [\<lparr>ac_exception = exc, ac_handlerId = he_id e, ac_foreign = foreign\<rparr>]\<rparr>;
               block = or_nil C (he_block e);
               (r, s2) = invokeBlock C block (if ee_blockArgCount C block s1 = 0 then [] else [exc]) s1;
               s3 = s2\<lparr>xs_active := butlast (xs_active s2)\<rparr>
           in (r, set_handlers (handlerStackRestore (ee_thread C) ids (xs_handlers s3)) s3)))"

text \<open>The loop of \<open>signalInstance\<close>; \<open>first\<close> is the handler to enter at once, if any.\<close>

primrec signal_turns :: "('v, 'w, 'x) exc_env \<Rightarrow> 'v \<Rightarrow> bool \<Rightarrow> 'x option \<Rightarrow> nat \<Rightarrow> nat \<Rightarrow> nat \<Rightarrow> ('v, 'w, 'x, 'v) xrun" where
  "signal_turns C exc foreign origin 0 first below = throw (Thrown Unfinished)"
| "signal_turns C exc foreign origin (Suc n) first below = (\<lambda>s.
     case (if first \<noteq> 0 then Some (handlerStackFindById (ee_thread C) first (xs_handlers s)) else find_match C exc below foreign s) of
       None \<Rightarrow> (Inl (Thrown Unfinished), s)
     | Some None \<Rightarrow> (if foreign then foreignDefaultAction C exc origin s else defaultAction C exc s)
     | Some (Some e) \<Rightarrow>
         if \<not> ee_canStartNestedEngine C s then raiseNestingLimitError C below s
         else case run_handler C exc foreign e s of
                (Inr v, s1) \<Rightarrow> (Inl (Thrown (Unwind_to (he_id e) v)), s1)
              | (Inl x, s1) \<Rightarrow>
                  (case x of
                     Thrown (Resume_with i v) \<Rightarrow> if i = he_id e then (Inr v, s1) else (Inl x, s1)
                   | Thrown (Pass_on i) \<Rightarrow> if i = he_id e then signal_turns C exc foreign origin n 0 i s1 else (Inl x, s1)
                   | _ \<Rightarrow> (Inl x, s1)))"

definition signalInstance :: "('v, 'w, 'x) exc_env \<Rightarrow> 'v \<Rightarrow> nat \<Rightarrow> 'x option \<Rightarrow> ('v, 'w, 'x, 'v) xrun" where
  "signalInstance C exc first origin s =
     (let foreign = (\<not> isExceptionInstance C exc s); s1 = s\<lparr>xs_fromPrimitive := False\<rparr>;
          s2 = (if first = 0 then ee_debug C exc foreign (xs_fromPrimitive s) s1 else s1)
      in signal_turns C exc foreign origin (ee_rounds C) first 0 s2)"

section \<open>Signalling from C++\<close>

definition signalErrorOfClass :: "('v, 'w, 'x) exc_env \<Rightarrow> 'v \<Rightarrow> string \<Rightarrow> ('v, 'w, 'x, 'v) xrun" where
  "signalErrorOfClass C cls message s =
     (case px_child C cls s of
        (exc, s1) \<Rightarrow> signalInstance C exc 0 None
          (px_set C exc ''__resumable__'' (px_false C) (px_set C exc ''__message_text__'' (px_fromText C message) s1)))"

definition signalNativeError :: "('v, 'w, 'x) exc_env \<Rightarrow> string \<Rightarrow> ('v, 'w, 'x, 'v) xrun" where
  "signalNativeError C message s = signalErrorOfClass C (ee_errorProto C) message (s\<lparr>xs_fromPrimitive := True\<rparr>)"

definition signalErrorNamed :: "('v, 'w, 'x) exc_env \<Rightarrow> string \<Rightarrow> string \<Rightarrow> ('v, 'w, 'x, 'v) xrun" where
  "signalErrorNamed C className message s =
     (case present C (ee_global C className s) of
        None \<Rightarrow> signalNativeError C message s
      | Some cls \<Rightarrow>
          if \<not> isExceptionClassObject C cls s then signalNativeError C message s
          else signalErrorOfClass C cls message (s\<lparr>xs_fromPrimitive := True\<rparr>))"

definition makeMessage :: "('v, 'w, 'x) exc_env \<Rightarrow> string \<Rightarrow> 'v list \<Rightarrow> ('v, 'w) xstate \<Rightarrow> 'v \<times> ('v, 'w) xstate" where
  "makeMessage C selector args s =
     (case px_child C (ee_arrayProto C) s of
        (arr, s1) \<Rightarrow>
          (case px_child C (ee_messageProto C) (px_set C arr ''__data__'' (px_fromList C args) s1) of
             (msg, s2) \<Rightarrow> (msg, px_set C msg ''__arguments__'' arr (px_set C msg ''__selector__'' (px_fromText C selector) s2))))"

definition signalMessageNotUnderstood :: "('v, 'w, 'x) exc_env \<Rightarrow> 'v \<Rightarrow> 'v \<Rightarrow> string \<Rightarrow> ('v, 'w, 'x, 'v) xrun" where
  "signalMessageNotUnderstood C receiver message text s =
     (case px_child C (ee_mnuProto C) s of
        (exc, s1) \<Rightarrow> signalInstance C exc 0 None
          (px_set C exc ''__message__'' message (px_set C exc ''__receiver__'' receiver
            (px_set C exc ''__message_text__'' (px_fromText C text) s1))))"

definition signalProtoException :: "('v, 'w, 'x) exc_env \<Rightarrow> 'v \<Rightarrow> 'x \<Rightarrow> ('v, 'w, 'x, 'v) xrun" where
  "signalProtoException C v caught s =
     signalInstance C v 0 (if isExceptionInstance C v s then None else Some caught) (s\<lparr>xs_fromPrimitive := True\<rparr>)"

definition canSendToForeignException :: "('v, 'w, 'x) exc_env \<Rightarrow> 'v \<Rightarrow> string \<Rightarrow> ('v, 'w) xstate \<Rightarrow> bool" where
  "canSendToForeignException C recv selector s =
     (case findActiveSignal recv s of
        None \<Rightarrow> False
      | Some a \<Rightarrow> ac_foreign a \<and> present C (px_get C (ee_errorProto C) selector s) \<noteq> None)"

text \<open>protoCore's own errors as protoST exceptions.\<close>

datatype error_kind = DivisionByZero | Overflow | InvalidArgument | TypeMismatch | ArityMismatch

definition error_class :: "('v, 'w, 'x) exc_env \<Rightarrow> error_kind \<Rightarrow> ('v, 'w) xstate \<Rightarrow> 'v" where
  "error_class C kind s =
     (case kind of
        DivisionByZero \<Rightarrow> ee_zeroDivideProto C
      | Overflow \<Rightarrow> ee_arithmeticErrorProto C
      | ArityMismatch \<Rightarrow> ee_errorProto C
      | _ \<Rightarrow> (case present C (ee_global C ''InvalidArgument'' s) of
               None \<Rightarrow> ee_errorProto C
             | Some g \<Rightarrow> if isExceptionClassObject C g s then g else ee_errorProto C))"

definition stErrorFactory :: "('v, 'w, 'x) exc_env \<Rightarrow> error_kind \<Rightarrow> string \<Rightarrow> ('v, 'w) xstate \<Rightarrow> 'v \<times> ('v, 'w) xstate" where
  "stErrorFactory C kind message s =
     (case px_child C (error_class C kind s) s of
        (exc, s1) \<Rightarrow> (exc, px_set C exc ''__message_text__'' (px_fromText C message) s1))"

section \<open>The Exception protocol\<close>

definition prim_Exception_isResumable :: "('v, 'w, 'x) exc_env \<Rightarrow> 'v \<Rightarrow> 'v list \<Rightarrow> ('v, 'w, 'x, 'v) xrun" where
  "prim_Exception_isResumable C r a = reads (\<lambda>s. bool_obj C (isResumable C r s))"

definition instance_for :: "('v, 'w, 'x) exc_env \<Rightarrow> 'v \<Rightarrow> ('v, 'w) xstate \<Rightarrow> 'v \<times> ('v, 'w) xstate" where
  "instance_for C r s = (if isClassObject C r s then px_child C r s else (r, s))"

definition prim_Exception_signal :: "('v, 'w, 'x) exc_env \<Rightarrow> 'v \<Rightarrow> 'v list \<Rightarrow> ('v, 'w, 'x, 'v) xrun" where
  "prim_Exception_signal C r a s = (case instance_for C r s of (exc, s1) \<Rightarrow> signalInstance C exc 0 None s1)"

definition prim_Exception_signalText :: "('v, 'w, 'x) exc_env \<Rightarrow> 'v \<Rightarrow> 'v list \<Rightarrow> ('v, 'w, 'x, 'v) xrun" where
  "prim_Exception_signalText C r a s =
     (case a of
        [text] \<Rightarrow> (case instance_for C r s of (exc, s1) \<Rightarrow> signalInstance C exc 0 None (px_set C exc ''__message_text__'' text s1))
      | _ \<Rightarrow> (Inl (Std_error ''signal: expects 1 arg (message string)''), s))"

definition prim_Exception_messageText :: "('v, 'w, 'x) exc_env \<Rightarrow> 'v \<Rightarrow> 'v list \<Rightarrow> ('v, 'w, 'x, 'v) xrun" where
  "prim_Exception_messageText C r a = reads (\<lambda>s.
     case present C (px_get C r ''__message_text__'' s) of
       Some m \<Rightarrow> m
     | None \<Rightarrow>
         let foreign_text = (if \<not> isExceptionInstance C r s \<and> r \<noteq> px_none C \<and> ee_isCell C r \<and> px_text C r = None
               then (case present C (px_get C r ''message'' s) of
                       Some m \<Rightarrow> if px_text C m \<noteq> None then Some m else None | None \<Rightarrow> None) else None)
         in case foreign_text of Some m \<Rightarrow> m | None \<Rightarrow> or_nil C (present C (px_get C r ''__class_name__'' s)))"

definition prim_Exception_setMessageText :: "('v, 'w, 'x) exc_env \<Rightarrow> 'v \<Rightarrow> 'v list \<Rightarrow> ('v, 'w, 'x, 'v) xrun" where
  "prim_Exception_setMessageText C r a s =
     (case a of [text] \<Rightarrow> (Inr r, px_set C r ''__message_text__'' text s) | _ \<Rightarrow> (Inl (Std_error ''messageText: expects 1 arg''), s))"

text \<open>The actions of a handler find its entry by the exception.\<close>

definition with_handler :: "string \<Rightarrow> 'v \<Rightarrow> (nat \<Rightarrow> ('v, 'x) signal) \<Rightarrow> ('v, 'w, 'x, 'v) xrun" where
  "with_handler msg r f s =
     (if activeHandlerIdOf r s = 0 then (Inl (Std_error msg), s) else (Inl (Thrown (f (activeHandlerIdOf r s))), s))"

definition prim_Exception_return :: "('v, 'w, 'x) exc_env \<Rightarrow> 'v \<Rightarrow> 'v list \<Rightarrow> ('v, 'w, 'x, 'v) xrun" where
  "prim_Exception_return C r a =
     (case a of
        [v] \<Rightarrow> with_handler ''return: sent to an exception with no active handler'' r (\<lambda>i. Unwind_to i v)
      | _ \<Rightarrow> throw (Std_error ''return: expects 1 arg (value)''))"

definition prim_Exception_resume :: "('v, 'w, 'x) exc_env \<Rightarrow> 'v \<Rightarrow> 'v list \<Rightarrow> ('v, 'w, 'x, 'v) xrun" where
  "prim_Exception_resume C r a s =
     (if length a > 1 then (Inl (Std_error ''resume: expects 0 or 1 arg (value)''), s)
      else if \<not> isResumable C r s then (Inl (Std_error ''cannot resume a non-resumable exception''), s)
      else with_handler ''resume: sent to an exception with no active handler'' r
        (\<lambda>i. Resume_with i (case a of [v] \<Rightarrow> v | _ \<Rightarrow> px_none C)) s)"

definition prim_Exception_retry :: "('v, 'w, 'x) exc_env \<Rightarrow> 'v \<Rightarrow> 'v list \<Rightarrow> ('v, 'w, 'x, 'v) xrun" where
  "prim_Exception_retry C r a = with_handler ''retry sent to an exception with no active handler'' r Retry_from"

definition prim_Exception_pass :: "('v, 'w, 'x) exc_env \<Rightarrow> 'v \<Rightarrow> 'v list \<Rightarrow> ('v, 'w, 'x, 'v) xrun" where
  "prim_Exception_pass C r a = with_handler ''pass sent to an exception with no active handler'' r Pass_on"

section \<open>Protected blocks\<close>

definition push_handler :: "('v, 'w, 'x) exc_env \<Rightarrow> 'v \<Rightarrow> 'v \<Rightarrow> ('v, 'w) xstate \<Rightarrow> nat \<times> ('v, 'w) xstate" where
  "push_handler C guard block s =
     (case handlerStackPush (ee_thread C) (Some guard) (Some block) (xs_handlers s) of (i, H) \<Rightarrow> (i, set_handlers H s))"

definition pop_handler :: "('v, 'w, 'x) exc_env \<Rightarrow> nat \<Rightarrow> ('v, 'w) xstate \<Rightarrow> ('v, 'w) xstate" where
  "pop_handler C i s = set_handlers (handlerStackPop (ee_thread C) i (xs_handlers s)) s"

definition signalNestingLimitAt :: "('v, 'w, 'x) exc_env \<Rightarrow> nat \<Rightarrow> ('v, 'w, 'x, 'v) xrun" where
  "signalNestingLimitAt C i s = (case newNestingLimitError C s of (exc, s1) \<Rightarrow> signalInstance C exc i None s1)"

text \<open>
  One attempt per turn.  \<open>limit\<close> is 0, or the entry whose handler has to run on the
  nesting limit's Error instead of the protected block.  Giving up pops the entries.
\<close>

primrec protect :: "('v, 'w, 'x) exc_env \<Rightarrow> ('v \<times> 'v) list \<Rightarrow> 'v \<Rightarrow> nat \<Rightarrow> nat \<Rightarrow> nat list \<Rightarrow> ('v, 'w, 'x, 'v) xrun" where
  "protect C guards block 0 limit ids = (\<lambda>s. (Inl (Thrown Unfinished), foldl (\<lambda>s i. pop_handler C i s) s (rev ids)))"
| "protect C guards block (Suc n) limit ids = (\<lambda>s.
     case (if limit = 0 then foldl (\<lambda>(ids, s) (g, h). case push_handler C g h s of (i, s1) \<Rightarrow> (ids @ [i], s1)) ([], s) guards
           else (ids, s)) of
       (ids, s1) \<Rightarrow>
         (let popAll = (\<lambda>s. foldl (\<lambda>s i. pop_handler C i s) s (rev ids))
          in case (if limit = 0 then invokeBlock C block [] else signalNestingLimitAt C limit) s1 of
               (Inr v, s2) \<Rightarrow> (Inr v, popAll s2)
             | (Inl x, s2) \<Rightarrow>
                 (case x of
                    Thrown (Unwind_to i v) \<Rightarrow> (if i \<in> set ids then Inr v else Inl x, popAll s2)
                  | Thrown (Retry_from i) \<Rightarrow> if i \<in> set ids then protect C guards block n 0 [] (popAll s2) else (Inl x, popAll s2)
                  | Thrown (Nesting_limit i) \<Rightarrow>
                      if limit = 0 \<and> i \<in> set ids then protect C guards block n i ids s2 else (Inl x, popAll s2)
                  | _ \<Rightarrow> (Inl x, popAll s2))))"

text \<open>The shortcut for one guard.\<close>

primrec protect_single :: "('v, 'w, 'x) exc_env \<Rightarrow> 'v \<Rightarrow> 'v \<Rightarrow> 'v \<Rightarrow> nat \<Rightarrow> bool \<Rightarrow> nat \<Rightarrow> ('v, 'w, 'x, 'v) xrun" where
  "protect_single C block guard handler 0 pending i = (\<lambda>s. (Inl (Thrown Unfinished), if pending then pop_handler C i s else s))"
| "protect_single C block guard handler (Suc n) pending i0 = (\<lambda>s.
     case (if pending then (i0, s) else push_handler C guard handler s) of
       (i, s1) \<Rightarrow>
         (case (if pending then signalNestingLimitAt C i else invokeBlock C block []) s1 of
            (Inr v, s2) \<Rightarrow> (Inr v, pop_handler C i s2)
          | (Inl x, s2) \<Rightarrow>
              (case x of
                 Thrown (Unwind_to j v) \<Rightarrow> (if j = i then Inr v else Inl x, pop_handler C i s2)
               | Thrown (Retry_from j) \<Rightarrow>
                   if j = i then protect_single C block guard handler n False 0 (pop_handler C i s2) else (Inl x, pop_handler C i s2)
               | Thrown (Nesting_limit j) \<Rightarrow>
                   if j = i \<and> \<not> pending then protect_single C block guard handler n True i s2 else (Inl x, pop_handler C i s2)
               | _ \<Rightarrow> (Inl x, pop_handler C i s2))))"

definition runProtectedSingle :: "('v, 'w, 'x) exc_env \<Rightarrow> 'v \<Rightarrow> 'v \<Rightarrow> 'v \<Rightarrow> ('v, 'w, 'x, 'v) xrun" where
  "runProtectedSingle C block guard handler = protect_single C block guard handler (ee_rounds C) False 0"

definition runProtected :: "('v, 'w, 'x) exc_env \<Rightarrow> 'v \<Rightarrow> ('v \<times> 'v) list \<Rightarrow> ('v, 'w, 'x, 'v) xrun" where
  "runProtected C block guards =
     (case guards of [(guard, handler)] \<Rightarrow> runProtectedSingle C block guard handler | _ \<Rightarrow> protect C guards block (ee_rounds C) 0 [])"

definition prim_Block_on_do :: "('v, 'w, 'x) exc_env \<Rightarrow> 'v \<Rightarrow> 'v list \<Rightarrow> ('v, 'w, 'x, 'v) xrun" where
  "prim_Block_on_do C block a =
     (case a of
        [guard, handler] \<Rightarrow> runProtectedSingle C block guard handler
      | _ \<Rightarrow> throw (Std_error ''on:do: expects 2 args (guard class, handler block)''))"

definition prim_Block_on_do_on_do :: "('v, 'w, 'x) exc_env \<Rightarrow> 'v \<Rightarrow> 'v list \<Rightarrow> ('v, 'w, 'x, 'v) xrun" where
  "prim_Block_on_do_on_do C block a =
     (case a of
        [g1, h1, g2, h2] \<Rightarrow> runProtected C block [(g1, h1), (g2, h2)]
      | _ \<Rightarrow> throw (Std_error ''on:do:on:do: expects 4 args (guard, handler, guard, handler)''))"

section \<open>Cleanup blocks\<close>

text \<open>
  Both calls of the cleanup block as the code has them: the first inside the
  \<open>try\<close>, whose \<open>catch (...)\<close> also sees what the cleanup itself throws.
\<close>

definition suspends :: "('v, 'x) signal failure \<Rightarrow> bool" where
  "suspends x = (case x of Thrown (Yielded f) \<Rightarrow> True | Thrown Unfinished \<Rightarrow> True | _ \<Rightarrow> False)"

definition cleanup_after :: "('v, 'w, 'x) exc_env \<Rightarrow> 'v \<Rightarrow> ('v, 'w, 'x, 'v) xrun \<Rightarrow> ('v, 'w, 'x, 'v) xrun" where
  "cleanup_after C cleanup body s =
     (case body s of
        (Inr v, s1) \<Rightarrow> (Inr v, s1)
      | (Inl x, s1) \<Rightarrow> if suspends x then (Inl x, s1) else andThen (invokeBlock C cleanup []) (\<lambda>_. throw x) s1)"

definition prim_Block_ensure :: "('v, 'w, 'x) exc_env \<Rightarrow> 'v \<Rightarrow> 'v list \<Rightarrow> ('v, 'w, 'x, 'v) xrun" where
  "prim_Block_ensure C block a =
     (case a of
        [cleanup] \<Rightarrow>
          cleanup_after C cleanup (andThen (invokeBlock C block []) (\<lambda>v. andThen (invokeBlock C cleanup []) (\<lambda>_. ret v)))
      | _ \<Rightarrow> throw (Std_error ''ensure: expects 1 arg (cleanup block)''))"

definition prim_Block_ifCurtailed :: "('v, 'w, 'x) exc_env \<Rightarrow> 'v \<Rightarrow> 'v list \<Rightarrow> ('v, 'w, 'x, 'v) xrun" where
  "prim_Block_ifCurtailed C block a =
     (case a of
        [cleanup] \<Rightarrow> cleanup_after C cleanup (invokeBlock C block [])
      | _ \<Rightarrow> throw (Std_error ''ifCurtailed: expects 1 arg (cleanup block)''))"

section \<open>MessageNotUnderstood and Message, and the table\<close>

definition attrOrNil :: "('v, 'w, 'x) exc_env \<Rightarrow> 'v \<Rightarrow> string \<Rightarrow> ('v, 'w) xstate \<Rightarrow> 'v" where
  "attrOrNil C r key s = or_nil C (present C (px_get C r key s))"

definition prim_MNU_receiver :: "('v, 'w, 'x) exc_env \<Rightarrow> 'v \<Rightarrow> 'v list \<Rightarrow> ('v, 'w, 'x, 'v) xrun" where
  "prim_MNU_receiver C r a = reads (attrOrNil C r ''__receiver__'')"

definition prim_MNU_message :: "('v, 'w, 'x) exc_env \<Rightarrow> 'v \<Rightarrow> 'v list \<Rightarrow> ('v, 'w, 'x, 'v) xrun" where
  "prim_MNU_message C r a = reads (attrOrNil C r ''__message__'')"

definition prim_Message_selector :: "('v, 'w, 'x) exc_env \<Rightarrow> 'v \<Rightarrow> 'v list \<Rightarrow> ('v, 'w, 'x, 'v) xrun" where
  "prim_Message_selector C r a = reads (attrOrNil C r ''__selector__'')"

definition prim_Message_arguments :: "('v, 'w, 'x) exc_env \<Rightarrow> 'v \<Rightarrow> 'v list \<Rightarrow> ('v, 'w, 'x, 'v) xrun" where
  "prim_Message_arguments C r a = reads (attrOrNil C r ''__arguments__'')"

definition installExceptionPrimitives :: "(string \<times> string \<times> (('v, 'w, 'x) exc_env \<Rightarrow> 'v \<Rightarrow> 'v list \<Rightarrow> ('v, 'w, 'x, 'v) xrun)) list" where
  "installExceptionPrimitives =
     [(''exceptionProto'', ''signal'', prim_Exception_signal), (''exceptionProto'', ''signal:'', prim_Exception_signalText),
      (''messageNotUnderstoodProto'', ''receiver'', prim_MNU_receiver), (''messageNotUnderstoodProto'', ''message'', prim_MNU_message),
      (''messageProto'', ''selector'', prim_Message_selector), (''messageProto'', ''arguments'', prim_Message_arguments),
      (''exceptionProto'', ''messageText'', prim_Exception_messageText), (''exceptionProto'', ''messageText:'', prim_Exception_setMessageText),
      (''exceptionProto'', ''return:'', prim_Exception_return), (''exceptionProto'', ''__isResumable'', prim_Exception_isResumable),
      (''exceptionProto'', ''resume:'', prim_Exception_resume), (''exceptionProto'', ''resume'', prim_Exception_resume),
      (''exceptionProto'', ''retry'', prim_Exception_retry), (''exceptionProto'', ''pass'', prim_Exception_pass),
      (''exceptionProto'', ''outer'', prim_Exception_pass), (''blockProto'', ''on:do:'', prim_Block_on_do),
      (''blockProto'', ''on:do:on:do:'', prim_Block_on_do_on_do), (''blockProto'', ''ensure:'', prim_Block_ensure),
      (''blockProto'', ''ifCurtailed:'', prim_Block_ifCurtailed)]"

end
