(* ===== verification/ExceptionLaws.thy ===== *)
theory ExceptionLaws
  imports Exceptions
begin

text \<open>
  What the exception primitives guarantee to user code: the handler stack of the
  thread is left as it was found, the shortcut for one guard is the general loop, a
  handler decides how the protected block ends, a signal ends, and how often a
  cleanup block runs.
\<close>

section \<open>The handler stack is left as found\<close>

text \<open>
  The thread's entries and its active signals are the same before and after; what other
  threads do to theirs is free.
\<close>

definition steady :: "('v, 'w, 'x) exc_env \<Rightarrow> ('v, 'w) xstate \<Rightarrow> ('v, 'w) xstate \<Rightarrow> bool" where
  "steady C s s' \<longleftrightarrow> (unique_ids (xs_handlers s) \<longrightarrow>
     unique_ids (xs_handlers s') \<and> hs_stack (xs_handlers s') (ee_thread C) = hs_stack (xs_handlers s) (ee_thread C) \<and>
     xs_active s' = xs_active s)"

definition balanced :: "('v, 'w, 'x) exc_env \<Rightarrow> bool" where
  "balanced C \<longleftrightarrow>
     (\<forall>b a s. steady C s (snd (px_invoke C b a s))) \<and> (\<forall>v m a s. steady C s (snd (px_send C v m a s))) \<and>
     (\<forall>v s. steady C s (snd (px_child C v s))) \<and> (\<forall>v k x s. steady C s (px_set C v k x s)) \<and>
     (\<forall>e f p s. steady C s (ee_debug C e f p s))"

named_theorems steady_intro

lemma steady_refl [simp, steady_intro]: "steady C s s"
  by (simp add: steady_def)

lemma steady_trans: "steady C s s1 \<Longrightarrow> steady C s1 s2 \<Longrightarrow> steady C s s2"
  by (simp add: steady_def)

lemma balancedD:
  assumes "balanced C"
  shows "steady C s (snd (px_invoke C b a s))" "steady C s (snd (px_send C v m a s))" "steady C s (snd (px_child C v s))"
    "steady C s (px_set C v k x s)" "steady C s (ee_debug C e f p s)"
  using assms unfolding balanced_def by blast+

lemma steady_fields [simp, steady_intro]:
  "steady C s (s\<lparr>xs_fromPrimitive := b\<rparr>)" "steady C s (s\<lparr>xs_stderr := l\<rparr>)"
  "steady C (s\<lparr>xs_fromPrimitive := b\<rparr>) s' = steady C s s'"
  by (simp_all add: steady_def)

text \<open>A run that keeps the stack, however it ends.\<close>

definition keeps :: "('v, 'w, 'x) exc_env \<Rightarrow> ('v, 'w, 'x, 'a) xrun \<Rightarrow> bool" where
  "keeps C m \<longleftrightarrow> (\<forall>s. steady C s (snd (m s)))"

lemma keepsD: "keeps C m \<Longrightarrow> steady C s (snd (m s))"
  by (simp add: keeps_def)

lemma keeps_at: "keeps C m \<Longrightarrow> m s = (r, s1) \<Longrightarrow> steady C s s1"
  by (metis keepsD snd_conv)

lemma keeps_basic [simp, steady_intro]: "keeps C (ret a)" "keeps C (throw e)" "keeps C (reads f)"
  by (simp_all add: keeps_def)

lemma keeps_andThen [steady_intro]:
  assumes "keeps C m" "\<And>a. keeps C (f a)"
  shows "keeps C (andThen m f)"
  unfolding keeps_def
proof
  fix s
  obtain r s1 where m: "m s = (r, s1)" by force
  note k = keeps_at [OF assms(1) m]
  from k steady_trans [OF k keepsD [OF assms(2)]] m show "steady C s (snd (andThen m f s))" by (cases r) simp_all
qed

lemma keeps_invoke [steady_intro]: "balanced C \<Longrightarrow> keeps C (invokeBlock C b a)"
  unfolding invokeBlock_def by (intro keeps_andThen) (simp_all add: keeps_def balancedD)

lemma steady_child: "balanced C \<Longrightarrow> px_child C v s = (x, s1) \<Longrightarrow> steady C s s1"
  by (metis balancedD(3) snd_conv)

lemma steady_set: "balanced C \<Longrightarrow> steady C s s1 \<Longrightarrow> steady C s (px_set C v k x s1)"
  by (blast intro: steady_trans balancedD)

subsection \<open>Default actions and a running handler\<close>

lemma defaultActionMessage_steady: "balanced C \<Longrightarrow> defaultActionMessage C exc s = (m, s1) \<Longrightarrow> steady C s s1"
  using balancedD(2) [of C s exc "''messageText''" "[]"] by (auto simp: defaultActionMessage_def Let_def split: prod.splits)

lemma defaultAction_keeps [steady_intro]: "balanced C \<Longrightarrow> keeps C (defaultAction C exc)"
  by (auto simp: keeps_def defaultAction_def Let_def split: prod.splits dest: defaultActionMessage_steady)

lemma foreignDefaultAction_keeps [steady_intro]: "keeps C (foreignDefaultAction C exc origin)"
  by (simp add: keeps_def foreignDefaultAction_def)

lemma newNestingLimitError_steady: "balanced C \<Longrightarrow> newNestingLimitError C s = (exc, s1) \<Longrightarrow> steady C s s1"
  by (auto simp: newNestingLimitError_def split: prod.splits intro!: steady_set dest: steady_child)

lemma raiseNestingLimitError_keeps [steady_intro]:
  assumes "balanced C"
  shows "keeps C (raiseNestingLimitError C below)"
  unfolding keeps_def
proof
  fix s
  obtain exc s1 where n: "newNestingLimitError C s = (exc, s1)" by force
  have "keeps C (andThen (defaultAction C exc) (\<lambda>_. throw (Std_error ''the default action of an Error returned'')))"
    by (intro steady_intro assms)
  with newNestingLimitError_steady [OF assms n] show "steady C s (snd (raiseNestingLimitError C below s))"
    by (auto simp: raiseNestingLimitError_def n split: option.splits intro: steady_trans keepsD)
qed

text \<open>The entries disabled for a handler are enabled again.\<close>

lemma run_handler_keeps [steady_intro]:
  fixes C :: "('v, 'w, 'x) exc_env"
  assumes "balanced C"
  shows "keeps C (run_handler C exc foreign e)"
  unfolding keeps_def
proof
  fix s :: "('v, 'w) xstate"
  let ?t = "ee_thread C" and ?st = "hs_stack (xs_handlers s) (ee_thread C)"
  obtain ids H where d: "handlerStackDisableFrom ?t (he_id e) (xs_handlers s) = (ids, H)" by force
  let ?s1 = "(set_handlers H s)\<lparr>xs_active := xs_active s @ [\<lparr>ac_exception = exc, ac_handlerId = he_id e, ac_foreign = foreign\<rparr>]\<rparr>"
  obtain r s2 where i: "invokeBlock C (or_nil C (he_block e)) (if ee_blockArgCount C (or_nil C (he_block e)) ?s1 = 0 then [] else [exc]) ?s1 = (r, s2)"
    by force
  have k: "steady C ?s1 s2" by (rule keeps_at [OF keeps_invoke [OF assms] i])
  show "steady C s (snd (run_handler C exc foreign e s))"
    unfolding steady_def
  proof
    assume u: "unique_ids (xs_handlers s)"
    have H: "unique_ids H" "hs_stack H ?t = snd (disable_from (he_id e) False ?st)" "ids = fst (disable_from (he_id e) False ?st)"
      using d disable_from_unique [OF u, of ?t "he_id e"]
      by (auto simp: handlerStackDisableFrom_def on_stack_def split: prod.splits)
    then have "unique_ids (xs_handlers s2)" "hs_stack (xs_handlers s2) ?t = snd (disable_from (he_id e) False ?st)"
        "butlast (xs_active s2) = xs_active s" using k by (simp_all add: steady_def set_handlers_def)
    then show "unique_ids (xs_handlers (snd (run_handler C exc foreign e s))) \<and>
        hs_stack (xs_handlers (snd (run_handler C exc foreign e s))) ?t = ?st \<and>
        xs_active (snd (run_handler C exc foreign e s)) = xs_active s"
      using restore_disable_from [OF unique_distinct [OF u, of ?t], of "he_id e"] i H(3)
      by (simp add: run_handler_def d Let_def set_handlers_def restore_unique) (simp add: handlerStackRestore_def on_stack_def)
  qed
qed

subsection \<open>Signals\<close>

lemma signal_turns_keeps [steady_intro]:
  assumes "balanced C"
  shows "keeps C (signal_turns C exc foreign origin n first below)"
proof (induction n arbitrary: first below)
  case (Suc n)
  show ?case
    unfolding keeps_def
  proof
    fix s
    consider (none) "(if first \<noteq> 0 then Some (handlerStackFindById (ee_thread C) first (xs_handlers s)) else find_match C exc below foreign s) = None"
      | (miss) "(if first \<noteq> 0 then Some (handlerStackFindById (ee_thread C) first (xs_handlers s)) else find_match C exc below foreign s) = Some None"
      | (hit) e where "(if first \<noteq> 0 then Some (handlerStackFindById (ee_thread C) first (xs_handlers s)) else find_match C exc below foreign s) = Some (Some e)"
      by (metis not_None_eq)
    then show "steady C s (snd (signal_turns C exc foreign origin (Suc n) first below s))"
    proof cases
      case none
      then show ?thesis by simp
    next
      case miss
      then show ?thesis by (simp add: keepsD [OF foreignDefaultAction_keeps] keepsD [OF defaultAction_keeps [OF assms]])
    next
      case hit
      obtain r s1 where r: "run_handler C exc foreign e s = (r, s1)" by force
      have "steady C s s1" by (rule keeps_at [OF run_handler_keeps [OF assms] r])
      moreover have "steady C s1 (snd (signal_turns C exc foreign origin n 0 i s1))" for i by (rule keepsD [OF Suc.IH])
      ultimately show ?thesis using hit r keepsD [OF raiseNestingLimitError_keeps [OF assms], of s below]
        by (auto split: sum.splits failure.splits signal.splits intro: steady_trans)
    qed
  qed
qed simp

lemma signalInstance_keeps [steady_intro]:
  assumes "balanced C"
  shows "keeps C (signalInstance C exc first origin)"
  unfolding keeps_def signalInstance_def Let_def
proof
  fix s
  show "steady C s (snd (signal_turns C exc (\<not> isExceptionInstance C exc s) origin (ee_rounds C) first 0
      (if first = 0 then ee_debug C exc (\<not> isExceptionInstance C exc s) (xs_fromPrimitive s) (s\<lparr>xs_fromPrimitive := False\<rparr>)
       else s\<lparr>xs_fromPrimitive := False\<rparr>)))"
    by (rule steady_trans [OF _ keepsD [OF signal_turns_keeps [OF assms]]])
      (auto intro: steady_trans [OF steady_fields(1)] balancedD [OF assms])
qed

lemma signal_after: "balanced C \<Longrightarrow> steady C s s1 \<Longrightarrow> steady C s (snd (signalInstance C exc first origin s1))"
  by (blast intro: steady_trans keepsD signalInstance_keeps)

lemma signalNestingLimitAt_keeps [steady_intro]: "balanced C \<Longrightarrow> keeps C (signalNestingLimitAt C i)"
  by (auto simp: keeps_def signalNestingLimitAt_def split: prod.splits intro!: signal_after dest: newNestingLimitError_steady)

subsection \<open>Protected blocks\<close>

text \<open>On top of what was found are the entries with these ids.\<close>

definition pushed :: "('v, 'w, 'x) exc_env \<Rightarrow> nat list \<Rightarrow> ('v, 'w) xstate \<Rightarrow> ('v, 'w) xstate \<Rightarrow> bool" where
  "pushed C ids s s' \<longleftrightarrow> (unique_ids (xs_handlers s) \<longrightarrow>
     unique_ids (xs_handlers s') \<and> xs_active s' = xs_active s \<and>
     (\<exists>es. map he_id es = ids \<and> hs_stack (xs_handlers s') (ee_thread C) = hs_stack (xs_handlers s) (ee_thread C) @ es))"

lemma pushed_Nil [simp]: "pushed C [] s s' = steady C s s'"
  by (auto simp: pushed_def steady_def)

lemma pushed_steady: "pushed C ids s s1 \<Longrightarrow> steady C s1 s2 \<Longrightarrow> pushed C ids s s2"
  by (auto simp: pushed_def steady_def)

lemma steady_pushed: "steady C s s1 \<Longrightarrow> pushed C ids s1 s2 \<Longrightarrow> pushed C ids s s2"
  by (auto simp: pushed_def steady_def)

lemma push_pushed: "pushed C ids s s1 \<Longrightarrow> push_handler C g h s1 = (i, s2) \<Longrightarrow> pushed C (ids @ [i]) s s2"
  using push_ids [of "xs_handlers s1" "ee_thread C" "Some g" "Some h"]
  by (auto simp: pushed_def push_handler_def handlerStackPush_def on_stack_def set_handlers_def)

lemma erase_id_last: "he_id e \<notin> he_id ` set xs \<Longrightarrow> erase_id (he_id e) (xs @ [e]) = xs"
  by (induction xs) auto

lemma pop_pushed:
  fixes C :: "('v, 'w, 'x) exc_env"
  assumes "pushed C (ids @ [i]) s s1"
  shows "pushed C ids s (pop_handler C i s1)"
  unfolding pushed_def
proof
  let ?t = "ee_thread C"
  assume u: "unique_ids (xs_handlers s)"
  with assms obtain es where es: "map he_id es = ids @ [i]" "hs_stack (xs_handlers s1) ?t = hs_stack (xs_handlers s) ?t @ es"
    and u1: "unique_ids (xs_handlers s1)" and a: "xs_active s1 = xs_active s" unfolding pushed_def by blast
  from es(1) obtain fs e where fs: "es = fs @ [e]" "map he_id fs = ids" "he_id e = i" by (auto simp: map_eq_append_conv)
  have "erase_id i (hs_stack (xs_handlers s) ?t @ es) = hs_stack (xs_handlers s) ?t @ fs"
    using unique_distinct [OF u1, of ?t] erase_id_last [of e "hs_stack (xs_handlers s) ?t @ fs"] fs es(2)
    by (auto simp: image_Un)
  then have st: "hs_stack (handlerStackPop ?t i (xs_handlers s1)) ?t = hs_stack (xs_handlers s) ?t @ fs"
    by (simp add: handlerStackPop_def on_stack_def es(2))
  have h: "xs_handlers (pop_handler C i s1) = handlerStackPop ?t i (xs_handlers s1)" "xs_active (pop_handler C i s1) = xs_active s1"
    by (simp_all add: pop_handler_def set_handlers_def)
  show "unique_ids (xs_handlers (pop_handler C i s1)) \<and> xs_active (pop_handler C i s1) = xs_active s \<and>
      (\<exists>es. map he_id es = ids \<and> hs_stack (xs_handlers (pop_handler C i s1)) ?t = hs_stack (xs_handlers s) ?t @ es)"
    unfolding h using fs(2) pop_ids [OF u1] a st by blast
qed

definition pop_all :: "('v, 'w, 'x) exc_env \<Rightarrow> nat list \<Rightarrow> ('v, 'w) xstate \<Rightarrow> ('v, 'w) xstate" where
  "pop_all C ids s = foldl (\<lambda>s i. pop_handler C i s) s (rev ids)"

lemma pop_all_steady: "pushed C ids s s1 \<Longrightarrow> steady C s (pop_all C ids s1)"
proof (induction ids arbitrary: s1 rule: rev_induct)
  case (snoc i ids)
  from snoc.IH [OF pop_pushed [OF snoc.prems]] show ?case by (simp add: pop_all_def)
qed (simp add: pop_all_def)

definition push_all :: "('v, 'w, 'x) exc_env \<Rightarrow> ('v \<times> 'v) list \<Rightarrow> ('v, 'w) xstate \<Rightarrow> nat list \<times> ('v, 'w) xstate" where
  "push_all C guards s = foldl (\<lambda>(ids, s) (g, h). case push_handler C g h s of (i, s1) \<Rightarrow> (ids @ [i], s1)) ([], s) guards"

lemma push_all_pushed: "push_all C guards s = (ids, s1) \<Longrightarrow> pushed C ids s s1"
proof (induction guards arbitrary: ids s1 rule: rev_induct)
  case (snoc p guards)
  obtain g h where p: "p = (g, h)" by force
  obtain js s2 where r: "push_all C guards s = (js, s2)" by force
  with snoc.IH have "pushed C js s s2" .
  with push_pushed [of C js s s2 g h] snoc.prems r p show ?case by (auto simp: push_all_def split: prod.splits)
qed (simp add: push_all_def)

text \<open>One turn of the loop, in these terms.\<close>

lemma protect_turn:
  "protect C guards block (Suc n) limit ids s =
    (case (if limit = 0 then push_all C guards s else (ids, s)) of (ids, s1) \<Rightarrow>
      (case (if limit = 0 then invokeBlock C block [] else signalNestingLimitAt C limit) s1 of
         (Inr v, s2) \<Rightarrow> (Inr v, pop_all C ids s2)
       | (Inl x, s2) \<Rightarrow>
           (case x of
              Thrown (Unwind_to i v) \<Rightarrow> (if i \<in> set ids then Inr v else Inl x, pop_all C ids s2)
            | Thrown (Retry_from i) \<Rightarrow>
                if i \<in> set ids then protect C guards block n 0 [] (pop_all C ids s2) else (Inl x, pop_all C ids s2)
            | Thrown (Nesting_limit i) \<Rightarrow>
                if limit = 0 \<and> i \<in> set ids then protect C guards block n i ids s2 else (Inl x, pop_all C ids s2)
            | _ \<Rightarrow> (Inl x, pop_all C ids s2))))"
  by (simp only: protect.simps push_all_def pop_all_def Let_def)

lemma pushed_positive: "pushed C ids s s1 \<Longrightarrow> unique_ids (xs_handlers s) \<Longrightarrow> i \<in> set ids \<Longrightarrow> 0 < i"
  using unique_idsD(3) [of "xs_handlers s1" "ee_thread C"] by (fastforce simp: pushed_def ids_of_def)

lemma protect_steady:
  assumes "balanced C"
  shows "pushed C ids s0 s \<Longrightarrow> limit = 0 \<Longrightarrow> ids = [] \<Longrightarrow> steady C s0 (snd (protect C guards block n limit ids s))"
    and "pushed C ids s0 s \<Longrightarrow> limit \<noteq> 0 \<Longrightarrow> steady C s0 (snd (protect C guards block n limit ids s))"
proof (induction n arbitrary: limit ids s)
  case 0
  { case 1 then show ?case by simp }
  { case 2 then show ?case using pop_all_steady [of C ids s0 s] by (simp add: pop_all_def) }
next
  case (Suc n)
  have turn: "steady C s0 (snd (protect C guards block (Suc n) limit ids s))"
    if p: "if limit = 0 then steady C s0 s else pushed C ids s0 s" for limit ids s
  proof (cases "unique_ids (xs_handlers s0)")
    case u: True
    obtain js s1 where j: "(if limit = 0 then push_all C guards s else (ids, s)) = (js, s1)" by force
    with p push_all_pushed [of C guards s js s1] have p1: "pushed C js s0 s1"
      by (auto split: if_splits intro: steady_pushed)
    obtain r s2 where r: "(if limit = 0 then invokeBlock C block [] else signalNestingLimitAt C limit) s1 = (r, s2)" by force
    have "steady C s1 s2"
      using keeps_at [OF keeps_invoke [OF assms], of block "[]" s1] keeps_at [OF signalNestingLimitAt_keeps [OF assms], of limit s1] r
      by (auto split: if_splits)
    with p1 have p2: "pushed C js s0 s2" by (rule pushed_steady)
    note q = pop_all_steady [OF p2]
    have again: "steady C s0 (snd (protect C guards block n 0 [] (pop_all C js s2)))" using Suc.IH(1) [of "[]" _ 0] q by simp
    have lim: "steady C s0 (snd (protect C guards block n i js s2))" if "i \<in> set js" for i
      using Suc.IH(2) [OF p2, of i] pushed_positive [OF p2 u that] by simp
    show ?thesis using q again lim r unfolding protect_turn j prod.case
      by (auto split: sum.splits failure.splits signal.splits)
  qed (simp add: steady_def)
  { case 1 then show ?case by (intro turn) simp }
  { case 2 then show ?case by (intro turn) simp }
qed

subsection \<open>The shortcut for one guard\<close>

lemma steady_unique: "steady C s s1 \<Longrightarrow> unique_ids (xs_handlers s) \<Longrightarrow> unique_ids (xs_handlers s1)"
  by (simp add: steady_def)

lemma pop_unique: "unique_ids (xs_handlers s) \<Longrightarrow> unique_ids (xs_handlers (pop_handler C i s))"
  by (simp add: pop_handler_def set_handlers_def pop_ids)

lemma push_unique:
  "unique_ids (xs_handlers s) \<Longrightarrow> push_handler C g h s = (i, s1) \<Longrightarrow> unique_ids (xs_handlers s1) \<and> i \<noteq> 0"
  using push_ids [of "xs_handlers s" "ee_thread C" "Some g" "Some h"] unique_idsD(1) [of "xs_handlers s"]
  by (auto simp: push_handler_def handlerStackPush_def set_handlers_def)

lemma pop_all_one: "pop_all C [i] s = pop_handler C i s"
  by (simp add: pop_all_def)

lemma push_all_one: "push_all C [(g, h)] s = (case push_handler C g h s of (i, s1) \<Rightarrow> ([i], s1))"
  by (simp add: push_all_def)

lemma single_is_protect:
  assumes "balanced C"
  shows "unique_ids (xs_handlers s) \<Longrightarrow> protect C [(g, h)] b n 0 [] s = protect_single C b g h n False j s"
    and "unique_ids (xs_handlers s) \<Longrightarrow> i \<noteq> 0 \<Longrightarrow> protect C [(g, h)] b n i [i] s = protect_single C b g h n True i s"
proof (induction n arbitrary: s i j)
  case (Suc n)
  { case 1
    obtain i s1 where p: "push_handler C g h s = (i, s1)" by force
    from push_unique [OF 1 p] have u1: "unique_ids (xs_handlers s1)" and i: "i \<noteq> 0" by simp_all
    obtain r s2 where r: "invokeBlock C b [] s1 = (r, s2)" by force
    have u2: "unique_ids (xs_handlers s2)" by (rule steady_unique [OF keeps_at [OF keeps_invoke [OF assms] r] u1])
    note again = Suc.IH(1) [OF pop_unique [OF u2], of C i 0] Suc.IH(2) [OF u2 i]
    show ?case unfolding protect_turn protect_single.simps
      using p r again by (auto simp: push_all_one pop_all_one split: sum.splits failure.splits signal.splits) }
  { case 2
    then have i: "j \<noteq> 0" and u: "unique_ids (xs_handlers s)" by simp_all
    obtain r s2 where r: "signalNestingLimitAt C j s = (r, s2)" by force
    have u2: "unique_ids (xs_handlers s2)" by (rule steady_unique [OF keeps_at [OF signalNestingLimitAt_keeps [OF assms] r] u])
    note again = Suc.IH(1) [OF pop_unique [OF u2], of C j 0]
    show ?case unfolding protect_turn protect_single.simps
      using i r again by (auto simp: pop_all_one split: sum.splits failure.splits signal.splits) }
qed simp_all

lemma single_keeps:
  assumes "balanced C"
  shows "keeps C (protect_single C b g h n False j)"
  unfolding keeps_def
proof
  fix s
  show "steady C s (snd (protect_single C b g h n False j s))"
  proof (cases "unique_ids (xs_handlers s)")
    case True
    then show ?thesis using protect_steady(1) [OF assms, of "[]" s s 0 "[(g, h)]" b n]
      by (simp add: single_is_protect(1) [OF assms True, of g h b n j])
  qed (simp add: steady_def)
qed

lemma runProtected_keeps [steady_intro]: "balanced C \<Longrightarrow> keeps C (runProtected C b guards)"
  by (auto simp: runProtected_def runProtectedSingle_def keeps_def single_keeps [THEN keepsD] protect_steady(1) [of C "[]"]
      split: list.splits)

lemma cleanup_after_keeps [steady_intro]:
  assumes "balanced C" "keeps C body"
  shows "keeps C (cleanup_after C cleanup body)"
  unfolding keeps_def
proof
  fix s
  obtain r s1 where b: "body s = (r, s1)" by force
  have "keeps C (andThen (invokeBlock C cleanup []) (\<lambda>_. throw x))" for x by (intro steady_intro assms)
  with keeps_at [OF assms(2) b] b show "steady C s (snd (cleanup_after C cleanup body s))"
    by (auto simp: cleanup_after_def split: sum.splits intro: steady_trans keepsD)
qed

subsection \<open>Every primitive\<close>

lemma instance_for_steady: "balanced C \<Longrightarrow> instance_for C r s = (exc, s1) \<Longrightarrow> steady C s s1"
  by (auto simp: instance_for_def split: if_splits dest: steady_child)

lemma with_handler_keeps [steady_intro]: "keeps C (with_handler msg r f)"
  by (simp add: keeps_def with_handler_def)

lemma signal_prims_keep:
  assumes "balanced C"
  shows "keeps C (prim_Exception_signal C r a)" "keeps C (prim_Exception_signalText C r a)"
  using assms by (auto simp: keeps_def prim_Exception_signal_def prim_Exception_signalText_def split: list.splits prod.splits
      intro!: signal_after steady_set dest: instance_for_steady)

lemma handler_prims_keep:
  assumes "balanced C"
  shows "keeps C (prim_Exception_return C r a)" "keeps C (prim_Exception_resume C r a)" "keeps C (prim_Exception_retry C r a)"
    "keeps C (prim_Exception_pass C r a)" "keeps C (prim_Exception_setMessageText C r a)"
  using assms by (auto simp: prim_Exception_return_def prim_Exception_resume_def prim_Exception_retry_def prim_Exception_pass_def
      prim_Exception_setMessageText_def keeps_def with_handler_def balancedD split: list.splits)

lemma reading_prims_keep:
  "keeps C (prim_MNU_receiver C r a)" "keeps C (prim_MNU_message C r a)" "keeps C (prim_Message_selector C r a)"
  "keeps C (prim_Message_arguments C r a)" "keeps C (prim_Exception_messageText C r a)" "keeps C (prim_Exception_isResumable C r a)"
  by (simp_all add: prim_MNU_receiver_def prim_MNU_message_def prim_Message_selector_def prim_Message_arguments_def
      prim_Exception_messageText_def prim_Exception_isResumable_def)

lemma block_prims_keep:
  assumes "balanced C"
  shows "keeps C (prim_Block_on_do C r a)" "keeps C (prim_Block_on_do_on_do C r a)" "keeps C (prim_Block_ensure C r a)"
    "keeps C (prim_Block_ifCurtailed C r a)"
  unfolding prim_Block_on_do_def prim_Block_on_do_on_do_def prim_Block_ensure_def prim_Block_ifCurtailed_def
  using assms single_keeps [OF assms] by (auto simp: runProtectedSingle_def split: list.splits intro!: steady_intro)

lemma prims_keep: "balanced C \<Longrightarrow> (cls, sel, prim) \<in> set installExceptionPrimitives \<Longrightarrow> keeps C (prim C r a)"
  by (auto simp: installExceptionPrimitives_def signal_prims_keep handler_prims_keep reading_prims_keep block_prims_keep)

text \<open>
  C28. Every primitive of the exception protocol leaves the thread's handler stack, with
  the entries that are enabled, and its active signals exactly as it found them, on
  every way out: a value, a signal, an unwinding, a retry or an error.
\<close>

theorem exceptions_keep_stack:
  assumes "balanced C" "unique_ids (xs_handlers s)" "(cls, sel, prim) \<in> set installExceptionPrimitives"
    and "prim C r a s = (res, s')"
  shows "hs_stack (xs_handlers s') (ee_thread C) = hs_stack (xs_handlers s) (ee_thread C) \<and>
    xs_active s' = xs_active s \<and> unique_ids (xs_handlers s')"
  using keeps_at [OF prims_keep [OF assms(1,3)] assms(4)] assms(2) by (simp add: steady_def)

text \<open>
  The shortcut for one guard is the loop for a list of guards.
\<close>

theorem shortcut_equals_loop:
  assumes "balanced C" "unique_ids (xs_handlers s)"
  shows "runProtected C block [(guard, handler)] s = protect C [(guard, handler)] block (ee_rounds C) 0 [] s"
  by (simp add: runProtected_def runProtectedSingle_def single_is_protect(1) [OF assms, of guard handler block _ 0])

section \<open>A signal ends\<close>

text \<open>Each \<open>pass\<close> goes on strictly outside the handler that passed.\<close>

lemma before_id_prefix: "before_id i st = Some r \<Longrightarrow> \<exists>e rest. st = r @ e # rest \<and> he_id e = i"
  by (induction st arbitrary: r) (auto split: option.splits if_splits)

lemma before_id_None: "i \<notin> he_id ` set st \<Longrightarrow> before_id i st = None"
  by (induction st) auto

lemma before_id_at: "he_id e \<notin> he_id ` set rest \<Longrightarrow> before_id (he_id e) (p @ e # rest) = Some p"
  by (induction p) (simp_all add: before_id_None)

lemma search_range_prefix: "\<exists>rest. st = search_range b st @ rest"
  using before_id_prefix [of b st] by (auto simp: search_range_def split: option.splits)

lemma search_range_shrinks:
  assumes "distinct (map he_id st)" "e \<in> set (search_range b st)" "he_id e \<noteq> 0"
  shows "length (search_range (he_id e) st) < length (search_range b st)"
proof -
  obtain p q where pq: "search_range b st = p @ e # q" using assms(2) by (auto simp: in_set_conv_decomp)
  with search_range_prefix [of st b] obtain rest where "st = p @ e # q @ rest" by auto
  with assms(1) have "before_id (he_id e) st = Some p" using before_id_at [of e "q @ rest" p] by auto
  with assms(3) pq show ?thesis by (simp add: search_range_def)
qed

lemma newest_member: "newest m st = Some (Some e) \<Longrightarrow> e \<in> set st"
  by (induction st) (auto split: if_splits option.splits)

lemma newest_decided: "list_all (\<lambda>e. m e \<noteq> None) st \<Longrightarrow> newest m st \<noteq> None"
  by (induction st) auto

lemma find_member: "find P xs = Some e \<Longrightarrow> e \<in> set xs"
  by (induction xs) (auto split: if_splits)

text \<open>No guard is a set nested deeper than the bound, and the blocks themselves end.\<close>

definition guards_decided :: "('v, 'w, 'x) exc_env \<Rightarrow> bool" where
  "guards_decided C \<longleftrightarrow> (\<forall>s exc all g. matchesGuard (ee_depth C) (heap_of C s) (Some exc) all g \<noteq> None)"

definition blocks_end :: "('v, 'w, 'x) exc_env \<Rightarrow> bool" where
  "blocks_end C \<longleftrightarrow> (\<forall>b a s. fst (px_invoke C b a s) \<noteq> Inl (Thrown Unfinished))"

lemma find_match_decided: "guards_decided C \<Longrightarrow> find_match C exc below foreign s \<noteq> None"
  unfolding find_match_def handlerStackFindMatch_def guards_decided_def by (intro newest_decided) (simp add: list_all_iff)

lemma find_match_member:
  "find_match C exc below foreign s = Some (Some e) \<Longrightarrow> e \<in> set (search_range below (hs_stack (xs_handlers s) (ee_thread C)))"
  by (auto simp: find_match_def handlerStackFindMatch_def dest: newest_member)

lemma defaultAction_ends: "fst (defaultAction C exc s) \<noteq> Inl (Thrown Unfinished)"
  by (simp add: defaultAction_def Let_def split: prod.splits)

lemma raiseNestingLimitError_ends:
  assumes "guards_decided C"
  shows "fst (raiseNestingLimitError C below s) \<noteq> Inl (Thrown Unfinished)"
proof -
  obtain exc s1 where n: "newNestingLimitError C s = (exc, s1)" by force
  obtain r s2 where d: "defaultAction C exc s1 = (r, s2)" by force
  then have "r \<noteq> Inl (Thrown Unfinished)" using defaultAction_ends [of C exc s1] by simp
  then show ?thesis using n d find_match_decided [OF assms, of exc below False s1]
    by (cases r) (auto simp: raiseNestingLimitError_def split: option.split)
qed

lemma invokeBlock_ends:
  assumes "blocks_end C"
  shows "fst (invokeBlock C b a s) \<noteq> Inl (Thrown Unfinished)"
proof -
  obtain r s1 where i: "px_invoke C b a s = (r, s1)" by force
  have "fst (px_invoke C b a s) \<noteq> Inl (Thrown Unfinished)" using assms by (simp add: blocks_end_def)
  with i show ?thesis by (cases r) (simp_all add: invokeBlock_def)
qed

lemma run_handler_ends: "blocks_end C \<Longrightarrow> fst (run_handler C exc foreign e s) \<noteq> Inl (Thrown Unfinished)"
  by (simp add: run_handler_def Let_def split_beta invokeBlock_ends)

lemma signal_turns_ends:
  assumes "balanced C" "guards_decided C" "blocks_end C"
  shows "unique_ids (xs_handlers s) \<Longrightarrow>
    length (search_range (if first = 0 then below else 0) (hs_stack (xs_handlers s) (ee_thread C))) < n \<Longrightarrow>
    fst (signal_turns C exc foreign origin n first below s) \<noteq> Inl (Thrown Unfinished)"
proof (induction n arbitrary: s first below)
  case (Suc n)
  let ?st = "hs_stack (xs_handlers s) (ee_thread C)"
  let ?found = "if first \<noteq> 0 then Some (handlerStackFindById (ee_thread C) first (xs_handlers s)) else find_match C exc below foreign s"
  have "?found \<noteq> None" using find_match_decided [OF assms(2)] by simp
  then consider (miss) "?found = Some None" | (hit) e where "?found = Some (Some e)" by fastforce
  then show ?case
  proof cases
    case miss
    then show ?thesis using defaultAction_ends [of C exc s] by (simp add: foreignDefaultAction_def)
  next
    case hit
    have e: "e \<in> set (search_range (if first = 0 then below else 0) ?st)"
      using hit find_match_member [of C exc below foreign s e]
      by (auto simp: handlerStackFindById_def search_range_def dest: find_member split: if_splits)
    then have "e \<in> set ?st" using search_range_prefix [of ?st "if first = 0 then below else 0"] by (metis Un_iff set_append)
    then have pos: "he_id e \<noteq> 0" using unique_idsD(3) [OF Suc.prems(1), of "ee_thread C"] by (auto simp: ids_of_def)
    obtain r s1 where r: "run_handler C exc foreign e s = (r, s1)" by force
    have k: "unique_ids (xs_handlers s1)" "hs_stack (xs_handlers s1) (ee_thread C) = ?st"
      using keeps_at [OF run_handler_keeps [OF assms(1)] r] Suc.prems(1) by (simp_all add: steady_def)
    have "length (search_range (he_id e) ?st) < n"
      using search_range_shrinks [OF unique_distinct [OF Suc.prems(1)] e pos] Suc.prems(2) by simp
    then have again: "fst (signal_turns C exc foreign origin n 0 (he_id e) s1) \<noteq> Inl (Thrown Unfinished)"
      using Suc.IH [OF k(1), of 0 "he_id e"] k(2) by simp
    have "r \<noteq> Inl (Thrown Unfinished)" using run_handler_ends [OF assms(3), of exc foreign e s] r by simp
    with again hit r raiseNestingLimitError_ends [OF assms(2), of below s] show ?thesis
      by (auto split: sum.splits failure.splits signal.splits)
  qed
qed simp

text \<open>
  C30. Signalling ends: with more rounds than the thread has handlers, every \<open>pass\<close>
  chain runs into a handler that decides or into the default action, for a first signal
  as for the Error of the nesting limit.
\<close>

theorem signal_ends:
  assumes "balanced C" "guards_decided C" "blocks_end C" "unique_ids (xs_handlers s)"
    and "length (hs_stack (xs_handlers s) (ee_thread C)) < ee_rounds C"
  shows "fst (signalInstance C exc first origin s) \<noteq> Inl (Thrown Unfinished)"
proof -
  let ?s = "if first = 0 then ee_debug C exc (\<not> isExceptionInstance C exc s) (xs_fromPrimitive s) (s\<lparr>xs_fromPrimitive := False\<rparr>)
      else s\<lparr>xs_fromPrimitive := False\<rparr>"
  have "steady C s ?s" by (auto intro: steady_trans [OF steady_fields(1)] balancedD [OF assms(1)])
  with assms(4,5) signal_turns_ends [OF assms(1-3), of ?s first 0 "ee_rounds C"] show ?thesis
    by (simp add: signalInstance_def steady_def Let_def search_range_def del: if_split_asm)
qed

section \<open>The handler decides\<close>

abbreviation entry :: "'v \<Rightarrow> 'v \<Rightarrow> nat \<Rightarrow> 'v handler" where
  "entry guard handler i \<equiv> \<lparr>he_guard = Some guard, he_block = Some handler, he_id = i, he_enabled = True\<rparr>"

lemma new_handler_found:
  assumes "push_handler C guard handler s = (i, s1)" "xs_handlers s2 = xs_handlers s1"
    and "matchesGuard (ee_depth C) (heap_of C s2) (Some exc) (if foreign then Some (ee_exceptionProto C) else None) (Some guard) = Some True"
  shows "find_match C exc 0 foreign s2 = Some (Some (entry guard handler i))"
  using assms by (auto simp: find_match_def handlerStackFindMatch_def search_range_def push_handler_def handlerStackPush_def
      on_stack_def set_handlers_def)

text \<open>
  C29. A protected block that signals an exception its guard matches is decided by its
  handler.  When the handler ends with a value or does \<open>return:\<close>, \<open>on:do:\<close> answers that
  value and the rest of the block never runs; when it does \<open>resume:\<close>, the block goes on
  from the signal; when it does \<open>retry\<close>, the block starts anew with a new entry; and an
  error of its own leaves \<open>on:do:\<close>.  The entry is popped each time.
\<close>

theorem handler_decides:
  assumes push: "push_handler C guard handler s = (i, s1)" "s2 = s1\<lparr>xs_fromPrimitive := False\<rparr>"
    and env: "ee_debug C = (\<lambda>_ _ _ s. s)" "ee_canStartNestedEngine C s2" "ee_rounds C = Suc n"
    and block: "invokeBlock C block [] s1 = andThen (signalInstance C exc 0 None) rest s1"
    and matching: "matchesGuard (ee_depth C) (heap_of C s2) (Some exc)
      (if \<not> isExceptionInstance C exc s1 then Some (ee_exceptionProto C) else None) (Some guard) = Some True"
    and run: "run_handler C exc (\<not> isExceptionInstance C exc s1) (entry guard handler i) s2 = (r, s3)"
  shows "(\<forall>v. r = Inr v \<or> r = Inl (Thrown (Unwind_to i v)) \<longrightarrow>
      runProtectedSingle C block guard handler s = (Inr v, pop_handler C i s3)) \<and>
    (\<forall>v w s4. r = Inl (Thrown (Resume_with i v)) \<and> rest v s3 = (Inr w, s4) \<longrightarrow>
      runProtectedSingle C block guard handler s = (Inr w, pop_handler C i s4)) \<and>
    (r = Inl (Thrown (Retry_from i)) \<longrightarrow>
      runProtectedSingle C block guard handler s = protect_single C block guard handler n False 0 (pop_handler C i s3)) \<and>
    (\<forall>m. r = Inl (Std_error m) \<longrightarrow> runProtectedSingle C block guard handler s = (r, pop_handler C i s3))"
proof -
  have "find_match C exc 0 (\<not> isExceptionInstance C exc s1) s2 = Some (Some (entry guard handler i))"
    by (rule new_handler_found [OF push(1) _ matching]) (simp add: push(2))
  then have sig: "signalInstance C exc 0 None s1 =
      (case r of Inr v \<Rightarrow> (Inl (Thrown (Unwind_to i v)), s3)
       | Inl x \<Rightarrow> (case x of Thrown (Resume_with j v) \<Rightarrow> if j = i then (Inr v, s3) else (Inl x, s3)
           | Thrown (Pass_on j) \<Rightarrow> if j = i then signal_turns C exc (\<not> isExceptionInstance C exc s1) None n 0 j s3 else (Inl x, s3)
           | _ \<Rightarrow> (Inl x, s3)))"
    using env run push(2) by (simp add: signalInstance_def Let_def split: sum.split failure.split signal.split)
  have turn: "runProtectedSingle C block guard handler s = protect_single C block guard handler (Suc n) False 0 s"
    by (simp add: runProtectedSingle_def env(3))
  show ?thesis unfolding turn protect_single.simps
    by (auto simp: push(1) block andThen_def sig)
qed

section \<open>How often a cleanup block runs\<close>

text \<open>
  C31. The cleanup of \<open>ensure:\<close> runs once when the protected block ends or is unwound and
  not at all when the activation is suspended in it, and the result is then that of the
  block; but a cleanup that fails after a normal end runs a second time.
\<close>

theorem cleanup_runs:
  fixes runs :: "'w \<Rightarrow> nat" and C :: "('v, 'w, 'x) exc_env"
  assumes "\<And>s. runs (xs_world (snd (invokeBlock C cleanup [] s))) = Suc (runs (xs_world s))"
    and "runs (xs_world s1) = runs (xs_world s)"
    and "invokeBlock C block [] s = (r, s1)" "invokeBlock C cleanup [] s1 = (q, s2)"
    and "prim_Block_ensure C block [cleanup] s = (res, s')"
  shows "runs (xs_world s') = runs (xs_world s) +
      (case r of Inl x \<Rightarrow> (if suspends x then 0 else 1)
       | Inr v \<Rightarrow> (case q of Inr w \<Rightarrow> 1 | Inl y \<Rightarrow> if suspends y then 1 else 2)) \<and>
    (case q of Inr w \<Rightarrow> res = r | Inl y \<Rightarrow> True)"
proof -
  obtain q3 s3 where third: "invokeBlock C cleanup [] s2 = (q3, s3)" by force
  have n: "runs (xs_world s2) = Suc (runs (xs_world s))" "runs (xs_world s3) = Suc (Suc (runs (xs_world s)))"
    using assms(1) [of s1] assms(1) [of s2] assms(2,4) third by simp_all
  show ?thesis using assms(2-5) n third
    by (cases r; cases q; cases q3) (auto simp: prim_Block_ensure_def cleanup_after_def split: if_splits)
qed

section \<open>On an example\<close>

text \<open>
  Objects are numbers: 0 is nil, 40 an exception class, 50 an exception of it.  The
  block 20 answers its handler's exception by \<open>return: 7\<close>, 30 counts a run, 31 also
  fails, and 10 signals 50.
\<close>

definition demo_base :: "(nat \<Rightarrow> nat list \<Rightarrow> ((nat, nat) xstate, (nat, unit) signal, nat option) run) \<Rightarrow> (nat, nat, unit) exc_env" where
  "demo_base blocks = \<lparr>px_none = 0, px_true = 1, px_false = 2, px_get = (\<lambda>_ _ _. None), px_own = (\<lambda>_ _ _. None), px_set = (\<lambda>_ _ _ s. s),
     px_attrs = (\<lambda>_ _. []), px_child = Pair, px_chain = (\<lambda>_ _. []), px_long = (\<lambda>_. 0), px_fromLong = (\<lambda>_. 0),
     px_isInteger = (\<lambda>_. False), px_isDouble = (\<lambda>_. False), px_text = (\<lambda>_. None), px_fromText = (\<lambda>_. 0),
     px_isCharacter = (\<lambda>_. False), px_list = (\<lambda>_. None), px_fromList = (\<lambda>_. 0), px_same = (=),
     px_invoke = blocks, px_send = (\<lambda>_ _ _. ret None), ee_thread = 0, ee_depth = 1, ee_rounds = Suc (Suc (Suc 0)), ee_exceptionProto = 40,
     ee_errorProto = 41, ee_zeroDivideProto = 42, ee_arithmeticErrorProto = 43, ee_mnuProto = 44, ee_messageProto = 45,
     ee_arrayProto = 46, ee_hasParent = (\<lambda>v g _. v = 50 \<and> g = 40), ee_isCell = (\<lambda>_. True), ee_global = (\<lambda>_ _. None),
     ee_blockArgCount = (\<lambda>_ _. 1), ee_canStartNestedEngine = (\<lambda>_. True), ee_onActor = (\<lambda>_. False), ee_debug = (\<lambda>_ _ _ s. s)\<rparr>"

definition demo_leaf :: "nat \<Rightarrow> nat list \<Rightarrow> ((nat, nat) xstate, (nat, unit) signal, nat option) run" where
  "demo_leaf b a =
     (if b = 20 then andThen (prim_Exception_return (demo_base (\<lambda>_ _. ret None)) 50 [7]) (\<lambda>v. ret (Some v))
      else if b = 30 then (\<lambda>s. (Inr None, s\<lparr>xs_world := Suc (xs_world s)\<rparr>))
      else if b = 31 then (\<lambda>s. (Inl (Std_error ''failed''), s\<lparr>xs_world := Suc (xs_world s)\<rparr>))
      else ret None)"

definition demo_blocks :: "nat \<Rightarrow> nat list \<Rightarrow> ((nat, nat) xstate, (nat, unit) signal, nat option) run" where
  "demo_blocks b a = (if b = 10 then andThen (signalInstance (demo_base demo_leaf) 50 0 None) (\<lambda>v. ret (Some v)) else demo_leaf b a)"

definition demo_start :: "(nat, nat) xstate" where
  "demo_start = \<lparr>xs_handlers = no_handlers, xs_active = [], xs_fromPrimitive = False, xs_stderr = [], xs_world = 0\<rparr>"

lemma demo_steady: "steady (demo_base f) = steady (demo_base g)"
  by (simp add: steady_def fun_eq_iff demo_base_def)

lemma demo_balanced:
  assumes "\<And>b a. keeps (demo_base f) (f b a)"
  shows "balanced (demo_base f)"
  using assms demo_steady by (auto simp: balanced_def keeps_def) (simp_all add: demo_base_def)

lemma demo_leaf_balanced: "balanced (demo_base demo_leaf)"
proof (rule demo_balanced)
  fix b a
  have "keeps (demo_base demo_leaf) (prim_Exception_return C r a)" for C :: "(nat, nat, unit) exc_env" and r a
    by (auto simp: keeps_def prim_Exception_return_def with_handler_def split: list.split)
  then show "keeps (demo_base demo_leaf) (demo_leaf b a)"
    by (auto simp: demo_leaf_def intro!: keeps_andThen) (auto simp: keeps_def steady_def)
qed

lemma demo_blocks_balanced: "balanced (demo_base demo_blocks)"
proof (rule demo_balanced)
  fix b a
  have k: "keeps (demo_base demo_blocks) m = keeps (demo_base demo_leaf) m" for m :: "(nat, nat, unit, nat option) xrun"
    by (simp add: keeps_def demo_steady [of demo_blocks demo_leaf])
  have "keeps (demo_base demo_leaf) (demo_leaf b a)"
    using balancedD(1) [OF demo_leaf_balanced, of _ b a] by (simp add: keeps_def) (simp add: demo_base_def)
  then show "keeps (demo_base demo_blocks) (demo_blocks b a)"
    by (auto simp: k demo_blocks_def intro!: keeps_andThen signalInstance_keeps demo_leaf_balanced)
qed

lemma demo_unique: "unique_ids (xs_handlers demo_start)"
  by (simp add: demo_start_def reaches_unique [OF reaches.intros(1)])

lemma demo_guards: "guards_decided (demo_base f)"
  by (auto simp: guards_decided_def demo_base_def heap_of_def guard_members_def split: option.split)

lemma demo_blocks_end: "blocks_end (demo_base demo_leaf)"
  by (simp add: blocks_end_def demo_base_def demo_leaf_def prim_Exception_return_def with_handler_def andThen_def
      split: prod.split sum.split)

lemma exceptions_keep_stack_witness:
  "xs_active (snd (prim_Block_on_do (demo_base demo_blocks) 10 [40, 20] demo_start)) = []"
proof -
  obtain res s' where r: "prim_Block_on_do (demo_base demo_blocks) 10 [40, 20] demo_start = (res, s')" by force
  have "(''blockProto'', ''on:do:'', prim_Block_on_do) \<in> set installExceptionPrimitives"
    by (simp add: installExceptionPrimitives_def)
  from exceptions_keep_stack [OF demo_blocks_balanced demo_unique this r] r show ?thesis by (simp add: demo_start_def)
qed

lemma shortcut_equals_loop_witness:
  "runProtected (demo_base demo_blocks) 10 [(40, 20)] demo_start = protect (demo_base demo_blocks) [(40, 20)] 10 (ee_rounds (demo_base demo_blocks)) 0 [] demo_start"
  by (rule shortcut_equals_loop [OF demo_blocks_balanced demo_unique])

lemma signal_ends_witness: "fst (signalInstance (demo_base demo_leaf) 50 0 None demo_start) \<noteq> Inl (Thrown Unfinished)"
  by (rule signal_ends [OF demo_leaf_balanced demo_guards demo_blocks_end demo_unique])
    (simp add: demo_start_def no_handlers_def demo_base_def)

lemma cleanup_runs_witness: "xs_world (snd (prim_Block_ensure (demo_base demo_blocks) 5 [31] demo_start)) = 2"
proof -
  obtain res s' where e: "prim_Block_ensure (demo_base demo_blocks) 5 [31] demo_start = (res, s')" by force
  have c: "invokeBlock (demo_base demo_blocks) 31 [] s = (Inl (Std_error ''failed''), s\<lparr>xs_world := Suc (xs_world s)\<rparr>)" for s
    by (simp add: invokeBlock_def demo_base_def demo_blocks_def demo_leaf_def)
  have b: "invokeBlock (demo_base demo_blocks) 5 [] s = (Inr 0, s)" for s
    by (simp add: invokeBlock_def demo_base_def demo_blocks_def demo_leaf_def or_nil_def)
  from cleanup_runs [of id "demo_base demo_blocks" 31 demo_start demo_start 5, OF _ _ b c e] c e
  show ?thesis by (simp add: suspends_def demo_start_def)
qed

lemmas demo_eval = demo_base_def demo_leaf_def demo_blocks_def push_handler_def pop_handler_def handlerStackPush_def handlerStackPop_def
  set_handlers_def on_stack_def no_handlers_def invokeBlock_def or_nil_def

lemma handler_decides_witness:
  "fst (runProtectedSingle (demo_base demo_blocks) 10 40 20 demo_start) = Inr 7"
proof -
  let ?C = "demo_base demo_blocks"
  obtain i s1 where p: "push_handler ?C 40 20 demo_start = (i, s1)" by force
  then have s1: "i = 1" "s1 = demo_start\<lparr>xs_handlers := \<lparr>hs_next = 2, hs_stack = (\<lambda>_. [])(0 := [entry 40 20 1])\<rparr>\<rparr>"
    by (auto simp: demo_eval demo_start_def)
  have x: "isExceptionInstance ?C 50 s1" by (simp add: isExceptionInstance_def demo_base_def)
  let ?s2 = "s1\<lparr>xs_fromPrimitive := False\<rparr>"
  have run: "run_handler (demo_base f) 50 False (entry 40 20 1) ?s2 = (Inl (Thrown (Unwind_to 1 7)), ?s2)"
    if "f 20 [50] = demo_leaf 20 [50]" for f
    using that unfolding s1
    by (simp add: run_handler_def handlerStackDisableFrom_def handlerStackRestore_def prim_Exception_return_def with_handler_def
        activeHandlerIdOf_def findActiveSignal_def Let_def demo_eval demo_start_def)
  have match: "matchesGuard (ee_depth (demo_base f)) (heap_of (demo_base f) ?s2) (Some 50) None (Some 40) = Some True" for f
    by (simp add: demo_base_def heap_of_def guard_members_def)
  have sig: "signalInstance (demo_base f) 50 0 None s1 = (Inl (Thrown (Unwind_to 1 7)), ?s2)"
    if "f 20 [50] = demo_leaf 20 [50]" for f
  proof -
    have "isExceptionInstance (demo_base f) 50 s1" by (simp add: isExceptionInstance_def demo_base_def)
    moreover have "find_match (demo_base f) 50 0 False ?s2 = Some (Some (entry 40 20 1))"
      using match [of f] s1(2) by (simp add: find_match_def handlerStackFindMatch_def search_range_def) (simp add: demo_base_def)
    moreover have "ee_rounds (demo_base f) = Suc (Suc (Suc 0))" "ee_canStartNestedEngine (demo_base f) ?s2" "ee_debug (demo_base f) = (\<lambda>_ _ _ s. s)"
      by (simp_all add: demo_base_def)
    ultimately show ?thesis using run [of f] that by (simp add: signalInstance_def Let_def)
  qed
  have "invokeBlock ?C 10 [] s1 = andThen (signalInstance ?C 50 0 None) ret s1"
    using sig [of demo_blocks] sig [of demo_leaf]
    by (simp add: invokeBlock_def demo_blocks_def andThen_def) (simp add: demo_base_def demo_blocks_def)
  then have "runProtectedSingle ?C 10 40 20 demo_start = (Inr 7, pop_handler ?C i ?s2)"
    using handler_decides [OF p refl, of "Suc (Suc 0)" 10 50 ret "Inl (Thrown (Unwind_to 1 7))" ?s2] run [of demo_blocks] x match [of demo_blocks] s1(1)
    by (simp add: demo_blocks_def) (simp add: demo_base_def)
  then show ?thesis by simp
qed

end
