(* ===== verification/Values.thy ===== *)
theory Values
  imports ProtoObjects
begin

text \<open>
  The values the primitives of numbers, strings and Booleans work on.  Integers are
  exact and of any size, as protoCore keeps them; a Float is an element of \<open>'f\<close>, with
  the operations of libm and of printf as parameters; a text is its UTF-8 bytes; every
  other object is one of \<open>'v\<close>.
\<close>

datatype ('v, 'f) val =
    V_nil
  | V_bool bool
  | V_int int
  | V_float 'f
  | V_text string
  | V_char nat
  | V_obj 'v

datatype ordering = Less_than | Equal_to | Greater_than | Unordered

record 'f floats =
  fl_of_int :: "int \<Rightarrow> 'f"
  fl_to_int :: "'f \<Rightarrow> int"
  fl_zero :: 'f
  fl_less :: "'f \<Rightarrow> 'f \<Rightarrow> bool"
  fl_isnan :: "'f \<Rightarrow> bool"
  fl_isinf :: "'f \<Rightarrow> bool"
  fl_below_long :: "'f \<Rightarrow> bool"
  fl_sub :: "'f \<Rightarrow> 'f \<Rightarrow> 'f"
  fl_mul :: "'f \<Rightarrow> 'f \<Rightarrow> 'f"
  fl_div :: "'f \<Rightarrow> 'f \<Rightarrow> 'f"
  fl_fmod :: "'f \<Rightarrow> 'f \<Rightarrow> 'f"
  fl_pow :: "'f \<Rightarrow> 'f \<Rightarrow> 'f"
  fl_libm :: "string \<Rightarrow> 'f \<Rightarrow> 'f"
  fl_constant :: "string \<Rightarrow> 'f"
  fl_frexp :: "'f \<Rightarrow> int \<times> int"
  fl_print_e :: "nat \<Rightarrow> 'f \<Rightarrow> string"
  fl_strtod :: "string \<Rightarrow> 'f"

text \<open>
  \<open>ve_core\<close> is an operation of protoCore on operands that are not all integers,
  \<open>ve_partial\<close> its \<open>partialCompare\<close> there.  \<open>ve_divide\<close> and \<open>ve_modulo\<close> are trusted as in
  IntegerDivision; \<open>ve_bitwise\<close> is trusted on two small integers.  \<open>ve_points\<close> are the
  characters protoCore itself sees in a text.  \<open>ve_send\<close> is
  \<open>sendDynamic\<close>.
\<close>

record ('v, 'f, 's, 'e) val_env = "'f floats" +
  ve_core :: "string \<Rightarrow> ('v, 'f) val list \<Rightarrow> ('s, 'e, ('v, 'f) val) run"
  ve_partial :: "('v, 'f) val \<Rightarrow> ('v, 'f) val \<Rightarrow> ordering"
  ve_divide :: "int \<Rightarrow> int \<Rightarrow> int"
  ve_modulo :: "int \<Rightarrow> int \<Rightarrow> int"
  ve_divmod :: "int \<Rightarrow> int \<Rightarrow> int \<times> int"
  ve_small :: "int \<Rightarrow> bool"
  ve_bitwise :: "string \<Rightarrow> int \<Rightarrow> int \<Rightarrow> int"
  ve_send :: "('v, 'f) val \<Rightarrow> string \<Rightarrow> ('v, 'f) val list \<Rightarrow> ('s, 'e, ('v, 'f) val option option) run"
  ve_own :: "('v, 'f) val \<Rightarrow> string \<Rightarrow> 's \<Rightarrow> ('v, 'f) val option"
  ve_attr :: "('v, 'f) val \<Rightarrow> string \<Rightarrow> 's \<Rightarrow> ('v, 'f) val option"
  ve_array :: "('v, 'f) val list \<Rightarrow> ('s, 'e, ('v, 'f) val) run"
  ve_points :: "string \<Rightarrow> nat list"
  ve_symbol :: "string \<Rightarrow> ('v, 'f) val"
  ve_invoke :: "('v, 'f) val \<Rightarrow> ('v, 'f) val list \<Rightarrow> ('s, 'e, ('v, 'f) val) run"
  ve_stdout :: "string \<Rightarrow> 's \<Rightarrow> 's"
  ve_zeroDivide :: 'e
  ve_rangeError :: 'e

type_synonym ('v, 'f, 's, 'e) prim =
  "('v, 'f, 's, 'e) val_env \<Rightarrow> ('v, 'f) val \<Rightarrow> ('v, 'f) val list \<Rightarrow> ('s, 'e, ('v, 'f) val) run"

definition isFloat :: "('v, 'f) val \<Rightarrow> bool" where
  "isFloat v = (case v of V_float _ \<Rightarrow> True | _ \<Rightarrow> False)"

definition isInteger :: "('v, 'f) val \<Rightarrow> bool" where
  "isInteger v = (case v of V_int _ \<Rightarrow> True | _ \<Rightarrow> False)"

definition isNumber :: "('v, 'f) val \<Rightarrow> bool" where
  "isNumber v \<longleftrightarrow> isInteger v \<or> isFloat v"

lemma kinds [simp]:
  "isFloat (V_float f)" "isInteger (V_int i)" "\<not> isFloat (V_int i)" "\<not> isInteger (V_float f)" "isNumber (V_int i)" "isNumber (V_float f)"
  "\<not> isNumber V_nil" "\<not> isNumber (V_bool b)" "\<not> isNumber (V_text t)" "\<not> isNumber (V_char c)" "\<not> isNumber (V_obj w)"
  by (simp_all add: isFloat_def isInteger_def isNumber_def)

text \<open>\<open>asLong\<close> of an integer: an error when it does not fit.\<close>

definition asLong :: "('v, 'f, 's, 'e) val_env \<Rightarrow> int \<Rightarrow> ('s, 'e, int) run" where
  "asLong C n = (if fits64 n then ret n else throw (Thrown (ve_rangeError C)))"

end
