(* ===== verification/Numbers.thy ===== *)
theory Numbers
  imports Values IntegerDivision
begin

text \<open>
  src/primitives/int_prims.cpp, math_prims.cpp and the digits of runtime/ValueFormat.cpp:
  the arithmetic of the numeric tower.
\<close>

section \<open>Integers\<close>

definition floorDivMod :: "('v, 'f, 's, 'e) val_env \<Rightarrow> int \<Rightarrow> int \<Rightarrow> int \<times> int" where
  "floorDivMod C a b =
     (case truncDivMod (ve_divide C) (ve_modulo C) a b of
        (q, m) \<Rightarrow> if m \<noteq> 0 \<and> sgn m \<noteq> sgn b then (q - 1, m + b) else (q, m))"

text \<open>The bitwise operation named by a character, on \<open>long long\<close> values.\<close>

definition bit_apply :: "char \<Rightarrow> int \<Rightarrow> int \<Rightarrow> int" where
  "bit_apply c p q = (if c = CHR ''&'' then and p q else if c = CHR ''|'' then or p q else xor p q)"

definition is_sign :: "int \<Rightarrow> bool" where
  "is_sign v \<longleftrightarrow> v = 0 \<or> v = -1"

partial_function (option) wide_bits :: "('v, 'f, 's, 'e) val_env \<Rightarrow> char \<Rightarrow> int \<Rightarrow> int \<Rightarrow> int \<Rightarrow> int \<Rightarrow> int option" where
  "wide_bits C c x y result weight =
     (if is_sign x \<and> is_sign y then Some (if bit_apply c x y = -1 then result - weight else result)
      else (case (floorDivMod C x 65536, floorDivMod C y 65536) of
              ((qx, rx), (qy, ry)) \<Rightarrow>
                wide_bits C c qx qy (result + and (bit_apply c rx ry) 0xFFFF * weight) (weight * 65536)))"

definition wideBitOp :: "('v, 'f, 's, 'e) val_env \<Rightarrow> int \<Rightarrow> int \<Rightarrow> char \<Rightarrow> int option" where
  "wideBitOp C x y c = wide_bits C c x y 0 1"

text \<open>The loop of \<open>raisedTo:\<close>.\<close>

fun power_loop :: "nat \<Rightarrow> int \<Rightarrow> int \<Rightarrow> int" where
  "power_loop k acc base =
     (if k = 0 then acc
      else power_loop (k div 2) (if odd k then acc * base else acc) (if k > 1 then base * base else base))"

declare power_loop.simps [simp del]

partial_function (option) gcd_loop :: "('v, 'f, 's, 'e) val_env \<Rightarrow> int \<Rightarrow> int \<Rightarrow> int option" where
  "gcd_loop C x y = (if y = 0 then Some x else gcd_loop C y (integerRemainder (ve_divide C) (ve_modulo C) x y))"

definition factorial_loop :: "int \<Rightarrow> int" where
  "factorial_loop n = foldl (*) 1 [2..n]"

text \<open>\<open>formatBigInteger\<close>: the digits, the last one first.\<close>

partial_function (option) big_digits :: "('v, 'f, 's, 'e) val_env \<Rightarrow> int \<Rightarrow> string \<Rightarrow> string option" where
  "big_digits C n digits =
     (if n > 0 then (case ve_divmod C n 10 of (q, d) \<Rightarrow> big_digits C q (digits @ [char_of (48 + d)])) else Some (rev digits))"

definition formatBigInteger :: "('v, 'f, 's, 'e) val_env \<Rightarrow> int \<Rightarrow> string option" where
  "formatBigInteger C v =
     (let n = (if v < 0 then - v else v)
      in map_option (\<lambda>ds. if v < 0 then CHR ''-'' # ds else ds) (if n = 0 then Some ''0'' else big_digits C n []))"

section \<open>Floats as text\<close>

text \<open>The shortest of the printed forms that reads back; the last one when none does.\<close>

fun shortest_form :: "('v, 'f, 's, 'e) val_env \<Rightarrow> nat list \<Rightarrow> 'f \<Rightarrow> string" where
  "shortest_form C [] d = []"
| "shortest_form C [p] d = fl_print_e C p d"
| "shortest_form C (p # ps) d = (if fl_strtod C (fl_print_e C p d) = d then fl_print_e C p d else shortest_form C ps d)"

definition atoi :: "string \<Rightarrow> int" where
  "atoi t = (case t of
       c # ds \<Rightarrow> if c = CHR ''-'' then - digits_value 10 (takeWhile isdigit ds)
                 else if c = CHR ''+'' then digits_value 10 (takeWhile isdigit ds) else digits_value 10 (takeWhile isdigit t)
     | [] \<Rightarrow> 0)"

text \<open>Trailing zeros go, the first digit stays.\<close>

definition drop_zeros :: "string \<Rightarrow> string" where
  "drop_zeros ds = (case ds of [] \<Rightarrow> [] | d # rest \<Rightarrow> d # rev (dropWhile (\<lambda>c. c = CHR ''0'') (rev rest)))"

definition zeros :: "nat \<Rightarrow> string" where
  "zeros n = replicate n (CHR ''0'')"

definition place_digits :: "string \<Rightarrow> int \<Rightarrow> string" where
  "place_digits digits e =
     (if - 4 \<le> e \<and> e < 16 then
        if e < 0 then ''0.'' @ zeros (nat (- e - 1)) @ digits
        else (let n = nat e + 1 in
              if length digits \<le> n then digits @ zeros (n - length digits) @ ''.0'' else take n digits @ ''.'' @ drop n digits)
      else take 1 digits @ ''.'' @ (if length digits > 1 then drop 1 digits else ''0'') @ ''e'' @ show_int e)"

definition formatFloat :: "('v, 'f, 's, 'e) val_env \<Rightarrow> 'f \<Rightarrow> string" where
  "formatFloat C d =
     (if fl_isnan C d then ''Float nan''
      else if fl_isinf C d then (if fl_less C d (fl_zero C) then ''Float infinity negated'' else ''Float infinity'')
      else
        (let buf = shortest_form C [0..<17] d; negative = (take 1 buf = ''-''); e = (if negative then drop 1 buf else buf);
             mantissa = takeWhile (\<lambda>c. c \<noteq> CHR ''e'') e;
             exp10 = atoi (drop (length mantissa + 1) e);
             digits = drop_zeros (filter (\<lambda>c. c \<noteq> CHR ''.'') mantissa)
         in (if negative then ''-'' else '''') @ place_digits digits exp10))"

definition formatNumber :: "('v, 'f, 's, 'e) val_env \<Rightarrow> ('v, 'f) val \<Rightarrow> string option" where
  "formatNumber C v =
     (case v of V_float d \<Rightarrow> Some (formatFloat C d) | V_int n \<Rightarrow> formatBigInteger C n | _ \<Rightarrow> None)"

section \<open>Conversions\<close>

text \<open>Called with a number only.\<close>

definition asDoubleVal :: "('v, 'f, 's, 'e) val_env \<Rightarrow> ('v, 'f) val \<Rightarrow> 'f" where
  "asDoubleVal C v =
     (case v of
        V_float d \<Rightarrow> d
      | V_int n \<Rightarrow> if fits64 n then fl_of_int C n else fl_strtod C (case formatBigInteger C n of Some t \<Rightarrow> t | None \<Rightarrow> [])
      | _ \<Rightarrow> fl_zero C)"

definition asDouble :: "('v, 'f, 's, 'e) val_env \<Rightarrow> ('v, 'f) val \<Rightarrow> 'f" where
  "asDouble C v = (case v of V_float d \<Rightarrow> d | V_int n \<Rightarrow> fl_of_int C n | _ \<Rightarrow> fl_zero C)"

definition integerFromDouble :: "('v, 'f, 's, 'e) val_env \<Rightarrow> 'f \<Rightarrow> ('s, 'e, ('v, 'f) val) run" where
  "integerFromDouble C d =
     (if fl_isnan C d \<or> fl_isinf C d then throw (Std_error ''cannot convert a non-finite Float to an Integer'')
      else ret (V_int (fl_to_int C d)))"

section \<open>Arguments\<close>

text \<open>
  An argument that is no number is asked to adapt the receiver.  A loop that does not
  end counts as undefined behaviour, as in C++.
\<close>

definition adaptArgument :: "('v, 'f, 's, 'e) val_env \<Rightarrow> ('v, 'f) val \<Rightarrow> ('v, 'f) val \<Rightarrow> string \<Rightarrow> ('s, 'e, ('v, 'f) val option) run" where
  "adaptArgument C r arg selector =
     (case arg of
        V_nil \<Rightarrow> ret None | V_bool _ \<Rightarrow> ret None | V_text _ \<Rightarrow> ret None
      | _ \<Rightarrow> andThen (ve_send C arg ''adaptToNumber:andSend:'' [r, ve_symbol C selector])
               (\<lambda>res. ret (map_option (\<lambda>v. case v of None \<Rightarrow> V_nil | Some x \<Rightarrow> x) res)))"

definition requireNumber :: "('v, 'f) val \<Rightarrow> string \<Rightarrow> ('s, 'e, unit) run" where
  "requireNumber v who = (if isNumber v then ret () else throw (Std_error (who @ '': argument is not a number'')))"

definition with_number :: "('v, 'f, 's, 'e) val_env \<Rightarrow> string \<Rightarrow> ('v, 'f) val \<Rightarrow> ('v, 'f) val \<Rightarrow>
    (('v, 'f) val \<Rightarrow> ('s, 'e, ('v, 'f) val) run) \<Rightarrow> ('s, 'e, ('v, 'f) val) run" where
  "with_number C selector r arg k =
     (if isNumber arg then k arg
      else andThen (adaptArgument C r arg selector)
             (\<lambda>adapted. case adapted of Some v \<Rightarrow> ret v | None \<Rightarrow> andThen (requireNumber arg selector) (\<lambda>_. k arg)))"

definition one_arg :: "string \<Rightarrow> ('v, 'f) val list \<Rightarrow> (('v, 'f) val \<Rightarrow> ('s, 'e, ('v, 'f) val) run) \<Rightarrow> ('s, 'e, ('v, 'f) val) run" where
  "one_arg message a k = (case a of [x] \<Rightarrow> k x | _ \<Rightarrow> throw (Std_error message))"

definition first_arg :: "('v, 'f) val list \<Rightarrow> (('v, 'f) val \<Rightarrow> ('s, 'e, ('v, 'f) val) run) \<Rightarrow> ('s, 'e, ('v, 'f) val) run" where
  "first_arg a k = (case a of x # _ \<Rightarrow> k x | [] \<Rightarrow> throw Undefined_behaviour)"

definition returned :: "'a option \<Rightarrow> ('s, 'e, 'a) run" where
  "returned v = (case v of Some x \<Rightarrow> ret x | None \<Rightarrow> throw Undefined_behaviour)"

section \<open>Arithmetic\<close>

text \<open>Two integers are added, subtracted and multiplied exactly.\<close>

definition core_op :: "('v, 'f, 's, 'e) val_env \<Rightarrow> string \<Rightarrow> (int \<Rightarrow> int \<Rightarrow> int) \<Rightarrow> ('v, 'f) val \<Rightarrow> ('v, 'f) val \<Rightarrow> ('s, 'e, ('v, 'f) val) run" where
  "core_op C name f r x = (case (r, x) of (V_int p, V_int q) \<Rightarrow> ret (V_int (f p q)) | _ \<Rightarrow> ve_core C name [r, x])"

definition prim_NumAdd :: "('v, 'f, 's, 'e) prim" where
  "prim_NumAdd C r a = one_arg ''+ expects 1 arg'' a (\<lambda>x. with_number C ''+'' r x (core_op C ''add'' (+) r))"

definition prim_NumSub :: "('v, 'f, 's, 'e) prim" where
  "prim_NumSub C r a = one_arg ''- expects 1 arg'' a (\<lambda>x. with_number C ''-'' r x (core_op C ''subtract'' (-) r))"

definition prim_NumMul :: "('v, 'f, 's, 'e) prim" where
  "prim_NumMul C r a = one_arg ''* expects 1 arg'' a (\<lambda>x. with_number C ''*'' r x (core_op C ''multiply'' (*) r))"

definition fl_is_zero :: "('v, 'f, 's, 'e) val_env \<Rightarrow> 'f \<Rightarrow> bool" where
  "fl_is_zero C d \<longleftrightarrow> \<not> fl_isnan C d \<and> \<not> fl_less C d (fl_zero C) \<and> \<not> fl_less C (fl_zero C) d"

definition isZeroNumber :: "('v, 'f, 's, 'e) val_env \<Rightarrow> ('v, 'f) val \<Rightarrow> bool" where
  "isZeroNumber C n = (case n of V_float d \<Rightarrow> fl_is_zero C d | V_int i \<Rightarrow> i = 0 | _ \<Rightarrow> False)"

definition checkDivisor :: "('v, 'f, 's, 'e) val_env \<Rightarrow> ('v, 'f) val \<Rightarrow> string \<Rightarrow> ('s, 'e, unit) run" where
  "checkDivisor C d selector =
     andThen (requireNumber d selector) (\<lambda>_. if isZeroNumber C d then throw (Thrown (ve_zeroDivide C)) else ret ())"

text \<open>The common frame of the five divisions; \<open>both\<close> is for two integers, \<open>real\<close> for a Float among two numbers.\<close>

definition division :: "('v, 'f, 's, 'e) val_env \<Rightarrow> string \<Rightarrow> (int \<Rightarrow> int \<Rightarrow> int) \<Rightarrow> ('f \<Rightarrow> 'f \<Rightarrow> ('s, 'e, ('v, 'f) val) run) \<Rightarrow>
    ('v, 'f) val \<Rightarrow> ('v, 'f) val list \<Rightarrow> ('s, 'e, ('v, 'f) val) run" where
  "division C selector both real r a =
     one_arg (selector @ '' expects 1 arg'') a (\<lambda>x. with_number C selector r x (\<lambda>x. andThen (checkDivisor C x selector) (\<lambda>_.
       case (r, x) of
         (V_int p, V_int q) \<Rightarrow> ret (V_int (both p q))
       | _ \<Rightarrow> if isNumber r then real (asDouble C r) (asDouble C x) else ve_core C selector [r, x])))"

definition prim_NumDiv :: "('v, 'f, 's, 'e) prim" where
  "prim_NumDiv C r a =
     one_arg ''/ expects 1 arg'' a (\<lambda>x. with_number C ''/'' r x (\<lambda>x. andThen (checkDivisor C x ''/'')
       (\<lambda>_. core_op C ''divide'' (integerQuotient (ve_divide C) (ve_modulo C)) r x)))"

definition float_quotient :: "('v, 'f, 's, 'e) val_env \<Rightarrow> 'f \<Rightarrow> 'f \<Rightarrow> 'f" where
  "float_quotient C x y = fl_libm C ''floor'' (fl_div C x y)"

definition prim_NumIntDiv :: "('v, 'f, 's, 'e) prim" where
  "prim_NumIntDiv C = division C ''//'' (\<lambda>p q. fst (floorDivMod C p q))
     (\<lambda>x y. let q = float_quotient C x y in ret (if fl_below_long C q then V_int (fl_to_int C q) else V_float q))"

definition prim_NumMod :: "('v, 'f, 's, 'e) prim" where
  "prim_NumMod C = division C [CHR 0x5C, CHR 0x5C] (\<lambda>p q. snd (floorDivMod C p q))
     (\<lambda>x y. ret (V_float (fl_sub C x (fl_mul C (float_quotient C x y) y))))"

definition prim_NumQuo :: "('v, 'f, 's, 'e) prim" where
  "prim_NumQuo C = division C ''quo:'' (integerQuotient (ve_divide C) (ve_modulo C))
     (\<lambda>x y. let q = fl_libm C ''trunc'' (fl_div C x y)
            in if fl_isnan C q \<or> fl_isinf C q then throw (Std_error ''quo: result is not finite'') else ret (V_int (fl_to_int C q)))"

definition prim_NumRem :: "('v, 'f, 's, 'e) prim" where
  "prim_NumRem C = division C ''rem:'' (integerRemainder (ve_divide C) (ve_modulo C)) (\<lambda>x y. ret (V_float (fl_fmod C x y)))"

section \<open>Comparison\<close>

definition partialCompare :: "('v, 'f, 's, 'e) val_env \<Rightarrow> ('v, 'f) val \<Rightarrow> ('v, 'f) val \<Rightarrow> ordering" where
  "partialCompare C r x =
     (case (r, x) of (V_int p, V_int q) \<Rightarrow> if p < q then Less_than else if p = q then Equal_to else Greater_than | _ \<Rightarrow> ve_partial C r x)"

definition comparison :: "ordering set \<Rightarrow> string \<Rightarrow> ('v, 'f, 's, 'e) prim" where
  "comparison S selector C r a =
     first_arg a (\<lambda>x. with_number C selector r x (\<lambda>x. ret (V_bool (partialCompare C r x \<in> S))))"

definition prim_NumLt :: "('v, 'f, 's, 'e) prim" where "prim_NumLt = comparison {Less_than} ''<''"
definition prim_NumLe :: "('v, 'f, 's, 'e) prim" where "prim_NumLe = comparison {Less_than, Equal_to} ''<=''"
definition prim_NumGt :: "('v, 'f, 's, 'e) prim" where "prim_NumGt = comparison {Greater_than} ''>''"
definition prim_NumGe :: "('v, 'f, 's, 'e) prim" where "prim_NumGe = comparison {Greater_than, Equal_to} ''>=''"

definition prim_NumEq :: "('v, 'f, 's, 'e) prim" where
  "prim_NumEq C r a = first_arg a (\<lambda>x.
     if \<not> isNumber x then andThen (adaptArgument C r x ''='') (\<lambda>adapted. ret (V_bool (adapted = Some (V_bool True))))
     else ret (V_bool (partialCompare C r x = Equal_to)))"

definition prim_NumNe :: "('v, 'f, 's, 'e) prim" where
  "prim_NumNe C r a = first_arg a (\<lambda>x.
     if \<not> isNumber x then andThen (adaptArgument C r x ''='') (\<lambda>adapted. ret (V_bool (adapted \<noteq> Some (V_bool True))))
     else ret (V_bool (partialCompare C r x \<noteq> Equal_to)))"

text \<open>\<open>min:\<close>, \<open>max:\<close> and \<open>between:and:\<close> of math_prims.cpp do not adapt.\<close>

definition prim_Min :: "('v, 'f, 's, 'e) prim" where
  "prim_Min C r a = first_arg a (\<lambda>x. andThen (requireNumber x ''min:'') (\<lambda>_.
     ret (if partialCompare C r x \<in> {Less_than, Equal_to} then r else x)))"

definition prim_Max :: "('v, 'f, 's, 'e) prim" where
  "prim_Max C r a = first_arg a (\<lambda>x. andThen (requireNumber x ''max:'') (\<lambda>_.
     ret (if partialCompare C r x \<in> {Greater_than, Equal_to} then r else x)))"

definition prim_BetweenAnd :: "('v, 'f, 's, 'e) prim" where
  "prim_BetweenAnd C r a =
     (case a of
        [low, high] \<Rightarrow> andThen (requireNumber low ''between:and:'') (\<lambda>_. andThen (requireNumber high ''between:and:'') (\<lambda>_.
          ret (V_bool (partialCompare C r low \<in> {Greater_than, Equal_to} \<and> partialCompare C r high \<in> {Less_than, Equal_to}))))
      | _ \<Rightarrow> throw (Std_error ''between:and: expects 2 args''))"

section \<open>Unary operations\<close>

definition on_number :: "('v, 'f, 's, 'e) val_env \<Rightarrow> string \<Rightarrow> (int \<Rightarrow> ('s, 'e, ('v, 'f) val) run) \<Rightarrow> ('f \<Rightarrow> ('s, 'e, ('v, 'f) val) run) \<Rightarrow>
    ('v, 'f) val \<Rightarrow> ('s, 'e, ('v, 'f) val) run" where
  "on_number C name f g r = (case r of V_int n \<Rightarrow> f n | V_float d \<Rightarrow> g d | _ \<Rightarrow> ve_core C name [r])"

definition prim_NumNegated :: "('v, 'f, 's, 'e) prim" where
  "prim_NumNegated C r a = on_number C ''negate'' (\<lambda>n. ret (V_int (- n))) (\<lambda>d. ve_core C ''negate'' [r]) r"

definition prim_NumAbs :: "('v, 'f, 's, 'e) prim" where
  "prim_NumAbs C r a = on_number C ''abs'' (\<lambda>n. ret (V_int \<bar>n\<bar>)) (\<lambda>d. ve_core C ''abs'' [r]) r"

text \<open>A class of numbers prints as its name.\<close>

definition prim_NumPrintString :: "('v, 'f, 's, 'e) prim" where
  "prim_NumPrintString C r a s =
     (let own = (if isNumber r then None else ve_own C r ''__class_name__'' s)
      in case own of
           Some v \<Rightarrow> if v \<noteq> V_nil then (Inr v, s) else ve_core C ''format'' [r] s
         | None \<Rightarrow> if isNumber r then andThen (returned (formatNumber C r)) (\<lambda>t. ret (V_text t)) s else ve_core C ''format'' [r] s)"

definition parity :: "bool \<Rightarrow> ('v, 'f, 's, 'e) prim" where
  "parity wanted C r a = on_number C ''modulo'' (\<lambda>n. ret (V_bool ((ve_modulo C n 2 = 0) = wanted))) (\<lambda>d. ret (V_bool False)) r"

definition prim_NumIsEven :: "('v, 'f, 's, 'e) prim" where "prim_NumIsEven = parity True"
definition prim_NumIsOdd :: "('v, 'f, 's, 'e) prim" where "prim_NumIsOdd = parity False"
definition prim_Even :: "('v, 'f, 's, 'e) prim" where "prim_Even = parity True"
definition prim_Odd :: "('v, 'f, 's, 'e) prim" where "prim_Odd = parity False"

section \<open>Bits\<close>

definition requireInteger :: "('v, 'f) val \<Rightarrow> string \<Rightarrow> ('s, 'e, int) run" where
  "requireInteger v who =
     (case v of V_int n \<Rightarrow> ret n | _ \<Rightarrow> throw (Std_error (who @ '': receiver and argument must be integers'')))"

definition bit_prim :: "string \<Rightarrow> string \<Rightarrow> char \<Rightarrow> ('v, 'f, 's, 'e) prim" where
  "bit_prim selector method c C r a =
     one_arg (selector @ '' expects 1 arg'') a (\<lambda>x. andThen (requireInteger r selector) (\<lambda>p. andThen (requireInteger x selector) (\<lambda>q.
       if ve_small C p \<and> ve_small C q then ret (V_int (ve_bitwise C method p q))
       else andThen (returned (wideBitOp C p q c)) (\<lambda>v. ret (V_int v)))))"

definition prim_IntBitAnd :: "('v, 'f, 's, 'e) prim" where "prim_IntBitAnd = bit_prim ''bitAnd:'' ''bitwiseAnd'' (CHR ''&'')"
definition prim_IntBitOr :: "('v, 'f, 's, 'e) prim" where "prim_IntBitOr = bit_prim ''bitOr:'' ''bitwiseOr'' (CHR ''|'')"
definition prim_IntBitXor :: "('v, 'f, 's, 'e) prim" where "prim_IntBitXor = bit_prim ''bitXor:'' ''bitwiseXor'' (CHR ''^'')"

definition prim_IntBitInvert :: "('v, 'f, 's, 'e) prim" where
  "prim_IntBitInvert C r a = andThen (requireInteger r ''bitInvert'') (\<lambda>n. ret (V_int (not n)))"

definition prim_IntBitShift :: "('v, 'f, 's, 'e) prim" where
  "prim_IntBitShift C r a =
     one_arg ''bitShift: expects 1 arg'' a (\<lambda>x. andThen (requireInteger r ''bitShift:'') (\<lambda>p. andThen (requireInteger x ''bitShift:'') (\<lambda>q.
       andThen (asLong C q) (\<lambda>n.
         if n > 1000000 \<or> n < - 1000000 then throw (Std_error ''bitShift: shift amount out of range'')
         else ret (V_int (if n \<ge> 0 then push_bit (nat n) p else drop_bit (nat (- n)) p))))))"

section \<open>The mathematical protocol\<close>

definition unary_math :: "string \<Rightarrow> ('v, 'f, 's, 'e) prim" where
  "unary_math fn C r a = (if isNumber r then ret (V_float (fl_libm C fn (asDoubleVal C r))) else ve_core C fn [r])"

definition prim_Sqrt :: "('v, 'f, 's, 'e) prim" where "prim_Sqrt = unary_math ''sqrt''"
definition prim_Sin :: "('v, 'f, 's, 'e) prim" where "prim_Sin = unary_math ''sin''"
definition prim_Cos :: "('v, 'f, 's, 'e) prim" where "prim_Cos = unary_math ''cos''"
definition prim_Tan :: "('v, 'f, 's, 'e) prim" where "prim_Tan = unary_math ''tan''"
definition prim_ArcSin :: "('v, 'f, 's, 'e) prim" where "prim_ArcSin = unary_math ''asin''"
definition prim_ArcCos :: "('v, 'f, 's, 'e) prim" where "prim_ArcCos = unary_math ''acos''"
definition prim_ArcTan :: "('v, 'f, 's, 'e) prim" where "prim_ArcTan = unary_math ''atan''"
definition prim_Ln :: "('v, 'f, 's, 'e) prim" where "prim_Ln = unary_math ''log''"
definition prim_Exp :: "('v, 'f, 's, 'e) prim" where "prim_Exp = unary_math ''exp''"
definition prim_Log10 :: "('v, 'f, 's, 'e) prim" where "prim_Log10 = unary_math ''log10''"

definition prim_LogBase :: "('v, 'f, 's, 'e) prim" where
  "prim_LogBase C r a =
     one_arg ''log: expects 1 arg (base)'' a (\<lambda>x. with_number C ''log:'' r x (\<lambda>x.
       if isNumber r then ret (V_float (fl_div C (fl_libm C ''log'' (asDoubleVal C r)) (fl_libm C ''log'' (asDoubleVal C x))))
       else ve_core C ''log:'' [r, x]))"

definition rounding :: "string \<Rightarrow> ('v, 'f, 's, 'e) prim" where
  "rounding fn C r a = (case r of V_float d \<Rightarrow> integerFromDouble C (fl_libm C fn d) | _ \<Rightarrow> ret r)"

definition prim_Floor :: "('v, 'f, 's, 'e) prim" where "prim_Floor = rounding ''floor''"
definition prim_Ceiling :: "('v, 'f, 's, 'e) prim" where "prim_Ceiling = rounding ''ceil''"
definition prim_Rounded :: "('v, 'f, 's, 'e) prim" where "prim_Rounded = rounding ''round''"
definition prim_Truncated :: "('v, 'f, 's, 'e) prim" where "prim_Truncated = rounding ''trunc''"
definition prim_AsInteger :: "('v, 'f, 's, 'e) prim" where "prim_AsInteger = rounding ''trunc''"

definition prim_AsFloat :: "('v, 'f, 's, 'e) prim" where
  "prim_AsFloat C r a = (case r of V_float d \<Rightarrow> ret r | V_int n \<Rightarrow> ret (V_float (asDoubleVal C r)) | _ \<Rightarrow> ve_core C ''asDouble'' [r])"

definition prim_Sign :: "('v, 'f, 's, 'e) prim" where
  "prim_Sign C r a = on_number C ''integerSign'' (\<lambda>n. ret (V_int (sgn n)))
     (\<lambda>d. ret (V_int (if fl_less C (fl_zero C) d then 1 else if fl_less C d (fl_zero C) then - 1 else 0))) r"

definition prim_Squared :: "('v, 'f, 's, 'e) prim" where
  "prim_Squared C r a = core_op C ''multiply'' (*) r r"

definition prim_Reciprocal :: "('v, 'f, 's, 'e) prim" where
  "prim_Reciprocal C r a =
     (if \<not> isNumber r then ve_core C ''asDouble'' [r]
      else if fl_is_zero C (asDoubleVal C r) then throw (Thrown (ve_zeroDivide C))
      else ret (V_float (fl_div C (fl_of_int C 1) (asDoubleVal C r))))"

definition prim_IsZero :: "('v, 'f, 's, 'e) prim" where
  "prim_IsZero C r a = on_number C ''integerSign'' (\<lambda>n. ret (V_bool (n = 0))) (\<lambda>d. ret (V_bool (fl_is_zero C d))) r"

definition prim_Factorial :: "('v, 'f, 's, 'e) prim" where
  "prim_Factorial C r a = on_number C ''integerSign''
     (\<lambda>n. if n < 0 then throw (Std_error ''factorial: receiver is negative'') else andThen (asLong C n) (\<lambda>n. ret (V_int (factorial_loop n))))
     (\<lambda>d. throw (Std_error ''factorial: receiver is not an integer'')) r"

text \<open>The negation of the smallest \<open>long long\<close> overflows.\<close>

definition prim_RaisedTo :: "('v, 'f, 's, 'e) prim" where
  "prim_RaisedTo C r a =
     one_arg ''raisedTo: expects 1 arg'' a (\<lambda>x. with_number C ''raisedTo:'' r x (\<lambda>x.
       case (r, x) of
         (V_int b, V_int q) \<Rightarrow>
           andThen (asLong C q) (\<lambda>e. andThen (if e < 0 then ll (- e) else ret e) (\<lambda>k.
             let acc = power_loop (nat k) 1 b
             in if e \<ge> 0 then ret (V_int acc)
                else andThen (ve_send C (V_int 1) ''/'' [V_int acc]) (\<lambda>res. case res of
                       Some (Some v) \<Rightarrow> ret v
                     | _ \<Rightarrow> ret (V_float (fl_pow C (asDoubleVal C r) (fl_of_int C e))))))
       | _ \<Rightarrow> if isNumber r then ret (V_float (fl_pow C (asDoubleVal C r) (asDoubleVal C x))) else ve_core C ''raisedTo:'' [r, x]))"

definition int_gcd :: "('v, 'f, 's, 'e) val_env \<Rightarrow> int \<Rightarrow> int \<Rightarrow> ('s, 'e, int) run" where
  "int_gcd C p q =
     (if p = 0 \<and> q = 0 then throw (Std_error ''gcd: of zero and zero is undefined'') else returned (gcd_loop C \<bar>p\<bar> \<bar>q\<bar>))"

definition prim_Gcd :: "('v, 'f, 's, 'e) prim" where
  "prim_Gcd C r a =
     one_arg ''gcd: expects 1 arg'' a (\<lambda>x. with_number C ''gcd:'' r x (\<lambda>x.
       case (r, x) of
         (V_int p, V_int q) \<Rightarrow> andThen (int_gcd C p q) (\<lambda>g. ret (V_int g))
       | _ \<Rightarrow> if isFloat r \<or> isFloat x then throw (Std_error ''gcd: operands must be integers'') else ve_core C ''abs'' [r, x]))"

definition prim_Lcm :: "('v, 'f, 's, 'e) prim" where
  "prim_Lcm C r a =
     one_arg ''lcm: expects 1 arg'' a (\<lambda>x. with_number C ''lcm:'' r x (\<lambda>x.
       case (r, x) of
         (V_int p, V_int q) \<Rightarrow>
           if p = 0 \<or> q = 0 then ret (V_int 0)
           else andThen (int_gcd C p q) (\<lambda>g. ret (V_int (integerQuotient (ve_divide C) (ve_modulo C) \<bar>p * q\<bar> g)))
       | _ \<Rightarrow> if isFloat r \<or> isFloat x then throw (Std_error ''lcm: operands must be integers'') else ve_core C ''integerSign'' [r, x]))"

definition prim_Pi :: "('v, 'f, 's, 'e) prim" where "prim_Pi C r a = ret (V_float (fl_constant C ''M_PI''))"
definition prim_E :: "('v, 'f, 's, 'e) prim" where "prim_E C r a = ret (V_float (fl_constant C ''M_E''))"
definition prim_Infinity :: "('v, 'f, 's, 'e) prim" where "prim_Infinity C r a = ret (V_float (fl_constant C ''HUGE_VAL''))"
definition prim_Nan :: "('v, 'f, 's, 'e) prim" where "prim_Nan C r a = ret (V_float (fl_constant C ''nan''))"

text \<open>\<open>fl_frexp\<close> gives the mantissa scaled to 53 bits and the exponent of \<open>std::frexp\<close>.\<close>

function strip_twos :: "int \<Rightarrow> int \<Rightarrow> int \<times> int" where
  "strip_twos m e = (if m \<noteq> 0 \<and> even m then strip_twos (m div 2) (e + 1) else (m, e))"
  by pat_completeness auto
termination
  by (relation "measure (\<lambda>(m, e). nat \<bar>m\<bar>)") auto

declare strip_twos.simps [simp del]

definition prim_FloatParts :: "('v, 'f, 's, 'e) prim" where
  "prim_FloatParts C r a =
     (case r of
        V_float d \<Rightarrow>
          if fl_isnan C d \<or> fl_isinf C d then throw (Std_error ''__floatParts: not a finite Float'')
          else (case fl_frexp C d of (mant, e) \<Rightarrow>
                  (case strip_twos mant (if mant = 0 then 0 else e - 53) of (m, x) \<Rightarrow> ve_array C [V_int m, V_int x]))
      | _ \<Rightarrow> ve_core C ''asDouble'' [r])"

section \<open>The tables\<close>

definition installIntPrimitives :: "(string \<times> string \<times> ('v, 'f, 's, 'e) prim) list" where
  "installIntPrimitives = map (Pair ''numberProto'')
     [(''+'', prim_NumAdd), (''-'', prim_NumSub), (''*'', prim_NumMul), (''/'', prim_NumDiv), (''//'', prim_NumIntDiv),
      ([CHR 0x5C, CHR 0x5C], prim_NumMod), (''quo:'', prim_NumQuo), (''rem:'', prim_NumRem), (''<'', prim_NumLt), (''<='', prim_NumLe),
      (''>'', prim_NumGt), (''>='', prim_NumGe), (''='', prim_NumEq), (''~='', prim_NumNe), (''negated'', prim_NumNegated),
      (''abs'', prim_NumAbs), (''isEven'', prim_NumIsEven), (''isOdd'', prim_NumIsOdd), (''printString'', prim_NumPrintString),
      (''bitAnd:'', prim_IntBitAnd), (''bitOr:'', prim_IntBitOr), (''bitXor:'', prim_IntBitXor), (''bitInvert'', prim_IntBitInvert),
      (''bitShift:'', prim_IntBitShift)]"

definition installMathPrimitives :: "(string \<times> string \<times> ('v, 'f, 's, 'e) prim) list" where
  "installMathPrimitives = map (Pair ''numberProto'')
     [(''sqrt'', prim_Sqrt), (''sin'', prim_Sin), (''cos'', prim_Cos), (''tan'', prim_Tan), (''arcSin'', prim_ArcSin),
      (''arcCos'', prim_ArcCos), (''arcTan'', prim_ArcTan), (''ln'', prim_Ln), (''exp'', prim_Exp), (''log'', prim_Log10),
      (''log:'', prim_LogBase), (''floor'', prim_Floor), (''ceiling'', prim_Ceiling), (''rounded'', prim_Rounded),
      (''truncated'', prim_Truncated), (''sign'', prim_Sign), (''squared'', prim_Squared), (''reciprocal'', prim_Reciprocal),
      (''isZero'', prim_IsZero), (''min:'', prim_Min), (''max:'', prim_Max), (''between:and:'', prim_BetweenAnd),
      (''asFloat'', prim_AsFloat), (''asInteger'', prim_AsInteger), (''even'', prim_Even), (''odd'', prim_Odd),
      (''factorial'', prim_Factorial), (''raisedTo:'', prim_RaisedTo), (''__floatParts'', prim_FloatParts), (''gcd:'', prim_Gcd),
      (''lcm:'', prim_Lcm)] @
     map (Pair ''floatProto'') [(''pi'', prim_Pi), (''e'', prim_E), (''infinity'', prim_Infinity), (''nan'', prim_Nan)]"

end
