(* ===== verification/Strings.thy ===== *)
theory Strings
  imports Numbers
begin

text \<open>
  src/primitives/string_prims.cpp: the String and Character protocols.  A text is its
  UTF-8 bytes; the operations decode it to code points and encode the answer again.
  \<open>ctx->fromUTF8String\<close> takes a C string, which ends at its first NUL byte.
\<close>

section \<open>UTF-8\<close>

definition byte :: "int \<Rightarrow> char" where
  "byte n = char_of n"

text \<open>One sequence: how many bytes it takes and its code point; a byte that does not fit stands for itself.\<close>

fun continuation :: "int \<Rightarrow> string \<Rightarrow> int option" where
  "continuation cp [] = Some cp"
| "continuation cp (c # cs) =
     (if char_code c div 64 \<noteq> 2 then None else continuation (cp * 64 + char_code c mod 64) cs)"

definition lead :: "int \<Rightarrow> (int \<times> nat) option" where
  "lead c =
     (if c < 0x80 then Some (c, 0)
      else if c div 32 = 0x6 then Some (c mod 32, 1)
      else if c div 16 = 0xE then Some (c mod 16, 2)
      else if c div 8 = 0x1E then Some (c mod 8, 3)
      else None)"

definition decode_one :: "string \<Rightarrow> int \<times> nat" where
  "decode_one s =
     (let c = char_code (hd s) in
      case lead c of
        None \<Rightarrow> (c, 1)
      | Some (cp, extra) \<Rightarrow>
          if extra \<ge> length s then (c, 1)
          else (case continuation cp (take extra (tl s)) of None \<Rightarrow> (c, 1) | Some cp' \<Rightarrow> (cp', extra + 1)))"

function decodeCodepoints :: "string \<Rightarrow> int list" where
  "decodeCodepoints s = (if s = [] then [] else (case decode_one s of (cp, n) \<Rightarrow> cp # decodeCodepoints (drop n s)))"
  by pat_completeness auto
termination
  by (relation "measure length") (auto simp: decode_one_def Let_def split: option.splits if_splits)

declare decodeCodepoints.simps [simp del]

definition encodeCodepoint :: "int \<Rightarrow> string" where
  "encodeCodepoint cp =
     (if cp < 0x80 then [byte cp]
      else if cp < 0x800 then [byte (0xC0 + cp div 64), byte (0x80 + cp mod 64)]
      else if cp < 0x10000 then [byte (0xE0 + cp div 4096), byte (0x80 + cp div 64 mod 64), byte (0x80 + cp mod 64)]
      else [byte (0xF0 + cp div 262144), byte (0x80 + cp div 4096 mod 64), byte (0x80 + cp div 64 mod 64), byte (0x80 + cp mod 64)])"

definition encodeAll :: "int list \<Rightarrow> nat \<Rightarrow> nat \<Rightarrow> string" where
  "encodeAll cps from to = concat (map encodeCodepoint (drop from (take to cps)))"

text \<open>What protoCore makes of \<open>fromUTF8String (s.c_str ())\<close>.\<close>

definition c_str :: "string \<Rightarrow> string" where
  "c_str s = takeWhile (\<lambda>c. c \<noteq> NUL) s"

definition fromUTF8String :: "string \<Rightarrow> ('v, 'f) val" where
  "fromUTF8String s = V_text (c_str s)"

section \<open>Reading arguments\<close>

text \<open>\<open>asString\<close> answers a null pointer for anything but a text; \<open>toUtf8\<close> follows it.\<close>

definition toUtf8 :: "('v, 'f) val \<Rightarrow> ('s, 'e, string) run" where
  "toUtf8 v = (case v of V_text t \<Rightarrow> ret t | _ \<Rightarrow> throw Undefined_behaviour)"

definition stringArg :: "('v, 'f) val \<Rightarrow> string \<Rightarrow> ('s, 'e, string) run" where
  "stringArg v who = (case v of V_text t \<Rightarrow> ret t | _ \<Rightarrow> throw (Std_error (who @ '' expects a String argument'')))"

definition integerArg :: "('v, 'f, 's, 'e) val_env \<Rightarrow> ('v, 'f) val \<Rightarrow> ('s, 'e, int) run" where
  "integerArg C v = (case v of V_int n \<Rightarrow> asLong C n | _ \<Rightarrow> andThen (ve_core C ''asLong'' [v]) (\<lambda>r. case r of V_int n \<Rightarrow> asLong C n | _ \<Rightarrow> throw Undefined_behaviour))"

definition out_of_bounds :: "string \<Rightarrow> ('s, 'e, 'a) run" where
  "out_of_bounds m = throw (Classed_error ''SubscriptOutOfBounds'' m)"

section \<open>Characters of a text\<close>

definition prim_StrAt :: "('v, 'f, 's, 'e) prim" where
  "prim_StrAt C r a =
     one_arg ''String>>at: expects 1 arg (index)'' a (\<lambda>x. case x of
       V_int n \<Rightarrow> andThen (asLong C n) (\<lambda>idx.
         let points = (case r of V_text t \<Rightarrow> ve_points C t | _ \<Rightarrow> []); size = int (length points) in
         if idx < 1 \<or> idx > size then
           out_of_bounds (''String>>at: index '' @ show_int idx @ '' out of bounds (size '' @ show_int size @ '')'')
         else ret (V_char (points ! nat (idx - 1))))
     | _ \<Rightarrow> throw (Std_error ''String>>at: expects an Integer index''))"

definition prim_NumAsCharacter :: "('v, 'f, 's, 'e) prim" where
  "prim_NumAsCharacter C r a =
     (case r of
        V_int n \<Rightarrow> andThen (asLong C n) (\<lambda>cp.
          if cp < 0 \<or> cp > 0x10FFFF then throw (Std_error (''asCharacter: '' @ show_int cp @ '' is not a Unicode code point''))
          else ret (V_char (nat cp)))
      | _ \<Rightarrow> throw (Std_error ''asCharacter expects an Integer''))"

definition prim_StrSize :: "('v, 'f, 's, 'e) prim" where
  "prim_StrSize C r a = andThen (toUtf8 r) (\<lambda>t. ret (V_int (int (length (decodeCodepoints t)))))"

definition prim_CharValue :: "('v, 'f, 's, 'e) prim" where
  "prim_CharValue C r a = (case r of V_char c \<Rightarrow> ret (V_int (int c)) | _ \<Rightarrow> andThen (integerArg C r) (\<lambda>n. ret (V_int n)))"

definition char_point :: "('v, 'f, 's, 'e) val_env \<Rightarrow> ('v, 'f) val \<Rightarrow> ('s, 'e, int) run" where
  "char_point C r = (case r of V_char c \<Rightarrow> ret (int c) | _ \<Rightarrow> integerArg C r)"

definition prim_CharAsString :: "('v, 'f, 's, 'e) prim" where
  "prim_CharAsString C r a = andThen (char_point C r) (\<lambda>cp. ret (fromUTF8String (encodeCodepoint cp)))"

section \<open>Numbers in a text\<close>

definition trim_space :: "string \<Rightarrow> string" where
  "trim_space s = rev (dropWhile isspace (rev (dropWhile isspace s)))"

text \<open>The value of a sign and digits: \<open>std::stoll\<close>, or protoCore's reader beyond 64 bits.\<close>

definition integer_value :: "string \<Rightarrow> int" where
  "integer_value t =
     (case t of
        [] \<Rightarrow> 0
      | c # ds \<Rightarrow> if c = CHR ''-'' then - digits_value 10 ds else if c = CHR ''+'' then digits_value 10 ds else digits_value 10 t)"

text \<open>What follows the integer part: the length of a fraction and of an exponent, \<open>None\<close> when malformed.\<close>

definition exponent_rest :: "string \<Rightarrow> string option" where
  "exponent_rest t =
     (case t of
        c # cs \<Rightarrow>
          if c = CHR ''e'' \<or> c = CHR ''E'' then
            (let ds = (case cs of d # ds' \<Rightarrow> if d = CHR ''-'' \<or> d = CHR ''+'' then ds' else cs | [] \<Rightarrow> [])
             in if takeWhile isdigit ds = [] then None else Some (dropWhile isdigit ds))
          else Some t
      | [] \<Rightarrow> Some [])"

definition number_tail :: "string \<Rightarrow> bool" where
  "number_tail t = (exponent_rest t = Some [])"

definition parseNumber :: "('v, 'f, 's, 'e) val_env \<Rightarrow> string \<Rightarrow> bool \<Rightarrow> ('v, 'f) val" where
  "parseNumber C raw integerOnly =
     (let t = trim_space raw;
          sign = (case t of c # _ \<Rightarrow> if c = CHR ''-'' \<or> c = CHR ''+'' then [c] else [] | [] \<Rightarrow> []);
          digits = takeWhile isdigit (drop (length sign) t);
          rest = drop (length sign + length digits) t
      in if t = [] \<or> digits = [] then V_nil
         else if rest = [] \<or> integerOnly then V_int (integer_value (sign @ digits))
         else case rest of
                c # cs \<Rightarrow>
                  if c = CHR ''.'' then
                    (if takeWhile isdigit cs = [] then if cs = [] then V_int (integer_value (sign @ digits)) else V_nil
                     else if number_tail (dropWhile isdigit cs) then V_float (fl_strtod C t) else V_nil)
                  else if number_tail rest then V_float (fl_strtod C t) else V_nil
              | [] \<Rightarrow> V_nil)"

definition prim_StrAsInteger :: "('v, 'f, 's, 'e) prim" where
  "prim_StrAsInteger C r a = andThen (toUtf8 r) (\<lambda>t. ret (parseNumber C t True))"

definition prim_StrAsNumber :: "('v, 'f, 's, 'e) prim" where
  "prim_StrAsNumber C r a = andThen (toUtf8 r) (\<lambda>t. ret (parseNumber C t False))"

section \<open>Equality and order\<close>

definition prim_StrEq :: "('v, 'f, 's, 'e) prim" where
  "prim_StrEq C r a = first_arg a (\<lambda>x. andThen (toUtf8 r) (\<lambda>t. andThen (toUtf8 x) (\<lambda>u. ret (V_bool (t = u)))))"

definition prim_StrNe :: "('v, 'f, 's, 'e) prim" where
  "prim_StrNe C r a = first_arg a (\<lambda>x. andThen (toUtf8 r) (\<lambda>t. andThen (toUtf8 x) (\<lambda>u. ret (V_bool (t \<noteq> u)))))"

text \<open>\<open>std::string::compare\<close>: the bytes as unsigned numbers, in lexicographic order.\<close>

fun lex_less :: "int list \<Rightarrow> int list \<Rightarrow> bool" where
  "lex_less xs [] = False"
| "lex_less [] (y # ys) = True"
| "lex_less (x # xs) (y # ys) = (x < y \<or> x = y \<and> lex_less xs ys)"

definition bytes_less :: "string \<Rightarrow> string \<Rightarrow> bool" where
  "bytes_less s t = lex_less (map char_code s) (map char_code t)"

definition compareStrings :: "('v, 'f) val \<Rightarrow> ('v, 'f) val \<Rightarrow> ('s, 'e, int) run" where
  "compareStrings r x =
     andThen (toUtf8 r) (\<lambda>t. andThen (stringArg x ''String comparison'') (\<lambda>u.
       ret (if bytes_less t u then - 1 else if bytes_less u t then 1 else 0)))"

definition str_compare :: "(int \<Rightarrow> bool) \<Rightarrow> ('v, 'f, 's, 'e) prim" where
  "str_compare f C r a = first_arg a (\<lambda>x. andThen (compareStrings r x) (\<lambda>c. ret (V_bool (f c))))"

definition prim_StrLt :: "('v, 'f, 's, 'e) prim" where "prim_StrLt = str_compare (\<lambda>c. c < 0)"
definition prim_StrLe :: "('v, 'f, 's, 'e) prim" where "prim_StrLe = str_compare (\<lambda>c. c \<le> 0)"
definition prim_StrGt :: "('v, 'f, 's, 'e) prim" where "prim_StrGt = str_compare (\<lambda>c. c > 0)"
definition prim_StrGe :: "('v, 'f, 's, 'e) prim" where "prim_StrGe = str_compare (\<lambda>c. c \<ge> 0)"

section \<open>Building texts\<close>

definition prim_StrConcat :: "('v, 'f, 's, 'e) prim" where
  "prim_StrConcat C r a = first_arg a (\<lambda>x. case x of
     V_text u \<Rightarrow> andThen (toUtf8 r) (\<lambda>t. ret (V_text (t @ u)))
   | V_char c \<Rightarrow> andThen (toUtf8 r) (\<lambda>t. ret (fromUTF8String (t @ encodeCodepoint (int c))))
   | _ \<Rightarrow> throw (Std_error ''Cannot append a non-string to a String (use printString or displayString to convert it)''))"

definition prim_StrCopyFromTo :: "('v, 'f, 's, 'e) prim" where
  "prim_StrCopyFromTo C r a =
     (case a of
        [x, y] \<Rightarrow> andThen (toUtf8 r) (\<lambda>t. andThen (integerArg C x) (\<lambda>from. andThen (integerArg C y) (\<lambda>to.
          let cps = decodeCodepoints t in
          if to < from then ret (V_text [])
          else if from < 1 \<or> to > int (length cps) then
            out_of_bounds (''copyFrom:to: range '' @ show_int from @ '' to '' @ show_int to @ '' out of bounds (size '' @
              show_nat (length cps) @ '')'')
          else ret (fromUTF8String (encodeAll cps (nat (from - 1)) (nat to))))))
      | _ \<Rightarrow> throw (Std_error ''copyFrom:to: expects 2 args''))"

definition caseMap :: "bool \<Rightarrow> int \<Rightarrow> int" where
  "caseMap upper cp =
     (if cp < 0x80 then (if upper then char_code (toupper (byte cp)) else char_code (tolower (byte cp)))
      else if upper \<and> cp \<ge> 0xE0 \<and> cp \<le> 0xFE \<and> cp \<noteq> 0xF7 then cp - 0x20
      else if \<not> upper \<and> cp \<ge> 0xC0 \<and> cp \<le> 0xDE \<and> cp \<noteq> 0xD7 then cp + 0x20
      else cp)"

definition encoded :: "int list \<Rightarrow> ('v, 'f) val" where
  "encoded cps = fromUTF8String (encodeAll cps 0 (length cps))"

definition mapCase :: "bool \<Rightarrow> ('v, 'f) val \<Rightarrow> ('s, 'e, ('v, 'f) val) run" where
  "mapCase upper r = andThen (toUtf8 r) (\<lambda>t. ret (encoded (map (caseMap upper) (decodeCodepoints t))))"

definition prim_StrAsUppercase :: "('v, 'f, 's, 'e) prim" where "prim_StrAsUppercase C r a = mapCase True r"
definition prim_StrAsLowercase :: "('v, 'f, 's, 'e) prim" where "prim_StrAsLowercase C r a = mapCase False r"

definition prim_CharAsUppercase :: "('v, 'f, 's, 'e) prim" where
  "prim_CharAsUppercase C r a = andThen (char_point C r) (\<lambda>cp. ret (V_char (nat (caseMap True cp))))"

definition prim_CharAsLowercase :: "('v, 'f, 's, 'e) prim" where
  "prim_CharAsLowercase C r a = andThen (char_point C r) (\<lambda>cp. ret (V_char (nat (caseMap False cp))))"

definition prim_StrReversed :: "('v, 'f, 's, 'e) prim" where
  "prim_StrReversed C r a = andThen (toUtf8 r) (\<lambda>t. ret (encoded (rev (decodeCodepoints t))))"

section \<open>Searching and splitting\<close>

text \<open>\<open>std::string::find\<close> from the start of a suffix: how many bytes come before the first match.\<close>

fun find_sub :: "string \<Rightarrow> string \<Rightarrow> nat option" where
  "find_sub p [] = (if p = [] then Some 0 else None)"
| "find_sub p (c # cs) = (if take (length p) (c # cs) = p then Some 0 else map_option Suc (find_sub p cs))"

definition prim_StrIncludesSubstring :: "('v, 'f, 's, 'e) prim" where
  "prim_StrIncludesSubstring C r a = first_arg a (\<lambda>x. andThen (toUtf8 r) (\<lambda>t. andThen (stringArg x ''includesSubstring:'') (\<lambda>p.
     ret (V_bool (find_sub p t \<noteq> None)))))"

lemma find_sub_bound: "find_sub p s = Some n \<Longrightarrow> n + length p \<le> length s"
proof (induction s arbitrary: n)
  case (Cons c cs)
  show ?case
  proof (cases "take (length p) (c # cs) = p")
    case True
    then have "length p \<le> length (c # cs)" by (metis length_take min.absorb_iff2 min.commute nat_le_linear)
    with True Cons.prems show ?thesis by simp
  next
    case False
    with Cons show ?thesis by (auto simp del: take_Suc_Cons split: if_splits)
  qed
qed (auto split: if_splits)

function replace_all :: "string \<Rightarrow> string \<Rightarrow> string \<Rightarrow> string" where
  "replace_all from to s =
     (if from = [] then s
      else case find_sub from s of
             None \<Rightarrow> s
           | Some hit \<Rightarrow> take hit s @ to @ replace_all from to (drop (hit + length from) s))"
  by pat_completeness auto
termination
  by (relation "measure (\<lambda>(from, to, s). length s)") (auto dest!: find_sub_bound simp: neq_Nil_conv)

declare replace_all.simps [simp del]

definition prim_StrCopyReplaceAll :: "('v, 'f, 's, 'e) prim" where
  "prim_StrCopyReplaceAll C r a =
     (case a of
        [x, y] \<Rightarrow> andThen (toUtf8 r) (\<lambda>s. andThen (stringArg x ''copyReplaceAll:with:'') (\<lambda>from.
          andThen (stringArg y ''copyReplaceAll:with:'') (\<lambda>to. ret (fromUTF8String (replace_all from to s)))))
      | _ \<Rightarrow> throw (Std_error ''copyReplaceAll:with: expects 2 args''))"

definition prim_StrTrimBoth :: "('v, 'f, 's, 'e) prim" where
  "prim_StrTrimBoth C r a = andThen (toUtf8 r) (\<lambda>s. ret (fromUTF8String (trim_space s)))"

text \<open>The loop over the positions: \<open>piece\<close> is what has been read since the last separator.\<close>

fun pieces :: "(int \<Rightarrow> bool) \<Rightarrow> int list \<Rightarrow> int list \<Rightarrow> int list list" where
  "pieces sep piece [] = (if piece = [] then [] else [piece])"
| "pieces sep piece (c # cs) =
     (if sep c then (if piece = [] then [] else [piece]) @ pieces sep [] cs else pieces sep (piece @ [c]) cs)"

definition is_separator :: "int list \<Rightarrow> int \<Rightarrow> bool" where
  "is_separator seps c = (if seps = [] then c < 0x80 \<and> isspace (byte c) else c \<in> set seps)"

definition splitToArray :: "('v, 'f, 's, 'e) val_env \<Rightarrow> string \<Rightarrow> int list \<Rightarrow> ('s, 'e, ('v, 'f) val) run" where
  "splitToArray C s seps = ve_array C (map encoded (pieces (is_separator seps) [] (decodeCodepoints s)))"

definition prim_StrSubstrings :: "('v, 'f, 's, 'e) prim" where
  "prim_StrSubstrings C r a = andThen (toUtf8 r) (\<lambda>s. splitToArray C s [])"

definition prim_StrSubstringsSep :: "('v, 'f, 's, 'e) prim" where
  "prim_StrSubstringsSep C r a = first_arg a (\<lambda>x. andThen (toUtf8 r) (\<lambda>s. andThen (stringArg x ''substrings:'') (\<lambda>p.
     splitToArray C s (decodeCodepoints p))))"

definition prim_StrAsSymbol :: "('v, 'f, 's, 'e) prim" where
  "prim_StrAsSymbol C r a = andThen (toUtf8 r) (\<lambda>t. ret (ve_symbol C (c_str t)))"

definition prim_SymAsString :: "('v, 'f, 's, 'e) prim" where
  "prim_SymAsString C r a = andThen (toUtf8 r) (\<lambda>t. ret (fromUTF8String t))"

section \<open>Printing any value\<close>

text \<open>\<open>formatValue\<close> of runtime/ValueFormat.cpp; a \<open>displayString\<close> that fails is passed over.\<close>

definition class_name_text :: "('v, 'f) val option \<Rightarrow> string option" where
  "class_name_text v = (case v of Some (V_text t) \<Rightarrow> Some t | _ \<Rightarrow> None)"

definition default_form :: "('v, 'f, 's, 'e) val_env \<Rightarrow> ('v, 'f) val \<Rightarrow> 's \<Rightarrow> string" where
  "default_form C v s =
     (case class_name_text (ve_own C v ''__class_name__'' s) of
        Some t \<Rightarrow> t
      | None \<Rightarrow>
          (case class_name_text (ve_attr C v ''__class_name__'' s) of
             None \<Rightarrow> ''an object''
           | Some name \<Rightarrow> if name = [] then ''an object'' else (if hd name \<in> set ''AEIOU'' then ''an '' else ''a '') @ name))"

definition formatValue :: "('v, 'f, 's, 'e) val_env \<Rightarrow> ('v, 'f) val \<Rightarrow> 's \<Rightarrow> string \<times> 's" where
  "formatValue C v s =
     (case v of
        V_nil \<Rightarrow> (''nil'', s)
      | V_bool b \<Rightarrow> (if b then ''true'' else ''false'', s)
      | V_text t \<Rightarrow> (t, s)
      | _ \<Rightarrow>
          (case (if isNumber v then formatNumber C v else None) of
             Some t \<Rightarrow> (t, s)
           | None \<Rightarrow>
               (case ve_send C v ''displayString'' [] s of
                  (Inr (Some (Some (V_text t))), s1) \<Rightarrow> (t, s1)
                | (_, s1) \<Rightarrow> (default_form C v s1, s1))))"

definition prim_PrintNl :: "('v, 'f, 's, 'e) prim" where
  "prim_PrintNl C r a s = (case formatValue C r s of (t, s1) \<Rightarrow> (Inr r, ve_stdout C (t @ [NL]) s1))"

section \<open>The table\<close>

definition installStringPrimitives :: "(string \<times> string \<times> ('v, 'f, 's, 'e) prim) list" where
  "installStringPrimitives =
     map (Pair ''stringProto'')
       [('','', prim_StrConcat), (''size'', prim_StrSize), (''='', prim_StrEq), (''~='', prim_StrNe), (''printNl'', prim_PrintNl),
        (''at:'', prim_StrAt), (''asInteger'', prim_StrAsInteger)] @
     [(''numberProto'', ''asCharacter'', prim_NumAsCharacter)] @
     map (Pair ''stringProto'')
       [(''asNumber'', prim_StrAsNumber), (''copyFrom:to:'', prim_StrCopyFromTo), (''asUppercase'', prim_StrAsUppercase),
        (''asLowercase'', prim_StrAsLowercase), (''reversed'', prim_StrReversed), (''includesSubstring:'', prim_StrIncludesSubstring),
        (''copyReplaceAll:with:'', prim_StrCopyReplaceAll), (''trimBoth'', prim_StrTrimBoth), (''substrings'', prim_StrSubstrings),
        (''substrings:'', prim_StrSubstringsSep), (''<'', prim_StrLt), (''<='', prim_StrLe), (''>'', prim_StrGt), (''>='', prim_StrGe),
        (''asSymbol'', prim_StrAsSymbol)] @
     [(''symbolProto'', ''asString'', prim_SymAsString), (''stringProto'', ''__symbolAsString'', prim_SymAsString)] @
     map (Pair ''characterProto'')
       [(''value'', prim_CharValue), (''asString'', prim_CharAsString), (''asUppercase'', prim_CharAsUppercase),
        (''asLowercase'', prim_CharAsLowercase)] @
     [(''objectProto'', ''printNl'', prim_PrintNl)]"

end
