(* ===== verification/NumberLaws.thy ===== *)
theory NumberLaws
  imports Numbers
begin

text \<open>
  The numeric primitives on integers: division in its four forms, the bitwise operations
  on integers of any size, powers, factorials and common divisors, and the decimal text.
\<close>

text \<open>What is trusted of protoCore: division by small divisors, and the bitwise operations on small integers.\<close>

definition core_exact :: "('v, 'f, 's, 'e) val_env \<Rightarrow> bool" where
  "core_exact C \<longleftrightarrow>
     (\<forall>a b. fitsDivisorWord b \<longrightarrow> b \<noteq> 0 \<longrightarrow> ve_divide C a b = a sdiv b \<and> ve_modulo C a b = a smod b) \<and>
     (\<forall>n. 0 \<le> n \<longrightarrow> ve_divmod C n 10 = (n div 10, n mod 10)) \<and>
     (\<forall>p q. ve_small C p \<longrightarrow> ve_small C q \<longrightarrow>
        ve_bitwise C ''bitwiseAnd'' p q = and p q \<and> ve_bitwise C ''bitwiseOr'' p q = or p q \<and> ve_bitwise C ''bitwiseXor'' p q = xor p q)"

lemma core_exactD:
  assumes "core_exact C"
  shows "fitsDivisorWord b \<Longrightarrow> b \<noteq> 0 \<Longrightarrow> ve_divide C a b = a sdiv b \<and> ve_modulo C a b = a smod b"
    and "0 \<le> n \<Longrightarrow> ve_divmod C n 10 = (n div 10, n mod 10)"
    and "ve_small C p \<Longrightarrow> ve_small C q \<Longrightarrow> ve_bitwise C ''bitwiseAnd'' p q = and p q"
    and "ve_small C p \<Longrightarrow> ve_small C q \<Longrightarrow> ve_bitwise C ''bitwiseOr'' p q = or p q"
    and "ve_small C p \<Longrightarrow> ve_small C q \<Longrightarrow> ve_bitwise C ''bitwiseXor'' p q = xor p q"
  using assms unfolding core_exact_def by blast+

section \<open>Division\<close>

lemma trunc_exact: "core_exact C \<Longrightarrow> b \<noteq> 0 \<Longrightarrow> truncDivMod (ve_divide C) (ve_modulo C) a b = (a sdiv b, a smod b)"
  by (rule trunc_div_mod_int) (auto dest: core_exactD(1))

lemma smod_zero: "a smod b = 0 \<longleftrightarrow> b dvd (a :: int)"
  by (auto simp: signed_modulo_int_def sgn_if mod_eq_0_iff_dvd)

lemma sgn_smod:
  assumes "(a :: int) smod b \<noteq> 0" "b \<noteq> 0"
  shows "sgn (a smod b) = sgn a"
proof -
  have "0 \<le> \<bar>a\<bar> mod \<bar>b\<bar>" using assms(2) by simp
  with assms(1) have "sgn (\<bar>a\<bar> mod \<bar>b\<bar>) = 1" by (auto simp: signed_modulo_int_def)
  then show ?thesis by (simp add: signed_modulo_int_def sgn_mult)
qed

lemma floor_exact:
  assumes "core_exact C" "b \<noteq> 0"
  shows "floorDivMod C a b = (a div b, a mod b)"
  using sgn_smod [of a b] assms(2)
  by (auto simp: floorDivMod_def trunc_exact [OF assms] divide_int_eq_signed_divide_int modulo_int_eq_signed_modulo_int smod_zero)

text \<open>
  C32. Division of integers of any size: \<open>//\<close> and the remainder that goes with it round
  toward minus infinity, \<open>quo:\<close> and \<open>rem:\<close> toward zero, and a zero divisor raises
  ZeroDivide in all four.
\<close>

theorem integer_division:
  assumes "core_exact C"
  shows "prim_NumIntDiv C (V_int a) [V_int b] s = (if b = 0 then Inl (Thrown (ve_zeroDivide C)) else Inr (V_int (a div b)), s) \<and>
    prim_NumMod C (V_int a) [V_int b] s = (if b = 0 then Inl (Thrown (ve_zeroDivide C)) else Inr (V_int (a mod b)), s) \<and>
    prim_NumQuo C (V_int a) [V_int b] s = (if b = 0 then Inl (Thrown (ve_zeroDivide C)) else Inr (V_int (a sdiv b)), s) \<and>
    prim_NumRem C (V_int a) [V_int b] s = (if b = 0 then Inl (Thrown (ve_zeroDivide C)) else Inr (V_int (a smod b)), s)"
  using floor_exact [OF assms, of b a] trunc_exact [OF assms, of b a]
  by (simp add: prim_NumIntDiv_def prim_NumMod_def prim_NumQuo_def prim_NumRem_def division_def one_arg_def with_number_def
      checkDivisor_def requireNumber_def isZeroNumber_def integerQuotient_def integerRemainder_def)

section \<open>Bits\<close>

definition bit_op :: "char \<Rightarrow> (int \<Rightarrow> int \<Rightarrow> int) \<Rightarrow> bool" where
  "bit_op c f \<longleftrightarrow> bit_apply c = f \<and> (\<forall>x y n. take_bit n (f x y) = f (take_bit n x) (take_bit n y)) \<and>
     (\<forall>x y n. drop_bit n (f x y) = f (drop_bit n x) (drop_bit n y)) \<and> (\<forall>x y. is_sign x \<and> is_sign y \<longrightarrow> is_sign (f x y))"

lemma bit_ops: "bit_op (CHR ''&'') and" "bit_op (CHR ''|'') or" "bit_op (CHR ''^'') xor"
  by (auto simp: bit_op_def bit_apply_def fun_eq_iff is_sign_def)

lemma shrinks: "\<not> is_sign x \<Longrightarrow> \<bar>x div 65536\<bar> < \<bar>x\<bar>" "\<bar>x div 65536\<bar> \<le> \<bar>x :: int\<bar>"
  by (auto simp: is_sign_def)

lemma wide_step:
  assumes "bit_op c f"
  shows "f x y = and (f (x mod 65536) (y mod 65536)) 0xFFFF + 65536 * f (x div 65536) (y div 65536)"
proof -
  have "(65535 :: int) = mask 16" by (simp add: mask_eq_exp_minus_1)
  then have t: "v mod 65536 = take_bit 16 v" "v div 65536 = drop_bit 16 v" "and v 0xFFFF = take_bit 16 v" for v :: int
    by (simp add: take_bit_eq_mod, simp add: drop_bit_eq_div, simp only: take_bit_eq_mask)
  have f: "take_bit 16 (f x y) = f (take_bit 16 x) (take_bit 16 y)" "drop_bit 16 (f x y) = f (drop_bit 16 x) (drop_bit 16 y)"
    using assms by (simp_all add: bit_op_def)
  show ?thesis using bits_ident [of 16 "f x y"]
    by (simp only: t f [symmetric] take_bit_take_bit) (simp add: push_bit_eq_mult ac_simps)
qed

lemma wide_bits_exact:
  assumes "core_exact C" "bit_op c f"
  shows "wide_bits C c x y result weight = Some (result + weight * f x y)"
proof (induction "nat (\<bar>x\<bar> + \<bar>y\<bar>)" arbitrary: x y result weight rule: less_induct)
  case less
  show ?case
  proof (cases "is_sign x \<and> is_sign y")
    case True
    then have "is_sign (f x y)" "bit_apply c x y = f x y" using assms(2) by (simp_all add: bit_op_def)
    with True show ?thesis by (subst wide_bits.simps) (auto simp: is_sign_def)
  next
    case False
    have "\<bar>x div 65536\<bar> + \<bar>y div 65536\<bar> < \<bar>x\<bar> + \<bar>y\<bar>"
      using False shrinks [of x] shrinks [of y] by (metis add_less_le_mono add_le_less_mono)
    then have "nat (\<bar>x div 65536\<bar> + \<bar>y div 65536\<bar>) < nat (\<bar>x\<bar> + \<bar>y\<bar>)"
      by (intro nat_less_eq_zless [THEN iffD2] add_nonneg_nonneg abs_ge_zero)
    note again = less [OF this]
    have q: "floorDivMod C v 65536 = (v div 65536, v mod 65536)" for v by (rule floor_exact [OF assms(1)]) simp
    have c: "bit_apply c = f" using assms(2) by (simp add: bit_op_def)
    have "wide_bits C c x y result weight = wide_bits C c (x div 65536) (y div 65536)
        (result + and (f (x mod 65536) (y mod 65536)) 0xFFFF * weight) (weight * 65536)"
      using False q by (subst wide_bits.simps) (simp only: q c prod.case if_False)
    also have "\<dots> = Some (result + weight * f x y)"
      unfolding again wide_step [OF assms(2), of x y] by (simp add: algebra_simps)
    finally show ?thesis .
  qed
qed

text \<open>
  C33. The bitwise operations are those of two's complement on integers of any size and
  sign, whether protoCore does them on small integers or the loop over 16-bit digits on
  large ones; that loop ends.
\<close>

theorem bitwise_exact:
  assumes "core_exact C"
  shows "prim_IntBitAnd C (V_int p) [V_int q] s = (Inr (V_int (and p q)), s) \<and>
    prim_IntBitOr C (V_int p) [V_int q] s = (Inr (V_int (or p q)), s) \<and>
    prim_IntBitXor C (V_int p) [V_int q] s = (Inr (V_int (xor p q)), s)"
  using core_exactD(3-5) [OF assms, of p q] wide_bits_exact [OF assms bit_ops(1), of p q 0 1]
    wide_bits_exact [OF assms bit_ops(2), of p q 0 1] wide_bits_exact [OF assms bit_ops(3), of p q 0 1]
  by (simp add: prim_IntBitAnd_def prim_IntBitOr_def prim_IntBitXor_def bit_prim_def one_arg_def requireInteger_def wideBitOp_def returned_def)

section \<open>Powers, factorials, divisors\<close>

lemma power_loop_exact: "power_loop k acc base = acc * base ^ k"
proof (induction k acc base rule: power_loop.induct)
  case (1 k acc base)
  show ?case
  proof (cases "k = 0")
    case True
    then show ?thesis by (subst power_loop.simps) simp
  next
    case False
    have sq: "(if k > 1 then base * base else base) ^ (k div 2) = (base * base) ^ (k div 2)"
      by (cases "k > 1") simp_all
    have "power_loop k acc base = (if odd k then acc * base else acc) * (base * base) ^ (k div 2)"
      using False 1 [OF False] by (subst power_loop.simps) (simp only: sq if_False)
    also have "\<dots> = acc * base ^ k"
    proof (cases "odd k")
      case True
      then have "k = Suc (2 * (k div 2))" by simp
      then have "base ^ k = base * (base * base) ^ (k div 2)" by (metis power_Suc power_mult power2_eq_square)
      with True show ?thesis by simp
    next
      case False
      then have "k = 2 * (k div 2)" by simp
      then have "base ^ k = (base * base) ^ (k div 2)" by (metis power_mult power2_eq_square)
      with False show ?thesis by simp
    qed
    finally show ?thesis .
  qed
qed

lemma factorial_loop_exact: "0 \<le> n \<Longrightarrow> factorial_loop n = fact (nat n)"
proof -
  have "foldl (*) 1 [2..1 + int k] = fact (Suc k)" for k
    by (induction k) (simp_all add: upto_rec2 algebra_simps)
  from this [of "nat (n - 1)"] show "0 \<le> n \<Longrightarrow> factorial_loop n = fact (nat n)"
    by (cases "n = 0") (simp_all add: factorial_loop_def Suc_nat_eq_nat_zadd1 nat_diff_distrib')
qed

lemma gcd_loop_exact:
  assumes "core_exact C"
  shows "0 \<le> x \<Longrightarrow> 0 \<le> y \<Longrightarrow> gcd_loop C x y = Some (gcd x y)"
proof (induction "nat y" arbitrary: x y rule: less_induct)
  case less
  show ?case
  proof (cases "y = 0")
    case True
    with less.prems show ?thesis by (subst gcd_loop.simps) simp
  next
    case False
    have "integerRemainder (ve_divide C) (ve_modulo C) x y = x mod y"
      using trunc_exact [OF assms False, of x] less.prems by (simp add: integerRemainder_def smod_mod_positive)
    then have "gcd_loop C x y = gcd_loop C y (x mod y)" using False by (subst gcd_loop.simps) simp
    also have "\<dots> = Some (gcd y (x mod y))" using False less.prems by (intro less.hyps) (simp_all add: nat_less_eq_zless)
    finally show ?thesis by (simp add: gcd_red_int [symmetric])
  qed
qed

text \<open>
  \<open>raisedTo:\<close>, \<open>factorial\<close>, \<open>gcd:\<close> and \<open>lcm:\<close> are the power, the factorial, the
  greatest common divisor and the least common multiple of integers of any size; the
  loops end, and the common divisor of zero and zero is an error.
\<close>

theorem number_theory:
  assumes "core_exact C" "0 \<le> e" "fits64 e"
  shows "prim_RaisedTo C (V_int b) [V_int e] s = (Inr (V_int (b ^ nat e)), s) \<and>
    prim_Factorial C (V_int e) [] s = (Inr (V_int (fact (nat e))), s) \<and>
    prim_Gcd C (V_int p) [V_int q] s =
      (if p = 0 \<and> q = 0 then Inl (Std_error ''gcd: of zero and zero is undefined'') else Inr (V_int (gcd p q)), s) \<and>
    prim_Lcm C (V_int p) [V_int q] s = (Inr (V_int (lcm p q)), s)"
proof -
  have g: "gcd_loop C \<bar>p\<bar> \<bar>q\<bar> = Some (gcd p q)" using gcd_loop_exact [OF assms(1), of "\<bar>p\<bar>" "\<bar>q\<bar>"] by simp
  have l: "integerQuotient (ve_divide C) (ve_modulo C) \<bar>p * q\<bar> (gcd p q) = lcm p q" if "p \<noteq> 0" "q \<noteq> 0"
  proof -
    have "gcd p q \<noteq> 0" "0 \<le> gcd p q" using that by simp_all
    then have "integerQuotient (ve_divide C) (ve_modulo C) \<bar>p * q\<bar> (gcd p q) = \<bar>p * q\<bar> div gcd p q"
      using trunc_exact [OF assms(1), of "gcd p q" "\<bar>p * q\<bar>"]
      by (simp add: integerQuotient_def signed_divide_int_def sgn_if)
    then show ?thesis by (simp add: lcm_altdef_int abs_mult)
  qed
  show ?thesis using assms(2,3) g l
    by (auto simp: prim_RaisedTo_def prim_Factorial_def prim_Gcd_def prim_Lcm_def one_arg_def with_number_def on_number_def asLong_def
        int_gcd_def returned_def power_loop_exact factorial_loop_exact Let_def)
qed

section \<open>Decimal text\<close>

lemma big_digits_exact:
  assumes "core_exact C"
  shows "0 < n \<Longrightarrow> big_digits C n ds = Some (show_pos n @ rev ds)"
proof (induction n arbitrary: ds rule: show_pos.induct)
  case (1 n)
  have d: "ve_divmod C n 10 = (n div 10, n mod 10)" using core_exactD(2) [OF assms] 1 by simp
  have "big_digits C n ds = big_digits C (n div 10) (ds @ [digit_char (n mod 10)])"
    using 1 d by (subst big_digits.simps) (simp add: digit_char_def char_of_def)
  also have "\<dots> = Some (show_pos n @ rev ds)"
  proof (cases "n < 10")
    case True
    with 1 show ?thesis by (subst big_digits.simps, subst show_pos.simps) simp
  next
    case False
    with 1 show ?thesis by (subst show_pos.simps [of n]) simp
  qed
  finally show ?case .
qed

lemma formatBigInteger_exact:
  assumes "core_exact C"
  shows "formatBigInteger C n = Some (show_int n)"
proof -
  have z: "show_pos 0 = ''0''" by (subst show_pos.simps) (simp add: digit_char_def char_of_def)
  show ?thesis using big_digits_exact [OF assms, of n "[]"] big_digits_exact [OF assms, of "- n" "[]"]
    by (auto simp: formatBigInteger_def show_int_def Let_def z)
qed

section \<open>On an example\<close>

text \<open>A protoCore whose divisions are right for small divisors only, and whose Floats are whole numbers.\<close>

definition demo_core :: "(unit, int, unit, unit) val_env" where
  "demo_core = \<lparr>fl_of_int = id, fl_to_int = id, fl_zero = 0, fl_less = (<), fl_isnan = (\<lambda>_. False), fl_isinf = (\<lambda>_. False),
     fl_below_long = fits64, fl_sub = (-), fl_mul = (*), fl_div = (div), fl_fmod = (smod), fl_pow = (\<lambda>x y. x ^ nat y),
     fl_libm = (\<lambda>_. id), fl_constant = (\<lambda>_. 3), fl_frexp = (\<lambda>d. (d, 53)), fl_print_e = (\<lambda>_. show_int), fl_strtod = atoi,
     ve_core = (\<lambda>_ _. throw Undefined_behaviour), ve_partial = (\<lambda>_ _. Unordered),
     ve_divide = (\<lambda>a b. if fitsDivisorWord b then a sdiv b else 0), ve_modulo = (\<lambda>a b. if fitsDivisorWord b then a smod b else 0),
     ve_divmod = (\<lambda>a b. (a div b, a mod b)), ve_small = (\<lambda>n. - (2 ^ 55) \<le> n \<and> n < 2 ^ 55),
     ve_bitwise = (\<lambda>m. if m = ''bitwiseAnd'' then and else if m = ''bitwiseOr'' then or else xor),
     ve_send = (\<lambda>_ _ _. ret None), ve_own = (\<lambda>_ _ _. None), ve_attr = (\<lambda>_ _ _. None), ve_array = (\<lambda>vs. ret (V_text (concat (map (\<lambda>v. case v of V_text t \<Rightarrow> t @ ''|'' | _ \<Rightarrow> []) vs)))),
     ve_points = map (nat \<circ> char_code), ve_symbol = V_text, ve_invoke = (\<lambda>_ _. ret V_nil), ve_stdout = (\<lambda>_ s. s), ve_zeroDivide = (), ve_rangeError = ()\<rparr>"

lemma demo_core_exact: "core_exact demo_core"
  by (simp add: core_exact_def demo_core_def)

lemma integer_division_witness:
  "prim_NumIntDiv demo_core (V_int (- 7)) [V_int 2] () = (Inr (V_int (- 4)), ()) \<and>
   prim_NumMod demo_core (V_int (- 7)) [V_int 2] () = (Inr (V_int 1), ()) \<and>
   fst (prim_NumRem demo_core (V_int (2 ^ 80)) [V_int 0] ()) = Inl (Thrown ())"
  using integer_division [OF demo_core_exact, of "- 7" 2 "()"] integer_division [OF demo_core_exact, of "2 ^ 80" 0 "()"]
  by (simp add: demo_core_def)

lemma bitwise_exact_witness: "prim_IntBitXor demo_core (V_int (- (2 ^ 70))) [V_int (2 ^ 70)] () = (Inr (V_int (xor (- (2 ^ 70)) (2 ^ 70))), ())"
  using bitwise_exact [OF demo_core_exact] by blast

lemma number_theory_witness:
  "prim_RaisedTo demo_core (V_int 2) [V_int 100] () = (Inr (V_int (2 ^ 100)), ()) \<and>
   prim_Gcd demo_core (V_int (- 12)) [V_int 18] () = (Inr (V_int (gcd 12 18)), ())"
  using number_theory [OF demo_core_exact, of 100 2 "()" "- 12" 18] by (simp add: fits64_def)

end
