(* ===== verification/StringLaws.thy ===== *)
theory StringLaws
  imports Strings NumberLaws
begin

text \<open>
  Texts and their code points: decoding undoes encoding, the order of bytes is the order
  of code points, what the operations on characters answer, splitting, and the reading of
  printed integers.
\<close>

definition code_point :: "int \<Rightarrow> bool" where
  "code_point cp \<longleftrightarrow> 0 \<le> cp \<and> cp < 0x110000"

definition utf8 :: "int list \<Rightarrow> string" where
  "utf8 cps = concat (map encodeCodepoint cps)"

lemma utf8_simps [simp]: "utf8 [] = []" "utf8 (c # cps) = encodeCodepoint c @ utf8 cps" "utf8 (xs @ ys) = utf8 xs @ utf8 ys"
  by (simp_all add: utf8_def)

lemma encodeAll_utf8: "encodeAll cps 0 (length cps) = utf8 cps"
  by (simp add: encodeAll_def utf8_def)

lemma char_code_byte: "0 \<le> n \<Longrightarrow> n < 256 \<Longrightarrow> char_code (byte n) = n"
  by (simp add: char_code_def byte_def of_char_of)

section \<open>Decoding undoes encoding\<close>

lemma codes_of_encode:
  assumes "code_point cp"
  shows "map char_code (encodeCodepoint cp) =
     (if cp < 0x80 then [cp]
      else if cp < 0x800 then [0xC0 + cp div 64, 0x80 + cp mod 64]
      else if cp < 0x10000 then [0xE0 + cp div 4096, 0x80 + cp div 64 mod 64, 0x80 + cp mod 64]
      else [0xF0 + cp div 262144, 0x80 + cp div 4096 mod 64, 0x80 + cp div 64 mod 64, 0x80 + cp mod 64])"
proof -
  have m: "0 \<le> x mod 64" "x mod 64 < 64" for x :: int by simp_all
  have b: "char_code (byte (0x80 + x mod 64)) = 0x80 + x mod 64" for x :: int
    using m [of x] by (intro char_code_byte) linarith+
  have "char_code (byte cp) = cp" if "cp < 0x80" using that assms by (intro char_code_byte) (auto simp: code_point_def)
  moreover have "char_code (byte (0xC0 + cp div 64)) = 0xC0 + cp div 64" if "cp < 0x800"
    using that assms by (intro char_code_byte) (auto simp: code_point_def)
  moreover have "char_code (byte (0xE0 + cp div 4096)) = 0xE0 + cp div 4096" if "cp < 0x10000"
    using that assms by (intro char_code_byte) (auto simp: code_point_def)
  moreover have "char_code (byte (0xF0 + cp div 262144)) = 0xF0 + cp div 262144"
    using assms by (intro char_code_byte) (auto simp: code_point_def)
  ultimately show ?thesis by (simp add: encodeCodepoint_def b)
qed

lemma continuation_byte [simp]: "(128 + x mod 64) div 64 = (2 :: int)" "(128 + x mod 64) mod 64 = x mod (64 :: int)"
  using div_mult_self1 [of 64 "x mod 64" 2] mod_mult_self1 [of "x mod 64" 2 64] by (simp_all add: add.commute)

lemma div_less_bound:
  assumes "(x :: int) < n * k" "0 < k"
  shows "x div k < n"
proof (rule ccontr)
  assume "\<not> x div k < n"
  then have "k * n \<le> k * (x div k)" using assms(2) by (simp add: mult_left_mono)
  also have "\<dots> \<le> x" using assms(2) by (simp flip: minus_mod_eq_mult_div)
  finally show False using assms(1) by (simp add: mult.commute)
qed

text \<open>The groups of six bits.\<close>

lemma groups:
  fixes x :: int
  shows "x div 4096 = x div 64 div 64" "x div 262144 = x div 4096 div 64"
    "4096 * (x div 4096) + x div 64 mod 64 * 64 + x mod 64 = x"
    "262144 * (x div 262144) + x div 4096 mod 64 * 4096 + x div 64 mod 64 * 64 + x mod 64 = x"
proof -
  show s: "x div 4096 = x div 64 div 64" "x div 262144 = x div 4096 div 64" by (simp_all flip: zdiv_zmult2_eq)
  have j: "4096 * q + m * 64 + r = x" if "q * 64 + m = b" "b * 64 + r = x" for q m b r :: int using that by simp
  show three: "4096 * (x div 4096) + x div 64 mod 64 * 64 + x mod 64 = x"
    by (rule j [of _ _ "x div 64"]) (simp_all only: s(1) div_mult_mod_eq)
  have k: "262144 * q + m * 4096 + u = x" if "q * 64 + m = b" "4096 * b + u = x" for q m b u :: int using that by simp
  show "262144 * (x div 262144) + x div 4096 mod 64 * 4096 + x div 64 mod 64 * 64 + x mod 64 = x"
    using k [of "x div 262144" "x div 4096 mod 64" "x div 4096" "x div 64 mod 64 * 64 + x mod 64"] three
    by (simp only: s(2) div_mult_mod_eq add.assoc)
qed

lemma lead_bytes:
  "0 \<le> x \<Longrightarrow> x < 32 \<Longrightarrow> lead (0xC0 + x) = Some (x, 1)"
  "0 \<le> x \<Longrightarrow> x < 16 \<Longrightarrow> lead (0xE0 + x) = Some (x, 2)"
  "0 \<le> x \<Longrightarrow> x < 8 \<Longrightarrow> lead (0xF0 + x) = Some (x, 3)"
proof -
  have d: "(n * k + x) div k = n" "(n * k + x) mod k = x" if "0 \<le> x" "x < k" for n k :: int
    using that by (simp_all add: div_add1_eq [of "n * k"] div_pos_pos_trivial mod_pos_pos_trivial)
  show "lead (0xC0 + x) = Some (x, 1)" if "0 \<le> x" "x < 32"
    using that d [of 32 6] by (simp add: lead_def)
  show "lead (0xE0 + x) = Some (x, 2)" if "0 \<le> x" "x < 16"
  proof -
    have "(224 + x) div 32 = 7" using that d [of 32 7] by simp
    then show ?thesis using that d [of 16 14] by (simp add: lead_def)
  qed
  show "lead (0xF0 + x) = Some (x, 3)" if "0 \<le> x" "x < 8"
  proof -
    have "(240 + x) div 32 = 7" "(240 + x) div 16 = 15"
      using that d [of 16 15] div_mult_self1 [of 32 "16 + x" 7] by (simp_all add: add.assoc)
    then show ?thesis using that d [of 8 30] by (simp add: lead_def)
  qed
qed

lemma decode_encode:
  assumes "code_point cp"
  shows "decode_one (encodeCodepoint cp @ rest) = (cp, length (encodeCodepoint cp))"
proof -
  note codes = codes_of_encode [OF assms]
  have pos: "0 \<le> cp" "cp < 0x110000" using assms by (simp_all add: code_point_def)
  consider (1) "cp < 0x80" | (2) "0x80 \<le> cp" "cp < 0x800" | (3) "0x800 \<le> cp" "cp < 0x10000" | (4) "0x10000 \<le> cp" by linarith
  then show ?thesis
  proof cases
    case 1
    with codes obtain a where "encodeCodepoint cp = [a]" "char_code a = cp" by (auto simp: map_eq_Cons_conv)
    with 1 show ?thesis by (simp add: decode_one_def lead_def)
  next
    case 2
    with codes obtain a b where e: "encodeCodepoint cp = [a, b]" "char_code a = 0xC0 + cp div 64" "char_code b = 0x80 + cp mod 64"
      by (auto simp: map_eq_Cons_conv)
    have l: "lead (0xC0 + cp div 64) = Some (cp div 64, 1)" using 2 by (intro lead_bytes div_less_bound) simp_all
    show ?thesis by (simp add: decode_one_def l e)
  next
    case 3
    with codes obtain a b c where e: "encodeCodepoint cp = [a, b, c]" "char_code a = 0xE0 + cp div 4096"
        "char_code b = 0x80 + cp div 64 mod 64" "char_code c = 0x80 + cp mod 64"
      by (auto simp: map_eq_Cons_conv)
    have l: "lead (0xE0 + cp div 4096) = Some (cp div 4096, 2)" using 3 by (intro lead_bytes div_less_bound) simp_all
    show ?thesis using groups(3) [of cp] by (simp add: decode_one_def l e numeral_2_eq_2 algebra_simps)
  next
    case 4
    with codes obtain a b c d where e: "encodeCodepoint cp = [a, b, c, d]" "char_code a = 0xF0 + cp div 262144"
        "char_code b = 0x80 + cp div 4096 mod 64" "char_code c = 0x80 + cp div 64 mod 64" "char_code d = 0x80 + cp mod 64"
      by (auto simp: map_eq_Cons_conv)
    have l: "lead (0xF0 + cp div 262144) = Some (cp div 262144, 3)" using 4 pos by (intro lead_bytes div_less_bound) simp_all
    show ?thesis using groups(4) [of cp] by (simp add: decode_one_def l e numeral_3_eq_3 algebra_simps)
  qed
qed

lemma encode_not_Nil [simp]: "encodeCodepoint cp \<noteq> []"
  by (simp add: encodeCodepoint_def)

lemma decode_utf8: "list_all code_point cps \<Longrightarrow> decodeCodepoints (utf8 cps) = cps"
  by (induction cps) (simp add: decodeCodepoints.simps, subst decodeCodepoints.simps, simp add: decode_encode)

text \<open>
  C34. Decoding the UTF-8 text of any code points gives them back, whatever their number
  and length in bytes, so \<open>size\<close> counts characters.
\<close>

theorem utf8_roundtrip:
  assumes "list_all code_point cps"
  shows "decodeCodepoints (encodeAll cps 0 (length cps)) = cps \<and>
    prim_StrSize C (V_text (encodeAll cps 0 (length cps))) [] s = (Inr (V_int (int (length cps))), s)"
  using decode_utf8 [OF assms] by (simp add: encodeAll_utf8 prim_StrSize_def toUtf8_def)

lemma utf8_roundtrip_witness: "decodeCodepoints (encodeAll [0x41, 0x7FF, 0x20AC, 0x1F600] 0 4) = [0x41, 0x7FF, 0x20AC, 0x1F600]"
  using utf8_roundtrip [of "[0x41, 0x7FF, 0x20AC, 0x1F600]" demo_core "()"] by (simp add: code_point_def eval_nat_numeral)

section \<open>Order\<close>

text \<open>The first difference decides, before either list ends.\<close>

fun differ_less :: "int list \<Rightarrow> int list \<Rightarrow> bool" where
  "differ_less (x # xs) (y # ys) = (x < y \<or> x = y \<and> differ_less xs ys)"
| "differ_less _ _ = False"

lemma differ_less_append:
  "differ_less xs ys \<Longrightarrow> lex_less (xs @ r) (ys @ r')" "differ_less xs ys \<Longrightarrow> \<not> lex_less (ys @ r') (xs @ r)"
  by (induction xs ys rule: differ_less.induct) auto

lemma lex_less_same [simp]: "lex_less (p @ xs) (p @ ys) = lex_less xs ys"
  by (induction p) auto

lemma lex_less_irrefl [simp]: "\<not> lex_less xs xs"
  by (induction xs) auto

lemma div_mod_less:
  fixes c d :: int
  assumes "c < d" "0 < k"
  shows "c div k < d div k \<or> c div k = d div k \<and> c mod k < d mod k"
proof (cases "c div k = d div k")
  case True
  have "c mod k = c - k * (c div k)" "d mod k = d - k * (d div k)" by (simp_all add: minus_mult_div_eq_mod)
  with True assms(1) show ?thesis by simp
next
  case False
  then show ?thesis using zdiv_mono1 [of c d k] assms by simp
qed

lemma div_mod_less_64: "(c :: int) < d \<Longrightarrow> c div 64 < d div 64 \<or> c div 64 = d div 64 \<and> c mod 64 < d mod 64"
  by (rule div_mod_less) simp_all

lemma digits_less:
  fixes c d :: int
  assumes "c < d"
  shows "c div 64 < d div 64 \<or> c div 64 = d div 64 \<and> c mod 64 < d mod 64"
    and "c div 4096 < d div 4096 \<or> c div 4096 = d div 4096 \<and>
      (c div 64 mod 64 < d div 64 mod 64 \<or> c div 64 mod 64 = d div 64 mod 64 \<and> c mod 64 < d mod 64)"
    and "c div 262144 < d div 262144 \<or> c div 262144 = d div 262144 \<and>
      (c div 4096 mod 64 < d div 4096 mod 64 \<or> c div 4096 mod 64 = d div 4096 mod 64 \<and>
        (c div 64 mod 64 < d div 64 mod 64 \<or> c div 64 mod 64 = d div 64 mod 64 \<and> c mod 64 < d mod 64))"
proof -
  show two: "c div 64 < d div 64 \<or> c div 64 = d div 64 \<and> c mod 64 < d mod 64" by (rule div_mod_less [OF assms]) simp
  have three: "c div 4096 < d div 4096 \<or> c div 4096 = d div 4096 \<and>
      (c div 64 mod 64 < d div 64 mod 64 \<or> c div 64 mod 64 = d div 64 mod 64 \<and> c mod 64 < d mod 64)"
    using two
  proof
    assume "c div 64 < d div 64"
    from div_mod_less_64 [OF this] show ?thesis unfolding groups(1) by blast
  qed (simp only: groups(1) simp_thms)
  then show "c div 4096 < d div 4096 \<or> c div 4096 = d div 4096 \<and>
      (c div 64 mod 64 < d div 64 mod 64 \<or> c div 64 mod 64 = d div 64 mod 64 \<and> c mod 64 < d mod 64)" .
  from three show "c div 262144 < d div 262144 \<or> c div 262144 = d div 262144 \<and>
      (c div 4096 mod 64 < d div 4096 mod 64 \<or> c div 4096 mod 64 = d div 4096 mod 64 \<and>
        (c div 64 mod 64 < d div 64 mod 64 \<or> c div 64 mod 64 = d div 64 mod 64 \<and> c mod 64 < d mod 64))"
  proof
    assume "c div 4096 < d div 4096"
    from div_mod_less_64 [OF this] show ?thesis unfolding groups(2) by blast
  qed (simp only: groups(2) simp_thms)
qed

lemma codes:
  assumes "code_point cp"
  shows "cp < 0x80 \<Longrightarrow> map char_code (encodeCodepoint cp) = [cp]"
    "0x80 \<le> cp \<Longrightarrow> cp < 0x800 \<Longrightarrow> map char_code (encodeCodepoint cp) = [0xC0 + cp div 64, 0x80 + cp mod 64]"
    "0x800 \<le> cp \<Longrightarrow> cp < 0x10000 \<Longrightarrow>
       map char_code (encodeCodepoint cp) = [0xE0 + cp div 4096, 0x80 + cp div 64 mod 64, 0x80 + cp mod 64]"
    "0x10000 \<le> cp \<Longrightarrow> map char_code (encodeCodepoint cp) =
       [0xF0 + cp div 262144, 0x80 + cp div 4096 mod 64, 0x80 + cp div 64 mod 64, 0x80 + cp mod 64]"
  unfolding codes_of_encode [OF assms] by simp_all

lemma encode_less:
  assumes "code_point c" "code_point d" "c < d"
  shows "differ_less (map char_code (encodeCodepoint c)) (map char_code (encodeCodepoint d))"
proof -
  have same2: "differ_less [0xC0 + q, 0x80 + r] [0xC0 + q', 0x80 + r']" if "q < q' \<or> q = q' \<and> r < r'" for q r q' r' using that by simp
  have same3: "differ_less [0xE0 + q, 0x80 + r, 0x80 + u] [0xE0 + q', 0x80 + r', 0x80 + u']"
    if "q < q' \<or> q = q' \<and> (r < r' \<or> r = r' \<and> u < u')" for q r u q' r' u' using that by simp
  have same4: "differ_less [0xF0 + q, 0x80 + r, 0x80 + u, 0x80 + w] [0xF0 + q', 0x80 + r', 0x80 + u', 0x80 + w']"
    if "q < q' \<or> q = q' \<and> (r < r' \<or> r = r' \<and> (u < u' \<or> u = u' \<and> w < w'))" for q r u w q' r' u' w' using that by simp
  have first: "differ_less (x # xs) (y # ys)" if "x < y" for x y xs ys using that by simp
  have pos: "0 \<le> c" "0 \<le> d" using assms by (simp_all add: code_point_def)
  have hi: "x < 0x800 \<Longrightarrow> 0xC0 + x div 64 < 0xE0" "x < 0x10000 \<Longrightarrow> 0xE0 + x div 4096 < 0xF0" for x :: int
    using div_less_bound [of x 32 64] div_less_bound [of x 16 4096] by simp_all
  have lo: "0xC0 \<le> 0xC0 + x div 64" "0xE0 \<le> 0xE0 + x div 4096" "0xF0 \<le> 0xF0 + x div 262144" if "0 \<le> x" for x :: int using that by simp_all
  note cc = codes [OF assms(1)] and cd = codes [OF assms(2)]
  note lead_less = first [OF less_le_trans [OF _ lo(1) [OF pos(2)]]] first [OF less_le_trans [OF _ lo(2) [OF pos(2)]]]
    first [OF less_le_trans [OF _ lo(3) [OF pos(2)]]]
  consider (1) "d < 0x80" | (2) "0x80 \<le> d" "d < 0x800" | (3) "0x800 \<le> d" "d < 0x10000" | (4) "0x10000 \<le> d" by linarith
  then show ?thesis
  proof cases
    case 1
    with assms(3) show ?thesis unfolding cd(1) [OF 1] cc(1) [OF less_trans [OF assms(3) 1]] by simp
  next
    case 2
    have c: "c < 0x800" using 2 assms(3) by simp
    show ?thesis
    proof (cases "c < 0x80")
      case True
      then show ?thesis unfolding cd(2) [OF 2] cc(1) [OF True] by (intro lead_less) simp
    next
      case False
      then have "0x80 \<le> c" by simp
      then show ?thesis unfolding cd(2) [OF 2] cc(2) [OF \<open>0x80 \<le> c\<close> c] by (intro same2 digits_less assms(3))
    qed
  next
    case 3
    have c: "c < 0x10000" using 3 assms(3) by simp
    consider (a) "c < 0x80" | (b) "0x80 \<le> c" "c < 0x800" | (c) "0x800 \<le> c" by linarith
    then show ?thesis
    proof cases
      case a
      then show ?thesis unfolding cd(3) [OF 3] cc(1) [OF a] by (intro lead_less) simp
    next
      case b
      show ?thesis unfolding cd(3) [OF 3] cc(2) [OF b] by (intro lead_less hi b)
    next
      case c': c
      show ?thesis unfolding cd(3) [OF 3] cc(3) [OF c' c] by (intro same3 digits_less assms(3))
    qed
  next
    case 4
    consider (a) "c < 0x80" | (b) "0x80 \<le> c" "c < 0x800" | (c) "0x800 \<le> c" "c < 0x10000" | (d) "0x10000 \<le> c" by linarith
    then show ?thesis
    proof cases
      case a
      then show ?thesis unfolding cd(4) [OF 4] cc(1) [OF a] by (intro lead_less) simp
    next
      case b
      show ?thesis unfolding cd(4) [OF 4] cc(2) [OF b] by (intro lead_less less_trans [OF hi(1) [OF b(2)]]) simp
    next
      case c
      show ?thesis unfolding cd(4) [OF 4] cc(3) [OF c] by (intro lead_less hi c)
    next
      case d
      show ?thesis unfolding cd(4) [OF 4] cc(4) [OF d] by (intro same4 digits_less assms(3))
    qed
  qed
qed

end
