(* ===== verification/TextLaws.thy ===== *)
theory TextLaws
  imports StringLaws
begin

text \<open>
  The String protocol on the texts of code points: order and equality, reversal and
  copying, splitting, and the reading of printed integers.
\<close>

section \<open>Order and equality\<close>

lemma bytes_less_utf8:
  "list_all code_point cps \<Longrightarrow> list_all code_point ds \<Longrightarrow> bytes_less (utf8 cps) (utf8 ds) = lex_less cps ds"
proof (induction cps ds rule: lex_less.induct)
  case (1 xs)
  then show ?case by (simp add: bytes_less_def)
next
  case (2 y ys)
  obtain b bs where "encodeCodepoint y = b # bs" using encode_not_Nil [of y] by (auto simp only: neq_Nil_conv)
  then show ?case by (simp add: bytes_less_def)
next
  case (3 x xs y ys)
  from 3 have cp: "code_point x" "code_point y" by simp_all
  consider "x < y" | "x = y" | "y < x" by linarith
  then show ?case
  proof cases
    case 1
    then show ?thesis using differ_less_append(1) [OF encode_less [OF cp]] by (simp add: bytes_less_def)
  next
    case 2
    then show ?thesis using 3 by (simp add: bytes_less_def)
  next
    case c: 3
    then show ?thesis using differ_less_append(2) [OF encode_less [OF cp(2,1)]] by (simp add: bytes_less_def)
  qed
qed

lemma utf8_inj: "list_all code_point cps \<Longrightarrow> list_all code_point ds \<Longrightarrow> utf8 cps = utf8 ds \<longleftrightarrow> cps = ds"
  by (metis decode_utf8)

lemma lex_less_asym: "lex_less xs ys \<Longrightarrow> \<not> lex_less ys xs"
  by (induction xs ys rule: lex_less.induct) auto

text \<open>
  C35. Texts compare by their code points, in lexicographic order, although the code
  compares their bytes; and they are equal exactly when their code points are.
\<close>

theorem string_order:
  assumes "list_all code_point cps" "list_all code_point ds"
  shows "prim_StrLt C (V_text (utf8 cps)) [V_text (utf8 ds)] s = (Inr (V_bool (lex_less cps ds)), s) \<and>
    prim_StrGe C (V_text (utf8 cps)) [V_text (utf8 ds)] s = (Inr (V_bool (\<not> lex_less cps ds)), s) \<and>
    prim_StrGt C (V_text (utf8 cps)) [V_text (utf8 ds)] s = (Inr (V_bool (lex_less ds cps)), s) \<and>
    prim_StrLe C (V_text (utf8 cps)) [V_text (utf8 ds)] s = (Inr (V_bool (\<not> lex_less ds cps)), s) \<and>
    prim_StrEq C (V_text (utf8 cps)) [V_text (utf8 ds)] s = (Inr (V_bool (cps = ds)), s)"
  using lex_less_asym [of cps ds]
  by (simp add: prim_StrLt_def prim_StrLe_def prim_StrGt_def prim_StrGe_def prim_StrEq_def str_compare_def first_arg_def
      compareStrings_def toUtf8_def stringArg_def bytes_less_utf8 [OF assms] bytes_less_utf8 [OF assms(2,1)] utf8_inj [OF assms])

lemma string_order_witness:
  "fst (prim_StrLt demo_core (V_text (utf8 [0x7A])) [V_text (utf8 [0xE9])] ()) = Inr (V_bool True)"
  using string_order [of "[0x7A]" "[0xE9]" demo_core "()"] by (simp add: code_point_def)

section \<open>Code point 0\<close>

lemma encode_zero: "encodeCodepoint 0 = [NUL]"
  by (simp add: encodeCodepoint_def byte_def char_of_def)

lemma encode_nonzero:
  assumes "code_point c" "c \<noteq> 0"
  shows "list_all (\<lambda>b. b \<noteq> NUL) (encodeCodepoint c)"
proof -
  have "list_all (\<lambda>n. n \<noteq> 0) (map char_code (encodeCodepoint c))"
  proof -
    have "0 \<le> c" using assms by (simp add: code_point_def)
    then have lo: "0 \<le> c div 64" "0 \<le> c div 4096" "0 \<le> c div 262144" by simp_all
    have m: "0 \<le> x mod 64" for x :: int by simp
    have p: "0x80 + x mod 64 \<noteq> 0" for x :: int using m [of x] by linarith
    show ?thesis unfolding codes_of_encode [OF assms(1)] using lo p assms(2) by simp
  qed
  then show ?thesis by (auto simp: list_all_iff char_code_def)
qed

lemma c_str_utf8: "list_all code_point cps \<Longrightarrow> c_str (utf8 cps) = utf8 (takeWhile (\<lambda>c. c \<noteq> 0) cps)"
proof (induction cps)
  case (Cons c cps)
  show ?case
  proof (cases "c = 0")
    case True
    then show ?thesis by (simp add: c_str_def encode_zero)
  next
    case False
    with Cons.prems have "list_all (\<lambda>b. b \<noteq> NUL) (encodeCodepoint c)" by (simp add: encode_nonzero)
    then have "c_str (encodeCodepoint c @ utf8 cps) = encodeCodepoint c @ c_str (utf8 cps)"
      unfolding c_str_def by (subst takeWhile_append2) (auto simp: list_all_iff)
    with False Cons show ?thesis by simp
  qed
qed (simp add: c_str_def)

lemma encoded_utf8: "list_all code_point cps \<Longrightarrow> encoded cps = V_text (utf8 (takeWhile (\<lambda>c. c \<noteq> 0) cps))"
  by (simp add: encoded_def fromUTF8String_def encodeAll_utf8 c_str_utf8)

lemma encoded_plain: "list_all code_point cps \<Longrightarrow> 0 \<notin> set cps \<Longrightarrow> encoded cps = V_text (utf8 cps)"
  using takeWhile_all_end [of "\<lambda>c. c \<noteq> 0" cps] by (simp add: encoded_utf8) (metis (mono_tags, lifting) takeWhile_eq_all_conv)

text \<open>
  C36. Reversal, copying and the appending of a character work on whole code points, and
  every one of them cuts its answer at the first code point 0, because the answer passes
  through a C string.  The concatenation of two texts does not.
\<close>

theorem answers_end_at_zero:
  assumes "list_all code_point cps" "code_point (int c)" "i + n \<le> length cps" "fits64 (int (length cps) + 1)"
  shows "prim_StrReversed C (V_text (utf8 cps)) [] s = (Inr (V_text (utf8 (takeWhile (\<lambda>c. c \<noteq> 0) (rev cps)))), s) \<and>
    prim_StrCopyFromTo C (V_text (utf8 cps)) [V_int (int i + 1), V_int (int (i + n))] s =
      (Inr (V_text (utf8 (takeWhile (\<lambda>c. c \<noteq> 0) (take n (drop i cps))))), s) \<and>
    prim_StrConcat C (V_text (utf8 cps)) [V_char c] s = (Inr (V_text (utf8 (takeWhile (\<lambda>c. c \<noteq> 0) (cps @ [int c])))), s) \<and>
    prim_StrConcat C (V_text (utf8 cps)) [V_text (utf8 (cps @ [int c]))] s = (Inr (V_text (utf8 (cps @ cps @ [int c]))), s)"
proof (intro conjI)
  show "prim_StrReversed C (V_text (utf8 cps)) [] s = (Inr (V_text (utf8 (takeWhile (\<lambda>c. c \<noteq> 0) (rev cps)))), s)"
    using assms(1) by (simp add: prim_StrReversed_def toUtf8_def decode_utf8 encoded_utf8)
  have f: "fits64 (int i + 1)" "fits64 (int i + int n)" using assms(3,4) by (simp_all add: fits64_def)
  have c: "list_all code_point (take n (drop i cps))"
    using assms(1) by (auto simp: list_all_iff dest: in_set_takeD in_set_dropD)
  have e: "encodeAll cps i (i + n) = utf8 (take n (drop i cps))"
    by (simp add: encodeAll_def utf8_def take_drop add.commute)
  show "prim_StrCopyFromTo C (V_text (utf8 cps)) [V_int (int i + 1), V_int (int (i + n))] s =
      (Inr (V_text (utf8 (takeWhile (\<lambda>c. c \<noteq> 0) (take n (drop i cps))))), s)"
  proof (cases "n = 0")
    case True
    with f show ?thesis by (simp add: prim_StrCopyFromTo_def toUtf8_def integerArg_def asLong_def)
  next
    case False
    then have "nat (int i + int n) = i + n" by simp
    with False show ?thesis using f assms(3)
      by (simp add: prim_StrCopyFromTo_def toUtf8_def integerArg_def asLong_def decode_utf8 [OF assms(1)] fromUTF8String_def e
          c_str_utf8 [OF c])
  qed
  show "prim_StrConcat C (V_text (utf8 cps)) [V_char c] s = (Inr (V_text (utf8 (takeWhile (\<lambda>c. c \<noteq> 0) (cps @ [int c])))), s)"
    using c_str_utf8 [of "cps @ [int c]"] assms(1,2) by (simp add: prim_StrConcat_def first_arg_def toUtf8_def fromUTF8String_def)
  show "prim_StrConcat C (V_text (utf8 cps)) [V_text (utf8 (cps @ [int c]))] s = (Inr (V_text (utf8 (cps @ cps @ [int c]))), s)"
    by (simp add: prim_StrConcat_def first_arg_def toUtf8_def)
qed

lemma answers_end_at_zero_witness:
  "fst (prim_StrReversed demo_core (V_text (utf8 [0x41, 0, 0x42])) [] ()) = Inr (V_text (utf8 [0x42]))"
  using answers_end_at_zero [where cps = "[0x41, 0, 0x42]" and c = "0x41" and i = 0 and n = 0 and C = demo_core and s = "()"] by (simp add: code_point_def fits64_def)

section \<open>Splitting\<close>

lemma pieces_good:
  "list_all (\<lambda>c. \<not> sep c) piece \<Longrightarrow>
    [] \<notin> set (pieces sep piece cs) \<and> concat (pieces sep piece cs) = piece @ filter (\<lambda>c. \<not> sep c) cs"
  by (induction sep piece cs rule: pieces.induct) (auto simp: list_all_iff)

lemma pieces_skip: "list_all (\<lambda>c. \<not> sep c) p \<Longrightarrow> pieces sep piece (p @ cs) = pieces sep (piece @ p) cs"
  by (induction p arbitrary: piece) auto

lemma pieces_separators: "list_all sep g \<Longrightarrow> pieces sep [] (g @ cs) = pieces sep [] cs"
  by (induction g) auto

text \<open>Words, each followed by a gap of separators.\<close>

fun spaced :: "(int \<Rightarrow> bool) \<Rightarrow> (int list \<times> int list) list \<Rightarrow> bool" where
  "spaced sep [] = True"
| "spaced sep ((w, g) # ws) = (w \<noteq> [] \<and> list_all (\<lambda>c. \<not> sep c) w \<and> g \<noteq> [] \<and> list_all sep g \<and> spaced sep ws)"

abbreviation joined :: "(int list \<times> int list) list \<Rightarrow> int list" where
  "joined ws \<equiv> concat (map (\<lambda>(w, g). w @ g) ws)"

lemma pieces_joined: "spaced sep ws \<Longrightarrow> pieces sep [] (joined ws) = map fst ws"
proof (induction sep ws rule: spaced.induct)
  case (2 sep w g ws)
  then obtain a g' where g: "g = a # g'" "sep a" "list_all sep g'" by (cases g) auto
  with 2 show ?case by (simp add: pieces_skip pieces_separators)
qed simp



section \<open>Integers as text\<close>

lemma trim_spaced:
  assumes "list_all isspace ws" "list_all isspace ws'" "t \<noteq> []" "\<not> isspace (hd t)" "\<not> isspace (last t)"
  shows "trim_space (ws @ t @ ws') = t"
proof -
  obtain c cs where t: "t = c # cs" using assms(3) by (cases t) auto
  have "rev (dropWhile isspace (ws @ t @ ws')) = rev ws' @ rev t" using assms(1,4) t by (simp add: dropWhile_all_then)
  moreover obtain d ds where "rev t = d # ds" "\<not> isspace d" using assms(3,5) by (cases "rev t") (auto simp flip: hd_rev)
  ultimately show ?thesis using assms(2) unfolding trim_space_def
    by (simp add: dropWhile_all_then)
qed

lemma parse_digits:
  assumes "trim_space raw = (if neg then CHR ''-'' # ds else ds)" "list_all isdigit ds" "ds \<noteq> []"
  shows "parseNumber C raw b = V_int (integer_value (trim_space raw))"
proof -
  obtain c cs where c: "ds = c # cs" using assms(3) by (cases ds) auto
  have "c \<noteq> CHR ''-''" "c \<noteq> CHR ''+''" using assms(2) c by (auto simp: isdigit_def char_code_def)
  then have "(case trim_space raw of [] \<Rightarrow> [] | c # _ \<Rightarrow> if c = CHR ''-'' \<or> c = CHR ''+'' then [c] else []) =
      (if neg then [CHR ''-''] else [])"
    by (simp add: assms(1) c)
  then show ?thesis using assms(2,3)
    by (cases neg) (simp_all add: parseNumber_def Let_def assms(1) takeWhile_all_end)
qed

text \<open>
  C38. An Integer of any size prints as its decimal digits, and that text, with any white
  space around it, reads back as the same Integer.
\<close>

theorem integer_text:
  assumes "core_exact C" "list_all isspace ws" "list_all isspace ws'"
  shows "prim_NumPrintString C (V_int n) [] s = (Inr (V_text (show_int n)), s) \<and>
    prim_StrAsNumber C (V_text (ws @ show_int n @ ws')) [] s = (Inr (V_int n), s) \<and>
    prim_StrAsInteger C (V_text (ws @ show_int n @ ws')) [] s = (Inr (V_int n), s)"
proof -
  have p: "parseNumber C (ws @ show_int n @ ws') b = V_int n" for b
  proof -
    define m where "m = \<bar>n\<bar>"
    have m: "0 \<le> m" by (simp add: m_def)
    then have d: "list_all isdigit (show_pos m)" "digits_value 10 (show_pos m) = m" by (simp_all add: show_pos_digits)
    then have hd: "isdigit (hd (show_pos m))" "isdigit (last (show_pos m))" by (simp_all add: list_all_iff)
    have sign: "c \<noteq> CHR ''-''" "c \<noteq> CHR ''+''" if "isdigit c" for c using that by (auto simp: isdigit_def char_code_def)
    have shown: "show_int n = (if n < 0 then CHR ''-'' # show_pos m else show_pos m)" by (simp add: show_int_def m_def)
    have minus: "\<not> isspace (CHR ''-'')" by (simp add: isspace_def char_code_def)
    have t: "trim_space (ws @ show_int n @ ws') = show_int n"
      using assms(2,3) hd by (intro trim_spaced) (simp_all add: shown minus)
    have "parseNumber C (ws @ show_int n @ ws') b = V_int (integer_value (show_int n))"
      using d(1) t parse_digits [of "ws @ show_int n @ ws'" "n < 0" "show_pos m" C b] by (simp add: shown)
    moreover have "integer_value (show_int n) = n"
      using d(2) hd(1) sign [of "hd (show_pos m)"]
      by (cases "show_pos m") (auto simp: shown integer_value_def m_def simp del: digits_value_show_pos)
    ultimately show ?thesis by simp
  qed
  show ?thesis by (simp add: p prim_NumPrintString_def prim_StrAsNumber_def prim_StrAsInteger_def toUtf8_def returned_def
        formatNumber_def formatBigInteger_exact [OF assms(1)])
qed

lemma integer_text_witness:
  "prim_StrAsNumber demo_core (V_text ('' '' @ show_int (- (10 ^ 40)))) [] () = (Inr (V_int (- (10 ^ 40))), ())"
  using integer_text [OF demo_core_exact, of "'' ''" "[]" "- (10 ^ 40)" "()"] by (simp add: isspace_def char_code_def)

end
