(* ===== verification/AstPrinter.thy ===== *)
theory AstPrinter
  imports ParserModule
begin

text \<open>
  src/frontend/ASTPrinter.cpp: the tree as text, for \<open>protost --dump-ast\<close>.  A null child
  that is followed, or a name past the end of the name list, is \<open>None\<close>.  The digits of a
  Float are those of the stream and a parameter.
\<close>

definition cat :: "string option list \<Rightarrow> string option" where
  "cat ts = (if None \<in> set ts then None else Some (concat (map the ts)))"

definition indent :: "nat \<Rightarrow> string" where
  "indent depth = concat (replicate depth ''  '')"

definition string_at :: "string list \<Rightarrow> nat \<Rightarrow> string option" where
  "string_at ss i = (if i < length ss then Some (ss ! i) else None)"

text \<open>\<open>names ss from n\<close>: the n names from a position on, each with a space before it.\<close>

definition names :: "string list \<Rightarrow> nat \<Rightarrow> int \<Rightarrow> string option" where
  "names ss from n = cat (map (\<lambda>i. map_option ((@) '' '') (string_at ss (from + i))) [0..<nat n])"

definition spaced_names :: "string list \<Rightarrow> string" where
  "spaced_names ss = (case ss of [] \<Rightarrow> [] | s # ss' \<Rightarrow> s @ concat (map ((@) '' '') ss'))"

text \<open>A node without children of its own in the text.\<close>

definition leaf_text :: "(dbl \<Rightarrow> string) \<Rightarrow> node_kind \<Rightarrow> string \<Rightarrow> int \<Rightarrow> dbl \<Rightarrow> string option" where
  "leaf_text fp k txt i f =
     (case k of
        N_IntegerLit \<Rightarrow> Some (''(int '' @ show_int i @ '')'')
      | N_FloatLit \<Rightarrow> Some (''(float '' @ fp f @ '')'')
      | N_StringLit \<Rightarrow> Some (''(str '' @ SQ # txt @ SQ # '')'')
      | N_SymbolLit \<Rightarrow> Some (''(sym '' @ txt @ '')'')
      | N_CharLit \<Rightarrow> Some (''(char $'' @ txt @ '')'')
      | N_TrueLit \<Rightarrow> Some ''(true)''
      | N_FalseLit \<Rightarrow> Some ''(false)''
      | N_NilLit \<Rightarrow> Some ''(nil)''
      | N_Self \<Rightarrow> Some ''(self)''
      | N_Super \<Rightarrow> Some ''(super)''
      | N_ThisContext \<Rightarrow> Some ''(this-context)''
      | N_Identifier \<Rightarrow> Some (''(id '' @ txt @ '')'')
      | _ \<Rightarrow> None)"

text \<open>The text before the children, which follow on lines of their own.\<close>

definition block_head :: "node_kind \<Rightarrow> string \<Rightarrow> int \<Rightarrow> int \<Rightarrow> string list \<Rightarrow> bool \<Rightarrow> string option" where
  "block_head k txt i j ss b =
     (case k of
        N_Module \<Rightarrow> Some ''(module''
      | N_ArrayLit \<Rightarrow> Some ''(array''
      | N_DynArrayLit \<Rightarrow> Some ''(dyn-array''
      | N_Cascade \<Rightarrow> Some ''(cascade''
      | N_CallSend \<Rightarrow>
          Some (''(call '' @ txt @ '' npos='' @ show_int i @ '' nnamed='' @ show_int j @
            (if b then '' implicit-self'' else []) @ '' keys=('' @ spaced_names ss @ '')'')
      | N_Block \<Rightarrow> Some (''(block argc='' @ show_int i @ '' names=('' @ spaced_names ss @ '')'')
      | N_MethodDecl \<Rightarrow>
          cat [Some (''(method-decl '' @ txt @ '' ''), string_at ss 0, Some ('' '' @ show_int i @ '' (''),
            map_option (drop 1) (names ss 1 i), Some '')'', Some (if b then '' class-side'' else [])]
      | N_CallMethodDecl \<Rightarrow>
          cat [Some (''(call-method-decl '' @ txt @ '' ''), string_at ss 0,
            Some ('' npos='' @ show_int i @ '' nnamed='' @ show_int j @ (if b then '' class-side'' else []) @ '' (pos''),
            names ss 1 i, Some '') (named'', names ss (1 + nat i) j, Some '')'']
      | _ \<Rightarrow> None)"

definition inline_head :: "node_kind \<Rightarrow> string \<Rightarrow> string" where
  "inline_head k txt =
     (case k of N_UnarySend \<Rightarrow> ''(unary '' | N_BinarySend \<Rightarrow> ''(binary '' | _ \<Rightarrow> ''(keyword '') @ txt"

fun printNode :: "(dbl \<Rightarrow> string) \<Rightarrow> node \<Rightarrow> nat \<Rightarrow> string option" where
  "printNode fp (Node k l c txt i j f cs ss b) depth =
     (if k \<in> {N_UnarySend, N_BinarySend, N_KeywordSend} then
        cat (Some (inline_head k txt) #
          map (\<lambda>x. case x of None \<Rightarrow> None | Some m \<Rightarrow> map_option ((@) '' '') (printNode fp m depth)) cs @ [Some '')''])
      else if k = N_Assignment then
        (case cs of
           [] \<Rightarrow> Some (''(assign '' @ txt @ '')'')
         | None # _ \<Rightarrow> None
         | Some m # _ \<Rightarrow> map_option (\<lambda>t. ''(assign '' @ txt @ '' '' @ t @ '')'') (printNode fp m depth))
      else if k = N_Return then
        (case cs of
           [] \<Rightarrow> Some ''(^ )''
         | None # _ \<Rightarrow> None
         | Some m # _ \<Rightarrow> map_option (\<lambda>t. ''(^ '' @ t @ '')'') (printNode fp m depth))
      else if k = N_ClassDecl then
        cat [Some (''(class-decl '' @ txt @ '' ''), string_at ss 0, Some '' (inst-vars'',
          Some (concat (map ((@) '' '') (drop 1 ss)) @ ''))'')]
      else if leaf_text fp k txt i f \<noteq> None then leaf_text fp k txt i f
      else
        cat (block_head k txt i j ss b #
          map (\<lambda>x. case x of None \<Rightarrow> None | Some m \<Rightarrow> map_option (\<lambda>t. NL # indent (depth + 1) @ t) (printNode fp m (depth + 1))) cs @
          [Some '')'']))"

definition astToString :: "(dbl \<Rightarrow> string) \<Rightarrow> node \<Rightarrow> string option" where
  "astToString fp n = map_option (\<lambda>t. t @ [NL]) (printNode fp n 0)"

section \<open>Printing a well-formed tree\<close>

lemma cat_Some [simp]: "cat ts \<noteq> None \<longleftrightarrow> (\<forall>t \<in> set ts. t \<noteq> None)"
  by (cases "None \<in> set ts") (auto simp: cat_def, metis option.exhaust)

lemma string_at_Some [simp]: "string_at ss i \<noteq> None \<longleftrightarrow> i < length ss"
  by (simp add: string_at_def)

lemma names_Some: "names ss from n \<noteq> None \<longleftrightarrow> nat n = 0 \<or> from + nat n \<le> length ss"
  unfolding names_def cat_Some by (cases "nat n") (auto simp: string_at_def)

lemma kids_Some:
  assumes "\<forall>x \<in> set cs. \<exists>m. x = Some m \<and> q m \<noteq> None" "h \<noteq> None"
  shows "cat (h # map (\<lambda>x. case x of None \<Rightarrow> None | Some m \<Rightarrow> map_option g (q m)) cs @ [Some e]) \<noteq> None"
  unfolding cat_Some using assms by fastforce

lemma wf_children:
  assumes "wf_as msg n" "x \<in> set (n_children n)"
  shows "\<exists>m msg'. x = Some m \<and> wf_as msg' m"
proof (cases msg)
  case True
  with assms show ?thesis
    by (auto simp: wf_message_iff [of n] list_all_iff split: if_splits option.splits) (meson option.exhaust)+
next
  case False
  with assms show ?thesis
    by (cases "n_children n") (auto simp: wf_node_iff [of n] list_all_iff split: if_splits option.splits, blast+)
qed

lemma head_Some:
  assumes "wf_as msg n" "leaf_text fp (n_kind n) t i f = None"
    "n_kind n \<notin> {N_UnarySend, N_BinarySend, N_KeywordSend, N_Assignment, N_Return, N_ClassDecl}"
  shows "block_head (n_kind n) (n_text n) (n_int n) (n_int2 n) (n_strings n) (n_flag n) \<noteq> None"
proof -
  consider "n_kind n \<in> {N_Module, N_ArrayLit, N_DynArrayLit, N_Cascade, N_CallSend, N_Block}"
    | "n_kind n = N_MethodDecl" | "n_kind n = N_CallMethodDecl"
    using assms(2,3) by (cases "n_kind n") (auto simp: leaf_text_def)
  then show ?thesis
  proof cases
    case 1
    then show ?thesis by (auto simp: block_head_def)
  next
    case 2
    with assms(1) have "0 \<le> n_int n" "1 + n_int n \<le> int (length (n_strings n))"
      by (cases msg; simp add: wf_message_iff [of n] wf_node_iff [of n] arity_ok_def message_ok_def)+
    with 2 show ?thesis by (auto simp: block_head_def names_Some simp del: not_None_eq)
  next
    case 3
    with assms(1) have "0 \<le> n_int n" "0 \<le> n_int2 n" "1 + n_int n + n_int2 n \<le> int (length (n_strings n))"
      by (cases msg; simp add: wf_message_iff [of n] wf_node_iff [of n] arity_ok_def message_ok_def)+
    with 3 show ?thesis by (auto simp: block_head_def names_Some simp del: not_None_eq)
  qed
qed

lemma printNode_Some: "wf_as msg n \<Longrightarrow> printNode fp n depth \<noteq> None"
proof (induction fp n depth arbitrary: msg rule: printNode.induct)
  case (1 fp k l c tx i j f cs ss b depth)
  have kids: "\<exists>m msg'. x = Some m \<and> wf_as msg' m" if "x \<in> set cs" for x
    using wf_children [OF "1.prems", of x] that by simp
  have inl: "printNode fp m depth \<noteq> None" if "Some m \<in> set cs" "k \<in> {N_UnarySend, N_BinarySend, N_KeywordSend}" for m
    using "1.IH"(1) [OF that(2,1) refl] kids [OF that(1)] by auto
  have first: "printNode fp m depth \<noteq> None" if "cs = Some m # ms" "k = N_Assignment \<or> k = N_Return" for m ms
    using "1.IH"(2) [OF _ _ that(1) refl] "1.IH"(3) [OF _ _ _ that(1) refl] kids [of "Some m"] that by auto
  have blk: "printNode fp m (depth + 1) \<noteq> None" if "Some m \<in> set cs"
    "k \<notin> {N_UnarySend, N_BinarySend, N_KeywordSend, N_Assignment, N_Return, N_ClassDecl}" "leaf_text fp k tx i f = None" for m
    using "1.IH"(4) [OF _ _ _ _ _ that(1) refl] kids [OF that(1)] that(2,3) by auto
  consider (c_inl) "k \<in> {N_UnarySend, N_BinarySend, N_KeywordSend}" | (c_first) "k = N_Assignment \<or> k = N_Return" | (c_cls) "k = N_ClassDecl"
    | (c_leaf) "k \<notin> {N_UnarySend, N_BinarySend, N_KeywordSend, N_Assignment, N_Return, N_ClassDecl}" "leaf_text fp k tx i f \<noteq> None"
    | (c_blk) "k \<notin> {N_UnarySend, N_BinarySend, N_KeywordSend, N_Assignment, N_Return, N_ClassDecl}" "leaf_text fp k tx i f = None"
    by blast
  then show ?case
  proof cases
    case c_inl
    then have "\<forall>x \<in> set cs. \<exists>m. x = Some m \<and> printNode fp m depth \<noteq> None" using kids inl by blast
    from kids_Some [OF this, of "Some (inline_head k tx)" "(@) '' ''" "'')''"] c_inl show ?thesis
      by (simp only: printNode.simps if_True) simp
  next
    case c_first
    then show ?thesis
    proof (cases cs)
      case (Cons x ms)
      with kids obtain m where "x = Some m" by auto
      with Cons c_first first [of m ms] show ?thesis by auto
    qed auto
  next
    case c_cls
    with "1.prems" have "ss \<noteq> []" by (cases msg) (auto simp: arity_ok_def message_ok_def)
    with c_cls show ?thesis by (simp del: not_None_eq)
  next
    case c_leaf
    then show ?thesis by simp
  next
    case c_blk
    then have all: "\<forall>x \<in> set cs. \<exists>m. x = Some m \<and> printNode fp m (depth + 1) \<noteq> None" using kids blk by blast
    have "block_head k tx i j ss b \<noteq> None" using head_Some [OF "1.prems", of fp tx i f] c_blk by simp
    from kids_Some [OF all this] c_blk show ?thesis by (simp only: printNode.simps) simp
  qed
qed

text \<open>A named argument without a value: the parser reports it and leaves a null child.\<close>

lemma null_argument:
  "map_option (\<lambda>(md, errs). (errs = [], astToString (\<lambda>_. []) md)) (parse_source ''a f(k=)'') = Some (False, None)"
  by code_simp

text \<open>
  C39. A text without syntax errors is printed: the printer follows no null child and reads
  no name past the end of a name list.  After a syntax error it may: the parser answers a
  tree with a null child for \<open>a f(k=)\<close>, and \<open>--dump-ast\<close> prints the tree in either case.
\<close>

theorem dump_ast:
  assumes "parse_source src = Some (md, [])"
  shows "astToString fp md \<noteq> None \<and>
    (\<exists>md errs. parse_source ''a f(k=)'' = Some (md, errs) \<and> errs \<noteq> [] \<and> astToString (\<lambda>_. []) md = None)"
proof
  have "wf_node md" using assms parse_source_post [of src] by auto
  then show "astToString fp md \<noteq> None" using printNode_Some [of False md fp 0] by (simp add: astToString_def)
  show "\<exists>md errs. parse_source ''a f(k=)'' = Some (md, errs) \<and> errs \<noteq> [] \<and> astToString (\<lambda>_. []) md = None"
    using null_argument by (cases "parse_source ''a f(k=)''") auto
qed

lemma dump_ast_witness: "astToString (\<lambda>_. []) (fst (the (parse_source ''a at: b+c''))) \<noteq> None"
  using dump_ast [OF sample_parses] by blast

end
