(* ===== verification/Disassembler.thy ===== *)
theory Disassembler
  imports BytecodeScan LexerForms
begin

text \<open>
  src/runtime/Disassembler.cpp: the listing of a compiled module.  The instructions are
  decoded as in Bytecode; the digits of a Float (\<open>%.17g\<close>) are a parameter.
\<close>

section \<open>Text\<close>

fun opName :: "op \<Rightarrow> string" where
  "opName PUSH_CONST = ''PUSH_CONST''"
| "opName PUSH_LOCAL = ''PUSH_LOCAL''"
| "opName STORE_LOCAL = ''STORE_LOCAL''"
| "opName DUP = ''DUP''"
| "opName POP = ''POP''"
| "opName PUSH_SELF = ''PUSH_SELF''"
| "opName PUSH_NIL = ''PUSH_NIL''"
| "opName PUSH_TRUE = ''PUSH_TRUE''"
| "opName PUSH_FALSE = ''PUSH_FALSE''"
| "opName SEND_UNARY = ''SEND_UNARY''"
| "opName SEND_BINARY = ''SEND_BINARY''"
| "opName SEND_KEYWORD = ''SEND_KEYWORD''"
| "opName SEND_SUPER = ''SEND_SUPER''"
| "opName JUMP = ''JUMP''"
| "opName JUMP_IF_TRUE = ''JUMP_IF_TRUE''"
| "opName JUMP_IF_FALSE = ''JUMP_IF_FALSE''"
| "opName RETURN = ''RETURN''"
| "opName RETURN_TOP = ''RETURN_TOP''"
| "opName PUSH_BLOCK = ''PUSH_BLOCK''"
| "opName PUSH_CAPTURED = ''PUSH_CAPTURED''"
| "opName STORE_CAPTURED = ''STORE_CAPTURED''"
| "opName PUSH_GLOBAL = ''PUSH_GLOBAL''"
| "opName STORE_GLOBAL = ''STORE_GLOBAL''"
| "opName PUSH_INSTVAR = ''PUSH_INSTVAR''"
| "opName STORE_INSTVAR = ''STORE_INSTVAR''"
| "opName MAKE_CAPTURED = ''MAKE_CAPTURED''"
| "opName MAKE_ARRAY = ''MAKE_ARRAY''"
| "opName JUMP_BACK = ''JUMP_BACK''"
| "opName BIN_INT_ADD = ''BIN_INT_ADD''"
| "opName BIN_INT_SUB = ''BIN_INT_SUB''"
| "opName BIN_INT_LE = ''BIN_INT_LE''"
| "opName BIN_INT_LT = ''BIN_INT_LT''"
| "opName BIN_INT_GE = ''BIN_INT_GE''"
| "opName BIN_INT_GT = ''BIN_INT_GT''"
| "opName BIN_INT_EQ = ''BIN_INT_EQ''"
| "opName ASSERT_BOOL_OR_DNU = ''ASSERT_BOOL_OR_DNU''"
| "opName SEND_CALL = ''SEND_CALL''"
| "opName DEFINE_CAPTURED = ''DEFINE_CAPTURED''"
| "opName STORE_CLASSVAR = ''STORE_CLASSVAR''"
| "opName PUSH_OWN_INSTVAR = ''PUSH_OWN_INSTVAR''"
| "opName IVAR_GROUP = ''IVAR_GROUP''"
| "opName IVAR_GROUP_END = ''IVAR_GROUP_END''"
| "opName EXTEND = ''EXTEND''"

definition pad_left :: "nat \<Rightarrow> string \<Rightarrow> string" where
  "pad_left n s = replicate (n - length s) (CHR '' '') @ s"

definition pad_right :: "nat \<Rightarrow> string \<Rightarrow> string" where
  "pad_right n s = s @ replicate (n - length s) (CHR '' '')"

text \<open>A \<open>%s\<close> argument ends at its first NUL; \<open>snprintf\<close> into \<open>char buf[256]\<close> keeps 255 bytes.\<close>

definition c_arg :: "string \<Rightarrow> string" where
  "c_arg s = takeWhile (\<lambda>c. c \<noteq> NUL) s"

definition buf256 :: "string \<Rightarrow> string" where
  "buf256 s = take 255 s"

definition quoted :: "string \<Rightarrow> string" where
  "quoted s = SQ # concat (map (\<lambda>c.
     if c = SQ then [SQ, SQ]
     else if c = NL then [CHR 0x5C, CHR ''n'']
     else if c = CHR 0x09 then [CHR 0x5C, CHR ''t'']
     else if c = CHR 0x0D then [CHR 0x5C, CHR ''r'']
     else [c]) s) @ [SQ]"

definition constText :: "(dbl \<Rightarrow> string) \<Rightarrow> const \<Rightarrow> string" where
  "constText fp k =
     (case c_kind k of
        C_Integer \<Rightarrow> show_int (c_ival k)
      | C_Float \<Rightarrow> fp (c_fval k)
      | C_LargeInteger \<Rightarrow> c_sval k @ '' (radix '' @ show_int (c_ival k) @ '')''
      | C_String \<Rightarrow> quoted (c_sval k)
      | C_Symbol \<Rightarrow> ''#'' @ c_sval k
      | C_Char \<Rightarrow> ''$'' @ c_sval k
      | C_UnsetMarker \<Rightarrow> ''<unset>'')"

definition constKindName :: "const_kind \<Rightarrow> string" where
  "constKindName k =
     (case k of C_Integer \<Rightarrow> ''integer'' | C_Float \<Rightarrow> ''float'' | C_LargeInteger \<Rightarrow> ''largeint'' | C_String \<Rightarrow> ''string''
      | C_Symbol \<Rightarrow> ''symbol'' | C_Char \<Rightarrow> ''char'' | C_UnsetMarker \<Rightarrow> ''unset'')"

definition nameAt :: "(dbl \<Rightarrow> string) \<Rightarrow> core \<Rightarrow> nat \<Rightarrow> string" where
  "nameAt fp c i =
     (if i \<ge> length (m_consts c) then ''<constant out of range>''
      else let k = m_consts c ! i in
        if c_kind k \<noteq> C_Symbol then ''<not a symbol: '' @ constText fp k @ ''>'' else c_sval k)"

definition slotText :: "core \<Rightarrow> nat \<Rightarrow> string" where
  "slotText c slot = (let n = localName c slot in if n = [] then ''slot '' @ show_nat slot else n)"

section \<open>One instruction\<close>

text \<open>The operand and the comment; \<open>next\<close> is the word after the instruction.\<close>

definition group_note :: "(dbl \<Rightarrow> string) \<Rightarrow> core \<Rightarrow> nat \<Rightarrow> string" where
  "group_note fp c a =
     (if a < length (m_groups c) then
        let e = m_groups c ! a in nameAt fp c (g_name e) @ '', write '' @ show_nat (g_position e + 1) @ '' of '' @ show_nat (g_count e)
      else ''<group entry out of range>'')"

definition block_note :: "bmodule list \<Rightarrow> string \<Rightarrow> nat \<Rightarrow> string" where
  "block_note bs path a =
     (if a < length bs then
        let dn = m_debugName (m_core (bs ! a)) in path @ ''.'' @ show_nat a @ (if dn = [] then [] else '' ('' @ dn @ '')'')
      else ''<block out of range>'')"

definition instr_note :: "(dbl \<Rightarrow> string) \<Rightarrow> core \<Rightarrow> bmodule list \<Rightarrow> string \<Rightarrow> nat \<Rightarrow> op \<Rightarrow> nat \<Rightarrow> string option" where
  "instr_note fp c bs path next o' a =
     (if o' = PUSH_CONST then
        Some (if a < length (m_consts c) then constText fp (m_consts c ! a) else ''<constant out of range>'')
      else if o' \<in> {PUSH_LOCAL, STORE_LOCAL} then Some (slotText c a)
      else if o' \<in> {SEND_UNARY, SEND_BINARY, BIN_INT_ADD, BIN_INT_SUB, BIN_INT_LE, BIN_INT_LT, BIN_INT_GE, BIN_INT_GT,
        BIN_INT_EQ, ASSERT_BOOL_OR_DNU} then Some (''#'' @ nameAt fp c a)
      else if o' \<in> {SEND_KEYWORD, SEND_SUPER} then
        let sel = nameAt fp c a; n = sendArgCount o' sel
        in Some (''#'' @ sel @ '', '' @ show_nat n @ (if n = 1 then '' arg'' else '' args''))
      else if o' = SEND_CALL then Some (''call '' @ nameAt fp c a)
      else if o' \<in> {PUSH_GLOBAL, STORE_GLOBAL, PUSH_CAPTURED, STORE_CAPTURED, DEFINE_CAPTURED, PUSH_INSTVAR, STORE_INSTVAR,
        PUSH_OWN_INSTVAR, STORE_CLASSVAR} then Some (nameAt fp c a)
      else if o' \<in> {JUMP, JUMP_IF_TRUE, JUMP_IF_FALSE} then Some (''-> '' @ show_nat (next + a))
      else if o' = JUMP_BACK then Some (if a \<le> next then ''-> '' @ show_nat (next - a) else ''<before the start>'')
      else if o' = PUSH_BLOCK then Some (block_note bs path a)
      else if o' = MAKE_ARRAY then Some (show_nat a @ (if a = 1 then '' element'' else '' elements''))
      else if o' = MAKE_CAPTURED then Some (if a = 1 then ''child of the inherited dict'' else ''method root dict'')
      else if o' \<in> {IVAR_GROUP, IVAR_GROUP_END} then Some (group_note fp c a)
      else None)"

definition instr_line :: "(dbl \<Rightarrow> string) \<Rightarrow> core \<Rightarrow> bmodule list \<Rightarrow> string \<Rightarrow> instr \<Rightarrow> string" where
  "instr_line fp c bs path i =
     (let mo = op_of (i_op i);
          name = (case mo of Some o' \<Rightarrow> opName o' | None \<Rightarrow> ''unknown opcode '' @ show_nat (unat (i_op i)));
          comment = (case mo of Some o' \<Rightarrow> instr_note fp c bs path (i_word i + i_words i) o' (i_arg i) | None \<Rightarrow> None);
          operand = (if comment \<noteq> None \<or> i_arg i \<noteq> 0 \<or> mo = None then show_nat (i_arg i) else []);
          text = (case comment of None \<Rightarrow> [] | Some t \<Rightarrow> t);
          note = text @ (if i_words i > 1 then (if text = [] then ''(wide)'' else '' (wide)'') else []);
          line = buf256 (''    '' @ pad_left 3 (show_nat (i_word i)) @ ''  '' @ pad_right 18 (c_arg name) @ '' '' @ pad_right 6 operand) @
            (if note = [] then [] else ''; '' @ note)
      in rev (dropWhile (\<lambda>ch. ch = CHR '' '') (rev line)) @ [NL])"

section \<open>A module\<close>

definition locals_text :: "core \<Rightarrow> string" where
  "locals_text c =
     (case m_localNames c of
        [] \<Rightarrow> []
      | _ \<Rightarrow> '' ('' @ drop 2 (concat (map (\<lambda>i. '', '' @ show_nat i @ '' '' @ slotText c i) [0..<length (m_localNames c)])) @ '')'')"

definition frame_text :: "core \<Rightarrow> string" where
  "frame_text c =
     ''  args '' @ show_int (m_argCount c) @ '', locals '' @ show_nat (computeLocalCount (nat (m_argCount c)) c) @ locals_text c @
     '', stack '' @ show_int (operandStackCapacity c) @ '' (deepest '' @ show_int (computeMaxOperandDepth c) @ '')'' @ [NL]"

definition class_text :: "core \<Rightarrow> string" where
  "class_text c = (if m_defClass c = [] then [] else ''  defining class '' @ m_defClass c @ [NL])"

definition callForm_text :: "core \<Rightarrow> string" where
  "callForm_text c =
     (if m_callForm c then ''  call form: '' @ show_int (m_posArity c) @ '' positional'' @
        concat (map (\<lambda>k. '', '' @ k @ ''='') (m_namedKeys c)) @ [NL]
      else [])"

definition scoped_text :: "core \<Rightarrow> string" where
  "scoped_text c = concat (map (\<lambda>s. buf256 (''  slot '' @ show_nat (sl_slot s) @ '' is '' @ SQ # c_arg (sl_name s) @ SQ # '' in words '' @
     show_nat (sl_from s div kInstrSize) @ ''..'' @ show_nat (sl_to s div kInstrSize) @ [NL])) (m_scoped c))"

definition groups_text :: "(dbl \<Rightarrow> string) \<Rightarrow> core \<Rightarrow> string" where
  "groups_text fp c =
     (if m_groups c = [] then []
      else ''  write groups:'' @ NL # concat (map (\<lambda>i. let e = m_groups c ! i in
        buf256 (''    @'' @ pad_right 3 (show_nat i) @ '' '' @ c_arg (nameAt fp c (g_name e)) @ '', write '' @ show_nat (g_position e + 1) @
          '' of '' @ show_nat (g_count e) @ [NL])) [0..<length (m_groups c)]))"

definition consts_text :: "(dbl \<Rightarrow> string) \<Rightarrow> core \<Rightarrow> string" where
  "consts_text fp c =
     (if m_consts c = [] then []
      else ''  constants:'' @ NL # concat (map (\<lambda>i. let k = m_consts c ! i in
        buf256 (''    #'' @ pad_right 3 (show_nat i) @ '' '' @ pad_right 9 (constKindName (c_kind k)) @ '' '') @ constText fp k @ [NL])
        [0..<length (m_consts c)]))"

definition module_text :: "(dbl \<Rightarrow> string) \<Rightarrow> core \<Rightarrow> bmodule list \<Rightarrow> string \<Rightarrow> string" where
  "module_text fp c bs path =
     ''module '' @ path @ '': '' @ (if m_debugName c = [] then ''<unnamed>'' else m_debugName c) @ NL #
     frame_text c @ class_text c @ callForm_text c @ scoped_text c @ groups_text fp c @ consts_text fp c @
     ''  code:'' @ NL # concat (map (instr_line fp c bs path) (decode c))"

function listModule :: "(dbl \<Rightarrow> string) \<Rightarrow> bmodule \<Rightarrow> string \<Rightarrow> string" where
  "listModule fp (BModule c bs) path =
     module_text fp c bs path @
     concat (map (\<lambda>i. NL # listModule fp (bs ! i) (path @ ''.'' @ show_nat i)) [0..<length bs])"
  by pat_completeness auto
termination
proof (relation "measure (\<lambda>(fp, m, path). size m)", goal_cases)
  case (2 fp c bs path i)
  then have "size (bs ! i) \<le> size_list size bs" using size_list_estimation' [of "bs ! i" bs "size (bs ! i)" size] by simp
  then show ?case by simp
qed simp

definition disassemble :: "(dbl \<Rightarrow> string) \<Rightarrow> bmodule \<Rightarrow> string" where
  "disassemble fp m = listModule fp m ''main''"

end
