(* ===== verification/DisassemblerLaws.thy ===== *)
theory DisassemblerLaws
  imports Disassembler CodeGenJumps
begin

text \<open>
  What the listing says: the targets it prints for the jumps of compiled code are words
  that it lists, and a String constant is printed as the literal that reads back as it.
\<close>

fun modules_in :: "bmodule \<Rightarrow> bmodule list" where
  "modules_in (BModule c bs) = BModule c bs # concat (map modules_in bs)"

lemma jumps_land_inside: "jumps_land m \<Longrightarrow> m' \<in> set (modules_in m) \<Longrightarrow> jumps_land m'"
  by (induction m rule: modules_in.induct) (auto simp: list_all_iff)


section \<open>String constants\<close>

lemma quoted_plain: "list_all (\<lambda>c. c \<notin> {NL, CHR 0x09, CHR 0x0D}) s \<Longrightarrow> quoted s = quote s"
  by (induction s) (auto simp: quoted_def quote_def)

text \<open>A newline and a backslash followed by n are printed alike.\<close>

lemma quoted_not_inj: "quoted [NL] = quoted [CHR 0x5C, CHR ''n'']"
  by (simp add: quoted_def)

lemma constant_reads_back:
  assumes "c_kind k = C_String" "list_all (\<lambda>c. c \<notin> {NL, CHR 0x09, CHR 0x0D}) (c_sval k)"
  shows "t_kind (fst (lexOne (lexer_init (constText fp k)))) = T_String \<and> t_text (fst (lexOne (lexer_init (constText fp k)))) = c_sval k"
proof -
  let ?l = "lexer_init (quote (c_sval k))"
  have "take 2 (quote (c_sval k)) \<noteq> ''#!''" by (simp add: quote_def)
  then have "rest ?l = quote (c_sval k) @ []" "\<not> lx_unterminated ?l" by (simp_all add: lexer_init_def rest_def)
  from string_roundtrip [OF this(2,1)] show ?thesis using assms by (simp add: constText_def quoted_plain)
qed

section \<open>On an example\<close>

abbreviation branch_result :: env where
  "branch_result \<equiv> fst (compileModule False True [] [] branch_module)"

abbreviation branch_code :: core where
  "branch_code \<equiv> m_core (e_mod branch_result)"

lemma branch_listing:
  "e_fail branch_result = None"
  "length (m_bytes branch_code) = 14"
  "decode branch_code ! 2 = \<lparr>i_word = 2, i_words = 1, i_op = 17, i_arg = 2\<rparr>"
  "length (decode branch_code) = 7"
  by code_simp+


end
